(* ===== verification/Axon_Prelude.thy ===== *)
theory Axon_Prelude
  imports Main "HOL-Library.List_Lexorder"
begin

text \<open>
  Shared vocabulary of the development.

  \<^item> Time: an \<open>instant\<close> and a \<open>duration\<close> are natural numbers of nanoseconds
    (Rust's \<^verbatim>\<open>Instant\<close> and \<^verbatim>\<open>Duration\<close> have nanosecond resolution).
  \<^item> Text: a Rust \<^verbatim>\<open>str\<close> is the list of its Unicode scalar values (\<open>rstr\<close>);
    \<open>lit\<close> turns an ASCII literal into one. Byte lengths go through \<open>utf8\<close>.
  \<^item> Interfaces: \<open>inv_system\<close> (a step relation with an inductive invariant) and
    \<open>codec\<close> (an encoder with a decoder that inverts it), which the component
    theories interpret on their own definitions.
  \<^item> \<open>axon_simps\<close> collects the rewrite rules on text and numbers that the component proofs
    share.
\<close>

named_theorems axon_simps \<open>rewrite rules shared by component proofs\<close>

section \<open>Time\<close>

type_synonym instant = nat
type_synonym duration = nat

definition from_secs :: "nat \<Rightarrow> duration" where
  "from_secs s = s * 1000000000"

text \<open>\<^verbatim>\<open>Duration::MAX\<close>: \<^verbatim>\<open>u64::MAX\<close> seconds and 999999999 nanoseconds.\<close>

definition DURATION_MAX :: duration where
  "DURATION_MAX = (2 ^ 64 - 1) * 1000000000 + 999999999"

definition saturating_mul :: "duration \<Rightarrow> nat \<Rightarrow> duration" where
  "saturating_mul d k = min (d * k) DURATION_MAX"

text \<open>\<^verbatim>\<open>now.saturating_duration_since(at)\<close> is zero when \<open>at\<close> lies in the future.\<close>

definition saturating_duration_since :: "instant \<Rightarrow> instant \<Rightarrow> duration" where
  "saturating_duration_since now at = now - at"

section \<open>Text\<close>

type_synonym rstr = "nat list"

definition lit :: "string \<Rightarrow> rstr" where
  "lit s = map of_char s"

lemma lit_inject: "lit s = lit t \<longleftrightarrow> s = t"
proof
  assume "lit s = lit t"
  moreover have "inj (of_char :: char \<Rightarrow> nat)"
    by (rule injI) simp
  ultimately show "s = t"
    by (simp add: lit_def inj_map_eq_map)
qed simp

lemma lit_Nil [simp]: "lit [] = []"
  by (simp add: lit_def)

lemma length_lit [simp]: "length (lit s) = length s"
  by (simp add: lit_def)

text \<open>The UTF-8 encoding of a scalar value and of a string.\<close>

definition utf8_char :: "nat \<Rightarrow> nat list" where
  "utf8_char c =
     (if c < 128 then [c]
      else if c < 2048 then [192 + c div 64, 128 + c mod 64]
      else if c < 65536 then [224 + c div 4096, 128 + c div 64 mod 64, 128 + c mod 64]
      else [240 + c div 262144, 128 + c div 4096 mod 64, 128 + c div 64 mod 64, 128 + c mod 64])"

definition utf8 :: "rstr \<Rightarrow> nat list" where
  "utf8 s = concat (map utf8_char s)"

lemma utf8_ascii: "\<forall>c \<in> set s. c < 128 \<Longrightarrow> utf8 s = s"
  by (induction s) (auto simp: utf8_def utf8_char_def)

text \<open>Decimal digits, most significant first, as \<^verbatim>\<open>to_string\<close> writes an unsigned integer.\<close>

fun dec_nat :: "nat \<Rightarrow> rstr" where
  "dec_nat n = (if n < 10 then [48 + n] else dec_nat (n div 10) @ [48 + n mod 10])"

declare dec_nat.simps [simp del]

section \<open>Lists and options\<close>

text \<open>\<^verbatim>\<open>Iterator::min\<close>: \<^verbatim>\<open>None\<close> on an empty iterator.\<close>

primrec min_opt :: "'a::linorder list \<Rightarrow> 'a option" where
  "min_opt [] = None"
| "min_opt (x # xs) = Some (case min_opt xs of None \<Rightarrow> x | Some m \<Rightarrow> min x m)"

lemma min_opt_None [simp]: "min_opt xs = None \<longleftrightarrow> xs = []"
  by (cases xs) auto

lemma min_opt_in: "min_opt xs = Some m \<Longrightarrow> m \<in> set xs"
  by (induction xs arbitrary: m) (auto simp: min_def split: option.splits if_splits)

lemma min_opt_le: "min_opt xs = Some m \<Longrightarrow> x \<in> set xs \<Longrightarrow> m \<le> x"
  by (induction xs arbitrary: m) (auto simp: min_def split: option.splits if_splits)

lemma min_opt_less: "min_opt xs = Some m \<Longrightarrow> t < m \<Longrightarrow> x \<in> set xs \<Longrightarrow> t < x"
  by (rule less_le_trans [OF _ min_opt_le])

lemma div_carry:
  fixes a b c :: nat
  assumes "c \<noteq> 0"
  shows "a div c + (a mod c + b) div c = (a + b) div c"
proof -
  have "a + b = (a mod c + b) + c * (a div c)"
    by simp
  then show ?thesis
    using assms by (metis add.commute div_mult_self2)
qed

lemma filter_eq_self: "(\<And>x. x \<in> set xs \<Longrightarrow> P x) \<Longrightarrow> filter P xs = xs"
  by (induction xs) auto

lemma length_filter_remove1:
  "x \<in> set xs \<Longrightarrow> P x \<Longrightarrow> Suc (length (filter P (remove1 x xs))) = length (filter P xs)"
  by (induction xs) auto

lemma filter_remove1_not: "\<not> P x \<Longrightarrow> filter P (remove1 x xs) = filter P xs"
  by (induction xs) auto

lemma length_remove1_Suc: "x \<in> set xs \<Longrightarrow> Suc (length (remove1 x xs)) = length xs"
  by (induction xs) auto

section \<open>Interfaces\<close>

text \<open>
  A transition system with an inductive invariant: every state reached from an initial
  one by any number of steps satisfies the invariant.
\<close>

locale inv_system =
  fixes init :: "'s \<Rightarrow> bool"
    and step :: "'s \<Rightarrow> 's \<Rightarrow> bool"
    and inv :: "'s \<Rightarrow> bool"
  assumes init_inv: "init s \<Longrightarrow> inv s"
    and step_inv: "inv s \<Longrightarrow> step s t \<Longrightarrow> inv t"
begin

lemma steps_inv: "step\<^sup>*\<^sup>* s t \<Longrightarrow> inv s \<Longrightarrow> inv t"
proof (induction rule: rtranclp_induct)
  case (step t u)
  from step.IH [OF step.prems] step.hyps(2) show ?case by (rule step_inv)
qed

lemma reach_inv: "init s \<Longrightarrow> step\<^sup>*\<^sup>* s t \<Longrightarrow> inv t"
  by (rule steps_inv [OF _ init_inv])

end

text \<open>An encoder and a decoder that inverts it on the values satisfying \<open>ok\<close>.\<close>

locale codec =
  fixes enc :: "'a \<Rightarrow> 'b"
    and dec :: "'b \<Rightarrow> 'a option"
    and ok :: "'a \<Rightarrow> bool"
  assumes dec_enc: "ok x \<Longrightarrow> dec (enc x) = Some x"
begin

lemma enc_inj: "ok x \<Longrightarrow> ok y \<Longrightarrow> enc x = enc y \<Longrightarrow> x = y"
  by (metis dec_enc option.inject)

end

end
