(* ===== verification/Gate_State.thy ===== *)
theory Gate_State
  imports Axon_Prelude
begin

text \<open>
  The load gate's state machine: \<^verbatim>\<open>State\<close>, \<^verbatim>\<open>Breaker\<close>, \<^verbatim>\<open>Admission\<close> and
  \<^verbatim>\<open>Outcome\<close> of \<^verbatim>\<open>crates/axon-sync/src/homeserver_gate.rs\<close>, with the outcome
  classification of gated requests. Log calls are left out; the counters
  (\<^verbatim>\<open>u32\<close>, \<^verbatim>\<open>u64\<close>) are natural numbers, and the two decrements of \<open>active\<close>
  are checked (\<open>None\<close> is the arithmetic panic), so that their absence is a theorem
  of \<open>Gate_System\<close> and not an assumption.
\<close>

section \<open>Constants\<close>

definition INITIAL_LIMIT :: nat where
  "INITIAL_LIMIT = 2"

definition MAX_LIMIT :: nat where
  "MAX_LIMIT = 4"

definition GROW_AFTER :: nat where
  "GROW_AFTER = 10"

definition TIMEOUT_HOLD :: duration where
  "TIMEOUT_HOLD = from_secs (15 * 60)"

definition COOLDOWN :: duration where
  "COOLDOWN = from_secs 60"

definition COOLDOWN_MAX :: duration where
  "COOLDOWN_MAX = from_secs (30 * 60)"

definition is_fast :: "duration \<Rightarrow> duration \<Rightarrow> bool" where
  "is_fast elapsed timeout \<longleftrightarrow> elapsed < timeout div 2"

definition cooldown :: "nat \<Rightarrow> duration" where
  "cooldown reopenings = min (saturating_mul COOLDOWN (2 ^ min reopenings 16)) COOLDOWN_MAX"

section \<open>Outcomes\<close>

datatype caller = Background | Interactive

datatype outcome = Success | TimedOut | Overloaded | Refused | Local

text \<open>
  What the classifier reads of the SDK's errors: the four \<^verbatim>\<open>reqwest\<close> predicates and,
  for an API error, the status code of its client-API form when it has one.
\<close>

record reqwest_error =
  re_timeout :: bool
  re_builder :: bool
  re_redirect :: bool
  re_decode :: bool

datatype http_error =
    Reqwest reqwest_error
  | Api "nat option"
  | Cached http_error
  | OtherHttp

fun http_outcome :: "http_error \<Rightarrow> outcome" where
  "http_outcome (Reqwest e) =
     (if re_timeout e then TimedOut
      else if re_builder e then Local
      else if re_redirect e \<or> re_decode e then Refused
      else Overloaded)"
| "http_outcome (Api status) =
     (case status of
        Some c \<Rightarrow> if c = 429 \<or> (500 \<le> c \<and> c \<le> 599) then Overloaded else Refused
      | None \<Rightarrow> Refused)"
| "http_outcome (Cached inner) = http_outcome inner"
| "http_outcome OtherHttp = Local"

datatype sdk_error = SdkHttp http_error | SdkOther

fun sdk_outcome :: "sdk_error \<Rightarrow> outcome" where
  "sdk_outcome (SdkHttp e) = http_outcome e"
| "sdk_outcome SdkOther = Local"

datatype gateway_error =
    GwEventTooLarge
  | GwUnknownAccount nat
  | GwAccountNotActive nat
  | GwNotConnected rstr
  | GwRoomNotFound rstr
  | GwMediaNotFound rstr
  | GwForbidden rstr
  | GwInvalid rstr
  | GwUpstream rstr
  | GwOverloaded rstr
  | GwTimeout rstr
  | GwUndecryptable rstr

fun gateway_outcome :: "gateway_error \<Rightarrow> outcome" where
  "gateway_outcome (GwTimeout _) = TimedOut"
| "gateway_outcome (GwOverloaded _) = Overloaded"
| "gateway_outcome GwEventTooLarge = Refused"
| "gateway_outcome (GwMediaNotFound _) = Refused"
| "gateway_outcome (GwForbidden _) = Refused"
| "gateway_outcome (GwInvalid _) = Refused"
| "gateway_outcome (GwUpstream _) = Refused"
| "gateway_outcome (GwUnknownAccount _) = Local"
| "gateway_outcome (GwAccountNotActive _) = Local"
| "gateway_outcome (GwNotConnected _) = Local"
| "gateway_outcome (GwRoomNotFound _) = Local"
| "gateway_outcome (GwUndecryptable _) = Local"

text \<open>The result of a request bounded by an outer timeout.\<close>

datatype ('t, 'e) bounded = Elapsed | Answered "'e + 't"

definition outcome_of :: "('e \<Rightarrow> outcome) \<Rightarrow> ('t, 'e) bounded \<Rightarrow> outcome" where
  "outcome_of err result =
     (case result of
        Elapsed \<Rightarrow> TimedOut
      | Answered (Inr _) \<Rightarrow> Success
      | Answered (Inl e) \<Rightarrow> err e)"

section \<open>The state\<close>

datatype breaker = Closed | Open instant instant | Probing instant

record gate_state =
  gs_limit :: nat
  gs_active :: nat
  gs_held :: "instant list"
  gs_fast :: nat
  gs_epoch :: nat
  gs_breaker :: breaker
  gs_reopenings :: nat
  gs_queue :: "(nat \<times> instant) list"
  gs_long_polls :: "(nat \<times> instant) list"
  gs_next_id :: nat

datatype gate_admission = Admit nat bool | Wait "instant option"

definition state_new :: gate_state where
  "state_new = \<lparr>gs_limit = INITIAL_LIMIT, gs_active = 0, gs_held = [], gs_fast = 0,
     gs_epoch = 0, gs_breaker = Closed, gs_reopenings = 0, gs_queue = [],
     gs_long_polls = [], gs_next_id = 0\<rparr>"

definition next_id :: "gate_state \<Rightarrow> nat \<times> gate_state" where
  "next_id s = (Suc (gs_next_id s), s\<lparr>gs_next_id := Suc (gs_next_id s)\<rparr>)"

definition release_expired_holds :: "gate_state \<Rightarrow> instant \<Rightarrow> gate_state" where
  "release_expired_holds s now = s\<lparr>gs_held := filter (\<lambda>until. now < until) (gs_held s)\<rparr>"

definition in_use :: "gate_state \<Rightarrow> nat" where
  "in_use s = gs_active s + length (gs_held s)"

definition earliest_hold :: "gate_state \<Rightarrow> instant option" where
  "earliest_hold s = min_opt (gs_held s)"

definition admission :: "gate_state \<Rightarrow> instant \<Rightarrow> gate_admission \<times> gate_state" where
  "admission s0 now =
     (let s = release_expired_holds s0 now in
      case gs_breaker s of
        Closed \<Rightarrow>
          if in_use s < gs_limit s then (Admit (gs_epoch s) False, s)
          else (Wait (earliest_hold s), s)
      | Open opened_at until \<Rightarrow>
          if until \<le> now \<and> gs_held s = [] then
            (Admit (gs_epoch s) True, s\<lparr>gs_breaker := Probing opened_at\<rparr>)
          else if now < until then (Wait (Some until), s)
          else (Wait (earliest_hold s), s)
      | Probing _ \<Rightarrow> (Wait None, s))"

definition halve :: "gate_state \<Rightarrow> instant \<Rightarrow> nat \<Rightarrow> nat \<Rightarrow> gate_state" where
  "halve s now epoch floor =
     (if epoch \<noteq> gs_epoch s \<or> gs_breaker s \<noteq> Closed then s
      else let limit = max (gs_limit s div 2) floor in
        if limit = gs_limit s then s
        else let s1 = s\<lparr>gs_limit := limit, gs_epoch := Suc (gs_epoch s), gs_fast := 0\<rparr> in
          if limit = 0
          then s1\<lparr>gs_reopenings := 0, gs_breaker := Open now (now + cooldown 0)\<rparr>
          else s1)"

definition drop_probe :: "gate_state \<Rightarrow> instant \<Rightarrow> gate_state" where
  "drop_probe s now =
     (case gs_breaker s of
        Probing opened_at \<Rightarrow> s\<lparr>gs_breaker := Open opened_at now\<rparr>
      | _ \<Rightarrow> s)"

definition finish_probe :: "gate_state \<Rightarrow> instant \<Rightarrow> outcome \<Rightarrow> gate_state" where
  "finish_probe s now outcome =
     (case gs_breaker s of
        Probing opened_at \<Rightarrow>
          (case outcome of
             Success \<Rightarrow> s\<lparr>gs_breaker := Closed, gs_limit := 1, gs_fast := 0, gs_reopenings := 0\<rparr>
           | Refused \<Rightarrow> s\<lparr>gs_breaker := Closed, gs_limit := 1, gs_fast := 0, gs_reopenings := 0\<rparr>
           | TimedOut \<Rightarrow>
               s\<lparr>gs_reopenings := Suc (gs_reopenings s),
                 gs_breaker := Open opened_at (now + cooldown (Suc (gs_reopenings s)))\<rparr>
           | Overloaded \<Rightarrow>
               s\<lparr>gs_reopenings := Suc (gs_reopenings s),
                 gs_breaker := Open opened_at (now + cooldown (Suc (gs_reopenings s)))\<rparr>
           | Local \<Rightarrow> drop_probe s now)
      | _ \<Rightarrow> s)"

lemmas gate_const_defs =
  INITIAL_LIMIT_def MAX_LIMIT_def GROW_AFTER_def TIMEOUT_HOLD_def COOLDOWN_def COOLDOWN_MAX_def
  from_secs_def

lemmas gate_op_defs =
  release_expired_holds_def in_use_def earliest_hold_def admission_def halve_def
  drop_probe_def finish_probe_def Let_def

section \<open>Facts about the state operations\<close>

lemma cooldown_le_max: "cooldown r \<le> COOLDOWN_MAX"
  by (simp add: cooldown_def)

lemma cooldown_eq: "cooldown r = min (COOLDOWN * 2 ^ r) COOLDOWN_MAX"
proof (cases "r \<le> 16")
  case True
  have "(2::nat) ^ r \<le> 2 ^ 16"
    using True by (rule power_increasing) simp
  then have "COOLDOWN * 2 ^ r \<le> DURATION_MAX"
    by (simp add: gate_const_defs DURATION_MAX_def)
  with True show ?thesis
    by (simp add: cooldown_def saturating_mul_def)
next
  case False
  then have "(2::nat) ^ 16 \<le> 2 ^ r"
    by (intro power_increasing) simp_all
  then have "COOLDOWN_MAX \<le> COOLDOWN * 2 ^ r"
    by (simp add: gate_const_defs)
  with False show ?thesis
    by (simp add: cooldown_def saturating_mul_def gate_const_defs DURATION_MAX_def)
qed

lemma cooldown_pos: "0 < cooldown r"
  by (simp add: cooldown_eq gate_const_defs)

lemma cooldown_mono: "r \<le> r' \<Longrightarrow> cooldown r \<le> cooldown r'"
  unfolding cooldown_eq
  by (intro min.mono mult_le_mono power_increasing) simp_all

end
