(* ===== verification/Gate_Ops.thy ===== *)
theory Gate_Ops
  imports Gate_State
begin

text \<open>
  The operations of one \<^verbatim>\<open>HomeserverGate\<close>, of the permits, long-polls and interactive
  calls it hands out, and of the registry \<^verbatim>\<open>HomeserverGates\<close>
  (\<^verbatim>\<open>crates/axon-sync/src/homeserver_gate.rs\<close>).

  \<^item> \<open>hg_changed\<close> counts the calls of \<^verbatim>\<open>Notify::notify_waiters\<close>: a waiter that
    registered at count \<open>n\<close> has been woken when the count differs from \<open>n\<close>.
  \<^item> An asynchronous operation is split at its await points: \<open>acquire_start\<close> joins the
    queue, \<open>acquire_look\<close> is one round of the loop under the lock, and the guard
    \<open>queued_drop\<close> runs on cancellation; likewise for long-polls.
  \<^item> A consumed permit or long-poll carries the flag that its destructor reads.
\<close>

record homeserver_gate =
  hg_key :: rstr
  hg_state :: gate_state
  hg_changed :: nat

record permit =
  pm_started :: instant
  pm_timeout :: duration
  pm_epoch :: nat
  pm_probe :: bool
  pm_finished :: bool

record long_poll =
  lp_epoch :: nat
  lp_probe :: bool
  lp_reported :: bool

definition gate_new :: "rstr \<Rightarrow> homeserver_gate" where
  "gate_new key = \<lparr>hg_key = key, hg_state = state_new, hg_changed = 0\<rparr>"

definition wake :: "homeserver_gate \<Rightarrow> homeserver_gate" where
  "wake g = g\<lparr>hg_changed := Suc (hg_changed g)\<rparr>"

definition permit_new :: "duration \<Rightarrow> nat \<Rightarrow> bool \<Rightarrow> instant \<Rightarrow> permit" where
  "permit_new timeout epoch probe now =
     \<lparr>pm_started = now, pm_timeout = timeout, pm_epoch = epoch, pm_probe = probe,
      pm_finished = False\<rparr>"

section \<open>Background requests\<close>

definition acquire_start :: "homeserver_gate \<Rightarrow> instant \<Rightarrow> nat \<times> homeserver_gate" where
  "acquire_start g now =
     (let (wid, s) = next_id (hg_state g)
      in (wid, g\<lparr>hg_state := s\<lparr>gs_queue := gs_queue s @ [(wid, now)]\<rparr>\<rparr>))"

definition queue_front :: "gate_state \<Rightarrow> nat option" where
  "queue_front s = (case gs_queue s of [] \<Rightarrow> None | (head, _) # _ \<Rightarrow> Some head)"

definition acquire_look ::
  "homeserver_gate \<Rightarrow> nat \<Rightarrow> duration \<Rightarrow> instant \<Rightarrow> (instant option + permit) \<times> homeserver_gate"
where
  "acquire_look g wid timeout now =
     (if queue_front (hg_state g) = Some wid then
        (case admission (hg_state g) now of
           (Admit epoch probe, s) \<Rightarrow>
             (Inr (permit_new timeout epoch probe now),
              wake (g\<lparr>hg_state := s\<lparr>gs_queue := tl (gs_queue s),
                                      gs_active := Suc (gs_active s)\<rparr>\<rparr>))
         | (Wait w, s) \<Rightarrow> (Inl w, g\<lparr>hg_state := s\<rparr>))
      else (Inl None, g))"

definition queued_drop :: "homeserver_gate \<Rightarrow> nat \<Rightarrow> bool \<Rightarrow> homeserver_gate" where
  "queued_drop g wid admitted =
     (if admitted then g
      else wake (g\<lparr>hg_state := (hg_state g)
             \<lparr>gs_queue := filter (\<lambda>(i, _). i \<noteq> wid) (gs_queue (hg_state g))\<rparr>\<rparr>))"

definition try_acquire ::
  "homeserver_gate \<Rightarrow> duration \<Rightarrow> instant \<Rightarrow> permit option \<times> homeserver_gate"
where
  "try_acquire g timeout now =
     (if gs_queue (hg_state g) \<noteq> [] then (None, g)
      else case admission (hg_state g) now of
        (Admit epoch probe, s) \<Rightarrow>
          (Some (permit_new timeout epoch probe now),
           g\<lparr>hg_state := s\<lparr>gs_active := Suc (gs_active s)\<rparr>\<rparr>)
      | (Wait _, s) \<Rightarrow> (None, g\<lparr>hg_state := s\<rparr>))"

text \<open>
  \<open>Inl\<close>: the breaker is not closed, so the answer is immediate; \<open>Inr\<close>: the caller
  joined the queue and waits at most its brief timeout, after which it leaves by
  \<open>queued_drop\<close>.
\<close>

definition acquire_briefly ::
  "homeserver_gate \<Rightarrow> duration \<Rightarrow> instant \<Rightarrow> (permit option + nat) \<times> homeserver_gate"
where
  "acquire_briefly g timeout now =
     (if gs_breaker (hg_state g) \<noteq> Closed
      then (let (p, g') = try_acquire g timeout now in (Inl p, g'))
      else (let (wid, g') = acquire_start g now in (Inr wid, g')))"

definition gate_finish ::
  "homeserver_gate \<Rightarrow> permit \<Rightarrow> outcome \<Rightarrow> instant \<Rightarrow> homeserver_gate option"
where
  "gate_finish g p outcome now =
     (let s0 = hg_state g in
      if gs_active s0 = 0 then None
      else
        let s1 = s0\<lparr>gs_active := gs_active s0 - 1\<rparr>;
            s2 = (if outcome = TimedOut then s1\<lparr>gs_held := gs_held s1 @ [now + TIMEOUT_HOLD]\<rparr>
                  else s1);
            s3 =
              (if pm_probe p then finish_probe s2 now outcome
               else if gs_breaker s2 = Closed then
                 (case outcome of
                    Success \<Rightarrow>
                      if is_fast (now - pm_started p) (pm_timeout p) then
                        let fast = Suc (gs_fast s2) in
                        if GROW_AFTER \<le> fast then
                          (if gs_limit s2 < MAX_LIMIT
                           then s2\<lparr>gs_fast := 0, gs_limit := Suc (gs_limit s2)\<rparr>
                           else s2\<lparr>gs_fast := 0\<rparr>)
                        else s2\<lparr>gs_fast := fast\<rparr>
                      else s2
                  | TimedOut \<Rightarrow> halve s2 now (pm_epoch p) 0
                  | Overloaded \<Rightarrow> halve s2 now (pm_epoch p) 0
                  | Refused \<Rightarrow> s2
                  | Local \<Rightarrow> s2)
               else s2)
        in Some (wake (g\<lparr>hg_state := s3\<rparr>)))"

definition gate_release :: "homeserver_gate \<Rightarrow> bool \<Rightarrow> instant \<Rightarrow> homeserver_gate option" where
  "gate_release g probe now =
     (let s0 = hg_state g in
      if gs_active s0 = 0 then None
      else
        let s1 = s0\<lparr>gs_active := gs_active s0 - 1\<rparr>;
            s2 = (if probe then drop_probe s1 now else s1)
        in Some (wake (g\<lparr>hg_state := s2\<rparr>)))"

definition permit_finish ::
  "homeserver_gate \<Rightarrow> permit \<Rightarrow> outcome \<Rightarrow> instant \<Rightarrow> (permit \<times> homeserver_gate) option"
where
  "permit_finish g p outcome now =
     (let p' = p\<lparr>pm_finished := True\<rparr> in
      map_option (Pair p')
        (if outcome = Local then gate_release g (pm_probe p) now
         else gate_finish g p outcome now))"

definition permit_drop :: "homeserver_gate \<Rightarrow> permit \<Rightarrow> instant \<Rightarrow> homeserver_gate option" where
  "permit_drop g p now =
     (if pm_finished p then Some g else gate_release g (pm_probe p) now)"

section \<open>Interactive requests\<close>

definition gate_epoch :: "homeserver_gate \<Rightarrow> nat" where
  "gate_epoch g = gs_epoch (hg_state g)"

definition report_interactive ::
  "homeserver_gate \<Rightarrow> nat \<Rightarrow> outcome \<Rightarrow> instant \<Rightarrow> homeserver_gate"
where
  "report_interactive g epoch outcome now =
     (if outcome = TimedOut \<or> outcome = Overloaded
      then g\<lparr>hg_state := halve (hg_state g) now epoch 1\<rparr> else g)"

text \<open>
  The two halves of \<^verbatim>\<open>call_classified\<close> around the awaited request: what is taken from
  the gate before it is sent, and what is reported when the bounded result is in. A
  background call takes its permit through \<open>acquire_start\<close> and \<open>acquire_look\<close>.
\<close>

datatype call_ticket = BackgroundTicket permit | InteractiveTicket nat

definition call_interactive :: "homeserver_gate \<Rightarrow> call_ticket" where
  "call_interactive g = InteractiveTicket (gate_epoch g)"

definition call_complete ::
  "homeserver_gate \<Rightarrow> call_ticket \<Rightarrow> (('t, 'e) bounded \<Rightarrow> outcome) \<Rightarrow> ('t, 'e) bounded \<Rightarrow>
   instant \<Rightarrow> homeserver_gate option"
where
  "call_complete g ticket classify result now =
     (case ticket of
        BackgroundTicket p \<Rightarrow> map_option snd (permit_finish g p (classify result) now)
      | InteractiveTicket epoch \<Rightarrow> Some (report_interactive g epoch (classify result) now))"

section \<open>Long-polls\<close>

definition long_poll_start :: "homeserver_gate \<Rightarrow> instant \<Rightarrow> nat \<times> homeserver_gate" where
  "long_poll_start g now =
     (let (wid, s) = next_id (hg_state g)
      in (wid, g\<lparr>hg_state := s\<lparr>gs_long_polls :=
            (wid, now) # filter (\<lambda>(i, _). i \<noteq> wid) (gs_long_polls s)\<rparr>\<rparr>))"

definition long_poll_waiting_drop :: "homeserver_gate \<Rightarrow> nat \<Rightarrow> homeserver_gate" where
  "long_poll_waiting_drop g wid =
     g\<lparr>hg_state := (hg_state g)
        \<lparr>gs_long_polls := filter (\<lambda>(i, _). i \<noteq> wid) (gs_long_polls (hg_state g))\<rparr>\<rparr>"

definition long_poll_admission :: "gate_state \<Rightarrow> instant \<Rightarrow> gate_admission \<times> gate_state" where
  "long_poll_admission s0 now =
     (let s = release_expired_holds s0 now in
      case gs_breaker s of
        Closed \<Rightarrow> (Admit (gs_epoch s) False, s)
      | Open _ until \<Rightarrow>
          if gs_queue s = [] then admission s now
          else if now < until then (Wait (Some until), s)
          else (Wait (earliest_hold s), s)
      | Probing _ \<Rightarrow> (Wait None, s))"

definition long_poll_look ::
  "homeserver_gate \<Rightarrow> nat \<Rightarrow> instant \<Rightarrow> (instant option + long_poll) \<times> homeserver_gate"
where
  "long_poll_look g wid now =
     (case long_poll_admission (hg_state g) now of
        (Admit epoch probe, s) \<Rightarrow>
          (Inr \<lparr>lp_epoch = epoch, lp_probe = probe, lp_reported = False\<rparr>,
           long_poll_waiting_drop (g\<lparr>hg_state := s\<rparr>) wid)
      | (Wait w, s) \<Rightarrow> (Inl w, g\<lparr>hg_state := s\<rparr>))"

definition finish_long_poll ::
  "homeserver_gate \<Rightarrow> long_poll \<Rightarrow> outcome \<Rightarrow> instant \<Rightarrow> homeserver_gate"
where
  "finish_long_poll g p outcome now =
     (let s0 = hg_state g;
          s1 = (if outcome = TimedOut then s0\<lparr>gs_held := gs_held s0 @ [now + TIMEOUT_HOLD]\<rparr>
                else s0);
          s2 = (if lp_probe p then finish_probe s1 now outcome
                else if outcome = TimedOut \<or> outcome = Overloaded
                then halve s1 now (lp_epoch p) 0 else s1)
      in wake (g\<lparr>hg_state := s2\<rparr>))"

definition release_long_poll_probe :: "homeserver_gate \<Rightarrow> instant \<Rightarrow> homeserver_gate" where
  "release_long_poll_probe g now = wake (g\<lparr>hg_state := drop_probe (hg_state g) now\<rparr>)"

definition long_poll_finish ::
  "homeserver_gate \<Rightarrow> long_poll \<Rightarrow> outcome \<Rightarrow> instant \<Rightarrow> long_poll \<times> homeserver_gate"
where
  "long_poll_finish g p outcome now =
     (p\<lparr>lp_reported := True\<rparr>,
      if outcome = Local
      then (if lp_probe p then release_long_poll_probe g now else g)
      else finish_long_poll g p outcome now)"

definition long_poll_drop :: "homeserver_gate \<Rightarrow> long_poll \<Rightarrow> instant \<Rightarrow> homeserver_gate" where
  "long_poll_drop g p now =
     (if \<not> lp_reported p \<and> lp_probe p then release_long_poll_probe g now else g)"

section \<open>Snapshots\<close>

datatype breaker_snapshot =
    SnapClosed
  | SnapOpen int int
  | SnapProbing int

record gate_snapshot =
  sn_homeserver :: rstr
  sn_limit :: nat
  sn_active :: nat
  sn_held :: nat
  sn_waiting :: nat
  sn_oldest_wait :: "duration option"
  sn_breaker :: breaker_snapshot

text \<open>\<open>wall\<close> is the system clock at \<open>now\<close>.\<close>

definition snapshot ::
  "homeserver_gate \<Rightarrow> instant \<Rightarrow> int \<Rightarrow> gate_snapshot \<times> homeserver_gate"
where
  "snapshot g now wall =
     (let at = (\<lambda>i. if now \<le> i then wall + int (i - now) else wall - int (now - i));
          s = release_expired_holds (hg_state g) now;
          oldest = min_opt (map snd (gs_queue s) @ map snd (gs_long_polls s))
      in (\<lparr>sn_homeserver = hg_key g, sn_limit = gs_limit s, sn_active = gs_active s,
            sn_held = length (gs_held s),
            sn_waiting = length (gs_queue s) + length (gs_long_polls s),
            sn_oldest_wait = map_option (\<lambda>since. now - since) oldest,
            sn_breaker =
              (case gs_breaker s of
                 Closed \<Rightarrow> SnapClosed
               | Open opened_at until \<Rightarrow> SnapOpen (at opened_at) (at (fold max (gs_held s) until))
               | Probing opened_at \<Rightarrow> SnapProbing (at opened_at))\<rparr>,
          g\<lparr>hg_state := s\<rparr>))"

section \<open>The registry\<close>

text \<open>A parsed base URL, as far as \<^verbatim>\<open>gate_key\<close> reads it.\<close>

record url =
  url_scheme :: rstr
  url_host_str :: "rstr option"
  url_port_or_known_default :: "nat option"

definition gate_key :: "url \<Rightarrow> rstr" where
  "gate_key u =
     url_scheme u @ lit ''://'' @ (case url_host_str u of None \<Rightarrow> [] | Some h \<Rightarrow> h) @ lit '':'' @
     dec_nat (case url_port_or_known_default u of None \<Rightarrow> 0 | Some p \<Rightarrow> p)"

type_synonym homeserver_gates = "(rstr \<times> homeserver_gate) list"

definition for_url :: "homeserver_gates \<Rightarrow> url \<Rightarrow> homeserver_gate \<times> homeserver_gates" where
  "for_url gates u =
     (let key = gate_key u in
      case map_of gates key of
        Some g \<Rightarrow> (g, gates)
      | None \<Rightarrow> (gate_new key, (key, gate_new key) # gates))"

record interactive_call =
  ic_gate :: "(rstr \<times> nat) option"
  ic_ignore_timeouts :: bool

definition start_interactive_call ::
  "homeserver_gates \<Rightarrow> url \<Rightarrow> interactive_call \<times> homeserver_gates"
where
  "start_interactive_call gates u =
     (let (g, gates') = for_url gates u
      in (\<lparr>ic_gate = Some (hg_key g, gate_epoch g), ic_ignore_timeouts = False\<rparr>, gates'))"

definition ignoring_timeouts :: "interactive_call \<Rightarrow> interactive_call" where
  "ignoring_timeouts c = c\<lparr>ic_ignore_timeouts := True\<rparr>"

definition update_gate ::
  "homeserver_gates \<Rightarrow> rstr \<Rightarrow> (homeserver_gate \<Rightarrow> homeserver_gate) \<Rightarrow> homeserver_gates"
where
  "update_gate gates key f = map (\<lambda>(k, g). (k, if k = key then f g else g)) gates"

definition interactive_finish ::
  "homeserver_gates \<Rightarrow> interactive_call \<Rightarrow> ('t, gateway_error) bounded \<Rightarrow> instant \<Rightarrow>
   homeserver_gates"
where
  "interactive_finish gates c result now =
     (case ic_gate c of
        None \<Rightarrow> gates
      | Some (key, epoch) \<Rightarrow>
          let outcome = outcome_of gateway_outcome result in
          if ic_ignore_timeouts c \<and> outcome = TimedOut then gates
          else update_gate gates key (\<lambda>g. report_interactive g epoch outcome now))"

definition gates_snapshot :: "homeserver_gates \<Rightarrow> instant \<Rightarrow> int \<Rightarrow> gate_snapshot list" where
  "gates_snapshot gates now wall =
     sort_key sn_homeserver (map (\<lambda>(_, g). fst (snapshot g now wall)) gates)"

lemmas gate_handle_defs =
  acquire_start_def acquire_look_def queued_drop_def try_acquire_def gate_finish_def
  gate_release_def permit_finish_def permit_drop_def report_interactive_def long_poll_start_def
  long_poll_waiting_drop_def long_poll_admission_def long_poll_look_def finish_long_poll_def
  release_long_poll_probe_def long_poll_finish_def long_poll_drop_def next_id_def wake_def
  permit_new_def queue_front_def

end
