(* ===== verification/Gate_System.thy ===== *)
theory Gate_System
  imports Gate_Ops
begin

text \<open>
  One gate together with everything it has handed out: the protocol between the gate, the
  requests holding permits, the long-polls and the interactive calls, as a step relation in
  which any task may take the next step at any later time. The invariant \<open>gate_inv\<close> ties the
  counters of \<open>gate_state\<close> to the handles outstanding.
\<close>

section \<open>The system\<close>

record gate_system =
  sy_gate :: homeserver_gate
  sy_now :: instant
  sy_permits :: "permit list"
  sy_polls :: "long_poll list"
  sy_calls :: "nat list"

abbreviation sy_state :: "gate_system \<Rightarrow> gate_state" where
  "sy_state y \<equiv> hg_state (sy_gate y)"

definition gate_init :: "gate_system \<Rightarrow> bool" where
  "gate_init y \<longleftrightarrow> (\<exists>key. sy_gate y = gate_new key) \<and> sy_permits y = [] \<and> sy_polls y = [] \<and>
     sy_calls y = []"

inductive gate_step :: "gate_system \<Rightarrow> gate_system \<Rightarrow> bool" where
  tick: "sy_now y \<le> t \<Longrightarrow> gate_step y (y\<lparr>sy_now := t\<rparr>)"
| join: "acquire_start (sy_gate y) (sy_now y) = (wid, g) \<Longrightarrow> gate_step y (y\<lparr>sy_gate := g\<rparr>)"
| look_wait: "acquire_look (sy_gate y) wid timeout (sy_now y) = (Inl w, g) \<Longrightarrow>
    gate_step y (y\<lparr>sy_gate := g\<rparr>)"
| look_admit: "acquire_look (sy_gate y) wid timeout (sy_now y) = (Inr p, g) \<Longrightarrow>
    gate_step y (y\<lparr>sy_gate := g, sy_permits := p # sy_permits y\<rparr>)"
| leave: "wid \<in> fst ` set (gs_queue (sy_state y)) \<Longrightarrow>
    gate_step y (y\<lparr>sy_gate := queued_drop (sy_gate y) wid False\<rparr>)"
| try_none: "try_acquire (sy_gate y) timeout (sy_now y) = (None, g) \<Longrightarrow>
    gate_step y (y\<lparr>sy_gate := g\<rparr>)"
| try_some: "try_acquire (sy_gate y) timeout (sy_now y) = (Some p, g) \<Longrightarrow>
    gate_step y (y\<lparr>sy_gate := g, sy_permits := p # sy_permits y\<rparr>)"
| finish: "p \<in> set (sy_permits y) \<Longrightarrow> permit_finish (sy_gate y) p out (sy_now y) = Some (p', g) \<Longrightarrow>
    gate_step y (y\<lparr>sy_gate := g, sy_permits := remove1 p (sy_permits y)\<rparr>)"
| drop: "p \<in> set (sy_permits y) \<Longrightarrow> permit_drop (sy_gate y) p (sy_now y) = Some g \<Longrightarrow>
    gate_step y (y\<lparr>sy_gate := g, sy_permits := remove1 p (sy_permits y)\<rparr>)"
| call: "gate_step y (y\<lparr>sy_calls := gate_epoch (sy_gate y) # sy_calls y\<rparr>)"
| report: "e \<in> set (sy_calls y) \<Longrightarrow>
    gate_step y (y\<lparr>sy_gate := report_interactive (sy_gate y) e out (sy_now y),
                   sy_calls := remove1 e (sy_calls y)\<rparr>)"
| poll_join: "long_poll_start (sy_gate y) (sy_now y) = (wid, g) \<Longrightarrow>
    gate_step y (y\<lparr>sy_gate := g\<rparr>)"
| poll_wait: "long_poll_look (sy_gate y) wid (sy_now y) = (Inl w, g) \<Longrightarrow>
    gate_step y (y\<lparr>sy_gate := g\<rparr>)"
| poll_admit: "long_poll_look (sy_gate y) wid (sy_now y) = (Inr lp, g) \<Longrightarrow>
    gate_step y (y\<lparr>sy_gate := g, sy_polls := lp # sy_polls y\<rparr>)"
| poll_leave: "gate_step y (y\<lparr>sy_gate := long_poll_waiting_drop (sy_gate y) wid\<rparr>)"
| poll_finish: "lp \<in> set (sy_polls y) \<Longrightarrow> long_poll_finish (sy_gate y) lp out (sy_now y) = (lp', g) \<Longrightarrow>
    gate_step y (y\<lparr>sy_gate := g, sy_polls := remove1 lp (sy_polls y)\<rparr>)"
| poll_drop: "lp \<in> set (sy_polls y) \<Longrightarrow>
    gate_step y (y\<lparr>sy_gate := long_poll_drop (sy_gate y) lp (sy_now y),
                   sy_polls := remove1 lp (sy_polls y)\<rparr>)"
| snap: "snapshot (sy_gate y) (sy_now y) wall = (sn, g) \<Longrightarrow> gate_step y (y\<lparr>sy_gate := g\<rparr>)"

section \<open>The invariant\<close>

definition state_inv :: "gate_state \<Rightarrow> bool" where
  "state_inv s \<longleftrightarrow> gs_limit s \<le> MAX_LIMIT \<and> (gs_breaker s = Closed \<longleftrightarrow> 1 \<le> gs_limit s) \<and>
     gs_fast s < GROW_AFTER"

text \<open>
  An ordinary request outstanding at epoch \<open>e\<close>: it started no later than now, and before the
  current epoch if the breaker has left \<open>Closed\<close> since.
\<close>

definition epoch_ok :: "gate_state \<Rightarrow> nat \<Rightarrow> bool" where
  "epoch_ok s e \<longleftrightarrow> e \<le> gs_epoch s \<and> (gs_breaker s \<noteq> Closed \<longrightarrow> e < gs_epoch s)"

definition probing :: "gate_state \<Rightarrow> nat" where
  "probing s = (case gs_breaker s of Probing _ \<Rightarrow> 1 | _ \<Rightarrow> 0)"

definition probes :: "gate_system \<Rightarrow> nat" where
  "probes y = length (filter pm_probe (sy_permits y)) + length (filter lp_probe (sy_polls y))"

definition ordinary :: "gate_system \<Rightarrow> permit list" where
  "ordinary y = filter (\<lambda>p. \<not> pm_probe p) (sy_permits y)"

definition queue_ok :: "gate_state \<Rightarrow> bool" where
  "queue_ok s \<longleftrightarrow> distinct (map fst (gs_queue s)) \<and> (\<forall>q \<in> set (gs_queue s). fst q \<le> gs_next_id s)"

definition gate_inv :: "gate_system \<Rightarrow> bool" where
  "gate_inv y \<longleftrightarrow>
     state_inv (sy_state y) \<and> queue_ok (sy_state y) \<and>
     gs_active (sy_state y) = length (sy_permits y) \<and>
     probes y = probing (sy_state y) \<and>
     length (ordinary y) \<le> MAX_LIMIT \<and>
     (\<forall>p \<in> set (sy_permits y). \<not> pm_finished p \<and>
        (\<not> pm_probe p \<longrightarrow> epoch_ok (sy_state y) (pm_epoch p))) \<and>
     (\<forall>lp \<in> set (sy_polls y). \<not> lp_reported lp \<and>
        (\<not> lp_probe lp \<longrightarrow> epoch_ok (sy_state y) (lp_epoch lp))) \<and>
     (\<forall>e \<in> set (sy_calls y). e \<le> gs_epoch (sy_state y))"

section \<open>What the state operations keep\<close>

text \<open>A state that differs only in fields the invariant reads elsewhere.\<close>

definition same_core :: "gate_state \<Rightarrow> gate_state \<Rightarrow> bool" where
  "same_core s t \<longleftrightarrow> gs_limit t = gs_limit s \<and> gs_breaker t = gs_breaker s \<and>
     gs_fast t = gs_fast s \<and> gs_epoch t = gs_epoch s"

lemma same_core_keeps:
  assumes "same_core s t"
  shows "state_inv t = state_inv s" "epoch_ok t = epoch_ok s" "probing t = probing s"
    "gs_epoch t = gs_epoch s"
  using assms by (auto simp: same_core_def state_inv_def epoch_ok_def probing_def fun_eq_iff)

lemma release_simps [simp]:
  "gs_limit (release_expired_holds s now) = gs_limit s"
  "gs_active (release_expired_holds s now) = gs_active s"
  "gs_fast (release_expired_holds s now) = gs_fast s"
  "gs_epoch (release_expired_holds s now) = gs_epoch s"
  "gs_breaker (release_expired_holds s now) = gs_breaker s"
  "gs_reopenings (release_expired_holds s now) = gs_reopenings s"
  "gs_queue (release_expired_holds s now) = gs_queue s"
  "gs_long_polls (release_expired_holds s now) = gs_long_polls s"
  "gs_next_id (release_expired_holds s now) = gs_next_id s"
  "gs_held (release_expired_holds s now) = filter (\<lambda>u. now < u) (gs_held s)"
  by (simp_all add: release_expired_holds_def)

lemma release_idem [simp]:
  "release_expired_holds (release_expired_holds s now) now = release_expired_holds s now"
  by (simp add: release_expired_holds_def)

lemma release_before_earliest:
  assumes "\<forall>d. earliest_hold s = Some d \<longrightarrow> t < d"
  shows "release_expired_holds s t = s"
proof (cases "min_opt (gs_held s)")
  case None
  then show ?thesis by (simp add: release_expired_holds_def)
next
  case (Some d)
  with assms have "filter (\<lambda>u. t < u) (gs_held s) = gs_held s"
    by (intro filter_eq_self) (auto simp: earliest_hold_def intro: min_opt_less)
  then show ?thesis by (simp add: release_expired_holds_def)
qed

text \<open>Exactly when, and how, a request is admitted.\<close>

lemma admission_ordinary_iff:
  "admission s now = (Admit e False, t) \<longleftrightarrow>
     gs_breaker s = Closed \<and> in_use (release_expired_holds s now) < gs_limit s \<and>
     e = gs_epoch s \<and> t = release_expired_holds s now"
  by (auto simp: admission_def Let_def split: breaker.splits)

lemma admission_probe_iff:
  "admission s now = (Admit e True, t) \<longleftrightarrow>
     (\<exists>opened until. gs_breaker s = Open opened until \<and> until \<le> now \<and>
        (\<forall>u \<in> set (gs_held s). u \<le> now) \<and> e = gs_epoch s \<and>
        t = (release_expired_holds s now)\<lparr>gs_breaker := Probing opened\<rparr>)"
  by (auto simp: admission_def Let_def filter_empty_conv not_less split: breaker.splits)

lemma admission_wait_state: "admission s now = (Wait w, t) \<Longrightarrow> t = release_expired_holds s now"
  by (auto simp: admission_def Let_def split: breaker.splits if_splits)

lemma admission_wait_None:
  "admission s now = (Wait None, t) \<Longrightarrow>
     (\<exists>opened. gs_breaker s = Probing opened) \<or>
     gs_breaker s = Closed \<and> gs_limit s \<le> gs_active s"
  by (auto simp: admission_def Let_def earliest_hold_def in_use_def split: breaker.splits if_splits)

lemma halve_frame [simp]:
  "gs_active (halve s now e f) = gs_active s" "gs_queue (halve s now e f) = gs_queue s"
  "gs_held (halve s now e f) = gs_held s" "gs_next_id (halve s now e f) = gs_next_id s"
  "gs_long_polls (halve s now e f) = gs_long_polls s"
  by (auto simp: halve_def Let_def)

lemma halve_inv: "state_inv s \<Longrightarrow> f \<le> 1 \<Longrightarrow> state_inv (halve s now e f)"
  by (auto simp: halve_def Let_def state_inv_def gate_const_defs)

lemma halve_epoch_ok: "epoch_ok s e' \<Longrightarrow> epoch_ok (halve s now e f) e'"
  by (auto simp: halve_def Let_def epoch_ok_def)

lemma halve_epoch_le: "gs_epoch s \<le> gs_epoch (halve s now e f)"
  by (auto simp: halve_def Let_def)

lemma halve_probing [simp]: "probing (halve s now e f) = probing s"
  by (auto simp: halve_def Let_def probing_def)

lemma drop_probe_frame [simp]:
  "gs_active (drop_probe s now) = gs_active s" "gs_queue (drop_probe s now) = gs_queue s"
  "gs_held (drop_probe s now) = gs_held s" "gs_next_id (drop_probe s now) = gs_next_id s"
  "gs_epoch (drop_probe s now) = gs_epoch s" "gs_limit (drop_probe s now) = gs_limit s"
  "gs_long_polls (drop_probe s now) = gs_long_polls s"
  by (auto simp: drop_probe_def split: breaker.splits)

lemma finish_probe_frame [simp]:
  "gs_active (finish_probe s now out) = gs_active s"
  "gs_queue (finish_probe s now out) = gs_queue s"
  "gs_held (finish_probe s now out) = gs_held s"
  "gs_next_id (finish_probe s now out) = gs_next_id s"
  "gs_epoch (finish_probe s now out) = gs_epoch s"
  "gs_long_polls (finish_probe s now out) = gs_long_polls s"
  by (auto simp: finish_probe_def split: breaker.splits outcome.splits)

lemma drop_probe_keeps:
  "state_inv s \<Longrightarrow> state_inv (drop_probe s now)"
  "epoch_ok s e \<Longrightarrow> epoch_ok (drop_probe s now) e"
  "probing (drop_probe s now) = 0"
  by (auto simp: drop_probe_def state_inv_def epoch_ok_def probing_def split: breaker.splits)

lemma finish_probe_keeps:
  "state_inv s \<Longrightarrow> state_inv (finish_probe s now out)"
  "epoch_ok s e \<Longrightarrow> epoch_ok (finish_probe s now out) e"
  "probing (finish_probe s now out) = 0"
proof -
  show "state_inv s \<Longrightarrow> state_inv (finish_probe s now out)"
    using drop_probe_keeps(1) [of s now]
    by (auto simp: finish_probe_def state_inv_def gate_const_defs split: breaker.splits outcome.splits)
  show "epoch_ok s e \<Longrightarrow> epoch_ok (finish_probe s now out) e"
    using drop_probe_keeps(2) [of s e now]
    by (auto simp: finish_probe_def epoch_ok_def split: breaker.splits outcome.splits)
  show "probing (finish_probe s now out) = 0"
    using drop_probe_keeps(3) [of s now]
    by (auto simp: finish_probe_def probing_def split: breaker.splits outcome.splits)
qed

section \<open>Every step keeps the invariant\<close>

text \<open>\<open>t\<close> follows \<open>s\<close>: the state invariants hold in \<open>t\<close> and no epoch obligation is lost.\<close>

definition evolves :: "gate_state \<Rightarrow> gate_state \<Rightarrow> bool" where
  "evolves s t \<longleftrightarrow> state_inv t \<and> queue_ok t \<and> gs_epoch s \<le> gs_epoch t \<and>
     (\<forall>e. epoch_ok s e \<longrightarrow> epoch_ok t e)"

lemma evolves_refl: "state_inv s \<Longrightarrow> queue_ok s \<Longrightarrow> evolves s s"
  by (simp add: evolves_def)

lemma evolves_trans: "evolves s t \<Longrightarrow> evolves t u \<Longrightarrow> evolves s u"
  by (auto simp: evolves_def)

lemma evolves_same_core:
  "same_core s t \<Longrightarrow> queue_ok t \<Longrightarrow> state_inv s \<Longrightarrow> evolves s t"
  using same_core_keeps [of s t] by (simp add: evolves_def)

lemma queue_ok_frame [simp]:
  "queue_ok (s\<lparr>gs_limit := l\<rparr>) = queue_ok s" "queue_ok (s\<lparr>gs_active := a\<rparr>) = queue_ok s"
  "queue_ok (s\<lparr>gs_held := h\<rparr>) = queue_ok s" "queue_ok (s\<lparr>gs_fast := f\<rparr>) = queue_ok s"
  "queue_ok (s\<lparr>gs_epoch := e\<rparr>) = queue_ok s" "queue_ok (s\<lparr>gs_breaker := b\<rparr>) = queue_ok s"
  "queue_ok (s\<lparr>gs_long_polls := p\<rparr>) = queue_ok s"
  "queue_ok (release_expired_holds s now) = queue_ok s"
  "queue_ok (halve s now ep fl) = queue_ok s"
  "queue_ok (drop_probe s now) = queue_ok s" "queue_ok (finish_probe s now out) = queue_ok s"
  by (simp_all add: queue_ok_def)

lemma evolves_halve:
  "state_inv s \<Longrightarrow> queue_ok s \<Longrightarrow> f \<le> 1 \<Longrightarrow> evolves s (halve s now e f)"
  using halve_inv halve_epoch_ok halve_epoch_le by (simp add: evolves_def)

lemma evolves_drop_probe: "state_inv s \<Longrightarrow> queue_ok s \<Longrightarrow> evolves s (drop_probe s now)"
  using drop_probe_keeps by (simp add: evolves_def)

lemma evolves_finish_probe: "state_inv s \<Longrightarrow> queue_ok s \<Longrightarrow> evolves s (finish_probe s now out)"
  using finish_probe_keeps by (simp add: evolves_def)

lemma evolves_release: "state_inv s \<Longrightarrow> queue_ok s \<Longrightarrow> evolves s (release_expired_holds s now)"
  by (rule evolves_same_core)
    (simp_all add: same_core_def)

lemma evolves_admission:
  assumes "admission s now = (a, t)" "state_inv s" "queue_ok s"
  shows "evolves s t"
proof (cases a)
  case (Wait w)
  with assms show ?thesis by (auto dest: admission_wait_state intro: evolves_release)
next
  case (Admit e probe)
  show ?thesis
  proof (cases probe)
    case False
    with assms Admit show ?thesis by (auto simp: admission_ordinary_iff intro: evolves_release)
  next
    case True
    with assms Admit show ?thesis
      by (auto simp: admission_probe_iff evolves_def state_inv_def epoch_ok_def)
  qed
qed

lemma admission_frame:
  assumes "admission s now = (a, t)"
  shows "gs_active t = gs_active s" "gs_queue t = gs_queue s" "gs_next_id t = gs_next_id s"
    "gs_epoch t = gs_epoch s" "gs_long_polls t = gs_long_polls s" "gs_limit t = gs_limit s"
  using assms by (auto simp: admission_def Let_def split: breaker.splits if_splits)

lemma admission_probing:
  assumes "admission s now = (Admit e probe, t)"
  shows "probing s = 0 \<and> probing t = of_bool probe"
  using assms
  by (cases probe) (auto simp: admission_ordinary_iff admission_probe_iff probing_def)

lemma admission_wait_probing: "admission s now = (Wait w, t) \<Longrightarrow> probing t = probing s"
  by (drule admission_wait_state) (simp add: probing_def)

lemma long_poll_admission_eq:
  "long_poll_admission s now =
     (case gs_breaker s of
        Closed \<Rightarrow> (Admit (gs_epoch s) False, release_expired_holds s now)
      | Open _ until \<Rightarrow>
          if gs_queue s = [] then admission s now
          else if now < until then (Wait (Some until), release_expired_holds s now)
          else (Wait (earliest_hold (release_expired_holds s now)), release_expired_holds s now)
      | Probing _ \<Rightarrow> (Wait None, release_expired_holds s now))"
  by (auto simp: long_poll_admission_def admission_def Let_def split: breaker.splits)

lemma long_poll_admission_effect:
  assumes "long_poll_admission s now = (a, t)" "state_inv s" "queue_ok s"
  shows "evolves s t" "gs_active t = gs_active s" "gs_queue t = gs_queue s"
    "gs_next_id t = gs_next_id s"
    "case a of Admit e probe \<Rightarrow> e = gs_epoch s \<and> probing s = 0 \<and> probing t = of_bool probe \<and>
        (\<not> probe \<longrightarrow> gs_breaker t = Closed)
     | Wait w \<Rightarrow> probing t = probing s"
proof -
  note release = evolves_release [OF assms(2,3), of now]
  have "evolves s t \<and> gs_active t = gs_active s \<and> gs_queue t = gs_queue s \<and>
      gs_next_id t = gs_next_id s \<and>
      (case a of Admit e probe \<Rightarrow> e = gs_epoch s \<and> probing s = 0 \<and> probing t = of_bool probe \<and>
        (\<not> probe \<longrightarrow> gs_breaker t = Closed)
     | Wait w \<Rightarrow> probing t = probing s)"
  proof (cases "\<exists>opened until. gs_breaker s = Open opened until \<and> gs_queue s = []")
    case True
    then have adm: "admission s now = (a, t)"
      using assms(1) by (auto simp: long_poll_admission_eq)
    have "case a of Admit e probe \<Rightarrow> e = gs_epoch s \<and> (\<not> probe \<longrightarrow> gs_breaker t = Closed) | Wait w \<Rightarrow> True"
      using True adm by (auto simp: admission_def Let_def split: if_splits)
    with evolves_admission [OF adm assms(2,3)] admission_frame [OF adm]
      admission_probing admission_wait_probing adm
    show ?thesis by (auto split: gate_admission.splits)
  next
    case False
    with assms(1) release show ?thesis
      by (auto simp: long_poll_admission_eq probing_def split: breaker.splits if_splits)
  qed
  then show "evolves s t" "gs_active t = gs_active s" "gs_queue t = gs_queue s"
    "gs_next_id t = gs_next_id s"
    "case a of Admit e probe \<Rightarrow> e = gs_epoch s \<and> probing s = 0 \<and> probing t = of_bool probe \<and>
        (\<not> probe \<longrightarrow> gs_breaker t = Closed)
     | Wait w \<Rightarrow> probing t = probing s"
    by auto
qed

text \<open>The effect of the operations that return a slot.\<close>

lemma gate_release_effect:
  assumes "gate_release g probe now = Some g'" "state_inv (hg_state g)" "queue_ok (hg_state g)"
  shows "evolves (hg_state g) (hg_state g')"
    "Suc (gs_active (hg_state g')) = gs_active (hg_state g)"
    "probing (hg_state g') = (if probe then 0 else probing (hg_state g))"
proof -
  define s1 where "s1 = (hg_state g)\<lparr>gs_active := gs_active (hg_state g) - 1\<rparr>"
  have g': "hg_state g' = (if probe then drop_probe s1 now else s1)" "gs_active (hg_state g) \<noteq> 0"
    using assms(1) by (auto simp: gate_release_def Let_def wake_def s1_def split: if_splits)
  have s1: "evolves (hg_state g) s1" "state_inv s1" "queue_ok s1"
    using assms(2,3) by (auto simp: s1_def evolves_def state_inv_def epoch_ok_def)
  show "evolves (hg_state g) (hg_state g')"
    using g'(1) s1 evolves_trans [OF s1(1) evolves_drop_probe] by simp
  show "Suc (gs_active (hg_state g')) = gs_active (hg_state g)"
    using g' by (simp add: s1_def)
  show "probing (hg_state g') = (if probe then 0 else probing (hg_state g))"
    using g'(1) drop_probe_keeps(3) by (simp add: s1_def probing_def)
qed

text \<open>The state right after \<open>active -= 1\<close> and the optional hold, and the learning after it.\<close>

definition gate_learn :: "gate_state \<Rightarrow> permit \<Rightarrow> outcome \<Rightarrow> instant \<Rightarrow> gate_state" where
  "gate_learn s2 p out now =
     (if pm_probe p then finish_probe s2 now out
      else if gs_breaker s2 = Closed then
        (case out of
           Success \<Rightarrow>
             if is_fast (now - pm_started p) (pm_timeout p) then
               let fast = Suc (gs_fast s2) in
               if GROW_AFTER \<le> fast then
                 (if gs_limit s2 < MAX_LIMIT
                  then s2\<lparr>gs_fast := 0, gs_limit := Suc (gs_limit s2)\<rparr>
                  else s2\<lparr>gs_fast := 0\<rparr>)
               else s2\<lparr>gs_fast := fast\<rparr>
             else s2
         | TimedOut \<Rightarrow> halve s2 now (pm_epoch p) 0
         | Overloaded \<Rightarrow> halve s2 now (pm_epoch p) 0
         | Refused \<Rightarrow> s2
         | Local \<Rightarrow> s2)
      else s2)"

definition gate_return_slot :: "gate_state \<Rightarrow> outcome \<Rightarrow> instant \<Rightarrow> gate_state" where
  "gate_return_slot s out now =
     (let s1 = s\<lparr>gs_active := gs_active s - 1\<rparr> in
      if out = TimedOut then s1\<lparr>gs_held := gs_held s1 @ [now + TIMEOUT_HOLD]\<rparr> else s1)"

lemma gate_finish_eq:
  "gate_finish g p out now =
     (if gs_active (hg_state g) = 0 then None
      else Some (wake (g\<lparr>hg_state := gate_learn (gate_return_slot (hg_state g) out now) p out now\<rparr>)))"
  unfolding gate_finish_def gate_learn_def gate_return_slot_def Let_def by (rule refl)

lemma gate_learn_effect:
  assumes "state_inv s" "queue_ok s"
  shows "evolves s (gate_learn s p out now)" "gs_active (gate_learn s p out now) = gs_active s"
    "probing (gate_learn s p out now) = (if pm_probe p then 0 else probing s)"
proof -
  note h = evolves_halve [OF assms, of 0 now "pm_epoch p"]
  show "evolves s (gate_learn s p out now)"
  proof (cases "pm_probe p \<or> gs_breaker s \<noteq> Closed \<or> out \<noteq> Success")
    case True
    with assms h show ?thesis
      by (auto simp: gate_learn_def evolves_refl evolves_finish_probe split: outcome.splits)
  next
    case False
    with assms show ?thesis
      by (auto simp: gate_learn_def Let_def evolves_def state_inv_def epoch_ok_def gate_const_defs)
  qed
  show "gs_active (gate_learn s p out now) = gs_active s"
    by (auto simp: gate_learn_def Let_def split: outcome.splits)
  show "probing (gate_learn s p out now) = (if pm_probe p then 0 else probing s)"
    using halve_probing [of s now "pm_epoch p" 0] finish_probe_keeps(3)
    by (auto simp: gate_learn_def Let_def probing_def split: outcome.splits)
qed

lemma gate_return_slot_effect:
  assumes "state_inv s" "queue_ok s"
  shows "evolves s (gate_return_slot s out now)" "probing (gate_return_slot s out now) = probing s"
    "gs_active (gate_return_slot s out now) = gs_active s - 1"
  using assms
  by (auto simp: gate_return_slot_def Let_def evolves_def state_inv_def epoch_ok_def probing_def)

lemma gate_finish_effect:
  assumes "gate_finish g p out now = Some g'" "state_inv (hg_state g)" "queue_ok (hg_state g)"
  shows "evolves (hg_state g) (hg_state g')"
    "Suc (gs_active (hg_state g')) = gs_active (hg_state g)"
    "probing (hg_state g') = (if pm_probe p then 0 else probing (hg_state g))"
proof -
  let ?s1 = "gate_return_slot (hg_state g) out now"
  note slot = gate_return_slot_effect [OF assms(2,3), of out now]
  then have inv: "state_inv ?s1" "queue_ok ?s1"
    by (simp_all add: evolves_def)
  note learn = gate_learn_effect [OF inv, of p out now]
  have g': "hg_state g' = gate_learn ?s1 p out now" "gs_active (hg_state g) \<noteq> 0"
    using assms(1) by (auto simp: gate_finish_eq wake_def split: if_splits)
  show "evolves (hg_state g) (hg_state g')"
    using evolves_trans [OF slot(1) learn(1)] g' by simp
  show "Suc (gs_active (hg_state g')) = gs_active (hg_state g)"
    using slot learn g' by simp
  show "probing (hg_state g') = (if pm_probe p then 0 else probing (hg_state g))"
    using slot learn g' by simp
qed

lemma permit_finish_effect:
  assumes "permit_finish g p out now = Some (p', g')" "state_inv (hg_state g)" "queue_ok (hg_state g)"
  shows "evolves (hg_state g) (hg_state g')"
    "Suc (gs_active (hg_state g')) = gs_active (hg_state g)"
    "probing (hg_state g') = (if pm_probe p then 0 else probing (hg_state g))"
proof -
  have "(out = Local \<and> gate_release g (pm_probe p) now = Some g') \<or>
      (out \<noteq> Local \<and> gate_finish g p out now = Some g')"
    using assms(1) by (auto simp: permit_finish_def Let_def split: if_splits)
  then show "evolves (hg_state g) (hg_state g')"
    "Suc (gs_active (hg_state g')) = gs_active (hg_state g)"
    "probing (hg_state g') = (if pm_probe p then 0 else probing (hg_state g))"
    using gate_release_effect [of g "pm_probe p" now g'] gate_finish_effect [of g p out now g']
      assms(2,3) by auto
qed

lemma finish_long_poll_effect:
  assumes "state_inv (hg_state g)" "queue_ok (hg_state g)"
  shows "evolves (hg_state g) (hg_state (finish_long_poll g p out now))"
    "gs_active (hg_state (finish_long_poll g p out now)) = gs_active (hg_state g)"
    "probing (hg_state (finish_long_poll g p out now)) =
       (if lp_probe p then 0 else probing (hg_state g))"
proof -
  define s1 where "s1 = (if out = TimedOut
      then (hg_state g)\<lparr>gs_held := gs_held (hg_state g) @ [now + TIMEOUT_HOLD]\<rparr> else hg_state g)"
  have g': "hg_state (finish_long_poll g p out now) =
      (if lp_probe p then finish_probe s1 now out
       else if out = TimedOut \<or> out = Overloaded then halve s1 now (lp_epoch p) 0 else s1)"
    by (simp add: finish_long_poll_def Let_def wake_def s1_def)
  have s1: "evolves (hg_state g) s1" "state_inv s1" "queue_ok s1" "gs_active s1 = gs_active (hg_state g)"
    "probing s1 = probing (hg_state g)"
    using assms by (auto simp: s1_def evolves_def state_inv_def epoch_ok_def probing_def)
  show "evolves (hg_state g) (hg_state (finish_long_poll g p out now))"
    unfolding g' using s1 evolves_trans [OF s1(1) evolves_finish_probe]
      evolves_trans [OF s1(1) evolves_halve [OF s1(2,3), of 0 now "lp_epoch p"]] by simp
  show "gs_active (hg_state (finish_long_poll g p out now)) = gs_active (hg_state g)"
    unfolding g' using s1(4) by simp
  show "probing (hg_state (finish_long_poll g p out now)) =
       (if lp_probe p then 0 else probing (hg_state g))"
    unfolding g' using s1(5) finish_probe_keeps(3) by simp
qed

text \<open>How the invariant follows the gate when a handle is kept, added or returned.\<close>

lemma gate_inv_evolves:
  assumes "gate_inv y" "evolves (sy_state y) (hg_state g)"
    "gs_active (hg_state g) = gs_active (sy_state y)" "probing (hg_state g) = probing (sy_state y)"
  shows "gate_inv (y\<lparr>sy_gate := g\<rparr>)"
  using assms by (fastforce simp: gate_inv_def evolves_def probes_def ordinary_def)

lemma gate_inv_add_permit:
  assumes "gate_inv y" "evolves (sy_state y) (hg_state g)"
    "gs_active (hg_state g) = Suc (gs_active (sy_state y))" "probing (sy_state y) = 0"
    "probing (hg_state g) = of_bool (pm_probe p)" "\<not> pm_finished p"
    "\<not> pm_probe p \<Longrightarrow> epoch_ok (hg_state g) (pm_epoch p) \<and> gs_active (sy_state y) < MAX_LIMIT"
  shows "gate_inv (y\<lparr>sy_gate := g, sy_permits := p # sy_permits y\<rparr>)"
proof -
  have "length (ordinary y) < MAX_LIMIT" if "\<not> pm_probe p"
  proof -
    have "length (ordinary y) \<le> gs_active (sy_state y)"
      using assms(1) length_filter_le [of _ "sy_permits y"] by (simp add: ordinary_def gate_inv_def)
    also have "\<dots> < MAX_LIMIT"
      using assms(7) [OF that] by simp
    finally show ?thesis .
  qed
  with assms show ?thesis
    by (fastforce simp: gate_inv_def evolves_def probes_def ordinary_def)
qed

lemma gate_inv_add_poll:
  assumes "gate_inv y" "evolves (sy_state y) (hg_state g)"
    "gs_active (hg_state g) = gs_active (sy_state y)" "probing (sy_state y) = 0"
    "probing (hg_state g) = of_bool (lp_probe lp)" "\<not> lp_reported lp"
    "\<not> lp_probe lp \<Longrightarrow> epoch_ok (hg_state g) (lp_epoch lp)"
  shows "gate_inv (y\<lparr>sy_gate := g, sy_polls := lp # sy_polls y\<rparr>)"
  using assms by (fastforce simp: gate_inv_def evolves_def probes_def ordinary_def)

lemma probing_le_1: "probing s \<le> 1"
  by (simp add: probing_def split: breaker.splits)

lemma gate_inv_remove_permit:
  assumes inv: "gate_inv y" and ev: "evolves (sy_state y) (hg_state g)" and p: "p \<in> set (sy_permits y)"
    and act: "Suc (gs_active (hg_state g)) = gs_active (sy_state y)"
    and prob: "probing (hg_state g) = (if pm_probe p then 0 else probing (sy_state y))"
  shows "gate_inv (y\<lparr>sy_gate := g, sy_permits := remove1 p (sy_permits y)\<rparr>)"
proof -
  let ?y = "y\<lparr>sy_gate := g, sy_permits := remove1 p (sy_permits y)\<rparr>"
  have sub: "set (remove1 p (sy_permits y)) \<subseteq> set (sy_permits y)"
    by (rule set_remove1_subset)
  have pr: "probes ?y = probing (hg_state g)"
  proof (cases "pm_probe p")
    case True
    with p inv have "Suc (probes ?y) = probing (sy_state y)"
      using length_filter_remove1 [of p "sy_permits y" pm_probe] by (simp add: probes_def gate_inv_def)
    with prob True probing_le_1 [of "sy_state y"] show ?thesis by simp
  next
    case False
    with inv prob show ?thesis
      by (simp add: probes_def gate_inv_def filter_remove1_not)
  qed
  have "length (ordinary ?y) \<le> length (ordinary y)"
    using length_filter_remove1 [OF p, of "\<lambda>p. \<not> pm_probe p"]
      filter_remove1_not [of "\<lambda>p. \<not> pm_probe p" p "sy_permits y"]
    by (cases "pm_probe p") (simp_all add: ordinary_def)
  moreover have "gs_active (hg_state g) = length (remove1 p (sy_permits y))"
    using act inv length_remove1_Suc [OF p] by (simp add: gate_inv_def)
  ultimately show ?thesis
    using inv ev pr sub by (fastforce simp: gate_inv_def evolves_def)
qed

lemma gate_inv_remove_poll:
  assumes inv: "gate_inv y" and ev: "evolves (sy_state y) (hg_state g)" and p: "lp \<in> set (sy_polls y)"
    and act: "gs_active (hg_state g) = gs_active (sy_state y)"
    and prob: "probing (hg_state g) = (if lp_probe lp then 0 else probing (sy_state y))"
  shows "gate_inv (y\<lparr>sy_gate := g, sy_polls := remove1 lp (sy_polls y)\<rparr>)"
proof -
  let ?y = "y\<lparr>sy_gate := g, sy_polls := remove1 lp (sy_polls y)\<rparr>"
  have sub: "set (remove1 lp (sy_polls y)) \<subseteq> set (sy_polls y)"
    by (rule set_remove1_subset)
  have pr: "probes ?y = probing (hg_state g)"
  proof (cases "lp_probe lp")
    case True
    with p inv have "Suc (probes ?y) = probing (sy_state y)"
      using length_filter_remove1 [of lp "sy_polls y" lp_probe] by (simp add: probes_def gate_inv_def)
    with prob True probing_le_1 [of "sy_state y"] show ?thesis by simp
  next
    case False
    with inv prob show ?thesis
      by (simp add: probes_def gate_inv_def filter_remove1_not)
  qed
  with inv ev act sub show ?thesis
    by (fastforce simp: gate_inv_def evolves_def ordinary_def)
qed

lemma queue_ok_append:
  "queue_ok s \<Longrightarrow> queue_ok (s\<lparr>gs_next_id := Suc (gs_next_id s),
     gs_queue := gs_queue s @ [(Suc (gs_next_id s), now)]\<rparr>)"
  by (fastforce simp: queue_ok_def)

lemma queue_ok_next_id: "queue_ok s \<Longrightarrow> queue_ok (s\<lparr>gs_next_id := Suc (gs_next_id s)\<rparr>)"
  by (fastforce simp: queue_ok_def)

lemma queue_ok_tl: "queue_ok s \<Longrightarrow> queue_ok (s\<lparr>gs_queue := tl (gs_queue s)\<rparr>)"
  by (cases "gs_queue s") (auto simp: queue_ok_def)

lemma queue_ok_filter: "queue_ok s \<Longrightarrow> queue_ok (s\<lparr>gs_queue := filter P (gs_queue s)\<rparr>)"
  by (fastforce simp: queue_ok_def distinct_map_filter)

text \<open>What a look at the gate may do: nothing but release holds, or hand out one permit.\<close>

definition granted :: "gate_state \<Rightarrow> permit option \<Rightarrow> gate_state \<Rightarrow> bool" where
  "granted s r t \<longleftrightarrow> evolves s t \<and>
     (case r of
        None \<Rightarrow> gs_active t = gs_active s \<and> probing t = probing s
      | Some p \<Rightarrow> gs_active t = Suc (gs_active s) \<and> probing s = 0 \<and>
          probing t = of_bool (pm_probe p) \<and> \<not> pm_finished p \<and>
          (\<not> pm_probe p \<longrightarrow> epoch_ok t (pm_epoch p) \<and> gs_active s < MAX_LIMIT))"

lemma granted_admit:
  assumes adm: "admission s now = (Admit e probe, t)" and inv: "state_inv s" "queue_ok s"
    and q: "queue_ok (t\<lparr>gs_queue := q\<rparr>)"
  shows "granted s (Some (permit_new timeout e probe now))
           (t\<lparr>gs_queue := q, gs_active := Suc (gs_active t)\<rparr>)"
proof -
  have "evolves s (t\<lparr>gs_queue := q, gs_active := Suc (gs_active t)\<rparr>)"
    using evolves_admission [OF adm inv] q by (auto simp: evolves_def state_inv_def epoch_ok_def)
  moreover have "\<not> probe \<Longrightarrow> e = gs_epoch t \<and> gs_breaker t = Closed \<and> gs_active s < MAX_LIMIT"
    using adm inv by (auto simp: admission_ordinary_iff in_use_def state_inv_def)
  ultimately show ?thesis
    using admission_probing [OF adm] admission_frame [OF adm]
    by (auto simp: granted_def permit_new_def probing_def epoch_ok_def)
qed

lemma granted_wait:
  assumes adm: "admission s now = (Wait w, t)" and inv: "state_inv s" "queue_ok s"
  shows "granted s None t"
  using evolves_admission [OF adm inv] admission_wait_probing [OF adm] admission_frame [OF adm]
  by (simp add: granted_def)

lemma granted_refl: "state_inv s \<Longrightarrow> queue_ok s \<Longrightarrow> granted s None s"
  by (simp add: granted_def evolves_refl)

lemma acquire_look_granted:
  assumes look: "acquire_look g wid timeout now = (r, g')"
    and inv: "state_inv (hg_state g)" "queue_ok (hg_state g)"
  shows "granted (hg_state g) (case_sum Map.empty Some r) (hg_state g')"
proof (cases "queue_front (hg_state g) = Some wid")
  case False
  with look granted_refl [OF inv] show ?thesis
    by (auto simp: acquire_look_def)
next
  case True
  obtain a t where adm: "admission (hg_state g) now = (a, t)"
    by fastforce
  have "queue_ok t"
    using evolves_admission [OF adm inv] by (simp add: evolves_def)
  then have q: "queue_ok (t\<lparr>gs_queue := tl (gs_queue t)\<rparr>)"
    by (rule queue_ok_tl)
  from True adm look show ?thesis
    using granted_wait [OF _ inv] granted_admit [OF _ inv q]
    by (auto simp: acquire_look_def wake_def split: gate_admission.splits)
qed

lemma try_acquire_granted:
  assumes tried: "try_acquire g timeout now = (r, g')"
    and inv: "state_inv (hg_state g)" "queue_ok (hg_state g)"
  shows "granted (hg_state g) r (hg_state g')"
proof (cases "gs_queue (hg_state g) = []")
  case False
  with tried granted_refl [OF inv] show ?thesis
    by (auto simp: try_acquire_def)
next
  case True
  obtain a t where adm: "admission (hg_state g) now = (a, t)"
    by fastforce
  have q: "queue_ok (t\<lparr>gs_queue := gs_queue t\<rparr>)"
    using evolves_admission [OF adm inv] by (simp add: evolves_def)
  from True adm tried show ?thesis
    using granted_wait [OF _ inv] granted_admit [OF _ inv q]
    by (auto simp: try_acquire_def split: gate_admission.splits)
qed

lemma gate_inv_granted:
  assumes "gate_inv y" "granted (sy_state y) r (hg_state g)"
  shows "gate_inv (case r of None \<Rightarrow> y\<lparr>sy_gate := g\<rparr>
     | Some p \<Rightarrow> y\<lparr>sy_gate := g, sy_permits := p # sy_permits y\<rparr>)"
  using assms
  by (auto simp: granted_def split: option.splits intro: gate_inv_evolves gate_inv_add_permit)

lemma gate_inv_state: "gate_inv y \<Longrightarrow> state_inv (sy_state y) \<and> queue_ok (sy_state y)"
  by (simp add: gate_inv_def)

lemma long_poll_look_keeps:
  assumes inv: "gate_inv y" and look: "long_poll_look (sy_gate y) wid now = (r, g)"
  shows "gate_inv (case r of Inl w \<Rightarrow> y\<lparr>sy_gate := g\<rparr>
     | Inr lp \<Rightarrow> y\<lparr>sy_gate := g, sy_polls := lp # sy_polls y\<rparr>)"
proof -
  obtain a t where adm: "long_poll_admission (sy_state y) now = (a, t)"
    by fastforce
  note eff = long_poll_admission_effect [OF adm, OF conjunct1 [OF gate_inv_state [OF inv]]
      conjunct2 [OF gate_inv_state [OF inv]]]
  then have ev: "evolves (sy_state y) (t\<lparr>gs_long_polls := l\<rparr>)" for l
    by (auto simp: evolves_def state_inv_def epoch_ok_def)
  show ?thesis
  proof (cases a)
    case (Wait w)
    with adm look eff have "gate_inv (y\<lparr>sy_gate := g\<rparr>)"
      by (intro gate_inv_evolves [OF inv]) (auto simp: long_poll_look_def)
    with Wait adm look show ?thesis
      by (auto simp: long_poll_look_def)
  next
    case (Admit e probe)
    define lp where "lp = \<lparr>lp_epoch = e, lp_probe = probe, lp_reported = False\<rparr>"
    with Admit adm look
    have r: "r = Inr lp" "lp_epoch lp = e" "lp_probe lp = probe" "\<not> lp_reported lp"
        "hg_state g = t\<lparr>gs_long_polls := filter (\<lambda>(i, _). i \<noteq> wid) (gs_long_polls t)\<rparr>"
      by (auto simp: long_poll_look_def long_poll_waiting_drop_def)
    have "gate_inv (y\<lparr>sy_gate := g, sy_polls := lp # sy_polls y\<rparr>)"
      using r ev eff Admit by (intro gate_inv_add_poll [OF inv]) (auto simp: probing_def epoch_ok_def evolves_def)
    with r show ?thesis by simp
  qed
qed

lemma report_interactive_evolves:
  assumes "gate_inv y"
  shows "evolves (sy_state y) (hg_state (report_interactive (sy_gate y) e out now))"
    "gs_active (hg_state (report_interactive (sy_gate y) e out now)) = gs_active (sy_state y)"
    "probing (hg_state (report_interactive (sy_gate y) e out now)) = probing (sy_state y)"
  using gate_inv_state [OF assms] evolves_halve [of "sy_state y" 1 now e]
  by (auto simp: report_interactive_def evolves_refl)

lemma gate_inv_calls: "gate_inv y \<Longrightarrow> set cs \<subseteq> set (sy_calls y) \<Longrightarrow> gate_inv (y\<lparr>sy_calls := cs\<rparr>)"
  by (fastforce simp: gate_inv_def probes_def ordinary_def)

lemma long_poll_finish_effect:
  assumes inv: "gate_inv y" and fin: "long_poll_finish (sy_gate y) lp out now = (lp', g)"
  shows "evolves (sy_state y) (hg_state g)" "gs_active (hg_state g) = gs_active (sy_state y)"
    "probing (hg_state g) = (if lp_probe lp then 0 else probing (sy_state y))"
  using fin gate_inv_state [OF inv] finish_long_poll_effect [of "sy_gate y" lp out now]
    evolves_drop_probe [of "sy_state y" now] drop_probe_keeps(3)
  by (auto simp: long_poll_finish_def release_long_poll_probe_def wake_def evolves_refl split: if_splits)

lemma gate_step_inv: "gate_inv y \<Longrightarrow> gate_step y y' \<Longrightarrow> gate_inv y'"
proof (rotate_tac, induction rule: gate_step.induct)
  case (tick y t)
  then show ?case by (simp add: gate_inv_def probes_def ordinary_def)
next
  case (join y wid g)
  from join.hyps have "hg_state g = (sy_state y)\<lparr>gs_next_id := Suc (gs_next_id (sy_state y)),
      gs_queue := gs_queue (sy_state y) @ [(Suc (gs_next_id (sy_state y)), sy_now y)]\<rparr>"
    by (auto simp: acquire_start_def next_id_def)
  with join.prems gate_inv_state [OF join.prems] show ?case
    by (intro gate_inv_evolves evolves_same_core)
      (simp_all add: same_core_def queue_ok_append probing_def)
next
  case (look_wait y wid timeout w g)
  with gate_inv_granted [OF look_wait.prems, of None g] gate_inv_state [OF look_wait.prems]
    acquire_look_granted [OF look_wait.hyps]
  show ?case by simp
next
  case (look_admit y wid timeout p g)
  with gate_inv_granted [OF look_admit.prems, of "Some p" g] gate_inv_state [OF look_admit.prems]
    acquire_look_granted [OF look_admit.hyps]
  show ?case by simp
next
  case (leave wid y)
  with gate_inv_state [OF leave.prems] queue_ok_filter show ?case
    by (intro gate_inv_evolves evolves_same_core)
      (simp_all add: same_core_def queued_drop_def wake_def probing_def)
next
  case (try_none y timeout g)
  with gate_inv_granted [OF try_none.prems, of None g] gate_inv_state [OF try_none.prems]
    try_acquire_granted [OF try_none.hyps]
  show ?case by simp
next
  case (try_some y timeout p g)
  with gate_inv_granted [OF try_some.prems, of "Some p" g] gate_inv_state [OF try_some.prems]
    try_acquire_granted [OF try_some.hyps]
  show ?case by simp
next
  case (finish p y out p' g)
  with permit_finish_effect [OF finish.hyps(2)] gate_inv_state [OF finish.prems]
  show ?case by (intro gate_inv_remove_permit) auto
next
  case (drop p y g)
  then have "gate_release (sy_gate y) (pm_probe p) (sy_now y) = Some g"
    by (auto simp: permit_drop_def gate_inv_def split: if_splits)
  with gate_release_effect [OF this] gate_inv_state [OF drop.prems] drop
  show ?case by (intro gate_inv_remove_permit) auto
next
  case (call y)
  then show ?case by (simp add: gate_inv_def probes_def ordinary_def gate_epoch_def)
next
  case (report e y out)
  from gate_inv_evolves [OF report.prems report_interactive_evolves [OF report.prems, of e out "sy_now y"]]
  have "gate_inv (y\<lparr>sy_gate := report_interactive (sy_gate y) e out (sy_now y)\<rparr>)" .
  then have "gate_inv (y\<lparr>sy_gate := report_interactive (sy_gate y) e out (sy_now y)\<rparr>
      \<lparr>sy_calls := remove1 e (sy_calls y)\<rparr>)"
    by (rule gate_inv_calls) (simp add: set_remove1_subset)
  then show ?case by simp
next
  case (poll_join y wid g)
  from poll_join.hyps obtain lps where "hg_state g = (sy_state y)
      \<lparr>gs_next_id := Suc (gs_next_id (sy_state y)), gs_long_polls := lps\<rparr>"
    by (auto simp: long_poll_start_def next_id_def)
  with poll_join.prems gate_inv_state [OF poll_join.prems] show ?case
    by (intro gate_inv_evolves evolves_same_core)
      (simp_all add: same_core_def queue_ok_next_id probing_def)
next
  case (poll_wait y wid w g)
  with long_poll_look_keeps [OF poll_wait.prems poll_wait.hyps] show ?case by simp
next
  case (poll_admit y wid lp g)
  with long_poll_look_keeps [OF poll_admit.prems poll_admit.hyps] show ?case by simp
next
  case (poll_leave y wid)
  with gate_inv_state [OF poll_leave.prems] show ?case
    by (intro gate_inv_evolves evolves_same_core)
      (simp_all add: same_core_def long_poll_waiting_drop_def probing_def)
next
  case (poll_finish lp y out lp' g)
  with long_poll_finish_effect [OF poll_finish.prems poll_finish.hyps(2)]
  show ?case by (intro gate_inv_remove_poll) auto
next
  case (poll_drop lp y)
  then have "\<not> lp_reported lp"
    by (auto simp: gate_inv_def)
  then have "evolves (sy_state y) (hg_state (long_poll_drop (sy_gate y) lp (sy_now y)))"
    "gs_active (hg_state (long_poll_drop (sy_gate y) lp (sy_now y))) = gs_active (sy_state y)"
    "probing (hg_state (long_poll_drop (sy_gate y) lp (sy_now y))) =
       (if lp_probe lp then 0 else probing (sy_state y))"
    using gate_inv_state [OF poll_drop.prems] drop_probe_keeps(3)
    by (auto simp: long_poll_drop_def release_long_poll_probe_def wake_def evolves_refl
        evolves_drop_probe)
  with poll_drop show ?case by (intro gate_inv_remove_poll) auto
next
  case (snap y wall sn g)
  then have "hg_state g = release_expired_holds (sy_state y) (sy_now y)"
    by (auto simp: snapshot_def Let_def)
  with snap.prems gate_inv_state [OF snap.prems] show ?case
    by (intro gate_inv_evolves) (simp_all add: evolves_release probing_def)
qed

end
