(* ===== verification/Gate_Properties.thy ===== *)
theory Gate_Properties
  imports Gate_System
begin

text \<open>
  The properties of the load gate: what holds in every reachable state of the protocol of
  \<open>Gate_System\<close>, what each operation does, and that no waiter is left asleep.
\<close>

section \<open>Reachable states\<close>

interpretation gate: inv_system gate_init gate_step gate_inv
proof unfold_locales
  fix y
  assume "gate_init y"
  then obtain key where "sy_gate y = gate_new key" "sy_permits y = []" "sy_polls y = []"
      "sy_calls y = []"
    by (auto simp: gate_init_def)
  then show "gate_inv y"
    by (simp add: gate_inv_def gate_new_def state_new_def state_inv_def queue_ok_def probes_def
        probing_def ordinary_def gate_const_defs)
qed (rule gate_step_inv)

text \<open>A concrete gate used by the witnesses, and a run that takes one permit.\<close>

definition demo_gate :: gate_system where
  "demo_gate = \<lparr>sy_gate = gate_new (lit ''http://hs.test:80''), sy_now = 0, sy_permits = [],
     sy_polls = [], sy_calls = []\<rparr>"

definition demo_permit :: permit where
  "demo_permit = permit_new (from_secs 30) 0 False 0"

definition demo_busy :: gate_system where
  "demo_busy = demo_gate\<lparr>sy_gate := snd (try_acquire (sy_gate demo_gate) (from_secs 30) 0),
     sy_permits := [demo_permit]\<rparr>"

lemma demo_gate_init: "gate_init demo_gate"
  by (auto simp: gate_init_def demo_gate_def)

lemma demo_busy_reach: "gate_step\<^sup>*\<^sup>* demo_gate demo_busy"
proof -
  have "try_acquire (sy_gate demo_gate) (from_secs 30) (sy_now demo_gate) =
      (Some demo_permit, snd (try_acquire (sy_gate demo_gate) (from_secs 30) 0))"
    by (simp add: try_acquire_def demo_gate_def demo_permit_def gate_new_def state_new_def
        admission_def in_use_def Let_def release_expired_holds_def INITIAL_LIMIT_def)
  from gate_step.try_some [OF this] show ?thesis
    by (intro r_into_rtranclp) (simp add: demo_busy_def demo_gate_def)
qed

text \<open>C1: in every reachable state the \<open>active\<close> counter equals the number of permits handed
  out and not yet finished or dropped; at most \<open>MAX_LIMIT\<close> ordinary background requests and one
  probe are in flight; the limit never exceeds \<open>MAX_LIMIT\<close>, and it is zero exactly while the
  breaker is not closed.\<close>

theorem gate_load_bounds:
  assumes "gate_init y0" "gate_step\<^sup>*\<^sup>* y0 y"
  shows "gs_active (sy_state y) = length (sy_permits y) \<and>
    length (ordinary y) \<le> MAX_LIMIT \<and> gs_active (sy_state y) \<le> MAX_LIMIT + 1 \<and>
    gs_limit (sy_state y) \<le> MAX_LIMIT \<and>
    (gs_limit (sy_state y) = 0 \<longleftrightarrow> gs_breaker (sy_state y) \<noteq> Closed)"
proof -
  have inv: "gate_inv y"
    by (rule gate.reach_inv [OF assms])
  have "length (sy_permits y) = length (ordinary y) + length (filter pm_probe (sy_permits y))"
    using sum_length_filter_compl [of pm_probe "sy_permits y"] by (simp add: ordinary_def)
  moreover have "length (filter pm_probe (sy_permits y)) \<le> 1"
    using inv probing_le_1 [of "sy_state y"] by (simp add: gate_inv_def probes_def)
  ultimately show ?thesis
    using inv by (auto simp: gate_inv_def state_inv_def)
qed

theorem gate_load_bounds_witness:
  "gs_active (sy_state demo_busy) = 1 \<and> length (ordinary demo_busy) \<le> MAX_LIMIT"
  using gate_load_bounds [OF demo_gate_init demo_busy_reach] by (simp add: demo_busy_def)

text \<open>At most one probe is outstanding, counting permits and long-polls, and one is outstanding
  exactly while the breaker is probing.\<close>

theorem gate_single_probe:
  assumes "gate_init y0" "gate_step\<^sup>*\<^sup>* y0 y"
  shows "probes y \<le> 1 \<and> (probes y = 1 \<longleftrightarrow> (\<exists>opened. gs_breaker (sy_state y) = Probing opened))"
  using gate.reach_inv [OF assms] probing_le_1 [of "sy_state y"]
  by (auto simp: gate_inv_def probing_def split: breaker.splits)

theorem gate_single_probe_witness: "probes demo_busy \<le> 1"
  using gate_single_probe [OF demo_gate_init demo_busy_reach] by simp

text \<open>Finishing or dropping a permit that is outstanding never underflows the \<open>active\<close>
  counter: both operations return, whatever the outcome and the time.\<close>

theorem gate_permit_never_underflows:
  assumes "gate_init y0" "gate_step\<^sup>*\<^sup>* y0 y" "p \<in> set (sy_permits y)"
  shows "(\<exists>p' g. permit_finish (sy_gate y) p out now = Some (p', g)) \<and>
    (\<exists>g. permit_drop (sy_gate y) p now = Some g)"
proof -
  have "gs_active (sy_state y) \<noteq> 0"
    using gate.reach_inv [OF assms(1,2)] assms(3) by (auto simp: gate_inv_def)
  then show ?thesis
    by (auto simp: permit_finish_def permit_drop_def gate_release_def gate_finish_eq Let_def)
qed

theorem gate_permit_never_underflows_witness:
  "\<exists>p' g. permit_finish (sy_gate demo_busy) demo_permit TimedOut 7 = Some (p', g)"
proof -
  have "demo_permit \<in> set (sy_permits demo_busy)"
    by (simp add: demo_busy_def)
  from gate_permit_never_underflows [OF demo_gate_init demo_busy_reach this, of TimedOut 7]
  show ?thesis by blast
qed

section \<open>No waiter is left asleep\<close>

text \<open>A waiter that is told to sleep until a deadline (or without one) misses nothing by
  sleeping: as long as the gate does not change, no earlier look would have admitted it.\<close>

theorem gate_wait_deadline_sound:
  assumes "admission s now = (Wait w, s')" "now \<le> t" "\<forall>d. w = Some d \<longrightarrow> t < d"
  shows "\<exists>w'. fst (admission s' t) = Wait w'"
proof -
  have s': "s' = release_expired_holds s now"
    using assms(1) by (rule admission_wait_state)
  have held: "release_expired_holds s' t = s'" if "w = earliest_hold s'"
    using assms(3) that release_before_earliest [of s' t] by simp
  show ?thesis
  proof (cases "gs_breaker s")
    case Closed
    with assms(1) have "w = earliest_hold s'" "gs_limit s' \<le> in_use s'"
      by (auto simp: admission_def Let_def s' split: if_splits)
    with Closed held show ?thesis
      by (auto simp: admission_def Let_def in_use_def s')
  next
    case (Open opened until)
    show ?thesis
    proof (cases "now < until")
      case True
      with Open assms have "t < until"
        by (auto simp: admission_def Let_def split: if_splits)
      with Open show ?thesis
        by (auto simp: admission_def Let_def s')
    next
      case False
      with Open assms(1) have "w = earliest_hold s'" "gs_held s' \<noteq> []"
        by (auto simp: admission_def Let_def s' split: if_splits)
      with Open held show ?thesis
        by (auto simp: admission_def Let_def s')
    qed
  next
    case (Probing opened)
    then show ?thesis by (auto simp: admission_def Let_def s')
  qed
qed

theorem gate_wait_deadline_sound_witness:
  "\<exists>w'. fst (admission (state_new\<lparr>gs_limit := 1, gs_held := [100]\<rparr>) 99) = Wait w'"
proof -
  have "admission (state_new\<lparr>gs_limit := 1, gs_held := [100]\<rparr>) 50 =
      (Wait (Some 100), state_new\<lparr>gs_limit := 1, gs_held := [100]\<rparr>)"
    by (simp add: admission_def state_new_def release_expired_holds_def in_use_def earliest_hold_def
        Let_def)
  from gate_wait_deadline_sound [OF this, of 99] show ?thesis by simp
qed

text \<open>The waiter \<open>wid\<close> would be admitted if it looked now.\<close>

definition admissible :: "gate_system \<Rightarrow> nat \<Rightarrow> bool" where
  "admissible y wid \<longleftrightarrow> queue_front (sy_state y) = Some wid \<and>
     (\<exists>e probe s. admission (sy_state y) (sy_now y) = (Admit e probe, s))"

lemma admissible_iff:
  "admissible y wid \<longleftrightarrow> queue_front (sy_state y) = Some wid \<and>
     (gs_breaker (sy_state y) = Closed \<and>
        in_use (release_expired_holds (sy_state y) (sy_now y)) < gs_limit (sy_state y) \<or>
      (\<exists>opened until. gs_breaker (sy_state y) = Open opened until \<and> until \<le> sy_now y \<and>
        (\<forall>u \<in> set (gs_held (sy_state y)). u \<le> sy_now y)))"
  by (auto simp: admissible_def admission_def Let_def filter_empty_conv not_less split: breaker.splits)

text \<open>A gate that offers a waiter no more than another: what an operation that does not wake
  may do to it.\<close>

definition offers_less :: "gate_state \<Rightarrow> gate_state \<Rightarrow> instant \<Rightarrow> bool" where
  "offers_less t s now \<longleftrightarrow>
     gs_active t = gs_active s \<and> gs_limit t \<le> gs_limit s \<and>
     gs_held (release_expired_holds t now) = gs_held (release_expired_holds s now) \<and>
     (gs_breaker t = gs_breaker s \<or> probing t = 1) \<and>
     (\<exists>rest. gs_queue t = gs_queue s @ rest)"

lemma offers_less_refl: "offers_less s s now"
  by (simp add: offers_less_def)

lemma offers_less_admissible:
  assumes less: "offers_less (sy_state y') (sy_state y) (sy_now y)" and now: "sy_now y' = sy_now y"
    and adm: "admissible y' wid" and q: "wid \<in> fst ` set (gs_queue (sy_state y))"
  shows "admissible y wid"
proof -
  have breaker: "gs_breaker (sy_state y') = gs_breaker (sy_state y)"
    using less adm by (auto simp: offers_less_def admissible_iff probing_def)
  have "queue_front (sy_state y) = Some wid"
    using less adm q
    by (cases "gs_queue (sy_state y)") (auto simp: offers_less_def admissible_iff queue_front_def)
  moreover have "(\<forall>u\<in>set (gs_held (sy_state y')). u \<le> sy_now y) \<longleftrightarrow>
      (\<forall>u\<in>set (gs_held (sy_state y)). u \<le> sy_now y)"
  proof -
    have "(\<forall>u\<in>set (gs_held s). u \<le> sy_now y) \<longleftrightarrow> gs_held (release_expired_holds s (sy_now y)) = []"
      for s by (auto simp: filter_empty_conv not_less)
    with less show ?thesis by (simp add: offers_less_def)
  qed
  ultimately show ?thesis
    using less adm breaker now by (auto simp: admissible_iff offers_less_def in_use_def)
qed

lemma offers_less_same:
  "gs_active t = gs_active s \<Longrightarrow> gs_limit t = gs_limit s \<Longrightarrow> gs_held t = gs_held s \<Longrightarrow>
   gs_breaker t = gs_breaker s \<Longrightarrow> gs_queue t = gs_queue s @ rest \<Longrightarrow> offers_less t s now"
  by (simp add: offers_less_def)

lemma offers_less_release: "offers_less (release_expired_holds s now) s now"
  by (simp add: offers_less_def)

lemma offers_less_admission_wait: "admission s now = (Wait w, t) \<Longrightarrow> offers_less t s now"
  by (drule admission_wait_state) (simp add: offers_less_release)

lemma offers_less_long_poll:
  assumes "long_poll_admission s now = (a, t)"
  shows "offers_less t s now"
  using assms
  by (auto simp: long_poll_admission_eq admission_def Let_def offers_less_def probing_def
      split: breaker.splits if_splits)

lemma offers_less_halve: "gs_breaker s = Closed \<longrightarrow> 1 \<le> gs_limit s \<Longrightarrow> offers_less (halve s now e 1) s now"
  by (auto simp: halve_def Let_def offers_less_def)

lemma gate_step_quiet:
  assumes "gate_step y y'" "gate_inv y" "hg_changed (sy_gate y') = hg_changed (sy_gate y)"
    "wid \<in> fst ` set (gs_queue (sy_state y))"
  shows "offers_less (sy_state y') (sy_state y) (sy_now y)"
  using assms
proof (induction rule: gate_step.induct)
  case (join y w g)
  then show ?case
    by (auto simp: acquire_start_def next_id_def intro!: offers_less_same)
next
  case (look_wait y w timeout d g)
  then show ?case
    by (auto simp: acquire_look_def offers_less_refl split: if_splits prod.splits gate_admission.splits
        intro: offers_less_admission_wait)
next
  case (try_none y timeout g)
  then show ?case
    by (auto simp: try_acquire_def offers_less_refl split: if_splits prod.splits gate_admission.splits
        intro: offers_less_admission_wait)
next
  case (report e y out)
  have "offers_less (halve (sy_state y) (sy_now y) e 1) (sy_state y) (sy_now y)"
    using gate_inv_state [OF report.prems(1)] by (intro offers_less_halve) (simp add: state_inv_def)
  then show ?case
    by (simp add: report_interactive_def offers_less_refl)
next
  case (poll_wait y w d g)
  then show ?case
    by (auto simp: long_poll_look_def split: prod.splits gate_admission.splits intro: offers_less_long_poll)
next
  case (poll_admit y w lp g)
  then obtain e probe t where "long_poll_admission (sy_state y) (sy_now y) = (Admit e probe, t)"
      "hg_state g = t\<lparr>gs_long_polls := filter (\<lambda>(i, _). i \<noteq> w) (gs_long_polls t)\<rparr>"
    by (auto simp: long_poll_look_def long_poll_waiting_drop_def split: prod.splits gate_admission.splits)
  with offers_less_long_poll show ?case
    by (fastforce simp: offers_less_def probing_def)
next
  case (snap y wall sn g)
  then show ?case
    by (auto simp: snapshot_def Let_def offers_less_release)
qed (auto simp: acquire_look_def try_acquire_def queued_drop_def permit_finish_def permit_drop_def
      gate_release_def gate_finish_eq long_poll_start_def next_id_def long_poll_waiting_drop_def
      long_poll_finish_def finish_long_poll_def release_long_poll_probe_def long_poll_drop_def
      wake_def Let_def offers_less_refl offers_less_same
      split: if_splits prod.splits gate_admission.splits)

text \<open>C2: no wake-up is lost. If a step of another task leaves \<open>changed\<close> alone, it has not made
  any queued request admissible that was not admissible before it.\<close>

theorem gate_no_lost_wakeup:
  assumes "gate_init y0" "gate_step\<^sup>*\<^sup>* y0 y" "gate_step y y'"
    "hg_changed (sy_gate y') = hg_changed (sy_gate y)" "sy_now y' = sy_now y"
    "wid \<in> fst ` set (gs_queue (sy_state y))" "admissible y' wid"
  shows "admissible y wid"
  using offers_less_admissible gate_step_quiet [OF assms(3) gate.reach_inv [OF assms(1,2)] assms(4,6)]
    assms(5-7) by blast

definition demo_queued :: gate_system where
  "demo_queued = demo_gate\<lparr>sy_gate := snd (acquire_start (sy_gate demo_gate) 0)\<rparr>"

lemma demo_queued_reach: "gate_step\<^sup>*\<^sup>* demo_gate demo_queued"
proof -
  have "acquire_start (sy_gate demo_gate) (sy_now demo_gate) =
      (1, snd (acquire_start (sy_gate demo_gate) 0))"
    by (simp add: acquire_start_def demo_gate_def gate_new_def state_new_def next_id_def)
  from gate_step.join [OF this] show ?thesis
    by (intro r_into_rtranclp) (simp add: demo_queued_def)
qed

theorem gate_no_lost_wakeup_witness: "admissible demo_queued 1"
proof -
  let ?y' = "demo_queued\<lparr>sy_calls := gate_epoch (sy_gate demo_queued) # sy_calls demo_queued\<rparr>"
  have "admissible ?y' 1"
    by (simp add: admissible_iff demo_queued_def demo_gate_def gate_new_def state_new_def
        acquire_start_def next_id_def queue_front_def in_use_def INITIAL_LIMIT_def)
  moreover have "1 \<in> fst ` set (gs_queue (sy_state demo_queued))"
    by (simp add: demo_queued_def demo_gate_def gate_new_def state_new_def acquire_start_def next_id_def)
  ultimately show ?thesis
    using gate_no_lost_wakeup [OF demo_gate_init demo_queued_reach gate_step.call, of 1] by simp
qed

text \<open>A waiter told to sleep without a deadline sleeps behind some task that will wake it: a
  permit is outstanding, or the probe is a long-poll that is outstanding.\<close>

theorem gate_indefinite_wait_has_owner:
  assumes "gate_init y0" "gate_step\<^sup>*\<^sup>* y0 y" "admission (sy_state y) now = (Wait None, s)"
  shows "0 < length (sy_permits y) \<or> (\<exists>lp \<in> set (sy_polls y). lp_probe lp)"
proof -
  have inv: "gate_inv y"
    by (rule gate.reach_inv [OF assms(1,2)])
  from admission_wait_None [OF assms(3)] show ?thesis
  proof
    assume "\<exists>opened. gs_breaker (sy_state y) = Probing opened"
    with inv have "probes y = 1"
      by (auto simp: gate_inv_def probing_def)
    then have "filter pm_probe (sy_permits y) \<noteq> [] \<or> filter lp_probe (sy_polls y) \<noteq> []"
      by (auto simp: probes_def)
    then show ?thesis by (auto simp: filter_empty_conv)
  next
    assume "gs_breaker (sy_state y) = Closed \<and> gs_limit (sy_state y) \<le> gs_active (sy_state y)"
    with inv show ?thesis by (auto simp: gate_inv_def state_inv_def)
  qed
qed

definition demo_full :: gate_system where
  "demo_full = demo_busy\<lparr>sy_gate := snd (try_acquire (sy_gate demo_busy) (from_secs 30) 0),
     sy_permits := [demo_permit, demo_permit]\<rparr>"

lemma demo_full_reach: "gate_step\<^sup>*\<^sup>* demo_gate demo_full"
proof -
  have "try_acquire (sy_gate demo_busy) (from_secs 30) (sy_now demo_busy) =
      (Some demo_permit, snd (try_acquire (sy_gate demo_busy) (from_secs 30) 0))"
    by (simp add: try_acquire_def demo_busy_def demo_gate_def demo_permit_def gate_new_def
        state_new_def admission_def in_use_def Let_def release_expired_holds_def INITIAL_LIMIT_def)
  from gate_step.try_some [OF this]
  have "gate_step demo_busy demo_full"
    by (simp add: demo_full_def demo_busy_def)
  with demo_busy_reach show ?thesis by (rule rtranclp.rtrancl_into_rtrancl)
qed

theorem gate_indefinite_wait_has_owner_witness:
  "fst (admission (sy_state demo_full) 5) = Wait None \<and>
   (0 < length (sy_permits demo_full) \<or> (\<exists>lp \<in> set (sy_polls demo_full). lp_probe lp))"
proof -
  have "admission (sy_state demo_full) 5 = (Wait None, snd (admission (sy_state demo_full) 5))"
    by (simp add: demo_full_def try_acquire_def demo_busy_def demo_gate_def gate_new_def
        state_new_def admission_def in_use_def Let_def release_expired_holds_def INITIAL_LIMIT_def
        earliest_hold_def)
  from gate_indefinite_wait_has_owner [OF demo_gate_init demo_full_reach this] this
  show ?thesis by (metis fst_conv)
qed

section \<open>What the gate learns from outcomes\<close>

text \<open>A burst of failures counts once. After a failure has lowered the limit, another failure of
  a request that started in the same epoch changes nothing, whichever kind of caller reports it.\<close>

theorem gate_burst_counts_once:
  assumes "halve s now epoch floor \<noteq> s"
  shows "gs_limit (halve s now epoch floor) = max (gs_limit s div 2) floor \<and>
    halve (halve s now epoch floor) now' epoch floor' = halve s now epoch floor"
proof -
  have "epoch = gs_epoch s" "gs_breaker s = Closed" "max (gs_limit s div 2) floor \<noteq> gs_limit s"
    using assms by - (rule ccontr, simp add: halve_def)+
  then have lowered: "gs_epoch (halve s now epoch floor) = Suc epoch"
    "gs_limit (halve s now epoch floor) = max (gs_limit s div 2) floor"
    by (simp_all add: halve_def Let_def)
  then have "halve (halve s now epoch floor) now' epoch floor' = halve s now epoch floor"
    by (simp add: halve_def [of "halve s now epoch floor"])
  with lowered show ?thesis
    by simp
qed

theorem gate_burst_counts_once_witness:
  "gs_limit (halve state_new 5 0 0) = 1 \<and> halve (halve state_new 5 0 0) 6 0 0 = halve state_new 5 0 0"
proof -
  have "halve state_new 5 0 0 \<noteq> state_new"
    by (simp add: halve_def state_new_def Let_def gate_const_defs)
  from gate_burst_counts_once [OF this, of 6 0] show ?thesis
    by (simp add: state_new_def gate_const_defs)
qed

text \<open>An interactive request's failure never opens the breaker: in every reachable state reporting
  any outcome for any call that started leaves the breaker as it is, and a closed gate keeps a
  limit of at least one and at least half of what it had.\<close>

theorem gate_interactive_floor:
  assumes "gate_init y0" "gate_step\<^sup>*\<^sup>* y0 y" "e \<in> set (sy_calls y)"
  shows "gs_breaker (hg_state (report_interactive (sy_gate y) e out now)) = gs_breaker (sy_state y) \<and>
    (gs_breaker (sy_state y) = Closed \<longrightarrow>
       max 1 (gs_limit (sy_state y) div 2) \<le>
         gs_limit (hg_state (report_interactive (sy_gate y) e out now)))"
proof -
  have "gs_breaker (sy_state y) = Closed \<longrightarrow> 1 \<le> gs_limit (sy_state y)"
    using gate_inv_state [OF gate.reach_inv [OF assms(1,2)]] by (simp add: state_inv_def)
  then show ?thesis
    by (auto simp: report_interactive_def halve_def Let_def)
qed

definition demo_calling :: gate_system where
  "demo_calling = demo_gate\<lparr>sy_calls := [0]\<rparr>"

lemma demo_calling_reach: "gate_step\<^sup>*\<^sup>* demo_gate demo_calling"
  using gate_step.call [of demo_gate]
  by (intro r_into_rtranclp)
    (simp add: demo_calling_def demo_gate_def gate_epoch_def gate_new_def state_new_def)

theorem gate_interactive_floor_witness:
  "gs_breaker (hg_state (report_interactive (sy_gate demo_calling) 0 TimedOut 9)) =
     gs_breaker (sy_state demo_calling)"
proof -
  have "0 \<in> set (sy_calls demo_calling)"
    by (simp add: demo_calling_def)
  from gate_interactive_floor [OF demo_gate_init demo_calling_reach this] show ?thesis by blast
qed

text \<open>Reporting one fast success after another.\<close>

fun finish_all :: "homeserver_gate \<Rightarrow> permit list \<Rightarrow> instant \<Rightarrow> homeserver_gate option" where
  "finish_all g [] now = Some g"
| "finish_all g (p # ps) now =
     (case gate_finish g p Success now of None \<Rightarrow> None | Some g' \<Rightarrow> finish_all g' ps now)"

lemma gate_learn_fast:
  assumes "gs_breaker s = Closed" "\<not> pm_probe p" "is_fast (now - pm_started p) (pm_timeout p)"
    "gs_limit s \<le> MAX_LIMIT" "gs_fast s < GROW_AFTER"
  shows "gate_learn s p Success now =
    s\<lparr>gs_fast := Suc (gs_fast s) mod GROW_AFTER,
      gs_limit := min MAX_LIMIT (gs_limit s + Suc (gs_fast s) div GROW_AFTER)\<rparr>"
  using assms
  by (cases "Suc (gs_fast s) = GROW_AFTER")
    (auto simp: gate_learn_def Let_def min_def not_less GROW_AFTER_def le_less)

lemma finish_all_effect:
  assumes "gs_breaker (hg_state g) = Closed" "length ps \<le> gs_active (hg_state g)"
    "gs_limit (hg_state g) \<le> MAX_LIMIT" "gs_fast (hg_state g) < GROW_AFTER"
    "\<forall>p \<in> set ps. \<not> pm_probe p \<and> is_fast (now - pm_started p) (pm_timeout p)"
  shows "\<exists>g'. finish_all g ps now = Some g' \<and>
    gs_limit (hg_state g') =
      min MAX_LIMIT (gs_limit (hg_state g) + (gs_fast (hg_state g) + length ps) div GROW_AFTER) \<and>
    gs_fast (hg_state g') = (gs_fast (hg_state g) + length ps) mod GROW_AFTER"
  using assms
proof (induction ps arbitrary: g)
  case Nil
  then show ?case by simp
next
  case (Cons p ps)
  let ?s = "hg_state g"
  obtain g1 where g1: "gate_finish g p Success now = Some g1"
    and s1: "hg_state g1 = ?s\<lparr>gs_active := gs_active ?s - 1,
      gs_fast := Suc (gs_fast ?s) mod GROW_AFTER,
      gs_limit := min MAX_LIMIT (gs_limit ?s + Suc (gs_fast ?s) div GROW_AFTER)\<rparr>"
    using Cons.prems gate_learn_fast [of "?s\<lparr>gs_active := gs_active ?s - 1\<rparr>" p now]
    by (auto simp: gate_finish_eq gate_return_slot_def wake_def)
  have "\<exists>g'. finish_all g1 ps now = Some g' \<and>
    gs_limit (hg_state g') =
      min MAX_LIMIT (gs_limit (hg_state g1) + (gs_fast (hg_state g1) + length ps) div GROW_AFTER) \<and>
    gs_fast (hg_state g') = (gs_fast (hg_state g1) + length ps) mod GROW_AFTER"
    using Cons.prems s1 by (intro Cons.IH) (auto simp: GROW_AFTER_def)
  moreover have "min MAX_LIMIT (min MAX_LIMIT (l + Suc f div GROW_AFTER) +
        (Suc f mod GROW_AFTER + n) div GROW_AFTER) = min MAX_LIMIT (l + (f + Suc n) div GROW_AFTER)"
    for l f n :: nat
  proof -
    have "min MAX_LIMIT (min MAX_LIMIT x + y) = min MAX_LIMIT (x + y)" for x y :: nat
      by (simp add: min_def)
    moreover have "Suc f div GROW_AFTER + (Suc f mod GROW_AFTER + n) div GROW_AFTER =
        (f + Suc n) div GROW_AFTER"
      using div_carry [of GROW_AFTER "Suc f" n] by (simp add: GROW_AFTER_def)
    ultimately show ?thesis by (simp add: add.assoc)
  qed
  moreover have "(Suc f mod GROW_AFTER + n) mod GROW_AFTER = (f + Suc n) mod GROW_AFTER" for f n :: nat
    by (simp add: mod_add_left_eq)
  ultimately show ?case
    using g1 s1 by simp
qed

text \<open>Fast successes grow the limit by one for every \<open>GROW_AFTER\<close> of them, up to \<open>MAX_LIMIT\<close>: after
  \<open>n\<close> fast successes on a closed gate the limit and the fast counter are the quotient and the
  remainder of the successes counted since the limit last changed.\<close>

theorem gate_growth:
  assumes "gs_breaker (hg_state g) = Closed" "length ps \<le> gs_active (hg_state g)"
    "gs_limit (hg_state g) \<le> MAX_LIMIT" "gs_fast (hg_state g) < GROW_AFTER"
    "\<forall>p \<in> set ps. \<not> pm_probe p \<and> is_fast (now - pm_started p) (pm_timeout p)"
  shows "\<exists>g'. finish_all g ps now = Some g' \<and>
    gs_limit (hg_state g') =
      min MAX_LIMIT (gs_limit (hg_state g) + (gs_fast (hg_state g) + length ps) div GROW_AFTER) \<and>
    gs_fast (hg_state g') = (gs_fast (hg_state g) + length ps) mod GROW_AFTER"
  by (rule finish_all_effect [OF assms])

theorem gate_growth_witness:
  "\<exists>g'. finish_all \<lparr>hg_key = [], hg_state = state_new\<lparr>gs_active := 3, gs_fast := 8\<rparr>, hg_changed = 0\<rparr>
      [demo_permit, demo_permit, demo_permit] 5 = Some g' \<and>
    gs_limit (hg_state g') = 3 \<and> gs_fast (hg_state g') = 1"
proof -
  let ?g = "\<lparr>hg_key = [], hg_state = state_new\<lparr>gs_active := 3, gs_fast := 8\<rparr>, hg_changed = 0\<rparr>"
  let ?ps = "[demo_permit, demo_permit, demo_permit]"
  have "\<exists>g'. finish_all ?g ?ps 5 = Some g' \<and>
    gs_limit (hg_state g') =
      min MAX_LIMIT (gs_limit (hg_state ?g) + (gs_fast (hg_state ?g) + length ?ps) div GROW_AFTER) \<and>
    gs_fast (hg_state g') = (gs_fast (hg_state ?g) + length ?ps) mod GROW_AFTER"
    by (rule gate_growth)
      (simp_all add: state_new_def gate_const_defs demo_permit_def permit_new_def is_fast_def)
  then show ?thesis
    by (simp add: state_new_def gate_const_defs)
qed

text \<open>The breaker recovers. Once the open period has passed and no held slot is live, the first
  waiter is admitted as the probe; if the homeserver then answers, the gate closes with a limit
  of one, and if it times out or is overloaded the gate reopens from the same opening time for
  a period that doubles with every failed probe up to half an hour.\<close>

theorem gate_probe_cycle:
  assumes "gs_breaker (hg_state g) = Open opened until" "until \<le> now"
    "\<forall>u \<in> set (gs_held (hg_state g)). u \<le> now" "queue_front (hg_state g) = Some wid"
  shows "\<exists>p g1. acquire_look g wid timeout now = (Inr p, g1) \<and> pm_probe p \<and>
    (\<forall>out t. \<exists>g2. gate_finish g1 p out t = Some g2 \<and>
       (out \<in> {Success, Refused} \<longrightarrow>
          gs_breaker (hg_state g2) = Closed \<and> gs_limit (hg_state g2) = 1) \<and>
       (out \<in> {TimedOut, Overloaded} \<longrightarrow>
          gs_breaker (hg_state g2) = Open opened
            (t + min (COOLDOWN * 2 ^ Suc (gs_reopenings (hg_state g))) COOLDOWN_MAX)))"
proof -
  let ?s = "(release_expired_holds (hg_state g) now)\<lparr>gs_breaker := Probing opened\<rparr>"
  have adm: "admission (hg_state g) now = (Admit (gs_epoch (hg_state g)) True, ?s)"
    using assms(1-3) by (auto simp: admission_probe_iff)
  define p where "p = permit_new timeout (gs_epoch (hg_state g)) True now"
  define g1 where "g1 = wake (g\<lparr>hg_state := ?s\<lparr>gs_queue := tl (gs_queue ?s),
    gs_active := Suc (gs_active ?s)\<rparr>\<rparr>)"
  have "acquire_look g wid timeout now = (Inr p, g1)"
    using adm assms(4) by (simp add: acquire_look_def p_def g1_def)
  moreover have "pm_probe p"
    by (simp add: p_def permit_new_def)
  moreover have "\<exists>g2. gate_finish g1 p out t = Some g2 \<and>
       (out \<in> {Success, Refused} \<longrightarrow>
          gs_breaker (hg_state g2) = Closed \<and> gs_limit (hg_state g2) = 1) \<and>
       (out \<in> {TimedOut, Overloaded} \<longrightarrow>
          gs_breaker (hg_state g2) = Open opened
            (t + min (COOLDOWN * 2 ^ Suc (gs_reopenings (hg_state g))) COOLDOWN_MAX))" for out t
    by (cases out) (simp_all add: gate_finish_eq gate_learn_def gate_return_slot_def finish_probe_def
        g1_def p_def permit_new_def wake_def Let_def cooldown_eq)
  ultimately show ?thesis by blast
qed

theorem gate_probe_cycle_witness:
  "\<exists>p g1. acquire_look \<lparr>hg_key = [], hg_state = state_new\<lparr>gs_limit := 0, gs_breaker := Open 3 9,
      gs_queue := [(1, 4)], gs_held := [8]\<rparr>, hg_changed = 0\<rparr> 1 30 9 = (Inr p, g1) \<and> pm_probe p"
proof -
  let ?g = "\<lparr>hg_key = [], hg_state = state_new\<lparr>gs_limit := 0, gs_breaker := Open 3 9,
      gs_queue := [(1, 4)], gs_held := [8]\<rparr>, hg_changed = 0\<rparr>"
  have "gs_breaker (hg_state ?g) = Open 3 9" "(9::nat) \<le> 9" "\<forall>u \<in> set (gs_held (hg_state ?g)). u \<le> 9"
    "queue_front (hg_state ?g) = Some 1"
    by (simp_all add: state_new_def queue_front_def)
  from gate_probe_cycle [OF this, of 30] show ?thesis by blast
qed

section \<open>The registry\<close>

text \<open>Accounts on one origin share one gate: looking an origin up returns the gate the registry
  holds for it from then on, creating it at most once, and leaves every other gate alone.\<close>

theorem gates_for_url_shared:
  "map_of (snd (for_url gates u)) (gate_key u) = Some (fst (for_url gates u)) \<and>
   (gate_key v = gate_key u \<longrightarrow>
      for_url (snd (for_url gates u)) v = (fst (for_url gates u), snd (for_url gates u))) \<and>
   (\<forall>k. k \<noteq> gate_key u \<longrightarrow> map_of (snd (for_url gates u)) k = map_of gates k)"
  by (auto simp: for_url_def Let_def split: option.splits)

theorem gates_for_url_shared_witness:
  "for_url (snd (for_url [] \<lparr>url_scheme = lit ''https'', url_host_str = Some (lit ''a.org''),
       url_port_or_known_default = Some 443\<rparr>))
     \<lparr>url_scheme = lit ''https'', url_host_str = Some (lit ''a.org''),
       url_port_or_known_default = Some 443\<rparr> =
   for_url [] \<lparr>url_scheme = lit ''https'', url_host_str = Some (lit ''a.org''),
       url_port_or_known_default = Some 443\<rparr>"
  using gates_for_url_shared [of "[]" "\<lparr>url_scheme = lit ''https'', url_host_str = Some (lit ''a.org''),
       url_port_or_known_default = Some 443\<rparr>" "\<lparr>url_scheme = lit ''https'',
       url_host_str = Some (lit ''a.org''), url_port_or_known_default = Some 443\<rparr>"] by simp

end
