(* ===== verification/Rust_Text.thy ===== *)
theory Rust_Text
  imports Axon_Prelude
begin

text \<open>
  What the code uses of Rust's strings and integers beyond the prelude: \<^verbatim>\<open>str::split_once\<close>,
  \<^verbatim>\<open>String::from_utf8\<close>, \<^verbatim>\<open>to_string\<close> and \<^verbatim>\<open>parse\<close> on \<^verbatim>\<open>i64\<close> and \<^verbatim>\<open>usize\<close>, with the round trips the
  components rest on.
\<close>

text \<open>\<^verbatim>\<open>str::split_once\<close> on one character.\<close>

fun split_once :: "nat \<Rightarrow> rstr \<Rightarrow> (rstr \<times> rstr) option" where
  "split_once c [] = None"
| "split_once c (x # xs) =
     (if x = c then Some ([], xs) else map_option (\<lambda>(a, b). (x # a, b)) (split_once c xs))"

lemma split_once_append [axon_simps]: "c \<notin> set xs \<Longrightarrow> split_once c (xs @ c # ys) = Some (xs, ys)"
  by (induction xs) auto

lemma split_once_Some: "split_once c s = Some (a, b) \<longleftrightarrow> s = a @ c # b \<and> c \<notin> set a"
proof
  show "split_once c s = Some (a, b) \<Longrightarrow> s = a @ c # b \<and> c \<notin> set a"
    by (induction s arbitrary: a) (auto split: if_split_asm)
qed (simp add: split_once_append)

section \<open>UTF-8\<close>

definition is_scalar :: "nat \<Rightarrow> bool" where
  "is_scalar c \<longleftrightarrow> c < 55296 \<or> 57344 \<le> c \<and> c < 1114112"

definition is_cont :: "nat \<Rightarrow> bool" where
  "is_cont b \<longleftrightarrow> 128 \<le> b \<and> b < 192"

text \<open>\<^verbatim>\<open>String::from_utf8\<close>: shortest forms only, no surrogates, nothing past U+10FFFF.\<close>

fun utf8_decode :: "nat list \<Rightarrow> rstr option" where
  "utf8_decode [] = Some []"
| "utf8_decode (a # rest) =
     (if a < 128 then map_option (Cons a) (utf8_decode rest)
      else if a < 194 then None
      else if a < 224 then
        (case rest of
           b # r \<Rightarrow> if is_cont b then map_option (Cons ((a - 192) * 64 + (b - 128))) (utf8_decode r) else None
         | [] \<Rightarrow> None)
      else if a < 240 then
        (case rest of
           b # c # r \<Rightarrow>
             let v = (a - 224) * 4096 + (b - 128) * 64 + (c - 128) in
             if is_cont b \<and> is_cont c \<and> 2048 \<le> v \<and> is_scalar v
             then map_option (Cons v) (utf8_decode r) else None
         | _ \<Rightarrow> None)
      else if a < 245 then
        (case rest of
           b # c # d # r \<Rightarrow>
             let v = (a - 240) * 262144 + (b - 128) * 4096 + (c - 128) * 64 + (d - 128) in
             if is_cont b \<and> is_cont c \<and> is_cont d \<and> 65536 \<le> v \<and> is_scalar v
             then map_option (Cons v) (utf8_decode r) else None
         | _ \<Rightarrow> None)
      else None)"

lemma div_mod_64: "(c :: nat) div 4096 * 4096 + c div 64 mod 64 * 64 + c mod 64 = c"
proof -
  have "c div 64 = c div 4096 * 64 + c div 64 mod 64"
    using div_mult_mod_eq [of "c div 64" 64] by (simp add: div_mult2_eq [symmetric] mult.commute)
  then have "c = (c div 4096 * 64 + c div 64 mod 64) * 64 + c mod 64"
    by (metis div_mult_mod_eq)
  then show ?thesis
    by (simp add: algebra_simps)
qed

lemma utf8_decode_char:
  assumes "is_scalar c"
  shows "utf8_decode (utf8_char c @ s) = map_option (Cons c) (utf8_decode s)"
proof -
  consider "c < 128" | "128 \<le> c" "c < 2048" | "2048 \<le> c" "c < 65536" | "65536 \<le> c" "c < 1114112"
    using assms by (fastforce simp: is_scalar_def not_less)
  then show ?thesis
  proof cases
    case 2
    then have "2 \<le> c div 64" "c div 64 < 32"
      using div_le_mono [of 128 c 64] by (auto simp: less_mult_imp_div_less)
    then show ?thesis
      using 2 by (simp add: utf8_char_def is_cont_def)
  next
    case 3
    then have "c div 4096 < 16"
      by (simp add: less_mult_imp_div_less)
    then show ?thesis
      using 3 assms div_mod_64 [of c] by (simp add: utf8_char_def is_cont_def Let_def)
  next
    case 4
    have "c div 262144 \<le> 4"
      using div_le_mono [of c 1114111 262144] 4 by simp
    moreover have "c div 262144 * 262144 + c div 4096 mod 64 * 4096 = c div 4096 * 4096"
      using div_mult_mod_eq [of "c div 4096" 64] by (simp add: div_mult2_eq [symmetric])
    ultimately show ?thesis
      using 4 assms div_mod_64 [of c] by (simp add: utf8_char_def is_cont_def Let_def)
  qed (simp add: utf8_char_def)
qed

lemma utf8_decode_utf8: "list_all is_scalar s \<Longrightarrow> utf8_decode (utf8 s) = Some s"
  by (induction s) (simp_all add: utf8_def utf8_decode_char)

interpretation utf8: codec utf8 utf8_decode "list_all is_scalar"
  by unfold_locales (rule utf8_decode_utf8)

lemma utf8_decode_ascii: "list_all (\<lambda>c. c < 128) s \<Longrightarrow> utf8_decode s = Some s"
  by (induction s) simp_all

section \<open>Decimal integers\<close>

definition is_digit :: "nat \<Rightarrow> bool" where
  "is_digit c \<longleftrightarrow> 48 \<le> c \<and> c \<le> 57"

definition digits_value :: "rstr \<Rightarrow> nat" where
  "digits_value s = foldl (\<lambda>n c. n * 10 + (c - 48)) 0 s"

definition parse_digits :: "rstr \<Rightarrow> nat option" where
  "parse_digits s = (if s \<noteq> [] \<and> list_all is_digit s then Some (digits_value s) else None)"

definition in_i64 :: "int \<Rightarrow> bool" where
  "in_i64 i \<longleftrightarrow> - (2 ^ 63) \<le> i \<and> i < 2 ^ 63"

definition in_usize :: "nat \<Rightarrow> bool" where
  "in_usize n \<longleftrightarrow> n < 2 ^ 64"

definition dec_int :: "int \<Rightarrow> rstr" where
  "dec_int i = (if i < 0 then 45 # dec_nat (nat (- i)) else dec_nat (nat i))"

text \<open>\<^verbatim>\<open>str::parse\<close>: an optional sign (\<^verbatim>\<open>-\<close> only for \<^verbatim>\<open>i64\<close>), at least one digit, no overflow.\<close>

definition parse_i64 :: "rstr \<Rightarrow> int option" where
  "parse_i64 s =
     (case s of
        [] \<Rightarrow> None
      | c # rest \<Rightarrow>
          (let value = (if c = 45 then map_option (\<lambda>n. - int n) (parse_digits rest)
                        else if c = 43 then map_option int (parse_digits rest)
                        else map_option int (parse_digits s))
           in case value of Some i \<Rightarrow> if in_i64 i then Some i else None | None \<Rightarrow> None))"

definition parse_usize :: "rstr \<Rightarrow> nat option" where
  "parse_usize s =
     (case s of
        [] \<Rightarrow> None
      | c # rest \<Rightarrow>
          (case parse_digits (if c = 43 then rest else s) of
             Some n \<Rightarrow> if in_usize n then Some n else None
           | None \<Rightarrow> None))"

lemma dec_nat_digits: "list_all is_digit (dec_nat n)"
proof (induction n rule: dec_nat.induct)
  case (1 n)
  have "is_digit (48 + n mod 10)" "n < 10 \<Longrightarrow> is_digit (48 + n)"
    by (auto simp: is_digit_def)
  with 1 show ?case
    by (subst dec_nat.simps) simp
qed

lemma dec_nat_not_Nil [simp]: "dec_nat n \<noteq> []"
  by (subst dec_nat.simps) simp

lemma digits_value_snoc [simp]: "digits_value (s @ [c]) = digits_value s * 10 + (c - 48)"
  by (simp add: digits_value_def)

lemma digits_value_dec_nat: "digits_value (dec_nat n) = n"
proof (induction n rule: dec_nat.induct)
  case (1 n)
  then show ?case
    by (subst dec_nat.simps) (auto simp: digits_value_def)
qed

lemma parse_digits_dec_nat [axon_simps]: "parse_digits (dec_nat n) = Some n"
  by (simp add: parse_digits_def dec_nat_digits digits_value_dec_nat)

lemma length_dec_nat: "n < 10 ^ k \<Longrightarrow> 0 < k \<Longrightarrow> length (dec_nat n) \<le> k"
proof (induction n arbitrary: k rule: dec_nat.induct)
  case (1 n)
  show ?case
  proof (cases "n < 10")
    case False
    then obtain j where k: "k = Suc j" "0 < j"
      using 1(2,3) by (cases k; cases "k = 1") auto
    then have "n div 10 < 10 ^ j"
      using 1(2) by (simp add: less_mult_imp_div_less mult.commute)
    then show ?thesis
      using 1(1) [OF False] k by (subst dec_nat.simps) (simp add: False)
  qed (use 1(3) in \<open>subst dec_nat.simps, simp\<close>)
qed

lemma dec_nat_hd: "hd (dec_nat n) \<noteq> 43 \<and> hd (dec_nat n) \<noteq> 45"
  using dec_nat_digits [of n] by (cases "dec_nat n") (auto simp: is_digit_def)

lemma parse_i64_dec_int: "in_i64 i \<Longrightarrow> parse_i64 (dec_int i) = Some i"
proof (cases "i < 0")
  case False
  assume i: "in_i64 i"
  obtain c rest where d: "dec_nat (nat i) = c # rest"
    by (cases "dec_nat (nat i)") auto
  then have "c \<noteq> 43" "c \<noteq> 45"
    using dec_nat_hd [of "nat i"] by auto
  then show ?thesis
    using i False d parse_digits_dec_nat [of "nat i"] by (simp add: parse_i64_def dec_int_def)
qed (simp add: parse_i64_def dec_int_def axon_simps)

interpretation i64: codec dec_int parse_i64 in_i64
  by unfold_locales (rule parse_i64_dec_int)

lemma parse_usize_dec_nat: "in_usize n \<Longrightarrow> parse_usize (dec_nat n) = Some n"
proof -
  assume n: "in_usize n"
  obtain c rest where d: "dec_nat n = c # rest"
    by (cases "dec_nat n") auto
  then have "c \<noteq> 43"
    using dec_nat_hd [of n] by auto
  then show ?thesis
    using n d parse_digits_dec_nat [of n] by (simp add: parse_usize_def)
qed

interpretation usize: codec dec_nat parse_usize in_usize
  by unfold_locales (rule parse_usize_dec_nat)

lemma parse_i64_range: "parse_i64 s = Some i \<Longrightarrow> in_i64 i"
  by (auto simp: parse_i64_def Let_def split: list.splits option.splits if_split_asm)

lemma parse_usize_range: "parse_usize s = Some n \<Longrightarrow> in_usize n"
  by (auto simp: parse_usize_def split: list.splits option.splits if_split_asm)

lemma dec_int_chars: "list_all (\<lambda>c. is_digit c \<or> c = 45) (dec_int i)"
  using dec_nat_digits by (auto simp: dec_int_def list_all_iff)

lemma length_dec_int: "in_i64 i \<Longrightarrow> length (dec_int i) \<le> 20"
proof -
  assume i: "in_i64 i"
  then have "nat \<bar>i\<bar> \<le> 2 ^ 63"
    by (auto simp: in_i64_def)
  then have "nat \<bar>i\<bar> < 10 ^ 19"
    by (rule le_less_trans) simp
  from length_dec_nat [OF this] show ?thesis
    by (auto simp: dec_int_def)
qed

section \<open>Searching and trimming\<close>

text \<open>\<^verbatim>\<open>char::is_control\<close> (the category Cc) and \<^verbatim>\<open>str::trim\<close>.\<close>

definition is_control :: "nat \<Rightarrow> bool" where
  "is_control c \<longleftrightarrow> c < 32 \<or> 127 \<le> c \<and> c < 160"

definition is_white_space :: "nat \<Rightarrow> bool" where
  "is_white_space c \<longleftrightarrow> 9 \<le> c \<and> c \<le> 13 \<or> c \<in> {32, 133, 160, 5760, 8232, 8233, 8239, 8287, 12288} \<or>
     8192 \<le> c \<and> c \<le> 8202"

definition trim_matches :: "(nat \<Rightarrow> bool) \<Rightarrow> rstr \<Rightarrow> rstr" where
  "trim_matches P s = rev (dropWhile P (rev (dropWhile P s)))"

definition to_ascii_lowercase :: "rstr \<Rightarrow> rstr" where
  "to_ascii_lowercase s = map (\<lambda>c. if 65 \<le> c \<and> c \<le> 90 then c + 32 else c) s"

fun split_on :: "(nat \<Rightarrow> bool) \<Rightarrow> rstr \<Rightarrow> rstr list" where
  "split_on P [] = [[]]"
| "split_on P (x # xs) =
     (if P x then [] # split_on P xs
      else case split_on P xs of t # ts \<Rightarrow> (x # t) # ts | [] \<Rightarrow> [[x]])"

fun find_str :: "rstr \<Rightarrow> rstr \<Rightarrow> nat option" where
  "find_str p [] = (if p = [] then Some 0 else None)"
| "find_str p (x # xs) =
     (if take (length p) (x # xs) = p then Some 0 else map_option Suc (find_str p xs))"

definition trim_end_matches :: "nat list \<Rightarrow> rstr \<Rightarrow> rstr" where
  "trim_end_matches cs s = rev (dropWhile (\<lambda>c. c \<in> set cs) (rev s))"

lemma split_on_not_Nil [simp]: "split_on P s \<noteq> []"
  by (induction s) (auto split: list.splits)

lemma split_on_first: "split_on P s = t # ts \<Longrightarrow> \<exists>b. s = t @ b"
  by (induction s arbitrary: t ts) (auto split: if_split_asm list.splits)

lemma split_on_token:
  "t \<in> set (split_on P s) \<Longrightarrow> (\<exists>a b. s = a @ t @ b) \<and> list_all (\<lambda>c. \<not> P c) t"
proof (induction s arbitrary: t)
  case (Cons x xs)
  obtain t0 ts where ts: "split_on P xs = t0 # ts"
    by (cases "split_on P xs") auto
  have old: "(\<exists>a b. x # xs = a @ u @ b) \<and> list_all (\<lambda>c. \<not> P c) u" if "u \<in> set (split_on P xs)" for u
    using Cons.IH [OF that] by (metis append_Cons)
  consider "t = []" | "t \<in> set (split_on P xs)" | "t = x # t0" "\<not> P x"
    using Cons.prems ts by (auto split: if_split_asm)
  then show ?case
  proof cases
    case 1
    then show ?thesis
      by (auto intro: exI [of _ "[]"])
  next
    case 2
    then show ?thesis
      by (rule old)
  next
    case 3
    have "list_all (\<lambda>c. \<not> P c) t0"
      using Cons.IH [of t0] ts by simp
    moreover obtain b where "xs = t0 @ b"
      using split_on_first [OF ts] by blast
    ultimately show ?thesis
      using 3 by (auto intro: exI [of _ "[]"])
  qed
qed auto

lemma find_str_Some: "find_str p s = Some n \<Longrightarrow> \<exists>r. drop n s = p @ r"
proof (induction s arbitrary: n)
  case (Cons x xs)
  then show ?case
    by (auto split: if_split_asm) (metis append_take_drop_id drop_Suc_Cons)
qed (simp split: if_split_asm)

end
