(* ===== verification/Push_Message.thy ===== *)
theory Push_Message
  imports Rust_Text
begin

text \<open>
  Which timeline events can wake a phone: \<^verbatim>\<open>crates/axon-sync/src/push/message.rs\<close> and the
  event classification of \<^verbatim>\<open>push/observe.rs\<close>.

  A \<^verbatim>\<open>serde_json::Value\<close> is read only through its accessors, so the value type is a parameter
  \<open>'v\<close> and the accessors are the fields of a record: \<open>js_as_object\<close> presents an object as its
  lookup function, and \<^verbatim>\<open>Value::get\<close> on a key is lookup in that object.
\<close>

record 'v json_api =
  js_as_str :: "'v \<Rightarrow> rstr option"
  js_as_object :: "'v \<Rightarrow> (rstr \<Rightarrow> 'v option) option"
  js_as_i64 :: "'v \<Rightarrow> int option"
  js_as_u64 :: "'v \<Rightarrow> nat option"

definition js_get :: "'v json_api \<Rightarrow> 'v \<Rightarrow> string \<Rightarrow> 'v option" where
  "js_get api v key = Option.bind (js_as_object api v) (\<lambda>obj. obj (lit key))"

definition js_get_str :: "'v json_api \<Rightarrow> 'v \<Rightarrow> string \<Rightarrow> rstr option" where
  "js_get_str api v key = Option.bind (js_get api v key) (js_as_str api)"

datatype push_class = Notify | Silent | Unknown

record push_message =
  ms_event_id :: rstr
  ms_sender :: rstr
  ms_body :: rstr
  ms_thread_root_id :: "rstr option"
  ms_class :: push_class

section \<open>Text\<close>

text \<open>\<^verbatim>\<open>char::is_whitespace\<close>: the Unicode property \<open>White_Space\<close>.\<close>

definition is_whitespace :: "nat \<Rightarrow> bool" where
  "is_whitespace c \<longleftrightarrow> (9 \<le> c \<and> c \<le> 13) \<or> c = 32 \<or> c = 133 \<or> c = 160 \<or> c = 5760 \<or>
     (8192 \<le> c \<and> c \<le> 8202) \<or> c = 8232 \<or> c = 8233 \<or> c = 8239 \<or> c = 8287 \<or> c = 12288"

fun collapse_loop :: "rstr \<Rightarrow> rstr \<Rightarrow> bool \<Rightarrow> rstr" where
  "collapse_loop [] out pending = out"
| "collapse_loop (ch # rest) out pending =
     (if is_whitespace ch then collapse_loop rest out True
      else collapse_loop rest ((if pending \<and> out \<noteq> [] then out @ [32] else out) @ [ch]) False)"

definition collapse_whitespace :: "rstr \<Rightarrow> rstr" where
  "collapse_whitespace text = collapse_loop text [] False"

definition at_localpart :: "rstr \<Rightarrow> rstr" where
  "at_localpart user_id =
     (case user_id of
        [] \<Rightarrow> user_id
      | c # rest \<Rightarrow>
          if c = 64 then 64 # (case split_once 58 rest of Some (local, _) \<Rightarrow> local | None \<Rightarrow> rest)
          else user_id)"

section \<open>Eligibility\<close>

definition consider_event ::
  "'v json_api \<Rightarrow> 'v \<Rightarrow> rstr \<Rightarrow> push_class \<Rightarrow> push_message option"
where
  "consider_event api raw own_user_id class =
     (if js_get_str api raw ''type'' \<noteq> Some (lit ''m.room.message'') then None
      else case Option.bind (js_get api raw ''content'') (js_as_object api) of
        None \<Rightarrow> None
      | Some content \<Rightarrow>
        (case js_get_str api raw ''sender'' of
          None \<Rightarrow> None
        | Some sender \<Rightarrow>
          if sender = own_user_id then None
          else case js_get_str api raw ''event_id'' of
            None \<Rightarrow> None
          | Some event_id \<Rightarrow>
            if event_id = [] then None
            else
              let relates = Option.bind (content (lit ''m.relates_to'')) (js_as_object api);
                  rel_type = Option.bind relates
                    (\<lambda>rel. Option.bind (rel (lit ''rel_type'')) (js_as_str api))
              in
              if rel_type = Some (lit ''m.replace'') then None
              else
                let thread_root_id =
                      (if rel_type = Some (lit ''m.thread'')
                       then Option.bind relates (\<lambda>rel.
                         case Option.bind (rel (lit ''event_id'')) (js_as_str api) of
                           None \<Rightarrow> None
                         | Some i \<Rightarrow> if i \<noteq> [] then Some i else None)
                       else None);
                    body =
                      (case Option.bind (content (lit ''body'')) (js_as_str api) of
                         None \<Rightarrow> []
                       | Some b \<Rightarrow> collapse_whitespace b)
                in
                if body = [] then None
                else Some \<lparr>ms_event_id = event_id, ms_sender = sender, ms_body = body,
                           ms_thread_root_id = thread_root_id, ms_class = class\<rparr>))"

text \<open>An SDK timeline event as far as the observer reads it: its push actions, when they were
  computed, and its raw JSON, when that parses.\<close>

datatype push_action = ActionNotify | ActionOther

record 'v timeline_event =
  te_push_actions :: "push_action list option"
  te_raw :: "'v option"

definition event_class :: "'v timeline_event \<Rightarrow> push_class" where
  "event_class event =
     (case te_push_actions event of
        None \<Rightarrow> Unknown
      | Some actions \<Rightarrow> if ActionNotify \<in> set actions then Notify else Silent)"

definition messages_of ::
  "'v json_api \<Rightarrow> 'v timeline_event list \<Rightarrow> rstr \<Rightarrow> push_message list"
where
  "messages_of api events own_user_id =
     List.map_filter (\<lambda>event.
       Option.bind (te_raw event) (\<lambda>v. consider_event api v own_user_id (event_class event))) events"

section \<open>Collapsing is splitting into words\<close>

text \<open>The maximal runs of characters that are not whitespace.\<close>

fun words_from :: "rstr \<Rightarrow> rstr \<Rightarrow> rstr list" where
  "words_from acc [] = (if acc = [] then [] else [acc])"
| "words_from acc (c # cs) =
     (if is_whitespace c then (if acc = [] then words_from [] cs else acc # words_from [] cs)
      else words_from (acc @ [c]) cs)"

definition words :: "rstr \<Rightarrow> rstr list" where
  "words s = words_from [] s"

fun join_words :: "rstr list \<Rightarrow> rstr" where
  "join_words [] = []"
| "join_words [w] = w"
| "join_words (w # ws) = w @ 32 # join_words ws"

lemma join_words_Cons: "join_words (w # ws) = w @ (if ws = [] then [] else 32 # join_words ws)"
  by (cases ws) auto

lemma join_words_append:
  "us \<noteq> [] \<Longrightarrow> ws \<noteq> [] \<Longrightarrow> join_words (us @ ws) = join_words us @ 32 # join_words ws"
  by (induction us) (auto simp: join_words_Cons)

lemma words_from_ne: "w \<in> set (words_from acc s) \<Longrightarrow> w \<noteq> []"
  by (induction acc s rule: words_from.induct) (auto split: if_splits)

text \<open>The loop between two words (\<open>done\<close> are the words written) and inside one (\<open>acc\<close>).\<close>

lemma collapse_loop_words:
  "\<forall>w \<in> set ws. w \<noteq> [] \<Longrightarrow>
     collapse_loop s (join_words ws) True = join_words (ws @ words_from [] s)"
  "\<forall>w \<in> set ws. w \<noteq> [] \<Longrightarrow> acc \<noteq> [] \<Longrightarrow>
     collapse_loop s (join_words (ws @ [acc])) False = join_words (ws @ words_from acc s)"
proof (induction s arbitrary: ws acc)
  case Nil
  { case 1 then show ?case by simp }
  { case 2 then show ?case by simp }
next
  case (Cons c s)
  have ne: "join_words ws \<noteq> []" if "ws \<noteq> []" "\<forall>w \<in> set ws. w \<noteq> []" for ws
    using that by (cases ws) (auto simp: join_words_Cons)
  { case 1
    show ?case
    proof (cases "is_whitespace c")
      case True
      with Cons.IH(1) [OF "1"] show ?thesis by simp
    next
      case False
      then have "(if True \<and> join_words ws \<noteq> [] then join_words ws @ [32] else join_words ws) @ [c] =
          join_words (ws @ [[c]])"
        using ne [OF _ "1"] by (cases "ws = []") (simp_all add: join_words_append)
      with False Cons.IH(2) [OF "1", of "[c]"] show ?thesis by simp
    qed }
  { case 2
    show ?case
    proof (cases "is_whitespace c")
      case True
      with "2" have "collapse_loop s (join_words (ws @ [acc])) True =
          join_words ((ws @ [acc]) @ words_from [] s)"
        by (intro Cons.IH(1)) auto
      with True "2"(2) show ?thesis by simp
    next
      case False
      have "join_words (ws @ [acc]) @ [c] = join_words (ws @ [acc @ [c]])"
        by (cases "ws = []") (simp_all add: join_words_append)
      with False Cons.IH(2) [OF "2"(1), of "acc @ [c]"] show ?thesis by simp
    qed }
qed

lemma collapse_whitespace_words: "collapse_whitespace s = join_words (words s)"
proof (induction s)
  case Nil
  then show ?case by (simp add: collapse_whitespace_def words_def)
next
  case (Cons c s)
  show ?case
  proof (cases "is_whitespace c")
    case True
    with collapse_loop_words(1) [of "[]" s] show ?thesis
      by (simp add: collapse_whitespace_def words_def)
  next
    case False
    with collapse_loop_words(2) [of "[]" "[c]" s] show ?thesis
      by (simp add: collapse_whitespace_def words_def)
  qed
qed

lemma words_from_no_space: "\<forall>c \<in> set w. \<not> is_whitespace c \<Longrightarrow> words_from acc (w @ s) = words_from (acc @ w) s"
  by (induction w arbitrary: acc) auto

lemma words_from_chars:
  "list_all (\<lambda>c. \<not> is_whitespace c) acc \<Longrightarrow>
   list_all (list_all (\<lambda>c. \<not> is_whitespace c)) (words_from acc s)"
  by (induction acc s rule: words_from.induct) simp_all

lemma words_join_words:
  assumes "\<forall>w \<in> set ws. w \<noteq> [] \<and> (\<forall>c \<in> set w. \<not> is_whitespace c)"
  shows "words (join_words ws) = ws"
  using assms
proof (induction ws rule: join_words.induct)
  case (2 w)
  with words_from_no_space [of w "[]" "[]"] show ?case by (simp add: words_def)
next
  case (3 w v vs)
  have "is_whitespace 32" by (simp add: is_whitespace_def)
  with 3 words_from_no_space [of w "[]" "32 # join_words (v # vs)"] show ?case
    by (simp add: words_def)
qed (simp add: words_def)

lemma words_ok: "\<forall>w \<in> set (words s). w \<noteq> [] \<and> (\<forall>c \<in> set w. \<not> is_whitespace c)"
proof
  fix w
  assume "w \<in> set (words s)"
  then have "w \<in> set (words_from [] s)"
    by (simp add: words_def)
  with words_from_ne [OF this] words_from_chars [of "[]" s]
  show "w \<noteq> [] \<and> (\<forall>c \<in> set w. \<not> is_whitespace c)" by (auto simp: list_all_iff)
qed

lemma words_collapse: "words (collapse_whitespace s) = words s"
  using words_join_words [OF words_ok] by (simp add: collapse_whitespace_words)

lemma collapse_idem: "collapse_whitespace (collapse_whitespace s) = collapse_whitespace s"
  by (subst (1 2) collapse_whitespace_words) (simp add: words_collapse)

lemma collapse_empty_iff: "collapse_whitespace s = [] \<longleftrightarrow> words s = []"
proof
  assume "collapse_whitespace s = []"
  with words_collapse [of s] show "words s = []" by (simp add: words_def)
qed (simp add: collapse_whitespace_words)

section \<open>Properties\<close>

text \<open>Collapsing whitespace is exactly splitting the text into its words and joining them with
  single spaces, for every input; it loses no word and applying it again changes nothing.\<close>

theorem push_collapse_is_words:
  "collapse_whitespace s = join_words (words s) \<and> words (collapse_whitespace s) = words s \<and>
   collapse_whitespace (collapse_whitespace s) = collapse_whitespace s"
  using collapse_whitespace_words words_collapse collapse_idem by blast

text \<open>The event JSON the classifier sees, and the message it yields.\<close>

lemma consider_event_Some:
  assumes "consider_event api raw own class = Some m"
  shows "js_get_str api raw ''type'' = Some (lit ''m.room.message'') \<and>
    js_get_str api raw ''sender'' = Some (ms_sender m) \<and> ms_sender m \<noteq> own \<and>
    js_get_str api raw ''event_id'' = Some (ms_event_id m) \<and> ms_event_id m \<noteq> [] \<and>
    ms_body m \<noteq> [] \<and> collapse_whitespace (ms_body m) = ms_body m \<and> ms_class m = class \<and>
    ms_thread_root_id m \<noteq> Some []"
proof -
  obtain content where c: "Option.bind (js_get api raw ''content'') (js_as_object api) = Some content"
    using assms by (auto simp: consider_event_def split: if_splits option.splits)
  show ?thesis
    using assms c
    by (auto simp: consider_event_def Let_def collapse_idem split: if_splits option.splits bind_splits)
qed

text \<open>Only other people's plain messages can wake a phone. Every message the observer hands on
  comes from an event of the batch of type \<^verbatim>\<open>m.room.message\<close> whose sender is not the account
  itself; it has an event id, a body that is not blank and already collapsed, and the class of
  that event's push actions, which is \<open>Notify\<close> exactly when they contain a notify action.\<close>

theorem push_messages_eligible:
  assumes "m \<in> set (messages_of api events own)"
  shows "\<exists>event raw. event \<in> set events \<and> te_raw event = Some raw \<and>
    js_get_str api raw ''type'' = Some (lit ''m.room.message'') \<and>
    js_get_str api raw ''sender'' = Some (ms_sender m) \<and> ms_sender m \<noteq> own \<and>
    ms_event_id m \<noteq> [] \<and> words (ms_body m) \<noteq> [] \<and> collapse_whitespace (ms_body m) = ms_body m \<and>
    (ms_class m = Notify \<longleftrightarrow> (\<exists>acts. te_push_actions event = Some acts \<and> ActionNotify \<in> set acts)) \<and>
    (ms_class m = Unknown \<longleftrightarrow> te_push_actions event = None)"
proof -
  from assms obtain event raw where ev: "event \<in> set events" "te_raw event = Some raw"
      "consider_event api raw own (event_class event) = Some m"
    by (auto simp: messages_of_def map_filter_def bind_eq_Some_conv)
  note m = consider_event_Some [OF ev(3)]
  then have "words (ms_body m) \<noteq> []"
    using collapse_empty_iff [of "ms_body m"] by auto
  moreover have "ms_class m = event_class event"
    using m by blast
  ultimately show ?thesis
    using ev m by (auto simp: event_class_def split: option.splits if_splits)
qed

text \<open>A small JSON instance for the witnesses.\<close>

datatype demo_json = DStr rstr | DObj "(rstr \<times> demo_json) list"

definition demo_api :: "demo_json json_api" where
  "demo_api = \<lparr>js_as_str = (\<lambda>v. case v of DStr s \<Rightarrow> Some s | DObj _ \<Rightarrow> None),
     js_as_object = (\<lambda>v. case v of DStr _ \<Rightarrow> None | DObj kvs \<Rightarrow> Some (map_of kvs)),
     js_as_i64 = (\<lambda>_. None), js_as_u64 = (\<lambda>_. None)\<rparr>"

definition demo_event :: demo_json where
  "demo_event = DObj [(lit ''type'', DStr (lit ''m.room.message'')), (lit ''sender'', DStr (lit ''@b:x'')),
     (lit ''event_id'', DStr (lit ''$1'')), (lit ''content'', DObj [(lit ''body'', DStr (lit ''hi  there''))])]"

definition demo_message :: push_message where
  "demo_message = \<lparr>ms_event_id = lit ''$1'', ms_sender = lit ''@b:x'', ms_body = lit ''hi there'',
     ms_thread_root_id = None, ms_class = Notify\<rparr>"

lemma demo_event_considered:
  "consider_event demo_api demo_event (lit ''@a:x'') Notify = Some demo_message"
  by (simp add: consider_event_def js_get_str_def js_get_def demo_api_def demo_event_def
      demo_message_def lit_def Let_def collapse_whitespace_def is_whitespace_def)

theorem push_messages_eligible_witness:
  "demo_message \<in> set (messages_of demo_api
      [\<lparr>te_push_actions = Some [ActionNotify], te_raw = Some demo_event\<rparr>] (lit ''@a:x'')) \<and>
   words (ms_body demo_message) \<noteq> []"
proof -
  have "demo_message \<in> set (messages_of demo_api
      [\<lparr>te_push_actions = Some [ActionNotify], te_raw = Some demo_event\<rparr>] (lit ''@a:x''))"
    by (simp add: messages_of_def map_filter_def event_class_def demo_event_considered)
  with push_messages_eligible [OF this] show ?thesis by blast
qed

end
