(* ===== verification/Push_Decision.thy ===== *)
theory Push_Decision
  imports Push_Message "HOL-Library.Multiset"
begin

text \<open>
  The case list that decides whether an observation of a room sends a push:
  \<^verbatim>\<open>crates/axon-sync/src/push/decision.rs\<close>. A count pair is (notification count, highlight
  count).
\<close>

type_synonym count_pair = "nat \<times> nat"

record room_state =
  rs_seeded :: bool
  rs_pair :: count_pair
  rs_slot :: "push_message option"
  rs_unpaired :: "count_pair option"

record decision =
  de_state :: room_state
  de_send :: "push_message option"
  de_unknown_ids :: "rstr list"
  de_notification_fell_to :: "nat option"

definition unseeded :: "count_pair \<Rightarrow> room_state" where
  "unseeded pair = \<lparr>rs_seeded = False, rs_pair = pair, rs_slot = None, rs_unpaired = None\<rparr>"

definition latest :: "push_message list \<Rightarrow> push_class \<Rightarrow> push_message option" where
  "latest messages class = find (\<lambda>m. ms_class m = class) (rev messages)"

definition or_else :: "'a option \<Rightarrow> 'a option \<Rightarrow> 'a option" where
  "or_else x y = (case x of None \<Rightarrow> y | Some _ \<Rightarrow> x)"

definition decide ::
  "room_state \<Rightarrow> count_pair option \<Rightarrow> push_message list \<Rightarrow> decision"
where
  "decide state after0 messages =
     (let unknown_ids = map ms_event_id (filter (\<lambda>m. ms_class m = Unknown) messages);
          notifying = latest messages Notify;
          unknown = latest messages Unknown
      in
      if \<not> rs_seeded state then
        (case after0 of
           None \<Rightarrow>
             \<lparr>de_state = (unseeded (rs_pair state))\<lparr>rs_slot := or_else notifying (rs_slot state)\<rparr>,
              de_send = None, de_unknown_ids = unknown_ids, de_notification_fell_to = None\<rparr>
         | Some after \<Rightarrow>
             \<lparr>de_state = (unseeded after)\<lparr>rs_seeded := True, rs_slot := or_else notifying (rs_slot state)\<rparr>,
              de_send = None, de_unknown_ids = unknown_ids, de_notification_fell_to = None\<rparr>)
      else
        let after = (case after0 of None \<Rightarrow> rs_pair state | Some a \<Rightarrow> a);
            slot = rs_slot state;
            unpaired = rs_unpaired state;
            rose = (fst (rs_pair state) < fst after \<or> snd (rs_pair state) < snd after);
            fell = (\<not> rose \<and> (fst after < fst (rs_pair state) \<or> snd after < snd (rs_pair state)));
            notification_fell_to = (if fst after < fst (rs_pair state) then Some (fst after) else None);
            (send, slot', unpaired') =
              (if rose \<and> notifying \<noteq> None then (notifying, None, None)
               else if rose \<and> slot \<noteq> None then (slot, None, None)
               else if rose \<and> unknown \<noteq> None then (unknown, slot, None)
               else if rose then (None, slot, Some after)
               else if \<not> rose \<and> \<not> fell \<and> unpaired = Some after \<and> notifying \<noteq> None
                 then (notifying, None, None)
               else if \<not> rose \<and> \<not> fell \<and> notifying \<noteq> None then (None, notifying, unpaired)
               else if fell \<and> fst after = 0 then (None, None, None)
               else if fell \<and> 0 < fst after \<and> notifying \<noteq> None then (notifying, None, None)
               else (None, slot, unpaired))
        in \<lparr>de_state = \<lparr>rs_seeded = True, rs_pair = after, rs_slot = slot', rs_unpaired = unpaired'\<rparr>,
            de_send = send, de_unknown_ids = unknown_ids,
            de_notification_fell_to = notification_fell_to\<rparr>)"

section \<open>Facts\<close>

lemma latest_Some: "latest ms c = Some m \<Longrightarrow> m \<in> set ms \<and> ms_class m = c"
  by (auto simp: latest_def find_Some_iff)
    (metis length_rev nth_mem set_rev)

lemma latest_None: "latest ms c = None \<longleftrightarrow> (\<forall>m \<in> set ms. ms_class m \<noteq> c)"
  by (auto simp: latest_def find_None_iff)

text \<open>The rise, stationary and fall cases of the comparison.\<close>

definition rose :: "count_pair \<Rightarrow> count_pair \<Rightarrow> bool" where
  "rose before after \<longleftrightarrow> fst before < fst after \<or> snd before < snd after"

lemma decide_unseeded:
  "\<not> rs_seeded s \<Longrightarrow> de_send (decide s a ms) = None \<and> de_notification_fell_to (decide s a ms) = None \<and>
     rs_seeded (de_state (decide s a ms)) = (a \<noteq> None) \<and>
     rs_slot (de_state (decide s a ms)) = or_else (latest ms Notify) (rs_slot s) \<and>
     rs_unpaired (de_state (decide s a ms)) = None"
  by (auto simp: decide_def unseeded_def Let_def split: option.splits)

definition next_pair :: "room_state \<Rightarrow> count_pair option \<Rightarrow> count_pair" where
  "next_pair s a = (case a of None \<Rightarrow> rs_pair s | Some p \<Rightarrow> p)"

text \<open>The case list with its guards resolved: what is sent, and the slot and the unpaired rise kept.\<close>

lemma decide_seeded:
  assumes "rs_seeded s" "after = next_pair s a" "n = latest ms Notify" "u = latest ms Unknown"
  shows "(de_send (decide s a ms), rs_slot (de_state (decide s a ms)),
      rs_unpaired (de_state (decide s a ms))) =
    (if rose (rs_pair s) after then
       (if n \<noteq> None then (n, None, None)
        else if rs_slot s \<noteq> None then (rs_slot s, None, None)
        else if u \<noteq> None then (u, None, None)
        else (None, None, Some after))
     else if after = rs_pair s then
       (if n \<noteq> None then
          (if rs_unpaired s = Some after then (n, None, None) else (None, n, rs_unpaired s))
        else (None, rs_slot s, rs_unpaired s))
     else if fst after = 0 then (None, None, None)
     else if n \<noteq> None then (n, None, None) else (None, rs_slot s, rs_unpaired s))"
  unfolding decide_def Let_def rose_def next_pair_def [symmetric] assms(2-4) [symmetric]
  using assms(1)
  by (cases after; cases "rs_pair s") auto

lemma decide_frame:
  "rs_seeded s \<Longrightarrow> rs_seeded (de_state (decide s a ms)) \<and> rs_pair (de_state (decide s a ms)) = next_pair s a \<and>
   de_notification_fell_to (decide s a ms) =
     (if fst (next_pair s a) < fst (rs_pair s) then Some (fst (next_pair s a)) else None)"
  by (simp add: decide_def Let_def next_pair_def split_beta)

text \<open>What a decision that sends may send, and that it forgets the slot and the unpaired rise.\<close>

lemma decide_send_from:
  assumes "de_send (decide s a ms) = Some m"
  shows "rs_slot (de_state (decide s a ms)) = None \<and> rs_unpaired (de_state (decide s a ms)) = None \<and>
    (m \<in> set ms \<or> rs_slot s = Some m) \<and> rs_seeded s"
proof -
  have seeded: "rs_seeded s"
    using assms decide_unseeded [of s a ms] by (cases "rs_seeded s") auto
  from decide_seeded [OF this refl refl refl, of a ms] assms seeded show ?thesis
    using latest_Some [of ms Notify m] latest_Some [of ms Unknown m]
    by (simp split: if_split_asm)
qed

lemma decide_slot_from:
  assumes "rs_slot (de_state (decide s a ms)) = Some m"
  shows "m \<in> set ms \<or> rs_slot s = Some m"
proof (cases "rs_seeded s")
  case True
  from decide_seeded [OF this refl refl refl, of a ms] assms show ?thesis
    using latest_Some [of ms Notify m] by (simp split: if_split_asm)
next
  case False
  from decide_unseeded [OF this, of a ms] assms show ?thesis
    using latest_Some [of ms Notify m] by (simp add: or_else_def split: option.splits)
qed

section \<open>Runs of one room\<close>

text \<open>The messages a room sends over a sequence of observations, and the state it ends in.\<close>

type_synonym room_observation = "count_pair option \<times> push_message list"

fun run_room :: "room_state \<Rightarrow> room_observation list \<Rightarrow> push_message list" where
  "run_room s [] = []"
| "run_room s ((a, ms) # obs) =
     (case de_send (decide s a ms) of None \<Rightarrow> [] | Some m \<Rightarrow> [m]) @
     run_room (de_state (decide s a ms)) obs"

fun room_after :: "room_state \<Rightarrow> room_observation list \<Rightarrow> room_state" where
  "room_after s [] = s"
| "room_after s ((a, ms) # obs) = room_after (de_state (decide s a ms)) obs"

definition room_held :: "room_state \<Rightarrow> push_message multiset" where
  "room_held s = mset_set (set_option (rs_slot s))"

definition room_observed :: "room_observation list \<Rightarrow> push_message multiset" where
  "room_observed obs = (\<Sum>(_, ms)\<leftarrow>obs. mset ms)"

definition decision_sent :: "decision \<Rightarrow> push_message multiset" where
  "decision_sent d = mset_set (set_option (de_send d))"

lemma room_held_slot: "room_held s = (case rs_slot s of None \<Rightarrow> {#} | Some m \<Rightarrow> {#m#})"
  by (cases "rs_slot s") (simp_all add: room_held_def)

lemma latest_in: "latest ms c = Some m \<Longrightarrow> {#m#} \<subseteq># mset ms"
  using latest_Some [of ms c m] by simp

text \<open>One decision spends what it sends and what it keeps: both come out of the slot and the
  observation, and no copy of a message is in both.\<close>

lemma decide_spends: "decision_sent (decide s a ms) + room_held (de_state (decide s a ms)) \<subseteq># room_held s + mset ms"
proof -
  have slot: "x \<subseteq># mset ms \<Longrightarrow> x \<subseteq># room_held s + mset ms" for x
    by (simp add: subset_mset.add_increasing)
  have new: "latest ms c = Some m \<Longrightarrow> {#m#} \<subseteq># room_held s + mset ms" for c m
    by (rule slot, rule latest_in)
  show ?thesis
  proof (cases "rs_seeded s")
    case True
    from decide_seeded [OF this refl refl refl, of a ms] show ?thesis
      using new [of Notify] new [of Unknown]
      by (cases "rs_slot s"; cases "latest ms Notify"; cases "latest ms Unknown")
        (auto simp: decision_sent_def room_held_slot split: if_split_asm)
  next
    case False
    from decide_unseeded [OF this, of a ms] show ?thesis
      using new [of Notify]
      by (cases "latest ms Notify"; cases "rs_slot s") (auto simp: decision_sent_def room_held_slot or_else_def)
  qed
qed

lemma run_room_spends: "mset (run_room s obs) + room_held (room_after s obs) \<subseteq># room_held s + room_observed obs"
proof (induction s obs rule: run_room.induct)
  case (2 s a ms obs)
  let ?d = "decide s a ms"
  have "mset (run_room s ((a, ms) # obs)) + room_held (room_after s ((a, ms) # obs)) =
      decision_sent ?d + (mset (run_room (de_state ?d) obs) + room_held (room_after (de_state ?d) obs))"
    by (simp add: decision_sent_def split: option.split)
  also have "\<dots> \<subseteq># decision_sent ?d + (room_held (de_state ?d) + room_observed obs)"
    using "2.IH" by simp
  also have "\<dots> \<subseteq># room_held s + (mset ms + room_observed obs)"
    using subset_mset.add_right_mono [OF decide_spends [of s a ms], of "room_observed obs"]
    by (simp add: ac_simps)
  also have "\<dots> = room_held s + room_observed ((a, ms) # obs)"
    by (simp add: room_observed_def)
  finally show ?case .
qed (simp add: room_observed_def)

section \<open>Properties\<close>

text \<open>C5: an observation of a message is good for one alert. Over any sequence of observations of
  a room, from any state, the messages alerted together with the one still held in the slot at the
  end are contained, as a multiset, in the message held at the start and the messages observed. So
  a message is alerted at most as often as it was handed to the room, an alert also takes the
  message out of the slot, and nothing is alerted that was not observed. The case list does not
  compare event ids: a message observed twice may be alerted twice.\<close>

theorem push_alerts_once:
  "mset (run_room s obs) + room_held (room_after s obs) \<subseteq># room_held s + room_observed obs"
  by (rule run_room_spends)

definition demo_seeded :: room_state where
  "demo_seeded = \<lparr>rs_seeded = True, rs_pair = (1, 0), rs_slot = None, rs_unpaired = None\<rparr>"

text \<open>The count rise and the message may arrive in either order, or together: from a seeded room
  with nothing pending, a rise and one notifying message send that message exactly once and leave
  the same state.\<close>

theorem push_order_insensitive:
  assumes "rs_seeded s" "rs_slot s = None" "rs_unpaired s = None" "rose (rs_pair s) after"
    "ms_class m = Notify"
  shows "run_room s [(Some after, [m])] = [m] \<and> run_room s [(Some after, []), (None, [m])] = [m] \<and>
    run_room s [(None, [m]), (Some after, [])] = [m] \<and>
    room_after s [(Some after, [m])] = \<lparr>rs_seeded = True, rs_pair = after, rs_slot = None, rs_unpaired = None\<rparr> \<and>
    room_after s [(Some after, []), (None, [m])] = room_after s [(Some after, [m])] \<and>
    room_after s [(None, [m]), (Some after, [])] = room_after s [(Some after, [m])]"
  using assms by (auto simp: decide_def Let_def latest_def rose_def)

theorem push_order_insensitive_witness:
  "run_room demo_seeded [(None, [demo_message]), (Some (2, 0), [])] = [demo_message]"
proof -
  have "rs_seeded demo_seeded" "rs_slot demo_seeded = None" "rs_unpaired demo_seeded = None"
    "rose (rs_pair demo_seeded) (2, 0)" "ms_class demo_message = Notify"
    by (simp_all add: demo_seeded_def demo_message_def rose_def)
  from push_order_insensitive [OF this] show ?thesis by blast
qed

text \<open>A rise with something to say always says it. When a count rises on a seeded room, the
  latest notifying message of the observation is sent; failing that the message in the slot, and
  failing that the latest message whose push actions are unknown; only with none of them is the
  rise remembered instead.\<close>

theorem push_rise_sends:
  assumes "rs_seeded s" "rose (rs_pair s) after"
  shows "de_send (decide s (Some after) ms) =
      or_else (latest ms Notify) (or_else (rs_slot s) (latest ms Unknown)) \<and>
    rs_slot (de_state (decide s (Some after) ms)) = None \<and>
    rs_unpaired (de_state (decide s (Some after) ms)) =
      (if de_send (decide s (Some after) ms) = None then Some after else None)"
  using decide_seeded [OF assms(1) refl refl refl, of "Some after" ms] assms(2)
  by (auto simp: next_pair_def or_else_def split: option.splits if_splits)

theorem push_rise_sends_witness:
  "de_send (decide demo_seeded (Some (2, 0)) [demo_message]) = Some demo_message"
proof -
  have "rs_seeded demo_seeded" "rose (rs_pair demo_seeded) (2, 0)"
    by (simp_all add: demo_seeded_def rose_def)
  from push_rise_sends [OF this, of "[demo_message]"] show ?thesis
    by (simp add: latest_def or_else_def demo_message_def)
qed

text \<open>The first count after startup seeds and stays silent: an unseeded room never sends and never
  reports a fall, becomes seeded exactly when a count arrives, stores that count, and keeps the
  latest notifying message for the next rise.\<close>

theorem push_seed_is_silent:
  assumes "\<not> rs_seeded s"
  shows "de_send (decide s a ms) = None \<and> de_notification_fell_to (decide s a ms) = None \<and>
    (rs_seeded (de_state (decide s a ms)) \<longleftrightarrow> a \<noteq> None) \<and>
    rs_pair (de_state (decide s a ms)) = next_pair s a \<and>
    rs_slot (de_state (decide s a ms)) = or_else (latest ms Notify) (rs_slot s)"
  using decide_unseeded [OF assms, of a ms] assms
  by (auto simp: decide_def unseeded_def Let_def next_pair_def split: option.splits)

theorem push_seed_is_silent_witness:
  "de_send (decide (unseeded (1, 0)) (Some (5, 1)) [demo_message]) = None \<and>
   rs_slot (de_state (decide (unseeded (1, 0)) (Some (5, 1)) [demo_message])) = Some demo_message"
proof -
  have "\<not> rs_seeded (unseeded (1, 0))"
    by (simp add: unseeded_def)
  from push_seed_is_silent [OF this, of "Some (5, 1)" "[demo_message]"] show ?thesis
    by (simp add: latest_def or_else_def demo_message_def)
qed

text \<open>Reading a room to zero never alerts and forgets what was pending, as long as the highlight
  count does not rise in the same observation (which a highlight count bounded by the notification
  count rules out).\<close>

theorem push_read_to_zero_is_silent:
  assumes "rs_seeded s" "de_notification_fell_to (decide s a ms) = Some 0"
    "snd (next_pair s a) \<le> snd (rs_pair s) \<or> snd (next_pair s a) \<le> fst (next_pair s a)"
  shows "de_send (decide s a ms) = None \<and> rs_slot (de_state (decide s a ms)) = None \<and>
    rs_unpaired (de_state (decide s a ms)) = None"
proof -
  have "fst (next_pair s a) = 0" "fst (next_pair s a) < fst (rs_pair s)"
    using decide_frame [OF assms(1), of a ms] assms(2) by (simp_all split: if_splits)
  with assms(3) have "\<not> rose (rs_pair s) (next_pair s a)" "next_pair s a \<noteq> rs_pair s"
      "fst (next_pair s a) = 0"
    by (auto simp: rose_def)
  with decide_seeded [OF assms(1) refl refl refl, of a ms] show ?thesis
    by simp
qed

theorem push_read_to_zero_is_silent_witness:
  "de_send (decide demo_seeded (Some (0, 0)) [demo_message]) = None"
proof -
  have "rs_seeded demo_seeded"
    "de_notification_fell_to (decide demo_seeded (Some (0, 0)) [demo_message]) = Some 0"
    "snd (next_pair demo_seeded (Some (0, 0))) \<le> snd (rs_pair demo_seeded) \<or>
     snd (next_pair demo_seeded (Some (0, 0))) \<le> fst (next_pair demo_seeded (Some (0, 0)))"
    by (simp_all add: demo_seeded_def decide_def next_pair_def Let_def split_beta)
  from push_read_to_zero_is_silent [OF this] show ?thesis by blast
qed

end
