(* ===== verification/Json_Value.thy ===== *)
theory Json_Value
  imports Rust_Text
begin

text \<open>
  \<^verbatim>\<open>serde_json::Value\<close> as data, for the code that builds and inspects whole values. The default
  \<^verbatim>\<open>Map\<close> is a \<^verbatim>\<open>BTreeMap\<close>: an object is the list of its fields in the order of their keys, and
  strings compare as their UTF-8 bytes, which is the order of their scalar values. \<^verbatim>\<open>Map::insert\<close>
  replaces the value of a key that is there. Numbers are integers or floats; a float is kept as
  its text, which no code here reads.
\<close>

datatype json_value =
    JNull
  | JBool bool
  | JNumber int
  | JFloat rstr
  | JString rstr
  | JArray "json_value list"
  | JObject "(rstr \<times> json_value) list"

type_synonym json_map = "(rstr \<times> json_value) list"

fun obj_insert :: "rstr \<Rightarrow> json_value \<Rightarrow> json_map \<Rightarrow> json_map" where
  "obj_insert k v [] = [(k, v)]"
| "obj_insert k v ((k', v') # kvs) =
     (if k = k' then (k, v) # kvs
      else if k < k' then (k, v) # (k', v') # kvs
      else (k', v') # obj_insert k v kvs)"

definition obj_remove :: "rstr \<Rightarrow> json_map \<Rightarrow> json_map" where
  "obj_remove k kvs = filter (\<lambda>(k', _). k' \<noteq> k) kvs"

fun as_object :: "json_value \<Rightarrow> json_map option" where
  "as_object (JObject kvs) = Some kvs"
| "as_object _ = None"

fun as_array :: "json_value \<Rightarrow> json_value list option" where
  "as_array (JArray vs) = Some vs"
| "as_array _ = None"

fun as_string :: "json_value \<Rightarrow> rstr option" where
  "as_string (JString s) = Some s"
| "as_string _ = None"

fun as_bool :: "json_value \<Rightarrow> bool option" where
  "as_bool (JBool b) = Some b"
| "as_bool _ = None"

fun as_u64 :: "json_value \<Rightarrow> nat option" where
  "as_u64 (JNumber n) = (if 0 \<le> n \<and> n < 2 ^ 64 then Some (nat n) else None)"
| "as_u64 _ = None"

text \<open>\<^verbatim>\<open>Value::get\<close> on a string key, and \<^verbatim>\<open>value[key] = v\<close>. Indexing turns a null into an object;
  on any other value it panics, and no code here indexes one.\<close>

definition jget :: "json_value \<Rightarrow> rstr \<Rightarrow> json_value option" where
  "jget v k = Option.bind (as_object v) (\<lambda>kvs. map_of kvs k)"

fun jset :: "rstr \<Rightarrow> json_value \<Rightarrow> json_value \<Rightarrow> json_value" where
  "jset k v (JObject kvs) = JObject (obj_insert k v kvs)"
| "jset k v other = JObject [(k, v)]"

text \<open>\<^verbatim>\<open>json!({...})\<close>: the fields inserted one after the other.\<close>

definition jobj :: "(string \<times> json_value) list \<Rightarrow> json_value" where
  "jobj fields = JObject (fold (\<lambda>(k, v). obj_insert (lit k) v) fields [])"

lemma map_of_obj_insert [simp]: "map_of (obj_insert k v kvs) = (map_of kvs)(k \<mapsto> v)"
  by (induction kvs) (auto simp: fun_eq_iff)

lemma keys_obj_insert [simp]: "fst ` set (obj_insert k v kvs) = insert k (fst ` set kvs)"
  by (induction k v kvs rule: obj_insert.induct) (simp_all add: insert_commute)

text \<open>Insertion keeps the keys in order, and so distinct.\<close>

definition obj_ordered :: "json_map \<Rightarrow> bool" where
  "obj_ordered kvs = sorted_wrt (<) (map fst kvs)"

lemma obj_ordered_insert [intro]: "obj_ordered kvs \<Longrightarrow> obj_ordered (obj_insert k v kvs)"
proof (induction kvs)
  case (Cons e kvs)
  obtain k' v' where e: "e = (k', v')"
    by (cases e)
  show ?case
    using Cons by (auto simp: e obj_ordered_def)
qed (simp add: obj_ordered_def)

lemma map_of_obj_remove [simp]: "map_of (obj_remove k kvs) = (map_of kvs)(k := None)"
  by (induction kvs) (auto simp: obj_remove_def fun_eq_iff)

lemma jget_object [simp]: "jget (JObject kvs) k = map_of kvs k"
  by (simp add: jget_def)

section \<open>Matrix media URIs\<close>

text \<open>\<^verbatim>\<open>parse_mxc\<close> of \<^verbatim>\<open>crates/axon-core/src/media.rs\<close>.\<close>

definition strip_prefix :: "rstr \<Rightarrow> rstr \<Rightarrow> rstr option" where
  "strip_prefix p s = (if take (length p) s = p then Some (drop (length p) s) else None)"

definition parse_mxc :: "rstr \<Rightarrow> (rstr \<times> rstr) option" where
  "parse_mxc mxc_url =
     Option.bind (strip_prefix (lit ''mxc://'') mxc_url) (\<lambda>rest.
     Option.bind (split_once 47 rest) (\<lambda>(server, media_id).
       if server = [] \<or> media_id = [] \<or> 47 \<in> set media_id then None else Some (server, media_id)))"

lemma strip_prefix_Some [simp]: "strip_prefix p s = Some r \<longleftrightarrow> s = p @ r"
  by (auto simp: strip_prefix_def) (metis append_take_drop_id)

lemma parse_mxc_Some:
  "parse_mxc u = Some (s, m) \<longleftrightarrow> u = lit ''mxc://'' @ s @ 47 # m \<and> s \<noteq> [] \<and> m \<noteq> [] \<and> 47 \<notin> set s \<and> 47 \<notin> set m"
  by (auto simp: parse_mxc_def bind_eq_Some_conv split_once_Some split: if_split_asm)

end
