(* ===== verification/Push_Payload.thy ===== *)
theory Push_Payload
  imports Push_Message Json_Value
begin

text \<open>
  Alert text and provider bodies: \<^verbatim>\<open>crates/axon-sync/src/push/payload.rs\<close>.

  The \<^verbatim>\<open>json!\<close> calls build a \<open>json_value\<close>. Serialising it
  (\<^verbatim>\<open>serde_json::to_vec\<close>) and hashing (\<^verbatim>\<open>Sha256::digest\<close>) are parameters: \<open>to_vec\<close> may fail
  (\<open>None\<close>), \<open>sha256\<close> maps bytes to bytes.
\<close>

type_synonym serializer = "json_value \<Rightarrow> nat list option"
type_synonym digest = "nat list \<Rightarrow> nat list"

definition CLIP :: nat where
  "CLIP = 140"

definition MAX_PAYLOAD_BYTES :: nat where
  "MAX_PAYLOAD_BYTES = 4096"

definition MESSAGE_CHANNEL_ID :: rstr where
  "MESSAGE_CHANNEL_ID = lit ''messages-v2''"

definition ROOM_READ_KIND :: rstr where
  "ROOM_READ_KIND = lit ''room_read''"

record alert_text =
  at_title :: rstr
  at_body :: rstr

section \<open>Text\<close>

definition trim :: "rstr \<Rightarrow> rstr" where
  "trim s = rev (dropWhile is_whitespace (rev (dropWhile is_whitespace s)))"

definition clip :: "rstr \<Rightarrow> nat \<Rightarrow> rstr" where
  "clip text limit = (if length text \<le> limit then text else take (limit - 1) text @ [8230])"

definition activity_text :: alert_text where
  "activity_text = \<lparr>at_title = lit ''Axon'', at_body = lit ''New activity''\<rparr>"

definition preview_body :: "rstr \<Rightarrow> rstr \<Rightarrow> rstr" where
  "preview_body sender body =
     (let text = collapse_whitespace body;
          who = trim sender;
          clipped = clip text CLIP
      in if who = [] then (if clipped = [] then lit ''New message'' else clipped)
         else if clipped = [] then who
         else who @ lit '': '' @ clipped)"

definition alert_text_for :: "rstr \<Rightarrow> rstr option \<Rightarrow> rstr \<Rightarrow> push_message \<Rightarrow> alert_text" where
  "alert_text_for disclosure room_name sender_display message =
     (let name = (case room_name of None \<Rightarrow> lit ''New message'' | Some n \<Rightarrow> n) in
      if disclosure = lit ''sender_and_room'' then
        \<lparr>at_title = clip name CLIP, at_body = clip (trim sender_display) CLIP\<rparr>
      else if disclosure = lit ''preview'' then
        \<lparr>at_title = clip name CLIP, at_body = clip (preview_body sender_display (ms_body message)) CLIP\<rparr>
      else activity_text)"

definition hex_digit :: "nat \<Rightarrow> nat" where
  "hex_digit d = (if d < 10 then 48 + d else 87 + d)"

definition hex_byte :: "nat \<Rightarrow> rstr" where
  "hex_byte b = [hex_digit (b div 16), hex_digit (b mod 16)]"

definition collapse_id :: "digest \<Rightarrow> rstr \<Rightarrow> rstr" where
  "collapse_id sha256 room_id = concat (map hex_byte (take 16 (sha256 (utf8 room_id))))"

section \<open>Bodies\<close>

definition unwrap_or_default :: "nat list option \<Rightarrow> nat list" where
  "unwrap_or_default r = (case r of None \<Rightarrow> [] | Some b \<Rightarrow> b)"

definition apns_payload ::
  "alert_text \<Rightarrow> rstr \<Rightarrow> rstr \<Rightarrow> push_message \<Rightarrow> nat option \<Rightarrow> json_value"
where
  "apns_payload text account_id room_id message badge =
     (let alert = jobj [(''title'', JString (at_title text)), (''body'', JString (at_body text))];
          aps = jobj [(''alert'', alert)];
          aps' = (case badge of None \<Rightarrow> aps | Some n \<Rightarrow> jset (lit ''badge'') (JNumber (int n)) aps);
          top = jobj [(''aps'', aps'), (''account_id'', JString account_id),
                 (''room_id'', JString room_id), (''event_id'', JString (ms_event_id message))]
      in case ms_thread_root_id message of
           None \<Rightarrow> top
         | Some t \<Rightarrow> jset (lit ''thread_root_id'') (JString t) top)"

definition apns_body_for ::
  "serializer \<Rightarrow> alert_text \<Rightarrow> rstr \<Rightarrow> rstr \<Rightarrow> push_message \<Rightarrow> nat option \<Rightarrow> nat list"
where
  "apns_body_for to_vec text account_id room_id message badge =
     unwrap_or_default (to_vec (apns_payload text account_id room_id message badge))"

definition apns_badge_body :: "serializer \<Rightarrow> nat \<Rightarrow> nat list" where
  "apns_badge_body to_vec count =
     unwrap_or_default (to_vec (jobj [(''aps'', jobj [(''badge'', JNumber (int count))])]))"

definition fcm_room_read_body :: "serializer \<Rightarrow> rstr \<Rightarrow> rstr \<Rightarrow> rstr \<Rightarrow> rstr \<Rightarrow> nat list" where
  "fcm_room_read_body to_vec token account_id room_id collapse =
     unwrap_or_default (to_vec (jobj [(''message'', jobj [
       (''token'', JString token),
       (''data'', jobj [
         (''axon_kind'', JString ROOM_READ_KIND),
         (''account_id'', JString account_id),
         (''room_id'', JString room_id),
         (''tag'', JString collapse)]),
       (''android'', jobj [(''priority'', JString (lit ''NORMAL''))])])]))"

definition fcm_body_for ::
  "serializer \<Rightarrow> alert_text \<Rightarrow> rstr \<Rightarrow> rstr \<Rightarrow> push_message \<Rightarrow> rstr \<Rightarrow> rstr \<Rightarrow> nat list"
where
  "fcm_body_for to_vec text account_id room_id message token collapse =
     (let ids = jobj [(''account_id'', JString account_id), (''room_id'', JString room_id),
                 (''event_id'', JString (ms_event_id message))];
          data = (case ms_thread_root_id message of
                    None \<Rightarrow> ids
                  | Some t \<Rightarrow> jset (lit ''thread_root_id'') (JString t) ids)
      in unwrap_or_default (to_vec (jobj [(''message'', jobj [
           (''token'', JString token),
           (''notification'', jobj [(''title'', JString (at_title text)),
                                            (''body'', JString (at_body text))]),
           (''data'', data),
           (''android'', jobj [
             (''priority'', JString (lit ''HIGH'')),
             (''notification'', jobj [
               (''channel_id'', JString MESSAGE_CHANNEL_ID),
               (''tag'', JString collapse)])])])])))"

record outbound_request =
  or_provider :: rstr
  or_disclosure :: rstr
  or_room_name :: "rstr option"
  or_sender_display :: rstr
  or_account_id :: rstr
  or_room_id :: rstr
  or_message :: push_message
  or_fcm_token :: rstr
  or_badge :: "nat option"

definition provider_body ::
  "serializer \<Rightarrow> outbound_request \<Rightarrow> alert_text \<Rightarrow> rstr \<Rightarrow> nat list"
where
  "provider_body to_vec r text collapse =
     (if or_provider r = lit ''fcm''
      then fcm_body_for to_vec text (or_account_id r) (or_room_id r) (or_message r) (or_fcm_token r) collapse
      else apns_body_for to_vec text (or_account_id r) (or_room_id r) (or_message r) (or_badge r))"

definition fit_outbound ::
  "serializer \<Rightarrow> digest \<Rightarrow> outbound_request \<Rightarrow> (nat list \<times> rstr) option"
where
  "fit_outbound to_vec sha256 r =
     (let collapse = collapse_id sha256 (or_room_id r);
          text = alert_text_for (or_disclosure r) (or_room_name r) (or_sender_display r) (or_message r);
          body = provider_body to_vec r text collapse
      in if length body \<le> MAX_PAYLOAD_BYTES then Some (body, collapse)
         else let body' = provider_body to_vec r activity_text collapse
              in if length body' \<le> MAX_PAYLOAD_BYTES then Some (body', collapse) else None)"

section \<open>Facts\<close>

lemma length_clip: "0 < limit \<Longrightarrow> length (clip s limit) \<le> limit"
  by (auto simp: clip_def)

lemma alert_text_lengths:
  "length (at_title (alert_text_for d r s m)) \<le> CLIP \<and> length (at_body (alert_text_for d r s m)) \<le> CLIP"
  using length_clip [of CLIP] by (simp add: alert_text_for_def activity_text_def CLIP_def Let_def)

lemma length_collapse_id: "length (sha256 (utf8 room_id)) = 32 \<Longrightarrow> length (collapse_id sha256 room_id) = 32"
  by (simp add: collapse_id_def length_concat hex_byte_def comp_def sum_list_triv)

text \<open>What a body may depend on besides the text: everything but the message's sender and body.\<close>

definition same_envelope :: "outbound_request \<Rightarrow> outbound_request \<Rightarrow> bool" where
  "same_envelope r r' \<longleftrightarrow> or_provider r = or_provider r' \<and> or_disclosure r = or_disclosure r' \<and>
     or_account_id r = or_account_id r' \<and> or_room_id r = or_room_id r' \<and>
     or_fcm_token r = or_fcm_token r' \<and> or_badge r = or_badge r' \<and>
     ms_event_id (or_message r) = ms_event_id (or_message r') \<and>
     ms_thread_root_id (or_message r) = ms_thread_root_id (or_message r')"

lemma provider_body_envelope:
  "same_envelope r r' \<Longrightarrow> provider_body to_vec r text c = provider_body to_vec r' text c"
  by (simp add: provider_body_def same_envelope_def fcm_body_for_def apns_body_for_def apns_payload_def
      Let_def)

section \<open>Properties\<close>

text \<open>What a phone is told respects the disclosure level. At the activity level (any level that is
  neither \<^verbatim>\<open>sender_and_room\<close> nor \<^verbatim>\<open>preview\<close>) the whole request body is the same whatever the room
  name, the sender and the message text are; at \<^verbatim>\<open>sender_and_room\<close> it is the same whatever the
  message text is.\<close>

theorem push_disclosure_respected:
  assumes "same_envelope r r'"
    "or_disclosure r \<noteq> lit ''preview''"
    "or_disclosure r = lit ''sender_and_room'' \<longrightarrow>
       or_room_name r = or_room_name r' \<and> or_sender_display r = or_sender_display r'"
  shows "fit_outbound to_vec sha256 r = fit_outbound to_vec sha256 r'"
proof -
  have env: "or_room_id r' = or_room_id r" "or_disclosure r' = or_disclosure r"
    using assms(1) by (simp_all add: same_envelope_def)
  have "alert_text_for (or_disclosure r) (or_room_name r) (or_sender_display r) (or_message r) =
      alert_text_for (or_disclosure r) (or_room_name r') (or_sender_display r') (or_message r')"
    using assms(2,3) by (auto simp: alert_text_for_def Let_def)
  then show ?thesis
    unfolding fit_outbound_def Let_def env
    by (simp add: provider_body_envelope [OF assms(1)])
qed

definition demo_request :: "rstr \<Rightarrow> outbound_request" where
  "demo_request body = \<lparr>or_provider = lit ''apns'', or_disclosure = lit ''activity'',
     or_room_name = Some body, or_sender_display = body, or_account_id = lit ''a'',
     or_room_id = lit ''!r:x'', or_message = demo_message\<lparr>ms_body := body\<rparr>,
     or_fcm_token = [], or_badge = None\<rparr>"

theorem push_disclosure_respected_witness:
  "fit_outbound (\<lambda>_. Some []) (\<lambda>_. replicate 32 0) (demo_request (lit ''secret'')) =
   fit_outbound (\<lambda>_. Some []) (\<lambda>_. replicate 32 0) (demo_request (lit ''other''))"
  by (rule push_disclosure_respected)
    (simp_all add: same_envelope_def demo_request_def lit_def)

text \<open>Banner texts are short: title and body of every alert have at most 140 characters, and the
  collapse id is 32 characters, given only that the digest is 32 bytes.\<close>

theorem push_alert_bounds:
  assumes "\<forall>bytes. length (sha256 bytes) = 32"
  shows "length (at_title (alert_text_for d room sender m)) \<le> 140 \<and>
    length (at_body (alert_text_for d room sender m)) \<le> 140 \<and> length (collapse_id sha256 room_id) = 32"
  using alert_text_lengths [of d room sender m] length_collapse_id [of sha256 room_id] assms
  by (simp add: CLIP_def)

theorem push_alert_bounds_witness:
  "length (collapse_id (\<lambda>_. replicate 32 7) (lit ''!r:x'')) = 32"
proof -
  have "\<forall>bytes :: nat list. length ((\<lambda>_. replicate 32 7) bytes) = 32"
    by simp
  from push_alert_bounds [OF this] show ?thesis by blast
qed

end
