(* ===== verification/Push_Scheduler.thy ===== *)
theory Push_Scheduler
  imports Push_Message
begin

text \<open>
  The send scheduler of the push router: \<^verbatim>\<open>FlightKey\<close>, \<^verbatim>\<open>Work\<close>, \<^verbatim>\<open>Job\<close> and \<^verbatim>\<open>Scheduler\<close> of
  \<^verbatim>\<open>crates/axon-sync/src/push/router.rs\<close>, and \<^verbatim>\<open>PushTarget\<close> of \<^verbatim>\<open>crates/axon-store/src/push.rs\<close>.

  A \<^verbatim>\<open>Uuid\<close> is a natural number (its 128 bits), a \<^verbatim>\<open>DateTime<Utc>\<close> its count of milliseconds.
  \<^verbatim>\<open>Work::Alert\<close> carries the address of the banner that the devices of one message share
  (\<^verbatim>\<open>Arc<SharedBanner>\<close>); \<open>Push_Router\<close> allocates it.
\<close>

type_synonym uuid = nat

record push_target =
  pt_id :: uuid
  pt_provider :: rstr
  pt_token :: rstr
  pt_environment :: "rstr option"
  pt_disclosure :: rstr
  pt_badge :: bool
  pt_updated_at :: int

datatype flight_key =
    RoomKey (fk_account: uuid) (fk_registration: uuid) (fk_room: rstr)
  | BadgeKey (fk_registration: uuid)

type_synonym banner_ref = nat

datatype work =
    Alert uuid rstr push_message banner_ref
  | RoomRead uuid rstr
  | Badge

record job =
  job_target :: push_target
  job_work :: work

definition job_room :: "job \<Rightarrow> (uuid \<times> rstr) option" where
  "job_room j = (case job_work j of
     Alert account_id room_id _ _ \<Rightarrow> Some (account_id, room_id)
   | RoomRead account_id room_id \<Rightarrow> Some (account_id, room_id)
   | Badge \<Rightarrow> None)"

definition job_key :: "job \<Rightarrow> flight_key" where
  "job_key j = (case job_room j of
     Some (account_id, room_id) \<Rightarrow> RoomKey account_id (pt_id (job_target j)) room_id
   | None \<Rightarrow> BadgeKey (pt_id (job_target j)))"

definition SEND_PERMITS :: nat where
  "SEND_PERMITS = 4"

record scheduler =
  in_flight :: "flight_key set"
  waiting :: "flight_key \<rightharpoonup> job"
  order :: "flight_key list"

definition scheduler_new :: scheduler where
  "scheduler_new = \<lparr>in_flight = {}, waiting = Map.empty, order = []\<rparr>"

definition enqueue :: "scheduler \<Rightarrow> job \<Rightarrow> scheduler \<times> job option" where
  "enqueue s j =
     (let key = job_key j in
      if key \<in> in_flight s then (s\<lparr>waiting := (waiting s)(key \<mapsto> j)\<rparr>, None)
      else if SEND_PERMITS \<le> card (in_flight s) then
        (s\<lparr>order := (if key \<in> set (order s) then order s else order s @ [key]),
           waiting := (waiting s)(key \<mapsto> j)\<rparr>, None)
      else (s\<lparr>in_flight := insert key (in_flight s)\<rparr>, Some j))"

definition opt_list :: "'a option \<Rightarrow> 'a list" where
  "opt_list x = (case x of None \<Rightarrow> [] | Some v \<Rightarrow> [v])"

lemma length_order_enqueue_free:
  "card (in_flight s) < SEND_PERMITS \<Longrightarrow> order (fst (enqueue s j)) = order s"
  by (auto simp: enqueue_def Let_def)

function pump :: "scheduler \<Rightarrow> scheduler \<times> job list" where
  "pump s =
     (if card (in_flight s) < SEND_PERMITS then
        (case order s of
           [] \<Rightarrow> (s, [])
         | key # rest \<Rightarrow>
             let s1 = s\<lparr>order := rest\<rparr> in
             (case waiting s1 key of
                None \<Rightarrow> pump s1
              | Some j \<Rightarrow>
                  let s2 = s1\<lparr>waiting := (waiting s1)(key := None)\<rparr>;
                      s3 = fst (enqueue s2 j);
                      (s4, start) = pump s3
                  in (s4, opt_list (snd (enqueue s2 j)) @ start)))
      else (s, []))"
  by pat_completeness auto
termination
  by (relation "measure (length \<circ> order)") (auto simp: length_order_enqueue_free)

declare pump.simps [simp del]

definition finished :: "scheduler \<Rightarrow> flight_key \<Rightarrow> scheduler \<times> job list" where
  "finished s key =
     (let s1 = s\<lparr>in_flight := in_flight s - {key}\<rparr>;
          (s2, start) =
            (case waiting s1 key of
               None \<Rightarrow> (s1, [])
             | Some j \<Rightarrow>
                 let s' = s1\<lparr>waiting := (waiting s1)(key := None),
                            order := filter (\<lambda>queued. queued \<noteq> key) (order s1)\<rparr>
                 in (fst (enqueue s' j), opt_list (snd (enqueue s' j))));
          (s3, started) = pump s2
      in (s3, start @ started))"

definition retain_waiting :: "(job \<Rightarrow> bool) \<Rightarrow> scheduler \<Rightarrow> scheduler" where
  "retain_waiting keep s =
     (let w = (\<lambda>k. case waiting s k of None \<Rightarrow> None | Some j \<Rightarrow> if keep j then Some j else None)
      in s\<lparr>waiting := w, order := filter (\<lambda>key. w key \<noteq> None \<or> key \<in> in_flight s) (order s)\<rparr>)"

definition drop_account :: "scheduler \<Rightarrow> uuid \<Rightarrow> scheduler" where
  "drop_account s account_id =
     retain_waiting (\<lambda>j. map_option fst (job_room j) \<noteq> Some account_id) s"

definition drop_room :: "scheduler \<Rightarrow> uuid \<Rightarrow> rstr \<Rightarrow> scheduler" where
  "drop_room s account_id room_id = retain_waiting (\<lambda>j. job_room j \<noteq> Some (account_id, room_id)) s"

section \<open>Invariant\<close>

text \<open>
  \<open>sched_wf\<close> holds inside \<^verbatim>\<open>finished\<close> too, between taking the finished key out and the
  end of \<^verbatim>\<open>pump\<close>; \<open>sched_inv\<close> adds that nothing queues while a permit is free.
\<close>

definition sched_wf :: "scheduler \<Rightarrow> bool" where
  "sched_wf s \<longleftrightarrow> finite (in_flight s) \<and> card (in_flight s) \<le> SEND_PERMITS \<and> distinct (order s) \<and>
     set (order s) = dom (waiting s) - in_flight s \<and>
     (\<forall>k j. waiting s k = Some j \<longrightarrow> job_key j = k)"

definition sched_inv :: "scheduler \<Rightarrow> bool" where
  "sched_inv s \<longleftrightarrow> sched_wf s \<and> (0 < length (order s) \<longrightarrow> card (in_flight s) = SEND_PERMITS)"

lemma sched_invD:
  assumes "sched_inv s"
  shows "sched_wf s" "finite (in_flight s)" "card (in_flight s) \<le> SEND_PERMITS" "distinct (order s)"
    "set (order s) = dom (waiting s) - in_flight s"
    "waiting s k = Some j \<Longrightarrow> job_key j = k"
    "order s = [] \<or> card (in_flight s) = SEND_PERMITS"
  using assms by (auto simp: sched_inv_def sched_wf_def)

lemma scheduler_new_inv: "sched_inv scheduler_new"
  by (simp add: sched_inv_def sched_wf_def scheduler_new_def)

lemma enqueue_inv:
  assumes "sched_inv s"
  shows "sched_inv (fst (enqueue s j))"
proof -
  note i = sched_invD [OF assms]
  consider (running) "job_key j \<in> in_flight s"
    | (full) "job_key j \<notin> in_flight s" "card (in_flight s) = SEND_PERMITS"
    | (free) "job_key j \<notin> in_flight s" "card (in_flight s) < SEND_PERMITS"
    using i(3) by linarith
  then show ?thesis
  proof cases
    case running
    then show ?thesis
      using assms by (auto simp: enqueue_def Let_def sched_inv_def sched_wf_def)
  next
    case full
    then show ?thesis
      using assms by (auto simp: enqueue_def Let_def sched_inv_def sched_wf_def)
  next
    case free
    then have "order s = []"
      using i(7) by auto
    then show ?thesis
      using free i(2,5,6) by (auto simp: enqueue_def Let_def sched_inv_def sched_wf_def)
  qed
qed

lemma retain_waiting_sel [simp]:
  "in_flight (retain_waiting keep s) = in_flight s"
  "waiting (retain_waiting keep s) k = Some j \<longleftrightarrow> waiting s k = Some j \<and> keep j"
  "order (retain_waiting keep s) =
     filter (\<lambda>k. waiting (retain_waiting keep s) k \<noteq> None \<or> k \<in> in_flight s) (order s)"
  by (auto simp add: retain_waiting_def Let_def split: option.splits)

lemma retain_waiting_inv:
  assumes "sched_inv s"
  shows "sched_inv (retain_waiting keep s)"
proof -
  note i = sched_invD [OF assms]
  have sub: "dom (waiting (retain_waiting keep s)) \<subseteq> dom (waiting s)"
    by auto
  have "set (order (retain_waiting keep s)) = dom (waiting (retain_waiting keep s)) - in_flight s"
    using i(5) sub by (auto simp del: retain_waiting_sel(2))
  moreover have "distinct (order (retain_waiting keep s))"
    using i(4) by simp
  moreover have "order (retain_waiting keep s) = [] \<or> card (in_flight s) = SEND_PERMITS"
    using i(7) by auto
  ultimately show ?thesis
    unfolding sched_inv_def sched_wf_def using i(2,3,6) by auto
qed

lemma restrict_map_UNIV [simp]: "m |` UNIV = m"
  by (auto simp: restrict_map_def)

lemma pump_idle:
  "order s = [] \<or> SEND_PERMITS \<le> card (in_flight s) \<Longrightarrow> pump s = (s, [])"
  by (subst pump.simps) (auto simp: not_le)

lemma pump_step:
  assumes "sched_wf s" "card (in_flight s) < SEND_PERMITS" "order s = k # rest"
    "s' = s\<lparr>order := rest, waiting := (waiting s)(k := None), in_flight := insert k (in_flight s)\<rparr>"
  shows "sched_wf s'" and "pump s = (fst (pump s'), the (waiting s k) # snd (pump s'))"
proof -
  have k: "k \<notin> in_flight s" "k \<in> dom (waiting s)" "k \<notin> set rest"
    using assms(1,3) unfolding sched_wf_def by auto
  then obtain j where j: "waiting s k = Some j"
    by auto
  then have key: "job_key j = k"
    using assms(1) unfolding sched_wf_def by blast
  have "set rest = dom (waiting s) - in_flight s - {k}"
    using assms(1,3) k(3) unfolding sched_wf_def by auto
  then show "sched_wf s'"
    using assms k unfolding sched_wf_def by auto
  have "enqueue (s\<lparr>order := rest, waiting := (waiting s)(k := None)\<rparr>) j = (s', Some j)"
    using assms(2) k(1) by (simp add: enqueue_def Let_def key assms(4))
  then show "pump s = (fst (pump s'), the (waiting s k) # snd (pump s'))"
    using assms(2,3) j by (subst pump.simps) (simp add: opt_list_def split_beta Let_def)
qed

text \<open>\<^verbatim>\<open>pump\<close> as one step: it starts the oldest queued jobs, as many as there are free permits.\<close>

lemma pump_eq:
  assumes "sched_wf s"
  shows "pump s =
    (let n = min (SEND_PERMITS - card (in_flight s)) (length (order s));
         ks = take n (order s)
     in (s\<lparr>in_flight := in_flight s \<union> set ks, waiting := waiting s |` (- set ks),
           order := drop n (order s)\<rparr>, map (\<lambda>k. the (waiting s k)) ks))"
  using assms
proof (induction "order s" arbitrary: s)
  case Nil
  then show ?case
    using Nil.hyps pump_idle [of s] by (simp add: Let_def)
next
  case (Cons k rest)
  show ?case
  proof (cases "card (in_flight s) < SEND_PERMITS")
    case False
    then show ?thesis
      by (subst pump.simps) (simp add: Let_def)
  next
    case True
    define s' where
      "s' = s\<lparr>order := rest, waiting := (waiting s)(k := None), in_flight := insert k (in_flight s)\<rparr>"
    note step = pump_step [OF Cons.prems True Cons.hyps(2) [symmetric] s'_def]
    have k: "k \<notin> in_flight s" "finite (in_flight s)" "k \<notin> set rest"
    proof -
      have "set (k # rest) = dom (waiting s) - in_flight s" "distinct (k # rest)" "finite (in_flight s)"
        using Cons.prems unfolding sched_wf_def Cons.hyps(2) by blast+
      then show "k \<notin> in_flight s" "finite (in_flight s)" "k \<notin> set rest"
        by auto
    qed
    then have card: "card (in_flight s') = Suc (card (in_flight s))"
      by (simp add: s'_def)
    define n where "n = min (SEND_PERMITS - card (in_flight s')) (length rest)"
    have n: "min (SEND_PERMITS - card (in_flight s)) (Suc (length rest)) = Suc n"
      using True card by (simp add: n_def)
    have notk: "k \<notin> set (take n rest)"
      using k(3) by (meson in_set_takeD)
    have tail: "map (\<lambda>x. the (waiting s' x)) (take n rest) = map (\<lambda>x. the (waiting s x)) (take n rest)"
      using notk by (auto simp: s'_def)
    have w: "waiting s' |` (- set (take n rest)) = waiting s |` (- insert k (set (take n rest)))"
      by (auto simp: s'_def restrict_map_def)
    have "order s' = rest"
      by (simp add: s'_def)
    then have "pump s' = (s'\<lparr>in_flight := in_flight s' \<union> set (take n rest),
        waiting := waiting s' |` (- set (take n rest)), order := drop n rest\<rparr>,
        map (\<lambda>x. the (waiting s' x)) (take n rest))"
      using Cons.hyps(1) [of s'] step(1) by (simp add: Let_def n_def)
    then show ?thesis
      unfolding step(2) Let_def w tail Cons.hyps(2) [symmetric]
      by (simp add: s'_def n insert_commute)
  qed
qed

text \<open>
  \<^verbatim>\<open>finished\<close> for a key in flight: the job waiting on that key starts; without one the job at
  the head of the queue does; without either the permit is free.
\<close>

lemma finished_eq:
  assumes "sched_inv s" "k \<in> in_flight s"
  shows "finished s k =
    (case waiting s k of
       Some j \<Rightarrow> (s\<lparr>waiting := (waiting s)(k := None)\<rparr>, [j])
     | None \<Rightarrow>
        (case order s of
           [] \<Rightarrow> (s\<lparr>in_flight := in_flight s - {k}\<rparr>, [])
         | k' # rest \<Rightarrow>
            (s\<lparr>in_flight := insert k' (in_flight s - {k}), waiting := (waiting s)(k' := None),
               order := rest\<rparr>, [the (waiting s k')])))"
proof (cases "waiting s k")
  case (Some j)
  note i = sched_invD [OF assms(1)]
  have notin: "filter (\<lambda>queued. queued \<noteq> k) (order s) = order s"
    using assms(2) i(5) by (intro filter_eq_self) auto
  have less: "card (in_flight s - {k}) < SEND_PERMITS"
    using assms(2) i(2,3) by (metis card_Diff1_less less_le_trans)
  let ?s = "s\<lparr>waiting := (waiting s)(k := None)\<rparr>"
  have enq: "enqueue (s\<lparr>in_flight := in_flight s - {k}, waiting := (waiting s)(k := None)\<rparr>) j =
      (?s, Some j)"
    using less i(6) [OF Some] assms(2) by (simp add: enqueue_def Let_def insert_absorb)
  have "pump ?s = (?s, [])"
    using i(7) by (intro pump_idle) auto
  with enq Some notin show ?thesis
    by (simp add: finished_def Let_def opt_list_def)
next
  case None
  note i = sched_invD [OF assms(1)]
  let ?s = "s\<lparr>in_flight := in_flight s - {k}\<rparr>"
  have card: "card (in_flight s - {k}) = card (in_flight s) - 1"
    using assms(2) i(2) by simp
  have "k \<notin> dom (waiting s)"
    using None by auto
  then have wf: "sched_wf ?s"
    using i(1) card unfolding sched_wf_def by auto
  show ?thesis
  proof (cases "order s")
    case Nil
    then show ?thesis
      using None pump_eq [OF wf] by (simp add: finished_def Let_def restrict_map_def)
  next
    case (Cons k' rest)
    then have "card (in_flight s) = SEND_PERMITS"
      using i(7) by auto
    then have "min (SEND_PERMITS - card (in_flight ?s)) (length (order ?s)) = 1"
      using card Cons by (simp add: SEND_PERMITS_def)
    moreover have "waiting s |` (- {k'}) = (waiting s)(k' := None)"
      by (auto simp: restrict_map_def)
    ultimately show ?thesis
      using None Cons pump_eq [OF wf] by (simp add: finished_def Let_def insert_commute)
  qed
qed

lemma finished_inv:
  assumes "sched_inv s" "k \<in> in_flight s"
  shows "sched_inv (fst (finished s k))"
proof -
  note i = sched_invD [OF assms(1)]
  consider (own) j where "waiting s k = Some j" | (idle) "waiting s k = None" "order s = []"
    | (head) k' rest where "waiting s k = None" "order s = k' # rest"
    by (cases "waiting s k"; cases "order s") auto
  then show ?thesis
  proof cases
    case own
    then show ?thesis
      using assms finished_eq [OF assms] i(5) by (auto simp: sched_inv_def sched_wf_def)
  next
    case idle
    then show ?thesis
      using finished_eq [OF assms] i card_Diff1_le [of "in_flight s" k]
      by (auto simp: sched_inv_def sched_wf_def)
  next
    case head
    have k': "k' \<notin> in_flight s" "k' \<notin> set rest" "distinct rest"
      "set rest = dom (waiting s) - in_flight s - {k'}"
      using i(4,5) head(2) by auto
    have "card (insert k' (in_flight s - {k})) = card (in_flight s)"
      using assms(2) i(2) k'(1) by (simp add: card_gt_0_iff) (metis Suc_pred card_gt_0_iff empty_iff)
    then show ?thesis
      using finished_eq [OF assms] i(2,3,6,7) head k'
      by (auto simp: sched_inv_def sched_wf_def)
  qed
qed

section \<open>The interface the router relies on\<close>

text \<open>Finishing a list of running keys one after another; \<open>None\<close> if one of them is not running.\<close>

fun complete_all ::
  "('s \<Rightarrow> 'k set) \<Rightarrow> ('s \<Rightarrow> 'k \<Rightarrow> 's \<times> 'j list) \<Rightarrow> 's \<Rightarrow> 'k list \<Rightarrow> ('s \<times> 'j list) option"
where
  "complete_all running complete s [] = Some (s, [])"
| "complete_all running complete s (k # ks) =
     (if k \<in> running s then
        map_option (\<lambda>(t, js). (t, snd (complete s k) @ js))
          (complete_all running complete (fst (complete s k)) ks)
      else None)"

text \<open>
  A pool of keyed sends: at most \<open>capacity\<close> keys run, a job for a busy pool or a busy key is
  pending under its key, and completing a key hands at most one pending job over to running.
\<close>

locale send_pool =
  fixes inv :: "'s \<Rightarrow> bool"
    and running :: "'s \<Rightarrow> 'k set"
    and pending :: "'s \<Rightarrow> 'k \<rightharpoonup> 'j"
    and keyof :: "'j \<Rightarrow> 'k"
    and put :: "'s \<Rightarrow> 'j \<Rightarrow> 's \<times> 'j option"
    and complete :: "'s \<Rightarrow> 'k \<Rightarrow> 's \<times> 'j list"
    and capacity :: nat
  assumes finite_running: "inv s \<Longrightarrow> finite (running s)"
    and running_capacity: "inv s \<Longrightarrow> card (running s) \<le> capacity"
    and finite_pending: "inv s \<Longrightarrow> finite (dom (pending s))"
    and pending_key: "inv s \<Longrightarrow> pending s k = Some j \<Longrightarrow> keyof j = k"
    and idle: "inv s \<Longrightarrow> running s = {} \<Longrightarrow> pending s = Map.empty"
    and put_inv: "inv s \<Longrightarrow> inv (fst (put s j))"
    and put_started: "inv s \<Longrightarrow> snd (put s j) = Some j' \<Longrightarrow> j' = j \<and> keyof j \<notin> running s \<and>
      running (fst (put s j)) = insert (keyof j) (running s) \<and> pending (fst (put s j)) = pending s"
    and put_waits: "inv s \<Longrightarrow> snd (put s j) = None \<Longrightarrow> running (fst (put s j)) = running s \<and>
      pending (fst (put s j)) = (pending s)(keyof j \<mapsto> j)"
    and complete_inv: "inv s \<Longrightarrow> k \<in> running s \<Longrightarrow> inv (fst (complete s k))"
    and complete_none: "inv s \<Longrightarrow> k \<in> running s \<Longrightarrow> snd (complete s k) = [] \<Longrightarrow>
      pending s k = None \<and> running (fst (complete s k)) = running s - {k} \<and>
      pending (fst (complete s k)) = pending s"
    and complete_one: "inv s \<Longrightarrow> k \<in> running s \<Longrightarrow> snd (complete s k) \<noteq> [] \<Longrightarrow>
      \<exists>j. snd (complete s k) = [j] \<and> pending s (keyof j) = Some j \<and> keyof j \<notin> running s - {k} \<and>
        running (fst (complete s k)) = insert (keyof j) (running s - {k}) \<and>
        pending (fst (complete s k)) = (pending s)(keyof j := None)"
    and complete_own: "inv s \<Longrightarrow> k \<in> running s \<Longrightarrow> pending s k = Some j \<Longrightarrow> snd (complete s k) = [j]"
begin

definition load :: "'s \<Rightarrow> nat" where
  "load s = card (running s) + card (dom (pending s))"

lemma complete_load:
  assumes "inv s" "k \<in> running s"
  shows "Suc (load (fst (complete s k))) = load s"
proof (cases "snd (complete s k) = []")
  case True
  with complete_none [OF assms] finite_running [OF assms(1)] assms(2) show ?thesis
    unfolding load_def by (metis add_Suc card_Suc_Diff1)
next
  case False
  from complete_one [OF assms this] obtain j where j: "pending s (keyof j) = Some j"
    "keyof j \<notin> running s - {k}" "running (fst (complete s k)) = insert (keyof j) (running s - {k})"
    "pending (fst (complete s k)) = (pending s)(keyof j := None)"
    by blast
  have "card (running (fst (complete s k))) = card (running s)"
    using j(2,3) finite_running [OF assms(1)] assms(2) by (metis card.remove card_insert_disjoint finite_Diff)
  moreover have "Suc (card (dom (pending (fst (complete s k))))) = card (dom (pending s))"
    using j(1,4) finite_pending [OF assms(1)] by (metis card_Suc_Diff1 domI dom_fun_upd)
  ultimately show ?thesis
    by (simp add: load_def)
qed

text \<open>Keys in a list of jobs, and the pending map without them.\<close>

lemma complete_all_pending:
  assumes "inv s" "complete_all running complete s ks = Some (t, js)"
  shows "inv t \<and> length ks + load t = load s \<and> distinct (map keyof js) \<and>
    (\<forall>j \<in> set js. pending s (keyof j) = Some j) \<and> pending t = pending s |` (- keyof ` set js)"
  using assms
proof (induction ks arbitrary: s js)
  case Nil
  then show ?case by simp
next
  case (Cons k ks)
  from Cons.prems(2) obtain js' where k: "k \<in> running s"
    and rec: "complete_all running complete (fst (complete s k)) ks = Some (t, js')"
    and js: "js = snd (complete s k) @ js'"
    by (auto split: if_split_asm)
  let ?s = "fst (complete s k)"
  note IH = Cons.IH [OF complete_inv [OF Cons.prems(1) k] rec]
  have load: "length (k # ks) + load t = load s"
    using IH complete_load [OF Cons.prems(1) k] by simp
  show ?case
  proof (cases "snd (complete s k) = []")
    case True
    with complete_none [OF Cons.prems(1) k] IH load js show ?thesis by simp
  next
    case False
    from complete_one [OF Cons.prems(1) k this] obtain j where j: "snd (complete s k) = [j]"
      "pending s (keyof j) = Some j" "pending ?s = (pending s)(keyof j := None)"
      by blast
    have fresh: "\<forall>j' \<in> set js'. keyof j' \<noteq> keyof j \<and> pending s (keyof j') = Some j'"
      using IH unfolding j(3) by (metis fun_upd_apply option.distinct(1))
    have "pending t = pending s |` (- keyof ` set js)"
      using IH unfolding j(3) js j(1) by (auto simp: restrict_map_def fun_eq_iff)
    moreover have "distinct (map keyof js)"
    proof -
      have "distinct (map keyof js')" "keyof j \<notin> keyof ` set js'"
        using IH fresh by (blast, force)
      then show ?thesis by (simp add: js j(1))
    qed
    moreover have "\<forall>j' \<in> set js. pending s (keyof j') = Some j'"
      using fresh j(2) by (simp add: js j(1))
    ultimately show ?thesis
      using IH load by blast
  qed
qed

lemma drained:
  assumes "inv s" "complete_all running complete s ks = Some (t, js)" "running t = {}"
  shows "set js = ran (pending s) \<and> distinct (map keyof js)"
proof -
  note c = complete_all_pending [OF assms(1,2)]
  have "pending t = Map.empty"
    using idle c assms(3) by blast
  then have "dom (pending s) \<subseteq> keyof ` set js"
    using c by (auto simp: restrict_map_def fun_eq_iff split: if_split_asm)
  then have "j \<in> set js" if "pending s k = Some j" for k j
    using c that pending_key [OF assms(1)] by (metis domI image_iff option.inject subsetD)
  then show ?thesis
    using c by (auto simp: ran_def)
qed

lemma put_all_running:
  assumes "inv s" "k \<in> running s"
  shows "inv (foldl (\<lambda>s j. fst (put s j)) s js) \<and> k \<in> running (foldl (\<lambda>s j. fst (put s j)) s js) \<and>
    pending (foldl (\<lambda>s j. fst (put s j)) s js) k =
      (case rev (filter (\<lambda>j. keyof j = k) js) of [] \<Rightarrow> pending s k | j # _ \<Rightarrow> Some j)"
  using assms
proof (induction js rule: rev_induct)
  case Nil
  then show ?case by simp
next
  case (snoc j js)
  let ?s = "foldl (\<lambda>s j. fst (put s j)) s js"
  note IH = snoc.IH [OF snoc.prems]
  show ?case
  proof (cases "snd (put ?s j)")
    case None
    with put_waits [of ?s j] put_inv [of ?s j] IH show ?thesis by simp
  next
    case (Some j')
    with put_started [of ?s j j'] put_inv [of ?s j] IH have "keyof j \<noteq> k" by auto
    with Some put_started [of ?s j j'] put_inv [of ?s j] IH show ?thesis by simp
  qed
qed

lemma newest_starts:
  assumes "inv s" "k \<in> running s" "\<exists>j \<in> set js. keyof j = k"
  shows "snd (complete (foldl (\<lambda>s j. fst (put s j)) s js) k) = [last (filter (\<lambda>j. keyof j = k) js)]"
proof -
  note c = put_all_running [OF assms(1,2), of js]
  have "filter (\<lambda>j. keyof j = k) js \<noteq> []"
    using assms(3) by (auto simp: filter_empty_conv)
  then obtain ys y where "filter (\<lambda>j. keyof j = k) js = ys @ [y]"
    by (metis rev_exhaust)
  then show ?thesis
    using c complete_own by simp
qed

end

lemma sched_idle:
  assumes "sched_inv s" "in_flight s = {}"
  shows "waiting s = Map.empty"
proof -
  have "order s = []"
    using sched_invD(7) [OF assms(1)] assms(2) by (auto simp: SEND_PERMITS_def)
  with sched_invD(5) [OF assms(1)] assms(2) show ?thesis
    by (simp add: dom_def fun_eq_iff)
qed

lemma sched_finite_waiting: "sched_inv s \<Longrightarrow> finite (dom (waiting s))"
proof -
  assume s: "sched_inv s"
  have "dom (waiting s) \<subseteq> in_flight s \<union> set (order s)"
    using sched_invD(5) [OF s] by auto
  then show "finite (dom (waiting s))"
    by (rule finite_subset) (simp add: sched_invD(2) [OF s])
qed

lemma enqueue_started:
  "snd (enqueue s j) = Some j' \<Longrightarrow> j' = j \<and> job_key j \<notin> in_flight s \<and>
    in_flight (fst (enqueue s j)) = insert (job_key j) (in_flight s) \<and>
    waiting (fst (enqueue s j)) = waiting s"
  by (auto simp: enqueue_def Let_def split: if_split_asm)

lemma enqueue_waits:
  "snd (enqueue s j) = None \<Longrightarrow> in_flight (fst (enqueue s j)) = in_flight s \<and>
    waiting (fst (enqueue s j)) = (waiting s)(job_key j \<mapsto> j)"
  by (auto simp: enqueue_def Let_def split: if_split_asm)

lemma finished_none:
  assumes "sched_inv s" "k \<in> in_flight s" "snd (finished s k) = []"
  shows "waiting s k = None \<and> in_flight (fst (finished s k)) = in_flight s - {k} \<and>
    waiting (fst (finished s k)) = waiting s"
  using assms(3) unfolding finished_eq [OF assms(1,2)]
  by (auto split: option.splits list.splits)

lemma finished_one:
  assumes "sched_inv s" "k \<in> in_flight s" "snd (finished s k) \<noteq> []"
  shows "\<exists>j. snd (finished s k) = [j] \<and> waiting s (job_key j) = Some j \<and>
    job_key j \<notin> in_flight s - {k} \<and>
    in_flight (fst (finished s k)) = insert (job_key j) (in_flight s - {k}) \<and>
    waiting (fst (finished s k)) = (waiting s)(job_key j := None)"
proof (cases "waiting s k")
  case (Some j)
  then show ?thesis
    using sched_invD(6) [OF assms(1) Some] assms(2) by (simp add: finished_eq [OF assms(1,2)] insert_absorb)
next
  case None
  with assms(3) obtain k' rest where order: "order s = k' # rest"
    unfolding finished_eq [OF assms(1,2)] by (auto split: list.splits)
  then obtain j where j: "waiting s k' = Some j" "k' \<notin> in_flight s"
    using sched_invD(5) [OF assms(1)] by auto
  then show ?thesis
    using None order sched_invD(6) [OF assms(1) j(1)] by (simp add: finished_eq [OF assms(1,2)])
qed

interpretation pool: send_pool sched_inv in_flight waiting job_key enqueue finished SEND_PERMITS
proof unfold_locales
  show "sched_inv s \<Longrightarrow> k \<in> in_flight s \<Longrightarrow> waiting s k = Some j \<Longrightarrow> snd (finished s k) = [j]" for s k j
    by (simp add: finished_eq)
qed (fact sched_invD(2) sched_invD(3) sched_finite_waiting sched_invD(6) sched_idle enqueue_inv
      finished_inv finished_none finished_one | rule enqueue_started enqueue_waits, assumption)+

section \<open>Runs of the scheduler\<close>

text \<open>Any order of the four operations; a finished key is one that was in flight.\<close>

inductive sched_step :: "scheduler \<Rightarrow> scheduler \<Rightarrow> bool" where
  step_enqueue: "sched_step s (fst (enqueue s j))"
| step_finished: "k \<in> in_flight s \<Longrightarrow> sched_step s (fst (finished s k))"
| step_drop_account: "sched_step s (drop_account s account_id)"
| step_drop_room: "sched_step s (drop_room s account_id room_id)"

interpretation sched: inv_system "\<lambda>s. s = scheduler_new" sched_step sched_inv
proof unfold_locales
  show "s = scheduler_new \<Longrightarrow> sched_inv s" for s
    by (simp add: scheduler_new_inv)
  show "sched_inv s \<Longrightarrow> sched_step s t \<Longrightarrow> sched_inv t" for s t
    by (elim sched_step.cases)
      (simp_all add: enqueue_inv finished_inv retain_waiting_inv drop_account_def drop_room_def)
qed

section \<open>Properties\<close>

text \<open>In every state the scheduler reaches, at most four sends run; a job waits under its own key,
  and only because a send with that key is running or because all four permits are taken; and
  every waiting job is reachable, through its running key or through the queue, which holds no
  key twice.\<close>

theorem push_sched_bounds:
  assumes "sched_step\<^sup>*\<^sup>* scheduler_new s"
  shows "finite (in_flight s) \<and> card (in_flight s) \<le> 4 \<and> distinct (order s) \<and>
    (\<forall>k j. waiting s k = Some j \<longrightarrow> job_key j = k \<and> (k \<in> in_flight s \<or> k \<in> set (order s) \<and> card (in_flight s) = 4))"
proof -
  note i = sched_invD [OF sched.reach_inv [OF refl assms]]
  have "job_key j = k \<and> (k \<in> in_flight s \<or> k \<in> set (order s) \<and> card (in_flight s) = 4)"
    if "waiting s k = Some j" for k j
  proof (cases "k \<in> in_flight s")
    case True
    with i(6) that show ?thesis by blast
  next
    case False
    then have k: "k \<in> set (order s)"
      using i(5) that by auto
    then have "order s \<noteq> []" by auto
    with i(6,7) that k show ?thesis by (auto simp: SEND_PERMITS_def)
  qed
  with i(2,3,4) show ?thesis by (simp add: SEND_PERMITS_def)
qed

definition demo_target :: "nat \<Rightarrow> push_target" where
  "demo_target n = \<lparr>pt_id = n, pt_provider = lit ''fcm'', pt_token = lit ''t'', pt_environment = None,
     pt_disclosure = lit ''activity'', pt_badge = False, pt_updated_at = 0\<rparr>"

definition demo_job :: "nat \<Rightarrow> uuid \<Rightarrow> job" where
  "demo_job n account = \<lparr>job_target = demo_target n, job_work = RoomRead account (lit ''!r'')\<rparr>"

definition demo_busy :: scheduler where
  "demo_busy = fst (enqueue scheduler_new (demo_job 1 7))"

lemma demo_busy_reachable: "sched_step\<^sup>*\<^sup>* scheduler_new demo_busy"
  unfolding demo_busy_def by (rule r_into_rtranclp) (rule step_enqueue)

lemma demo_busy_in_flight: "in_flight demo_busy = {RoomKey 7 1 (lit ''!r'')}"
  by (simp add: demo_busy_def enqueue_def scheduler_new_def SEND_PERMITS_def job_key_def job_room_def
      demo_job_def demo_target_def)

theorem push_sched_bounds_witness: "card (in_flight demo_busy) \<le> 4 \<and> card (in_flight demo_busy) = 1"
  using push_sched_bounds [OF demo_busy_reachable] by (simp add: demo_busy_in_flight)

text \<open>Two sends never run for one key. A job that \<^verbatim>\<open>enqueue\<close> starts is the job it was given, and
  no send with its key was in flight; \<^verbatim>\<open>finished\<close> starts at most one job, one that was waiting,
  whose key is the finished one or was not in flight; and the in-flight set is exactly the keys
  of what runs afterwards.\<close>

theorem push_sched_exclusive:
  assumes "sched_step\<^sup>*\<^sup>* scheduler_new s" "k \<in> in_flight s"
  shows "(case enqueue s j of
       (t, Some j') \<Rightarrow> j' = j \<and> job_key j \<notin> in_flight s \<and> in_flight t = insert (job_key j) (in_flight s)
     | (t, None) \<Rightarrow> in_flight t = in_flight s \<and> waiting t = (waiting s)(job_key j \<mapsto> j)) \<and>
    (case finished s k of
         (t, []) \<Rightarrow> in_flight t = in_flight s - {k} \<and> waiting t = waiting s
       | (t, [j']) \<Rightarrow> waiting s (job_key j') = Some j' \<and> job_key j' \<notin> in_flight s - {k} \<and>
           in_flight t = insert (job_key j') (in_flight s - {k}) \<and> waiting t = (waiting s)(job_key j' := None)
       | (t, _) \<Rightarrow> False)"
proof
  note i = sched.reach_inv [OF refl assms(1)]
  show "case enqueue s j of
       (t, Some j') \<Rightarrow> j' = j \<and> job_key j \<notin> in_flight s \<and> in_flight t = insert (job_key j) (in_flight s)
     | (t, None) \<Rightarrow> in_flight t = in_flight s \<and> waiting t = (waiting s)(job_key j \<mapsto> j)"
    using enqueue_started [of s j] enqueue_waits [of s j] by (cases "enqueue s j") (auto split: option.splits)
  show "case finished s k of
         (t, []) \<Rightarrow> in_flight t = in_flight s - {k} \<and> waiting t = waiting s
       | (t, [j']) \<Rightarrow> waiting s (job_key j') = Some j' \<and> job_key j' \<notin> in_flight s - {k} \<and>
           in_flight t = insert (job_key j') (in_flight s - {k}) \<and> waiting t = (waiting s)(job_key j' := None)
       | (t, _) \<Rightarrow> False"
    using finished_none [OF i assms(2)] finished_one [OF i assms(2)]
    by (cases "finished s k") (auto split: list.splits)
qed

lemma demo_busy_waiting: "waiting demo_busy = Map.empty"
  by (simp add: demo_busy_def enqueue_def scheduler_new_def SEND_PERMITS_def)

theorem push_sched_exclusive_witness:
  "snd (finished demo_busy (RoomKey 7 1 (lit ''!r''))) = [] \<and>
   in_flight (fst (finished demo_busy (RoomKey 7 1 (lit ''!r'')))) = {}"
  using push_sched_exclusive [OF demo_busy_reachable, of "RoomKey 7 1 (lit ''!r'')" "demo_job 1 7"]
  by (cases "finished demo_busy (RoomKey 7 1 (lit ''!r''))")
    (auto simp: demo_busy_in_flight demo_busy_waiting split: list.splits)

text \<open>Nothing that waits is lost. When running sends finish one after another and no new job
  arrives, every finish lowers the number of running and waiting sends by one, so after that
  many finishes nothing is running; and by the time nothing is running, the jobs started on the
  way are exactly the jobs that were waiting, each once.\<close>

theorem push_sched_drains:
  assumes "sched_step\<^sup>*\<^sup>* scheduler_new s"
    "complete_all in_flight finished s ks = Some (t, js)"
  shows "length ks + (card (in_flight t) + card (dom (waiting t))) =
      card (in_flight s) + card (dom (waiting s)) \<and>
    (in_flight t = {} \<longrightarrow> waiting t = Map.empty \<and> set js = ran (waiting s) \<and> distinct (map job_key js))"
proof -
  note i = sched.reach_inv [OF refl assms(1)]
  note c = pool.complete_all_pending [OF i assms(2), unfolded pool.load_def]
  then show ?thesis
    using pool.drained [OF i assms(2)] sched_idle by blast
qed

definition demo_full :: scheduler where
  "demo_full = fst (enqueue demo_busy (demo_job 1 7))"

lemma demo_full_eq: "demo_full = demo_busy\<lparr>waiting := [RoomKey 7 1 (lit ''!r'') \<mapsto> demo_job 1 7]\<rparr>"
  by (simp add: demo_full_def enqueue_def demo_busy_in_flight demo_busy_waiting job_key_def job_room_def
      demo_job_def demo_target_def)

theorem push_sched_drains_witness:
  "\<exists>t. complete_all in_flight finished demo_full [RoomKey 7 1 (lit ''!r''), RoomKey 7 1 (lit ''!r'')] =
      Some (t, [demo_job 1 7]) \<and> in_flight t = {} \<and> waiting t = Map.empty \<and> {demo_job 1 7} = ran (waiting demo_full)"
proof -
  let ?k = "RoomKey 7 1 (lit ''!r'')"
  have reach: "sched_step\<^sup>*\<^sup>* scheduler_new demo_full"
    unfolding demo_full_def
    by (rule rtranclp.rtrancl_into_rtrancl [OF demo_busy_reachable step_enqueue])
  have busy: "demo_busy = \<lparr>in_flight = {?k}, waiting = Map.empty, order = []\<rparr>"
    by (simp add: demo_busy_def enqueue_def scheduler_new_def SEND_PERMITS_def job_key_def job_room_def
        demo_job_def demo_target_def)
  have w: "[?k \<mapsto> demo_job 1 7](?k := None) = Map.empty"
    by (simp add: fun_eq_iff)
  have f1: "finished demo_full ?k = (demo_busy, [demo_job 1 7])"
    using finished_eq [OF sched.reach_inv [OF refl reach], of ?k]
    unfolding demo_full_eq busy by (simp only: scheduler.simps w) simp
  have f2: "finished demo_busy ?k = (demo_busy\<lparr>in_flight := {}\<rparr>, [])"
    using finished_eq [OF sched.reach_inv [OF refl demo_busy_reachable], of ?k]
    unfolding busy by simp
  have c: "complete_all in_flight finished demo_full [?k, ?k] =
      Some (demo_busy\<lparr>in_flight := {}\<rparr>, [demo_job 1 7])"
    using f1 f2 by (simp add: demo_full_eq demo_busy_in_flight)
  from push_sched_drains [OF reach c] c show ?thesis by auto
qed

text \<open>The newest job for a key replaces the one waiting. Whatever jobs are enqueued while a send
  is running for a key, when that send finishes the next one started for it is the last of them
  with that key, ahead of every queued key.\<close>

theorem push_sched_newest_wins:
  assumes "sched_step\<^sup>*\<^sup>* scheduler_new s" "k \<in> in_flight s" "\<exists>j \<in> set js. job_key j = k"
  shows "snd (finished (foldl (\<lambda>s j. fst (enqueue s j)) s js) k) = [last (filter (\<lambda>j. job_key j = k) js)]"
  by (rule pool.newest_starts [OF sched.reach_inv [OF refl assms(1)] assms(2,3)])

theorem push_sched_newest_wins_witness:
  "snd (finished (foldl (\<lambda>s j. fst (enqueue s j)) demo_busy
      [demo_job 1 7, demo_job 2 7, (demo_job 1 7)\<lparr>job_work := Alert 7 (lit ''!r'') demo_message 0\<rparr>, demo_job 3 7])
      (RoomKey 7 1 (lit ''!r''))) = [(demo_job 1 7)\<lparr>job_work := Alert 7 (lit ''!r'') demo_message 0\<rparr>]"
  by (subst push_sched_newest_wins [OF demo_busy_reachable])
    (simp_all add: demo_busy_in_flight job_key_def job_room_def demo_job_def demo_target_def)

end
