(* ===== verification/Push_Router.thy ===== *)
theory Push_Router
  imports Push_Scheduler Push_Decision "HOL-Library.Multiset"
begin

text \<open>
  The push router: \<^verbatim>\<open>Observation\<close>, \<^verbatim>\<open>Control\<close>, \<^verbatim>\<open>PushIngress\<close>, \<^verbatim>\<open>Memory\<close>, \<^verbatim>\<open>decide_loop\<close>,
  \<^verbatim>\<open>apply_control\<close>, \<^verbatim>\<open>apply_observation\<close>, \<^verbatim>\<open>jobs_for\<close>, \<^verbatim>\<open>start_job\<close> and \<^verbatim>\<open>Finish\<close> of
  \<^verbatim>\<open>crates/axon-sync/src/push/router.rs\<close>, and the banner cells of
  \<^verbatim>\<open>crates/axon-sync/src/push/deliver.rs\<close> that an alert allocates.

  One record holds the whole router: the channel, the control block, the registration snapshot,
  the loop's own state and the sends it has spawned. A \<^verbatim>\<open>CancellationToken\<close> is a number;
  \<open>ro_cancelled\<close> holds the cancelled ones. Draining a \<^verbatim>\<open>HashSet\<close> yields its elements in some
  order, so \<open>apply_control\<close> takes the drained lists and the step relation allows every order.
\<close>

section \<open>Data\<close>

definition SLOT_TTL :: duration where
  "SLOT_TTL = from_secs 300"

definition OBSERVATION_CAPACITY :: nat where
  "OBSERVATION_CAPACITY = 64"

record observation =
  ob_account_id :: uuid
  ob_room_id :: rstr
  ob_after :: "count_pair option"
  ob_messages :: "push_message list"

record control =
  ct_notified :: bool
  ct_drop_accounts :: "uuid set"
  ct_drop_rooms :: "(uuid \<times> rstr) set"
  ct_unseed_accounts :: "uuid set"
  ct_finished :: "flight_key list"

definition control_new :: control where
  "control_new = \<lparr>ct_notified = False, ct_drop_accounts = {}, ct_drop_rooms = {},
     ct_unseed_accounts = {}, ct_finished = []\<rparr>"

record 'a stamped =
  st_value :: 'a
  st_at :: instant

record memory =
  me_seeded :: bool
  me_pair :: count_pair
  me_slot :: "push_message stamped option"
  me_unpaired :: "count_pair stamped option"

definition memory_unseeded :: "count_pair \<Rightarrow> memory" where
  "memory_unseeded pair = \<lparr>me_seeded = False, me_pair = pair, me_slot = None, me_unpaired = None\<rparr>"

definition stale :: "instant \<Rightarrow> 'a stamped \<Rightarrow> bool" where
  "stale now x \<longleftrightarrow> SLOT_TTL \<le> saturating_duration_since now (st_at x)"

definition expire_cell :: "instant \<Rightarrow> 'a stamped option \<Rightarrow> 'a stamped option" where
  "expire_cell now c = (case c of Some x \<Rightarrow> if stale now x then None else c | None \<Rightarrow> c)"

definition expire :: "instant \<Rightarrow> memory \<Rightarrow> memory" where
  "expire now m = m\<lparr>me_slot := expire_cell now (me_slot m), me_unpaired := expire_cell now (me_unpaired m)\<rparr>"

text \<open>\<^verbatim>\<open>SharedBanner\<close>: what it was made with, and its two \<^verbatim>\<open>OnceCell\<close>s.\<close>

record shared_banner =
  sb_account_id :: uuid
  sb_room_id :: rstr
  sb_sender :: rstr
  sb_once :: "(rstr option \<times> rstr) option"
  sb_badge :: "nat option"

definition banner_new :: "uuid \<Rightarrow> rstr \<Rightarrow> rstr \<Rightarrow> shared_banner" where
  "banner_new account_id room_id sender =
     \<lparr>sb_account_id = account_id, sb_room_id = room_id, sb_sender = sender, sb_once = None, sb_badge = None\<rparr>"

type_synonym cancel_token = nat

record router =
  ro_live :: bool
  ro_shutdown :: bool
  ro_queue :: "observation list"
  ro_control :: control
  ro_snapshot :: "push_target list"
  ro_rooms :: "uuid \<times> rstr \<rightharpoonup> memory"
  ro_scheduler :: scheduler
  ro_account_cancels :: "uuid \<rightharpoonup> cancel_token"
  ro_next_token :: cancel_token
  ro_cancelled :: "cancel_token set"
  ro_banners :: "banner_ref \<rightharpoonup> shared_banner"
  ro_next_banner :: banner_ref
  ro_sends :: "(job \<times> cancel_token) list"

definition router_new :: router where
  "router_new = \<lparr>ro_live = True, ro_shutdown = False, ro_queue = [], ro_control = control_new,
     ro_snapshot = [], ro_rooms = Map.empty, ro_scheduler = scheduler_new,
     ro_account_cancels = Map.empty, ro_next_token = 0, ro_cancelled = {},
     ro_banners = Map.empty, ro_next_banner = 0, ro_sends = []\<rparr>"

section \<open>Ingress\<close>

definition ingress_observe :: "observation \<Rightarrow> router \<Rightarrow> router" where
  "ingress_observe ob r =
     (if \<not> ro_live r then r
      else if ro_shutdown r then r
      else if OBSERVATION_CAPACITY \<le> length (ro_queue r) then r
      else r\<lparr>ro_queue := ro_queue r @ [ob]\<rparr>)"

definition account_removed :: "uuid \<Rightarrow> router \<Rightarrow> router" where
  "account_removed account_id r =
     (if \<not> ro_live r then r
      else r\<lparr>ro_control := (ro_control r)\<lparr>ct_notified := True,
             ct_drop_accounts := insert account_id (ct_drop_accounts (ro_control r))\<rparr>\<rparr>)"

definition room_dropped :: "uuid \<Rightarrow> rstr \<Rightarrow> router \<Rightarrow> router" where
  "room_dropped account_id room_id r =
     (if \<not> ro_live r then r
      else r\<lparr>ro_control := (ro_control r)\<lparr>ct_notified := True,
             ct_drop_rooms := insert (account_id, room_id) (ct_drop_rooms (ro_control r))\<rparr>\<rparr>)"

definition unseed_account :: "uuid \<Rightarrow> router \<Rightarrow> router" where
  "unseed_account account_id r =
     (if \<not> ro_live r then r
      else r\<lparr>ro_control := (ro_control r)\<lparr>ct_notified := True,
             ct_unseed_accounts := insert account_id (ct_unseed_accounts (ro_control r))\<rparr>\<rparr>)"

text \<open>\<^verbatim>\<open>load_snapshot\<close>: \<open>None\<close> is a failed read, which keeps the snapshot.\<close>

definition load_snapshot :: "push_target list option \<Rightarrow> router \<Rightarrow> router" where
  "load_snapshot result r = (case result of Some targets \<Rightarrow> r\<lparr>ro_snapshot := targets\<rparr> | None \<Rightarrow> r)"

section \<open>The loop\<close>

definition jobs_for ::
  "observation \<Rightarrow> push_message option \<Rightarrow> nat option \<Rightarrow> push_target list \<Rightarrow> banner_ref \<Rightarrow> job list"
where
  "jobs_for ob send notification_fell_to targets banner =
     (case send of
        Some message \<Rightarrow>
          map (\<lambda>target. \<lparr>job_target = target,
            job_work = Alert (ob_account_id ob) (ob_room_id ob) message banner\<rparr>) targets
      | None \<Rightarrow>
          (case notification_fell_to of
             None \<Rightarrow> []
           | Some unread \<Rightarrow>
               List.map_filter (\<lambda>target.
                 if pt_provider target = lit ''apns'' \<and> pt_badge target
                 then Some \<lparr>job_target = target, job_work = Badge\<rparr>
                 else if pt_provider target = lit ''fcm'' \<and> unread = 0
                 then Some \<lparr>job_target = target, job_work = RoomRead (ob_account_id ob) (ob_room_id ob)\<rparr>
                 else None) targets))"

definition start_job :: "job \<Rightarrow> router \<Rightarrow> router" where
  "start_job j r =
     (case job_room j of
        Some (account_id, _) \<Rightarrow>
          (case ro_account_cancels r account_id of
             Some token \<Rightarrow> r\<lparr>ro_sends := ro_sends r @ [(j, token)]\<rparr>
           | None \<Rightarrow>
               r\<lparr>ro_account_cancels := (ro_account_cancels r)(account_id \<mapsto> ro_next_token r),
                 ro_next_token := ro_next_token r + 1,
                 ro_sends := ro_sends r @ [(j, ro_next_token r)]\<rparr>)
      | None \<Rightarrow>
          r\<lparr>ro_next_token := ro_next_token r + 1, ro_sends := ro_sends r @ [(j, ro_next_token r)]\<rparr>)"

definition enqueue_start :: "job \<Rightarrow> router \<Rightarrow> router" where
  "enqueue_start j r =
     (case enqueue (ro_scheduler r) j of
        (s, Some started) \<Rightarrow> start_job started (r\<lparr>ro_scheduler := s\<rparr>)
      | (s, None) \<Rightarrow> r\<lparr>ro_scheduler := s\<rparr>)"

text \<open>The stamp of a value that was already held is kept.\<close>

definition restamp :: "instant \<Rightarrow> 'a stamped option \<Rightarrow> 'a option \<Rightarrow> 'a stamped option" where
  "restamp now previous new =
     map_option (\<lambda>v. \<lparr>st_value = v,
       st_at = (case previous of Some p \<Rightarrow> if st_value p = v then st_at p else now | None \<Rightarrow> now)\<rparr>) new"

definition memory_state :: "memory \<Rightarrow> room_state" where
  "memory_state m = \<lparr>rs_seeded = me_seeded m, rs_pair = me_pair m,
     rs_slot = map_option st_value (me_slot m), rs_unpaired = map_option st_value (me_unpaired m)\<rparr>"

definition observe_memory ::
  "instant \<Rightarrow> count_pair option \<Rightarrow> push_message list \<Rightarrow> memory \<Rightarrow> memory \<times> decision"
where
  "observe_memory now after messages m0 =
     (let m = expire now m0;
          d = decide (memory_state m) after messages
      in (\<lparr>me_seeded = rs_seeded (de_state d), me_pair = rs_pair (de_state d),
           me_slot = restamp now (me_slot m) (rs_slot (de_state d)),
           me_unpaired = restamp now (me_unpaired m) (rs_unpaired (de_state d))\<rparr>, d))"

definition apply_observation :: "instant \<Rightarrow> observation \<Rightarrow> router \<Rightarrow> router" where
  "apply_observation now ob r =
     (let key = (ob_account_id ob, ob_room_id ob);
          m0 = (case ro_rooms r key of Some m \<Rightarrow> m | None \<Rightarrow> memory_unseeded (0, 0));
          (m, d) = observe_memory now (ob_after ob) (ob_messages ob) m0;
          banner = ro_next_banner r;
          r1 = r\<lparr>ro_rooms := (ro_rooms r)(key \<mapsto> m)\<rparr>;
          r2 = (case de_send d of
                  Some message \<Rightarrow>
                    r1\<lparr>ro_banners := (ro_banners r1)(banner \<mapsto>
                         banner_new (ob_account_id ob) (ob_room_id ob) (ms_sender message)),
                       ro_next_banner := banner + 1\<rparr>
                | None \<Rightarrow> r1)
      in fold enqueue_start
           (jobs_for ob (de_send d) (de_notification_fell_to d) (ro_snapshot r) banner) r2)"

definition expire_tick :: "instant \<Rightarrow> router \<Rightarrow> router" where
  "expire_tick now r = r\<lparr>ro_rooms := (\<lambda>k. map_option (expire now) (ro_rooms r k))\<rparr>"

definition control_drop_account :: "uuid \<Rightarrow> router \<Rightarrow> router" where
  "control_drop_account account_id r =
     (let r1 = r\<lparr>ro_rooms := (\<lambda>k. if fst k = account_id then None else ro_rooms r k),
                 ro_scheduler := drop_account (ro_scheduler r) account_id\<rparr>
      in case ro_account_cancels r1 account_id of
           Some token \<Rightarrow> r1\<lparr>ro_account_cancels := (ro_account_cancels r1)(account_id := None),
                           ro_cancelled := insert token (ro_cancelled r1)\<rparr>
         | None \<Rightarrow> r1)"

definition control_drop_room :: "uuid \<times> rstr \<Rightarrow> router \<Rightarrow> router" where
  "control_drop_room k r =
     r\<lparr>ro_rooms := (ro_rooms r)(k := None), ro_scheduler := drop_room (ro_scheduler r) (fst k) (snd k)\<rparr>"

definition control_unseed :: "uuid \<Rightarrow> router \<Rightarrow> router" where
  "control_unseed account_id r =
     r\<lparr>ro_rooms := (\<lambda>k. map_option
         (\<lambda>m. if fst k = account_id then m\<lparr>me_seeded := False, me_unpaired := None\<rparr> else m) (ro_rooms r k))\<rparr>"

definition control_finished :: "flight_key \<Rightarrow> router \<Rightarrow> router" where
  "control_finished key r =
     (let (s, start) = finished (ro_scheduler r) key
      in fold start_job start (r\<lparr>ro_scheduler := s\<rparr>))"

definition apply_control ::
  "uuid list \<Rightarrow> (uuid \<times> rstr) list \<Rightarrow> uuid list \<Rightarrow> router \<Rightarrow> router"
where
  "apply_control dropped_accounts dropped_rooms unseeds r =
     (let fin = ct_finished (ro_control r);
          r0 = r\<lparr>ro_control := control_new\<rparr>;
          r1 = fold control_drop_account dropped_accounts r0;
          r2 = fold control_drop_room dropped_rooms r1;
          r3 = fold control_unseed unseeds r2
      in fold control_finished fin r3)"

text \<open>
  \<^verbatim>\<open>Finish::drop\<close>, at the end of \<^verbatim>\<open>run_send\<close>: whether the send completed or was cancelled, its key
  is reported and the loop is notified.
\<close>

definition finish_drop :: "job \<times> cancel_token \<Rightarrow> router \<Rightarrow> router" where
  "finish_drop send r =
     r\<lparr>ro_sends := remove1 send (ro_sends r),
       ro_control := (ro_control r)\<lparr>ct_notified := True,
         ct_finished := ct_finished (ro_control r) @ [job_key (fst send)]\<rparr>\<rparr>"

text \<open>
  One step of the system: an ingress call, a snapshot reload, a branch of the loop's
  \<^verbatim>\<open>select!\<close>, or the end of a send.
\<close>

inductive router_step :: "router \<Rightarrow> router \<Rightarrow> bool" where
  rs_observe: "router_step r (ingress_observe ob r)"
| rs_account_removed: "router_step r (account_removed account_id r)"
| rs_room_dropped: "router_step r (room_dropped account_id room_id r)"
| rs_unseed: "router_step r (unseed_account account_id r)"
| rs_reload: "router_step r (load_snapshot result r)"
| rs_control: "\<not> ro_shutdown r \<Longrightarrow> ct_notified (ro_control r) \<Longrightarrow>
    set accounts = ct_drop_accounts (ro_control r) \<Longrightarrow> set rooms = ct_drop_rooms (ro_control r) \<Longrightarrow>
    set unseeds = ct_unseed_accounts (ro_control r) \<Longrightarrow>
    router_step r (apply_control accounts rooms unseeds r)"
| rs_tick: "\<not> ro_shutdown r \<Longrightarrow> router_step r (expire_tick now r)"
| rs_recv: "\<not> ro_shutdown r \<Longrightarrow> ro_queue r = ob # rest \<Longrightarrow>
    router_step r (apply_observation now ob (r\<lparr>ro_queue := rest\<rparr>))"
| rs_send_ends: "send \<in> set (ro_sends r) \<Longrightarrow> router_step r (finish_drop send r)"
| rs_shutdown: "router_step r (r\<lparr>ro_shutdown := True\<rparr>)"

section \<open>Invariant\<close>

text \<open>
  The in-flight set is exactly the keys of the sends that are running and of those that ended
  and are not yet reported to the scheduler; \<open>fin\<close> is the list of the latter, which
  \<^verbatim>\<open>apply_control\<close> has taken out of the control block while it works on it.
\<close>

definition keys_inv :: "flight_key list \<Rightarrow> router \<Rightarrow> bool" where
  "keys_inv fin r \<longleftrightarrow> sched_inv (ro_scheduler r) \<and>
     distinct (map job_key (map fst (ro_sends r)) @ fin) \<and>
     set (map job_key (map fst (ro_sends r)) @ fin) = in_flight (ro_scheduler r)"

text \<open>
  Tokens: an account has one live token, accounts do not share them, a running room send holds its
  account's live token or a cancelled one, and the token of a badge send belongs to no account and is
  not cancelled.
\<close>

definition send_token_ok :: "router \<Rightarrow> job \<times> cancel_token \<Rightarrow> bool" where
  "send_token_ok r send \<longleftrightarrow> snd send < ro_next_token r \<and>
     (\<forall>a rm. job_room (fst send) = Some (a, rm) \<longrightarrow>
        ro_account_cancels r a = Some (snd send) \<or> snd send \<in> ro_cancelled r) \<and>
     (job_room (fst send) = None \<longrightarrow>
        snd send \<notin> ro_cancelled r \<and> snd send \<notin> ran (ro_account_cancels r))"

definition table_ok :: "router \<Rightarrow> bool" where
  "table_ok r \<longleftrightarrow>
     (\<forall>a t. ro_account_cancels r a = Some t \<longrightarrow> t < ro_next_token r \<and> t \<notin> ro_cancelled r) \<and>
     (\<forall>t \<in> ro_cancelled r. t < ro_next_token r) \<and>
     (\<forall>a b t. ro_account_cancels r a = Some t \<longrightarrow> ro_account_cancels r b = Some t \<longrightarrow> a = b)"

definition tokens_ok :: "router \<Rightarrow> bool" where
  "tokens_ok r \<longleftrightarrow> list_all (send_token_ok r) (ro_sends r) \<and> table_ok r"

definition wake_ok :: "router \<Rightarrow> bool" where
  "wake_ok r \<longleftrightarrow> ct_notified (ro_control r) \<or>
     ct_finished (ro_control r) = [] \<and> ct_drop_accounts (ro_control r) = {} \<and>
     ct_drop_rooms (ro_control r) = {} \<and> ct_unseed_accounts (ro_control r) = {}"

definition router_inv :: "router \<Rightarrow> bool" where
  "router_inv r \<longleftrightarrow> keys_inv (ct_finished (ro_control r)) r \<and> tokens_ok r \<and> wake_ok r \<and>
     length (ro_queue r) \<le> OBSERVATION_CAPACITY"

subsection \<open>Frames\<close>

lemma start_job_frame [simp]:
  "ro_scheduler (start_job j r) = ro_scheduler r"
  "ro_control (start_job j r) = ro_control r"
  "ro_queue (start_job j r) = ro_queue r"
  "ro_rooms (start_job j r) = ro_rooms r"
  "ro_cancelled (start_job j r) = ro_cancelled r"
  "map fst (ro_sends (start_job j r)) = map fst (ro_sends r) @ [j]"
  by (simp_all add: start_job_def split: option.splits prod.splits)

lemma enqueue_start_frame [simp]:
  "ro_control (enqueue_start j r) = ro_control r"
  "ro_queue (enqueue_start j r) = ro_queue r"
  "ro_rooms (enqueue_start j r) = ro_rooms r"
  "ro_cancelled (enqueue_start j r) = ro_cancelled r"
  by (simp_all add: enqueue_start_def split: prod.splits option.splits)

lemma fold_enqueue_start_frame [simp]:
  "ro_control (fold enqueue_start js r) = ro_control r"
  "ro_queue (fold enqueue_start js r) = ro_queue r"
  "ro_rooms (fold enqueue_start js r) = ro_rooms r"
  "ro_cancelled (fold enqueue_start js r) = ro_cancelled r"
  by (induction js arbitrary: r) simp_all

lemma fold_start_job_frame [simp]:
  "ro_scheduler (fold start_job js r) = ro_scheduler r"
  "ro_control (fold start_job js r) = ro_control r"
  "ro_queue (fold start_job js r) = ro_queue r"
  "ro_rooms (fold start_job js r) = ro_rooms r"
  "ro_cancelled (fold start_job js r) = ro_cancelled r"
  "map fst (ro_sends (fold start_job js r)) = map fst (ro_sends r) @ js"
  by (induction js arbitrary: r) simp_all

lemma control_finished_frame [simp]:
  "ro_control (control_finished k r) = ro_control r"
  "ro_queue (control_finished k r) = ro_queue r"
  "ro_rooms (control_finished k r) = ro_rooms r"
  "ro_cancelled (control_finished k r) = ro_cancelled r"
  "ro_scheduler (control_finished k r) = fst (finished (ro_scheduler r) k)"
  "map fst (ro_sends (control_finished k r)) =
     map fst (ro_sends r) @ snd (finished (ro_scheduler r) k)"
  by (simp_all add: control_finished_def split_beta Let_def)

lemma fold_control_finished_frame [simp]:
  "ro_control (fold control_finished ks r) = ro_control r"
  "ro_queue (fold control_finished ks r) = ro_queue r"
  "ro_rooms (fold control_finished ks r) = ro_rooms r"
  "ro_cancelled (fold control_finished ks r) = ro_cancelled r"
  by (induction ks arbitrary: r) simp_all

lemma control_drop_frame [simp]:
  "ro_control (control_drop_account a r) = ro_control r"
  "ro_queue (control_drop_account a r) = ro_queue r"
  "ro_sends (control_drop_account a r) = ro_sends r"
  "ro_scheduler (control_drop_account a r) = drop_account (ro_scheduler r) a"
  "ro_rooms (control_drop_account a r) = (\<lambda>k. if fst k = a then None else ro_rooms r k)"
  "ro_control (control_drop_room k r) = ro_control r"
  "ro_queue (control_drop_room k r) = ro_queue r"
  "ro_sends (control_drop_room k r) = ro_sends r"
  "ro_control (control_unseed a r) = ro_control r"
  "ro_queue (control_unseed a r) = ro_queue r"
  "ro_sends (control_unseed a r) = ro_sends r"
  "ro_scheduler (control_unseed a r) = ro_scheduler r"
  by (simp_all add: control_drop_account_def control_drop_room_def control_unseed_def Let_def
      split: option.splits)

subsection \<open>Keys\<close>

lemma distinct_insert_mid:
  "distinct (xs @ ys) \<Longrightarrow> x \<notin> set (xs @ ys) \<Longrightarrow>
     distinct ((xs @ [x]) @ ys) \<and> set ((xs @ [x]) @ ys) = insert x (set (xs @ ys))"
  by auto

lemma enqueue_start_keys:
  assumes "keys_inv fin r"
  shows "keys_inv fin (enqueue_start j r)"
proof (cases "enqueue (ro_scheduler r) j")
  case (Pair s started)
  have inv: "sched_inv s"
    using enqueue_inv [of "ro_scheduler r" j] assms Pair by (simp add: keys_inv_def)
  show ?thesis
  proof (cases started)
    case None
    then show ?thesis
      using assms inv Pair enqueue_waits [of "ro_scheduler r" j] by (simp add: keys_inv_def enqueue_start_def)
  next
    case (Some j')
    then have "j' = j" "job_key j \<notin> in_flight (ro_scheduler r)"
      "in_flight s = insert (job_key j) (in_flight (ro_scheduler r))"
      using Pair enqueue_started [of "ro_scheduler r" j j'] by auto
    then show ?thesis
      using assms inv Pair Some
        distinct_insert_mid [of "map job_key (map fst (ro_sends r))" fin "job_key j"]
      by (simp add: keys_inv_def enqueue_start_def del: map_map)
  qed
qed

lemma control_finished_keys:
  assumes "keys_inv (k # fin) r"
  shows "keys_inv fin (control_finished k r)"
proof -
  let ?s = "ro_scheduler r" and ?ks = "map job_key (map fst (ro_sends r))"
  have i: "sched_inv ?s" "k \<in> in_flight ?s" "distinct (?ks @ k # fin)" "in_flight ?s = set (?ks @ k # fin)"
    using assms by (auto simp: keys_inv_def simp del: map_map)
  have rest: "in_flight ?s - {k} = set (?ks @ fin)" "distinct (?ks @ fin)"
    using i(3,4) by auto
  show ?thesis
  proof (cases "snd (finished ?s k) = []")
    case True
    then show ?thesis
      using finished_none [OF i(1,2) True] finished_inv [OF i(1,2)] rest
      unfolding keys_inv_def by simp
  next
    case False
    from finished_one [OF i(1,2) this] obtain j where "snd (finished ?s k) = [j]"
      "job_key j \<notin> in_flight ?s - {k}"
      "in_flight (fst (finished ?s k)) = insert (job_key j) (in_flight ?s - {k})"
      by blast
    then show ?thesis
      using finished_inv [OF i(1,2)] rest distinct_insert_mid [of ?ks fin "job_key j"]
      by (simp add: keys_inv_def del: map_map)
  qed
qed

lemma fold_control_finished_keys:
  "keys_inv (ks @ fin) r \<Longrightarrow> keys_inv fin (fold control_finished ks r)"
  by (induction ks arbitrary: r) (simp_all add: control_finished_keys)

lemma fold_enqueue_start_keys: "keys_inv fin r \<Longrightarrow> keys_inv fin (fold enqueue_start js r)"
  by (induction js arbitrary: r) (simp_all add: enqueue_start_keys)

lemma keys_inv_frame:
  "ro_sends r' = ro_sends r \<Longrightarrow> sched_inv (ro_scheduler r') \<Longrightarrow>
   in_flight (ro_scheduler r') = in_flight (ro_scheduler r) \<Longrightarrow> keys_inv fin r \<Longrightarrow> keys_inv fin r'"
  by (simp add: keys_inv_def)

lemma control_drop_keys:
  assumes "keys_inv fin r"
  shows "keys_inv fin (control_drop_account a r)" "keys_inv fin (control_drop_room k r)"
    "keys_inv fin (control_unseed a r)"
  by (rule keys_inv_frame [OF _ _ _ assms];
      use assms in \<open>simp add: keys_inv_def drop_account_def drop_room_def control_drop_room_def
        retain_waiting_inv\<close>)+

lemma fold_preserves:
  "(\<And>x r. P r \<Longrightarrow> P (f x r)) \<Longrightarrow> P r \<Longrightarrow> P (fold f xs r)"
  by (induction xs arbitrary: r) simp_all

lemma apply_control_keys:
  assumes "keys_inv (ct_finished (ro_control r)) r"
  shows "keys_inv [] (apply_control as rs us r)"
proof -
  let ?fin = "ct_finished (ro_control r)"
  have "keys_inv ?fin (r\<lparr>ro_control := control_new\<rparr>)"
    using assms by (simp add: keys_inv_def)
  then have "keys_inv ?fin (fold control_unseed us (fold control_drop_room rs
      (fold control_drop_account as (r\<lparr>ro_control := control_new\<rparr>))))"
    by (intro fold_preserves [where P = "keys_inv ?fin"] control_drop_keys)
  then show ?thesis
    using fold_control_finished_keys [of ?fin "[]"] by (simp add: apply_control_def Let_def)
qed

subsection \<open>Tokens\<close>

lemma send_token_frame [simp]:
  "send_token_ok (r\<lparr>ro_sends := xs\<rparr>) = send_token_ok r"
  "send_token_ok (r\<lparr>ro_scheduler := sc\<rparr>) = send_token_ok r"
  "send_token_ok (r\<lparr>ro_rooms := rms\<rparr>) = send_token_ok r"
  "send_token_ok (r\<lparr>ro_control := ctl\<rparr>) = send_token_ok r"
  "send_token_ok (r\<lparr>ro_queue := q\<rparr>) = send_token_ok r"
  "send_token_ok (r\<lparr>ro_banners := bs\<rparr>) = send_token_ok r"
  "send_token_ok (r\<lparr>ro_next_banner := nb\<rparr>) = send_token_ok r"
  "send_token_ok (r\<lparr>ro_snapshot := ts\<rparr>) = send_token_ok r"
  "send_token_ok (r\<lparr>ro_shutdown := sd\<rparr>) = send_token_ok r"
  by (simp_all add: send_token_ok_def fun_eq_iff)

lemma table_frame [simp]:
  "table_ok (r\<lparr>ro_sends := xs\<rparr>) = table_ok r"
  "table_ok (r\<lparr>ro_scheduler := sc\<rparr>) = table_ok r"
  "table_ok (r\<lparr>ro_rooms := rms\<rparr>) = table_ok r"
  "table_ok (r\<lparr>ro_control := ctl\<rparr>) = table_ok r"
  "table_ok (r\<lparr>ro_queue := q\<rparr>) = table_ok r"
  "table_ok (r\<lparr>ro_banners := bs\<rparr>) = table_ok r"
  "table_ok (r\<lparr>ro_next_banner := nb\<rparr>) = table_ok r"
  "table_ok (r\<lparr>ro_snapshot := ts\<rparr>) = table_ok r"
  "table_ok (r\<lparr>ro_shutdown := sd\<rparr>) = table_ok r"
  by (simp_all add: table_ok_def)

lemma tokens_frame [simp]:
  "tokens_ok (r\<lparr>ro_scheduler := sc\<rparr>) = tokens_ok r"
  "tokens_ok (r\<lparr>ro_rooms := rms\<rparr>) = tokens_ok r"
  "tokens_ok (r\<lparr>ro_control := ctl\<rparr>) = tokens_ok r"
  "tokens_ok (r\<lparr>ro_queue := q\<rparr>) = tokens_ok r"
  "tokens_ok (r\<lparr>ro_banners := bs\<rparr>) = tokens_ok r"
  "tokens_ok (r\<lparr>ro_next_banner := nb\<rparr>) = tokens_ok r"
  "tokens_ok (r\<lparr>ro_snapshot := ts\<rparr>) = tokens_ok r"
  "tokens_ok (r\<lparr>ro_shutdown := sd\<rparr>) = tokens_ok r"
  by (simp_all add: tokens_ok_def)

lemma start_job_tokens:
  assumes "tokens_ok r"
  shows "tokens_ok (start_job j r)"
proof -
  have fresh: "t < ro_next_token r" if "ro_account_cancels r a = Some t \<or> t \<in> ro_cancelled r" for a t
    using assms that by (auto simp: tokens_ok_def table_ok_def)
  have old: "send_token_ok r x" if "x \<in> set (ro_sends r)" for x
    using assms that by (simp add: tokens_ok_def list_all_iff)
  consider (held) a rm t where "job_room j = Some (a, rm)" "ro_account_cancels r a = Some t"
    | (mint) a rm where "job_room j = Some (a, rm)" "ro_account_cancels r a = None"
    | (badge) "job_room j = None"
    by (cases "job_room j"; cases "ro_account_cancels r (fst (the (job_room j)))") auto
  then show ?thesis
  proof cases
    case held
    then have "start_job j r = r\<lparr>ro_sends := ro_sends r @ [(j, t)]\<rparr>"
      by (simp add: start_job_def)
    moreover have "send_token_ok r (j, t)"
      using held fresh [of a t] by (simp add: send_token_ok_def)
    ultimately show ?thesis
      using assms by (simp add: tokens_ok_def)
  next
    case mint
    let ?r = "r\<lparr>ro_account_cancels := (ro_account_cancels r)(a \<mapsto> ro_next_token r),
      ro_next_token := ro_next_token r + 1, ro_sends := ro_sends r @ [(j, ro_next_token r)]\<rparr>"
    have "send_token_ok ?r x" if "x \<in> set (ro_sends r)" for x
      using old [OF that] mint(2)
      by (auto simp: send_token_ok_def ran_def split: if_split_asm)
    moreover have "send_token_ok ?r (j, ro_next_token r)"
      using mint(1) by (simp add: send_token_ok_def)
    moreover have "table_ok ?r"
      using assms fresh [of _ "ro_next_token r"] unfolding tokens_ok_def table_ok_def
      by (auto simp: less_Suc_eq)
    ultimately show ?thesis
      using mint by (simp add: start_job_def tokens_ok_def list_all_iff)
  next
    case badge
    let ?r = "r\<lparr>ro_next_token := ro_next_token r + 1, ro_sends := ro_sends r @ [(j, ro_next_token r)]\<rparr>"
    have "send_token_ok ?r x" if "x \<in> set (ro_sends r)" for x
      using old [OF that] by (simp add: send_token_ok_def)
    moreover have "send_token_ok ?r (j, ro_next_token r)"
      using badge fresh [of _ "ro_next_token r"] by (auto simp: send_token_ok_def ran_def)
    moreover have "table_ok ?r"
      using assms by (auto simp: tokens_ok_def table_ok_def less_Suc_eq)
    ultimately show ?thesis
      using badge by (simp add: start_job_def tokens_ok_def list_all_iff)
  qed
qed

lemma enqueue_start_tokens: "tokens_ok r \<Longrightarrow> tokens_ok (enqueue_start j r)"
  by (auto simp: enqueue_start_def intro!: start_job_tokens split: prod.splits option.splits)

lemma control_finished_tokens: "tokens_ok r \<Longrightarrow> tokens_ok (control_finished k r)"
  by (auto simp: control_finished_def Let_def split_beta
      intro!: fold_preserves [where P = tokens_ok] start_job_tokens)

lemma control_drop_account_tokens:
  assumes "tokens_ok r"
  shows "tokens_ok (control_drop_account a r)"
proof (cases "ro_account_cancels r a")
  case None
  then show ?thesis
    using assms by (simp add: control_drop_account_def)
next
  case (Some t)
  have ok: "send_token_ok (control_drop_account a r) x" if "send_token_ok r x" for x
  proof (cases "job_room (fst x)")
    case None
    with that Some show ?thesis
      by (auto simp: send_token_ok_def control_drop_account_def ran_def split: if_split_asm)
  next
    case (Some p)
    with that \<open>ro_account_cancels r a = Some t\<close> show ?thesis
      by (cases p) (auto simp: send_token_ok_def control_drop_account_def)
  qed
  have other: "t' \<noteq> t" if "ro_account_cancels r b = Some t'" "b \<noteq> a" for b t'
    using assms that Some by (auto simp: tokens_ok_def table_ok_def)
  have "list_all (send_token_ok (control_drop_account a r)) (ro_sends (control_drop_account a r))"
    using assms ok by (simp add: tokens_ok_def list_all_iff)
  moreover have "ro_account_cancels (control_drop_account a r) = (ro_account_cancels r)(a := None)"
    "ro_cancelled (control_drop_account a r) = insert t (ro_cancelled r)"
    "ro_next_token (control_drop_account a r) = ro_next_token r"
    using Some by (simp_all add: control_drop_account_def)
  ultimately show ?thesis
    using assms Some other unfolding tokens_ok_def table_ok_def by (auto split: if_split_asm)
qed

lemma apply_control_tokens: "tokens_ok r \<Longrightarrow> tokens_ok (apply_control as rs us r)"
  unfolding apply_control_def Let_def
  by (intro fold_preserves [where P = tokens_ok] control_finished_tokens control_drop_account_tokens)
    (simp_all add: control_drop_room_def control_unseed_def)

lemma apply_observation_tokens: "tokens_ok r \<Longrightarrow> tokens_ok (apply_observation now ob r)"
  unfolding apply_observation_def Let_def split_beta
  by (intro fold_preserves [where P = tokens_ok] enqueue_start_tokens)
    (simp_all split: option.splits)

subsection \<open>Reachable states\<close>

lemma apply_control_frame:
  "ro_control (apply_control as rs us r) = control_new"
  "ro_queue (apply_control as rs us r) = ro_queue r"
proof -
  have f: "ro_control (fold control_drop_account xs r') = ro_control r' \<and>
      ro_queue (fold control_drop_account xs r') = ro_queue r'"
    "ro_control (fold control_drop_room ys r') = ro_control r' \<and>
      ro_queue (fold control_drop_room ys r') = ro_queue r'"
    "ro_control (fold control_unseed xs r') = ro_control r' \<and>
      ro_queue (fold control_unseed xs r') = ro_queue r'" for xs ys r'
    by (induction xs arbitrary: r', simp_all) (induction ys arbitrary: r', simp_all)
  show "ro_control (apply_control as rs us r) = control_new"
    "ro_queue (apply_control as rs us r) = ro_queue r"
    by (simp_all add: apply_control_def Let_def f)
qed

lemma apply_observation_frame:
  "ro_control (apply_observation now ob r) = ro_control r"
  "ro_queue (apply_observation now ob r) = ro_queue r"
  by (simp_all add: apply_observation_def Let_def split_beta split: option.splits)

lemma apply_observation_keys:
  assumes "keys_inv fin r"
  shows "keys_inv fin (apply_observation now ob r)"
  unfolding apply_observation_def Let_def split_beta
  by (rule fold_enqueue_start_keys, rule keys_inv_frame [OF _ _ _ assms])
    (use assms in \<open>simp_all add: keys_inv_def split: option.splits\<close>)

lemma router_new_inv: "router_inv router_new"
  by (simp add: router_inv_def router_new_def keys_inv_def scheduler_new_inv tokens_ok_def table_ok_def wake_ok_def
      control_new_def) (simp add: scheduler_new_def)

lemma finish_drop_keys:
  assumes "keys_inv fin r" "send \<in> set (ro_sends r)"
  shows "keys_inv (fin @ [job_key (fst send)]) (finish_drop send r)"
proof -
  let ?f = "\<lambda>x :: job \<times> cancel_token. job_key (fst x)"
  have "mset (map ?f (ro_sends r)) = mset (map ?f (remove1 send (ro_sends r))) + {#?f send#}"
    using assms(2) by (metis add_mset_add_single insert_DiffM image_mset_add_mset mset_map mset_remove1
        set_mset_mset)
  then have "mset (map ?f (remove1 send (ro_sends r)) @ fin @ [?f send]) = mset (map ?f (ro_sends r) @ fin)"
    by simp
  from mset_eq_imp_distinct_iff [OF this] mset_eq_setD [OF this] show ?thesis
    using assms(1) by (simp add: keys_inv_def finish_drop_def comp_def)
qed

lemma finish_drop_tokens: "tokens_ok r \<Longrightarrow> tokens_ok (finish_drop send r)"
  using set_remove1_subset [of send "ro_sends r"] by (auto simp: finish_drop_def tokens_ok_def list_all_iff)

lemma router_step_inv: "router_inv r \<Longrightarrow> router_step r r' \<Longrightarrow> router_inv r'"
  unfolding router_inv_def
proof (elim conjE, induction rule: router_step.induct)
  case (rs_control r accounts rooms unseeds)
  then show ?case
    using apply_control_keys [of r] apply_control_tokens [of r]
    by (simp add: apply_control_frame wake_ok_def control_new_def)
next
  case (rs_recv r ob rest now)
  have "keys_inv (ct_finished (ro_control r)) (r\<lparr>ro_queue := rest\<rparr>)"
    using rs_recv.prems by (simp add: keys_inv_def)
  then show ?case
    using rs_recv apply_observation_keys [of _ "r\<lparr>ro_queue := rest\<rparr>"] apply_observation_tokens
    by (simp add: apply_observation_frame wake_ok_def)
next
  case (rs_send_ends send r)
  then show ?case
    using finish_drop_keys [of "ct_finished (ro_control r)" r send] finish_drop_tokens
    by (simp add: wake_ok_def) (simp add: finish_drop_def)
qed (simp_all add: keys_inv_def wake_ok_def ingress_observe_def account_removed_def room_dropped_def
    unseed_account_def load_snapshot_def expire_tick_def split: option.splits)

interpretation router: inv_system "\<lambda>r. r = router_new" router_step router_inv
  by unfold_locales (simp_all add: router_new_inv router_step_inv)

section \<open>Removing an account\<close>

definition account_gone :: "uuid \<Rightarrow> router \<Rightarrow> bool" where
  "account_gone a r \<longleftrightarrow> (\<forall>room. ro_rooms r (a, room) = None) \<and> ro_account_cancels r a = None \<and>
     (\<forall>k j. waiting (ro_scheduler r) k = Some j \<longrightarrow> map_option fst (job_room j) \<noteq> Some a)"

lemma waiting_drop_account [simp]:
  "waiting (drop_account s a) k = Some j \<longleftrightarrow> waiting s k = Some j \<and> map_option fst (job_room j) \<noteq> Some a"
  by (simp add: drop_account_def)

lemma control_drop_account_gone: "account_gone a (control_drop_account a r)"
  by (auto simp: account_gone_def) (auto simp: control_drop_account_def Let_def split: option.splits)

lemma account_gone_drops:
  assumes "account_gone a r"
  shows "account_gone a (control_drop_account b r)" "account_gone a (control_drop_room k r)"
    "account_gone a (control_unseed b r)"
proof -
  show "account_gone a (control_drop_account b r)"
    using assms unfolding account_gone_def
    by (auto simp: control_drop_account_def Let_def split: option.splits)
  show "account_gone a (control_drop_room k r)" "account_gone a (control_unseed b r)"
    using assms by (auto simp: account_gone_def control_drop_room_def drop_room_def control_unseed_def)
qed

lemma start_job_cancels:
  "ro_account_cancels r a = None \<Longrightarrow> map_option fst (job_room j) \<noteq> Some a \<Longrightarrow>
   ro_account_cancels (start_job j r) a = None"
  by (auto simp: start_job_def split: option.splits)

lemma control_finished_gone:
  assumes "keys_inv (k # fin) r" "account_gone a r"
  shows "account_gone a (control_finished k r)"
proof -
  let ?s = "ro_scheduler r"
  have i: "sched_inv ?s" "k \<in> in_flight ?s"
    using assms(1) by (auto simp: keys_inv_def)
  show ?thesis
  proof (cases "snd (finished ?s k) = []")
    case True
    with finished_none [OF i True] assms(2) show ?thesis
      by (simp add: account_gone_def) (simp add: control_finished_def Let_def split_beta)
  next
    case False
    from finished_one [OF i this] obtain j where j: "snd (finished ?s k) = [j]"
      "waiting ?s (job_key j) = Some j" "waiting (fst (finished ?s k)) = (waiting ?s)(job_key j := None)"
      by blast
    then have "map_option fst (job_room j) \<noteq> Some a"
      using assms(2) by (auto simp: account_gone_def)
    then have "ro_account_cancels (control_finished k r) a = None"
      using assms(2) j(1) by (simp add: control_finished_def Let_def split_beta start_job_cancels account_gone_def)
    then show ?thesis
      using assms(2) j by (auto simp: account_gone_def)
  qed
qed

lemma fold_control_finished_gone:
  "keys_inv (ks @ fin) r \<Longrightarrow> account_gone a r \<Longrightarrow> account_gone a (fold control_finished ks r)"
  by (induction ks arbitrary: r) (simp_all add: control_finished_keys control_finished_gone)

lemma fold_drop_account_gone:
  "a \<in> set as \<Longrightarrow> account_gone a (fold control_drop_account as r)"
proof (induction as arbitrary: r)
  case (Cons b as)
  show ?case
  proof (cases "a = b")
    case True
    then show ?thesis
      by (simp, intro fold_preserves [where P = "account_gone b"] account_gone_drops
          control_drop_account_gone)
  qed (use Cons in auto)
qed simp

lemma apply_control_gone:
  assumes "keys_inv (ct_finished (ro_control r)) r" "a \<in> set as"
  shows "account_gone a (apply_control as rs us r)"
proof -
  let ?fin = "ct_finished (ro_control r)" and ?r0 = "r\<lparr>ro_control := control_new\<rparr>"
  let ?r3 = "fold control_unseed us (fold control_drop_room rs (fold control_drop_account as ?r0))"
  have "keys_inv ?fin ?r0"
    using assms(1) by (simp add: keys_inv_def)
  then have "keys_inv ?fin ?r3"
    by (intro fold_preserves [where P = "keys_inv ?fin"] control_drop_keys)
  moreover have "account_gone a ?r3"
    by (intro fold_preserves [where P = "account_gone a"] account_gone_drops fold_drop_account_gone assms(2))
  ultimately show ?thesis
    using fold_control_finished_gone [of ?fin "[]" ?r3 a] by (simp add: apply_control_def Let_def)
qed

lemma fold_drop_account_cancelled:
  "ro_cancelled (fold control_drop_account as r) \<subseteq>
     ro_cancelled r \<union> {t. \<exists>a \<in> set as. ro_account_cancels r a = Some t}"
proof (induction as arbitrary: r)
  case (Cons b as)
  have "ro_cancelled (control_drop_account b r) \<subseteq> ro_cancelled r \<union> {t. ro_account_cancels r b = Some t}"
    "ro_account_cancels (control_drop_account b r) a = Some t \<Longrightarrow> ro_account_cancels r a = Some t" for a t
    by (auto simp: control_drop_account_def Let_def split: option.splits if_split_asm)
  with Cons.IH [of "control_drop_account b r"] show ?case by fastforce
qed simp

lemma apply_control_cancelled:
  "ro_cancelled (apply_control as rs us r) \<subseteq>
     ro_cancelled r \<union> {t. \<exists>a \<in> set as. ro_account_cancels r a = Some t}"
proof -
  have "ro_cancelled (fold control_drop_room rs x) = ro_cancelled x"
    "ro_cancelled (fold control_unseed us x) = ro_cancelled x" for x
    by (induction rs arbitrary: x; simp add: control_drop_room_def)
      (induction us arbitrary: x; simp add: control_unseed_def)
  then show ?thesis
    using fold_drop_account_cancelled [of as "r\<lparr>ro_control := control_new\<rparr>"]
    by (simp add: apply_control_def Let_def)
qed

section \<open>The memory of one room\<close>

text \<open>What can happen to one room's memory: an observation, an expiry tick, an unseeding.\<close>

datatype memory_event =
    MObserve instant "count_pair option" "push_message list"
  | MTick instant
  | MUnseed

fun memory_step :: "memory_event \<Rightarrow> memory \<Rightarrow> memory" where
  "memory_step (MObserve now after messages) m = fst (observe_memory now after messages m)"
| "memory_step (MTick now) m = expire now m"
| "memory_step MUnseed m = m\<lparr>me_seeded := False, me_unpaired := None\<rparr>"

lemma restamp_value [simp]: "map_option st_value (restamp now previous v) = v"
  by (cases v) (simp_all add: restamp_def)

lemma restamp_Some:
  "restamp now previous v = Some x \<Longrightarrow> v = Some (st_value x) \<and>
    st_at x = (case previous of Some p \<Rightarrow> if st_value p = st_value x then st_at p else now | None \<Rightarrow> now)"
  by (auto simp: restamp_def split: option.splits)

lemma expire_cell_Some: "expire_cell now c = Some x \<longleftrightarrow> c = Some x \<and> \<not> stale now x"
  by (auto simp: expire_cell_def split: option.splits)

lemma observe_memory_state:
  "memory_state (fst (observe_memory now after ms m)) = de_state (decide (memory_state (expire now m)) after ms)"
  "snd (observe_memory now after ms m) = decide (memory_state (expire now m)) after ms"
  by (simp_all add: observe_memory_def Let_def memory_state_def)

definition slot_from :: "memory_event set \<Rightarrow> memory \<Rightarrow> bool" where
  "slot_from evs m \<longleftrightarrow> (\<forall>x. me_slot m = Some x \<longrightarrow>
     (\<exists>after ms. MObserve (st_at x) after ms \<in> evs \<and> st_value x \<in> set ms))"

lemma observe_memory_slot_from:
  assumes "slot_from evs m"
  shows "slot_from (insert (MObserve now after ms) evs) (fst (observe_memory now after ms m))"
  unfolding slot_from_def
proof (intro allI impI)
  fix x
  assume x: "me_slot (fst (observe_memory now after ms m)) = Some x"
  let ?s = "memory_state (expire now m)"
  have slot: "restamp now (me_slot (expire now m)) (rs_slot (de_state (decide ?s after ms))) = Some x"
    using x by (simp add: observe_memory_def Let_def)
  note at = restamp_Some [OF slot]
  then have v: "rs_slot (de_state (decide ?s after ms)) = Some (st_value x)"
    by blast
  show "\<exists>after' ms'. MObserve (st_at x) after' ms' \<in> insert (MObserve now after ms) evs \<and> st_value x \<in> set ms'"
  proof (cases "\<exists>p. me_slot (expire now m) = Some p \<and> st_value p = st_value x")
    case True
    then obtain p where p: "me_slot (expire now m) = Some p" "st_value p = st_value x"
      by blast
    then have "st_at x = st_at p"
      using at by simp
    moreover have "me_slot m = Some p"
      using p(1) by (simp add: expire_def expire_cell_Some)
    ultimately show ?thesis
      using assms p(2) unfolding slot_from_def by fastforce
  next
    case False
    then have "st_at x = now"
      using at by (auto split: option.splits)
    moreover have "st_value x \<in> set ms"
      using decide_slot_from [OF v] False by (auto simp: memory_state_def)
    ultimately show ?thesis by blast
  qed
qed

lemma memory_step_slot_from: "slot_from evs m \<Longrightarrow> slot_from (insert ev evs) (memory_step ev m)"
proof (cases ev)
  case (MObserve now after ms)
  then show "slot_from evs m \<Longrightarrow> ?thesis"
    using observe_memory_slot_from by simp
next
  case (MTick now)
  then show "slot_from evs m \<Longrightarrow> ?thesis"
    by (auto simp: slot_from_def expire_def expire_cell_Some)
next
  case MUnseed
  then show "slot_from evs m \<Longrightarrow> ?thesis"
    by (auto simp: slot_from_def)
qed

lemma memory_run_slot_from:
  "me_slot m = None \<Longrightarrow> slot_from (set evs) (foldl (\<lambda>m ev. memory_step ev m) m evs)"
  by (induction evs rule: rev_induct) (simp_all add: slot_from_def [of "{}"] memory_step_slot_from)

section \<open>Properties\<close>

text \<open>C3: in every reachable state of the router, under any interleaving of ingress calls, reloads,
  loop branches, send completions and cancellations: at most four sends run, no two for one key;
  a permit is held exactly by the running sends and by the ended ones whose report is pending, so
  none leaks; the channel stays within its 64 observations; and whenever the control block holds
  work, the loop has a wakeup pending.\<close>

theorem push_router_invariant:
  assumes "router_step\<^sup>*\<^sup>* router_new r"
  shows "length (ro_sends r) \<le> 4 \<and> distinct (map (job_key \<circ> fst) (ro_sends r)) \<and>
    in_flight (ro_scheduler r) = set (map (job_key \<circ> fst) (ro_sends r)) \<union> set (ct_finished (ro_control r)) \<and>
    length (ro_queue r) \<le> 64 \<and> wake_ok r"
proof -
  have i: "router_inv r"
    by (rule router.reach_inv [OF refl assms])
  then have k: "distinct (map (job_key \<circ> fst) (ro_sends r) @ ct_finished (ro_control r))"
    "set (map (job_key \<circ> fst) (ro_sends r) @ ct_finished (ro_control r)) = in_flight (ro_scheduler r)"
    "card (in_flight (ro_scheduler r)) \<le> 4"
    using sched_invD(3) [of "ro_scheduler r"] by (simp_all add: router_inv_def keys_inv_def SEND_PERMITS_def)
  have "length (map (job_key \<circ> fst) (ro_sends r) @ ct_finished (ro_control r)) \<le> 4"
    using distinct_card [OF k(1)] k(2,3) by metis
  then show ?thesis
    using i k by (auto simp: router_inv_def OBSERVATION_CAPACITY_def)
qed

definition demo_obs :: "count_pair option \<Rightarrow> observation" where
  "demo_obs after = \<lparr>ob_account_id = 7, ob_room_id = lit ''!r'', ob_after = after, ob_messages = [demo_message]\<rparr>"

definition demo_live :: router where
  "demo_live = ingress_observe (demo_obs (Some (0, 0))) router_new"

lemma demo_live_reachable: "router_step\<^sup>*\<^sup>* router_new demo_live"
  unfolding demo_live_def by (rule r_into_rtranclp) (rule rs_observe)

theorem push_router_invariant_witness: "length (ro_queue demo_live) = 1 \<and> wake_ok demo_live"
  using push_router_invariant [OF demo_live_reachable]
  by (simp add: demo_live_def ingress_observe_def router_new_def OBSERVATION_CAPACITY_def)

text \<open>C4: removing an account stops its pushes. After the loop has handled the removal the account has
  no room memory and no waiting job, and every send of it that is still running holds a cancelled
  token; sends of other accounts and badge sends are not cancelled by it.\<close>

theorem push_account_removal:
  assumes "router_step\<^sup>*\<^sup>* router_new r" "a \<in> set accounts" "r' = apply_control accounts rooms unseeds r"
  shows "(\<forall>room. ro_rooms r' (a, room) = None) \<and>
    (\<forall>k j room. waiting (ro_scheduler r') k = Some j \<longrightarrow> job_room j \<noteq> Some (a, room)) \<and>
    (\<forall>j token room. (j, token) \<in> set (ro_sends r') \<longrightarrow> job_room j = Some (a, room) \<longrightarrow> token \<in> ro_cancelled r') \<and>
    (\<forall>j token. (j, token) \<in> set (ro_sends r) \<longrightarrow> token \<in> ro_cancelled r' - ro_cancelled r \<longrightarrow>
       (\<exists>b \<in> set accounts. map_option fst (job_room j) = Some b))"
proof (intro conjI allI impI)
  have i: "router_inv r"
    by (rule router.reach_inv [OF refl assms(1)])
  have gone: "account_gone a r'"
    using apply_control_gone i assms(2,3) by (simp add: router_inv_def)
  then show "ro_rooms r' (a, room) = None" for room
    by (simp add: account_gone_def)
  show "job_room j \<noteq> Some (a, room)" if "waiting (ro_scheduler r') k = Some j" for k j room
    using gone that by (auto simp: account_gone_def)
  have "tokens_ok r'"
    using apply_control_tokens i assms(3) by (simp add: router_inv_def)
  then show "token \<in> ro_cancelled r'"
    if "(j, token) \<in> set (ro_sends r')" "job_room j = Some (a, room)" for j token room
    using that gone by (force simp: tokens_ok_def list_all_iff send_token_ok_def account_gone_def)
  fix j token
  assume send: "(j, token) \<in> set (ro_sends r)" and new: "token \<in> ro_cancelled r' - ro_cancelled r"
  then obtain b where b: "b \<in> set accounts" "ro_account_cancels r b = Some token"
    using apply_control_cancelled [of accounts rooms unseeds r] assms(3) by blast
  have ok: "send_token_ok r (j, token)" "table_ok r"
    using i send by (auto simp: router_inv_def tokens_ok_def list_all_iff)
  then obtain c room where c: "job_room j = Some (c, room)"
    using b(2) by (cases "job_room j") (auto simp: send_token_ok_def ran_def)
  then have "ro_account_cancels r c = Some token"
    using ok(1) new by (auto simp: send_token_ok_def)
  then have "c = b"
    using ok(2) b(2) by (auto simp: table_ok_def)
  with b(1) c show "\<exists>b \<in> set accounts. map_option fst (job_room j) = Some b"
    by auto
qed

theorem push_account_removal_witness:
  "ro_rooms (apply_control [7] [] [] demo_live) (7, lit ''!r'') = None"
  using push_account_removal [OF demo_live_reachable, of 7 "[7]" _ "[]" "[]"] by simp

text \<open>A late push is never sent. Whatever observations, ticks and unseedings one room's memory goes
  through, a message that an observation at time \<open>now\<close> sends is part of that observation or of an
  earlier one less than 300 seconds before.\<close>

theorem push_slot_ttl:
  assumes "m = foldl (\<lambda>m ev. memory_step ev m) (memory_unseeded (0, 0)) evs"
    "de_send (snd (observe_memory now after ms m)) = Some msg"
  shows "\<exists>t after' ms'. MObserve t after' ms' \<in> set (evs @ [MObserve now after ms]) \<and> msg \<in> set ms' \<and>
    saturating_duration_since now t < from_secs 300"
proof -
  have send: "msg \<in> set ms \<or> rs_slot (memory_state (expire now m)) = Some msg"
    using decide_send_from [of "memory_state (expire now m)" after ms msg] assms(2)
    by (simp add: observe_memory_state)
  show ?thesis
  proof (cases "msg \<in> set ms")
    case True
    have "saturating_duration_since now now < from_secs 300"
      by (simp add: saturating_duration_since_def from_secs_def)
    with True show ?thesis by auto
  next
    case False
    with send obtain x where "me_slot (expire now m) = Some x" "st_value x = msg"
      by (auto simp: memory_state_def)
    then have x: "me_slot m = Some x" "\<not> stale now x" "st_value x = msg"
      by (simp_all add: expire_def expire_cell_Some)
    have "slot_from (set evs) m"
      unfolding assms(1) by (rule memory_run_slot_from) (simp add: memory_unseeded_def)
    then obtain after' ms' where "MObserve (st_at x) after' ms' \<in> set evs" "msg \<in> set ms'"
      using x(1,3) unfolding slot_from_def by blast
    then show ?thesis
      using x(2) by (auto simp: stale_def SLOT_TTL_def not_le)
  qed
qed

theorem push_slot_ttl_witness:
  "de_send (snd (observe_memory 5 (Some (1, 0)) []
      (foldl (\<lambda>m ev. memory_step ev m) (memory_unseeded (0, 0)) [MObserve 3 (Some (0, 0)) [demo_message]]))) =
     Some demo_message \<and>
   (\<exists>t after' ms'. MObserve t after' ms' \<in> {MObserve 3 (Some (0, 0)) [demo_message], MObserve 5 (Some (1, 0)) []} \<and>
      demo_message \<in> set ms' \<and> saturating_duration_since 5 t < from_secs 300)"
proof -
  have send: "de_send (snd (observe_memory 5 (Some (1, 0)) []
      (foldl (\<lambda>m ev. memory_step ev m) (memory_unseeded (0, 0)) [MObserve 3 (Some (0, 0)) [demo_message]]))) =
     Some demo_message"
    by (simp add: observe_memory_def memory_unseeded_def expire_def expire_cell_def memory_state_def
        decide_def unseeded_def Let_def latest_def demo_message_def or_else_def restamp_def stale_def
        SLOT_TTL_def saturating_duration_since_def from_secs_def)
  with push_slot_ttl [OF refl send] show ?thesis by simp
qed

text \<open>What may happen to a room up to \<open>now\<close> while a message waits for its count: expiry ticks, and
  observations without a count and without a notifying message.\<close>

fun quiet_event :: "instant \<Rightarrow> memory_event \<Rightarrow> bool" where
  "quiet_event now (MObserve t after ms) \<longleftrightarrow> t \<le> now \<and> after = None \<and> latest ms Notify = None"
| "quiet_event now (MTick t) \<longleftrightarrow> t \<le> now"
| "quiet_event now MUnseed \<longleftrightarrow> False"

definition waits :: "count_pair \<Rightarrow> push_message \<Rightarrow> instant \<Rightarrow> instant \<Rightarrow> memory \<Rightarrow> bool" where
  "waits pair msg t now m \<longleftrightarrow> me_seeded m \<and> me_pair m = pair \<and> me_unpaired m = None \<and>
     (me_slot m = Some \<lparr>st_value = msg, st_at = t\<rparr> \<or>
      me_slot m = None \<and> from_secs 300 \<le> saturating_duration_since now t)"

lemma expire_waits: "waits pair msg t now m \<Longrightarrow> t' \<le> now \<Longrightarrow> waits pair msg t now (expire t' m)"
  by (auto simp: waits_def expire_def expire_cell_def stale_def SLOT_TTL_def saturating_duration_since_def split: if_splits)

lemma observe_quiet:
  assumes "waits pair msg t now (expire t' m)" "latest ms Notify = None"
  shows "fst (observe_memory t' None ms m) = expire t' m"
proof -
  let ?s = "memory_state (expire t' m)"
  have s: "rs_seeded ?s" "rs_unpaired ?s = None" "\<not> rose (rs_pair ?s) (next_pair ?s None)"
    using assms(1) by (simp_all add: waits_def memory_state_def next_pair_def rose_def)
  have "de_state (decide ?s None ms) = ?s"
    using decide_seeded [OF s(1) refl refl refl, of None ms] decide_frame [OF s(1), of None ms] s assms(2)
    by (simp add: next_pair_def)
  then show ?thesis
    using assms(1)
    by (auto simp: observe_memory_def Let_def memory_state_def restamp_def waits_def)
qed

lemma quiet_waits:
  "waits pair msg t now m \<Longrightarrow> list_all (quiet_event now) evs \<Longrightarrow>
   waits pair msg t now (foldl (\<lambda>m ev. memory_step ev m) m evs)"
proof (induction evs arbitrary: m)
  case (Cons ev evs)
  have "waits pair msg t now (memory_step ev m)"
    using Cons.prems expire_waits [OF Cons.prems(1)] observe_quiet [OF expire_waits [OF Cons.prems(1)]]
    by (cases ev) simp_all
  then show ?case
    using Cons by simp
qed simp

lemma observe_starts_waiting:
  assumes "me_seeded m" "me_unpaired m = None" "map_option st_value (me_slot m) \<noteq> Some msg"
    "ms_class msg = Notify"
  shows "waits (me_pair m) msg t now (fst (observe_memory t None [msg] m))"
proof -
  let ?s = "memory_state (expire t m)"
  have s: "rs_seeded ?s" "rs_unpaired ?s = None" "\<not> rose (rs_pair ?s) (next_pair ?s None)"
    using assms by (simp_all add: memory_state_def next_pair_def rose_def expire_def expire_cell_def)
  have "latest [msg] Notify = Some msg"
    using assms(4) by (simp add: latest_def)
  then have "rs_slot (de_state (decide ?s None [msg])) = Some msg" "rs_unpaired (de_state (decide ?s None [msg])) = None"
    using decide_seeded [OF s(1) refl refl refl, of None "[msg]"] s by (simp_all add: next_pair_def)
  then show ?thesis
    using decide_frame [OF s(1), of None "[msg]"] assms(2,3)
    by (auto simp: observe_memory_def Let_def waits_def restamp_def next_pair_def memory_state_def
        expire_def expire_cell_def split: option.splits)
qed

text \<open>C6: a message that arrives before its count alerts when the count rises, if and only if it
  has then waited less than 300 seconds. In a seeded room with no unpaired rise, however many quiet
  observations and expiry ticks happen in between, the rise alerts the waiting message; after 300
  seconds it alerts the newest message of unknown class of its own observation instead, or
  nothing. A quiet observation does not make the message younger.\<close>

theorem push_waiting_alert:
  assumes "me_seeded m" "me_unpaired m = None" "map_option st_value (me_slot m) \<noteq> Some msg"
    "ms_class msg = Notify" "list_all (quiet_event now) evs" "rose (me_pair m) after" "latest ms Notify = None"
  shows "de_send (snd (observe_memory now (Some after) ms
      (foldl (\<lambda>m ev. memory_step ev m) m (MObserve t None [msg] # evs)))) =
    (if saturating_duration_since now t < from_secs 300 then Some msg else latest ms Unknown)"
proof -
  define m' where "m' = foldl (\<lambda>m ev. memory_step ev m) m (MObserve t None [msg] # evs)"
  have "waits (me_pair m) msg t now m'"
    unfolding m'_def using observe_starts_waiting [OF assms(1-4)] quiet_waits assms(5) by simp
  then have w: "waits (me_pair m) msg t now (expire now m')"
    by (rule expire_waits) simp
  let ?s = "memory_state (expire now m')"
  have s: "rs_seeded ?s" "rose (rs_pair ?s) (next_pair ?s (Some after))"
    using w assms(6) by (simp_all add: waits_def memory_state_def next_pair_def)
  have "rs_slot ?s = (if saturating_duration_since now t < from_secs 300 then Some msg else None)"
    using w by (auto simp: waits_def memory_state_def expire_def expire_cell_Some stale_def SLOT_TTL_def not_le)
  then show ?thesis
    using decide_seeded [OF s(1) refl refl refl, of "Some after" ms] s(2) assms(7)
    unfolding m'_def [symmetric] by (auto simp: observe_memory_state split: if_splits)
qed

definition demo_waiting :: memory where
  "demo_waiting = \<lparr>me_seeded = True, me_pair = (0, 0), me_slot = None, me_unpaired = None\<rparr>"

theorem push_waiting_alert_witness:
  "de_send (snd (observe_memory (from_secs 302) (Some (1, 0)) [] (foldl (\<lambda>m ev. memory_step ev m) demo_waiting
     [MObserve (from_secs 3) None [demo_message], MObserve (from_secs 100) None []]))) = Some demo_message \<and>
   de_send (snd (observe_memory (from_secs 303) (Some (1, 0)) [] (foldl (\<lambda>m ev. memory_step ev m) demo_waiting
     [MObserve (from_secs 3) None [demo_message], MObserve (from_secs 100) None []]))) = None"
proof -
  have m: "me_seeded demo_waiting" "me_unpaired demo_waiting = None"
    "map_option st_value (me_slot demo_waiting) \<noteq> Some demo_message" "ms_class demo_message = Notify"
    "rose (me_pair demo_waiting) (1, 0)" "latest [] Notify = None"
    by (simp_all add: demo_waiting_def demo_message_def rose_def latest_def)
  have "list_all (quiet_event (from_secs 302)) [MObserve (from_secs 100) None []]"
    "list_all (quiet_event (from_secs 303)) [MObserve (from_secs 100) None []]"
    by (simp_all add: latest_def from_secs_def)
  from push_waiting_alert [OF m(1-4) this(1) m(5,6), of "from_secs 3"]
    push_waiting_alert [OF m(1-4) this(2) m(5,6), of "from_secs 3"] show ?thesis
    by (simp add: saturating_duration_since_def from_secs_def latest_def)
qed

lemma distinct_map_filter:
  "distinct (map f xs) \<Longrightarrow> (\<And>x y. h x = Some y \<Longrightarrow> g y = f x) \<Longrightarrow> distinct (map g (List.map_filter h xs))"
proof (induction xs)
  case (Cons x xs)
  have "g y \<in> f ` set xs" if "y \<in> set (List.map_filter h xs)" for y
    using that Cons.prems(2) by (force simp: map_filter_def)
  then have "f x \<notin> g ` set (List.map_filter h xs)"
    using Cons.prems(1) by auto
  then show ?case
    using Cons by (auto simp: map_filter_simps split: option.splits)
qed (simp add: map_filter_simps)

lemma fk_registration_job_key [simp]: "fk_registration (job_key j) = pt_id (job_target j)"
  by (simp add: job_key_def split: option.splits prod.splits)

lemma distinct_job_keys: "distinct (map (\<lambda>j. pt_id (job_target j)) js) \<Longrightarrow> distinct (map job_key js)"
proof -
  assume "distinct (map (\<lambda>j. pt_id (job_target j)) js)"
  then have "distinct (map fk_registration (map job_key js))"
    by (simp add: comp_def)
  then show "distinct (map job_key js)"
    by (simp only: distinct_map)
qed

lemma in_map_filter: "y \<in> set (List.map_filter h xs) \<longleftrightarrow> (\<exists>x \<in> set xs. h x = Some y)"
  by (induction xs) (auto simp: map_filter_simps split: option.splits)

lemma jobs_for_fell:
  "set (jobs_for ob None (Some n) targets banner) =
     {\<lparr>job_target = t, job_work = Badge\<rparr> | t. t \<in> set targets \<and> pt_provider t = lit ''apns'' \<and> pt_badge t} \<union>
     {\<lparr>job_target = t, job_work = RoomRead (ob_account_id ob) (ob_room_id ob)\<rparr> | t.
        t \<in> set targets \<and> pt_provider t = lit ''fcm'' \<and> n = 0}" (is "?L = ?B \<union> ?R")
proof
  have neq: "lit ''fcm'' \<noteq> lit ''apns''"
    by (simp add: lit_def)
  show "?L \<subseteq> ?B \<union> ?R"
    by (auto simp: jobs_for_def in_map_filter split: if_split_asm)
  have "x \<in> ?L" if "x \<in> ?B" for x
    using that by (fastforce simp: jobs_for_def in_map_filter)
  moreover have "x \<in> ?L" if "x \<in> ?R" for x
    using that neq by (fastforce simp: jobs_for_def in_map_filter)
  ultimately show "?B \<union> ?R \<subseteq> ?L"
    by blast
qed

text \<open>One observation queues at most one job per device. With distinct registrations the jobs have
  distinct flight keys; an alert goes to every device; without one, a fall reaches exactly the
  badge-enabled APNs devices, and on a fall to zero the FCM devices too, those with a room-read
  message and the others with a badge.\<close>

theorem push_jobs_per_device:
  assumes "distinct (map pt_id targets)"
  shows "distinct (map job_key (jobs_for ob send fell targets banner)) \<and>
    (case (send, fell) of
       (Some message, _) \<Rightarrow> map job_target (jobs_for ob send fell targets banner) = targets \<and>
         job_work ` set (jobs_for ob send fell targets banner) \<subseteq>
           {Alert (ob_account_id ob) (ob_room_id ob) message banner}
     | (None, None) \<Rightarrow> jobs_for ob send fell targets banner = []
     | (None, Some n) \<Rightarrow> set (jobs_for ob send fell targets banner) =
         {\<lparr>job_target = t, job_work = Badge\<rparr> | t. t \<in> set targets \<and> pt_provider t = lit ''apns'' \<and> pt_badge t} \<union>
         {\<lparr>job_target = t, job_work = RoomRead (ob_account_id ob) (ob_room_id ob)\<rparr> | t.
            t \<in> set targets \<and> pt_provider t = lit ''fcm'' \<and> n = 0})"
proof
  have "distinct (map (\<lambda>j. pt_id (job_target j)) (jobs_for ob send fell targets banner))"
  proof (cases send)
    case None
    show ?thesis
    proof (cases fell)
      case (Some n)
      show ?thesis
        unfolding jobs_for_def Some \<open>send = None\<close> option.case
        by (intro distinct_map_filter [OF assms]) (auto split: if_split_asm)
    qed (simp add: jobs_for_def None)
  qed (use assms in \<open>simp add: jobs_for_def comp_def\<close>)
  then show "distinct (map job_key (jobs_for ob send fell targets banner))"
    by (rule distinct_job_keys)
  show "case (send, fell) of
       (Some message, _) \<Rightarrow> map job_target (jobs_for ob send fell targets banner) = targets \<and>
         job_work ` set (jobs_for ob send fell targets banner) \<subseteq>
           {Alert (ob_account_id ob) (ob_room_id ob) message banner}
     | (None, None) \<Rightarrow> jobs_for ob send fell targets banner = []
     | (None, Some n) \<Rightarrow> set (jobs_for ob send fell targets banner) =
         {\<lparr>job_target = t, job_work = Badge\<rparr> | t. t \<in> set targets \<and> pt_provider t = lit ''apns'' \<and> pt_badge t} \<union>
         {\<lparr>job_target = t, job_work = RoomRead (ob_account_id ob) (ob_room_id ob)\<rparr> | t.
            t \<in> set targets \<and> pt_provider t = lit ''fcm'' \<and> n = 0}"
  proof (cases send)
    case None
    then show ?thesis
      by (cases fell) (simp_all add: jobs_for_fell, simp add: jobs_for_def)
  qed (auto simp: jobs_for_def comp_def)
qed

theorem push_jobs_per_device_witness:
  "distinct (map job_key (jobs_for (demo_obs None) None (Some 0) [demo_target 1, demo_target 2] 0)) \<and>
   length (jobs_for (demo_obs None) None (Some 0) [demo_target 1, demo_target 2] 0) = 2"
proof -
  have "distinct (map pt_id [demo_target 1, demo_target 2])"
    by (simp add: demo_target_def)
  from push_jobs_per_device [OF this, of "demo_obs None" None "Some 0" 0] show ?thesis
    by (simp add: jobs_for_def map_filter_simps demo_target_def lit_def)
qed

text \<open>An alert can suppress a room-read message. The pair (3, 0) followed by (0, 1) with a notifying
  message is a fall of the notification count to zero and at the same time a rise, of the
  highlight count: the case list sends the alert, and no FCM device gets the room-read message.\<close>

theorem push_alert_can_suppress_room_read:
  "(let d = decide \<lparr>rs_seeded = True, rs_pair = (3, 0), rs_slot = None, rs_unpaired = None\<rparr>
          (Some (0, 1)) [demo_message];
        works = map job_work (jobs_for (demo_obs (Some (0, 1))) (de_send d) (de_notification_fell_to d)
          [demo_target 1] banner)
    in de_notification_fell_to d = Some 0 \<and> pt_provider (demo_target 1) = lit ''fcm'' \<and>
       works = [Alert 7 (lit ''!r'') demo_message banner])"
  by (simp add: decide_def Let_def latest_def demo_message_def jobs_for_def demo_obs_def demo_target_def)

end
