(* ===== verification/Push_Deliver.thy ===== *)
theory Push_Deliver
  imports Push_Router Push_Payload
begin

text \<open>
  Sending to APNs and FCM: \<^verbatim>\<open>crates/axon-sync/src/push/deliver.rs\<close> (\<^verbatim>\<open>LiveTransport\<close>, the
  verdicts, the token caches, the shared banner).

  What the code gets from outside is a field of \<open>deliver_env\<close>: the store's answers (each read is
  under a timeout, so its result is a \<open>timed\<close> value), the HTTP client's answer to a request,
  the clock, whether the send was found cancelled at each of its checks, JSON, signing and
  hashing. Everything the code does to the outside is recorded in the transport state: requests
  posted (\<open>tp_requests\<close>) and registrations deleted (\<open>tp_deleted\<close>). Log lines are left out.
\<close>

section \<open>Constants and data\<close>

definition APNS_JWT_TTL :: duration where
  "APNS_JWT_TTL = from_secs (50 * 60)"

definition FCM_REFRESH_SLACK :: duration where
  "FCM_REFRESH_SLACK = from_secs 60"

definition BODY_CAP :: nat where
  "BODY_CAP = 64 * 1024"

record apns_headers =
  ah_priority :: rstr
  ah_collapse :: "rstr option"

datatype provider_verdict = Sent | Delete | Keep

record provider_failure =
  pf_status :: "nat option"
  pf_reason :: "rstr option"
  pf_kind :: rstr

definition failure_status :: "nat \<Rightarrow> rstr option \<Rightarrow> provider_failure" where
  "failure_status status reason = \<lparr>pf_status = Some status, pf_reason = reason, pf_kind = lit ''status''\<rparr>"

definition failure_transport :: "rstr \<Rightarrow> provider_failure" where
  "failure_transport kind = \<lparr>pf_status = None, pf_reason = None, pf_kind = kind\<rparr>"

record loaded_apns =
  la_team_id :: rstr
  la_key_id :: rstr
  la_bundle_id :: rstr
  la_private_key :: "nat list"

record loaded_fcm =
  lf_project_id :: rstr
  lf_client_email :: rstr
  lf_package_name :: rstr
  lf_private_key :: "nat list"

record send_check =
  sc_target :: push_target
  sc_session_live :: bool

record cached_jwt =
  cj_value :: rstr
  cj_minted :: instant

record cached_fcm =
  cf_value :: rstr
  cf_good_until :: instant

record http_request =
  rq_url :: rstr
  rq_headers :: "(rstr \<times> rstr) list"
  rq_body :: "nat list"

record transport =
  tp_apns :: "loaded_apns option"
  tp_fcm :: "loaded_fcm option"
  tp_apns_jwt :: "cached_jwt option"
  tp_fcm_token :: "cached_fcm option"
  tp_apns_warned :: bool
  tp_fcm_warned :: bool
  tp_requests :: "http_request list"
  tp_deleted :: "uuid list"

text \<open>\<^verbatim>\<open>tokio::time::timeout\<close> around a fallible read.\<close>

datatype 'a timed = TimedOut | Failed | Answered 'a

text \<open>How a \<^verbatim>\<open>reqwest\<close> error is classified.\<close>

record reqwest_error =
  re_is_timeout :: bool
  re_is_connect :: bool

text \<open>
  A POST: \<open>HttpElapsed\<close> means the provider timeout around the whole send fires while the POST is
  awaited.
\<close>

datatype http_result = HttpElapsed | HttpFailed reqwest_error | HttpAnswer nat "nat list"

text \<open>Waiting for the refresh lock: it times out, or it is taken and the cell then holds a value.\<close>

datatype refresh_lock = LockElapsed | LockTaken "cached_fcm option"

record 'v deliver_env =
  en_api :: "'v json_api"
  en_from_slice :: "nat list \<Rightarrow> 'v option"
  en_to_vec :: serializer
  en_sha256 :: digest
  en_encode_es256 :: "rstr \<Rightarrow> json_value \<Rightarrow> nat list \<Rightarrow> rstr option"
  en_encode_rs256 :: "json_value \<Rightarrow> nat list \<Rightarrow> rstr option"
  en_uuid_string :: "uuid \<Rightarrow> rstr"
  en_now :: instant
  en_now_minted :: instant
  en_now_locked :: instant
  en_now_stored :: instant
  en_instant_max :: instant
  en_utc_now :: nat
  en_cancelled_first :: bool
  en_cancelled_second :: bool
  en_send_check :: "uuid \<Rightarrow> send_check option timed"
  en_room_name :: "uuid \<Rightarrow> rstr \<Rightarrow> rstr option timed"
  en_member_name :: "uuid \<Rightarrow> rstr \<Rightarrow> rstr \<Rightarrow> rstr option timed"
  en_badge_total :: "nat timed"
  en_refresh_lock :: refresh_lock
  en_http :: "http_request \<Rightarrow> http_result"

text \<open>The result of \<^verbatim>\<open>send_apns\<close> or \<^verbatim>\<open>send_fcm\<close> under the provider timeout.\<close>

datatype 'a send_result = SendElapsed | SendPanicked | SendErr provider_failure | SendOk 'a

section \<open>Verdicts\<close>

definition is_success :: "nat \<Rightarrow> bool" where
  "is_success status \<longleftrightarrow> 200 \<le> status \<and> status < 300"

record parsed_reason =
  pr_reason :: "rstr option"
  pr_timestamp_ms :: "int option"

definition parse_reason :: "'v deliver_env \<Rightarrow> nat list \<Rightarrow> parsed_reason" where
  "parse_reason env body =
     (if BODY_CAP < length body then \<lparr>pr_reason = None, pr_timestamp_ms = None\<rparr>
      else case en_from_slice env body of
        None \<Rightarrow> \<lparr>pr_reason = None, pr_timestamp_ms = None\<rparr>
      | Some v \<Rightarrow>
          \<lparr>pr_reason = or_else (js_get_str (en_api env) v ''reason'')
             (Option.bind (js_get (en_api env) v ''error'') (\<lambda>e. js_get_str (en_api env) e ''status'')),
           pr_timestamp_ms = Option.bind (js_get (en_api env) v ''timestamp'') (js_as_i64 (en_api env))\<rparr>)"

definition apns_verdict :: "'v deliver_env \<Rightarrow> nat \<Rightarrow> nat list \<Rightarrow> int \<Rightarrow> provider_verdict" where
  "apns_verdict env status body updated_at =
     (if is_success status then Sent
      else let parsed = parse_reason env body in
        if status = 410 \<and> pr_reason parsed = Some (lit ''Unregistered'') then
          (case pr_timestamp_ms parsed of
             None \<Rightarrow> Keep
           | Some timestamp \<Rightarrow> if updated_at < timestamp then Delete else Keep)
        else if status = 400 \<and> pr_reason parsed = Some (lit ''BadDeviceToken'') then Delete
        else Keep)"

definition fcm_verdict :: "'v deliver_env \<Rightarrow> nat \<Rightarrow> nat list \<Rightarrow> provider_verdict" where
  "fcm_verdict env status body =
     (if is_success status then Sent
      else if status = 404 \<and> pr_reason (parse_reason env body) = Some (lit ''UNREGISTERED'') then Delete
      else Keep)"

definition fcm_bearer_rejected :: "nat \<Rightarrow> bool" where
  "fcm_bearer_rejected status \<longleftrightarrow> status = 401"

definition apns_provider_token_rejected :: "'v deliver_env \<Rightarrow> nat \<Rightarrow> nat list \<Rightarrow> bool" where
  "apns_provider_token_rejected env status body \<longleftrightarrow> status = 403 \<and>
     (pr_reason (parse_reason env body) = Some (lit ''ExpiredProviderToken'') \<or>
      pr_reason (parse_reason env body) = Some (lit ''InvalidProviderToken''))"

definition transport_kind :: "reqwest_error \<Rightarrow> rstr" where
  "transport_kind e = (if re_is_timeout e then lit ''timeout''
     else if re_is_connect e then lit ''connect'' else lit ''transport'')"

section \<open>Form encoding\<close>

definition is_ascii_alphanumeric :: "nat \<Rightarrow> bool" where
  "is_ascii_alphanumeric b \<longleftrightarrow> (48 \<le> b \<and> b \<le> 57) \<or> (65 \<le> b \<and> b \<le> 90) \<or> (97 \<le> b \<and> b \<le> 122)"

definition unreserved :: "nat \<Rightarrow> bool" where
  "unreserved b \<longleftrightarrow> is_ascii_alphanumeric b \<or> b = 45 \<or> b = 95 \<or> b = 46 \<or> b = 126"

definition upper_hex :: "nat \<Rightarrow> nat" where
  "upper_hex d = (if d < 10 then 48 + d else 55 + d)"

definition form_encode_byte :: "nat \<Rightarrow> rstr" where
  "form_encode_byte b = (if unreserved b then [b] else [37, upper_hex (b div 16), upper_hex (b mod 16)])"

definition form_encode :: "rstr \<Rightarrow> rstr" where
  "form_encode value = concat (map form_encode_byte (utf8 value))"

section \<open>HTTP\<close>

definition limited_body :: "nat list \<Rightarrow> nat list" where
  "limited_body bytes = (if BODY_CAP < length bytes then [] else bytes)"

text \<open>Posting a request records it; the answer is the environment's.\<close>

definition http_post ::
  "'v deliver_env \<Rightarrow> http_request \<Rightarrow> transport \<Rightarrow> (nat \<times> nat list) send_result \<times> transport"
where
  "http_post env req tp =
     ((case en_http env req of
         HttpElapsed \<Rightarrow> SendElapsed
       | HttpFailed e \<Rightarrow> SendErr (failure_transport (transport_kind e))
       | HttpAnswer status bytes \<Rightarrow> SendOk (status, limited_body bytes)),
      tp\<lparr>tp_requests := tp_requests tp @ [req]\<rparr>)"

definition post_json ::
  "'v deliver_env \<Rightarrow> rstr \<Rightarrow> string \<Rightarrow> rstr \<Rightarrow> (rstr \<times> rstr) list \<Rightarrow> nat list \<Rightarrow> transport \<Rightarrow>
   (nat \<times> nat list) send_result \<times> transport"
where
  "post_json env url scheme bearer headers body tp =
     http_post env \<lparr>rq_url = url,
       rq_headers = [(lit ''authorization'', lit scheme @ lit '' '' @ bearer),
                     (lit ''content-type'', lit ''application/json'')] @ headers,
       rq_body = body\<rparr> tp"

definition apns_request_headers :: "rstr \<Rightarrow> apns_headers \<Rightarrow> (rstr \<times> rstr) list" where
  "apns_request_headers topic headers =
     [(lit ''apns-topic'', topic), (lit ''apns-push-type'', lit ''alert''),
      (lit ''apns-priority'', ah_priority headers)] @
     (case ah_collapse headers of Some collapse \<Rightarrow> [(lit ''apns-collapse-id'', collapse)] | None \<Rightarrow> [])"

section \<open>Token caches\<close>

definition invalidate_apns_jwt :: "transport \<Rightarrow> transport" where
  "invalidate_apns_jwt tp = tp\<lparr>tp_apns_jwt := None\<rparr>"

definition invalidate_fcm_token :: "transport \<Rightarrow> transport" where
  "invalidate_fcm_token tp = tp\<lparr>tp_fcm_token := None\<rparr>"

definition apns_jwt :: "'v deliver_env \<Rightarrow> loaded_apns \<Rightarrow> transport \<Rightarrow> rstr send_result \<times> transport" where
  "apns_jwt env apns tp =
     (let mint =
        (case en_encode_es256 env (la_key_id apns)
           (jobj [(''iss'', JString (la_team_id apns)), (''iat'', JNumber (int (en_utc_now env)))])
           (la_private_key apns) of
           None \<Rightarrow> (SendErr (failure_transport (lit ''signing'')), tp)
         | Some value \<Rightarrow>
             (SendOk value, tp\<lparr>tp_apns_jwt := Some \<lparr>cj_value = value, cj_minted = en_now_minted env\<rparr>\<rparr>))
      in case tp_apns_jwt tp of
           Some cached \<Rightarrow>
             if saturating_duration_since (en_now env) (cj_minted cached) < APNS_JWT_TTL
             then (SendOk (cj_value cached), tp) else mint
         | None \<Rightarrow> mint)"

definition fresh_fcm :: "instant \<Rightarrow> transport \<Rightarrow> rstr option" where
  "fresh_fcm now tp = Option.bind (tp_fcm_token tp)
     (\<lambda>cached. if now < cf_good_until cached then Some (cf_value cached) else None)"

text \<open>\<^verbatim>\<open>Instant + Duration\<close> panics past the last representable instant.\<close>

definition fcm_good_until :: "'v deliver_env \<Rightarrow> nat \<Rightarrow> instant option" where
  "fcm_good_until env expires_in =
     (let slack = min FCM_REFRESH_SLACK (from_secs expires_in) in
      if en_instant_max env < en_now_stored env + from_secs expires_in then None
      else Some (en_now_stored env + from_secs expires_in - slack))"

definition fcm_token_request :: "rstr \<Rightarrow> http_request" where
  "fcm_token_request assertion =
     \<lparr>rq_url = lit ''https://oauth2.googleapis.com/token'',
      rq_headers = [(lit ''content-type'', lit ''application/x-www-form-urlencoded'')],
      rq_body = utf8 (lit ''grant_type='' @ form_encode (lit ''urn:ietf:params:oauth:grant-type:jwt-bearer'') @
        lit ''&assertion='' @ form_encode assertion)\<rparr>"

definition fcm_store_token ::
  "'v deliver_env \<Rightarrow> nat list \<Rightarrow> transport \<Rightarrow> rstr send_result \<times> transport"
where
  "fcm_store_token env body tp =
     (case en_from_slice env body of
        None \<Rightarrow> (SendErr (failure_transport (lit ''token'')), tp)
      | Some parsed \<Rightarrow>
          (case js_get_str (en_api env) parsed ''access_token'' of
             None \<Rightarrow> (SendErr (failure_transport (lit ''token'')), tp)
           | Some value \<Rightarrow>
               if value = [] then (SendErr (failure_transport (lit ''token'')), tp)
               else
                 let expires_in = (case Option.bind (js_get (en_api env) parsed ''expires_in'')
                                          (js_as_u64 (en_api env)) of Some n \<Rightarrow> n | None \<Rightarrow> 3600)
                 in case fcm_good_until env expires_in of
                      None \<Rightarrow> (SendPanicked, tp)
                    | Some t \<Rightarrow>
                        (SendOk value,
                         tp\<lparr>tp_fcm_token := Some \<lparr>cf_value = value, cf_good_until = t\<rparr>\<rparr>)))"

definition fcm_refresh :: "'v deliver_env \<Rightarrow> loaded_fcm \<Rightarrow> transport \<Rightarrow> rstr send_result \<times> transport" where
  "fcm_refresh env fcm tp =
     (case en_encode_rs256 env
        (jobj [(''iss'', JString (lf_client_email fcm)),
                  (''scope'', JString (lit ''https://www.googleapis.com/auth/firebase.messaging'')),
                  (''aud'', JString (lit ''https://oauth2.googleapis.com/token'')),
                  (''iat'', JNumber (int (en_utc_now env))), (''exp'', JNumber (int (en_utc_now env) + 3600))])
        (lf_private_key fcm) of
        None \<Rightarrow> (SendErr (failure_transport (lit ''signing'')), tp)
      | Some assertion \<Rightarrow>
          (case http_post env (fcm_token_request assertion) tp of
             (SendOk (status, body), tp1) \<Rightarrow>
               if \<not> is_success status
               then (SendErr (failure_status status (pr_reason (parse_reason env body))), tp1)
               else fcm_store_token env body tp1
           | (SendErr e, tp1) \<Rightarrow> (SendErr e, tp1)
           | (SendElapsed, tp1) \<Rightarrow> (SendElapsed, tp1)
           | (SendPanicked, tp1) \<Rightarrow> (SendPanicked, tp1)))"

definition fcm_bearer :: "'v deliver_env \<Rightarrow> loaded_fcm \<Rightarrow> transport \<Rightarrow> rstr send_result \<times> transport" where
  "fcm_bearer env fcm tp =
     (case fresh_fcm (en_now env) tp of
        Some token \<Rightarrow> (SendOk token, tp)
      | None \<Rightarrow>
          (case en_refresh_lock env of
             LockElapsed \<Rightarrow> (SendElapsed, tp)
           | LockTaken cell \<Rightarrow>
               let tp1 = tp\<lparr>tp_fcm_token := cell\<rparr> in
               (case fresh_fcm (en_now_locked env) tp1 of
                  Some token \<Rightarrow> (SendOk token, tp1)
                | None \<Rightarrow> fcm_refresh env fcm tp1)))"

section \<open>One send\<close>

definition send_apns ::
  "'v deliver_env \<Rightarrow> loaded_apns \<Rightarrow> push_target \<Rightarrow> apns_headers \<Rightarrow> nat list \<Rightarrow> transport \<Rightarrow>
   provider_verdict send_result \<times> transport"
where
  "send_apns env apns target headers body tp =
     (let go = (\<lambda>host.
        (case apns_jwt env apns tp of
           (SendOk jwt, tp1) \<Rightarrow>
             (case post_json env (lit host @ lit ''/3/device/'' @ form_encode (pt_token target))
                ''bearer'' jwt (apns_request_headers (la_bundle_id apns) headers) body tp1 of
                (SendOk (status, response_body), tp2) \<Rightarrow>
                  (SendOk (apns_verdict env status response_body (pt_updated_at target)),
                   if apns_provider_token_rejected env status response_body
                   then invalidate_apns_jwt tp2 else tp2)
              | (SendErr e, tp2) \<Rightarrow> (SendErr e, tp2)
              | (SendElapsed, tp2) \<Rightarrow> (SendElapsed, tp2)
              | (SendPanicked, tp2) \<Rightarrow> (SendPanicked, tp2))
         | (SendErr e, tp1) \<Rightarrow> (SendErr e, tp1)
         | (SendElapsed, tp1) \<Rightarrow> (SendElapsed, tp1)
         | (SendPanicked, tp1) \<Rightarrow> (SendPanicked, tp1)))
      in if pt_environment target = Some (lit ''sandbox'') then go ''https://api.sandbox.push.apple.com''
         else if pt_environment target = Some (lit ''production'') then go ''https://api.push.apple.com''
         else (SendOk Keep, tp))"

definition send_fcm ::
  "'v deliver_env \<Rightarrow> loaded_fcm \<Rightarrow> push_target \<Rightarrow> nat list \<Rightarrow> transport \<Rightarrow>
   provider_verdict send_result \<times> transport"
where
  "send_fcm env fcm target body tp =
     (case fcm_bearer env fcm tp of
        (SendOk bearer, tp1) \<Rightarrow>
          (case post_json env (lit ''https://fcm.googleapis.com/v1/projects/'' @ lf_project_id fcm @
               lit ''/messages:send'') ''Bearer'' bearer [] body tp1 of
             (SendOk (status, response_body), tp2) \<Rightarrow>
               (SendOk (fcm_verdict env status response_body),
                if fcm_bearer_rejected status then invalidate_fcm_token tp2 else tp2)
           | (SendErr e, tp2) \<Rightarrow> (SendErr e, tp2)
           | (SendElapsed, tp2) \<Rightarrow> (SendElapsed, tp2)
           | (SendPanicked, tp2) \<Rightarrow> (SendPanicked, tp2))
      | (SendErr e, tp1) \<Rightarrow> (SendErr e, tp1)
      | (SendElapsed, tp1) \<Rightarrow> (SendElapsed, tp1)
      | (SendPanicked, tp1) \<Rightarrow> (SendPanicked, tp1))"

text \<open>\<^verbatim>\<open>flag.swap(true)\<close>: the flag only chooses the level of the log line.\<close>

definition warn_unconfigured :: "string \<Rightarrow> transport \<Rightarrow> transport" where
  "warn_unconfigured provider tp =
     (if provider = ''apns'' then tp\<lparr>tp_apns_warned := True\<rparr> else tp\<lparr>tp_fcm_warned := True\<rparr>)"

text \<open>
  The verdict after the timeout and the errors are folded into \<^verbatim>\<open>Keep\<close>; \<open>None\<close> when the send
  panicked, which ends the task.
\<close>

definition settle :: "provider_verdict send_result \<Rightarrow> provider_verdict option" where
  "settle result = (case result of SendOk v \<Rightarrow> Some v | SendErr _ \<Rightarrow> Some Keep | SendElapsed \<Rightarrow> Some Keep
     | SendPanicked \<Rightarrow> None)"

definition send_configured_apns ::
  "'v deliver_env \<Rightarrow> push_target \<Rightarrow> apns_headers \<Rightarrow> nat list \<Rightarrow> transport \<Rightarrow>
   provider_verdict option \<times> transport"
where
  "send_configured_apns env target headers body tp =
     (case tp_apns tp of
        None \<Rightarrow> (Some Keep, warn_unconfigured ''apns'' tp)
      | Some apns \<Rightarrow> (case send_apns env apns target headers body tp of (res, tp1) \<Rightarrow> (settle res, tp1)))"

definition send_configured_fcm ::
  "'v deliver_env \<Rightarrow> push_target \<Rightarrow> nat list \<Rightarrow> transport \<Rightarrow> provider_verdict option \<times> transport"
where
  "send_configured_fcm env target body tp =
     (case tp_fcm tp of
        None \<Rightarrow> (Some Keep, warn_unconfigured ''fcm'' tp)
      | Some fcm \<Rightarrow> (case send_fcm env fcm target body tp of (res, tp1) \<Rightarrow> (settle res, tp1)))"

definition delete_registration :: "uuid \<Rightarrow> transport \<Rightarrow> transport" where
  "delete_registration i tp = tp\<lparr>tp_deleted := tp_deleted tp @ [i]\<rparr>"

definition apply_verdict :: "push_target \<Rightarrow> provider_verdict option \<times> transport \<Rightarrow> transport" where
  "apply_verdict target vt =
     (case vt of (v, tp) \<Rightarrow> if v = Some Delete then delete_registration (pt_id target) tp else tp)"

definition resolve_target ::
  "'v deliver_env \<Rightarrow> push_target \<Rightarrow> transport \<Rightarrow> push_target option \<times> transport"
where
  "resolve_target env snapshot tp =
     (case en_send_check env (pt_id snapshot) of
        Answered (Some check) \<Rightarrow>
          if \<not> sc_session_live check then (None, delete_registration (pt_id snapshot) tp)
          else (Some (sc_target check), tp)
      | Answered None \<Rightarrow> (None, tp)
      | Failed \<Rightarrow> (Some snapshot, tp)
      | TimedOut \<Rightarrow> (Some snapshot, tp))"

definition read_badge_total :: "'v deliver_env \<Rightarrow> nat option" where
  "read_badge_total env = (case en_badge_total env of Answered n \<Rightarrow> Some n | Failed \<Rightarrow> None | TimedOut \<Rightarrow> None)"

section \<open>The shared banner\<close>

definition banner_names :: "'v deliver_env \<Rightarrow> uuid \<Rightarrow> rstr \<Rightarrow> rstr \<Rightarrow> rstr option \<times> rstr" where
  "banner_names env account_id room_id sender =
     ((case en_room_name env account_id room_id of
         Answered name \<Rightarrow> name | Failed \<Rightarrow> None | TimedOut \<Rightarrow> None),
      (case en_member_name env account_id room_id sender of
         Answered (Some name) \<Rightarrow> name
       | Answered None \<Rightarrow> at_localpart sender
       | Failed \<Rightarrow> at_localpart sender
       | TimedOut \<Rightarrow> at_localpart sender))"

definition banner_resolve :: "'v deliver_env \<Rightarrow> shared_banner \<Rightarrow> (rstr option \<times> rstr) \<times> shared_banner" where
  "banner_resolve env b =
     (case sb_once b of
        Some names \<Rightarrow> (names, b)
      | None \<Rightarrow> let names = banner_names env (sb_account_id b) (sb_room_id b) (sb_sender b)
                in (names, b\<lparr>sb_once := Some names\<rparr>))"

text \<open>\<^verbatim>\<open>get_or_try_init\<close>: a failed read leaves the cell empty.\<close>

definition keep_success :: "nat option \<Rightarrow> nat option \<Rightarrow> nat option \<times> nat option" where
  "keep_success cell read = (case cell of Some n \<Rightarrow> (Some n, cell) | None \<Rightarrow> (read, read))"

definition badge_total :: "'v deliver_env \<Rightarrow> shared_banner \<Rightarrow> nat option \<times> shared_banner" where
  "badge_total env b =
     (case keep_success (sb_badge b) (read_badge_total env) of (res, cell) \<Rightarrow> (res, b\<lparr>sb_badge := cell\<rparr>))"

section \<open>Deliveries\<close>

definition send_badge :: "'v deliver_env \<Rightarrow> push_target \<Rightarrow> nat \<Rightarrow> transport \<Rightarrow> transport" where
  "send_badge env target n tp =
     apply_verdict target
       (send_configured_apns env target \<lparr>ah_priority = lit ''5'', ah_collapse = None\<rparr>
          (apns_badge_body (en_to_vec env) n) tp)"

definition deliver ::
  "'v deliver_env \<Rightarrow> push_target \<Rightarrow> uuid \<Rightarrow> rstr \<Rightarrow> push_message \<Rightarrow> shared_banner \<Rightarrow> transport \<Rightarrow>
   transport \<times> shared_banner"
where
  "deliver env snapshot account_id room_id message b0 tp =
     (if en_cancelled_first env then (tp, b0)
      else case resolve_target env snapshot tp of
        (None, tp1) \<Rightarrow> (tp1, b0)
      | (Some target, tp1) \<Rightarrow>
          if en_cancelled_second env then (tp1, b0)
          else
            let (names, b1) = banner_resolve env b0;
                (badge, b2) = (if pt_provider target = lit ''apns'' \<and> pt_badge target
                               then badge_total env b1 else (None, b1))
            in case fit_outbound (en_to_vec env) (en_sha256 env)
                   \<lparr>or_provider = pt_provider target, or_disclosure = pt_disclosure target,
                    or_room_name = fst names, or_sender_display = snd names,
                    or_account_id = en_uuid_string env account_id, or_room_id = room_id,
                    or_message = message, or_fcm_token = pt_token target, or_badge = badge\<rparr> of
                 None \<Rightarrow>
                   (case badge of
                      Some n \<Rightarrow> (send_badge env target n tp1, b2)
                    | None \<Rightarrow> (tp1, b2))
               | Some (body, collapse) \<Rightarrow>
                   if pt_provider target = lit ''apns'' then
                     (apply_verdict target
                        (send_configured_apns env target
                           \<lparr>ah_priority = lit ''10'', ah_collapse = Some collapse\<rparr> body tp1), b2)
                   else if pt_provider target = lit ''fcm'' then
                     (apply_verdict target (send_configured_fcm env target body tp1), b2)
                   else (tp1, b2))"

definition deliver_badge :: "'v deliver_env \<Rightarrow> push_target \<Rightarrow> transport \<Rightarrow> transport" where
  "deliver_badge env snapshot tp =
     (if en_cancelled_first env then tp
      else case resolve_target env snapshot tp of
        (None, tp1) \<Rightarrow> tp1
      | (Some target, tp1) \<Rightarrow>
          if pt_provider target \<noteq> lit ''apns'' \<or> \<not> pt_badge target then tp1
          else if en_cancelled_second env then tp1
          else case read_badge_total env of
            None \<Rightarrow> tp1
          | Some n \<Rightarrow> send_badge env target n tp1)"

definition deliver_room_read ::
  "'v deliver_env \<Rightarrow> push_target \<Rightarrow> uuid \<Rightarrow> rstr \<Rightarrow> transport \<Rightarrow> transport"
where
  "deliver_room_read env snapshot account_id room_id tp =
     (if en_cancelled_first env then tp
      else case resolve_target env snapshot tp of
        (None, tp1) \<Rightarrow> tp1
      | (Some target, tp1) \<Rightarrow>
          if pt_provider target \<noteq> lit ''fcm'' then tp1
          else if en_cancelled_second env then tp1
          else
            let collapse = collapse_id (en_sha256 env) room_id in
            apply_verdict target
              (send_configured_fcm env target
                 (fcm_room_read_body (en_to_vec env) (pt_token target) (en_uuid_string env account_id)
                    room_id collapse) tp1))"

text \<open>\<^verbatim>\<open>run_send\<close>, when it is not cancelled from outside.\<close>

definition run_send :: "'v deliver_env \<Rightarrow> job \<Rightarrow> shared_banner \<Rightarrow> transport \<Rightarrow> transport \<times> shared_banner" where
  "run_send env j b tp =
     (case job_work j of
        Alert account_id room_id message _ \<Rightarrow> deliver env (job_target j) account_id room_id message b tp
      | RoomRead account_id room_id \<Rightarrow> (deliver_room_read env (job_target j) account_id room_id tp, b)
      | Badge \<Rightarrow> (deliver_badge env (job_target j) tp, b))"

section \<open>Facts\<close>

text \<open>What a piece of a send posts; none of them deletes a registration.\<close>

definition posted :: "transport \<Rightarrow> http_request list \<Rightarrow> transport \<Rightarrow> bool" where
  "posted tp rs tp' \<longleftrightarrow> tp_requests tp' = tp_requests tp @ rs \<and> tp_deleted tp' = tp_deleted tp"

lemma posted_refl [simp]: "posted tp [] tp"
  by (simp add: posted_def)

lemma posted_trans: "posted tp rs tp1 \<Longrightarrow> posted tp1 rs' tp2 \<Longrightarrow> posted tp (rs @ rs') tp2"
  by (simp add: posted_def)

lemma posted_cells [simp]:
  "posted tp rs (tp'\<lparr>tp_apns_jwt := x\<rparr>) = posted tp rs tp'"
  "posted tp rs (tp'\<lparr>tp_fcm_token := y\<rparr>) = posted tp rs tp'"
  "posted tp rs (tp'\<lparr>tp_apns_warned := w\<rparr>) = posted tp rs tp'"
  "posted tp rs (tp'\<lparr>tp_fcm_warned := w\<rparr>) = posted tp rs tp'"
  "posted (tp\<lparr>tp_fcm_token := y\<rparr>) rs tp' = posted tp rs tp'"
  by (simp_all add: posted_def)

lemma posted_snoc [simp]: "posted tp rs (tp\<lparr>tp_requests := tp_requests tp @ [q]\<rparr>) \<longleftrightarrow> rs = [q]"
  by (auto simp: posted_def)

lemma apns_jwt_posted: "posted tp [] (snd (apns_jwt env apns tp))"
  by (simp add: apns_jwt_def Let_def split: option.splits)

lemma fcm_store_token_posted: "posted tp [] (snd (fcm_store_token env body tp))"
  by (simp add: fcm_store_token_def Let_def split: option.splits)

lemma fcm_refresh_posted:
  "\<exists>rs. posted tp rs (snd (fcm_refresh env fcm tp)) \<and> length rs \<le> 1 \<and>
     set rs \<subseteq> range fcm_token_request"
proof (cases "en_encode_rs256 env
    (jobj [(''iss'', JString (lf_client_email fcm)),
              (''scope'', JString (lit ''https://www.googleapis.com/auth/firebase.messaging'')),
              (''aud'', JString (lit ''https://oauth2.googleapis.com/token'')),
              (''iat'', JNumber (int (en_utc_now env))), (''exp'', JNumber (int (en_utc_now env) + 3600))])
    (lf_private_key fcm)")
  case None
  then show ?thesis
    by (intro exI [of _ "[]"]) (simp add: fcm_refresh_def)
next
  case (Some a)
  let ?q = "fcm_token_request a" and ?tp = "tp\<lparr>tp_requests := tp_requests tp @ [fcm_token_request a]\<rparr>"
  have "posted tp [?q] (snd (fcm_store_token env body ?tp))" for body
    using posted_trans [of tp "[?q]" ?tp "[]"] fcm_store_token_posted [of ?tp env body] by simp
  then have "posted tp [?q] (snd (fcm_refresh env fcm tp))"
    using Some by (simp add: fcm_refresh_def http_post_def split: http_result.splits)
  then show ?thesis
    by (intro exI [of _ "[?q]"]) simp
qed

lemma fcm_bearer_posted:
  "\<exists>rs. posted tp rs (snd (fcm_bearer env fcm tp)) \<and> length rs \<le> 1 \<and> set rs \<subseteq> range fcm_token_request"
proof -
  have none: "\<exists>rs. posted tp rs tp \<and> length rs \<le> 1 \<and> set rs \<subseteq> range fcm_token_request"
    by (intro exI [of _ "[]"]) simp
  have cell: "\<exists>rs. posted tp rs (tp\<lparr>tp_fcm_token := c\<rparr>) \<and> length rs \<le> 1 \<and> set rs \<subseteq> range fcm_token_request" for c
    using none by simp
  show ?thesis
    unfolding fcm_bearer_def Let_def
    using none cell fcm_refresh_posted [of "tp\<lparr>tp_fcm_token := c\<rparr>" env fcm for c]
    by (auto split: option.splits refresh_lock.splits)
qed

definition apns_device_url :: "push_target \<Rightarrow> rstr \<Rightarrow> bool" where
  "apns_device_url target url \<longleftrightarrow>
     (\<exists>host \<in> {''https://api.sandbox.push.apple.com'', ''https://api.push.apple.com''}.
        url = lit host @ lit ''/3/device/'' @ form_encode (pt_token target))"

definition fcm_send_url :: "loaded_fcm \<Rightarrow> rstr" where
  "fcm_send_url fcm = lit ''https://fcm.googleapis.com/v1/projects/'' @ lf_project_id fcm @ lit ''/messages:send''"

lemma send_apns_posted:
  assumes "send_apns env apns target headers body tp = (res, tp')"
  shows "\<exists>rs. posted tp rs tp' \<and> length rs \<le> 1 \<and> (\<forall>q \<in> set rs. apns_device_url target (rq_url q) \<and> rq_body q = body) \<and>
    (\<forall>v. res = SendOk v \<longrightarrow> v = Keep \<and> rs = [] \<or>
       (\<exists>q status bytes. rs = [q] \<and> en_http env q = HttpAnswer status bytes \<and>
          v = apns_verdict env status (limited_body bytes) (pt_updated_at target)))"
proof -
  obtain jr tp1 where jwt: "apns_jwt env apns tp = (jr, tp1)"
    by fastforce
  then have p1: "posted tp [] tp1"
    using apns_jwt_posted [of tp env apns] by simp
  show ?thesis
  proof (cases "pt_environment target = Some (lit ''sandbox'') \<or> pt_environment target = Some (lit ''production'')")
    case False
    then have "res = SendOk Keep" "tp' = tp"
      using assms by (auto simp: send_apns_def Let_def)
    then show ?thesis
      by (intro exI [of _ "[]"]) simp
  next
    case True
    define host where "host = (if pt_environment target = Some (lit ''sandbox'')
      then ''https://api.sandbox.push.apple.com'' else ''https://api.push.apple.com'')"
    define q where "q = (\<lambda>jwt. \<lparr>rq_url = lit host @ lit ''/3/device/'' @ form_encode (pt_token target),
       rq_headers = [(lit ''authorization'', lit ''bearer'' @ lit '' '' @ jwt),
                     (lit ''content-type'', lit ''application/json'')] @
         apns_request_headers (la_bundle_id apns) headers, rq_body = body\<rparr>)"
    have url: "apns_device_url target (rq_url (q jwt))" "rq_body (q jwt) = body" for jwt
      by (auto simp: apns_device_url_def q_def host_def)
    show ?thesis
    proof (cases jr)
      case (SendOk jw)
      let ?tp2 = "tp1\<lparr>tp_requests := tp_requests tp1 @ [q jw]\<rparr>"
      have p2: "posted tp [q jw] ?tp2"
        using posted_trans [OF p1, of "[q jw]" ?tp2] by simp
      have eq: "send_apns env apns target headers body tp =
          (case http_post env (q jw) tp1 of
             (SendOk (status, rb), tp2) \<Rightarrow> (SendOk (apns_verdict env status rb (pt_updated_at target)),
                if apns_provider_token_rejected env status rb then invalidate_apns_jwt tp2 else tp2)
           | (SendErr e, tp2) \<Rightarrow> (SendErr e, tp2) | (SendElapsed, tp2) \<Rightarrow> (SendElapsed, tp2)
           | (SendPanicked, tp2) \<Rightarrow> (SendPanicked, tp2))"
        using True SendOk jwt by (auto simp: send_apns_def Let_def post_json_def q_def host_def)
      have "posted tp [q jw] tp'"
        using assms p2 unfolding eq
        by (auto simp: http_post_def invalidate_apns_jwt_def split: http_result.splits if_split_asm)
      moreover have "v = apns_verdict env status (limited_body bytes) (pt_updated_at target)"
        if "res = SendOk v" "en_http env (q jw) = HttpAnswer status bytes" for v status bytes
        using assms that unfolding eq by (auto simp: http_post_def)
      moreover have "\<exists>status bytes. en_http env (q jw) = HttpAnswer status bytes" if "res = SendOk v" for v
        using assms that unfolding eq by (auto simp: http_post_def split: http_result.splits)
      ultimately show ?thesis
        using url by (intro exI [of _ "[q jw]"]) auto
    qed (use True assms jwt p1 in \<open>auto simp: send_apns_def Let_def intro!: exI [of _ "[]"] split: if_split_asm\<close>)
  qed
qed

lemma send_fcm_posted:
  assumes "send_fcm env fcm target body tp = (res, tp')"
  shows "\<exists>rs rs'. posted tp (rs @ rs') tp' \<and> length rs \<le> 1 \<and> set rs \<subseteq> range fcm_token_request \<and> length rs' \<le> 1 \<and>
    (\<forall>q \<in> set rs'. rq_url q = fcm_send_url fcm \<and> rq_body q = body) \<and>
    (\<forall>v. res = SendOk v \<longrightarrow> (\<exists>q status bytes. rs' = [q] \<and> en_http env q = HttpAnswer status bytes \<and>
          v = fcm_verdict env status (limited_body bytes)))"
proof -
  obtain br tp1 where bearer: "fcm_bearer env fcm tp = (br, tp1)"
    by fastforce
  then obtain rs where p1: "posted tp rs tp1" "length rs \<le> 1" "set rs \<subseteq> range fcm_token_request"
    using fcm_bearer_posted [of tp env fcm] by auto
  show ?thesis
  proof (cases br)
    case (SendOk tok)
    define q where "q = \<lparr>rq_url = fcm_send_url fcm,
       rq_headers = [(lit ''authorization'', lit ''Bearer'' @ lit '' '' @ tok),
                     (lit ''content-type'', lit ''application/json'')] @ [], rq_body = body\<rparr>"
    let ?tp2 = "tp1\<lparr>tp_requests := tp_requests tp1 @ [q]\<rparr>"
    have p2: "posted tp (rs @ [q]) ?tp2"
      using posted_trans [OF p1(1), of "[q]" ?tp2] by simp
    have eq: "send_fcm env fcm target body tp =
        (case http_post env q tp1 of
           (SendOk (status, rb), tp2) \<Rightarrow> (SendOk (fcm_verdict env status rb),
              if fcm_bearer_rejected status then invalidate_fcm_token tp2 else tp2)
         | (SendErr e, tp2) \<Rightarrow> (SendErr e, tp2) | (SendElapsed, tp2) \<Rightarrow> (SendElapsed, tp2)
         | (SendPanicked, tp2) \<Rightarrow> (SendPanicked, tp2))"
      using SendOk bearer by (simp add: send_fcm_def post_json_def q_def fcm_send_url_def)
    have "posted tp (rs @ [q]) tp'"
      using assms p2 unfolding eq
      by (auto simp: http_post_def invalidate_fcm_token_def split: http_result.splits if_split_asm)
    moreover have "\<exists>status bytes. en_http env q = HttpAnswer status bytes \<and>
        v = fcm_verdict env status (limited_body bytes)" if "res = SendOk v" for v
      using assms that unfolding eq by (auto simp: http_post_def split: http_result.splits)
    ultimately show ?thesis
      using p1(2,3) by (intro exI [of _ rs] exI [of _ "[q]"]) (simp add: q_def)
  qed (rule exI [of _ rs], rule exI [of _ "[]"], use assms bearer p1 in \<open>auto simp: send_fcm_def\<close>)+
qed

text \<open>
  A provider answer that means the device token is dead, as the providers document it: an APNs
  \<^verbatim>\<open>Unregistered\<close> newer than the registration, an APNs \<^verbatim>\<open>BadDeviceToken\<close>, an FCM \<^verbatim>\<open>UNREGISTERED\<close>.
\<close>

definition dead_answer :: "'v deliver_env \<Rightarrow> push_target \<Rightarrow> http_request \<Rightarrow> bool" where
  "dead_answer env target q \<longleftrightarrow>
     (\<exists>status bytes p. en_http env q = HttpAnswer status bytes \<and> p = parse_reason env (limited_body bytes) \<and>
        (status = 410 \<and> pr_reason p = Some (lit ''Unregistered'') \<and>
           (\<exists>t > pt_updated_at target. pr_timestamp_ms p = Some t) \<or>
         status = 400 \<and> pr_reason p = Some (lit ''BadDeviceToken'') \<or>
         status = 404 \<and> pr_reason p = Some (lit ''UNREGISTERED'')))"

lemma apns_verdict_Delete:
  "apns_verdict env status body updated_at = Delete \<Longrightarrow>
     status = 410 \<and> pr_reason (parse_reason env body) = Some (lit ''Unregistered'') \<and>
       (\<exists>t > updated_at. pr_timestamp_ms (parse_reason env body) = Some t) \<or>
     status = 400 \<and> pr_reason (parse_reason env body) = Some (lit ''BadDeviceToken'')"
  by (auto simp: apns_verdict_def Let_def split: if_split_asm option.splits)

lemma fcm_verdict_Delete:
  "fcm_verdict env status body = Delete \<Longrightarrow>
     status = 404 \<and> pr_reason (parse_reason env body) = Some (lit ''UNREGISTERED'')"
  by (simp add: fcm_verdict_def split: if_split_asm)

lemma dead_answer_verdicts:
  assumes "en_http env q = HttpAnswer status bytes"
  shows "apns_verdict env status (limited_body bytes) (pt_updated_at target) = Delete \<Longrightarrow> dead_answer env target q"
    and "fcm_verdict env status (limited_body bytes) = Delete \<Longrightarrow> dead_answer env target q"
proof -
  have *: "dead_answer env target q \<longleftrightarrow>
      status = 410 \<and> pr_reason (parse_reason env (limited_body bytes)) = Some (lit ''Unregistered'') \<and>
        (\<exists>t > pt_updated_at target. pr_timestamp_ms (parse_reason env (limited_body bytes)) = Some t) \<or>
      status = 400 \<and> pr_reason (parse_reason env (limited_body bytes)) = Some (lit ''BadDeviceToken'') \<or>
      status = 404 \<and> pr_reason (parse_reason env (limited_body bytes)) = Some (lit ''UNREGISTERED'')"
    by (simp add: dead_answer_def assms)
  show "dead_answer env target q"
    if "apns_verdict env status (limited_body bytes) (pt_updated_at target) = Delete"
    unfolding * using apns_verdict_Delete [OF that] by blast
  show "dead_answer env target q" if "fcm_verdict env status (limited_body bytes) = Delete"
    unfolding * using fcm_verdict_Delete [OF that] by blast
qed

text \<open>
  What a whole delivery does to the outside: the requests it posts and the registrations it
  deletes, with the reason.
\<close>

definition push_requests :: "http_request list \<Rightarrow> http_request list" where
  "push_requests rs = filter (\<lambda>q. q \<notin> range fcm_token_request) rs"

definition delivery_ok ::
  "'v deliver_env \<Rightarrow> push_target \<Rightarrow> transport \<Rightarrow> transport \<Rightarrow> bool"
where
  "delivery_ok env target tp tp' \<longleftrightarrow>
     (\<exists>rs ds. tp_requests tp' = tp_requests tp @ rs \<and> tp_deleted tp' = tp_deleted tp @ ds \<and>
        length rs \<le> 2 \<and> length (push_requests rs) \<le> 1 \<and>
        (ds = [] \<or> ds = [pt_id target] \<and> (\<exists>q \<in> set rs. dead_answer env target q)))"

lemma length_push_requests: "length (push_requests rs) \<le> length rs"
  by (simp add: push_requests_def)

lemma push_requests_token: "set rs \<subseteq> range fcm_token_request \<Longrightarrow> push_requests rs = []"
  by (auto simp: push_requests_def filter_empty_conv)

lemma delivery_ok_refl: "delivery_ok env target tp tp"
  unfolding delivery_ok_def by (intro exI [of _ "[]"]) (simp add: push_requests_def)

lemma send_configured_apns_ok:
  "delivery_ok env target tp (apply_verdict target (send_configured_apns env target headers body tp))"
proof (cases "tp_apns tp")
  case None
  then show ?thesis
    unfolding delivery_ok_def
    by (intro exI [of _ "[]"])
      (simp add: send_configured_apns_def warn_unconfigured_def apply_verdict_def push_requests_def)
next
  case (Some apns)
  obtain res tp' where send: "send_apns env apns target headers body tp = (res, tp')"
    by fastforce
  from send_apns_posted [OF this] obtain rs where rs: "posted tp rs tp'" "length rs \<le> 1"
    "\<forall>v. res = SendOk v \<longrightarrow> v = Keep \<and> rs = [] \<or>
       (\<exists>q status bytes. rs = [q] \<and> en_http env q = HttpAnswer status bytes \<and>
          v = apns_verdict env status (limited_body bytes) (pt_updated_at target))"
    by (elim exE conjE) (rule that)
  have dead: "\<exists>q \<in> set rs. dead_answer env target q" if "settle res = Some Delete"
  proof -
    have "res = SendOk Delete"
      using that by (simp add: settle_def split: send_result.splits)
    with rs(3) obtain q status bytes where "rs = [q]" "en_http env q = HttpAnswer status bytes"
      "apns_verdict env status (limited_body bytes) (pt_updated_at target) = Delete"
      by auto
    with dead_answer_verdicts(1) show ?thesis
      by (metis list.set_intros(1))
  qed
  show ?thesis
    unfolding delivery_ok_def
    by (rule exI [of _ rs], rule exI [of _ "if settle res = Some Delete then [pt_id target] else []"])
      (use rs(1,2) dead send Some length_push_requests [of rs] in
        \<open>auto simp: send_configured_apns_def apply_verdict_def delete_registration_def posted_def\<close>)
qed

lemma send_configured_fcm_ok:
  "delivery_ok env target tp (apply_verdict target (send_configured_fcm env target body tp))"
proof (cases "tp_fcm tp")
  case None
  then show ?thesis
    unfolding delivery_ok_def
    by (intro exI [of _ "[]"])
      (simp add: send_configured_fcm_def warn_unconfigured_def apply_verdict_def push_requests_def)
next
  case (Some fcm)
  obtain res tp' where send: "send_fcm env fcm target body tp = (res, tp')"
    by fastforce
  from send_fcm_posted [OF this] obtain rs rs' where rs: "posted tp (rs @ rs') tp'" "length rs \<le> 1"
    "set rs \<subseteq> range fcm_token_request" "length rs' \<le> 1"
    "\<forall>v. res = SendOk v \<longrightarrow> (\<exists>q status bytes. rs' = [q] \<and> en_http env q = HttpAnswer status bytes \<and>
          v = fcm_verdict env status (limited_body bytes))"
    by (elim exE conjE) (rule that)
  have dead: "\<exists>q \<in> set (rs @ rs'). dead_answer env target q" if "settle res = Some Delete"
  proof -
    have "res = SendOk Delete"
      using that by (simp add: settle_def split: send_result.splits)
    with rs(5) obtain q status bytes where "rs' = [q]" "en_http env q = HttpAnswer status bytes"
      "fcm_verdict env status (limited_body bytes) = Delete"
      by metis
    with dead_answer_verdicts(2) show ?thesis
      by (metis in_set_conv_decomp)
  qed
  have "push_requests (rs @ rs') = push_requests rs'"
    using push_requests_token [OF rs(3)] by (simp add: push_requests_def)
  then have "length (push_requests (rs @ rs')) \<le> 1"
    using length_push_requests [of rs'] rs(4) by simp
  then show ?thesis
    unfolding delivery_ok_def
    by (intro exI [of _ "rs @ rs'"] exI [of _ "if settle res = Some Delete then [pt_id target] else []"])
      (use rs(1,2,4) dead send Some in
        \<open>auto simp: send_configured_fcm_def apply_verdict_def delete_registration_def posted_def\<close>)
qed

lemma resolve_target_cases:
  obtains (dead) check where "en_send_check env (pt_id snapshot) = Answered (Some check)"
      "\<not> sc_session_live check"
      "resolve_target env snapshot tp = (None, delete_registration (pt_id snapshot) tp)"
    | (unknown) "resolve_target env snapshot tp = (None, tp)"
    | (live) check where "en_send_check env (pt_id snapshot) = Answered (Some check)" "sc_session_live check"
      "resolve_target env snapshot tp = (Some (sc_target check), tp)"
    | (unread) "resolve_target env snapshot tp = (Some snapshot, tp)"
proof (cases "en_send_check env (pt_id snapshot)")
  case (Answered x)
  then show ?thesis
    using dead live unknown
    by (cases x; cases "sc_session_live (the x)") (simp_all add: resolve_target_def)
qed (use unread in \<open>simp_all add: resolve_target_def\<close>)

definition resolved :: "'v deliver_env \<Rightarrow> push_target \<Rightarrow> push_target \<Rightarrow> bool" where
  "resolved env snapshot target \<longleftrightarrow> target = snapshot \<or>
     (\<exists>check. en_send_check env (pt_id snapshot) = Answered (Some check) \<and> sc_session_live check \<and>
        target = sc_target check)"

definition run_ok :: "'v deliver_env \<Rightarrow> push_target \<Rightarrow> transport \<Rightarrow> transport \<Rightarrow> bool" where
  "run_ok env snapshot tp tp' \<longleftrightarrow>
     (\<exists>target. resolved env snapshot target \<and> delivery_ok env target tp tp') \<or>
     tp' = delete_registration (pt_id snapshot) tp \<and>
       (\<exists>check. en_send_check env (pt_id snapshot) = Answered (Some check) \<and> sc_session_live check = False)"

lemma run_ok_snapshot: "delivery_ok env snapshot tp tp' \<Longrightarrow> run_ok env snapshot tp tp'"
  unfolding run_ok_def resolved_def by blast

lemma run_ok_live:
  "en_send_check env (pt_id snapshot) = Answered (Some check) \<Longrightarrow> sc_session_live check \<Longrightarrow>
   delivery_ok env (sc_target check) tp tp' \<Longrightarrow> run_ok env snapshot tp tp'"
  unfolding run_ok_def resolved_def by blast

lemma run_ok_dead:
  "en_send_check env (pt_id snapshot) = Answered (Some check) \<Longrightarrow> \<not> sc_session_live check \<Longrightarrow>
   run_ok env snapshot tp (delete_registration (pt_id snapshot) tp)"
  unfolding run_ok_def by blast

lemmas run_ok_unchanged = run_ok_snapshot [OF delivery_ok_refl]

lemma run_ok_resolved:
  assumes "\<And>target. delivery_ok env target tp (f target)"
  shows "run_ok env snapshot tp (case resolve_target env snapshot tp of (None, tp1) \<Rightarrow> tp1 | (Some target, tp1) \<Rightarrow> f target)"
  by (cases rule: resolve_target_cases [of env snapshot tp])
    (simp_all add: run_ok_dead run_ok_unchanged run_ok_live [OF _ _ assms] run_ok_snapshot [OF assms])

lemma resolve_target_state: "resolve_target env snapshot tp = (Some target, tp1) \<Longrightarrow> tp1 = tp"
  by (cases rule: resolve_target_cases [of env snapshot tp]) auto

lemma send_badge_ok: "delivery_ok env target tp (send_badge env target n tp)"
  unfolding send_badge_def by (rule send_configured_apns_ok)

lemma deliver_ok: "run_ok env snapshot tp (fst (deliver env snapshot account_id room_id message b tp))"
proof (cases "en_cancelled_first env")
  case True
  then show ?thesis
    by (simp add: deliver_def run_ok_unchanged)
next
  case False
  define f where "f = (\<lambda>target tp. fst (if en_cancelled_second env then (tp, b)
          else
            let (names, b1) = banner_resolve env b;
                (badge, b2) = (if pt_provider target = lit ''apns'' \<and> pt_badge target
                               then badge_total env b1 else (None, b1))
            in case fit_outbound (en_to_vec env) (en_sha256 env)
                   \<lparr>or_provider = pt_provider target, or_disclosure = pt_disclosure target,
                    or_room_name = fst names, or_sender_display = snd names,
                    or_account_id = en_uuid_string env account_id, or_room_id = room_id,
                    or_message = message, or_fcm_token = pt_token target, or_badge = badge\<rparr> of
                 None \<Rightarrow>
                   (case badge of
                      Some n \<Rightarrow> (send_badge env target n tp, b2)
                    | None \<Rightarrow> (tp, b2))
               | Some (body, collapse) \<Rightarrow>
                   if pt_provider target = lit ''apns'' then
                     (apply_verdict target
                        (send_configured_apns env target
                           \<lparr>ah_priority = lit ''10'', ah_collapse = Some collapse\<rparr> body tp), b2)
                   else if pt_provider target = lit ''fcm'' then
                     (apply_verdict target (send_configured_fcm env target body tp), b2)
                   else (tp, b2)))"
  have ok: "delivery_ok env target tp (f target tp)" for target
    unfolding f_def Let_def split_beta
    by (auto simp: delivery_ok_refl send_configured_apns_ok send_configured_fcm_ok send_badge_ok
        split: option.splits)
  have "fst (deliver env snapshot account_id room_id message b tp) =
      (case resolve_target env snapshot tp of (None, tp1) \<Rightarrow> tp1 | (Some target, tp1) \<Rightarrow> f target tp1)"
    using False by (simp add: deliver_def f_def split: prod.splits option.splits)
  also have "\<dots> = (case resolve_target env snapshot tp of (None, tp1) \<Rightarrow> tp1 | (Some target, tp1) \<Rightarrow> f target tp)"
    by (auto split: prod.splits option.splits dest: resolve_target_state)
  finally show ?thesis
    using run_ok_resolved [of env tp "\<lambda>target. f target tp" snapshot] ok by simp
qed

lemma deliver_badge_ok: "run_ok env snapshot tp (deliver_badge env snapshot tp)"
proof (cases "en_cancelled_first env")
  case False
  define f where "f = (\<lambda>target. if pt_provider target \<noteq> lit ''apns'' \<or> \<not> pt_badge target then tp
      else if en_cancelled_second env then tp
      else case read_badge_total env of None \<Rightarrow> tp | Some n \<Rightarrow> send_badge env target n tp)"
  have "delivery_ok env target tp (f target)" for target
    by (simp add: f_def delivery_ok_refl send_badge_ok split: option.splits)
  moreover have "deliver_badge env snapshot tp =
      (case resolve_target env snapshot tp of (None, tp1) \<Rightarrow> tp1 | (Some target, tp1) \<Rightarrow> f target)"
    using False by (auto simp: deliver_badge_def f_def split: prod.splits option.splits dest: resolve_target_state)
  ultimately show ?thesis
    using run_ok_resolved by metis
qed (simp add: deliver_badge_def run_ok_unchanged)

lemma deliver_room_read_ok: "run_ok env snapshot tp (deliver_room_read env snapshot account_id room_id tp)"
proof (cases "en_cancelled_first env")
  case False
  define f where "f = (\<lambda>target. if pt_provider target \<noteq> lit ''fcm'' then tp
      else if en_cancelled_second env then tp
      else apply_verdict target
              (send_configured_fcm env target
                 (fcm_room_read_body (en_to_vec env) (pt_token target) (en_uuid_string env account_id)
                    room_id (collapse_id (en_sha256 env) room_id)) tp))"
  have "delivery_ok env target tp (f target)" for target
    by (simp add: f_def delivery_ok_refl send_configured_fcm_ok)
  moreover have "deliver_room_read env snapshot account_id room_id tp =
      (case resolve_target env snapshot tp of (None, tp1) \<Rightarrow> tp1 | (Some target, tp1) \<Rightarrow> f target)"
    using False
    by (auto simp: deliver_room_read_def f_def Let_def split: prod.splits option.splits dest: resolve_target_state)
  ultimately show ?thesis
    using run_ok_resolved by metis
qed (simp add: deliver_room_read_def run_ok_unchanged)

section \<open>Percent encoding\<close>

text \<open>The reference decoder of a percent-encoded value, to bytes.\<close>

definition unhex :: "nat \<Rightarrow> nat option" where
  "unhex h = (if 48 \<le> h \<and> h \<le> 57 then Some (h - 48) else if 65 \<le> h \<and> h \<le> 70 then Some (h - 55) else None)"

fun percent_decode :: "nat list \<Rightarrow> nat list option" where
  "percent_decode [] = Some []"
| "percent_decode (c # rest) =
     (if c \<noteq> 37 then map_option (Cons c) (percent_decode rest)
      else case rest of
        h # l # rest' \<Rightarrow>
          (case (unhex h, unhex l) of
             (Some a, Some b) \<Rightarrow> map_option (Cons (16 * a + b)) (percent_decode rest')
           | _ \<Rightarrow> None)
      | _ \<Rightarrow> None)"

definition percent_encode :: "nat list \<Rightarrow> nat list" where
  "percent_encode bytes = concat (map form_encode_byte bytes)"

lemma unhex_upper_hex: "d < 16 \<Longrightarrow> unhex (upper_hex d) = Some d"
  by (auto simp: unhex_def upper_hex_def)

lemma percent_decode_byte:
  "b < 256 \<Longrightarrow> percent_decode (form_encode_byte b @ s) = map_option (Cons b) (percent_decode s)"
  by (auto simp: form_encode_byte_def unhex_upper_hex unreserved_def is_ascii_alphanumeric_def
      less_mult_imp_div_less)

interpretation percent: codec percent_encode percent_decode "list_all (\<lambda>b. b < 256)"
proof unfold_locales
  show "list_all (\<lambda>b. b < 256) x \<Longrightarrow> percent_decode (percent_encode x) = Some x" for x
    by (induction x) (simp_all add: percent_encode_def percent_decode_byte)
qed

lemma utf8_bytes: "list_all (\<lambda>c. c < 1114112) s \<Longrightarrow> list_all (\<lambda>b. b < 256) (utf8 s)"
proof (induction s)
  case (Cons c s)
  have "list_all (\<lambda>b. b < 256) (utf8_char c)"
    using Cons.prems by (auto simp: utf8_char_def less_mult_imp_div_less)
  then show ?case
    using Cons by (simp add: utf8_def)
qed (simp add: utf8_def)

section \<open>Properties\<close>

text \<open>What one send does to the outside. Whatever the store, the clock and the providers answer, a
  send posts at most one push (and at most one OAuth token request before it), and deletes at most
  one registration: the one it was given, posting nothing, when its session is no longer live; or
  the one it resolved, when a provider answered that this device token is dead. A timeout, a
  transport error, a server error, a rejected provider credential or a missing configuration never
  deletes.\<close>

theorem push_send_effects:
  "\<exists>rs ds. tp_requests (fst (run_send env j b tp)) = tp_requests tp @ rs \<and>
     tp_deleted (fst (run_send env j b tp)) = tp_deleted tp @ ds \<and>
     length rs \<le> 2 \<and> length (push_requests rs) \<le> 1 \<and>
     (ds = [] \<or>
      ds = [pt_id (job_target j)] \<and> rs = [] \<and>
        (\<exists>check. en_send_check env (pt_id (job_target j)) = Answered (Some check) \<and> sc_session_live check = False) \<or>
      (\<exists>target q. resolved env (job_target j) target \<and> ds = [pt_id target] \<and> q \<in> set rs \<and> dead_answer env target q))"
proof -
  let ?tp = "fst (run_send env j b tp)"
  have ok: "run_ok env (job_target j) tp ?tp"
    by (simp add: run_send_def deliver_ok deliver_badge_ok deliver_room_read_ok split: work.splits)
  then show ?thesis
    unfolding run_ok_def
  proof (elim disjE exE conjE)
    fix target
    assume t: "resolved env (job_target j) target" "delivery_ok env target tp ?tp"
    from t(2) obtain rs ds where
      "tp_requests ?tp = tp_requests tp @ rs" "tp_deleted ?tp = tp_deleted tp @ ds"
      "length rs \<le> 2" "length (push_requests rs) \<le> 1"
      "ds = [] \<or> ds = [pt_id target] \<and> (\<exists>q \<in> set rs. dead_answer env target q)"
      unfolding delivery_ok_def by (elim exE conjE) (rule that)
    with t(1) show ?thesis
      by (intro exI [of _ rs] exI [of _ ds]) blast
  next
    fix check
    assume "?tp = delete_registration (pt_id (job_target j)) tp"
      "en_send_check env (pt_id (job_target j)) = Answered (Some check)" "sc_session_live check = False"
    then show ?thesis
      by (intro exI [of _ "[]"] exI [of _ "[pt_id (job_target j)]"])
        (simp add: delete_registration_def push_requests_def)
  qed
qed

text \<open>A cancelled send posts nothing: a send that finds itself cancelled when it starts changes
  nothing at all, and one that finds itself cancelled after resolving its target posts no
  request.\<close>

theorem push_cancelled_is_silent:
  "(en_cancelled_first env \<longrightarrow> run_send env j b tp = (tp, b)) \<and>
   (en_cancelled_second env \<longrightarrow> tp_requests (fst (run_send env j b tp)) = tp_requests tp \<and> snd (run_send env j b tp) = b)"
proof (intro conjI impI)
  assume "en_cancelled_first env"
  then show "run_send env j b tp = (tp, b)"
    by (simp add: run_send_def deliver_def deliver_badge_def deliver_room_read_def split: work.splits)
next
  assume "en_cancelled_second env"
  then show "tp_requests (fst (run_send env j b tp)) = tp_requests tp" "snd (run_send env j b tp) = b"
    by (cases rule: resolve_target_cases [of env "job_target j" tp];
        auto simp: run_send_def deliver_def deliver_badge_def deliver_room_read_def delete_registration_def
          split: work.splits)+
qed

definition demo_env :: "nat \<Rightarrow> nat list \<Rightarrow> demo_json deliver_env" where
  "demo_env status bytes = \<lparr>en_api = demo_api,
     en_from_slice = (\<lambda>bs. Some (DObj [(lit ''reason'', DStr bs)])),
     en_to_vec = (\<lambda>_. Some [123, 125]), en_sha256 = (\<lambda>_. replicate 32 0),
     en_encode_es256 = (\<lambda>_ _ _. Some (lit ''jwt'')), en_encode_rs256 = (\<lambda>_ _. Some (lit ''jws'')),
     en_uuid_string = dec_nat, en_now = 0, en_now_minted = 0, en_now_locked = 0, en_now_stored = 0,
     en_instant_max = 0, en_utc_now = 0, en_cancelled_first = True, en_cancelled_second = True,
     en_send_check = (\<lambda>_. TimedOut), en_room_name = (\<lambda>_ _. Failed), en_member_name = (\<lambda>_ _ _. Failed),
     en_badge_total = Answered 3, en_refresh_lock = LockTaken None,
     en_http = (\<lambda>_. HttpAnswer status bytes)\<rparr>"

definition demo_apns :: loaded_apns where
  "demo_apns = \<lparr>la_team_id = [], la_key_id = [], la_bundle_id = lit ''app'', la_private_key = []\<rparr>"

definition demo_transport :: transport where
  "demo_transport = \<lparr>tp_apns = Some demo_apns, tp_fcm = None,
     tp_apns_jwt = Some \<lparr>cj_value = lit ''old'', cj_minted = 0\<rparr>, tp_fcm_token = None,
     tp_apns_warned = False, tp_fcm_warned = False, tp_requests = [], tp_deleted = []\<rparr>"

theorem push_cancelled_is_silent_witness:
  "fst (run_send (demo_env 200 []) (demo_job 1 7) (banner_new 7 [] []) demo_transport) = demo_transport"
proof -
  have "en_cancelled_first (demo_env 200 [])"
    by (simp add: demo_env_def)
  with push_cancelled_is_silent [of "demo_env 200 []" "demo_job 1 7" "banner_new 7 [] []" demo_transport]
  show ?thesis by simp
qed

text \<open>A form-encoded value decodes to the UTF-8 bytes of the value, and consists of unreserved
  characters and percent escapes only, so a device token cannot leave its path segment and an
  assertion cannot add a form field.\<close>

theorem push_form_encode_roundtrip:
  assumes "list_all (\<lambda>c. c < 1114112) value"
  shows "percent_decode (form_encode value) = Some (utf8 value) \<and>
    list_all (\<lambda>c. unreserved c \<or> c = 37) (form_encode value)"
proof
  show "percent_decode (form_encode value) = Some (utf8 value)"
    using percent.dec_enc [OF utf8_bytes [OF assms]] by (simp add: form_encode_def percent_encode_def)
  have hex: "unreserved (upper_hex d)" if "d < 16" for d
    using that by (auto simp: unreserved_def is_ascii_alphanumeric_def upper_hex_def)
  have "list_all (\<lambda>c. unreserved c \<or> c = 37) (form_encode_byte b)" if "b < 256" for b
    using that hex [of "b div 16"] hex [of "b mod 16"]
    by (auto simp: form_encode_byte_def less_mult_imp_div_less)
  then show "list_all (\<lambda>c. unreserved c \<or> c = 37) (form_encode value)"
    using utf8_bytes [OF assms] by (auto simp: form_encode_def list_all_iff)
qed

theorem push_form_encode_roundtrip_witness:
  "form_encode (lit ''a/b'') = lit ''a%2Fb'' \<and> percent_decode (form_encode (lit ''a/b'')) = Some (lit ''a/b'')"
proof -
  have ok: "list_all (\<lambda>c. c < 1114112) (lit ''a/b'')"
    by (simp add: lit_def)
  have "utf8 (lit ''a/b'') = lit ''a/b''"
    by (rule utf8_ascii) (simp add: lit_def)
  with push_form_encode_roundtrip [OF ok] show ?thesis
    by (simp add: form_encode_def)
      (simp add: lit_def form_encode_byte_def unreserved_def is_ascii_alphanumeric_def upper_hex_def)
qed

lemma fcm_refresh_result:
  assumes "fcm_refresh env fcm tp = (SendOk tok, tp')"
  shows "\<exists>c e. tp_fcm_token tp' = Some c \<and> cf_value c = tok \<and>
    cf_good_until c + min FCM_REFRESH_SLACK (from_secs e) = en_now_stored env + from_secs e"
proof -
  have "\<exists>body tp1. fcm_store_token env body tp1 = (SendOk tok, tp')"
    using assms by (auto simp: fcm_refresh_def http_post_def split: option.splits http_result.splits if_split_asm)
  then obtain body tp1 where "fcm_store_token env body tp1 = (SendOk tok, tp')"
    by blast
  then show ?thesis
    apply (auto simp: fcm_store_token_def fcm_good_until_def Let_def split: option.splits if_split_asm)
    subgoal by (rule exI [of _ 3600]) simp
    subgoal for x e by (rule exI [of _ e]) simp
    done
qed

text \<open>Credentials are fresh. The APNs token a send uses is the cached one, which was then less than
  50 minutes old, or one minted for this send; and the FCM bearer it uses is the cached one before
  its expiry, or the one the token endpoint just issued, cached until a minute before it expires
  (or not at all if it lives shorter).\<close>

theorem push_credentials_fresh:
  "(case apns_jwt env apns tp of
      (SendOk jwt, tp') \<Rightarrow> (\<exists>c. tp_apns_jwt tp' = Some c \<and> cj_value c = jwt \<and>
        (tp_apns_jwt tp = Some c \<and> saturating_duration_since (en_now env) (cj_minted c) < from_secs 3000 \<or>
         cj_minted c = en_now_minted env))
    | _ \<Rightarrow> True) \<and>
   (case fcm_bearer env fcm tp of
      (SendOk tok, tp') \<Rightarrow> (\<exists>c. tp_fcm_token tp' = Some c \<and> cf_value c = tok \<and>
        (en_now env < cf_good_until c \<or> en_now_locked env < cf_good_until c \<or>
         (\<exists>e. cf_good_until c + min (from_secs 60) (from_secs e) = en_now_stored env + from_secs e)))
    | _ \<Rightarrow> True)"
proof
  show "case apns_jwt env apns tp of
      (SendOk jwt, tp') \<Rightarrow> (\<exists>c. tp_apns_jwt tp' = Some c \<and> cj_value c = jwt \<and>
        (tp_apns_jwt tp = Some c \<and> saturating_duration_since (en_now env) (cj_minted c) < from_secs 3000 \<or>
         cj_minted c = en_now_minted env))
    | _ \<Rightarrow> True"
    by (simp add: apns_jwt_def Let_def APNS_JWT_TTL_def split: option.splits)
  obtain res tp' where eq: "fcm_bearer env fcm tp = (res, tp')"
    by fastforce
  show "case fcm_bearer env fcm tp of
      (SendOk tok, tp') \<Rightarrow> (\<exists>c. tp_fcm_token tp' = Some c \<and> cf_value c = tok \<and>
        (en_now env < cf_good_until c \<or> en_now_locked env < cf_good_until c \<or>
         (\<exists>e. cf_good_until c + min (from_secs 60) (from_secs e) = en_now_stored env + from_secs e)))
    | _ \<Rightarrow> True"
  proof (cases res)
    case (SendOk tok)
    consider "fresh_fcm (en_now env) tp = Some tok" "tp' = tp"
      | cell where "tp' = tp\<lparr>tp_fcm_token := cell\<rparr>" "fresh_fcm (en_now_locked env) tp' = Some tok"
      | cell where "fcm_refresh env fcm (tp\<lparr>tp_fcm_token := cell\<rparr>) = (SendOk tok, tp')"
      using eq SendOk by (auto simp: fcm_bearer_def Let_def split: option.splits refresh_lock.splits)
    then show ?thesis
    proof cases
      case (3 cell)
      from fcm_refresh_result [OF 3] show ?thesis
        unfolding eq SendOk FCM_REFRESH_SLACK_def by (simp del: ex_simps) blast
    qed (auto simp: eq SendOk fresh_fcm_def bind_eq_Some_conv split: if_split_asm)
  qed (simp_all add: eq)
qed

text \<open>A refused credential is replaced, and costs no registration. When the provider refuses the
  credential of a send (APNs 403 with an expired or invalid provider token, FCM 401), the send
  keeps the registration and leaves the cache empty, so the next APNs send mints a new token and
  the next FCM send does not find the refused one.\<close>

theorem push_refused_credential_replaced:
  assumes "en_http env (last (tp_requests tp')) = HttpAnswer status bytes"
  shows "(send_apns env apns target headers body tp = (SendOk v, tp') \<and>
       pt_environment target \<in> {Some (lit ''sandbox''), Some (lit ''production'')} \<and>
       apns_provider_token_rejected env status (limited_body bytes) \<longrightarrow>
     v = Keep \<and> tp_apns_jwt tp' = None) \<and>
    (send_fcm env fcm target body tp = (SendOk v, tp') \<and> status = 401 \<longrightarrow>
     v = Keep \<and> tp_fcm_token tp' = None \<and> (\<forall>now. fresh_fcm now tp' = None))"
proof (intro conjI impI; elim conjE)
  assume send: "send_apns env apns target headers body tp = (SendOk v, tp')"
    and env: "pt_environment target \<in> {Some (lit ''sandbox''), Some (lit ''production'')}"
    and rej: "apns_provider_token_rejected env status (limited_body bytes)"
  obtain jr tp1 where jwt: "apns_jwt env apns tp = (jr, tp1)" by fastforce
  with send env assms have
    "v = apns_verdict env status (limited_body bytes) (pt_updated_at target) \<and> tp_apns_jwt tp' = None"
    using rej
    by (auto simp: send_apns_def Let_def post_json_def http_post_def invalidate_apns_jwt_def
        split: if_split_asm send_result.splits http_result.splits)
  moreover have "apns_verdict env status (limited_body bytes) (pt_updated_at target) = Keep"
    using rej by (simp add: apns_provider_token_rejected_def apns_verdict_def is_success_def)
  ultimately show "v = Keep" "tp_apns_jwt tp' = None"
    by simp_all
next
  assume send: "send_fcm env fcm target body tp = (SendOk v, tp')" and st: "status = 401"
  obtain br tp1 where bearer: "fcm_bearer env fcm tp = (br, tp1)" by fastforce
  have "v = Keep \<and> tp_fcm_token tp' = None"
    using send assms(1) st bearer
    by (auto simp: send_fcm_def post_json_def http_post_def invalidate_fcm_token_def fcm_bearer_rejected_def
        fcm_verdict_def is_success_def split: if_split_asm send_result.splits http_result.splits)
  then show "v = Keep" "tp_fcm_token tp' = None" "\<forall>now. fresh_fcm now tp' = None"
    by (simp_all add: fresh_fcm_def)
qed

theorem push_refused_credential_replaced_witness:
  "\<exists>tp'. send_apns (demo_env 403 (lit ''ExpiredProviderToken'')) demo_apns
      ((demo_target 1)\<lparr>pt_environment := Some (lit ''production'')\<rparr>) \<lparr>ah_priority = lit ''5'', ah_collapse = None\<rparr> []
      demo_transport = (SendOk Keep, tp') \<and> tp_apns_jwt tp' = None"
proof -
  let ?env = "demo_env 403 (lit ''ExpiredProviderToken'')"
  let ?t = "(demo_target 1)\<lparr>pt_environment := Some (lit ''production'')\<rparr>"
  let ?h = "\<lparr>ah_priority = lit ''5'', ah_collapse = None\<rparr>"
  have neq: "lit ''production'' \<noteq> lit ''sandbox''"
    by (simp add: lit_inject)
  have rej: "apns_provider_token_rejected ?env 403 (limited_body (lit ''ExpiredProviderToken''))"
    by (simp add: apns_provider_token_rejected_def parse_reason_def limited_body_def BODY_CAP_def demo_env_def
        js_get_str_def js_get_def demo_api_def or_else_def)
  obtain v tp' where send: "send_apns ?env demo_apns ?t ?h [] demo_transport = (SendOk v, tp')"
    by (simp add: send_apns_def Let_def neq apns_jwt_def demo_transport_def APNS_JWT_TTL_def
        saturating_duration_since_def from_secs_def post_json_def http_post_def demo_env_def)
  have "en_http ?env (last (tp_requests tp')) = HttpAnswer 403 (lit ''ExpiredProviderToken'')"
    by (simp add: demo_env_def)
  from push_refused_credential_replaced [OF this, of demo_apns ?t ?h "[]" demo_transport v] send rej
  show ?thesis by auto
qed

text \<open>The devices of one message share one banner. Once a device has resolved the names, every later
  device of the same message gets the same names whatever the store answers then; and a total that
  was read is shared too, while a failed read is not kept and the next device reads again.\<close>

theorem push_banner_read_once:
  "(case banner_resolve env b of (names, b') \<Rightarrow> banner_resolve env' b' = (names, b')) \<and>
   (case badge_total env b of
      (Some n, b') \<Rightarrow> badge_total env' b' = (Some n, b')
    | (None, b') \<Rightarrow> b' = b \<and> fst (badge_total env' b') = read_badge_total env')"
  by (auto simp: banner_resolve_def badge_total_def keep_success_def Let_def split: option.splits prod.splits)

end
