(* ===== verification/Cursor.thy ===== *)
theory Cursor
  imports Rust_Text
begin

text \<open>
  Opaque pagination cursors: \<^verbatim>\<open>crates/axon-api/src/cursor.rs\<close>, with the store's sort keys
  \<^verbatim>\<open>TimelineCursor\<close> and \<^verbatim>\<open>SpaceHierarchyCursor\<close>.

  The base64 engine \<^verbatim>\<open>URL_SAFE_NO_PAD\<close>, the JSON coding of the hierarchy cursor's wire struct and
  SHA-256 are parameters. What the code relies on is named: \<open>base64_ok\<close> (decoding inverts encoding of
  bytes, the output is ASCII, four characters for three bytes) and \<open>wire_json_ok\<close> (decoding
  inverts encoding, and a string costs at most six bytes of JSON per byte). \<open>base64url\<close> below is a
  reference engine that satisfies \<open>base64_ok\<close>.
\<close>

section \<open>Engines\<close>

record base64_engine =
  b64_encode :: "nat list \<Rightarrow> rstr"
  b64_decode :: "rstr \<Rightarrow> nat list option"

definition is_bytes :: "nat list \<Rightarrow> bool" where
  "is_bytes bs \<longleftrightarrow> list_all (\<lambda>b. b < 256) bs"

definition base64_ok :: "base64_engine \<Rightarrow> bool" where
  "base64_ok e \<longleftrightarrow> (\<forall>bs. is_bytes bs \<longrightarrow> b64_decode e (b64_encode e bs) = Some bs \<and>
     list_all (\<lambda>c. c < 128) (b64_encode e bs) \<and> 3 * length (b64_encode e bs) \<le> 4 * length bs + 2)"

section \<open>Timeline and search cursors\<close>

definition MAX_ENCODED_LEN :: nat where
  "MAX_ENCODED_LEN = 64"

record timeline_cursor =
  tc_origin_ts :: int
  tc_id :: int

definition encode :: "base64_engine \<Rightarrow> timeline_cursor \<Rightarrow> rstr" where
  "encode e cursor = b64_encode e (utf8 (dec_int (tc_origin_ts cursor) @ [46] @ dec_int (tc_id cursor)))"

definition from_ts :: "int \<Rightarrow> timeline_cursor" where
  "from_ts origin_ts = \<lparr>tc_origin_ts = origin_ts, tc_id = 2 ^ 63 - 1\<rparr>"

definition decode :: "base64_engine \<Rightarrow> rstr \<Rightarrow> timeline_cursor option" where
  "decode e s =
     (if MAX_ENCODED_LEN < length (utf8 s) then None
      else Option.bind (b64_decode e s) (\<lambda>bytes.
           Option.bind (utf8_decode bytes) (\<lambda>text.
           Option.bind (split_once 46 text) (\<lambda>(ts, i).
           Option.bind (parse_i64 ts) (\<lambda>origin_ts.
           map_option (\<lambda>n. \<lparr>tc_origin_ts = origin_ts, tc_id = n\<rparr>) (parse_i64 i))))))"

definition encode_offset :: "base64_engine \<Rightarrow> nat \<Rightarrow> rstr" where
  "encode_offset e offset = b64_encode e (utf8 (dec_nat offset))"

definition decode_offset :: "base64_engine \<Rightarrow> rstr \<Rightarrow> nat option" where
  "decode_offset e s =
     (if MAX_ENCODED_LEN < length (utf8 s) then None
      else Option.bind (b64_decode e s) (\<lambda>bytes. Option.bind (utf8_decode bytes) parse_usize))"

definition decode_offset_bounded :: "base64_engine \<Rightarrow> rstr \<Rightarrow> nat \<Rightarrow> nat option" where
  "decode_offset_bounded e s limit =
     Option.bind (decode_offset e s) (\<lambda>offset. if offset \<le> limit then Some offset else None)"

section \<open>Hierarchy cursors\<close>

definition MAX_HIERARCHY_ENCODED_LEN :: nat where
  "MAX_HIERARCHY_ENCODED_LEN = 4096"

definition MAX_HIERARCHY_ORDER_LEN :: nat where
  "MAX_HIERARCHY_ORDER_LEN = 50"

definition MAX_HIERARCHY_ROOM_ID_BYTES :: nat where
  "MAX_HIERARCHY_ROOM_ID_BYTES = 255"

record hierarchy_cursor =
  hc_order :: "rstr option"
  hc_origin_ts :: int
  hc_room_id :: rstr

record hierarchy_wire =
  hw_s :: rstr
  hw_o :: "rstr option"
  hw_t :: int
  hw_r :: rstr

record wire_json =
  wj_to_vec :: "hierarchy_wire \<Rightarrow> nat list"
  wj_from_slice :: "nat list \<Rightarrow> hierarchy_wire option"

definition wire_json_ok :: "wire_json \<Rightarrow> bool" where
  "wire_json_ok j \<longleftrightarrow> (\<forall>w. list_all is_scalar (hw_s w) \<longrightarrow> list_all is_scalar (hw_r w) \<longrightarrow>
     (\<forall>v. hw_o w = Some v \<longrightarrow> list_all is_scalar v) \<longrightarrow> in_i64 (hw_t w) \<longrightarrow>
     wj_from_slice j (wj_to_vec j w) = Some w \<and> is_bytes (wj_to_vec j w) \<and>
     length (wj_to_vec j w) \<le> 60 + 6 * (length (utf8 (hw_s w)) + length (utf8 (hw_r w)) +
       (case hw_o w of Some v \<Rightarrow> length (utf8 v) | None \<Rightarrow> 0)))"

definition lower_hex_byte :: "nat \<Rightarrow> rstr" where
  "lower_hex_byte b = map (\<lambda>d. if d < 10 then 48 + d else 87 + d) [b div 16, b mod 16]"

definition hierarchy_scope :: "(nat list \<Rightarrow> nat list) \<Rightarrow> nat list \<Rightarrow> rstr \<Rightarrow> rstr" where
  "hierarchy_scope sha256 account_bytes space_room_id =
     concat (map lower_hex_byte (take 8 (sha256 (account_bytes @ utf8 space_room_id))))"

definition encode_hierarchy ::
  "base64_engine \<Rightarrow> wire_json \<Rightarrow> (nat list \<Rightarrow> nat list) \<Rightarrow> nat list \<Rightarrow> rstr \<Rightarrow> hierarchy_cursor \<Rightarrow> rstr"
where
  "encode_hierarchy e j sha256 account_bytes space_room_id cursor =
     b64_encode e (wj_to_vec j \<lparr>hw_s = hierarchy_scope sha256 account_bytes space_room_id,
       hw_o = hc_order cursor, hw_t = hc_origin_ts cursor, hw_r = hc_room_id cursor\<rparr>)"

definition order_ok :: "rstr option \<Rightarrow> bool" where
  "order_ok order = (case order of None \<Rightarrow> True
     | Some v \<Rightarrow> length (utf8 v) \<le> MAX_HIERARCHY_ORDER_LEN \<and> list_all (\<lambda>b. 32 \<le> b \<and> b \<le> 126) (utf8 v))"

definition room_ok :: "rstr \<Rightarrow> bool" where
  "room_ok room = (length (utf8 room) \<le> MAX_HIERARCHY_ROOM_ID_BYTES \<and> 0 \<notin> set room)"

definition decode_hierarchy ::
  "base64_engine \<Rightarrow> wire_json \<Rightarrow> (nat list \<Rightarrow> nat list) \<Rightarrow> nat list \<Rightarrow> rstr \<Rightarrow> rstr \<Rightarrow> hierarchy_cursor option"
where
  "decode_hierarchy e j sha256 account_bytes space_room_id s =
     (if MAX_HIERARCHY_ENCODED_LEN < length (utf8 s) then None
      else Option.bind (b64_decode e s) (\<lambda>bytes.
           Option.bind (wj_from_slice j bytes) (\<lambda>wire.
             if order_ok (hw_o wire) \<and> room_ok (hw_r wire) \<and>
                hw_s wire = hierarchy_scope sha256 account_bytes space_room_id
             then Some \<lparr>hc_order = hw_o wire, hc_origin_ts = hw_t wire, hc_room_id = hw_r wire\<rparr>
             else None)))"

section \<open>A reference engine\<close>

definition sextet :: "nat \<Rightarrow> nat" where
  "sextet n = (if n < 26 then 65 + n else if n < 52 then 71 + n else if n < 62 then n - 4
     else if n = 62 then 45 else 95)"

definition unsextet :: "nat \<Rightarrow> nat option" where
  "unsextet c = (if 65 \<le> c \<and> c \<le> 90 then Some (c - 65) else if 97 \<le> c \<and> c \<le> 122 then Some (c - 71)
     else if 48 \<le> c \<and> c \<le> 57 then Some (c + 4) else if c = 45 then Some 62
     else if c = 95 then Some 63 else None)"

fun b64url_encode :: "nat list \<Rightarrow> rstr" where
  "b64url_encode [] = []"
| "b64url_encode [a] = map sextet [a div 4, a mod 4 * 16]"
| "b64url_encode [a, b] = map sextet [a div 4, a mod 4 * 16 + b div 16, b mod 16 * 4]"
| "b64url_encode (a # b # c # rest) =
     map sextet [a div 4, a mod 4 * 16 + b div 16, b mod 16 * 4 + c div 64, c mod 64] @ b64url_encode rest"

fun b64url_decode :: "rstr \<Rightarrow> nat list option" where
  "b64url_decode [] = Some []"
| "b64url_decode [w] = None"
| "b64url_decode [w, x] =
     (case (unsextet w, unsextet x) of
        (Some p, Some q) \<Rightarrow> if q mod 16 = 0 then Some [p * 4 + q div 16] else None
      | _ \<Rightarrow> None)"
| "b64url_decode [w, x, y] =
     (case (unsextet w, unsextet x, unsextet y) of
        (Some p, Some q, Some r) \<Rightarrow>
          if r mod 4 = 0 then Some [p * 4 + q div 16, q mod 16 * 16 + r div 4] else None
      | _ \<Rightarrow> None)"
| "b64url_decode (w # x # y # z # rest) =
     (case (unsextet w, unsextet x, unsextet y, unsextet z) of
        (Some p, Some q, Some r, Some s) \<Rightarrow>
          map_option (\<lambda>bs. [p * 4 + q div 16, q mod 16 * 16 + r div 4, r mod 4 * 64 + s] @ bs)
            (b64url_decode rest)
      | _ \<Rightarrow> None)"

definition base64url :: base64_engine where
  "base64url = \<lparr>b64_encode = b64url_encode, b64_decode = b64url_decode\<rparr>"

lemma unsextet_sextet [simp]: "n < 64 \<Longrightarrow> unsextet (sextet n) = Some n"
  by (auto simp: unsextet_def sextet_def)

lemma sextet_ascii: "n < 64 \<Longrightarrow> sextet n < 128"
  by (auto simp: sextet_def)

lemma sextet_bounds:
  fixes a b :: nat
  assumes "a < 256" "b < 256"
  shows "a div 4 < 64" "a mod 4 * 16 + b div 16 < 64" "a mod 16 * 4 + b div 64 < 64"
    "a mod 4 * 16 < 64" "a mod 16 * 4 < 64"
proof -
  have "a mod 4 \<le> 3" "a mod 16 \<le> 15" "b div 16 \<le> 15" "b div 64 \<le> 3"
    using assms(2) by (auto simp: less_Suc_eq_le [symmetric] less_mult_imp_div_less)
  then show "a mod 4 * 16 + b div 16 < 64" "a mod 16 * 4 + b div 64 < 64"
    "a mod 4 * 16 < 64" "a mod 16 * 4 < 64"
    by linarith+
  show "a div 4 < 64"
    using assms(1) by (simp add: less_mult_imp_div_less)
qed

lemma pack_div_mod:
  fixes q r k :: nat
  assumes "r < k"
  shows "(q * k + r) div k = q" "(q * k + r) mod k = r"
  using assms by simp_all

lemma b64url_roundtrip: "is_bytes bs \<Longrightarrow> b64url_decode (b64url_encode bs) = Some bs"
proof (induction bs rule: b64url_encode.induct)
  case (2 a)
  then show ?case
    using sextet_bounds [of a 0] by (simp add: is_bytes_def)
next
  case (3 a b)
  then show ?case
    using sextet_bounds [of a b] sextet_bounds [of b 0] pack_div_mod [of "b div 16" 16 "a mod 4"]
    by (simp add: is_bytes_def less_mult_imp_div_less)
next
  case (4 a b c rest)
  then have "a < 256" "b < 256" "c < 256" "is_bytes rest"
    by (simp_all add: is_bytes_def)
  then have rec: "b64url_decode (b64url_encode rest) = Some rest" "b div 16 < 16" "c div 64 < 4"
    using 4 by (simp_all add: less_mult_imp_div_less)
  note pack = pack_div_mod [OF rec(2), of "a mod 4"] pack_div_mod [OF rec(3), of "b mod 16"]
  show ?case
    using \<open>a < 256\<close> \<open>b < 256\<close> \<open>c < 256\<close> sextet_bounds [of a b] sextet_bounds [of b c] rec(1) pack by simp
qed simp

lemma b64url_ascii: "is_bytes bs \<Longrightarrow> list_all (\<lambda>c. c < 128) (b64url_encode bs)"
  by (induction bs rule: b64url_encode.induct)
    (simp_all add: is_bytes_def sextet_ascii sextet_bounds less_mult_imp_div_less)

lemma b64url_length: "3 * length (b64url_encode bs) \<le> 4 * length bs + 2"
  by (induction bs rule: b64url_encode.induct) simp_all

lemma base64url_ok: "base64_ok base64url"
  unfolding base64_ok_def base64url_def base64_engine.simps
  using b64url_roundtrip b64url_ascii b64url_length by blast

section \<open>Facts\<close>

lemma utf8_list_all_ascii: "list_all (\<lambda>c. c < 128) s \<Longrightarrow> utf8 s = s"
  by (rule utf8_ascii) (simp add: list_all_iff)

lemma base64_okD:
  assumes "base64_ok e" "is_bytes bs"
  shows "b64_decode e (b64_encode e bs) = Some bs"
    "length (utf8 (b64_encode e bs)) \<le> (4 * length bs + 2) div 3"
proof -
  have e: "b64_decode e (b64_encode e bs) = Some bs" "list_all (\<lambda>c. c < 128) (b64_encode e bs)"
    "3 * length (b64_encode e bs) \<le> 4 * length bs + 2"
    using assms by (simp_all add: base64_ok_def)
  show "b64_decode e (b64_encode e bs) = Some bs"
    by (rule e(1))
  show "length (utf8 (b64_encode e bs)) \<le> (4 * length bs + 2) div 3"
    using e(3) by (simp add: utf8_list_all_ascii [OF e(2)])
qed

lemma decimal_ascii:
  "list_all (\<lambda>c. is_digit c \<or> c = 45 \<or> c = 46) s \<Longrightarrow> list_all (\<lambda>c. c < 128) s"
  "list_all (\<lambda>c. is_digit c \<or> c = 45 \<or> c = 46) s \<Longrightarrow> is_bytes s"
  by (auto simp: list_all_iff is_bytes_def is_digit_def)

lemma cursor_text_chars:
  "list_all (\<lambda>c. is_digit c \<or> c = 45 \<or> c = 46) (dec_int i @ [46] @ dec_int k)"
  using dec_int_chars [of i] dec_int_chars [of k] by (auto simp: list_all_iff)

lemma dec_int_no_dot: "46 \<notin> set (dec_int i)"
  using dec_int_chars [of i] by (force simp: list_all_iff is_digit_def)

lemma decode_encode:
  assumes "base64_ok e" "in_i64 (tc_origin_ts c)" "in_i64 (tc_id c)"
  shows "decode e (encode e c) = Some c"
proof -
  let ?t = "dec_int (tc_origin_ts c) @ [46] @ dec_int (tc_id c)"
  have asc: "utf8 ?t = ?t" "utf8_decode ?t = Some ?t" "is_bytes ?t"
    using decimal_ascii [OF cursor_text_chars] by (auto intro: utf8_list_all_ascii utf8_decode_ascii)
  have "length ?t \<le> 41"
    using length_dec_int [OF assms(2)] length_dec_int [OF assms(3)] by simp
  then have "length (utf8 (b64_encode e ?t)) \<le> 64"
    using base64_okD(2) [OF assms(1) asc(3)] by simp
  moreover have "split_once 46 ?t = Some (dec_int (tc_origin_ts c), dec_int (tc_id c))"
    using split_once_append [of 46 "dec_int (tc_origin_ts c)" "dec_int (tc_id c)"] dec_int_no_dot by simp
  ultimately show ?thesis
    using base64_okD(1) [OF assms(1) asc(3)] asc(1,2) assms(2,3)
    by (simp add: decode_def encode_def MAX_ENCODED_LEN_def i64.dec_enc)
qed

section \<open>Properties\<close>

text \<open>C7: a timeline cursor round trips: every sort key of two \<^verbatim>\<open>i64\<close>s decodes to itself, including negative
  and extreme values, which always fit the 64-byte guard; and two sort keys never share a
  cursor.\<close>

theorem cursor_roundtrip:
  assumes "base64_ok e" "in_i64 (tc_origin_ts c)" "in_i64 (tc_id c)"
  shows "decode e (encode e c) = Some c \<and>
    (in_i64 (tc_origin_ts d) \<and> in_i64 (tc_id d) \<and> encode e c = encode e d \<longrightarrow> c = d)"
  using decode_encode [OF assms] decode_encode [OF assms(1), of d] by (metis option.inject)

theorem cursor_roundtrip_witness:
  "decode base64url (encode base64url (from_ts (- (2 ^ 63)))) = Some (from_ts (- (2 ^ 63)))"
proof -
  have "in_i64 (tc_origin_ts (from_ts (- (2 ^ 63))))" "in_i64 (tc_id (from_ts (- (2 ^ 63))))"
    by (simp_all add: from_ts_def in_i64_def)
  from cursor_roundtrip [OF base64url_ok this] show ?thesis by blast
qed

text \<open>A forged cursor cannot smuggle anything in: whatever string decodes as a timeline cursor is at
  most 64 bytes long and gives two \<^verbatim>\<open>i64\<close> values; whatever decodes as a bounded offset is at most
  64 bytes long and at most the cap; and an honest offset decodes exactly when it is within the
  cap.\<close>

theorem cursor_decode_sound:
  assumes "base64_ok e" "in_usize n"
  shows "(case decode e s of
       Some c \<Rightarrow> length (utf8 s) \<le> 64 \<and> in_i64 (tc_origin_ts c) \<and> in_i64 (tc_id c) | None \<Rightarrow> True) \<and>
    (case decode_offset_bounded e s limit of
       Some m \<Rightarrow> length (utf8 s) \<le> 64 \<and> m \<le> limit | None \<Rightarrow> True) \<and>
    decode_offset_bounded e (encode_offset e n) limit = (if n \<le> limit then Some n else None)"
proof (intro conjI)
  show "case decode e s of
       Some c \<Rightarrow> length (utf8 s) \<le> 64 \<and> in_i64 (tc_origin_ts c) \<and> in_i64 (tc_id c) | None \<Rightarrow> True"
    by (auto simp: decode_def MAX_ENCODED_LEN_def bind_eq_Some_conv parse_i64_range
        split: option.splits if_split_asm)
  show "case decode_offset_bounded e s limit of
       Some m \<Rightarrow> length (utf8 s) \<le> 64 \<and> m \<le> limit | None \<Rightarrow> True"
    by (auto simp: decode_offset_bounded_def decode_offset_def MAX_ENCODED_LEN_def bind_eq_Some_conv
        split: option.splits if_split_asm)
  have "list_all (\<lambda>c. is_digit c \<or> c = 45 \<or> c = 46) (dec_nat n)"
    using dec_nat_digits [of n] by (auto simp: list_all_iff)
  note d = decimal_ascii [OF this]
  have asc: "utf8 (dec_nat n) = dec_nat n" "utf8_decode (dec_nat n) = Some (dec_nat n)"
    using d(1) by (auto intro: utf8_list_all_ascii utf8_decode_ascii)
  have "n < 10 ^ 20"
    using assms(2) by (simp add: in_usize_def)
  then have "length (dec_nat n) \<le> 20"
    by (rule length_dec_nat) simp
  then have "length (utf8 (b64_encode e (dec_nat n))) \<le> 64"
    using base64_okD(2) [OF assms(1) d(2)] by simp
  then show "decode_offset_bounded e (encode_offset e n) limit = (if n \<le> limit then Some n else None)"
    using base64_okD(1) [OF assms(1) d(2)] asc assms(2)
    by (simp add: decode_offset_bounded_def decode_offset_def encode_offset_def MAX_ENCODED_LEN_def usize.dec_enc)
qed

theorem cursor_decode_sound_witness:
  "decode_offset_bounded base64url (encode_offset base64url 500) 10000 = Some 500"
  using cursor_decode_sound [OF base64url_ok, of 500 "[]" 10000] by (simp add: in_usize_def)

lemma length_hierarchy_scope: "length (hierarchy_scope sha256 a r) \<le> 16"
  by (simp add: hierarchy_scope_def length_concat lower_hex_byte_def comp_def sum_list_triv)

lemma hierarchy_scope_ascii:
  "is_bytes (sha256 (a @ utf8 r)) \<Longrightarrow> list_all (\<lambda>c. c < 128) (hierarchy_scope sha256 a r)"
proof -
  assume b: "is_bytes (sha256 (a @ utf8 r))"
  have "list_all (\<lambda>c. c < 128) (lower_hex_byte x)" if "x < 256" for x
  proof -
    have "x div 16 < 16"
      using that by (simp add: less_mult_imp_div_less)
    then show ?thesis by (auto simp: lower_hex_byte_def)
  qed
  moreover have "list_all (\<lambda>x. x < 256) (take 8 (sha256 (a @ utf8 r)))"
    using b by (auto simp: is_bytes_def list_all_iff dest: in_set_takeD)
  ultimately show ?thesis
    by (auto simp: hierarchy_scope_def list_all_iff)
qed

text \<open>A hierarchy cursor is bound to its space. A position within the store's bounds (an order of at
  most 50 printable ASCII characters, a room id of at most 255 bytes without NUL) round trips for
  the account and space it was issued for and fits the length guard; presented for a space with
  another scope tag it is rejected; and whatever decodes is within those bounds.\<close>

theorem hierarchy_cursor_bound:
  assumes "base64_ok e" "wire_json_ok j" "is_bytes (sha256 (a @ utf8 space))"
    "order_ok (hc_order c)" "room_ok (hc_room_id c)" "in_i64 (hc_origin_ts c)"
    "list_all is_scalar (hc_room_id c)" "\<forall>v. hc_order c = Some v \<longrightarrow> list_all is_scalar v"
  shows "decode_hierarchy e j sha256 a space (encode_hierarchy e j sha256 a space c) = Some c \<and>
    (hierarchy_scope sha256 a' space' \<noteq> hierarchy_scope sha256 a space \<longrightarrow>
       decode_hierarchy e j sha256 a' space' (encode_hierarchy e j sha256 a space c) = None) \<and>
    (case decode_hierarchy e j sha256 a' space' s of
       Some d \<Rightarrow> order_ok (hc_order d) \<and> room_ok (hc_room_id d) \<and> length (utf8 s) \<le> 4096
     | None \<Rightarrow> True)"
proof -
  let ?w = "\<lparr>hw_s = hierarchy_scope sha256 a space, hw_o = hc_order c, hw_t = hc_origin_ts c, hw_r = hc_room_id c\<rparr>"
  note ascii = hierarchy_scope_ascii [of sha256 a space, OF assms(3)]
  have scope: "list_all is_scalar (hierarchy_scope sha256 a space)"
    "length (utf8 (hierarchy_scope sha256 a space)) \<le> 16"
    using ascii length_hierarchy_scope [of sha256 a space] utf8_list_all_ascii [OF ascii]
    by (auto simp: list_all_iff is_scalar_def)
  then have j: "wj_from_slice j (wj_to_vec j ?w) = Some ?w" "is_bytes (wj_to_vec j ?w)"
    "length (wj_to_vec j ?w) \<le> 60 + 6 * (length (utf8 (hierarchy_scope sha256 a space)) +
       length (utf8 (hc_room_id c)) + (case hc_order c of Some v \<Rightarrow> length (utf8 v) | None \<Rightarrow> 0))"
    using assms(2) [unfolded wire_json_ok_def, rule_format, of ?w] assms(6,7,8) by simp_all
  have "(case hc_order c of Some v \<Rightarrow> length (utf8 v) | None \<Rightarrow> 0) \<le> 50" "length (utf8 (hc_room_id c)) \<le> 255"
    using assms(4,5) by (auto simp: order_ok_def room_ok_def MAX_HIERARCHY_ORDER_LEN_def
        MAX_HIERARCHY_ROOM_ID_BYTES_def split: option.splits)
  then have "length (wj_to_vec j ?w) \<le> 60 + 6 * (16 + 255 + 50)"
    by (intro order_trans [OF j(3)] add_mono mult_le_mono order_refl scope(2))
  then have "(4 * length (wj_to_vec j ?w) + 2) div 3 \<le> (4 * (60 + 6 * (16 + 255 + 50)) + 2) div 3"
    by (intro div_le_mono add_mono mult_le_mono order_refl)
  also have "\<dots> \<le> 4096"
    by simp
  finally have len: "length (utf8 (b64_encode e (wj_to_vec j ?w))) \<le> 4096"
    by (rule order_trans [OF base64_okD(2) [OF assms(1) j(2)]])
  note dec = base64_okD(1) [OF assms(1) j(2)]
  show ?thesis
    using len dec j(1) assms(4,5)
    by (auto simp: decode_hierarchy_def encode_hierarchy_def MAX_HIERARCHY_ENCODED_LEN_def bind_eq_Some_conv
        split: option.splits if_split_asm)
qed

text \<open>A wire format for the witness: the fields in UTF-8, separated by a byte that is not UTF-8.\<close>

definition demo_to_vec :: "hierarchy_wire \<Rightarrow> nat list" where
  "demo_to_vec w = utf8 (hw_s w) @ 255 # utf8 (hw_r w) @ 255 # dec_int (hw_t w) @ 255 #
     (case hw_o w of None \<Rightarrow> [254] | Some v \<Rightarrow> utf8 v)"

definition demo_from_slice :: "nat list \<Rightarrow> hierarchy_wire option" where
  "demo_from_slice bs =
     Option.bind (split_once 255 bs) (\<lambda>(s, bs1).
     Option.bind (split_once 255 bs1) (\<lambda>(r, bs2).
     Option.bind (split_once 255 bs2) (\<lambda>(t, bs3).
     Option.bind (utf8_decode s) (\<lambda>s'.
     Option.bind (utf8_decode r) (\<lambda>r'.
     Option.bind (parse_i64 t) (\<lambda>t'.
     Option.bind (if bs3 = [254] then Some None else map_option Some (utf8_decode bs3)) (\<lambda>v'.
       Some \<lparr>hw_s = s', hw_o = v', hw_t = t', hw_r = r'\<rparr>)))))))"

lemma utf8_below_245: "list_all is_scalar s \<Longrightarrow> list_all (\<lambda>b. b < 245) (utf8 s)"
proof (induction s)
  case (Cons c s)
  have bound: "x mod 64 < 64" for x :: nat
    by simp
  have "c < 1114112"
    using Cons.prems by (auto simp: is_scalar_def)
  then have "c div 262144 \<le> 4"
    using div_le_mono [of c 1114111 262144] by simp
  then have "list_all (\<lambda>b. b < 245) (utf8_char c)"
    using bound [of c] bound [of "c div 64"] bound [of "c div 4096"]
    by (auto simp: utf8_char_def less_mult_imp_div_less intro!: add_less_mono)
  then show ?case
    using Cons by (simp add: utf8_def)
qed (simp add: utf8_def)

lemma demo_wire_ok: "wire_json_ok \<lparr>wj_to_vec = demo_to_vec, wj_from_slice = demo_from_slice\<rparr>"
  unfolding wire_json_ok_def wire_json.simps
proof (intro allI impI conjI)
  fix w :: hierarchy_wire
  assume w: "list_all is_scalar (hw_s w)" "list_all is_scalar (hw_r w)"
    "\<forall>v. hw_o w = Some v \<longrightarrow> list_all is_scalar v" "in_i64 (hw_t w)"
  have u: "255 \<notin> set (utf8 x) \<and> utf8 x \<noteq> [254] \<and> is_bytes (utf8 x)" if "list_all is_scalar x" for x
    using utf8_below_245 [OF that] by (auto simp: list_all_iff is_bytes_def)
  have d: "255 \<notin> set (dec_int (hw_t w))" "is_bytes (dec_int (hw_t w))"
    using dec_int_chars [of "hw_t w"] by (auto simp: list_all_iff is_digit_def is_bytes_def)
  show "demo_from_slice (demo_to_vec w) = Some w"
    using w d(1) u [OF w(1)] u [OF w(2)] u
    by (cases "hw_o w") (simp_all add: demo_from_slice_def demo_to_vec_def split_once_append
        utf8_decode_utf8 parse_i64_dec_int)
  show "is_bytes (demo_to_vec w)"
    using w d(2) u [OF w(1)] u [OF w(2)] u
    by (cases "hw_o w") (simp_all add: demo_to_vec_def is_bytes_def)
  show "length (demo_to_vec w) \<le> 60 + 6 * (length (utf8 (hw_s w)) + length (utf8 (hw_r w)) +
       (case hw_o w of Some v \<Rightarrow> length (utf8 v) | None \<Rightarrow> 0))"
    using length_dec_int [OF w(4)] by (cases "hw_o w") (simp_all add: demo_to_vec_def)
qed

theorem hierarchy_cursor_bound_witness:
  "decode_hierarchy base64url \<lparr>wj_to_vec = demo_to_vec, wj_from_slice = demo_from_slice\<rparr> (\<lambda>bs. take 8 bs) (replicate 16 1)
     (lit ''!s'') (encode_hierarchy base64url \<lparr>wj_to_vec = demo_to_vec, wj_from_slice = demo_from_slice\<rparr> (\<lambda>bs. take 8 bs)
       (replicate 16 1) (lit ''!s'') \<lparr>hc_order = Some (lit ''a''), hc_origin_ts = 5, hc_room_id = lit ''!c''\<rparr>) =
   Some \<lparr>hc_order = Some (lit ''a''), hc_origin_ts = 5, hc_room_id = lit ''!c''\<rparr>"
proof -
  let ?c = "\<lparr>hc_order = Some (lit ''a''), hc_origin_ts = 5, hc_room_id = lit ''!c''\<rparr>"
  have "is_bytes ((\<lambda>bs. take 8 bs) (replicate 16 1 @ utf8 (lit ''!s'')))"
    by (simp add: is_bytes_def list_all_iff)
  moreover have "order_ok (hc_order ?c)" "room_ok (hc_room_id ?c)"
    by (simp_all add: order_ok_def room_ok_def lit_def utf8_def utf8_char_def MAX_HIERARCHY_ORDER_LEN_def
        MAX_HIERARCHY_ROOM_ID_BYTES_def)
  moreover have "in_i64 (hc_origin_ts ?c)" "list_all is_scalar (hc_room_id ?c)"
    "\<forall>v. hc_order ?c = Some v \<longrightarrow> list_all is_scalar v"
    by (simp_all add: in_i64_def lit_def is_scalar_def)
  ultimately show ?thesis
    using hierarchy_cursor_bound [OF base64url_ok demo_wire_ok] by blast
qed

end
