(* ===== verification/Sync_Health.thy ===== *)
theory Sync_Health
  imports Rust_Text
begin

text \<open>
  Per-account sync health and the readiness label derived from it:
  \<^verbatim>\<open>crates/axon-sync/src/sync_health.rs\<close>. The handle's mutex makes every operation atomic, so the state
  is passed explicitly; the clock reading of an operation is its argument.
\<close>

type_synonym account_id = nat

datatype sdk_state = SdkIdle | SdkRunning | SdkOffline | SdkTerminated | SdkError

datatype sync_state = Idle | Running | Offline | Terminated | Error

definition as_str :: "sync_state \<Rightarrow> rstr" where
  "as_str s = lit (case s of Idle \<Rightarrow> ''idle'' | Running \<Rightarrow> ''running'' | Offline \<Rightarrow> ''offline''
     | Terminated \<Rightarrow> ''terminated'' | Error \<Rightarrow> ''error'')"

definition of_sdk_state :: "sdk_state \<Rightarrow> sync_state" where
  "of_sdk_state s = (case s of SdkIdle \<Rightarrow> Idle | SdkRunning \<Rightarrow> Running | SdkOffline \<Rightarrow> Offline
     | SdkTerminated \<Rightarrow> Terminated | SdkError \<Rightarrow> Error)"

record account_sync_status =
  ss_state :: sync_state
  ss_since :: instant

definition readiness_label :: "sync_state option \<Rightarrow> bool \<Rightarrow> rstr" where
  "readiness_label state ready =
     (case state of
        Some Offline \<Rightarrow> lit ''offline''
      | Some Error \<Rightarrow> lit ''connecting''
      | Some Terminated \<Rightarrow> lit ''connecting''
      | Some Idle \<Rightarrow> if ready then lit ''ready'' else lit ''syncing''
      | Some Running \<Rightarrow> if ready then lit ''ready'' else lit ''syncing''
      | None \<Rightarrow> if ready then lit ''ready'' else lit ''connecting'')"

record sync_health =
  sh_status :: "account_id \<rightharpoonup> account_sync_status"
  sh_ready :: "account_id set"

definition health_new :: sync_health where
  "health_new = \<lparr>sh_status = Map.empty, sh_ready = {}\<rparr>"

definition label :: "sync_health \<Rightarrow> account_id \<Rightarrow> rstr" where
  "label h a = readiness_label (map_option ss_state (sh_status h a)) (a \<in> sh_ready h)"

text \<open>\<^verbatim>\<open>(new != previous).then_some(new)\<close>\<close>

definition changed :: "sync_health \<Rightarrow> sync_health \<Rightarrow> account_id \<Rightarrow> rstr option" where
  "changed before after a = (if label after a \<noteq> label before a then Some (label after a) else None)"

definition health_set :: "account_id \<Rightarrow> sdk_state \<Rightarrow> instant \<Rightarrow> sync_health \<Rightarrow> sync_health \<times> rstr option" where
  "health_set a state now h =
     (let h' = h\<lparr>sh_status := (sh_status h)(a \<mapsto> \<lparr>ss_state = of_sdk_state state, ss_since = now\<rparr>)\<rparr>
      in (h', changed h h' a))"

definition set_error :: "account_id \<Rightarrow> instant \<Rightarrow> sync_health \<Rightarrow> sync_health \<times> rstr option" where
  "set_error a now h =
     (let h' = h\<lparr>sh_status := (sh_status h)(a \<mapsto> \<lparr>ss_state = Error, ss_since = now\<rparr>),
                sh_ready := sh_ready h - {a}\<rparr>
      in (h', changed h h' a))"

definition mark_ready :: "account_id \<Rightarrow> sync_health \<Rightarrow> sync_health \<times> rstr option" where
  "mark_ready a h = (let h' = h\<lparr>sh_ready := insert a (sh_ready h)\<rparr> in (h', changed h h' a))"

definition sync_state_label :: "sync_health \<Rightarrow> account_id \<Rightarrow> rstr" where
  "sync_state_label h a = label h a"

definition health_remove :: "account_id \<Rightarrow> sync_health \<Rightarrow> sync_health" where
  "health_remove a h = h\<lparr>sh_status := (sh_status h)(a := None), sh_ready := sh_ready h - {a}\<rparr>"

definition health_snapshot :: "sync_health \<Rightarrow> (account_id \<times> account_sync_status) set" where
  "health_snapshot h = {(a, st). sh_status h a = Some st}"

section \<open>Runs\<close>

datatype health_event =
    OpSet account_id sdk_state instant
  | OpError account_id instant
  | OpReady account_id
  | OpRemove account_id

fun op_account :: "health_event \<Rightarrow> account_id" where
  "op_account (OpSet a _ _) = a"
| "op_account (OpError a _) = a"
| "op_account (OpReady a) = a"
| "op_account (OpRemove a) = a"

text \<open>\<^verbatim>\<open>remove\<close> returns nothing, so it reports no label.\<close>

fun health_op :: "health_event \<Rightarrow> sync_health \<Rightarrow> sync_health \<times> rstr option" where
  "health_op (OpSet a state now) h = health_set a state now h"
| "health_op (OpError a now) h = set_error a now h"
| "health_op (OpReady a) h = mark_ready a h"
| "health_op (OpRemove a) h = (health_remove a h, None)"

text \<open>A client of the \<^verbatim>\<open>account.sync_state\<close> frames: it keeps the last label it was sent for each account.\<close>

fun health_run ::
  "health_event list \<Rightarrow> sync_health \<Rightarrow> (account_id \<Rightarrow> rstr) \<Rightarrow> sync_health \<times> (account_id \<Rightarrow> rstr)"
where
  "health_run [] h client = (h, client)"
| "health_run (op # ops) h client =
     (let (h', report) = health_op op h
      in health_run ops h' (case report of Some l \<Rightarrow> client(op_account op := l) | None \<Rightarrow> client))"

lemma health_op_report:
  "op \<noteq> OpRemove (op_account op) \<Longrightarrow>
   snd (health_op op h) = changed h (fst (health_op op h)) (op_account op)"
  by (cases op) (simp_all add: health_set_def set_error_def mark_ready_def Let_def)

lemma health_op_frame: "a \<noteq> op_account op \<Longrightarrow> label (fst (health_op op h)) a = label h a"
  by (cases op) (simp_all add: health_set_def set_error_def mark_ready_def health_remove_def Let_def label_def)

lemma health_run_client:
  "client a = label h a \<Longrightarrow> OpRemove a \<notin> set ops \<Longrightarrow> health_run ops h client = (h', client') \<Longrightarrow>
   client' a = label h' a"
proof (induction ops arbitrary: h client)
  case (Cons op ops)
  obtain h1 report where op: "health_op op h = (h1, report)"
    by fastforce
  have report: "op_account op = a \<Longrightarrow> report = changed h h1 a"
    using health_op_report [of op h] op Cons.prems(2) by (cases op) auto
  have frame: "a \<noteq> op_account op \<Longrightarrow> label h1 a = label h a"
    using health_op_frame [of a op h] op by simp
  let ?c = "case report of Some l \<Rightarrow> client(op_account op := l) | None \<Rightarrow> client"
  have "?c a = label h1 a"
    using Cons.prems(1) frame report by (cases "op_account op = a") (auto simp: changed_def split: option.splits)
  moreover have "OpRemove a \<notin> set ops" "health_run ops h1 ?c = (h', client')"
    using Cons.prems(2,3) op by simp_all
  ultimately show ?case
    by (rule Cons.IH)
qed simp

lemma health_run_snoc: "fst (health_run (ops @ [op]) h client) = fst (health_op op (fst (health_run ops h client)))"
  by (induction ops arbitrary: h client) (simp_all add: split_beta)

section \<open>What a history says\<close>

text \<open>The raw state of an account is told by the last thing that happened to it other than a
  readiness mark, and its readiness by the last thing other than a state transition.\<close>

fun is_mark :: "health_event \<Rightarrow> bool" where
  "is_mark (OpReady _) = True"
| "is_mark _ = False"

fun is_transition :: "health_event \<Rightarrow> bool" where
  "is_transition (OpSet _ _ _) = True"
| "is_transition _ = False"

fun op_status :: "health_event \<Rightarrow> account_sync_status option" where
  "op_status (OpSet _ state now) = Some \<lparr>ss_state = of_sdk_state state, ss_since = now\<rparr>"
| "op_status (OpError _ now) = Some \<lparr>ss_state = Error, ss_since = now\<rparr>"
| "op_status (OpReady _) = None"
| "op_status (OpRemove _) = None"

definition last_status :: "account_id \<Rightarrow> health_event list \<Rightarrow> account_sync_status option" where
  "last_status a ops = Option.bind (find (\<lambda>op. op_account op = a \<and> \<not> is_mark op) (rev ops)) op_status"

definition last_state :: "account_id \<Rightarrow> health_event list \<Rightarrow> sync_state option" where
  "last_state a ops = map_option ss_state (last_status a ops)"

definition earned :: "account_id \<Rightarrow> health_event list \<Rightarrow> bool" where
  "earned a ops \<longleftrightarrow> find (\<lambda>op. op_account op = a \<and> \<not> is_transition op) (rev ops) = Some (OpReady a)"

lemma health_run_status: "sh_status (fst (health_run ops health_new client)) a = last_status a ops"
proof (induction ops rule: rev_induct)
  case (snoc op ops)
  then show ?case
    by (cases op) (auto simp: health_run_snoc last_status_def health_set_def set_error_def mark_ready_def
        health_remove_def Let_def)
qed (simp add: last_status_def health_new_def)

lemma health_run_ready: "a \<in> sh_ready (fst (health_run ops health_new client)) \<longleftrightarrow> earned a ops"
proof (induction ops rule: rev_induct)
  case (snoc op ops)
  then show ?case
    by (cases op) (auto simp: health_run_snoc earned_def health_set_def set_error_def mark_ready_def
        health_remove_def Let_def)
qed (simp add: earned_def health_new_def)

section \<open>Properties\<close>

text \<open>C8: what the label of an account means, after any history of transitions, errors, readiness
  marks and removals of any accounts. It is \<^verbatim>\<open>offline\<close> exactly when the last state recorded since the
  account was last removed is offline; \<^verbatim>\<open>ready\<close> exactly when a readiness mark came after the last
  error and removal and the last state is absent, idle or running, so that an offline blip
  recovers to \<^verbatim>\<open>ready\<close>; \<^verbatim>\<open>syncing\<close> exactly when the last state is idle or running without such a mark;
  and \<^verbatim>\<open>connecting\<close> in every other case. A client that starts from \<^verbatim>\<open>connecting\<close> and applies the
  reported labels in the order of the calls shows that label for every account that was not
  removed.\<close>

theorem health_label_means:
  assumes "health_run ops health_new (\<lambda>_. lit ''connecting'') = (h, client)"
  shows "(sync_state_label h a = lit ''offline'' \<longleftrightarrow> last_state a ops = Some Offline) \<and>
    (sync_state_label h a = lit ''ready'' \<longleftrightarrow>
       earned a ops \<and> last_state a ops \<in> {None, Some Idle, Some Running}) \<and>
    (sync_state_label h a = lit ''syncing'' \<longleftrightarrow>
       \<not> earned a ops \<and> last_state a ops \<in> {Some Idle, Some Running}) \<and>
    (sync_state_label h a = lit ''connecting'' \<longleftrightarrow>
       last_state a ops \<in> {Some Error, Some Terminated} \<or> \<not> earned a ops \<and> last_state a ops = None) \<and>
    (OpRemove a \<notin> set ops \<longrightarrow> client a = sync_state_label h a)"
proof -
  have h: "h = fst (health_run ops health_new (\<lambda>_. lit ''connecting''))"
    using assms by simp
  have l: "sync_state_label h a = readiness_label (last_state a ops) (earned a ops)"
    by (simp add: sync_state_label_def label_def h health_run_status health_run_ready last_state_def)
  have client: "OpRemove a \<notin> set ops \<Longrightarrow> client a = sync_state_label h a"
    using health_run_client [OF _ _ assms, of a]
    by (simp add: sync_state_label_def label_def health_new_def readiness_label_def)
  have d: "lit ''offline'' \<noteq> lit ''ready''" "lit ''offline'' \<noteq> lit ''syncing''" "lit ''offline'' \<noteq> lit ''connecting''"
    "lit ''ready'' \<noteq> lit ''syncing''" "lit ''ready'' \<noteq> lit ''connecting''" "lit ''syncing'' \<noteq> lit ''connecting''"
    by (simp_all add: lit_inject)
  show ?thesis
    unfolding l using client [unfolded l] d d [symmetric]
    by (cases "last_state a ops"; cases "the (last_state a ops)") (simp_all add: readiness_label_def)
qed

theorem health_label_means_witness:
  "sync_state_label (fst (health_run [OpReady 1, OpSet 1 SdkOffline 5, OpSet 2 SdkRunning 6, OpSet 1 SdkRunning 7]
     health_new (\<lambda>_. lit ''connecting''))) 1 = lit ''ready'' \<and>
   sync_state_label (fst (health_run [OpReady 1, OpSet 1 SdkRunning 5, OpError 1 6, OpSet 1 SdkRunning 7]
     health_new (\<lambda>_. lit ''connecting''))) 1 = lit ''syncing''"
proof -
  have "earned 1 [OpReady 1, OpSet 1 SdkOffline 5, OpSet 2 SdkRunning 6, OpSet 1 SdkRunning 7]"
    "last_state 1 [OpReady 1, OpSet 1 SdkOffline 5, OpSet 2 SdkRunning 6, OpSet 1 SdkRunning 7] = Some Running"
    "\<not> earned 1 [OpReady 1, OpSet 1 SdkRunning 5, OpError 1 6, OpSet 1 SdkRunning 7]"
    "last_state 1 [OpReady 1, OpSet 1 SdkRunning 5, OpError 1 6, OpSet 1 SdkRunning 7] = Some Running"
    by (simp_all add: earned_def last_state_def last_status_def of_sdk_state_def)
  then show ?thesis
    using health_label_means [OF prod.collapse [symmetric],
        of "[OpReady 1, OpSet 1 SdkOffline 5, OpSet 2 SdkRunning 6, OpSet 1 SdkRunning 7]" 1]
      health_label_means [OF prod.collapse [symmetric],
        of "[OpReady 1, OpSet 1 SdkRunning 5, OpError 1 6, OpSet 1 SdkRunning 7]" 1]
    by blast
qed

text \<open>The operator's view is never fabricated. The snapshot of an account after any run is the last
  transition or error recorded for it since it was last removed, with the time it was recorded.\<close>

theorem health_snapshot_recorded:
  "(a, st) \<in> health_snapshot (fst (health_run ops health_new client)) \<longleftrightarrow> last_status a ops = Some st"
  by (simp add: health_snapshot_def health_run_status)

end
