(* ===== verification/Image_Pack.thy ===== *)
theory Image_Pack
  imports Json_Value
begin

text \<open>
  Decoding of Matrix image packs and sticker metadata: \<^verbatim>\<open>crates/axon-core/src/image_pack.rs\<close>.
  The parsing loop is recursion over the pack's entries with the set of names taken so far and the
  pack built so far, in the order the code updates them.
\<close>

definition MAX_PACK_IMAGES :: nat where
  "MAX_PACK_IMAGES = 512"

definition SHORTCODE_TRIM_CHARS :: "nat list" where
  "SHORTCODE_TRIM_CHARS = [32, 160, 5760, 8192, 8193, 8194, 8195, 8196, 8197, 8198, 8199, 8200, 8201,
     8202, 8232, 8233, 8239, 8287, 12288, 65279]"

record pack_image =
  pi_shortcode :: rstr
  pi_url :: rstr
  pi_body :: "rstr option"
  pi_emoticon :: bool
  pi_sticker :: bool
  pi_info :: "json_value option"

record image_pack =
  ip_display_name :: "rstr option"
  ip_avatar_url :: "rstr option"
  ip_images :: "pack_image list"
  ip_partial :: bool

record sticker =
  sk_body :: rstr
  sk_url :: rstr
  sk_info :: json_value

section \<open>Sticker metadata\<close>

fun sticker_numbers :: "(rstr \<times> nat) list \<Rightarrow> json_map \<Rightarrow> json_map \<Rightarrow> json_map option" where
  "sticker_numbers [] source info = Some info"
| "sticker_numbers ((key, limit) # rest) source info =
     (case map_of source key of
        None \<Rightarrow> sticker_numbers rest source info
      | Some value \<Rightarrow>
          (case as_u64 value of
             None \<Rightarrow> None
           | Some number \<Rightarrow>
               if limit < number \<or> key \<noteq> lit ''size'' \<and> number = 0 then None
               else sticker_numbers rest source (obj_insert key value info)))"

definition STICKER_LIMITS :: "(rstr \<times> nat) list" where
  "STICKER_LIMITS = [(lit ''w'', 16384), (lit ''h'', 16384), (lit ''size'', 104857600)]"

definition sticker_info :: "json_value \<Rightarrow> json_value option" where
  "sticker_info value =
     Option.bind (as_object value) (\<lambda>source.
     Option.bind (sticker_numbers STICKER_LIMITS source []) (\<lambda>info.
     Option.bind
       (case map_of source (lit ''mimetype'') of
          None \<Rightarrow> Some info
        | Some v \<Rightarrow>
            Option.bind (as_string v) (\<lambda>m.
              if m \<in> {lit ''image/png'', lit ''image/jpeg'', lit ''image/gif'', lit ''image/webp''}
              then Some (obj_insert (lit ''mimetype'') v info) else None))
       (\<lambda>info.
     Option.bind
       (case map_of source (lit ''is_animated'') of
          None \<Rightarrow> Some info
        | Some v \<Rightarrow> map_option (\<lambda>_. obj_insert (lit ''is_animated'') v info) (as_bool v))
       (\<lambda>info. Some (JObject info)))))"

definition sticker_validate :: "sticker \<Rightarrow> bool" where
  "sticker_validate s \<longleftrightarrow> length (utf8 (sk_body s)) \<le> 1024 \<and> trim_matches is_white_space (sk_body s) \<noteq> [] \<and>
     \<not> list_ex is_control (sk_body s) \<and> parse_mxc (sk_url s) \<noteq> None \<and> sticker_info (sk_info s) \<noteq> None"

section \<open>Packs\<close>

definition reaction_shortcode :: "rstr \<Rightarrow> rstr option" where
  "reaction_shortcode value =
     (if value = [] \<or> 100 < length (utf8 value) \<or> list_ex is_control value then None
      else let trimmed = trim_matches (\<lambda>c. c \<in> set SHORTCODE_TRIM_CHARS) value
           in if trimmed = [] then None else Some trimmed)"

definition pack_text :: "json_value option \<Rightarrow> nat \<Rightarrow> rstr option" where
  "pack_text value limit =
     Option.bind value (\<lambda>v. Option.bind (as_string v) (\<lambda>s.
       if length (utf8 s) \<le> limit \<and> \<not> list_ex is_control s then Some s else None))"

definition pack_mxc :: "json_value option \<Rightarrow> rstr option" where
  "pack_mxc value =
     Option.bind value (\<lambda>v. Option.bind (as_string v) (\<lambda>s. map_option (\<lambda>_. s) (parse_mxc s)))"

definition image_usage :: "json_value option \<Rightarrow> (bool \<times> bool) option" where
  "image_usage value =
     (case value of
        None \<Rightarrow> Some (True, True)
      | Some (JArray items) \<Rightarrow>
          if list_all (\<lambda>v. as_string v \<noteq> None) items
          then Some (items = [] \<or> list_ex (\<lambda>v. as_string v = Some (lit ''emoticon'')) items,
                     items = [] \<or> list_ex (\<lambda>v. as_string v = Some (lit ''sticker'')) items)
          else None
      | _ \<Rightarrow> None)"

definition usage_or :: "json_value option \<Rightarrow> json_value option \<Rightarrow> json_value option" where
  "usage_or own pack_usage = (case own of Some v \<Rightarrow> Some v | None \<Rightarrow> pack_usage)"

fun pack_loop ::
  "json_value option \<Rightarrow> json_map \<Rightarrow> rstr set \<Rightarrow> image_pack \<Rightarrow> image_pack"
where
  "pack_loop pack_usage [] names pack = pack"
| "pack_loop pack_usage ((raw, entry) # rest) names pack =
     (case reaction_shortcode raw of
        None \<Rightarrow> pack_loop pack_usage rest names (pack\<lparr>ip_partial := True\<rparr>)
      | Some name \<Rightarrow>
     (case as_object entry of
        None \<Rightarrow> pack_loop pack_usage rest names (pack\<lparr>ip_partial := True\<rparr>)
      | Some img \<Rightarrow>
     (case image_usage (usage_or (map_of img (lit ''usage'')) pack_usage) of
        None \<Rightarrow> pack_loop pack_usage rest names (pack\<lparr>ip_partial := True\<rparr>)
      | Some (emoticon, sticker) \<Rightarrow>
          if \<not> emoticon \<and> \<not> sticker then pack_loop pack_usage rest names pack
          else
     (case pack_mxc (map_of img (lit ''url'')) of
        None \<Rightarrow> pack_loop pack_usage rest names (pack\<lparr>ip_partial := True\<rparr>)
      | Some url \<Rightarrow>
          if name \<in> names then pack_loop pack_usage rest names (pack\<lparr>ip_partial := True\<rparr>)
          else
            let info = Option.bind (map_of img (lit ''info'')) sticker_info;
                pack1 = (if map_of img (lit ''info'') \<noteq> None \<and> info = None
                         then pack\<lparr>ip_partial := True\<rparr> else pack)
            in pack_loop pack_usage rest (insert name names)
                 (pack1\<lparr>ip_images := ip_images pack1 @
                    [\<lparr>pi_shortcode = name, pi_url = url, pi_body = pack_text (map_of img (lit ''body'')) 1024,
                      pi_emoticon = emoticon, pi_sticker = sticker, pi_info = info\<rparr>]\<rparr>)))))"

definition parse_image_pack :: "json_value \<Rightarrow> image_pack option" where
  "parse_image_pack content =
     Option.bind
       (if as_object content = Some [] then Some []
        else Option.bind (jget content (lit ''images'')) as_object)
       (\<lambda>images.
          let metadata = jget content (lit ''pack'');
              pack_usage = Option.bind metadata (\<lambda>p. jget p (lit ''usage''))
          in Some (pack_loop pack_usage (take MAX_PACK_IMAGES images) {}
               \<lparr>ip_display_name = pack_text (Option.bind metadata (\<lambda>p. jget p (lit ''display_name''))) 256,
                ip_avatar_url = pack_mxc (Option.bind metadata (\<lambda>p. jget p (lit ''avatar_url''))),
                ip_images = [], ip_partial = (MAX_PACK_IMAGES < length images)\<rparr>))"

section \<open>Facts\<close>

text \<open>What one usable entry contributes; \<open>None\<close> for an entry that contributes nothing.\<close>

definition entry_image :: "json_value option \<Rightarrow> rstr \<times> json_value \<Rightarrow> pack_image option" where
  "entry_image pack_usage e =
     Option.bind (reaction_shortcode (fst e)) (\<lambda>name.
     Option.bind (as_object (snd e)) (\<lambda>img.
     Option.bind (image_usage (usage_or (map_of img (lit ''usage'')) pack_usage)) (\<lambda>(emoticon, sticker).
     Option.bind (pack_mxc (map_of img (lit ''url''))) (\<lambda>url.
       if emoticon \<or> sticker
       then Some \<lparr>pi_shortcode = name, pi_url = url, pi_body = pack_text (map_of img (lit ''body'')) 1024,
                  pi_emoticon = emoticon, pi_sticker = sticker,
                  pi_info = Option.bind (map_of img (lit ''info'')) sticker_info\<rparr>
       else None))))"

text \<open>An entry the pack author declared for neither use.\<close>

definition entry_unused :: "json_value option \<Rightarrow> rstr \<times> json_value \<Rightarrow> bool" where
  "entry_unused pack_usage e \<longleftrightarrow> (\<exists>img. as_object (snd e) = Some img \<and>
     image_usage (usage_or (map_of img (lit ''usage'')) pack_usage) = Some (False, False))"

definition image_ok :: "pack_image \<Rightarrow> bool" where
  "image_ok i \<longleftrightarrow> pi_shortcode i \<noteq> [] \<and> parse_mxc (pi_url i) \<noteq> None \<and> (pi_emoticon i \<or> pi_sticker i) \<and>
     (\<forall>b. pi_body i = Some b \<longrightarrow> length (utf8 b) \<le> 1024 \<and> \<not> list_ex is_control b)"

lemma pack_loop_step:
  "pack_loop u (e # rest) names pack =
     (case entry_image u e of
        None \<Rightarrow>
          pack_loop u rest names
            (if reaction_shortcode (fst e) \<noteq> None \<and> entry_unused u e then pack else pack\<lparr>ip_partial := True\<rparr>)
      | Some i \<Rightarrow>
          if pi_shortcode i \<in> names then pack_loop u rest names (pack\<lparr>ip_partial := True\<rparr>)
          else pack_loop u rest (insert (pi_shortcode i) names)
            (pack\<lparr>ip_partial := (ip_partial pack \<or> (jget (snd e) (lit ''info'') \<noteq> None \<and> pi_info i = None)),
               ip_images := ip_images pack @ [i]\<rparr>))"
  by (cases e)
    (auto simp: entry_image_def entry_unused_def Let_def jget_def split: option.splits)

lemma entry_image_ok:
  assumes "entry_image u e = Some i"
  shows "image_ok i" "reaction_shortcode (fst e) = Some (pi_shortcode i)"
proof -
  have url: "pack_mxc v = Some x \<Longrightarrow> parse_mxc x \<noteq> None" for v x
    by (auto simp: pack_mxc_def bind_eq_Some_conv)
  have body: "pack_text v n = Some b \<Longrightarrow> length (utf8 b) \<le> n \<and> \<not> list_ex is_control b" for v n b
    by (auto simp: pack_text_def bind_eq_Some_conv split: if_split_asm)
  have name: "reaction_shortcode raw = Some n \<Longrightarrow> n \<noteq> []" for raw n
    by (auto simp: reaction_shortcode_def Let_def split: if_split_asm)
  show "image_ok i" "reaction_shortcode (fst e) = Some (pi_shortcode i)"
    using assms by (auto simp: entry_image_def bind_eq_Some_conv image_ok_def
        dest: url body name split: if_split_asm)
qed

lemma pack_loop_images:
  assumes "list_all image_ok (ip_images pack)" "distinct (map pi_shortcode (ip_images pack))"
    "set (map pi_shortcode (ip_images pack)) = names"
  shows "list_all image_ok (ip_images (pack_loop u es names pack)) \<and>
    distinct (map pi_shortcode (ip_images (pack_loop u es names pack))) \<and>
    length (ip_images (pack_loop u es names pack)) \<le> length (ip_images pack) + length es \<and>
    (\<forall>i \<in> set (ip_images (pack_loop u es names pack)) - set (ip_images pack). \<exists>e \<in> set es. entry_image u e = Some i) \<and>
    ip_display_name (pack_loop u es names pack) = ip_display_name pack \<and>
    ip_avatar_url (pack_loop u es names pack) = ip_avatar_url pack"
  using assms
proof (induction es arbitrary: names pack)
  case Nil
  then show ?case by simp
next
  case (Cons e es)
  have skip: ?case if "pack_loop u (e # es) names pack = pack_loop u es names pack'"
    "ip_images pack' = ip_images pack" "ip_display_name pack' = ip_display_name pack"
    "ip_avatar_url pack' = ip_avatar_url pack" for pack'
    unfolding that(1) using Cons.IH [of pack' names] Cons.prems that(2-4) by auto
  show ?case
  proof (cases "entry_image u e")
    case None
    let ?p = "if reaction_shortcode (fst e) \<noteq> None \<and> entry_unused u e then pack else pack\<lparr>ip_partial := True\<rparr>"
    have "pack_loop u (e # es) names pack = pack_loop u es names ?p"
      using None by (simp only: pack_loop_step option.case)
    then show ?thesis
      by (rule skip) simp_all
  next
    case (Some i)
    show ?thesis
    proof (cases "pi_shortcode i \<in> names")
      case True
      then have "pack_loop u (e # es) names pack = pack_loop u es names (pack\<lparr>ip_partial := True\<rparr>)"
        using Some by (simp only: pack_loop_step option.case if_True)
      then show ?thesis
        by (rule skip) simp_all
    next
      case False
      define pack' where "pack' = pack\<lparr>ip_partial := (ip_partial pack \<or>
        (jget (snd e) (lit ''info'') \<noteq> None \<and> pi_info i = None)), ip_images := ip_images pack @ [i]\<rparr>"
      have step: "pack_loop u (e # es) names pack = pack_loop u es (insert (pi_shortcode i) names) pack'"
        using Some False by (simp only: pack_loop_step pack'_def option.case if_False)
      have p': "list_all image_ok (ip_images pack')" "distinct (map pi_shortcode (ip_images pack'))"
        "set (map pi_shortcode (ip_images pack')) = insert (pi_shortcode i) names"
        "ip_images pack' = ip_images pack @ [i]" "ip_display_name pack' = ip_display_name pack"
        "ip_avatar_url pack' = ip_avatar_url pack"
        using Cons.prems False entry_image_ok(1) [OF Some] by (auto simp: pack'_def)
      show ?thesis
        unfolding step using Cons.IH [OF p'(1-3)] p'(4-6) Some by auto
    qed
  qed
qed

lemma pack_loop_partial: "ip_partial pack \<Longrightarrow> ip_partial (pack_loop u es names pack)"
proof (induction es arbitrary: names pack)
  case (Cons e es)
  then show ?case
    by (simp only: pack_loop_step) (auto split: option.splits)
qed simp

lemma pack_loop_complete:
  assumes "\<not> ip_partial (pack_loop u es names pack)"
  shows "ip_images (pack_loop u es names pack) = ip_images pack @ List.map_filter (entry_image u) es \<and>
    list_all (\<lambda>e. entry_image u e \<noteq> None \<or> entry_unused u e) es \<and> \<not> ip_partial pack"
  using assms
proof (induction es arbitrary: names pack)
  case Nil
  then show ?case by (simp add: map_filter_simps)
next
  case (Cons e es)
  have partial: False if "pack_loop u (e # es) names pack = pack_loop u es ns (pack'\<lparr>ip_partial := True\<rparr>)" for ns pack'
    using Cons.prems that pack_loop_partial [of "pack'\<lparr>ip_partial := True\<rparr>" u es ns] by simp
  show ?case
  proof (cases "entry_image u e")
    case None
    with partial have unused: "reaction_shortcode (fst e) \<noteq> None \<and> entry_unused u e"
      by (simp only: pack_loop_step option.case if_False split: if_split_asm) metis
    then have step: "pack_loop u (e # es) names pack = pack_loop u es names pack"
      using None by (simp only: pack_loop_step option.case) simp
    show ?thesis
      using Cons.IH [of names pack] Cons.prems unused None unfolding step by (simp add: map_filter_simps)
  next
    case (Some i)
    with partial have fresh: "pi_shortcode i \<notin> names"
      by (simp only: pack_loop_step option.case split: if_split_asm) metis
    define pack' where "pack' = pack\<lparr>ip_partial := (ip_partial pack \<or>
      (jget (snd e) (lit ''info'') \<noteq> None \<and> pi_info i = None)), ip_images := ip_images pack @ [i]\<rparr>"
    have step: "pack_loop u (e # es) names pack = pack_loop u es (insert (pi_shortcode i) names) pack'"
      using Some fresh by (simp only: pack_loop_step pack'_def option.case if_False)
    have p': "ip_images pack' = ip_images pack @ [i]" "ip_partial pack \<Longrightarrow> ip_partial pack'"
      by (simp_all add: pack'_def)
    show ?thesis
      using Cons.IH [of "insert (pi_shortcode i) names" pack'] Cons.prems Some p' unfolding step
      by (auto simp: map_filter_simps)
  qed
qed

text \<open>Sticker metadata, field by field.\<close>

definition put :: "string \<Rightarrow> json_value option \<Rightarrow> json_map \<Rightarrow> json_map" where
  "put k v m = (case v of Some x \<Rightarrow> obj_insert (lit k) x m | None \<Rightarrow> m)"

lemma map_of_put [simp]: "map_of (put k v m) k' = (if k' = lit k \<and> v \<noteq> None then v else map_of m k')"
  by (cases v) (auto simp: put_def)

lemma keys_put: "fst ` set (put k v m) \<subseteq> insert (lit k) (fst ` set m)"
  by (cases v) (auto simp: put_def)

definition sticker_fields :: "json_map \<Rightarrow> json_map" where
  "sticker_fields source =
     fold (\<lambda>k. put k (map_of source (lit k))) [''w'', ''h'', ''size'', ''mimetype'', ''is_animated''] []"

lemma map_of_sticker_fields:
  "k \<in> {''w'', ''h'', ''size'', ''mimetype'', ''is_animated''} \<Longrightarrow>
   map_of (sticker_fields source) (lit k) = map_of source (lit k)"
  by (elim insertE emptyE) (simp_all add: sticker_fields_def lit_inject)

definition number_ok :: "nat \<Rightarrow> bool \<Rightarrow> json_value option \<Rightarrow> bool" where
  "number_ok limit zero v \<longleftrightarrow> (case v of None \<Rightarrow> True
     | Some x \<Rightarrow> (case as_u64 x of None \<Rightarrow> False | Some n \<Rightarrow> n \<le> limit \<and> (zero \<or> n \<noteq> 0)))"

definition mime_ok :: "json_value option \<Rightarrow> bool" where
  "mime_ok v \<longleftrightarrow> (case v of None \<Rightarrow> True
     | Some x \<Rightarrow> (case as_string x of None \<Rightarrow> False
       | Some m \<Rightarrow> m \<in> {lit ''image/png'', lit ''image/jpeg'', lit ''image/gif'', lit ''image/webp''}))"

definition animated_ok :: "json_value option \<Rightarrow> bool" where
  "animated_ok v \<longleftrightarrow> (case v of None \<Rightarrow> True | Some x \<Rightarrow> as_bool x \<noteq> None)"

lemma sticker_numbers_step:
  "sticker_numbers ((lit k, limit) # rest) source info =
     (if number_ok limit (k = ''size'') (map_of source (lit k))
      then sticker_numbers rest source (put k (map_of source (lit k)) info) else None)"
  by (auto simp: number_ok_def put_def lit_inject not_less split: option.splits)

lemma sticker_numbers_eq:
  "sticker_numbers STICKER_LIMITS source [] =
     (if number_ok 16384 False (map_of source (lit ''w'')) \<and> number_ok 16384 False (map_of source (lit ''h'')) \<and>
         number_ok 104857600 True (map_of source (lit ''size''))
      then Some (put ''size'' (map_of source (lit ''size'')) (put ''h'' (map_of source (lit ''h''))
        (put ''w'' (map_of source (lit ''w'')) []))) else None)"
  unfolding STICKER_LIMITS_def sticker_numbers_step sticker_numbers.simps(1) by simp

lemma sticker_info_eq:
  "sticker_info (JObject source) =
     (if number_ok 16384 False (map_of source (lit ''w'')) \<and> number_ok 16384 False (map_of source (lit ''h'')) \<and>
         number_ok 104857600 True (map_of source (lit ''size'')) \<and> mime_ok (map_of source (lit ''mimetype'')) \<and>
         animated_ok (map_of source (lit ''is_animated''))
      then Some (JObject (sticker_fields source)) else None)"
  by (cases "map_of source (lit ''mimetype'')"; cases "map_of source (lit ''is_animated'')")
    (auto simp: sticker_info_def sticker_numbers_eq sticker_fields_def put_def [of "''mimetype''"]
      put_def [of "''is_animated''"] mime_ok_def animated_ok_def split: option.splits)

text \<open>The pack the loop starts from, and the pack-wide usage.\<close>

definition pack_start :: "json_value \<Rightarrow> json_map \<Rightarrow> image_pack" where
  "pack_start content images =
     \<lparr>ip_display_name = pack_text (Option.bind (jget content (lit ''pack'')) (\<lambda>p. jget p (lit ''display_name''))) 256,
      ip_avatar_url = pack_mxc (Option.bind (jget content (lit ''pack'')) (\<lambda>p. jget p (lit ''avatar_url''))),
      ip_images = [], ip_partial = (MAX_PACK_IMAGES < length images)\<rparr>"

definition pack_usage_of :: "json_value \<Rightarrow> json_value option" where
  "pack_usage_of content = Option.bind (jget content (lit ''pack'')) (\<lambda>p. jget p (lit ''usage''))"

lemma parse_image_pack_eq:
  "parse_image_pack content =
     map_option (\<lambda>images. pack_loop (pack_usage_of content) (take MAX_PACK_IMAGES images) {} (pack_start content images))
       (if as_object content = Some [] then Some [] else Option.bind (jget content (lit ''images'')) as_object)"
  unfolding parse_image_pack_def pack_usage_of_def [symmetric] pack_start_def [symmetric] Let_def
  by (cases "if as_object content = Some [] then Some [] else Option.bind (jget content (lit ''images'')) as_object")
    (simp_all only: bind.simps option.map)

lemma pack_start_sel [simp]:
  "ip_images (pack_start content images) = []"
  "ip_partial (pack_start content images) = (MAX_PACK_IMAGES < length images)"
  by (simp_all add: pack_start_def)

section \<open>Properties\<close>

text \<open>A parsed image pack is bounded and unambiguous. It has at most 512 images with pairwise distinct,
  non-empty shortcodes; every image has a well-formed \<^verbatim>\<open>mxc\<close> URI, at least one use and a short body
  without control characters; and each comes from one of the first 512 entries of the pack.\<close>

theorem image_pack_sound:
  assumes "parse_image_pack content = Some pack"
  shows "length (ip_images pack) \<le> 512 \<and> distinct (map pi_shortcode (ip_images pack)) \<and>
    list_all image_ok (ip_images pack) \<and>
    (\<exists>images u. (content = JObject [] \<and> images = [] \<or> jget content (lit ''images'') = Some (JObject images)) \<and>
       (\<forall>i \<in> set (ip_images pack). \<exists>e \<in> set (take 512 images). entry_image u e = Some i))"
proof -
  define u where "u = pack_usage_of content"
  from assms obtain images where images: "as_object content = Some [] \<and> images = [] \<or>
      Option.bind (jget content (lit ''images'')) as_object = Some images"
    and pack: "pack = pack_loop u (take MAX_PACK_IMAGES images) {} (pack_start content images)"
    unfolding parse_image_pack_eq u_def by (fastforce split: if_split_asm)
  have obj: "as_object v = Some kvs \<longleftrightarrow> v = JObject kvs" for v kvs
    by (cases v) auto
  have loop: "list_all image_ok (ip_images pack)" "distinct (map pi_shortcode (ip_images pack))"
    "length (ip_images pack) \<le> length (take MAX_PACK_IMAGES images)"
    "\<forall>i \<in> set (ip_images pack). \<exists>e \<in> set (take MAX_PACK_IMAGES images). entry_image u e = Some i"
    using pack_loop_images [of "pack_start content images" "{}" u "take MAX_PACK_IMAGES images"] pack by simp_all
  have "content = JObject [] \<and> images = [] \<or> jget content (lit ''images'') = Some (JObject images)"
    using images by (auto simp: obj bind_eq_Some_conv)
  then show ?thesis
    using loop by (auto simp: MAX_PACK_IMAGES_def)
qed

definition demo_pack :: json_value where
  "demo_pack = JObject [(lit ''images'', JObject [(lit ''wave'', JObject [(lit ''url'', JString (lit ''mxc://h/w''))])])]"

lemma demo_pack_parses:
  "parse_image_pack demo_pack = Some \<lparr>ip_display_name = None, ip_avatar_url = None,
     ip_images = [\<lparr>pi_shortcode = lit ''wave'', pi_url = lit ''mxc://h/w'', pi_body = None, pi_emoticon = True,
       pi_sticker = True, pi_info = None\<rparr>], ip_partial = False\<rparr>"
proof -
  have name: "reaction_shortcode (lit ''wave'') = Some (lit ''wave'')"
    by (simp add: reaction_shortcode_def lit_def utf8_def utf8_char_def is_control_def SHORTCODE_TRIM_CHARS_def
        trim_matches_def)
  have url: "parse_mxc (lit ''mxc://h/w'') = Some (lit ''h'', lit ''w'')"
    by (simp add: parse_mxc_Some lit_def)
  show ?thesis
    by (simp add: parse_image_pack_def demo_pack_def MAX_PACK_IMAGES_def name pack_text_def pack_mxc_def
        usage_or_def image_usage_def lit_inject url)
qed

theorem image_pack_sound_witness:
  "length (ip_images (the (parse_image_pack demo_pack))) \<le> 512 \<and> length (ip_images (the (parse_image_pack demo_pack))) = 1"
  using image_pack_sound [OF demo_pack_parses] demo_pack_parses by simp

text \<open>Nothing is dropped silently. A pack that is not flagged partial has at most 512 entries, and its
  images are exactly what its entries declare, in order: every entry yields its image, except those
  the author declared for neither use.\<close>

theorem image_pack_complete:
  assumes "parse_image_pack content = Some pack" "\<not> ip_partial pack"
    "jget content (lit ''images'') = Some (JObject images)"
  shows "length images \<le> 512 \<and>
    (\<exists>u. ip_images pack = List.map_filter (entry_image u) images \<and>
       (\<forall>e \<in> set images. entry_image u e = None \<longrightarrow> entry_unused u e))"
proof -
  have ne: "as_object content \<noteq> Some []"
    using assms(3) by (auto simp: jget_def bind_eq_Some_conv)
  define u where "u = pack_usage_of content"
  have pack: "pack = pack_loop u (take MAX_PACK_IMAGES images) {} (pack_start content images)"
    using assms(1,3) ne by (simp add: parse_image_pack_eq u_def)
  note c = pack_loop_complete [OF assms(2) [unfolded pack]]
  then have len: "length images \<le> MAX_PACK_IMAGES"
    by simp
  then show ?thesis
    using c pack by (intro conjI exI [of _ u]) (auto simp: MAX_PACK_IMAGES_def list_all_iff)
qed

theorem image_pack_complete_witness:
  "\<exists>u. ip_images (the (parse_image_pack demo_pack)) =
     List.map_filter (entry_image u) [(lit ''wave'', JObject [(lit ''url'', JString (lit ''mxc://h/w''))])]"
proof -
  have "jget demo_pack (lit ''images'') = Some (JObject [(lit ''wave'', JObject [(lit ''url'', JString (lit ''mxc://h/w''))])])"
    by (simp add: demo_pack_def)
  from image_pack_complete [OF demo_pack_parses _ this] show ?thesis
    using demo_pack_parses by auto
qed

text \<open>Sticker metadata is projected to a fixed point: what the projection returns has only the five known
  fields, each with the value it was given and within its bounds, and projecting it again
  changes nothing.\<close>

theorem sticker_info_projects:
  assumes "sticker_info value = Some info"
  shows "sticker_info info = Some info \<and>
    (\<exists>source m. value = JObject source \<and> info = JObject m \<and>
       fst ` set m \<subseteq> {lit ''w'', lit ''h'', lit ''size'', lit ''mimetype'', lit ''is_animated''} \<and>
       (\<forall>k v. map_of m k = Some v \<longrightarrow> map_of source k = Some v) \<and>
       number_ok 16384 False (map_of m (lit ''w'')) \<and> number_ok 16384 False (map_of m (lit ''h'')) \<and>
       number_ok 104857600 True (map_of m (lit ''size'')))"
proof -
  obtain source where v: "value = JObject source"
    using assms by (cases "value") (auto simp: sticker_info_def)
  define m where "m = sticker_fields source"
  have ok: "info = JObject m" "number_ok 16384 False (map_of source (lit ''w''))"
    "number_ok 16384 False (map_of source (lit ''h''))" "number_ok 104857600 True (map_of source (lit ''size''))"
    "mime_ok (map_of source (lit ''mimetype''))" "animated_ok (map_of source (lit ''is_animated''))"
    using assms unfolding v sticker_info_eq m_def by (auto split: if_split_asm)
  have keys: "fst ` set m \<subseteq> {lit ''w'', lit ''h'', lit ''size'', lit ''mimetype'', lit ''is_animated''}"
    unfolding m_def sticker_fields_def using keys_put by (auto dest!: subsetD [OF keys_put])
  have sames: "map_of m (lit ''w'') = map_of source (lit ''w'')" "map_of m (lit ''h'') = map_of source (lit ''h'')"
    "map_of m (lit ''size'') = map_of source (lit ''size'')"
    "map_of m (lit ''mimetype'') = map_of source (lit ''mimetype'')"
    "map_of m (lit ''is_animated'') = map_of source (lit ''is_animated'')"
    unfolding m_def by (rule map_of_sticker_fields; simp)+
  have sub: "map_of m k = Some w \<longrightarrow> map_of source k = Some w" for k w
  proof
    assume k: "map_of m k = Some w"
    then have "k \<in> fst ` set m"
      by (metis map_of_eq_None_iff option.distinct(1))
    with keys have "k \<in> {lit ''w'', lit ''h'', lit ''size'', lit ''mimetype'', lit ''is_animated''}"
      by (rule subsetD)
    then have "map_of m k = map_of source k"
      by (elim insertE emptyE) (simp_all only: sames)
    with k show "map_of source k = Some w" by simp
  qed
  have "sticker_fields m = m"
    unfolding sticker_fields_def list.simps fold_simps using sames by (simp add: m_def sticker_fields_def)
  then have fix_point: "sticker_info info = Some info"
    unfolding ok(1) sticker_info_eq sames using ok(2-6) by (simp only: simp_thms if_True)
  show ?thesis
    by (intro conjI exI [of _ source] exI [of _ m] fix_point v ok(1) keys allI sub)
      (simp_all only: sames ok(2-4))
qed

theorem sticker_info_projects_witness:
  "sticker_info (JObject [(lit ''w'', JNumber 278), (lit ''x'', JNull)]) = Some (JObject [(lit ''w'', JNumber 278)]) \<and>
   sticker_info (JObject [(lit ''w'', JNumber 278)]) = Some (JObject [(lit ''w'', JNumber 278)])"
proof -
  have s: "sticker_info (JObject [(lit ''w'', JNumber 278), (lit ''x'', JNull)]) = Some (JObject [(lit ''w'', JNumber 278)])"
    by (simp add: sticker_info_eq number_ok_def mime_ok_def animated_ok_def sticker_fields_def put_def lit_inject)
  with sticker_info_projects [OF s] show ?thesis by blast
qed

end
