(* ===== verification/Link_Preview.thy ===== *)
theory Link_Preview
  imports Json_Value
begin

text \<open>
  Bundled URL previews: \<^verbatim>\<open>crates/axon-core/src/link_preview.rs\<close>, with \<^verbatim>\<open>Formatted\<close> and \<^verbatim>\<open>Relation\<close> of
  \<^verbatim>\<open>crates/axon-core/src/message.rs\<close>.

  The \<^verbatim>\<open>url\<close> crate's parser and JSON serialisation are parameters: \<open>url_api\<close> parses a URL and
  reads its parts, \<open>to_vec\<close> gives a value's bytes or fails. A result is a sum whose left side is
  the error.
\<close>

definition MAX_PREVIEWS :: nat where
  "MAX_PREVIEWS = 8"

definition MAX_PREVIEW_BYTES :: nat where
  "MAX_PREVIEW_BYTES = 32 * 1024"

definition MAX_CONTENT_BYTES :: nat where
  "MAX_CONTENT_BYTES = 40 * 1024"

definition MAX_MEDIA_SOURCE_BYTES :: nat where
  "MAX_MEDIA_SOURCE_BYTES = 1024"

definition IMAGE_RESERVE_BYTES :: nat where
  "IMAGE_RESERVE_BYTES = MAX_MEDIA_SOURCE_BYTES + 256"

definition MEDIA_RESERVE_BYTES :: nat where
  "MEDIA_RESERVE_BYTES = 12 * 1024"

record preview_metadata =
  pm_matched_url :: rstr
  pm_title :: "rstr option"
  pm_description :: "rstr option"
  pm_site_name :: "rstr option"

datatype preview_error = Invalid | PreviewsTooLarge | EventTooLarge

record formatted =
  fm_format :: rstr
  fm_body :: rstr

record relation =
  rl_reply_to :: "rstr option"
  rl_thread_root :: "rstr option"

definition relation_is_some :: "relation \<Rightarrow> bool" where
  "relation_is_some r \<longleftrightarrow> rl_reply_to r \<noteq> None \<or> rl_thread_root r \<noteq> None"

record 'u url_api =
  ua_parse :: "rstr \<Rightarrow> 'u option"
  ua_scheme :: "'u \<Rightarrow> rstr"
  ua_username :: "'u \<Rightarrow> rstr"
  ua_password :: "'u \<Rightarrow> rstr option"
  ua_to_string :: "'u \<Rightarrow> rstr"

section \<open>Text\<close>

definition utf16 :: "rstr \<Rightarrow> nat list" where
  "utf16 s = concat (map (\<lambda>c. if c < 65536 then [c]
     else [55296 + (c - 65536) div 1024, 56320 + (c - 65536) mod 1024]) s)"

definition bounded :: "rstr \<Rightarrow> nat \<Rightarrow> bool" where
  "bounded s limit \<longleftrightarrow> length (take (limit + 1) (utf16 s)) \<le> limit"

definition is_separator :: "nat \<Rightarrow> bool" where
  "is_separator c \<longleftrightarrow> 9 \<le> c \<and> c \<le> 13 \<or> c \<in> {32, 133, 160, 5760, 8232, 8233, 8239, 8287, 12288} \<or>
     8192 \<le> c \<and> c \<le> 8202 \<or> c = 65279 \<or> c = 60 \<or> c = 62 \<or> c = 34"

definition TRAILING_PUNCTUATION :: "nat list" where
  "TRAILING_PUNCTUATION = [46, 44, 59, 58, 33, 63, 41, 93, 39, 34]"

definition token_url :: "rstr \<Rightarrow> rstr option" where
  "token_url token =
     Option.bind (min_opt (List.map_filter (\<lambda>p. find_str (lit p) token) [''http://'', ''https://'', ''matrix:'']))
       (\<lambda>start.
          let url = drop start token
          in if take (length ''matrix:'') url = lit ''matrix:'' then None
             else Some (trim_end_matches TRAILING_PUNCTUATION url))"

definition body_urls :: "rstr \<Rightarrow> rstr list" where
  "body_urls body = List.map_filter token_url (split_on is_separator body)"

section \<open>Validation\<close>

definition opt_bounded :: "rstr option \<Rightarrow> nat \<Rightarrow> bool" where
  "opt_bounded s limit = (case s of None \<Rightarrow> True | Some t \<Rightarrow> bounded t limit)"

fun validate_loop :: "'u url_api \<Rightarrow> rstr list \<Rightarrow> rstr set \<Rightarrow> preview_metadata list \<Rightarrow> preview_error + unit" where
  "validate_loop api urls seen [] = Inr ()"
| "validate_loop api urls seen (p # ps) =
     (if \<not> bounded (pm_matched_url p) 4096 then Inl Invalid
      else case ua_parse api (pm_matched_url p) of
        None \<Rightarrow> Inl Invalid
      | Some url \<Rightarrow>
          if ua_scheme api url \<notin> {lit ''http'', lit ''https''} \<or> ua_username api url \<noteq> [] \<or>
             ua_password api url \<noteq> None \<or> pm_matched_url p \<notin> set urls \<or> ua_to_string api url \<in> seen \<or>
             \<not> opt_bounded (pm_title p) 300 \<or> \<not> opt_bounded (pm_description p) 1000 \<or>
             \<not> opt_bounded (pm_site_name p) 120
          then Inl Invalid
          else validate_loop api urls (insert (ua_to_string api url) seen) ps)"

definition validate_metadata :: "'u url_api \<Rightarrow> rstr \<Rightarrow> preview_metadata list \<Rightarrow> preview_error + unit" where
  "validate_metadata api body previews =
     (if MAX_PREVIEWS < length previews then Inl Invalid
      else if 64 * 1024 < length (utf8 body) then Inl EventTooLarge
      else validate_loop api (body_urls body) {} previews)"

section \<open>Content\<close>

definition preview_entry :: "preview_metadata \<Rightarrow> json_value" where
  "preview_entry m =
     fold (\<lambda>(key, text) v. case text of Some t \<Rightarrow> jset (lit key) (JString t) v | None \<Rightarrow> v)
       [(''og:title'', pm_title m), (''og:description'', pm_description m), (''og:site_name'', pm_site_name m)]
       (jobj [(''matrix:matched_url'', JString (pm_matched_url m))])"

definition encrypted_preview_file_for_mxc :: "json_value \<Rightarrow> rstr \<Rightarrow> json_value option" where
  "encrypted_preview_file_for_mxc preview mxc =
     find (\<lambda>file. Option.bind (jget file (lit ''url'')) as_string = Some mxc)
       (List.map_filter (\<lambda>key. jget preview (lit key)) [''matrix:image:encrypted'', ''beeper:image:encryption''])"

definition preview_for_mxc :: "json_value \<Rightarrow> rstr \<Rightarrow> json_value option" where
  "preview_for_mxc content mxc =
     Option.bind
       (case jget content (lit ''m.url_previews'') of
          Some v \<Rightarrow> Some v | None \<Rightarrow> jget content (lit ''com.beeper.linkpreviews''))
       (\<lambda>v. Option.bind (as_array v) (\<lambda>previews.
          case find (\<lambda>p. encrypted_preview_file_for_mxc p mxc \<noteq> None) previews of
            Some p \<Rightarrow> Some p
          | None \<Rightarrow> find (\<lambda>p. Option.bind (jget p (lit ''og:image'')) as_string = Some mxc) previews))"

definition rename_field :: "string \<Rightarrow> string \<Rightarrow> json_map \<Rightarrow> json_map" where
  "rename_field old new kvs =
     (case map_of kvs (lit old) of
        Some v \<Rightarrow> obj_insert (lit new) v (obj_remove (lit old) kvs)
      | None \<Rightarrow> kvs)"

definition compat_entry :: "json_value \<Rightarrow> json_value" where
  "compat_entry p = (case as_object p of
     Some kvs \<Rightarrow> JObject (rename_field ''matrix:image:encrypted'' ''beeper:image:encryption''
       (rename_field ''matrix:matched_url'' ''matched_url'' kvs))
   | None \<Rightarrow> p)"

definition install_previews :: "json_value \<Rightarrow> json_value list \<Rightarrow> json_value" where
  "install_previews content entries =
     jset (lit ''com.beeper.linkpreviews'') (JArray (map compat_entry entries))
       (jset (lit ''m.url_previews'') (JArray entries) content)"

definition relation_content :: "relation \<Rightarrow> json_value option" where
  "relation_content r =
     (if \<not> relation_is_some r then None
      else
        let v0 = jobj [];
            v1 = (case rl_thread_root r of
                    Some root \<Rightarrow> jset (lit ''event_id'') (JString root)
                      (jset (lit ''rel_type'') (JString (lit ''m.thread'')) v0)
                  | None \<Rightarrow> v0);
            v2 = (case rl_reply_to r of
                    Some reply \<Rightarrow> jset (lit ''m.in_reply_to'') (jobj [(''event_id'', JString reply)]) v1
                  | None \<Rightarrow> v1)
        in Some v2)"

definition text_content :: "rstr \<Rightarrow> formatted option \<Rightarrow> relation \<Rightarrow> json_value" where
  "text_content body fmt r =
     (let c0 = jobj [(''msgtype'', JString (lit ''m.text'')), (''body'', JString body)];
          c1 = (case fmt of
                  Some f \<Rightarrow> jset (lit ''formatted_body'') (JString (fm_body f))
                    (jset (lit ''format'') (JString (fm_format f)) c0)
                | None \<Rightarrow> c0)
      in case relation_content r of Some v \<Rightarrow> jset (lit ''m.relates_to'') v c1 | None \<Rightarrow> c1)"

definition check_content :: "(json_value \<Rightarrow> nat list option) \<Rightarrow> json_value \<Rightarrow> preview_error + unit" where
  "check_content to_vec content =
     (let whole = (case to_vec content of
                     None \<Rightarrow> Inl Invalid
                   | Some b \<Rightarrow> if MAX_CONTENT_BYTES < length b then Inl EventTooLarge else Inr ())
      in case jget content (lit ''m.url_previews'') of
           Some previews \<Rightarrow>
             (case to_vec previews of
                None \<Rightarrow> Inl Invalid
              | Some b \<Rightarrow> if MAX_PREVIEW_BYTES < length b then Inl PreviewsTooLarge else whole)
         | None \<Rightarrow> whole)"

definition reserve_entry :: "preview_metadata \<times> bool \<Rightarrow> json_value" where
  "reserve_entry p =
     (if snd p then jset (lit ''matrix:image:encrypted'') (JString (replicate IMAGE_RESERVE_BYTES 120))
        (preview_entry (fst p))
      else preview_entry (fst p))"

definition preflight ::
  "'u url_api \<Rightarrow> (json_value \<Rightarrow> nat list option) \<Rightarrow> rstr \<Rightarrow> formatted option \<Rightarrow> relation \<Rightarrow>
   (preview_metadata \<times> bool) list \<Rightarrow> bool \<Rightarrow> preview_error + unit"
where
  "preflight api to_vec body fmt r previews media =
     (case validate_metadata api body (map fst previews) of
        Inl e \<Rightarrow> Inl e
      | Inr _ \<Rightarrow>
          let content = install_previews (text_content body fmt r) (map reserve_entry previews);
              content' = (if media
                          then jset (lit ''_reserved_media_fields'') (JString (replicate MEDIA_RESERVE_BYTES 120)) content
                          else content)
          in check_content to_vec content')"

section \<open>Facts\<close>

lemma trim_end_matches_keeps:
  assumes "last p \<notin> set cs" "p \<noteq> []"
  shows "\<exists>r. trim_end_matches cs (p @ s) = p @ r"
proof -
  obtain q x where p: "p = q @ [x]"
    using assms(2) by (metis rev_exhaust)
  have "dropWhile (\<lambda>c. c \<in> set cs) (rev s @ x # rev q) =
      dropWhile (\<lambda>c. c \<in> set cs) (rev s) @ x # rev q"
    using assms(1) p by (induction "rev s" arbitrary: s rule: list.induct)
      (auto simp: dropWhile_append3 dropWhile_append)
  then show ?thesis
    by (simp add: trim_end_matches_def p)
qed

lemma trim_end_matches_prefix: "\<exists>b. s = trim_end_matches cs s @ b"
proof -
  have "rev s = takeWhile (\<lambda>c. c \<in> set cs) (rev s) @ dropWhile (\<lambda>c. c \<in> set cs) (rev s)"
    by simp
  then have "s = rev (dropWhile (\<lambda>c. c \<in> set cs) (rev s)) @ rev (takeWhile (\<lambda>c. c \<in> set cs) (rev s))"
    by (metis rev_append rev_rev_ident)
  then show ?thesis
    unfolding trim_end_matches_def by blast
qed

subsection \<open>What the tokenizer finds\<close>

lemma trim_end_matches_last:
  assumes "trim_end_matches cs s \<noteq> []"
  shows "last (trim_end_matches cs s) \<notin> set cs"
  using assms hd_dropWhile [of "\<lambda>c. c \<in> set cs" "rev s"] by (simp add: trim_end_matches_def last_rev)

lemma set_map_filter_Some:
  assumes "y \<in> set (List.map_filter f xs)"
  shows "\<exists>x \<in> set xs. f x = Some y"
  using assms by (induction xs) (auto simp: map_filter_simps split: option.splits)

lemma token_url_Some:
  assumes "token_url t = Some u"
  shows "(\<exists>a b. t = a @ u @ b) \<and> (\<exists>r. u = lit ''http://'' @ r \<or> u = lit ''https://'' @ r)"
proof -
  obtain n where n: "min_opt (List.map_filter (\<lambda>p. find_str (lit p) t) [''http://'', ''https://'', ''matrix:'']) = Some n"
    and not_matrix: "take (length ''matrix:'') (drop n t) \<noteq> lit ''matrix:''"
    and u: "u = trim_end_matches TRAILING_PUNCTUATION (drop n t)"
    using assms by (auto simp: token_url_def Let_def bind_eq_Some_conv split: if_split_asm)
  have "\<exists>p \<in> {''http://'', ''https://'', ''matrix:''}. find_str (lit p) t = Some n"
    using set_map_filter_Some [OF min_opt_in [OF n]] by simp
  then obtain p where p1: "p \<in> {''http://'', ''https://'', ''matrix:''}" and found: "find_str (lit p) t = Some n"
    by (elim bexE)
  obtain r where "drop n t = lit p @ r"
    using find_str_Some [OF found] by (elim exE)
  note p = p1 this
  from p have web: "p \<in> {''http://'', ''https://''}"
    using not_matrix by (auto simp: lit_def)
  then have "\<exists>r'. trim_end_matches TRAILING_PUNCTUATION (lit p @ r) = lit p @ r'"
    by (intro trim_end_matches_keeps) (auto simp: lit_def TRAILING_PUNCTUATION_def)
  then have "\<exists>r. u = lit ''http://'' @ r \<or> u = lit ''https://'' @ r"
    using web p u by auto
  moreover obtain b where "drop n t = u @ b"
    using trim_end_matches_prefix u by blast
  then have "t = take n t @ u @ b"
    by (metis append_take_drop_id)
  ultimately show ?thesis
    by blast
qed

lemma token_url_trimmed:
  assumes "token_url t = Some u"
  shows "last u \<notin> set TRAILING_PUNCTUATION"
proof -
  obtain s where "u = trim_end_matches TRAILING_PUNCTUATION s"
    using assms by (auto simp: token_url_def Let_def bind_eq_Some_conv split: if_split_asm)
  moreover have "u \<noteq> []"
    using token_url_Some [OF assms] by (auto simp: lit_def)
  ultimately show ?thesis
    using trim_end_matches_last by blast
qed

text \<open>Every URL found in a message body is a contiguous part of the body, begins with http:// or
  https://, and crosses no separator; a matrix: token, and the trailing punctuation of a sentence,
  never make it into the result.\<close>

theorem body_urls_sound:
  assumes "u \<in> set (body_urls body)"
  shows "(\<exists>a b. body = a @ u @ b) \<and> (\<exists>r. u = lit ''http://'' @ r \<or> u = lit ''https://'' @ r) \<and>
    list_all (\<lambda>c. \<not> is_separator c) u \<and> last u \<notin> set TRAILING_PUNCTUATION"
proof -
  obtain t where t: "t \<in> set (split_on is_separator body)" "token_url t = Some u"
    using assms by (auto simp: body_urls_def map_filter_def)
  obtain a b where ab: "t = a @ u @ b"
    using token_url_Some [OF t(2)] by blast
  obtain c d where cd: "body = c @ t @ d"
    using split_on_token [OF t(1)] by blast
  have "body = (c @ a) @ u @ (b @ d)"
    using ab cd by simp
  moreover have "list_all (\<lambda>c. \<not> is_separator c) u"
    using split_on_token [OF t(1)] ab by simp
  moreover have "last u \<notin> set TRAILING_PUNCTUATION"
    by (rule token_url_trimmed [OF t(2)])
  ultimately show ?thesis
    using token_url_Some [OF t(2)] by blast
qed

theorem body_urls_sound_witness:
  "lit ''https://a.b'' \<in> set (body_urls (lit ''see (https://a.b), or matrix:u/x'')) \<and>
   (\<exists>a b. lit ''see (https://a.b), or matrix:u/x'' = a @ lit ''https://a.b'' @ b)"
proof -
  have "lit ''https://a.b'' \<in> set (body_urls (lit ''see (https://a.b), or matrix:u/x''))"
    by (simp add: body_urls_def token_url_def is_separator_def TRAILING_PUNCTUATION_def trim_end_matches_def
        lit_def map_filter_simps)
  then show ?thesis
    by (intro conjI body_urls_sound [THEN conjunct1])
qed

subsection \<open>What validation accepts\<close>

definition preview_normal :: "'u url_api \<Rightarrow> preview_metadata \<Rightarrow> rstr" where
  "preview_normal api p = ua_to_string api (the (ua_parse api (pm_matched_url p)))"

definition preview_ok :: "'u url_api \<Rightarrow> rstr \<Rightarrow> preview_metadata \<Rightarrow> bool" where
  "preview_ok api body p \<longleftrightarrow>
     length (utf16 (pm_matched_url p)) \<le> 4096 \<and>
     (case ua_parse api (pm_matched_url p) of
        None \<Rightarrow> False
      | Some url \<Rightarrow> ua_scheme api url \<in> {lit ''http'', lit ''https''} \<and> ua_username api url = [] \<and>
          ua_password api url = None) \<and>
     pm_matched_url p \<in> set (body_urls body) \<and>
     opt_bounded (pm_title p) 300 \<and> opt_bounded (pm_description p) 1000 \<and> opt_bounded (pm_site_name p) 120"

lemma bounded_iff: "bounded s n \<longleftrightarrow> length (utf16 s) \<le> n"
  by (auto simp: bounded_def)

lemma validate_loop_Inr:
  "validate_loop api (body_urls body) seen ps = Inr () \<longleftrightarrow>
     list_all (preview_ok api body) ps \<and> distinct (map (preview_normal api) ps) \<and>
     set (map (preview_normal api) ps) \<inter> seen = {}"
proof (induction ps arbitrary: seen)
  case (Cons p ps)
  show ?case
    by (cases "ua_parse api (pm_matched_url p)")
      (auto simp: Cons.IH preview_ok_def preview_normal_def bounded_iff)
qed simp

lemma validate_metadata_Inr:
  "validate_metadata api body ps = Inr () \<longleftrightarrow>
     length ps \<le> 8 \<and> length (utf8 body) \<le> 65536 \<and> list_all (preview_ok api body) ps \<and>
     distinct (map (preview_normal api) ps)"
  by (auto simp: validate_metadata_def MAX_PREVIEWS_def validate_loop_Inr)

text \<open>Validation accepts a list of cards exactly when there are at most eight, the body fits 64 KiB of
  UTF-8, each card's URL is at most 4096 UTF-16 units, parses as http or https without credentials and is
  one of the URLs of the body, its texts are within their limits, and no two cards name the same URL.\<close>

theorem link_preview_validated:
  "validate_metadata api body ps = Inr () \<longleftrightarrow>
     length ps \<le> 8 \<and> length (utf8 body) \<le> 65536 \<and> list_all (preview_ok api body) ps \<and>
     distinct (map (preview_normal api) ps)"
  by (rule validate_metadata_Inr)

subsection \<open>The two spellings\<close>

lemma jget_compat_encrypted [simp]:
  "map_of kvs (lit ''beeper:image:encryption'') = None \<Longrightarrow>
   jget (compat_entry (JObject kvs)) (lit ''matrix:image:encrypted'') = None"
  "map_of kvs (lit ''beeper:image:encryption'') = None \<Longrightarrow>
   jget (compat_entry (JObject kvs)) (lit ''beeper:image:encryption'') = map_of kvs (lit ''matrix:image:encrypted'')"
  "jget (compat_entry (JObject kvs)) (lit ''og:image'') = map_of kvs (lit ''og:image'')"
  by (auto simp: compat_entry_def rename_field_def lit_def split: option.splits)

definition standard_entry :: "json_value \<Rightarrow> bool" where
  "standard_entry p = (case as_object p of
     Some kvs \<Rightarrow> map_of kvs (lit ''beeper:image:encryption'') = None | None \<Rightarrow> False)"

lemma standard_entryE:
  assumes "standard_entry p"
  obtains kvs where "p = JObject kvs" "map_of kvs (lit ''beeper:image:encryption'') = None"
  using assms by (cases p) (auto simp: standard_entry_def)

lemma encrypted_compat:
  assumes "standard_entry p"
  shows "encrypted_preview_file_for_mxc (compat_entry p) mxc = encrypted_preview_file_for_mxc p mxc"
  using assms by (elim standard_entryE) (simp add: encrypted_preview_file_for_mxc_def map_filter_simps split: option.splits)

lemma og_image_compat:
  assumes "standard_entry p"
  shows "jget (compat_entry p) (lit ''og:image'') = jget p (lit ''og:image'')"
  using assms by (elim standard_entryE) simp

lemma find_map_compat:
  "list_all (\<lambda>p. P (f p) = Q p) ps \<Longrightarrow> find P (map f ps) = map_option f (find Q ps)"
  by (induction ps) auto

text \<open>C9: a receiver that knows only the compatibility array finds, for every media URI, the card the
  standard array gives (with its two renamed fields), so both spellings of a sent message resolve
  the same image and the same decryption file.\<close>

theorem link_preview_aliases_agree:
  assumes "list_all standard_entry entries"
  shows "preview_for_mxc
      (case install_previews (JObject kvs) entries of
         JObject fs \<Rightarrow> JObject (obj_remove (lit ''m.url_previews'') fs) | v \<Rightarrow> v) mxc =
    map_option compat_entry (preview_for_mxc (install_previews (JObject kvs) entries) mxc)"
proof -
  have enc: "find (\<lambda>p. encrypted_preview_file_for_mxc p mxc \<noteq> None) (map compat_entry entries) =
      map_option compat_entry (find (\<lambda>p. encrypted_preview_file_for_mxc p mxc \<noteq> None) entries)"
    using assms by (intro find_map_compat) (auto simp: list_all_iff encrypted_compat)
  have og: "find (\<lambda>p. Option.bind (jget p (lit ''og:image'')) as_string = Some mxc) (map compat_entry entries) =
      map_option compat_entry (find (\<lambda>p. Option.bind (jget p (lit ''og:image'')) as_string = Some mxc) entries)"
    using assms by (intro find_map_compat) (auto simp: list_all_iff og_image_compat)
  have names: "lit ''m.url_previews'' \<noteq> lit ''com.beeper.linkpreviews''"
    by (simp add: lit_def)
  show ?thesis
    using names by (simp add: preview_for_mxc_def install_previews_def enc og del: not_None_eq split: option.splits)
qed

theorem link_preview_aliases_agree_witness:
  "let e = JObject [(lit ''matrix:matched_url'', JString (lit ''https://a.b'')),
                    (lit ''matrix:image:encrypted'', JObject [(lit ''url'', JString (lit ''mxc://s/m''))])];
       c = install_previews (JObject []) [e]
   in preview_for_mxc
        (case c of JObject fs \<Rightarrow> JObject (obj_remove (lit ''m.url_previews'') fs) | v \<Rightarrow> v)
        (lit ''mxc://s/m'') = Some (compat_entry e)"
proof -
  define e where "e = JObject [(lit ''matrix:matched_url'', JString (lit ''https://a.b'')),
                    (lit ''matrix:image:encrypted'', JObject [(lit ''url'', JString (lit ''mxc://s/m''))])]"
  have std: "list_all standard_entry [e]"
    unfolding e_def by code_simp
  have found: "preview_for_mxc (install_previews (JObject []) [e]) (lit ''mxc://s/m'') = Some e"
    unfolding e_def by code_simp
  show ?thesis
    unfolding Let_def e_def [symmetric]
    by (simp only: link_preview_aliases_agree [OF std] found option.map)
qed

end
