(* ===== verification/Preview_Generation.thy ===== *)
theory Preview_Generation
  imports Link_Preview Image_Pack "HOL-Library.Word"
begin

text \<open>
  Which URLs the server asks its homeserver to preview, and what it keeps of the answer:
  \<^verbatim>\<open>crates/axon-core/src/preview_generation.rs\<close>.

  \<^verbatim>\<open>Url::host\<close> of the \<^verbatim>\<open>url\<close> crate is the parameter \<open>host\<close>. An IPv4 address is its four octets,
  an IPv6 address its eight 16-bit segments.
\<close>

unbundle bit_operations_syntax

type_synonym octet = "8 word"
type_synonym segment = "16 word"

datatype host = Domain rstr | Ipv4 octet octet octet octet | Ipv6 "segment list"

definition public_v4 :: "octet \<Rightarrow> octet \<Rightarrow> octet \<Rightarrow> bool" where
  "public_v4 a b c \<longleftrightarrow>
     \<not> (a = 0 \<or> a = 10 \<or> a = 127 \<or> 224 \<le> a \<or>
        a = 100 \<and> 64 \<le> b \<and> b \<le> 127 \<or>
        a = 169 \<and> b = 254 \<or>
        a = 172 \<and> 16 \<le> b \<and> b \<le> 31 \<or>
        a = 192 \<and> b = 168 \<or>
        a = 192 \<and> b = 0 \<and> (c = 0 \<or> c = 2) \<or>
        a = 192 \<and> b = 88 \<and> c = 99 \<or>
        a = 198 \<and> (b = 18 \<or> b = 19) \<or>
        a = 198 \<and> b = 51 \<and> c = 100 \<or>
        a = 203 \<and> b = 0 \<and> c = 113)"

text \<open>\<^verbatim>\<open>Ipv6Addr::to_ipv4_mapped\<close>: the addresses of \<^verbatim>\<open>::ffff:0:0/96\<close>.\<close>

definition is_ipv4_mapped :: "segment list \<Rightarrow> bool" where
  "is_ipv4_mapped s \<longleftrightarrow> take 5 s = [0, 0, 0, 0, 0] \<and> s ! 5 = 0xFFFF"

definition public_v6 :: "segment list \<Rightarrow> bool" where
  "public_v6 s \<longleftrightarrow>
     \<not> is_ipv4_mapped s \<and>
     s ! 0 AND 0xE000 = 0x2000 \<and>
     \<not> (s ! 0 = 0x2001 \<and> (s ! 1 < 0x200 \<or> s ! 1 = 0xDB8)) \<and>
     s ! 0 \<noteq> 0x2002 \<and>
     \<not> (s ! 0 = 0x3FFF \<and> s ! 1 < 0x1000)"

definition PRIVATE_SUFFIXES :: "rstr list" where
  "PRIVATE_SUFFIXES = map lit
     [''localhost'', ''local'', ''localdomain'', ''internal'', ''intranet'', ''corp'', ''private'',
      ''home'', ''lan'', ''test'', ''invalid'', ''example'', ''onion'', ''arpa'']"

definition ends_with :: "rstr \<Rightarrow> rstr \<Rightarrow> bool" where
  "ends_with s t \<longleftrightarrow> length t \<le> length s \<and> drop (length s - length t) s = t"

definition normal_host :: "rstr \<Rightarrow> rstr" where
  "normal_host h = to_ascii_lowercase (trim_end_matches [46] h)"

definition public_domain :: "rstr \<Rightarrow> bool" where
  "public_domain h \<longleftrightarrow>
     (let host = normal_host h
      in 46 \<in> set host \<and>
         \<not> list_ex (\<lambda>suffix. host = suffix \<or> ends_with host (46 # suffix)) PRIVATE_SUFFIXES)"

definition eligible_url :: "'u url_api \<Rightarrow> ('u \<Rightarrow> host option) \<Rightarrow> rstr \<Rightarrow> bool" where
  "eligible_url api host input =
     (if 16384 < length (utf8 input) \<or> 4096 < length (utf16 input) \<or>
         list_ex (\<lambda>c. is_control c \<or> is_white_space c) input
      then False
      else case ua_parse api input of
        None \<Rightarrow> False
      | Some url \<Rightarrow>
          if ua_scheme api url \<notin> {lit ''http'', lit ''https''} \<or> ua_username api url \<noteq> [] \<or>
             ua_password api url \<noteq> None
          then False
          else (case host url of
                  Some (Ipv4 a b c _) \<Rightarrow> public_v4 a b c
                | Some (Ipv6 s) \<Rightarrow> public_v6 s
                | Some (Domain h) \<Rightarrow> public_domain h
                | None \<Rightarrow> False))"

text \<open>\<^verbatim>\<open>PreviewUrl::parse\<close>; the result is the wrapped string.\<close>

definition preview_url_parse :: "'u url_api \<Rightarrow> ('u \<Rightarrow> host option) \<Rightarrow> rstr \<Rightarrow> preview_error + rstr" where
  "preview_url_parse api host input =
     (if \<not> eligible_url api host input then Inl Invalid
      else case validate_metadata api input
             [\<lparr>pm_matched_url = input, pm_title = None, pm_description = None, pm_site_name = None\<rparr>] of
        Inl e \<Rightarrow> Inl e
      | Inr _ \<Rightarrow> Inr input)"

definition normalize_text :: "json_value \<Rightarrow> string \<Rightarrow> nat \<Rightarrow> rstr option" where
  "normalize_text value key limit =
     Option.bind (Option.bind (jget value (lit key)) as_string) (\<lambda>s.
       let t = trim_matches is_white_space s
       in if t \<noteq> [] \<and> length (utf16 t) \<le> limit \<and> \<not> list_ex (\<lambda>c. is_control c \<and> c \<noteq> 10 \<and> c \<noteq> 9) t
          then Some t else None)"

definition normalize_preview :: "rstr \<Rightarrow> json_value \<Rightarrow> preview_metadata option" where
  "normalize_preview url value =
     (if as_object value = None then None
      else Some \<lparr>pm_matched_url = url, pm_title = normalize_text value ''og:title'' 300,
                 pm_description = normalize_text value ''og:description'' 1000,
                 pm_site_name = normalize_text value ''og:site_name'' 120\<rparr>)"

section \<open>Addresses as blocks\<close>

text \<open>The address as a 32-bit number, and membership in the block of a given prefix length.\<close>

definition ipv4 :: "octet \<Rightarrow> octet \<Rightarrow> octet \<Rightarrow> octet \<Rightarrow> nat" where
  "ipv4 a b c d = ((unat a * 256 + unat b) * 256 + unat c) * 256 + unat d"

definition in_block :: "nat \<Rightarrow> nat \<times> nat \<Rightarrow> bool" where
  "in_block ip blk \<longleftrightarrow> ip div 2 ^ (32 - snd blk) = fst blk div 2 ^ (32 - snd blk)"

text \<open>The special-purpose blocks: this network, private use, loopback, multicast, reserved and
  broadcast, shared address space, link local, protocol assignments, the three documentation
  nets, the former 6to4 relay anycast and benchmarking.\<close>

definition SPECIAL_BLOCKS :: "(nat \<times> nat) list" where
  "SPECIAL_BLOCKS =
     [(ipv4 0 0 0 0, 8), (ipv4 10 0 0 0, 8), (ipv4 127 0 0 0, 8), (ipv4 224 0 0 0, 4), (ipv4 240 0 0 0, 4),
      (ipv4 100 64 0 0, 10), (ipv4 169 254 0 0, 16), (ipv4 172 16 0 0, 12), (ipv4 192 168 0 0, 16),
      (ipv4 192 0 0 0, 24), (ipv4 192 0 2 0, 24), (ipv4 192 88 99 0, 24), (ipv4 198 18 0 0, 15),
      (ipv4 198 51 100 0, 24), (ipv4 203 0 113 0, 24)]"

lemma octet_bounds: "unat (a :: octet) < 256"
  using unsigned_less [of a] by simp

lemma ipv4_div:
  "ipv4 a b c d div 268435456 = unat a div 16" "ipv4 a b c d div 16777216 = unat a"
  "ipv4 a b c d div 4194304 = unat a * 4 + unat b div 64" "ipv4 a b c d div 1048576 = unat a * 16 + unat b div 16"
  "ipv4 a b c d div 131072 = unat a * 128 + unat b div 2" "ipv4 a b c d div 65536 = unat a * 256 + unat b"
  "ipv4 a b c d div 256 = (unat a * 256 + unat b) * 256 + unat c"
  using octet_bounds [of a] octet_bounds [of b] octet_bounds [of c] octet_bounds [of d]
  by (simp_all add: ipv4_def)

lemma octet_unat:
  "a = b \<longleftrightarrow> unat a = unat b" "a \<le> b \<longleftrightarrow> unat a \<le> unat b" for a b :: octet
  by (simp_all add: word_unat_eq_iff word_le_nat_alt)

lemma digits_eq:
  fixes x y :: nat
  assumes "y < k" "y' < k"
  shows "x * k + y = x' * k + y' \<longleftrightarrow> x = x' \<and> y = y'"
proof
  assume eq: "x * k + y = x' * k + y'"
  have "x = (x * k + y) div k" "x' = (x' * k + y') div k"
    using assms by simp_all
  with eq show "x = x' \<and> y = y'"
    by simp
qed simp

lemma in_block_4: "in_block (ipv4 a b c d) (ipv4 k 0 0 0, 4) \<longleftrightarrow> unat a div 16 = unat k div 16"
  by (simp add: in_block_def ipv4_div)

lemma in_block_8: "in_block (ipv4 a b c d) (ipv4 k 0 0 0, 8) \<longleftrightarrow> a = k"
  by (simp add: in_block_def ipv4_div octet_unat)

lemma in_block_10:
  "in_block (ipv4 a b c d) (ipv4 k l 0 0, 10) \<longleftrightarrow> a = k \<and> unat b div 64 = unat l div 64"
  using digits_eq [of "unat b div 64" 4 "unat l div 64" "unat a" "unat k"] octet_bounds [of b] octet_bounds [of l]
  by (simp add: in_block_def ipv4_div octet_unat less_mult_imp_div_less)

lemma in_block_12:
  "in_block (ipv4 a b c d) (ipv4 k l 0 0, 12) \<longleftrightarrow> a = k \<and> unat b div 16 = unat l div 16"
  using digits_eq [of "unat b div 16" 16 "unat l div 16" "unat a" "unat k"] octet_bounds [of b] octet_bounds [of l]
  by (simp add: in_block_def ipv4_div octet_unat less_mult_imp_div_less)

lemma in_block_15:
  "in_block (ipv4 a b c d) (ipv4 k l 0 0, 15) \<longleftrightarrow> a = k \<and> unat b div 2 = unat l div 2"
  using digits_eq [of "unat b div 2" 128 "unat l div 2" "unat a" "unat k"] octet_bounds [of b] octet_bounds [of l]
  by (simp add: in_block_def ipv4_div octet_unat less_mult_imp_div_less)

lemma in_block_16: "in_block (ipv4 a b c d) (ipv4 k l 0 0, 16) \<longleftrightarrow> a = k \<and> b = l"
  using digits_eq [of "unat b" 256 "unat l" "unat a" "unat k"] octet_bounds [of b] octet_bounds [of l]
  by (simp add: in_block_def ipv4_div octet_unat)

lemma in_block_24: "in_block (ipv4 a b c d) (ipv4 k l m 0, 24) \<longleftrightarrow> a = k \<and> b = l \<and> c = m"
  using digits_eq [of "unat c" 256 "unat m" "unat a * 256 + unat b" "unat k * 256 + unat l"]
    digits_eq [of "unat b" 256 "unat l" "unat a" "unat k"]
    octet_bounds [of b] octet_bounds [of l] octet_bounds [of c] octet_bounds [of m]
  by (simp add: in_block_def ipv4_div octet_unat)

lemmas in_block_simps = in_block_4 in_block_8 in_block_10 in_block_12 in_block_15 in_block_16 in_block_24

lemma div_eq_range:
  fixes n k q :: nat
  assumes "0 < k"
  shows "n div k = q \<longleftrightarrow> q * k \<le> n \<and> n < Suc q * k"
proof -
  have "n div k = q \<longleftrightarrow> q \<le> n div k \<and> n div k < Suc q"
    by auto
  then show ?thesis
    using assms by (simp only: less_eq_div_iff_mult_less_eq div_less_iff_less_mult)
qed

lemma byte_ranges:
  fixes n :: nat
  assumes "n < 256"
  shows "224 \<le> n \<longleftrightarrow> n div 16 = 14 \<or> n div 16 = 15" "64 \<le> n \<and> n \<le> 127 \<longleftrightarrow> n div 64 = 1"
    "16 \<le> n \<and> n \<le> 31 \<longleftrightarrow> n div 16 = 1" "n = 18 \<or> n = 19 \<longleftrightarrow> n div 2 = 9"
  using assms by (auto simp: div_eq_range)

lemma octet_ranges:
  "224 \<le> a \<longleftrightarrow> unat a div 16 = 14 \<or> unat a div 16 = 15"
  "64 \<le> a \<and> a \<le> 127 \<longleftrightarrow> unat a div 64 = 1"
  "16 \<le> a \<and> a \<le> 31 \<longleftrightarrow> unat a div 16 = 1"
  "a = 18 \<or> a = 19 \<longleftrightarrow> unat a div 2 = 9" for a :: octet
  unfolding byte_ranges [OF octet_bounds, symmetric] by (simp_all add: octet_unat)

lemma public_v4_blocks:
  "public_v4 a b c \<longleftrightarrow> list_all (\<lambda>blk. \<not> in_block (ipv4 a b c d) blk) SPECIAL_BLOCKS"
  unfolding public_v4_def SPECIAL_BLOCKS_def list.pred_inject in_block_simps octet_ranges
  by (simp; blast)

lemma v6_prefix:
  fixes x :: segment
  shows "x AND 0xE000 = 0x2000 \<longleftrightarrow> unat x div 8192 = 1"
proof -
  define y where "y = drop_bit 13 x"
  have n: "unat y = unat x div 8192"
    by (simp only: y_def unat_drop_bit_eq) (simp add: drop_bit_eq_div)
  have "unat x < 65536"
    using unsigned_less [of x] by simp
  then have "unat y < 8"
    unfolding n by (simp add: less_mult_imp_div_less)
  then have "unat y \<in> {0, 1, 2, 3, 4, 5, 6, 7}"
    by auto
  then have "y \<in> {0, 1, 2, 3, 4, 5, 6, 7}"
    by (simp add: word_unat_eq_iff)
  moreover have "x AND 0xE000 = push_bit 13 (take_bit 3 y)"
    unfolding y_def slice_eq_mask by (simp add: mask_numeral)
  ultimately show ?thesis
    unfolding n [symmetric] by (elim insertE emptyE) simp_all
qed

section \<open>Domain labels\<close>

definition last_label :: "rstr \<Rightarrow> rstr" where
  "last_label h = rev (takeWhile (\<lambda>c. c \<noteq> 46) (rev h))"

lemma last_label_no_dot: "46 \<notin> set h \<Longrightarrow> last_label h = h"
  unfolding last_label_def by (subst takeWhile_eq_all_conv [THEN iffD2]) auto

lemma last_label_dot:
  assumes "46 \<notin> set b"
  shows "last_label (a @ 46 # b) = b"
proof -
  have "takeWhile (\<lambda>c. c \<noteq> 46) (rev b @ 46 # rev a) = rev b @ takeWhile (\<lambda>c. c \<noteq> 46) (46 # rev a)"
    using assms by (intro takeWhile_append2) auto
  then show ?thesis
    by (simp add: last_label_def)
qed

lemma ends_with_append: "ends_with s t \<longleftrightarrow> (\<exists>a. s = a @ t)"
  by (auto simp: ends_with_def) (metis append_take_drop_id)

lemma last_label_suffix:
  assumes "46 \<notin> set suffix"
  shows "h = suffix \<or> ends_with h (46 # suffix) \<longleftrightarrow> last_label h = suffix"
proof (cases "46 \<in> set h")
  case True
  then obtain a b where h: "h = a @ 46 # b" "46 \<notin> set b"
    using split_list_last by metis
  have "last_label h = b"
    using h by (simp add: last_label_dot)
  moreover have "ends_with h (46 # suffix) \<longleftrightarrow> b = suffix"
    using assms h last_label_dot unfolding ends_with_append by metis
  ultimately show ?thesis
    using True assms by auto
next
  case False
  then show ?thesis
    by (auto simp: last_label_no_dot ends_with_append)
qed

lemma public_domain_iff:
  "public_domain h \<longleftrightarrow> 46 \<in> set (normal_host h) \<and> last_label (normal_host h) \<notin> set PRIVATE_SUFFIXES"
proof -
  have "\<forall>suffix \<in> set PRIVATE_SUFFIXES. 46 \<notin> set suffix"
    by (simp add: PRIVATE_SUFFIXES_def lit_def)
  then show ?thesis
    using last_label_suffix by (auto simp: public_domain_def Let_def list_ex_iff)
qed

section \<open>Properties\<close>

text \<open>The reading of a host that an eligible URL has.\<close>

fun public_host :: "host \<Rightarrow> bool" where
  "public_host (Ipv4 a b c d) = list_all (\<lambda>blk. \<not> in_block (ipv4 a b c d) blk) SPECIAL_BLOCKS"
| "public_host (Ipv6 s) =
     (unat (s ! 0) div 8192 = 1 \<and> s ! 0 \<noteq> 0x2002 \<and>
      \<not> (s ! 0 = 0x2001 \<and> (s ! 1 < 0x200 \<or> s ! 1 = 0xDB8)) \<and> \<not> (s ! 0 = 0x3FFF \<and> s ! 1 < 0x1000))"
| "public_host (Domain h) = (46 \<in> set (normal_host h) \<and> last_label (normal_host h) \<notin> set PRIVATE_SUFFIXES)"

lemma eligible_urlE:
  assumes "eligible_url api host input"
  obtains url h where "ua_parse api input = Some url" "ua_scheme api url \<in> {lit ''http'', lit ''https''}"
    "ua_username api url = []" "ua_password api url = None" "host url = Some h" "public_host h"
  using assms public_v4_blocks
  by (fastforce simp: eligible_url_def public_domain_iff public_v6_def v6_prefix
      split: if_split_asm option.split_asm host.split_asm)

definition bare_preview :: "rstr \<Rightarrow> preview_metadata" where
  "bare_preview u = \<lparr>pm_matched_url = u, pm_title = None, pm_description = None, pm_site_name = None\<rparr>"

lemma preview_url_parse_Inr:
  "preview_url_parse api host input = Inr u \<longleftrightarrow> u = input \<and> eligible_url api host input \<and>
     length (utf8 input) \<le> 65536 \<and> preview_ok api input (bare_preview input)"
proof -
  have "validate_metadata api input [bare_preview input] = Inr () \<longleftrightarrow>
      length (utf8 input) \<le> 65536 \<and> preview_ok api input (bare_preview input)"
    by (simp add: validate_metadata_Inr)
  then show ?thesis
    unfolding preview_url_parse_def bare_preview_def [symmetric]
    by (cases "validate_metadata api input [bare_preview input]") auto
qed

text \<open>A URL that is accepted for preview generation is a public one: it parses as http or https without
  credentials and is the link of a message consisting of it; its host is an IPv4 address outside every
  special-purpose block, a global unicast IPv6 address outside the special ranges, or a dotted
  name whose last label is not one of the private ones.\<close>

theorem preview_url_public:
  assumes "preview_url_parse api host input = Inr u"
  shows "u = input \<and> input \<in> set (body_urls input) \<and>
    (\<exists>url h. ua_parse api u = Some url \<and> ua_scheme api url \<in> {lit ''http'', lit ''https''} \<and>
       ua_username api url = [] \<and> ua_password api url = None \<and> host url = Some h \<and> public_host h)"
proof -
  have u: "u = input" "eligible_url api host input" "preview_ok api input (bare_preview input)"
    using assms by (simp_all add: preview_url_parse_Inr)
  moreover have "input \<in> set (body_urls input)"
    using u(3) by (simp add: preview_ok_def bare_preview_def)
  ultimately show ?thesis
    using eligible_urlE [OF u(2)] by metis
qed

text \<open>A parser for the witnesses: it accepts one URL.\<close>

definition demo_url :: rstr where
  "demo_url = lit ''https://a.b.org''"

definition demo_api :: "unit url_api" where
  "demo_api = \<lparr>ua_parse = (\<lambda>s. if s = demo_url then Some () else None), ua_scheme = (\<lambda>_. lit ''https''),
     ua_username = (\<lambda>_. []), ua_password = (\<lambda>_. None), ua_to_string = (\<lambda>_. demo_url)\<rparr>"

lemma demo_url_found: "body_urls demo_url = [demo_url]"
  by (simp add: demo_url_def body_urls_def token_url_def is_separator_def TRAILING_PUNCTUATION_def
      trim_end_matches_def lit_def map_filter_simps)

lemma demo_url_parses: "preview_url_parse demo_api (\<lambda>_. Some (Ipv4 8 8 8 8)) demo_url = Inr demo_url"
proof -
  have "utf8 demo_url = demo_url" "utf16 demo_url = demo_url"
    by (simp_all add: demo_url_def lit_def utf8_def utf8_char_def utf16_def)
  moreover have "length demo_url = 15" "list_ex (\<lambda>c. is_control c \<or> is_white_space c) demo_url = False"
    by (simp_all add: demo_url_def lit_def is_control_def is_white_space_def)
  ultimately show ?thesis
    by (simp add: preview_url_parse_Inr eligible_url_def preview_ok_def bare_preview_def demo_url_found
        demo_api_def public_v4_def opt_bounded_def)
qed

theorem preview_url_public_witness: "public_host (Ipv4 8 8 8 8)"
  using preview_url_public [OF demo_url_parses] by simp

text \<open>What the server makes of a homeserver's answer can always be sent: for an accepted URL and any
  answer, the normalised card passes validation in every message of at most 64 KiB whose links
  include the URL, and it never replaces the URL.\<close>

theorem preview_normalized_sendable:
  assumes "preview_url_parse api host input = Inr u" "normalize_preview u answer = Some pv"
    "u \<in> set (body_urls body)" "length (utf8 body) \<le> 65536"
  shows "pm_matched_url pv = input \<and> validate_metadata api body [pv] = Inr ()"
proof -
  have u: "u = input" "preview_ok api input (bare_preview input)"
    using assms(1) by (simp_all add: preview_url_parse_Inr)
  have bound: "opt_bounded (normalize_text answer key n) n" for key n
    by (auto simp: opt_bounded_def bounded_iff normalize_text_def bind_eq_Some_conv Let_def
        split: option.splits if_split_asm)
  have pv: "pv = \<lparr>pm_matched_url = u, pm_title = normalize_text answer ''og:title'' 300,
      pm_description = normalize_text answer ''og:description'' 1000,
      pm_site_name = normalize_text answer ''og:site_name'' 120\<rparr>"
    using assms(2) by (simp add: normalize_preview_def split: if_split_asm)
  have "preview_ok api body pv"
    using u assms(3) bound by (simp add: pv preview_ok_def bare_preview_def)
  with u(1) assms(4) show ?thesis
    by (simp add: validate_metadata_Inr pv)
qed

theorem preview_normalized_sendable_witness:
  "\<exists>pv. normalize_preview demo_url (JObject [(lit ''og:title'', JString (lit '' t ''))]) = Some pv \<and>
     pm_title pv = Some (lit ''t'') \<and> validate_metadata demo_api demo_url [pv] = Inr ()"
proof -
  let ?v = "JObject [(lit ''og:title'', JString (lit '' t ''))]"
  obtain pv where pv: "normalize_preview demo_url ?v = Some pv"
    by (simp add: normalize_preview_def)
  have "length (utf8 demo_url) \<le> 65536"
    by (simp add: demo_url_def lit_def utf8_def utf8_char_def)
  then have "validate_metadata demo_api demo_url [pv] = Inr ()"
    using preview_normalized_sendable [OF demo_url_parses pv] demo_url_found by simp
  moreover have "pm_title pv = Some (lit ''t'')"
    using pv by (auto simp: normalize_preview_def normalize_text_def trim_matches_def is_white_space_def lit_def
        is_control_def utf16_def)
  ultimately show ?thesis
    using pv by blast
qed

end
