(* ===== verification/Room_Sweep.thy ===== *)
theory Room_Sweep
  imports Json_Value "HOL-Library.FSet"
begin

text \<open>
  The bounded traversal of an account's rooms that local reconciliation workers share:
  \<^verbatim>\<open>crates/axon-sync/src/room_sweep.rs\<close>, with the page query
  \<^verbatim>\<open>state_reconciliation_rooms\<close> of \<^verbatim>\<open>crates/axon-store/src/state.rs\<close>.

  \<^item> \<open>take_hints\<close> reads from a receiver that is a state-passing function.
  \<^item> \<open>sweep_page\<close> is one call of \<^verbatim>\<open>page\<close>: \<open>now\<close> is the clock when it starts, \<open>later\<close> when the query
    has returned, and the query's result is an argument; the locale \<open>keyset_pages\<close> says what
    the query promises.
\<close>

section \<open>Hints\<close>

datatype 'r hint_read = HintRoom 'r | HintEmpty | HintClosed | HintLagged

record 'r hint_batch =
  hb_rooms :: "'r set"
  hb_closed :: bool
  hb_lagged :: bool

fun take_hints_loop ::
  "nat \<Rightarrow> ('s \<Rightarrow> 'r hint_read \<times> 's) \<Rightarrow> 's \<Rightarrow> 'r hint_batch \<Rightarrow> 'r hint_batch \<times> 's"
where
  "take_hints_loop 0 receive s batch = (batch, s)"
| "take_hints_loop (Suc n) receive s batch =
     (if card (hb_rooms batch) = 4 then (batch, s)
      else case receive s of
        (HintRoom room, s') \<Rightarrow> take_hints_loop n receive s' (batch\<lparr>hb_rooms := insert room (hb_rooms batch)\<rparr>)
      | (HintEmpty, s') \<Rightarrow> (batch, s')
      | (HintClosed, s') \<Rightarrow> (batch\<lparr>hb_closed := True\<rparr>, s')
      | (HintLagged, s') \<Rightarrow> (batch\<lparr>hb_lagged := True\<rparr>, s'))"

definition take_hints :: "('s \<Rightarrow> 'r hint_read \<times> 's) \<Rightarrow> 's \<Rightarrow> 'r hint_batch \<times> 's" where
  "take_hints receive s =
     take_hints_loop 32 receive s \<lparr>hb_rooms = {}, hb_closed = False, hb_lagged = False\<rparr>"

section \<open>The sweep\<close>

record room_sweep =
  sw_cursor :: rstr
  sw_next :: instant
  sw_repeat :: bool
  sw_started :: "instant option"
  sw_visited :: nat

definition sweep_new :: "instant \<Rightarrow> room_sweep" where
  "sweep_new now = \<lparr>sw_cursor = [], sw_next = now, sw_repeat = False, sw_started = None, sw_visited = 0\<rparr>"

definition sweep_wake :: "instant \<Rightarrow> room_sweep \<Rightarrow> room_sweep" where
  "sweep_wake now s = s\<lparr>sw_repeat := (sw_repeat s \<or> sw_cursor s \<noteq> []), sw_next := now\<rparr>"

definition sweep_advance :: "instant \<Rightarrow> rstr list \<Rightarrow> room_sweep \<Rightarrow> room_sweep" where
  "sweep_advance now pg s =
     (if pg \<noteq> [] then s\<lparr>sw_cursor := last pg\<rparr>
      else s\<lparr>sw_cursor := [], sw_next := now + (if sw_repeat s then 0 else from_secs 300),
             sw_repeat := False\<rparr>)"

definition sweep_is_idle :: "instant \<Rightarrow> room_sweep \<Rightarrow> bool" where
  "sweep_is_idle now s \<longleftrightarrow> sw_cursor s = [] \<and> now < sw_next s"

datatype page_result = PageCancelled | PageOk "rstr list" | PageError | PageTimeout

definition saturating_add_u64 :: "nat \<Rightarrow> nat \<Rightarrow> nat" where
  "saturating_add_u64 a b = min (a + b) (2 ^ 64 - 1)"

definition sweep_page ::
  "(rstr \<Rightarrow> 'r option) \<Rightarrow> bool \<Rightarrow> instant \<Rightarrow> instant \<Rightarrow> (rstr \<Rightarrow> page_result) \<Rightarrow> room_sweep \<Rightarrow>
   'r list option \<times> room_sweep"
where
  "sweep_page parse cancelled now later query s =
     (if cancelled then (None, s)
      else if sweep_is_idle now s then (Some [], s)
      else
        let s1 = (if sw_started s = None then s\<lparr>sw_started := Some now, sw_visited := 0\<rparr> else s)
        in case query (sw_cursor s1) of
             PageCancelled \<Rightarrow> (None, s1)
           | PageOk pg \<Rightarrow>
               let s2 = s1\<lparr>sw_visited := saturating_add_u64 (sw_visited s1) (length pg)\<rparr>;
                   s3 = (if pg = [] then s2\<lparr>sw_started := None\<rparr> else s2)
               in (Some (List.map_filter parse pg), sweep_advance later pg s3)
           | PageError \<Rightarrow> (Some [], s1)
           | PageTimeout \<Rightarrow> (Some [], s1))"

text \<open>\<^verbatim>\<open>WHERE account_id = $1 AND room_id > $2 ORDER BY room_id LIMIT 4\<close>; \<open>rows\<close> are the room ids of
  the account's rows, unique by the table's primary key.\<close>

definition state_reconciliation_rooms :: "rstr fset \<Rightarrow> rstr \<Rightarrow> rstr list" where
  "state_reconciliation_rooms rows after =
     take 4 (sorted_list_of_set {room \<in> fset rows. after < room})"

section \<open>A traversal\<close>

text \<open>What happens to a sweep: a wake, or a call of \<open>sweep_page\<close> whose query answers or fails (an error
  and a timeout leave the sweep alike). \<open>sweep_run\<close> stops at the page that completes a traversal,
  and collects the rooms the calls returned.\<close>

datatype sweep_op = OpWake instant | OpPage instant instant bool

primrec op_time :: "sweep_op \<Rightarrow> instant" where
  "op_time (OpWake t) = t"
| "op_time (OpPage now _ _) = now"

primrec answered :: "sweep_op \<Rightarrow> bool" where
  "answered (OpWake _) = False"
| "answered (OpPage _ _ ok) = ok"

fun sweep_run ::
  "(rstr \<Rightarrow> 'r option) \<Rightarrow> (rstr \<Rightarrow> rstr list) \<Rightarrow> sweep_op list \<Rightarrow> room_sweep \<Rightarrow> 'r list \<times> room_sweep \<times> bool"
where
  "sweep_run parse pages [] s = ([], s, False)"
| "sweep_run parse pages (OpWake t # ops) s = sweep_run parse pages ops (sweep_wake t s)"
| "sweep_run parse pages (OpPage now later ok # ops) s =
     (let (rs, s') = sweep_page parse False now later (\<lambda>c. if ok then PageOk (pages c) else PageError) s
      in if ok \<and> pages (sw_cursor s) = [] then ([], s', True)
         else let (v, s'', fin) = sweep_run parse pages ops s' in (the rs @ v, s'', fin))"

lemma sweep_wake_simps [simp]:
  "sw_cursor (sweep_wake t s) = sw_cursor s" "sw_next (sweep_wake t s) = t"
  "sw_repeat (sweep_wake t s) \<longleftrightarrow> sw_repeat s \<or> sw_cursor s \<noteq> []"
  by (simp_all add: sweep_wake_def)

lemma sweep_page_fails:
  assumes "\<not> sweep_is_idle now s" "sweep_page parse False now later (\<lambda>c. PageError) s = (rs, s')"
  shows "rs = Some []" "sw_cursor s' = sw_cursor s" "sw_next s' = sw_next s" "sw_repeat s' = sw_repeat s"
  using assms by (cases "sw_started s"; auto simp: sweep_page_def Let_def)+

lemma sweep_page_answers:
  assumes "\<not> sweep_is_idle now s" "sweep_page parse False now later (\<lambda>c. PageOk (pages c)) s = (rs, s')"
  shows "rs = Some (List.map_filter parse (pages (sw_cursor s)))"
    "pages (sw_cursor s) \<noteq> [] \<Longrightarrow> sw_cursor s' = last (pages (sw_cursor s)) \<and> sw_next s' = sw_next s \<and>
       sw_repeat s' = sw_repeat s"
    "pages (sw_cursor s) = [] \<Longrightarrow> sw_cursor s' = [] \<and> sw_started s' = None \<and> \<not> sw_repeat s' \<and>
       sw_next s' = later + (if sw_repeat s then 0 else from_secs 300)"
  using assms by (cases "sw_started s"; auto simp: sweep_page_def sweep_advance_def Let_def split: if_split_asm)+

section \<open>What the page query promises\<close>

text \<open>Pages of a fixed set of rooms by key: sorted by the database's order, strictly after the cursor,
  and with nothing skipped; the empty cursor comes before every room.\<close>

locale keyset_pages =
  fixes less :: "rstr \<Rightarrow> rstr \<Rightarrow> bool"
    and rooms :: "rstr set"
    and page :: "rstr \<Rightarrow> rstr list"
  assumes less_irrefl: "\<not> less r r"
    and less_trans: "less a b \<Longrightarrow> less b c \<Longrightarrow> less a c"
    and finite_rooms: "finite rooms"
    and after_start: "r \<in> rooms \<Longrightarrow> less [] r"
    and page_sound: "r \<in> set (page c) \<Longrightarrow> r \<in> rooms \<and> less c r"
    and page_sorted: "sorted_wrt less (page c)"
    and page_complete: "r \<in> rooms \<Longrightarrow> less c r \<Longrightarrow> r \<in> set (page c) \<or> page c \<noteq> [] \<and> less (last (page c)) r"
begin

definition ahead :: "rstr \<Rightarrow> rstr set" where
  "ahead c = {r \<in> rooms. less c r}"

lemma finite_ahead: "finite (ahead c)"
  using finite_rooms by (simp add: ahead_def)

lemma ahead_start: "ahead [] = rooms"
  using after_start by (auto simp: ahead_def)

lemma ahead_done: "page c = [] \<Longrightarrow> ahead c = {}"
  using page_complete by (fastforce simp: ahead_def)

lemma page_last_room:
  assumes "page c \<noteq> []"
  shows "last (page c) \<in> rooms" "less c (last (page c))" "last (page c) \<noteq> []"
  using page_sound [OF last_in_set [OF assms]] after_start less_irrefl by (auto, metis)

lemma page_below_last:
  assumes "r \<in> set (page c)" "less (last (page c)) x"
  shows "less r x"
proof -
  have "r = last (page c) \<or> less r (last (page c))"
    using page_sorted [of c] assms(1)
    by (cases "page c" rule: rev_cases) (auto simp: sorted_wrt_append)
  with assms(2) show ?thesis
    using less_trans by blast
qed

lemma ahead_page:
  assumes "page c \<noteq> []"
  shows "ahead c = set (page c) \<union> ahead (last (page c))" "card (ahead (last (page c))) < card (ahead c)"
proof -
  show eq: "ahead c = set (page c) \<union> ahead (last (page c))"
    using page_sound page_complete page_last_room(2) [OF assms] less_trans
    by (auto simp: ahead_def)
  have "last (page c) \<in> ahead c" "last (page c) \<notin> ahead (last (page c))"
    using page_last_room [OF assms] less_irrefl by (auto simp: ahead_def)
  then have "ahead (last (page c)) \<subset> ahead c"
    using eq by blast
  then show "card (ahead (last (page c))) < card (ahead c)"
    by (rule psubset_card_mono [OF finite_ahead])
qed

end

lemma sorted_wrt_last_take:
  assumes "sorted_wrt (<) xs" "x \<in> set xs" "x \<notin> set (take n xs)" "take n xs \<noteq> []"
  shows "last (take n xs) < (x :: 'a :: linorder)"
proof -
  have "x \<in> set (drop n xs)"
    using assms(2,3) by (metis Un_iff append_take_drop_id set_append)
  moreover have "sorted_wrt (<) (take n xs @ drop n xs)"
    using assms(1) by simp
  ultimately show ?thesis
    using last_in_set [OF assms(4)] unfolding sorted_wrt_append by blast
qed

text \<open>However often it is woken and whichever queries fail, a traversal goes through the rooms ahead of
  its cursor in order, and as many answers as there are rooms, and one, complete it.\<close>

context keyset_pages
begin

lemma run_traverses:
  assumes "sorted (map op_time ops)" "\<forall>op \<in> set ops. sw_next s \<le> op_time op"
  shows "\<exists>v s' fin. sweep_run parse page ops s = (List.map_filter parse v, s', fin) \<and>
    sorted_wrt less v \<and> set v \<subseteq> ahead (sw_cursor s) \<and>
    (fin \<longrightarrow> set v = ahead (sw_cursor s) \<and> sw_cursor s' = [] \<and> sw_started s' = None) \<and>
    (card (ahead (sw_cursor s)) < length (filter answered ops) \<longrightarrow> fin)"
  using assms
proof (induction ops arbitrary: s)
  case Nil
  then show ?case
    by (intro exI [of _ "[]"] exI [of _ s] exI [of _ False]) (simp add: map_filter_simps)
next
  case (Cons op ops)
  have later: "sorted (map op_time ops)" "\<forall>x \<in> set ops. sw_next s \<le> op_time x" "\<forall>x \<in> set ops. op_time op \<le> op_time x"
    using Cons.prems by auto
  show ?case
  proof (cases op)
    case (OpWake t)
    then show ?thesis
      using Cons.IH [of "sweep_wake t s"] later by simp
  next
    case (OpPage now lt ok)
    have due: "\<not> sweep_is_idle now s"
      using Cons.prems(2) OpPage by (auto simp: sweep_is_idle_def)
    obtain rs s1 where call: "sweep_page parse False now lt (\<lambda>c. if ok then PageOk (page c) else PageError) s = (rs, s1)"
      by fastforce
    show ?thesis
    proof (cases ok)
      case False
      then have "rs = Some []" "sw_cursor s1 = sw_cursor s" "sw_next s1 = sw_next s"
        using call sweep_page_fails [OF due, of parse lt rs s1] by simp_all
      then show ?thesis
        using Cons.IH [of s1] later call False OpPage by auto
    next
      case True
      note ok = True
      note answer = sweep_page_answers [OF due call [simplified ok if_True]]
      show ?thesis
      proof (cases "page (sw_cursor s) = []")
        case True
        then show ?thesis
          using answer(3) ahead_done call ok OpPage
          by (intro exI [of _ "[]"] exI [of _ s1] exI [of _ True]) (simp add: map_filter_simps)
      next
        case False
        let ?p = "page (sw_cursor s)"
        have s1: "sw_cursor s1 = last ?p" "sw_next s1 = sw_next s"
          using answer(2) [OF False] by auto
        obtain v s' fin where v: "sweep_run parse page ops s1 = (List.map_filter parse v, s', fin)"
          "sorted_wrt less v" "set v \<subseteq> ahead (last ?p)"
          "fin \<longrightarrow> set v = ahead (last ?p) \<and> sw_cursor s' = [] \<and> sw_started s' = None"
          "card (ahead (last ?p)) < length (filter answered ops) \<longrightarrow> fin"
          using Cons.IH [of s1] later s1 by auto
        have run: "sweep_run parse page (op # ops) s = (List.map_filter parse (?p @ v), s', fin)"
          using OpPage call answer(1) False v(1) by (simp add: map_filter_def)
        have "sorted_wrt less (?p @ v)"
          using page_sorted v(2,3) page_below_last by (auto simp: sorted_wrt_append ahead_def)
        moreover have "set (?p @ v) \<subseteq> ahead (sw_cursor s)" "fin \<longrightarrow> set (?p @ v) = ahead (sw_cursor s)"
          using v(3,4) ahead_page(1) [OF False] by auto
        moreover have "card (ahead (sw_cursor s)) < length (filter answered (op # ops)) \<longrightarrow> fin"
          using v(5) ahead_page(2) [OF False] OpPage ok by simp
        ultimately show ?thesis
          using run v(4) by blast
      qed
    qed
  qed
qed

lemma run_repeats:
  assumes "sw_repeat s" "sw_cursor s \<noteq> []" "sweep_run parse page ops s = (v, s', True)"
  shows "\<exists>now later. OpPage now later True \<in> set ops \<and> sw_next s' = later \<and> sw_cursor s' = []"
  using assms
proof (induction ops arbitrary: s v)
  case (Cons op ops)
  show ?case
  proof (cases op)
    case (OpWake t)
    then show ?thesis
      using Cons.IH [of "sweep_wake t s" v] Cons.prems by auto
  next
    case (OpPage now lt ok)
    have due: "\<not> sweep_is_idle now s"
      using Cons.prems(2) by (simp add: sweep_is_idle_def)
    obtain rs s1 where call: "sweep_page parse False now lt (\<lambda>c. if ok then PageOk (page c) else PageError) s = (rs, s1)"
      by fastforce
    show ?thesis
    proof (cases "ok \<and> page (sw_cursor s) = []")
      case True
      then have "sw_next s1 = lt \<and> sw_cursor s1 = []"
        using sweep_page_answers(3) [OF due, of parse lt page rs s1] call Cons.prems(1) by simp
      then show ?thesis
        using Cons.prems(3) OpPage call True by auto
    next
      case False
      have "sw_repeat s1 \<and> sw_cursor s1 \<noteq> []"
      proof (cases ok)
        case True
        then show ?thesis
          using sweep_page_answers(2) [OF due, of parse lt page rs s1] call False Cons.prems(1) page_last_room(3)
          by auto
      next
        case False
        then show ?thesis
          using sweep_page_fails [OF due, of parse lt rs s1] call Cons.prems(1,2) by simp
      qed
      moreover obtain v' where "sweep_run parse page ops s1 = (v', s', True)"
        using Cons.prems(3) OpPage call False by (auto split: prod.splits)
      ultimately show ?thesis
        using Cons.IH [of s1 v'] by auto
    qed
  qed
qed simp

end

text \<open>The query keeps these promises in the order of scalar values; a row with an empty id, which no
  identifier has, is never returned.\<close>

interpretation recon: keyset_pages "(<)" "{room \<in> fset rows. [] < room}" "state_reconciliation_rooms rows"
  for rows
proof
  fix r c :: rstr
  let ?all = "sorted_list_of_set {room \<in> fset rows. c < room}"
  have srt: "sorted_wrt (<) ?all"
    by (rule strict_sorted_list_of_set)
  show "sorted_wrt (<) (state_reconciliation_rooms rows c)"
    unfolding state_reconciliation_rooms_def using srt by (rule sorted_wrt_take)
  show "r \<in> set (state_reconciliation_rooms rows c) \<Longrightarrow> r \<in> {room \<in> fset rows. [] < room} \<and> c < r"
    unfolding state_reconciliation_rooms_def by (cases r) (auto dest!: in_set_takeD)
  assume r: "r \<in> {room \<in> fset rows. [] < room}" "c < r"
  then have mem: "r \<in> set ?all"
    by simp
  then have "take 4 ?all \<noteq> []"
    by (cases ?all) auto
  then show "r \<in> set (state_reconciliation_rooms rows c) \<or>
      state_reconciliation_rooms rows c \<noteq> [] \<and> last (state_reconciliation_rooms rows c) < r"
    unfolding state_reconciliation_rooms_def using sorted_wrt_last_take [OF srt mem, of 4] by blast
qed auto

text \<open>C10: a sweep visits every room. From the start of a traversal, in any sequence of wakes, failing and
  answering page calls at non-decreasing times after it is due, with more answers than the account has
  rooms, the traversal completes, and the calls have returned exactly the account's rooms, each once
  and in order (those whose ids parse); a wake in the middle neither restarts nor skips.\<close>

theorem sweep_covers_rooms:
  assumes "sw_cursor s = []" "sorted (map op_time ops)" "\<forall>op \<in> set ops. sw_next s \<le> op_time op"
    "fcard rows < length (filter answered ops)"
  shows "\<exists>v s'. sweep_run parse (state_reconciliation_rooms rows) ops s = (List.map_filter parse v, s', True) \<and>
    sorted_wrt (<) v \<and> set v = {room \<in> fset rows. [] < room} \<and> sw_cursor s' = [] \<and> sw_started s' = None"
proof -
  have "card {room \<in> fset rows. [] < room} \<le> fcard rows"
    unfolding fcard.rep_eq by (rule card_mono) auto
  then have "card (recon.ahead rows (sw_cursor s)) < length (filter answered ops)"
    using assms(1,4) recon.ahead_start [of rows] by simp
  then show ?thesis
    using recon.run_traverses [OF assms(2,3), of parse rows] recon.ahead_start [of rows] assms(1) by auto
qed

theorem sweep_covers_rooms_witness:
  "\<exists>v s'. sweep_run Some (state_reconciliation_rooms {|lit ''!a:x''|})
      [OpPage 0 1 False, OpPage 2 3 True, OpWake 4, OpPage 5 6 True] (sweep_new 0) = (List.map_filter Some v, s', True) \<and>
    set v = {room \<in> {lit ''!a:x''}. [] < room}"
proof -
  have "sw_cursor (sweep_new 0) = []" "fcard {|lit ''!a:x''|} < length (filter answered
      [OpPage 0 1 False, OpPage 2 3 True, OpWake 4, OpPage 5 6 True])"
    "sorted (map op_time [OpPage 0 1 False, OpPage 2 3 True, OpWake 4, OpPage 5 6 True])"
    "\<forall>op \<in> set [OpPage 0 1 False, OpPage 2 3 True, OpWake 4, OpPage 5 6 True]. sw_next (sweep_new 0) \<le> op_time op"
    by (simp_all add: sweep_new_def fcard.rep_eq)
  from sweep_covers_rooms [OF this(1,3,4,2), of Some] show ?thesis
    by auto
qed

text \<open>A wake is never lost. An idle sweep that is woken is due at once; a sweep that is woken in the middle of
  a traversal finishes it and is due again the moment it completes, instead of after five
  minutes.\<close>

theorem sweep_wake_not_lost:
  assumes "sweep_run parse (state_reconciliation_rooms rows) ops (sweep_wake t s) = (v, s', True)"
  shows "(if sw_cursor s = [] then (\<forall>now. t \<le> now \<longrightarrow> \<not> sweep_is_idle now (sweep_wake t s))
    else (\<exists>now later. OpPage now later True \<in> set ops \<and> (\<forall>at. later \<le> at \<longrightarrow> \<not> sweep_is_idle at s')))"
proof (cases "sw_cursor s = []")
  case True
  then show ?thesis
    by (simp add: sweep_is_idle_def)
next
  case False
  then obtain now later where "OpPage now later True \<in> set ops" "sw_next s' = later"
    using recon.run_repeats [of "sweep_wake t s" parse rows ops v s'] assms by auto
  then have "OpPage now later True \<in> set ops \<and> (\<forall>at. later \<le> at \<longrightarrow> \<not> sweep_is_idle at s')"
    by (simp add: sweep_is_idle_def)
  then show ?thesis
    using False by auto
qed

text \<open>The witness: one room, a wake after the page that returned it, and the page that ends the
  traversal.\<close>

definition demo_sweep :: room_sweep where
  "demo_sweep = \<lparr>sw_cursor = lit ''!a:x'', sw_next = 0, sw_repeat = False, sw_started = Some 0, sw_visited = 1\<rparr>"

theorem sweep_wake_not_lost_witness:
  "\<exists>s'. sweep_run Some (state_reconciliation_rooms {|lit ''!a:x''|}) [OpPage 7 8 True] (sweep_wake 5 demo_sweep) =
     ([], s', True) \<and> \<not> sweep_is_idle 8 s'"
proof -
  have none: "{room. room = lit ''!a:x'' \<and> lit ''!a:x'' < room} = {}"
    by auto
  then have "state_reconciliation_rooms {|lit ''!a:x''|} (lit ''!a:x'') = []"
    by (simp add: state_reconciliation_rooms_def)
  then obtain s' where run: "sweep_run Some (state_reconciliation_rooms {|lit ''!a:x''|}) [OpPage 7 8 True]
      (sweep_wake 5 demo_sweep) = ([], s', True)"
    by (intro that [of "snd (sweep_page Some False 7 8 (\<lambda>c. PageOk (state_reconciliation_rooms {|lit ''!a:x''|} c))
        (sweep_wake 5 demo_sweep))"]) (simp add: split_beta, simp add: demo_sweep_def)
  have "sw_cursor demo_sweep \<noteq> []"
    by (simp add: demo_sweep_def lit_def)
  with sweep_wake_not_lost [OF run] run show ?thesis
    by auto
qed

section \<open>Hints are bounded\<close>

text \<open>A channel of pending hints; an empty one answers \<open>HintEmpty\<close>.\<close>

fun try_recv :: "'r hint_read list \<Rightarrow> 'r hint_read \<times> 'r hint_read list" where
  "try_recv [] = (HintEmpty, [])"
| "try_recv (h # hs) = (h, hs)"

definition batch_of :: "'r hint_batch \<Rightarrow> 'r hint_read list \<Rightarrow> 'r hint_batch" where
  "batch_of b hs = b\<lparr>hb_rooms := hb_rooms b \<union> {r. HintRoom r \<in> set hs},
     hb_closed := (hb_closed b \<or> HintClosed \<in> set hs), hb_lagged := (hb_lagged b \<or> HintLagged \<in> set hs)\<rparr>"

lemma take_hints_loop_batch:
  assumes "finite (hb_rooms b)" "card (hb_rooms b) \<le> 4"
  shows "\<exists>k \<le> n. take_hints_loop n try_recv hs b = (batch_of b (take k hs), drop k hs) \<and>
    card (hb_rooms (batch_of b (take k hs))) \<le> 4"
  using assms
proof (induction n arbitrary: hs b)
  case (Suc n)
  have stop: ?case if "take_hints_loop (Suc n) try_recv hs b = (b, hs)"
    using that Suc.prems by (intro exI [of _ 0]) (simp add: batch_of_def)
  show ?case
  proof (cases "card (hb_rooms b) = 4 \<or> hs = []")
    case True
    then show ?thesis
      using stop by auto
  next
    case False
    then obtain h rest where hs: "hs = h # rest"
      by (cases hs) auto
    show ?thesis
    proof (cases h)
      case (HintRoom r)
      let ?b = "b\<lparr>hb_rooms := insert r (hb_rooms b)\<rparr>"
      have "card (hb_rooms ?b) \<le> 4"
        using Suc.prems False card_insert_le_m1 [of 4 "hb_rooms b" r] by simp
      with Suc.IH [of ?b rest] Suc.prems obtain k where k: "k \<le> n"
        "take_hints_loop n try_recv rest ?b = (batch_of ?b (take k rest), drop k rest)"
        "card (hb_rooms (batch_of ?b (take k rest))) \<le> 4"
        by auto
      have "batch_of ?b (take k rest) = batch_of b (take (Suc k) hs)"
        by (rule hint_batch.equality) (auto simp: batch_of_def hs HintRoom)
      then show ?thesis
        using k False by (intro exI [of _ "Suc k"]) (simp add: hs HintRoom)
    qed (use False Suc.prems hs in \<open>intro exI [of _ "Suc 0"]; simp add: batch_of_def\<close>)+
  qed
qed (auto simp: batch_of_def intro!: exI [of _ 0])

text \<open>One batch of hints is bounded and loses nothing: at most 32 hints are taken from the channel, the batch
  holds exactly the at most four rooms and the flags those hints carry, and the rest of the channel stays in
  place.\<close>

theorem take_hints_bounded:
  "\<exists>k \<le> 32. take_hints try_recv hs =
     (\<lparr>hb_rooms = {r. HintRoom r \<in> set (take k hs)}, hb_closed = (HintClosed \<in> set (take k hs)),
       hb_lagged = (HintLagged \<in> set (take k hs))\<rparr>, drop k hs) \<and>
     card {r. HintRoom r \<in> set (take k hs)} \<le> 4"
  using take_hints_loop_batch [of "\<lparr>hb_rooms = {}, hb_closed = False, hb_lagged = False\<rparr>" 32 hs]
  by (simp add: take_hints_def batch_of_def)

end
