(* ===== verification/Rich_Wrap.thy ===== *)
theory Rich_Wrap
  imports Rust_Text
begin

text \<open>
  Styled text of the terminal client and its wrapping: \<^verbatim>\<open>clients/tui/src/wrap.rs\<close>.

  \<^item> A style is a value of a type variable; the renderer's styles are in \<open>Html_Render\<close>.
  \<^item> \<open>tw\<close> is \<^verbatim>\<open>textwrap::wrap\<close> with the options the code passes, and \<open>wd\<close> the display width of a
    character, \<^verbatim>\<open>width_cjk().unwrap_or(1)\<close>; what the code relies on of the former is
    \<open>textwrap_ok\<close>.
  \<^item> The loop over a line may run forever: it is a partial function whose value is then \<open>None\<close>. A
    run that ends is \<open>Ret\<close> or, where the code would panic, \<open>Panic\<close>.
\<close>

datatype 'a exec = Ret 'a | Panic

record 'st rich_span =
  sp_text :: rstr
  sp_style :: 'st
  sp_repeat_on_wrap :: bool

type_synonym 'st rich_line = "'st rich_span list"

definition rich_span_new :: "rstr \<Rightarrow> 'st \<Rightarrow> 'st rich_span" where
  "rich_span_new text style = \<lparr>sp_text = text, sp_style = style, sp_repeat_on_wrap = False\<rparr>"

definition gutter :: "rstr \<Rightarrow> 'st \<Rightarrow> 'st rich_span" where
  "gutter text style = \<lparr>sp_text = text, sp_style = style, sp_repeat_on_wrap = True\<rparr>"

definition plain_rich_lines :: "'st \<Rightarrow> rstr \<Rightarrow> 'st rich_line list" where
  "plain_rich_lines dflt text =
     (let lines = map (\<lambda>line. [rich_span_new line dflt]) (split_on (\<lambda>c. c = 10) text)
      in if lines = [] then [[]] else lines)"

text \<open>\<^verbatim>\<open>push_rich_span\<close> panics when there is no current line.\<close>

definition push_on_line :: "'st rich_line \<Rightarrow> 'st rich_span \<Rightarrow> 'st rich_line" where
  "push_on_line line span =
     (if line \<noteq> [] \<and> sp_style (last line) = sp_style span \<and>
         sp_repeat_on_wrap (last line) = sp_repeat_on_wrap span
      then butlast line @ [(last line)\<lparr>sp_text := sp_text (last line) @ sp_text span\<rparr>]
      else line @ [span])"

definition push_rich_span :: "'st rich_line list \<Rightarrow> 'st rich_span \<Rightarrow> 'st rich_line list exec" where
  "push_rich_span lines span =
     (if sp_text span = [] then Ret lines
      else if lines = [] then Panic
      else Ret (butlast lines @ [push_on_line (last lines) span]))"

definition push_rich_line_break :: "'st rich_line list \<Rightarrow> 'st rich_line list" where
  "push_rich_line_break lines = lines @ [[]]"

definition rich_current_line_is_empty :: "'st rich_line list \<Rightarrow> bool" where
  "rich_current_line_is_empty lines \<longleftrightarrow> lines = [] \<or> list_all (\<lambda>s. sp_text s = []) (last lines)"

definition push_rich_line_break_if_needed :: "'st rich_line list \<Rightarrow> 'st rich_line list" where
  "push_rich_line_break_if_needed lines =
     (if \<not> rich_current_line_is_empty lines then push_rich_line_break lines else lines)"

fun trim_front :: "'st rich_line list \<Rightarrow> 'st rich_line list" where
  "trim_front (l # m # ls) = (if l = [] then trim_front (m # ls) else l # m # ls)"
| "trim_front ls = ls"

definition trim_empty_rich_edges :: "'st rich_line list \<Rightarrow> 'st rich_line list" where
  "trim_empty_rich_edges lines = rev (trim_front (rev (trim_front lines)))"

definition rich_lines_are_empty :: "'st rich_line list \<Rightarrow> bool" where
  "rich_lines_are_empty lines = list_all (list_all (\<lambda>s. list_all is_white_space (sp_text s))) lines"

definition append_loop :: "'st rich_line list \<Rightarrow> 'st rich_line \<Rightarrow> 'st rich_line list exec" where
  "append_loop lines first =
     foldl (\<lambda>acc span. case acc of Ret ls \<Rightarrow> push_rich_span ls span | Panic \<Rightarrow> Panic) (Ret lines) first"

definition append_rich_lines :: "'st rich_line list \<Rightarrow> 'st rich_line list \<Rightarrow> 'st rich_line list exec" where
  "append_rich_lines lines extra =
     (case extra of
        [] \<Rightarrow> Ret lines
      | first # rest \<Rightarrow> (case append_loop lines first of Ret ls \<Rightarrow> Ret (ls @ rest) | Panic \<Rightarrow> Panic))"

fun join :: "rstr \<Rightarrow> rstr list \<Rightarrow> rstr" where
  "join sep [] = []"
| "join sep [s] = s"
| "join sep (s # ss) = s @ sep @ join sep ss"

definition rich_lines_text :: "'st rich_line list \<Rightarrow> rstr" where
  "rich_lines_text lines = join [10] (map (\<lambda>line. concat (map sp_text line)) lines)"

definition rich_lines_to_spans :: "'st rich_line list \<Rightarrow> (rstr \<times> 'st) list list" where
  "rich_lines_to_spans lines = map (map (\<lambda>s. (sp_text s, sp_style s))) lines"

section \<open>Wrapping\<close>

definition push_wrapped_char :: "'st rich_line \<Rightarrow> nat \<Rightarrow> 'st \<Rightarrow> 'st rich_line" where
  "push_wrapped_char line ch style =
     (if line \<noteq> [] \<and> sp_style (last line) = style
      then butlast line @ [(last line)\<lparr>sp_text := sp_text (last line) @ [ch]\<rparr>]
      else line @ [rich_span_new [ch] style])"

text \<open>The styled characters of a line.\<close>

definition cells :: "'st rich_line \<Rightarrow> (nat \<times> 'st) list" where
  "cells line = concat (map (\<lambda>s. map (\<lambda>c. (c, sp_style s)) (sp_text s)) line)"

definition display_width :: "(nat \<Rightarrow> nat) \<Rightarrow> 'st rich_line \<Rightarrow> nat" where
  "display_width wd line = sum_list (map (\<lambda>(c, _). wd c) (cells line))"

definition rich_row :: "rstr \<Rightarrow> 'st list \<Rightarrow> 'st rich_line" where
  "rich_row chars styles = foldl (\<lambda>row (ch, st). push_wrapped_char row ch st) [] (zip chars styles)"

definition skip_spaces :: "rstr \<Rightarrow> nat \<Rightarrow> nat" where
  "skip_spaces plain cursor = cursor + length (takeWhile (\<lambda>c. c = 32) (drop cursor plain))"

partial_function (option) wrap_loop ::
  "(nat \<Rightarrow> rstr \<Rightarrow> rstr list) \<Rightarrow> nat \<Rightarrow> nat \<Rightarrow> rstr \<Rightarrow> 'st list \<Rightarrow> nat \<Rightarrow> bool \<Rightarrow> 'st rich_line list \<Rightarrow>
   'st rich_line list exec option"
where
  "wrap_loop tw first_width continuation_width plain char_styles cursor is_first out =
     (if length plain \<le> cursor then Some (Ret out)
      else
        let seg_width = (if is_first \<and> out = [] then first_width else continuation_width)
        in case tw seg_width (drop cursor plain) of
             [] \<Rightarrow> Some (Ret (out @ [[]]))
           | line # _ \<Rightarrow>
               if length char_styles < cursor + length line then Some Panic
               else wrap_loop tw first_width continuation_width plain char_styles
                      (skip_spaces plain (cursor + length line)) False
                      (out @ [rich_row line (take (length line) (drop cursor char_styles))]))"

fun break_chars ::
  "(nat \<Rightarrow> nat) \<Rightarrow> nat \<Rightarrow> (nat \<times> 'st) list \<Rightarrow> 'st rich_line list \<Rightarrow> 'st rich_line \<Rightarrow> nat \<Rightarrow>
   'st rich_line list \<times> 'st rich_line"
where
  "break_chars wd continuation_width [] final current remaining = (final, current)"
| "break_chars wd continuation_width ((ch, style) # cs) final current remaining =
     (if remaining < wd ch
      then break_chars wd continuation_width cs (final @ [current]) (push_wrapped_char [] ch style)
             (continuation_width - wd ch)
      else break_chars wd continuation_width cs final (push_wrapped_char current ch style) (remaining - wd ch))"

definition break_line ::
  "(nat \<Rightarrow> nat) \<Rightarrow> nat \<Rightarrow> nat \<Rightarrow> 'st rich_line list \<Rightarrow> nat \<times> 'st rich_line \<Rightarrow> 'st rich_line list"
where
  "break_line wd first_width continuation_width final p =
     (let (idx, line) = p;
          max_w = (if idx = 0 \<and> final = [] then first_width else continuation_width)
      in if display_width wd line \<le> max_w then final @ [line]
         else let (final', current) = break_chars wd continuation_width (cells line) final [] max_w
              in if current \<noteq> [] then final' @ [current] else final')"

definition wrap_line ::
  "(nat \<Rightarrow> rstr \<Rightarrow> rstr list) \<Rightarrow> (nat \<Rightarrow> nat) \<Rightarrow> nat \<Rightarrow> nat \<Rightarrow> 'st rich_line \<Rightarrow> 'st rich_line list exec option"
where
  "wrap_line tw wd first_width0 continuation_width0 raw_line =
     (if raw_line = [] \<or> list_all (\<lambda>s. sp_text s = []) raw_line then Some (Ret [[]])
      else
        let prefix = takeWhile sp_repeat_on_wrap raw_line;
            body = dropWhile sp_repeat_on_wrap raw_line;
            prefix_width = display_width wd prefix;
            first_width = max (first_width0 - prefix_width) 1;
            continuation_width = max (continuation_width0 - prefix_width) 1
        in case wrap_loop tw first_width continuation_width (map fst (cells body)) (map snd (cells body)) 0 True [] of
             None \<Rightarrow> None
           | Some Panic \<Rightarrow> Some Panic
           | Some (Ret out_lines) \<Rightarrow>
               let final_lines = foldl (break_line wd first_width continuation_width) [] (enumerate 0 out_lines);
                   final_lines' = (if final_lines = [] then [[]] else final_lines)
               in Some (Ret (map (\<lambda>row. prefix @ row) final_lines')))"

fun wrap_lines ::
  "(nat \<Rightarrow> rstr \<Rightarrow> rstr list) \<Rightarrow> (nat \<Rightarrow> nat) \<Rightarrow> nat \<Rightarrow> nat \<Rightarrow> 'st rich_line list \<Rightarrow> 'st rich_line list \<Rightarrow>
   'st rich_line list exec option"
where
  "wrap_lines tw wd fw cw [] wrapped = Some (Ret wrapped)"
| "wrap_lines tw wd fw cw (raw_line # lines) wrapped =
     (case wrap_line tw wd fw cw raw_line of
        None \<Rightarrow> None
      | Some Panic \<Rightarrow> Some Panic
      | Some (Ret rows) \<Rightarrow> wrap_lines tw wd fw cw lines (wrapped @ rows))"

definition wrap_rich_lines ::
  "(nat \<Rightarrow> rstr \<Rightarrow> rstr list) \<Rightarrow> (nat \<Rightarrow> nat) \<Rightarrow> 'st rich_line list \<Rightarrow> nat \<Rightarrow> nat \<Rightarrow> 'st rich_line list exec option"
where
  "wrap_rich_lines tw wd lines first_width continuation_width =
     (case wrap_lines tw wd (max first_width 1) (max continuation_width 1) lines [] of
        Some (Ret []) \<Rightarrow> Some (Ret [[]])
      | r \<Rightarrow> r)"

section \<open>Facts\<close>

text \<open>What the loop relies on: for a positive width and a text without line ends there is a first line,
  it is the beginning of the text, and it is empty only when the text begins with a space (which
  the loop then skips).\<close>

definition textwrap_ok :: "(nat \<Rightarrow> rstr \<Rightarrow> rstr list) \<Rightarrow> bool" where
  "textwrap_ok tw \<longleftrightarrow>
     (\<forall>w s. 0 < w \<and> s \<noteq> [] \<and> 10 \<notin> set s \<longrightarrow>
        (\<exists>line rest t. tw w s = line # rest \<and> s = line @ t \<and> (line = [] \<longrightarrow> hd s = 32)))"

lemma cells_append [simp]: "cells (a @ b) = cells a @ cells b"
  by (simp add: cells_def)

lemma cells_Nil [simp]: "cells [] = []"
  by (simp add: cells_def)

lemma cells_push_wrapped_char [simp]: "cells (push_wrapped_char line ch st) = cells line @ [(ch, st)]"
  by (cases line rule: rev_cases) (auto simp: push_wrapped_char_def cells_def rich_span_new_def)

lemma push_wrapped_char_not_Nil [simp]: "push_wrapped_char line ch st \<noteq> []"
  by (simp add: push_wrapped_char_def)

lemma cells_rich_row [simp]: "cells (rich_row chars styles) = zip chars styles"
proof -
  have "cells (foldl (\<lambda>row (ch, st). push_wrapped_char row ch st) row cs) = cells row @ cs" for row :: "'a rich_line" and cs
    by (induction cs arbitrary: row) auto
  then show ?thesis
    by (simp add: rich_row_def)
qed

abbreviation inked :: "(nat \<times> 'st) list \<Rightarrow> (nat \<times> 'st) list" where
  "inked cs \<equiv> filter (\<lambda>(c, _). c \<noteq> 32) cs"

lemma skip_spaces_le: "cursor \<le> length plain \<Longrightarrow> cursor \<le> skip_spaces plain cursor \<and> skip_spaces plain cursor \<le> length plain"
  using length_takeWhile_le [of "\<lambda>c. c = 32" "drop cursor plain"] by (simp add: skip_spaces_def)

lemma skip_spaces_inked:
  assumes "length styles = length plain"
  shows "inked (drop (skip_spaces plain cursor) (zip plain styles)) = inked (drop cursor (zip plain styles))"
proof -
  let ?k = "length (takeWhile (\<lambda>c. c = 32) (drop cursor plain))"
  have "inked (take ?k (drop cursor (zip plain styles))) = []"
  proof -
    have "map fst (take ?k (drop cursor (zip plain styles))) = takeWhile (\<lambda>c. c = 32) (drop cursor plain)"
      using assms by (simp add: take_map [symmetric] drop_map [symmetric] map_fst_zip takeWhile_eq_take [symmetric])
    then have "\<forall>x \<in> set (take ?k (drop cursor (zip plain styles))). fst x = 32"
      by (metis (mono_tags) image_eqI set_map set_takeWhileD)
    then show ?thesis
      by (auto simp: filter_empty_conv)
  qed
  moreover have "drop cursor (zip plain styles) =
      take ?k (drop cursor (zip plain styles)) @ drop (skip_spaces plain cursor) (zip plain styles)"
    unfolding skip_spaces_def by (metis add.commute append_take_drop_id drop_drop)
  ultimately show ?thesis
    by (metis filter_append self_append_conv2)
qed

text \<open>The loop over a line without line ends returns, never panics, and the rows it makes carry
  every character but spaces, in order and in its style.\<close>

lemma wrap_loop_returns:
  assumes tw: "textwrap_ok tw" "0 < fw" "0 < cw"
    and plain: "10 \<notin> set plain" "length styles = length plain"
  shows "\<exists>rows. wrap_loop tw fw cw plain styles cursor first out = Some (Ret (out @ rows)) \<and>
    inked (concat (map cells rows)) = inked (drop cursor (zip plain styles))"
proof (induction "length plain - cursor" arbitrary: cursor first out rule: less_induct)
  case less
  show ?case
  proof (cases "length plain \<le> cursor")
    case True
    then show ?thesis
      using plain(2) by (subst wrap_loop.simps) simp
  next
    case False
    define w where "w = (if first \<and> out = [] then fw else cw)"
    have "0 < w" "drop cursor plain \<noteq> []" "10 \<notin> set (drop cursor plain)"
      using tw False plain(1) by (auto simp: w_def dest: in_set_dropD)
    then obtain line rest t where line: "tw w (drop cursor plain) = line # rest" "drop cursor plain = line @ t"
      "line = [] \<longrightarrow> hd (drop cursor plain) = 32"
      using tw(1) unfolding textwrap_ok_def by blast
    have len: "cursor + length line \<le> length plain"
      using arg_cong [OF line(2), of length] False by simp
    define next_cursor where "next_cursor = skip_spaces plain (cursor + length line)"
    have progress: "cursor < next_cursor"
    proof (cases "line = []")
      case True
      then have "takeWhile (\<lambda>c. c = 32) (drop cursor plain) \<noteq> []"
        using line(3) \<open>drop cursor plain \<noteq> []\<close> by (cases "drop cursor plain") auto
      then show ?thesis
        using True by (simp add: next_cursor_def skip_spaces_def)
    next
      case False
      then show ?thesis
        using skip_spaces_le [OF len] by (cases line) (auto simp: next_cursor_def)
    qed
    define row where "row = rich_row line (take (length line) (drop cursor styles))"
    obtain rows where rows: "wrap_loop tw fw cw plain styles next_cursor False (out @ [row]) = Some (Ret ((out @ [row]) @ rows))"
      "inked (concat (map cells rows)) = inked (drop next_cursor (zip plain styles))"
      using less.hyps [of next_cursor False "out @ [row]"] diff_less_mono2 [OF progress] False by force
    have step: "wrap_loop tw fw cw plain styles cursor first out =
        wrap_loop tw fw cw plain styles next_cursor False (out @ [row])"
      using False len line(1) plain(2) by (subst wrap_loop.simps) (simp add: w_def [symmetric] row_def next_cursor_def)
    have "cells row = take (length line) (drop cursor (zip plain styles))"
      using line(2) by (simp add: row_def drop_zip take_zip)
    moreover have "drop (cursor + length line) (zip plain styles) =
        drop (length line) (drop cursor (zip plain styles))"
      by (simp add: add.commute)
    ultimately have "inked (cells row) @ inked (drop next_cursor (zip plain styles)) = inked (drop cursor (zip plain styles))"
      unfolding next_cursor_def skip_spaces_inked [OF plain(2)]
      by (metis append_take_drop_id filter_append)
    then show ?thesis
      using step rows by (intro exI [of _ "row # rows"]) simp
  qed
qed

text \<open>Breaking a line that is too wide keeps all its characters, and no row is wider than its limit,
  unless a single character is.\<close>

lemma break_chars_cells:
  "break_chars wd cw cs final cur rem = (final', cur') \<Longrightarrow>
   concat (map cells final') @ cells cur' = concat (map cells final) @ cells cur @ cs"
  by (induction wd cw cs final cur rem rule: break_chars.induct) (auto split: if_split_asm)

lemma break_line_cells:
  "concat (map cells (break_line wd fw cw final p)) = concat (map cells final) @ cells (snd p)"
proof -
  obtain idx line where p: "p = (idx, line)"
    by fastforce
  obtain final' cur where b: "break_chars wd cw (cells line) final [] (if idx = 0 \<and> final = [] then fw else cw) = (final', cur)"
    by fastforce
  show ?thesis
    using break_chars_cells [OF b] b by (cases "cur = []") (auto simp: p break_line_def Let_def)
qed

text \<open>A row fits its room, unless it is one character wider than the room, with nothing but
  characters of no width behind it.\<close>

definition lone_char :: "(nat \<Rightarrow> nat) \<Rightarrow> 'st rich_line \<Rightarrow> bool" where
  "lone_char wd row \<longleftrightarrow> (case cells row of [] \<Rightarrow> False | (c, _) # _ \<Rightarrow> display_width wd row = wd c)"

definition row_fits :: "(nat \<Rightarrow> nat) \<Rightarrow> nat \<Rightarrow> 'st rich_line \<Rightarrow> bool" where
  "row_fits wd w row \<longleftrightarrow> display_width wd row \<le> w \<or> lone_char wd row"

definition rows_fit :: "(nat \<Rightarrow> nat) \<Rightarrow> nat \<Rightarrow> nat \<Rightarrow> 'st rich_line list \<Rightarrow> bool" where
  "rows_fit wd fw cw rows \<longleftrightarrow> (\<forall>i < length rows. row_fits wd (if i = 0 then fw else cw) (rows ! i))"

lemma rows_fit_Nil [simp]: "rows_fit wd fw cw []"
  by (simp add: rows_fit_def)

lemma rows_fit_snoc:
  "rows_fit wd fw cw (rows @ [r]) \<longleftrightarrow>
   rows_fit wd fw cw rows \<and> row_fits wd (if rows = [] then fw else cw) r"
  by (auto simp: rows_fit_def nth_append less_Suc_eq)

lemma display_width_push [simp]:
  "display_width wd (push_wrapped_char line ch st) = display_width wd line + wd ch"
  by (simp add: display_width_def)

lemma display_width_Nil [simp]: "display_width wd [] = 0"
  by (simp add: display_width_def)

lemma lone_char_first [simp]: "lone_char wd (push_wrapped_char [] ch st)"
  by (simp add: lone_char_def push_wrapped_char_def rich_span_new_def cells_def display_width_def)

lemma lone_char_push: "lone_char wd row \<Longrightarrow> wd ch = 0 \<Longrightarrow> lone_char wd (push_wrapped_char row ch st)"
  by (cases "cells row") (auto simp: lone_char_def)

text \<open>What is left of the room while a row is filled.\<close>

definition room_left :: "(nat \<Rightarrow> nat) \<Rightarrow> nat \<Rightarrow> 'st rich_line \<Rightarrow> nat \<Rightarrow> bool" where
  "room_left wd w row rem \<longleftrightarrow> display_width wd row + rem \<le> w \<or> lone_char wd row \<and> rem = 0"

lemma room_left_fits: "room_left wd w row rem \<Longrightarrow> row_fits wd w row"
  by (auto simp: room_left_def row_fits_def)

lemma room_left_push:
  "room_left wd w row rem \<Longrightarrow> wd ch \<le> rem \<Longrightarrow> room_left wd w (push_wrapped_char row ch st) (rem - wd ch)"
  by (auto simp: room_left_def lone_char_push)

lemma room_left_first: "room_left wd w (push_wrapped_char [] ch st) (w - wd ch)"
  by (auto simp: room_left_def)

lemma break_chars_fit:
  assumes "rows_fit wd fw cw final" "room_left wd (if final = [] then fw else cw) cur rem"
    "break_chars wd cw cs final cur rem = (final', cur')"
  shows "rows_fit wd fw cw final' \<and> row_fits wd (if final' = [] then fw else cw) cur'"
  using assms
proof (induction cs arbitrary: final cur rem)
  case Nil
  then show ?case
    using room_left_fits by auto
next
  case (Cons c cs)
  obtain ch st where c: "c = (ch, st)"
    by fastforce
  show ?case
  proof (cases "rem < wd ch")
    case True
    have "rows_fit wd fw cw (final @ [cur])"
      using Cons.prems(1) room_left_fits [OF Cons.prems(2)] by (simp add: rows_fit_snoc)
    then show ?thesis
      using Cons.IH [of "final @ [cur]" "push_wrapped_char [] ch st" "cw - wd ch"] Cons.prems(3) True
        room_left_first [of wd cw ch st] by (simp add: c)
  next
    case False
    then show ?thesis
      using Cons.IH [OF Cons.prems(1) room_left_push [OF Cons.prems(2)], of ch st] Cons.prems(3) by (simp add: c)
  qed
qed

lemma break_line_fit:
  assumes "rows_fit wd fw cw final" "final = [] \<longrightarrow> fst p = 0"
  shows "rows_fit wd fw cw (break_line wd fw cw final p)"
proof -
  obtain idx line where p: "p = (idx, line)"
    by fastforce
  define w where "w = (if idx = 0 \<and> final = [] then fw else cw)"
  have w: "w = (if final = [] then fw else cw)"
    using assms(2) by (simp add: w_def p)
  obtain final' cur where b: "break_chars wd cw (cells line) final [] w = (final', cur)"
    by fastforce
  have "rows_fit wd fw cw final' \<and> row_fits wd (if final' = [] then fw else cw) cur"
    using break_chars_fit [OF assms(1) _ b] by (simp add: w room_left_def)
  moreover have "display_width wd line \<le> w \<Longrightarrow> row_fits wd w line"
    by (simp add: row_fits_def)
  ultimately show ?thesis
    using assms(1) b w by (auto simp: p break_line_def Let_def rows_fit_snoc w_def [symmetric])
qed

lemma break_line_not_Nil [simp]: "break_line wd fw cw final p \<noteq> []"
proof
  assume empty: "break_line wd fw cw final p = []"
  then have "cells (snd p) = []"
    using break_line_cells [of wd fw cw final p] by simp
  then show False
    using empty by (cases p) (simp add: break_line_def display_width_def Let_def)
qed

lemma break_lines_cells:
  "concat (map cells (foldl (break_line wd fw cw) final ps)) = concat (map cells final) @ concat (map (cells \<circ> snd) ps)"
  by (induction ps arbitrary: final) (simp_all add: break_line_cells)

lemma break_lines_fit:
  assumes "rows_fit wd fw cw final" "final = [] \<longrightarrow> n = 0"
  shows "rows_fit wd fw cw (foldl (break_line wd fw cw) final (enumerate n lines))"
  using assms by (induction lines arbitrary: n final) (simp_all add: break_line_fit)

section \<open>Properties of wrapping\<close>

text \<open>What one line becomes: its gutter in front of rows that carry the characters of its body.\<close>

definition line_gutter :: "'st rich_line \<Rightarrow> 'st rich_line" where
  "line_gutter raw = takeWhile sp_repeat_on_wrap raw"

definition line_body :: "'st rich_line \<Rightarrow> 'st rich_line" where
  "line_body raw = dropWhile sp_repeat_on_wrap raw"

definition wrapped_as :: "(nat \<Rightarrow> nat) \<Rightarrow> nat \<Rightarrow> nat \<Rightarrow> 'st rich_line \<Rightarrow> 'st rich_line list \<Rightarrow> bool" where
  "wrapped_as wd fw cw raw rows \<longleftrightarrow>
     (if list_all (\<lambda>s. sp_text s = []) raw then rows = [[]]
      else \<exists>body. rows = map (\<lambda>row. line_gutter raw @ row) body \<and> body \<noteq> [] \<and>
        inked (concat (map cells body)) = inked (cells (line_body raw)) \<and>
        rows_fit wd (max (fw - display_width wd (line_gutter raw)) 1)
          (max (cw - display_width wd (line_gutter raw)) 1) body)"

definition no_line_end :: "'st rich_line \<Rightarrow> bool" where
  "no_line_end raw \<longleftrightarrow> list_all (\<lambda>s. 10 \<notin> set (sp_text s)) (line_body raw)"

lemma cells_chars: "map fst (cells raw) = concat (map sp_text raw)"
  by (induction raw) (simp_all add: cells_def comp_def)

lemma wrap_line_returns:
  assumes "textwrap_ok tw" "no_line_end raw"
  shows "\<exists>rows. wrap_line tw wd fw cw raw = Some (Ret rows) \<and> wrapped_as wd fw cw raw rows"
proof (cases "list_all (\<lambda>s. sp_text s = []) raw")
  case True
  then show ?thesis
    by (simp add: wrap_line_def wrapped_as_def)
next
  case False
  define body where "body = line_body raw"
  define fw' where "fw' = max (fw - display_width wd (line_gutter raw)) 1"
  define cw' where "cw' = max (cw - display_width wd (line_gutter raw)) 1"
  have pos: "0 < fw'" "0 < cw'"
    by (simp_all add: fw'_def cw'_def less_max_iff_disj)
  have "10 \<notin> set (map fst (cells body))"
    using assms(2) by (auto simp: cells_chars body_def no_line_end_def list_all_iff)
  then obtain rows where rows: "wrap_loop tw fw' cw' (map fst (cells body)) (map snd (cells body)) 0 True [] = Some (Ret rows)"
    "inked (concat (map cells rows)) = inked (cells body)"
    using wrap_loop_returns [OF assms(1), of fw' cw' "map fst (cells body)" "map snd (cells body)" 0 True "[]"]
      pos by (auto simp: zip_map_fst_snd)
  define final where "final = foldl (break_line wd fw' cw') [] (enumerate 0 rows)"
  define final' where "final' = (if final = [] then [[]] else final)"
  have "concat (map cells final) = concat (map cells rows)"
    unfolding final_def break_lines_cells by (simp add: map_map [symmetric] del: map_map)
  moreover have "concat (map cells final') = concat (map cells final)"
    by (simp add: final'_def)
  ultimately have "inked (concat (map cells final')) = inked (cells body)"
    using rows(2) by (simp only:)
  moreover have "rows_fit wd fw' cw' final'"
    using break_lines_fit [of wd fw' cw' "[]" 0 rows]
    by (auto simp: final'_def final_def rows_fit_def row_fits_def)
  moreover have "wrap_line tw wd fw cw raw = Some (Ret (map (\<lambda>row. line_gutter raw @ row) final'))"
    using False rows(1) by (auto simp: wrap_line_def line_gutter_def body_def line_body_def fw'_def cw'_def
        final'_def final_def Let_def)
  moreover have "final' \<noteq> []"
    by (simp add: final'_def)
  ultimately show ?thesis
    using False unfolding wrapped_as_def body_def fw'_def cw'_def by auto
qed

lemma wrap_lines_returns:
  assumes "textwrap_ok tw" "list_all no_line_end lines"
  shows "\<exists>groups. wrap_lines tw wd fw cw lines wrapped = Some (Ret (wrapped @ concat groups)) \<and>
    list_all2 (wrapped_as wd fw cw) lines groups"
  using assms(2)
proof (induction lines arbitrary: wrapped)
  case (Cons raw lines)
  obtain rows where rows: "wrap_line tw wd fw cw raw = Some (Ret rows)" "wrapped_as wd fw cw raw rows"
    using wrap_line_returns [OF assms(1), where raw = raw and fw = fw and cw = cw] Cons.prems by auto
  obtain groups where "wrap_lines tw wd fw cw lines (wrapped @ rows) = Some (Ret ((wrapped @ rows) @ concat groups))"
    "list_all2 (wrapped_as wd fw cw) lines groups"
    using Cons.IH [of "wrapped @ rows"] Cons.prems by auto
  with rows show ?case
    by (intro exI [of _ "rows # groups"]) simp
qed simp

lemma wrapped_as_not_Nil [simp]: "\<not> wrapped_as wd fw cw raw []"
  by (auto simp: wrapped_as_def split: if_split_asm)

lemma wrap_rich_lines_returns:
  assumes "textwrap_ok tw" "list_all no_line_end lines" "lines \<noteq> []"
  shows "\<exists>groups. wrap_rich_lines tw wd lines fw cw = Some (Ret (concat groups)) \<and>
    list_all2 (wrapped_as wd (max fw 1) (max cw 1)) lines groups"
proof -
  obtain groups where g: "wrap_lines tw wd (max fw 1) (max cw 1) lines [] = Some (Ret (concat groups))"
    "list_all2 (wrapped_as wd (max fw 1) (max cw 1)) lines groups"
    using wrap_lines_returns [OF assms(1,2), where fw = "max fw 1" and cw = "max cw 1" and wrapped = "[]"] by auto
  have "concat groups \<noteq> []"
    using g(2) assms(3) by (cases groups; cases lines) auto
  then have "wrap_rich_lines tw wd lines fw cw = Some (Ret (concat groups))"
    using g(1) by (cases "concat groups") (simp_all add: wrap_rich_lines_def)
  with g(2) show ?thesis
    by blast
qed

text \<open>C11: wrapping ends. With a line breaker that keeps its contract, and whatever the widths of the
  characters are, wrapping lines that contain no line end always returns, never panics, and turns
  each line into its own group of rows: the line's gutter repeated in front of every row, every
  character of the body but spaces in order and in its style, and no row wider than the room left
  beside the gutter, which is at least one column, unless the row is a single character wider than
  that room, followed by none but characters of no width.\<close>

theorem wrap_returns_fitting:
  assumes "textwrap_ok tw" "list_all no_line_end lines" "lines \<noteq> []"
  shows "\<exists>groups. wrap_rich_lines tw wd lines fw cw = Some (Ret (concat groups)) \<and>
    list_all2 (wrapped_as wd (max fw 1) (max cw 1)) lines groups"
  by (rule wrap_rich_lines_returns [OF assms])

text \<open>A line breaker for the witnesses: it cuts at the width.\<close>

definition cut_wrap :: "nat \<Rightarrow> rstr \<Rightarrow> rstr list" where
  "cut_wrap w s = (if 10 \<in> set s then takeWhile (\<lambda>c. c \<noteq> 10) s # [tl (dropWhile (\<lambda>c. c \<noteq> 10) s)]
     else [take w s, drop w s])"

lemma cut_wrap_ok: "textwrap_ok cut_wrap"
  unfolding textwrap_ok_def
proof (intro allI impI)
  fix w :: nat and s :: rstr
  assume "0 < w \<and> s \<noteq> [] \<and> 10 \<notin> set s"
  then show "\<exists>line rest t. cut_wrap w s = line # rest \<and> s = line @ t \<and> (line = [] \<longrightarrow> hd s = 32)"
    by (intro exI [of _ "take w s"] exI [of _ "[drop w s]"] exI [of _ "drop w s"]) (simp add: cut_wrap_def)
qed

theorem wrap_returns_fitting_witness:
  "\<exists>groups. wrap_rich_lines cut_wrap (\<lambda>_. 1) [[rich_span_new (lit ''ab cd'') ()]] 2 2 = Some (Ret (concat groups)) \<and>
    list_all2 (wrapped_as (\<lambda>_. 1) (max 2 1) (max 2 1)) [[rich_span_new (lit ''ab cd'') ()]] groups"
proof -
  have "list_all no_line_end [[rich_span_new (lit ''ab cd'') ()]]"
    by (simp add: no_line_end_def line_body_def rich_span_new_def lit_def)
  then show ?thesis
    using wrap_returns_fitting [OF cut_wrap_ok, of "[[rich_span_new (lit ''ab cd'') ()]]" "\<lambda>_. 1" 2 2] by simp
qed

text \<open>The line breaker breaks at line ends: its first line stays before the first of them.\<close>

definition textwrap_breaks :: "(nat \<Rightarrow> rstr \<Rightarrow> rstr list) \<Rightarrow> bool" where
  "textwrap_breaks tw \<longleftrightarrow>
     (\<forall>w a b. 10 \<notin> set a \<longrightarrow> (\<exists>line rest t. tw w (a @ 10 # b) = line # rest \<and> a = line @ t))"

lemma skip_spaces_line_end:
  "10 \<in> set (drop cursor plain) \<Longrightarrow> 10 \<in> set (drop (skip_spaces plain cursor) plain)"
proof -
  assume here: "10 \<in> set (drop cursor plain)"
  have "drop (skip_spaces plain cursor) plain = dropWhile (\<lambda>c. c = 32) (drop cursor plain)"
    by (simp add: skip_spaces_def dropWhile_eq_drop add.commute)
  moreover have "10 \<in> set (dropWhile (\<lambda>c. c = 32) xs)" if "10 \<in> set xs" for xs :: rstr
    using that by (induction xs) auto
  ultimately show ?thesis
    using here by simp
qed

lemma wrap_loop_no_line_end_step:
  assumes IH: "\<And>tw fw cw plain styles cursor first out r.
      f tw fw cw plain styles cursor first out = Some r \<Longrightarrow>
      textwrap_breaks tw \<longrightarrow> length styles = length plain \<longrightarrow> 10 \<notin> set (drop cursor plain)"
    and step: "(if length plain \<le> cursor then Some (Ret out)
      else
        let seg_width = (if is_first \<and> out = [] then first_width else continuation_width)
        in case tw seg_width (drop cursor plain) of
             [] \<Rightarrow> Some (Ret (out @ [[]]))
           | line # _ \<Rightarrow>
               if length char_styles < cursor + length line then Some Panic
               else f tw first_width continuation_width plain char_styles
                      (skip_spaces plain (cursor + length line)) False
                      (out @ [rich_row line (take (length line) (drop cursor char_styles))])) = Some r"
  shows "textwrap_breaks tw \<longrightarrow> length char_styles = length plain \<longrightarrow> 10 \<notin> set (drop cursor plain)"
proof (intro impI notI)
  assume tw: "textwrap_breaks tw" and len: "length char_styles = length plain" and here: "10 \<in> set (drop cursor plain)"
  obtain a b where ab: "drop cursor plain = a @ 10 # b" "10 \<notin> set a"
    using split_list_first [OF here] by blast
  obtain line rest t where line: "tw (if is_first \<and> out = [] then first_width else continuation_width) (drop cursor plain) = line # rest"
    "a = line @ t"
    using tw ab unfolding textwrap_breaks_def by metis
  have drops: "drop (cursor + length line) plain = t @ 10 # b"
    using arg_cong [OF ab(1), of "drop (length line)"] line(2) by (simp add: add.commute)
  then have "cursor + length line < length plain"
    by (metis append_is_Nil_conv drop_all list.distinct(1) not_less)
  then have "f tw first_width continuation_width plain char_styles (skip_spaces plain (cursor + length line)) False
      (out @ [rich_row line (take (length line) (drop cursor char_styles))]) = Some r"
    using step line(1) len by (simp add: Let_def)
  then have "10 \<notin> set (drop (skip_spaces plain (cursor + length line)) plain)"
    using IH tw len by blast
  moreover have "10 \<in> set (drop (cursor + length line) plain)"
    by (simp add: drops)
  ultimately show False
    using skip_spaces_line_end by blast
qed

lemma wrap_loop_no_line_end:
  assumes "wrap_loop tw fw cw plain styles cursor first out = Some r"
    "textwrap_breaks tw" "length styles = length plain"
  shows "10 \<notin> set (drop cursor plain)"
proof -
  have "textwrap_breaks tw \<longrightarrow> length styles = length plain \<longrightarrow> 10 \<notin> set (drop cursor plain)"
    by (rule wrap_loop.raw_induct [of "\<lambda>tw fw cw plain styles cursor first out r.
        textwrap_breaks tw \<longrightarrow> length styles = length plain \<longrightarrow> 10 \<notin> set (drop cursor plain)", OF _ assms(1)])
      (rule wrap_loop_no_line_end_step)
  with assms(2,3) show ?thesis
    by blast
qed

lemma wrap_line_diverges:
  assumes "textwrap_breaks tw" "\<not> no_line_end raw"
  shows "wrap_line tw wd fw cw raw = None"
proof -
  define body where "body = line_body raw"
  have line_end: "10 \<in> set (map fst (cells body))"
    using assms(2) by (auto simp: cells_chars body_def no_line_end_def list_all_iff)
  have "\<not> list_all (\<lambda>s. sp_text s = []) raw"
  proof
    assume "list_all (\<lambda>s. sp_text s = []) raw"
    then have "list_all (\<lambda>s. sp_text s = []) body"
      using set_dropWhileD [of _ sp_repeat_on_wrap raw] by (auto simp: body_def line_body_def list_all_iff)
    then show False
      using line_end by (auto simp: cells_chars list_all_iff)
  qed
  moreover have "wrap_loop tw f c (map fst (cells body)) (map snd (cells body)) 0 True [] = None" for f c
    using wrap_loop_no_line_end [OF _ assms(1), of f c "map fst (cells body)" "map snd (cells body)" 0] line_end
    by fastforce
  ultimately show ?thesis
    by (auto simp: wrap_line_def body_def line_body_def Let_def)
qed

lemma wrap_lines_None:
  assumes "textwrap_ok tw" "textwrap_breaks tw"
  shows "wrap_lines tw wd fw cw lines wrapped = None \<longleftrightarrow> \<not> list_all no_line_end lines"
proof (induction lines arbitrary: wrapped)
  case (Cons raw lines)
  show ?case
  proof (cases "no_line_end raw")
    case True
    then obtain rows where "wrap_line tw wd fw cw raw = Some (Ret rows)"
      using wrap_line_returns [OF assms(1) True, of wd fw cw] by auto
    then show ?thesis
      using True Cons.IH [of "wrapped @ rows"] by simp
  next
    case False
    then show ?thesis
      by (simp add: wrap_line_diverges [OF assms(2)])
  qed
qed simp

text \<open>Wrapping never returns on a line end. With a line breaker that breaks at line ends, wrapping loops
  forever exactly when the body of some line contains one: the loop stops before the line end
  and does not consume it, so every further round makes an empty row and no progress.\<close>

theorem wrap_line_end_diverges:
  assumes "textwrap_ok tw" "textwrap_breaks tw"
  shows "wrap_rich_lines tw wd lines fw cw = None \<longleftrightarrow> \<not> list_all no_line_end lines"
  using wrap_lines_None [OF assms, of wd "max fw 1" "max cw 1" lines "[]"]
  by (auto simp: wrap_rich_lines_def split: option.splits exec.splits list.splits)

lemma cut_wrap_breaks: "textwrap_breaks cut_wrap"
  unfolding textwrap_breaks_def
proof (intro allI impI)
  fix w :: nat and a b :: rstr
  assume "10 \<notin> set a"
  then have "takeWhile (\<lambda>c. c \<noteq> 10) (a @ 10 # b) = a"
    by (subst takeWhile_append2) auto
  then show "\<exists>line rest t. cut_wrap w (a @ 10 # b) = line # rest \<and> a = line @ t"
    by (simp add: cut_wrap_def)
qed

theorem wrap_line_end_diverges_witness:
  "wrap_rich_lines cut_wrap (\<lambda>_. 1) [[rich_span_new [97, 10, 98] ()]] 80 80 = None"
proof -
  have "\<not> list_all no_line_end [[rich_span_new [97, 10, 98] ()]]"
    by (simp add: no_line_end_def line_body_def rich_span_new_def)
  then show ?thesis
    using wrap_line_end_diverges [OF cut_wrap_ok cut_wrap_breaks, of "\<lambda>_. 1" "[[rich_span_new [97, 10, 98] ()]]" 80 80]
    by simp
qed

end
