(* ===== verification/Html_Render.thy ===== *)
theory Html_Render
  imports Rich_Wrap
begin

text \<open>
  Formatted message bodies in the terminal client: \<^verbatim>\<open>clients/tui/src/html.rs\<close>.

  \<^item> A parsed document is a tree of \<open>html_node\<close>s; sanitising and parsing (\<^verbatim>\<open>ruma_html\<close>) is a parameter
    \<open>parse\<close>, as are the line breaker and the widths of \<open>Rich_Wrap\<close>.
  \<^item> A style is its foreground colour and its modifiers, which is what the code sets.
  \<^item> String slices are by bytes and panic inside a character, so \<open>parse_hex_color\<close> can panic.
\<close>

datatype color = Rgb nat nat nat | SchemeColor nat

datatype modifier = BOLD | ITALIC | DIM | UNDERLINED

record style =
  st_fg :: "color option"
  st_mods :: "modifier set"

definition style_default :: style where
  "style_default = \<lparr>st_fg = None, st_mods = {}\<rparr>"

definition style_with_fg :: "style \<Rightarrow> color \<Rightarrow> style" where
  "style_with_fg s c = s\<lparr>st_fg := Some c\<rparr>"

definition add_modifier :: "style \<Rightarrow> modifier \<Rightarrow> style" where
  "add_modifier s m = s\<lparr>st_mods := insert m (st_mods s)\<rparr>"

record color_scheme =
  cs_input_hint :: color
  cs_status :: color

record html_attr =
  ha_ns :: rstr
  ha_local :: rstr
  ha_value :: rstr

datatype html_node = HText rstr | HElement rstr "html_attr list" "html_node list" | HOther

record html_context =
  hc_style :: style
  hc_preserve_whitespace :: bool

definition exec_bind :: "'a exec \<Rightarrow> ('a \<Rightarrow> 'b exec) \<Rightarrow> 'b exec" where
  "exec_bind m f = (case m of Ret x \<Rightarrow> f x | Panic \<Rightarrow> Panic)"

lemma exec_bind_simps [simp]: "exec_bind (Ret x) f = f x" "exec_bind Panic f = Panic"
  by (simp_all add: exec_bind_def)

section \<open>Attributes\<close>

definition attr_value :: "rstr \<Rightarrow> html_attr list \<Rightarrow> rstr option" where
  "attr_value name attrs = map_option ha_value (find (\<lambda>a. ha_ns a = [] \<and> ha_local a = name) attrs)"

definition trim :: "rstr \<Rightarrow> rstr" where
  "trim s = trim_matches is_white_space s"

definition anchor_href :: "html_attr list \<Rightarrow> rstr option" where
  "anchor_href attrs = attr_value (lit ''href'') attrs"

definition span_spoiler_label :: "html_attr list \<Rightarrow> rstr option" where
  "span_spoiler_label attrs =
     map_option (\<lambda>value.
       let reason = trim value
       in if reason = [] then lit ''[spoiler] '' else lit ''['' @ reason @ lit ''] '')
     (attr_value (lit ''data-mx-spoiler'') attrs)"

text \<open>A slice up to a byte offset: the offset must not fall inside a character.\<close>

fun split_bytes :: "nat \<Rightarrow> rstr \<Rightarrow> (rstr \<times> rstr) option" where
  "split_bytes 0 s = Some ([], s)"
| "split_bytes (Suc n) [] = None"
| "split_bytes (Suc n) (c # s) =
     (let k = length (utf8_char c)
      in if k \<le> Suc n then map_option (\<lambda>(a, b). (c # a, b)) (split_bytes (Suc n - k) s) else None)"

definition hex_digit :: "nat \<Rightarrow> nat option" where
  "hex_digit c =
     (if 48 \<le> c \<and> c \<le> 57 then Some (c - 48)
      else if 97 \<le> c \<and> c \<le> 102 then Some (c - 87)
      else if 65 \<le> c \<and> c \<le> 70 then Some (c - 55) else None)"

fun hex_digits :: "rstr \<Rightarrow> nat \<Rightarrow> nat option" where
  "hex_digits [] n = (if n < 256 then Some n else None)"
| "hex_digits (c # s) n =
     (case hex_digit c of None \<Rightarrow> None | Some d \<Rightarrow> if n * 16 + d < 256 then hex_digits s (n * 16 + d) else None)"

text \<open>\<^verbatim>\<open>u8::from_str_radix(s, 16)\<close>, which accepts a leading plus sign.\<close>

definition from_str_radix_16 :: "rstr \<Rightarrow> nat option" where
  "from_str_radix_16 s =
     (if s = [] \<or> s = [43] \<or> s = [45] then None
      else if hd s = 43 then hex_digits (tl s) 0 else hex_digits s 0)"

definition parse_hex_color :: "rstr \<Rightarrow> color option exec" where
  "parse_hex_color value =
     (let hex = (case value of c # rest \<Rightarrow> if c = 35 then rest else value | [] \<Rightarrow> value)
      in if length (utf8 hex) \<noteq> 6 then Ret None
         else case split_bytes 2 hex of None \<Rightarrow> Panic | Some (rs, rest) \<Rightarrow>
           (case from_str_radix_16 rs of None \<Rightarrow> Ret None | Some r \<Rightarrow>
           (case split_bytes 2 rest of None \<Rightarrow> Panic | Some (gs, bs) \<Rightarrow>
           (case from_str_radix_16 gs of None \<Rightarrow> Ret None | Some g \<Rightarrow>
           (case from_str_radix_16 bs of None \<Rightarrow> Ret None | Some b \<Rightarrow> Ret (Some (Rgb r g b)))))))"

definition span_fg_color :: "html_attr list \<Rightarrow> color option exec" where
  "span_fg_color attrs =
     (case attr_value (lit ''data-mx-color'') attrs of
        None \<Rightarrow> Ret None
      | Some v \<Rightarrow> parse_hex_color (trim v))"

definition is_ascii_alphabetic :: "nat \<Rightarrow> bool" where
  "is_ascii_alphabetic c \<longleftrightarrow> 65 \<le> c \<and> c \<le> 90 \<or> 97 \<le> c \<and> c \<le> 122"

definition looks_like_hyperlink :: "rstr \<Rightarrow> bool" where
  "looks_like_hyperlink text0 =
     (let text = trim text0
      in if take 4 text = lit ''www.'' then True
         else case split_once 58 text of
           None \<Rightarrow> False
         | Some (scheme, rest) \<Rightarrow>
             scheme \<noteq> [] \<and> rest \<noteq> [] \<and>
             list_all (\<lambda>c. is_ascii_alphabetic c \<or> 48 \<le> c \<and> c \<le> 57 \<or> c \<in> {43, 45, 46}) scheme \<and>
             is_ascii_alphabetic (hd scheme))"

section \<open>Removing script and style blocks\<close>

definition find_first_dangerous_block :: "rstr \<Rightarrow> (nat \<times> rstr) option" where
  "find_first_dangerous_block lower =
     (case (find_str (lit ''<script'') lower, find_str (lit ''<style'') lower) of
        (None, None) \<Rightarrow> None
      | (Some i, None) \<Rightarrow> Some (i, lit ''script'')
      | (None, Some j) \<Rightarrow> Some (j, lit ''style'')
      | (Some i, Some j) \<Rightarrow> if i \<le> j then Some (i, lit ''script'') else Some (j, lit ''style''))"

function remove_loop :: "rstr \<Rightarrow> rstr \<Rightarrow> rstr" where
  "remove_loop remaining output =
     (let lower = to_ascii_lowercase remaining
      in case find_first_dangerous_block lower of
           None \<Rightarrow> output @ remaining
         | Some (start, tag) \<Rightarrow>
             let output' = output @ take start remaining;
                 close = lit ''</'' @ tag @ lit ''>''
             in case find_str close (drop start lower) of
                  Some e \<Rightarrow> remove_loop (drop (start + e + length close) remaining) output'
                | None \<Rightarrow> output')"
  by pat_completeness auto

lemma find_first_dangerous_block_Nil: "find_first_dangerous_block [] = None"
  by (simp add: find_first_dangerous_block_def lit_def)

termination remove_loop
proof (relation "measure (length \<circ> fst)", goal_cases)
  case (2 remaining out lower a start tag out' cl e)
  have "remaining \<noteq> []"
    using 2 find_first_dangerous_block_Nil by (auto simp: to_ascii_lowercase_def)
  then show ?case
    using 2 by (auto simp: lit_def)
qed simp

definition remove_dangerous_html_blocks :: "rstr \<Rightarrow> rstr" where
  "remove_dangerous_html_blocks html = remove_loop html []"

section \<open>Text\<close>

fun collapse_text :: "rstr \<Rightarrow> bool \<Rightarrow> rstr" where
  "collapse_text [] in_whitespace = []"
| "collapse_text (ch # cs) in_whitespace =
     (if is_white_space ch
      then (if in_whitespace then collapse_text cs True else 32 # collapse_text cs True)
      else ch # collapse_text cs False)"

fun push_parts :: "style rich_line list \<Rightarrow> style \<Rightarrow> bool \<Rightarrow> rstr list \<Rightarrow> style rich_line list exec" where
  "push_parts lines st is_first [] = Ret lines"
| "push_parts lines st is_first (part # parts) =
     exec_bind (push_rich_span (if is_first then lines else push_rich_line_break lines) (rich_span_new part st))
       (\<lambda>ls. push_parts ls st False parts)"

definition push_html_text :: "style rich_line list \<Rightarrow> rstr \<Rightarrow> style \<Rightarrow> bool \<Rightarrow> style rich_line list exec" where
  "push_html_text lines text st preserve =
     (if preserve then push_parts lines st True (split_on (\<lambda>c. c = 10) text)
      else
        let normalized = collapse_text text False;
            normalized' = (if rich_current_line_is_empty lines then dropWhile is_white_space normalized else normalized)
        in if normalized' \<noteq> [] then push_rich_span lines (rich_span_new normalized' st) else Ret lines)"

section \<open>Rendering\<close>

definition GUTTER :: rstr where
  "GUTTER = [9612, 32]"

definition WARNING :: rstr where
  "WARNING = [32, 9888, 32]"

definition anchor_finish ::
  "color_scheme \<Rightarrow> style \<Rightarrow> rstr \<Rightarrow> style rich_line list \<Rightarrow> style rich_line list \<Rightarrow> style rich_line list exec"
where
  "anchor_finish colors link_style href lines link_lines =
     (let visible_text = trim (rich_lines_text link_lines)
      in if visible_text = [] then push_rich_span lines (rich_span_new href link_style)
         else exec_bind (append_rich_lines lines link_lines) (\<lambda>ls.
           if visible_text = href then Ret ls
           else if looks_like_hyperlink visible_text
           then exec_bind (push_rich_span ls (rich_span_new WARNING (style_with_fg style_default (cs_status colors)))) (\<lambda>ls.
                push_rich_span ls (rich_span_new href link_style))
           else exec_bind (push_rich_span ls (rich_span_new (lit '' ('') (style_with_fg style_default (cs_input_hint colors)))) (\<lambda>ls.
                exec_bind (push_rich_span ls (rich_span_new href link_style)) (\<lambda>ls.
                push_rich_span ls (rich_span_new (lit '')'') (style_with_fg style_default (cs_input_hint colors)))))))"

definition quote_finish ::
  "color_scheme \<Rightarrow> style rich_line list \<Rightarrow> style rich_line list \<Rightarrow> style rich_line list exec"
where
  "quote_finish colors lines quote_lines0 =
     (let quote_lines = trim_empty_rich_edges quote_lines0
      in if rich_lines_are_empty quote_lines then Ret lines
         else exec_bind
           (append_rich_lines lines
             (map (\<lambda>line. gutter GUTTER (style_with_fg style_default (cs_input_hint colors)) # line) quote_lines))
           (\<lambda>ls. Ret (push_rich_line_break_if_needed ls)))"

fun render_html_node ::
    "color_scheme \<Rightarrow> html_node \<Rightarrow> html_context \<Rightarrow> style rich_line list \<Rightarrow> style rich_line list exec"
  and render_children_with_style ::
    "color_scheme \<Rightarrow> html_node list \<Rightarrow> html_context \<Rightarrow> style rich_line list \<Rightarrow> style rich_line list exec"
where
  "render_html_node colors (HText text) ctx lines =
     push_html_text lines text (hc_style ctx) (hc_preserve_whitespace ctx)"
| "render_html_node colors HOther ctx lines = Ret lines"
| "render_html_node colors (HElement name attrs children) ctx lines =
     (if name = lit ''br'' then Ret (push_rich_line_break lines)
      else if name \<in> {lit ''p'', lit ''div'', lit ''ul'', lit ''ol''} then
        exec_bind (render_children_with_style colors children ctx (push_rich_line_break_if_needed lines))
          (\<lambda>ls. Ret (push_rich_line_break_if_needed ls))
      else if name \<in> {lit ''strong'', lit ''b''} then
        render_children_with_style colors children (ctx\<lparr>hc_style := add_modifier (hc_style ctx) BOLD\<rparr>) lines
      else if name \<in> {lit ''em'', lit ''i''} then
        render_children_with_style colors children (ctx\<lparr>hc_style := add_modifier (hc_style ctx) ITALIC\<rparr>) lines
      else if name = lit ''code'' then
        render_children_with_style colors children
          (ctx\<lparr>hc_style := add_modifier (style_with_fg (hc_style ctx) (cs_input_hint colors)) BOLD\<rparr>) lines
      else if name = lit ''pre'' then
        exec_bind
          (render_children_with_style colors children
             \<lparr>hc_style = style_with_fg (hc_style ctx) (cs_input_hint colors), hc_preserve_whitespace = True\<rparr>
             (push_rich_line_break_if_needed lines))
          (\<lambda>ls. Ret (push_rich_line_break_if_needed ls))
      else if name = lit ''a'' then
        (let link_style = add_modifier (style_with_fg (hc_style ctx) (cs_status colors)) UNDERLINED
         in case anchor_href attrs of
              None \<Rightarrow> render_children_with_style colors children (ctx\<lparr>hc_style := link_style\<rparr>) lines
            | Some href0 \<Rightarrow>
                let href = trim href0
                in if href = [] then Ret lines
                   else exec_bind (render_children_with_style colors children (ctx\<lparr>hc_style := link_style\<rparr>) [[]])
                          (anchor_finish colors link_style href lines))
      else if name = lit ''blockquote'' then
        (let lines' = push_rich_line_break_if_needed lines
         in exec_bind
              (render_children_with_style colors children
                 (ctx\<lparr>hc_style := style_with_fg (hc_style ctx) (cs_input_hint colors)\<rparr>) [[]])
              (quote_finish colors lines'))
      else if name = lit ''li'' then
        exec_bind
          (push_rich_span (push_rich_line_break_if_needed lines)
             (rich_span_new (lit ''* '') (style_with_fg style_default (cs_input_hint colors))))
          (\<lambda>ls. exec_bind (render_children_with_style colors children ctx ls)
          (\<lambda>ls. Ret (push_rich_line_break_if_needed ls)))
      else if name = lit ''span'' then
        exec_bind (span_fg_color attrs) (\<lambda>col.
          let st = (case col of Some c \<Rightarrow> style_with_fg (hc_style ctx) c | None \<Rightarrow> hc_style ctx)
          in case span_spoiler_label attrs of
               Some label \<Rightarrow>
                 exec_bind (push_rich_span lines (rich_span_new label (add_modifier (add_modifier st DIM) BOLD)))
                   (render_children_with_style colors children (ctx\<lparr>hc_style := add_modifier st DIM\<rparr>))
             | None \<Rightarrow> render_children_with_style colors children (ctx\<lparr>hc_style := st\<rparr>) lines)
      else render_children_with_style colors children ctx lines)"
| "render_children_with_style colors [] ctx lines = Ret lines"
| "render_children_with_style colors (n # ns) ctx lines =
     exec_bind (render_html_node colors n ctx lines) (render_children_with_style colors ns ctx)"

text \<open>\<open>None\<close>: never returns. A body that renders to nothing has no lines of its own, which is \<open>Ret None\<close>.\<close>

definition formatted_message_body_lines ::
  "(rstr \<Rightarrow> html_node list) \<Rightarrow> (nat \<Rightarrow> rstr \<Rightarrow> rstr list) \<Rightarrow> (nat \<Rightarrow> nat) \<Rightarrow> color_scheme \<Rightarrow> rstr \<Rightarrow> nat \<Rightarrow> nat \<Rightarrow>
   (rstr \<times> style) list list option exec option"
where
  "formatted_message_body_lines parse tw wd colors html first_width continuation_width =
     (case render_children_with_style colors (parse (remove_dangerous_html_blocks html))
             \<lparr>hc_style = style_default, hc_preserve_whitespace = False\<rparr> [[]] of
        Panic \<Rightarrow> Some Panic
      | Ret lines0 \<Rightarrow>
          let lines = trim_empty_rich_edges lines0
          in if rich_lines_are_empty lines then Some (Ret None)
             else case wrap_rich_lines tw wd lines first_width continuation_width of
                    None \<Rightarrow> None
                  | Some Panic \<Rightarrow> Some Panic
                  | Some (Ret rows) \<Rightarrow> Some (Ret (Some (rich_lines_to_spans rows))))"

section \<open>What rendering keeps\<close>

abbreviation span_ok :: "style rich_span \<Rightarrow> bool" where
  "span_ok sp \<equiv> 10 \<notin> set (sp_text sp)"

definition lines_ok :: "style rich_line list \<Rightarrow> bool" where
  "lines_ok lines \<longleftrightarrow> lines \<noteq> [] \<and> list_all (list_all span_ok) lines"

definition rendered :: "style rich_line list exec \<Rightarrow> bool" where
  "rendered r \<longleftrightarrow> (\<exists>ls. r = Ret ls \<and> lines_ok ls)"

lemma rendered_Ret [simp]: "rendered (Ret ls) = lines_ok ls"
  by (simp add: rendered_def)

lemma rendered_bind: "rendered m \<Longrightarrow> (\<And>ls. lines_ok ls \<Longrightarrow> rendered (f ls)) \<Longrightarrow> rendered (exec_bind m f)"
  by (auto simp: rendered_def)

lemma rendered_RetI: "lines_ok ls \<Longrightarrow> rendered (Ret ls)"
  by simp

lemma if_rendered: "(b \<Longrightarrow> rendered x) \<Longrightarrow> (\<not> b \<Longrightarrow> rendered y) \<Longrightarrow> rendered (if b then x else y)"
  by simp

lemma option_rendered:
  "(opt = None \<Longrightarrow> rendered x) \<Longrightarrow> (\<And>v. opt = Some v \<Longrightarrow> rendered (f v)) \<Longrightarrow>
   rendered (case opt of None \<Rightarrow> x | Some v \<Rightarrow> f v)"
  by (cases opt) simp_all

lemma lines_ok_start [simp]: "lines_ok [[]]"
  by (simp add: lines_ok_def)

lemma push_on_line_ok: "list_all span_ok line \<Longrightarrow> span_ok sp \<Longrightarrow> list_all span_ok (push_on_line line sp)"
  by (cases line rule: rev_cases) (auto simp: push_on_line_def)

lemma push_rich_span_ok:
  assumes "lines_ok lines" "span_ok sp"
  shows "rendered (push_rich_span lines sp)"
proof (cases lines rule: rev_cases)
  case (snoc ls line)
  then show ?thesis
    using assms push_on_line_ok [of line sp] by (auto simp: push_rich_span_def lines_ok_def)
qed (use assms in \<open>simp add: lines_ok_def\<close>)

lemma push_new_ok: "lines_ok lines \<Longrightarrow> 10 \<notin> set text \<Longrightarrow> rendered (push_rich_span lines (rich_span_new text st))"
  by (rule push_rich_span_ok) (simp_all add: rich_span_new_def)

lemma line_break_ok [simp]:
  "lines_ok lines \<Longrightarrow> lines_ok (push_rich_line_break lines)"
  "lines_ok lines \<Longrightarrow> lines_ok (push_rich_line_break_if_needed lines)"
  by (simp_all add: push_rich_line_break_if_needed_def push_rich_line_break_def lines_ok_def)

lemma push_parts_ok:
  "lines_ok lines \<Longrightarrow> list_all (\<lambda>part. 10 \<notin> set part) parts \<Longrightarrow> rendered (push_parts lines st first parts)"
  by (induction parts arbitrary: lines first) (auto intro!: rendered_bind push_new_ok)

lemma collapse_text_no_line_end: "10 \<notin> set (collapse_text t w)"
  by (induction t w rule: collapse_text.induct) (auto simp: is_white_space_def)

lemma push_html_text_ok:
  assumes "lines_ok lines"
  shows "rendered (push_html_text lines text st preserve)"
proof -
  have "list_all (\<lambda>part. 10 \<notin> set part) (split_on (\<lambda>c. c = 10) text)"
    using split_on_token by (fastforce simp: list_all_iff)
  moreover have "10 \<notin> set (dropWhile is_white_space (collapse_text text False))"
    using collapse_text_no_line_end set_dropWhileD by fastforce
  ultimately show ?thesis
    using assms collapse_text_no_line_end by (auto simp: push_html_text_def Let_def intro!: push_parts_ok push_new_ok)
qed

lemma append_loop_ok:
  "lines_ok lines \<Longrightarrow> list_all span_ok first \<Longrightarrow> rendered (append_loop lines first)"
proof (induction first rule: rev_induct)
  case (snoc sp first)
  then obtain ls where "append_loop lines first = Ret ls" "lines_ok ls"
    by (auto simp: rendered_def)
  then show ?case
    using push_rich_span_ok [of ls sp] snoc.prems by (simp add: append_loop_def)
qed (simp add: append_loop_def)

lemma append_rich_lines_ok:
  assumes "lines_ok lines" "list_all (list_all span_ok) extra"
  shows "rendered (append_rich_lines lines extra)"
proof (cases extra)
  case (Cons first rest)
  then obtain ls where "append_loop lines first = Ret ls" "lines_ok ls"
    using append_loop_ok [of lines first] assms by (auto simp: rendered_def)
  then show ?thesis
    using Cons assms(2) by (simp add: append_rich_lines_def lines_ok_def)
qed (use assms in \<open>simp add: append_rich_lines_def\<close>)

lemma anchor_finish_ok:
  assumes "lines_ok lines" "lines_ok link_lines" "10 \<notin> set href"
  shows "rendered (anchor_finish colors st href lines link_lines)"
  using assms unfolding anchor_finish_def Let_def
  by (auto intro!: rendered_bind append_rich_lines_ok push_new_ok simp: lines_ok_def WARNING_def lit_def)

lemma trim_front_Nil [simp]: "trim_front lines = [] \<longleftrightarrow> lines = []"
  by (induction lines rule: trim_front.induct) auto

lemma trim_front_all: "list_all P lines \<Longrightarrow> list_all P (trim_front lines)"
  by (induction lines rule: trim_front.induct) auto

lemma trim_empty_rich_edges_ok: "lines_ok lines \<Longrightarrow> lines_ok (trim_empty_rich_edges lines)"
  by (simp add: lines_ok_def trim_empty_rich_edges_def trim_front_all)

lemma quote_finish_ok:
  assumes "lines_ok lines" "lines_ok quote_lines"
  shows "rendered (quote_finish colors lines quote_lines)"
proof -
  have "list_all (list_all span_ok) (map (\<lambda>line. gutter GUTTER st # line) (trim_empty_rich_edges quote_lines))" for st
    using trim_empty_rich_edges_ok [OF assms(2)] by (auto simp: lines_ok_def list_all_iff gutter_def GUTTER_def)
  then show ?thesis
    using assms(1) by (auto simp: quote_finish_def Let_def intro!: rendered_bind append_rich_lines_ok)
qed

text \<open>Attributes the renderer reads without harm: link targets and spoiler reasons without a line end,
  colours in ASCII.\<close>

definition attr_safe :: "html_attr \<Rightarrow> bool" where
  "attr_safe a \<longleftrightarrow>
     (if ha_local a \<in> {lit ''href'', lit ''data-mx-spoiler''} then 10 \<notin> set (trim (ha_value a))
      else if ha_local a = lit ''data-mx-color'' then list_all (\<lambda>c. c < 128) (trim (ha_value a)) else True)"

fun node_safe :: "html_node \<Rightarrow> bool" where
  "node_safe (HText _) = True"
| "node_safe HOther = True"
| "node_safe (HElement _ attrs children) = (list_all attr_safe attrs \<and> list_all node_safe children)"

lemma attr_value_safe:
  assumes "list_all attr_safe attrs" "attr_value name attrs = Some v"
  obtains a where "attr_safe a" "ha_local a = name" "ha_value a = v"
  using assms by (auto simp: attr_value_def find_Some_iff list_all_length)

lemma split_bytes_ascii:
  "list_all (\<lambda>c. c < 128) s \<Longrightarrow> n \<le> length s \<Longrightarrow> split_bytes n s = Some (take n s, drop n s)"
  by (induction n s rule: split_bytes.induct) (auto simp: utf8_char_def)

lemma utf8_ascii_length: "list_all (\<lambda>c. c < 128) s \<Longrightarrow> length (utf8 s) = length s"
  by (induction s) (auto simp: utf8_def utf8_char_def)

lemma parse_hex_color_ascii:
  assumes "list_all (\<lambda>c. c < 128) s"
  shows "parse_hex_color s \<noteq> Panic"
proof -
  define hex where "hex = (case s of c # rest \<Rightarrow> if c = 35 then rest else s | [] \<Rightarrow> s)"
  have ascii: "list_all (\<lambda>c. c < 128) hex"
    using assms by (auto simp: hex_def split: list.splits)
  show ?thesis
  proof (cases "length (utf8 hex) = 6")
    case True
    then have "length hex = 6"
      using utf8_ascii_length [OF ascii] by simp
    moreover have "list_all (\<lambda>c. c < 128) (drop 2 hex)"
      using ascii by (auto simp: list_all_iff dest: in_set_dropD)
    ultimately have "split_bytes 2 hex = Some (take 2 hex, drop 2 hex)"
      "split_bytes 2 (drop 2 hex) = Some (take 2 (drop 2 hex), drop 2 (drop 2 hex))"
      using split_bytes_ascii [of hex 2] split_bytes_ascii [of "drop 2 hex" 2] ascii by simp_all
    then show ?thesis
      unfolding parse_hex_color_def hex_def [symmetric] Let_def
      by (simp split: option.splits)
  next
    case False
    then show ?thesis
      unfolding parse_hex_color_def hex_def [symmetric] Let_def by simp
  qed
qed

lemma span_fg_color_safe:
  assumes "list_all attr_safe attrs"
  shows "\<exists>c. span_fg_color attrs = Ret c"
proof (cases "attr_value (lit ''data-mx-color'') attrs")
  case (Some v)
  then obtain a where "attr_safe a" "ha_local a = lit ''data-mx-color''" "ha_value a = v"
    using assms attr_value_safe by blast
  then have "parse_hex_color (trim v) \<noteq> Panic"
    by (intro parse_hex_color_ascii) (simp add: attr_safe_def lit_inject)
  then show ?thesis
    using Some by (cases "parse_hex_color (trim v)") (simp_all add: span_fg_color_def)
qed (simp add: span_fg_color_def)

lemma span_spoiler_label_safe:
  assumes "list_all attr_safe attrs" "span_spoiler_label attrs = Some label"
  shows "10 \<notin> set label"
proof -
  obtain v where v: "attr_value (lit ''data-mx-spoiler'') attrs = Some v"
    "label = (if trim v = [] then lit ''[spoiler] '' else lit ''['' @ trim v @ lit ''] '')"
    using assms(2) by (auto simp: span_spoiler_label_def Let_def)
  obtain a where "attr_safe a" "ha_local a = lit ''data-mx-spoiler''" "ha_value a = v"
    using attr_value_safe [OF assms(1) v(1)] .
  then have "10 \<notin> set (trim v)"
    by (simp add: attr_safe_def)
  then show ?thesis
    by (simp add: v(2) lit_def)
qed

lemma anchor_href_safe:
  assumes "list_all attr_safe attrs" "anchor_href attrs = Some href"
  shows "10 \<notin> set (trim href)"
  using attr_value_safe [OF assms(1) assms(2) [unfolded anchor_href_def]] by (auto simp: attr_safe_def split: if_split_asm)

lemma render_children_ok:
  assumes "\<And>n ctx lines. n \<in> set ns \<Longrightarrow> lines_ok lines \<Longrightarrow> rendered (render_html_node colors n ctx lines)"
    "lines_ok lines"
  shows "rendered (render_children_with_style colors ns ctx lines)"
  using assms by (induction ns arbitrary: lines) (auto intro!: rendered_bind)

lemma render_html_node_ok:
  "node_safe n \<Longrightarrow> lines_ok lines \<Longrightarrow> rendered (render_html_node colors n ctx lines)"
proof (induction n arbitrary: ctx lines)
  case (HText t)
  then show ?case
    by (simp add: push_html_text_ok)
next
  case (HElement name attrs children)
  have attrs: "list_all attr_safe attrs"
    using HElement.prems by simp
  have kids: "rendered (render_children_with_style colors children ctx' ls)" if "lines_ok ls" for ctx' ls
    using HElement that by (intro render_children_ok) (auto simp: list_all_iff)
  obtain col where col: "span_fg_color attrs = Ret col"
    using span_fg_color_safe [OF attrs] by blast
  have list_mark: "10 \<notin> set (lit ''* '')"
    by (simp add: lit_def)
  show ?case
    unfolding render_html_node.simps col exec_bind_simps Let_def
    by (intro if_rendered option_rendered rendered_bind kids push_new_ok anchor_finish_ok quote_finish_ok line_break_ok
        HElement.prems(2) anchor_href_safe [OF attrs] span_spoiler_label_safe [OF attrs] list_mark
        lines_ok_start rendered_RetI)
qed simp

section \<open>Properties of rendering\<close>

text \<open>A formatted body is rendered. For every document whose link targets and spoiler reasons contain no line
  end and whose colours are ASCII, rendering and wrapping return: no panic and no endless loop,
  whatever the elements, their nesting and the text.\<close>

theorem html_body_returns:
  assumes "textwrap_ok tw" "list_all node_safe (parse (remove_dangerous_html_blocks html))"
  shows "\<exists>body. formatted_message_body_lines parse tw wd colors html fw cw = Some (Ret body)"
proof -
  let ?nodes = "parse (remove_dangerous_html_blocks html)"
  let ?ctx = "\<lparr>hc_style = style_default, hc_preserve_whitespace = False\<rparr>"
  have "rendered (render_children_with_style colors ?nodes ?ctx [[]])"
    using assms(2) by (intro render_children_ok render_html_node_ok) (auto simp: list_all_iff)
  then obtain ls where ls: "render_children_with_style colors ?nodes ?ctx [[]] = Ret ls" "lines_ok ls"
    by (auto simp: rendered_def)
  have ok: "lines_ok (trim_empty_rich_edges ls)"
    by (rule trim_empty_rich_edges_ok [OF ls(2)])
  have "no_line_end line" if "line \<in> set (trim_empty_rich_edges ls)" for line
    using ok that set_dropWhileD [of _ sp_repeat_on_wrap line]
    by (auto simp: lines_ok_def no_line_end_def line_body_def list_all_iff)
  then obtain groups where "wrap_rich_lines tw wd (trim_empty_rich_edges ls) fw cw = Some (Ret (concat groups))"
    using wrap_rich_lines_returns [OF assms(1), of "trim_empty_rich_edges ls" wd fw cw] ok
    by (auto simp: list_all_iff lines_ok_def)
  then show ?thesis
    using ls(1) by (simp add: formatted_message_body_lines_def Let_def)
qed

definition demo_colors :: color_scheme where
  "demo_colors = \<lparr>cs_input_hint = SchemeColor 0, cs_status = SchemeColor 1\<rparr>"

theorem html_body_returns_witness:
  "\<exists>body. formatted_message_body_lines
     (\<lambda>_. [HElement (lit ''span'') [\<lparr>ha_ns = [], ha_local = lit ''data-mx-spoiler'', ha_value = lit ''why''\<rparr>] [HText (lit ''x'')]])
     cut_wrap (\<lambda>_. 1) demo_colors [] 80 80 = Some (Ret body)"
proof (rule html_body_returns [OF cut_wrap_ok])
  show "list_all node_safe [HElement (lit ''span'')
      [\<lparr>ha_ns = [], ha_local = lit ''data-mx-spoiler'', ha_value = lit ''why''\<rparr>] [HText (lit ''x'')]]"
    by (simp add: attr_safe_def trim_def trim_matches_def is_white_space_def lit_def)
qed

lemma spoiler_reason_hangs:
  assumes "textwrap_ok tw" "textwrap_breaks tw" "10 \<in> set (trim reason)"
  shows "formatted_message_body_lines
      (\<lambda>_. [HElement (lit ''span'') [\<lparr>ha_ns = [], ha_local = lit ''data-mx-spoiler'', ha_value = reason\<rparr>] []])
      tw wd colors html fw cw = None"
proof -
  let ?attrs = "[\<lparr>ha_ns = [], ha_local = lit ''data-mx-spoiler'', ha_value = reason\<rparr>]"
  let ?label = "lit ''['' @ trim reason @ lit ''] ''"
  have "trim reason \<noteq> []"
    using assms(3) by auto
  then have label: "span_spoiler_label ?attrs = Some ?label"
    by (simp add: span_spoiler_label_def attr_value_def)
  have color: "span_fg_color ?attrs = Ret None"
    by (simp add: span_fg_color_def attr_value_def lit_inject)
  define st where "st = add_modifier (add_modifier style_default DIM) BOLD"
  have push: "push_rich_span [[]] (rich_span_new ?label st) = Ret [[rich_span_new ?label st]]"
    using \<open>trim reason \<noteq> []\<close> by (simp add: push_rich_span_def push_on_line_def rich_span_new_def)
  have line: "render_children_with_style colors [HElement (lit ''span'') ?attrs []]
      \<lparr>hc_style = style_default, hc_preserve_whitespace = False\<rparr> [[]] = Ret [[rich_span_new ?label st]]"
    by (simp add: color label lit_inject st_def [symmetric] push)
  have "\<not> rich_lines_are_empty [[rich_span_new ?label st]]"
    by (simp add: rich_lines_are_empty_def rich_span_new_def lit_def is_white_space_def)
  moreover have "wrap_rich_lines tw wd [[rich_span_new ?label st]] fw cw = None"
  proof -
    have "\<not> list_all no_line_end [[rich_span_new ?label st]]"
      using assms(3) by (simp add: no_line_end_def line_body_def rich_span_new_def)
    then have "wrap_lines tw wd (max fw 1) (max cw 1) [[rich_span_new ?label st]] [] = None"
      by (simp only: wrap_lines_None [OF assms(1,2)] not_False_eq_True)
    then show ?thesis
      by (simp add: wrap_rich_lines_def)
  qed
  ultimately show ?thesis
    unfolding formatted_message_body_lines_def line by (simp add: trim_empty_rich_edges_def Let_def)
qed

lemma cut_color_panics:
  "formatted_message_body_lines
     (\<lambda>_. [HElement (lit ''span'') [\<lparr>ha_ns = [], ha_local = lit ''data-mx-color'', ha_value = lit ''#'' @ [8364] @ lit ''abc''\<rparr>] []])
     tw wd colors html fw cw = Some Panic"
proof -
  let ?hexval = "lit ''#'' @ [8364] @ lit ''abc''"
  have "trim ?hexval = ?hexval"
    by (simp add: trim_def trim_matches_def lit_def is_white_space_def)
  moreover have "parse_hex_color ?hexval = Panic"
  proof -
    have "split_bytes (Suc (Suc 0)) (8364 # lit ''abc'') = None"
      by (simp add: utf8_char_def)
    then have cut: "split_bytes 2 (8364 # lit ''abc'') = None"
      by (simp only: numeral_2_eq_2)
    have six: "length (utf8 (8364 # lit ''abc'')) = 6"
      by (simp add: utf8_def utf8_char_def lit_def)
    have hash: "lit ''#'' = [35]"
      by (simp add: lit_def)
    show ?thesis
      unfolding parse_hex_color_def by (simp add: hash cut six)
  qed
  ultimately have "span_fg_color [\<lparr>ha_ns = [], ha_local = lit ''data-mx-color'', ha_value = ?hexval\<rparr>] = Panic"
    by (simp add: span_fg_color_def attr_value_def)
  then show ?thesis
    by (simp add: formatted_message_body_lines_def lit_inject)
qed

text \<open>C12: both conditions are needed. A spoiler element whose reason has a line end inside never finishes
  rendering, and a six-byte colour that is cut inside a character panics; a message from any
  sender can carry either.\<close>

theorem html_attributes_unchecked:
  assumes "textwrap_ok tw" "textwrap_breaks tw" "10 \<in> set (trim reason)"
  shows "formatted_message_body_lines
      (\<lambda>_. [HElement (lit ''span'') [\<lparr>ha_ns = [], ha_local = lit ''data-mx-spoiler'', ha_value = reason\<rparr>] []])
      tw wd colors html fw cw = None \<and>
    formatted_message_body_lines
      (\<lambda>_. [HElement (lit ''span'') [\<lparr>ha_ns = [], ha_local = lit ''data-mx-color'', ha_value = lit ''#'' @ [8364] @ lit ''abc''\<rparr>] []])
      tw wd colors html fw cw = Some Panic"
  using spoiler_reason_hangs [OF assms] cut_color_panics by blast

theorem html_attributes_unchecked_witness:
  "formatted_message_body_lines
     (\<lambda>_. [HElement (lit ''span'') [\<lparr>ha_ns = [], ha_local = lit ''data-mx-spoiler'', ha_value = [97, 10, 98]\<rparr>] []])
     cut_wrap (\<lambda>_. 1) demo_colors [] 80 80 = None"
proof -
  have "10 \<in> set (trim [97, 10, 98])"
    by (simp add: trim_def trim_matches_def is_white_space_def)
  then show ?thesis
    using html_attributes_unchecked [OF cut_wrap_ok cut_wrap_breaks, of _ "\<lambda>_. 1"] by blast
qed

end
