(* ===== verification/Backfill.thy ===== *)
theory Backfill
  imports Gate_State "HOL-Library.Sublist"
begin

text \<open>
  History backfill: \<^verbatim>\<open>crates/axon-sync/src/backfill.rs\<close> and its cursor table,
  \<^verbatim>\<open>crates/axon-store/src/backfill.rs\<close>.

  \<^item> The table is a map from rooms to rows; \<open>retry_at\<close> is a time of the database clock.
  \<^item> What the environment does during one room's turn is an \<open>attempt\<close>: the clock, the free-space test,
    the answer of the homeserver to the request's token and where cancellation or a store error strikes.
  \<^item> \<^verbatim>\<open>persist_backfilled_event\<close> (\<^verbatim>\<open>engine.rs\<close>) returns nothing: it skips a departed room and an event that
    does not decode, and \<^verbatim>\<open>persist_event_core\<close> logs a store error and goes on. Which of these happens to the
    events of a page is part of the attempt, by their position in the page.
  \<^item> The world records the pages requested and the events stored, in order. Logging is left out.
\<close>

section \<open>Cursor rows\<close>

datatype page_failure = PfRejected | PfInaccessible | PfRetryable

record room_backfill =
  rb_oldest_seen_token :: "rstr option"
  rb_complete :: bool
  rb_events_backfilled :: nat
  rb_consecutive_failures :: nat
  rb_last_failure :: "rstr option"
  rb_retry_at :: "instant option"
  rb_parked :: bool
  rb_token_rejections :: nat

record room_backfill_state =
  bs_oldest_seen_token :: "rstr option"
  bs_complete :: bool
  bs_events_backfilled :: nat
  bs_consecutive_failures :: nat
  bs_retry_due :: bool
  bs_parked :: bool
  bs_token_rejections :: nat

record room_backfill_failure =
  bf_kind :: rstr
  bf_retry_after :: duration
  bf_parked :: bool
  bf_clear_token :: bool

type_synonym backfill_table = "rstr \<Rightarrow> room_backfill option"

definition state_of_row :: "instant \<Rightarrow> room_backfill \<Rightarrow> room_backfill_state" where
  "state_of_row now r =
     \<lparr>bs_oldest_seen_token = rb_oldest_seen_token r, bs_complete = rb_complete r,
      bs_events_backfilled = rb_events_backfilled r, bs_consecutive_failures = rb_consecutive_failures r,
      bs_retry_due = (case rb_retry_at r of None \<Rightarrow> True | Some t \<Rightarrow> t \<le> now),
      bs_parked = rb_parked r, bs_token_rejections = rb_token_rejections r\<rparr>"

definition list_room_backfill :: "backfill_table \<Rightarrow> instant \<Rightarrow> rstr \<Rightarrow> room_backfill_state option" where
  "list_room_backfill tab now room = map_option (state_of_row now) (tab room)"

definition save_room_backfill ::
  "backfill_table \<Rightarrow> rstr \<Rightarrow> rstr option \<Rightarrow> bool \<Rightarrow> nat \<Rightarrow> backfill_table"
where
  "save_room_backfill tab room token complete added =
     tab(room \<mapsto> (case tab room of
        None \<Rightarrow> \<lparr>rb_oldest_seen_token = token, rb_complete = complete, rb_events_backfilled = added,
           rb_consecutive_failures = 0, rb_last_failure = None, rb_retry_at = None, rb_parked = False,
           rb_token_rejections = 0\<rparr>
      | Some r \<Rightarrow> r\<lparr>rb_oldest_seen_token := token, rb_complete := complete,
           rb_events_backfilled := rb_events_backfilled r + added,
           rb_consecutive_failures := 0, rb_last_failure := None, rb_retry_at := None, rb_parked := False\<rparr>))"

definition record_room_backfill_failure ::
  "backfill_table \<Rightarrow> instant \<Rightarrow> rstr \<Rightarrow> room_backfill_failure \<Rightarrow> backfill_table"
where
  "record_room_backfill_failure tab now room f =
     tab(room \<mapsto> (case tab room of
        None \<Rightarrow> \<lparr>rb_oldest_seen_token = None, rb_complete = False, rb_events_backfilled = 0,
           rb_consecutive_failures = 1, rb_last_failure = Some (bf_kind f),
           rb_retry_at = Some (now + bf_retry_after f), rb_parked = bf_parked f,
           rb_token_rejections = (if bf_clear_token f then 1 else 0)\<rparr>
      | Some r \<Rightarrow> r\<lparr>rb_consecutive_failures := rb_consecutive_failures r + 1,
           rb_last_failure := Some (bf_kind f), rb_retry_at := Some (now + bf_retry_after f),
           rb_parked := bf_parked f,
           rb_token_rejections := rb_token_rejections r + (if bf_clear_token f then 1 else 0),
           rb_oldest_seen_token := (if bf_clear_token f then None else rb_oldest_seen_token r)\<rparr>))"

definition clear_room_backfill_failures :: "backfill_table \<Rightarrow> rstr \<Rightarrow> backfill_table" where
  "clear_room_backfill_failures tab room =
     (case tab room of
        None \<Rightarrow> tab
      | Some r \<Rightarrow> tab(room \<mapsto> r\<lparr>rb_consecutive_failures := 0, rb_last_failure := None, rb_retry_at := None,
           rb_parked := False\<rparr>))"

definition delete_room_backfill :: "backfill_table \<Rightarrow> rstr \<Rightarrow> backfill_table" where
  "delete_room_backfill tab room = tab(room := None)"

section \<open>Failures\<close>

definition RETRY_BASE :: duration where
  "RETRY_BASE = from_secs 60"

definition RETRY_MAX :: duration where
  "RETRY_MAX = from_secs (60 * 60)"

definition PARK_AFTER :: nat where
  "PARK_AFTER = 5"

definition PARK_FOR :: duration where
  "PARK_FOR = from_secs (24 * 60 * 60)"

primrec failure_as_str :: "page_failure \<Rightarrow> rstr" where
  "failure_as_str PfRejected = lit ''rejected''"
| "failure_as_str PfInaccessible = lit ''inaccessible''"
| "failure_as_str PfRetryable = lit ''retryable''"

definition of_status :: "nat option \<Rightarrow> bool \<Rightarrow> page_failure" where
  "of_status status had_token =
     (if status = Some 400 \<and> had_token then PfRejected
      else if status = Some 403 \<or> status = Some 404 then PfInaccessible
      else PfRetryable)"

definition saturating_i32 :: "nat \<Rightarrow> nat" where
  "saturating_i32 n = min n (2 ^ 31 - 1)"

definition retry_delay :: "nat \<Rightarrow> duration" where
  "retry_delay failures = min (saturating_mul RETRY_BASE (2 ^ min (failures - 1) 16)) RETRY_MAX"

definition failure_record :: "page_failure \<Rightarrow> nat \<Rightarrow> nat \<Rightarrow> room_backfill_failure" where
  "failure_record failure prior prior_rejections =
     (let failures = saturating_i32 (prior + 1);
          (retry_after, parked, clear_token) =
            (case failure of
               PfRejected \<Rightarrow> if 0 < prior_rejections then (PARK_FOR, True, True) else (0, False, True)
             | PfInaccessible \<Rightarrow> (PARK_FOR, True, False)
             | PfRetryable \<Rightarrow> if PARK_AFTER \<le> failures then (PARK_FOR, True, False)
                 else (retry_delay failures, False, False))
      in \<lparr>bf_kind = failure_as_str failure, bf_retry_after = retry_after, bf_parked = parked,
          bf_clear_token = clear_token\<rparr>)"

section \<open>Disk space\<close>

text \<open>\<open>bp_percent_low\<close> is the comparison of the floating-point percentage of free space with its limit, on the
  free and the total bytes.\<close>

record backfill_params =
  bp_target_depth :: nat
  bp_min_free_bytes :: nat
  bp_percent_low :: "nat \<Rightarrow> nat \<Rightarrow> bool"

text \<open>Given the free and total bytes of the guarded file system, or \<open>None\<close> when it cannot be read: whether
  paging may go on, and the new value of the paused flag.\<close>

definition disk_ok :: "backfill_params \<Rightarrow> (nat \<times> nat) option \<Rightarrow> bool \<times> bool" where
  "disk_ok params stat =
     (let paused = (case stat of
          None \<Rightarrow> False
        | Some (free, all) \<Rightarrow> free < bp_min_free_bytes params \<or> bp_percent_low params free all)
      in (\<not> paused, paused))"

section \<open>One page\<close>

datatype 'e fetch = FetchCancelled | FetchPage "'e list" "rstr option" | FetchHomeserver "nat option" | FetchTimedOut

datatype page_outcome = Paged | Idle | PageFailed page_failure | Abandoned

text \<open>What becomes of one event handed to \<^verbatim>\<open>persist_backfilled_event\<close>, and of the write of the cursor, which
  may be committed without an answer.\<close>

datatype event_outcome = EvStored | EvDeparted | EvUnreadable | EvStoreError

datatype write_outcome = Written | WrittenUnanswered | NotWritten

record 'e attempt =
  at_now :: instant
  at_cancelled :: bool
  at_disk :: "(nat \<times> nat) option"
  at_fetch :: "rstr option \<Rightarrow> 'e fetch"
  at_event :: "nat \<Rightarrow> event_outcome"
  at_cancel_after :: "nat option"
  at_save :: write_outcome
  at_clear_ok :: bool
  at_record_ok :: bool

record 'e world =
  wd_table :: backfill_table
  wd_persisted :: "(rstr \<times> 'e) list"
  wd_requests :: "(rstr \<times> rstr option \<times> instant) list"
  wd_paused :: bool

definition persist_backfilled_event :: "rstr \<Rightarrow> event_outcome \<Rightarrow> 'e \<Rightarrow> 'e world \<Rightarrow> 'e world" where
  "persist_backfilled_event room outcome e w =
     (case outcome of
        EvDeparted \<Rightarrow> w
      | EvUnreadable \<Rightarrow> w
      | EvStoreError \<Rightarrow> w
      | EvStored \<Rightarrow> w\<lparr>wd_persisted := wd_persisted w @ [(room, e)]\<rparr>)"

text \<open>The loop over the events of a page, from the \<open>i\<close>th on; cancellation is tested before each.\<close>

fun persist_page ::
  "rstr \<Rightarrow> (nat \<Rightarrow> event_outcome) \<Rightarrow> nat option \<Rightarrow> nat \<Rightarrow> 'e list \<Rightarrow> 'e world \<Rightarrow> bool \<times> 'e world"
where
  "persist_page room outcome cancel_after i [] w = (True, w)"
| "persist_page room outcome cancel_after i (e # events) w =
     (if (case cancel_after of Some k \<Rightarrow> k \<le> i | None \<Rightarrow> False) then (False, w)
      else persist_page room outcome cancel_after (Suc i) events (persist_backfilled_event room (outcome i) e w))"

definition backfill_room_page ::
  "backfill_params \<Rightarrow> rstr \<Rightarrow> room_backfill_state option \<Rightarrow> 'e attempt \<Rightarrow> 'e world \<Rightarrow> page_outcome \<times> 'e world"
where
  "backfill_room_page params room state a w =
     (let (from_token, complete, num, failing) =
        (case state of
           Some s \<Rightarrow> (bs_oldest_seen_token s, bs_complete s, bs_events_backfilled s,
             bs_parked s \<or> 0 < bs_consecutive_failures s)
         | None \<Rightarrow> (None, False, 0, False))
      in if complete then (Idle, w)
         else if bp_target_depth params \<noteq> 0 \<and> bp_target_depth params \<le> num
         then (Idle, if failing \<and> at_clear_ok a
                     then w\<lparr>wd_table := clear_room_backfill_failures (wd_table w) room\<rparr> else w)
         else
           let w1 = w\<lparr>wd_requests := wd_requests w @ [(room, from_token, at_now a)]\<rparr>
           in case at_fetch a from_token of
                FetchCancelled \<Rightarrow> (Abandoned, w1)
              | FetchHomeserver status \<Rightarrow> (PageFailed (of_status status (from_token \<noteq> None)), w1)
              | FetchTimedOut \<Rightarrow> (PageFailed PfRetryable, w1)
              | FetchPage events e \<Rightarrow>
                  (case persist_page room (at_event a) (at_cancel_after a) 0 events w1 of
                     (False, w2) \<Rightarrow> (Abandoned, w2)
                   | (True, w2) \<Rightarrow>
                       (let w3 = w2\<lparr>wd_table := save_room_backfill (wd_table w2) room e (e = None) (length events)\<rparr>
                        in case at_save a of
                             NotWritten \<Rightarrow> (Abandoned, w2)
                           | WrittenUnanswered \<Rightarrow> (Abandoned, w3)
                           | Written \<Rightarrow> (if events \<noteq> [] then Paged else Idle, w3))))"

definition record_failure ::
  "rstr \<Rightarrow> room_backfill_state option \<Rightarrow> page_failure \<Rightarrow> 'e attempt \<Rightarrow> 'e world \<Rightarrow> 'e world"
where
  "record_failure room state failure a w =
     (let prior = (case state of None \<Rightarrow> 0 | Some s \<Rightarrow> bs_consecutive_failures s);
          prior_rejections = (case state of None \<Rightarrow> 0 | Some s \<Rightarrow> bs_token_rejections s);
          r = failure_record failure prior prior_rejections
      in if at_record_ok a
         then w\<lparr>wd_table := record_room_backfill_failure (wd_table w) (at_now a) room r\<rparr> else w)"

section \<open>One sweep\<close>

text \<open>The loop over the joined rooms, each with its attempt. \<open>cursors\<close> was read at the start of the sweep;
  the result says whether anything advanced, or that the task was cancelled.\<close>

datatype sweep_end = SweepCancelled | SweepDone bool

fun sweep_rooms ::
  "backfill_params \<Rightarrow> (rstr \<Rightarrow> room_backfill_state option) \<Rightarrow> (rstr \<times> 'e attempt) list \<Rightarrow> bool \<Rightarrow> 'e world \<Rightarrow>
   sweep_end \<times> 'e world"
where
  "sweep_rooms params cursors [] progressed w = (SweepDone progressed, w)"
| "sweep_rooms params cursors ((room, a) # rooms) progressed w =
     (if at_cancelled a then (SweepCancelled, w)
      else
        let state = cursors room
        in if (case state of Some s \<Rightarrow> bs_complete s | None \<Rightarrow> False)
           then sweep_rooms params cursors rooms progressed w
           else if (case state of Some s \<Rightarrow> \<not> bs_retry_due s | None \<Rightarrow> False)
           then sweep_rooms params cursors rooms progressed w
           else
             let (ok, paused) = disk_ok params (at_disk a);
                 w1 = w\<lparr>wd_paused := paused\<rparr>
             in if \<not> ok then (SweepDone progressed, w1)
                else case backfill_room_page params room state a w1 of
                       (Paged, w2) \<Rightarrow> sweep_rooms params cursors rooms True w2
                     | (Idle, w2) \<Rightarrow> sweep_rooms params cursors rooms progressed w2
                     | (Abandoned, w2) \<Rightarrow> sweep_rooms params cursors rooms progressed w2
                     | (PageFailed failure, w2) \<Rightarrow>
                         sweep_rooms params cursors rooms progressed (record_failure room state failure a w2))"

text \<open>One round of \<^verbatim>\<open>run\<close>: the cursors are listed at \<open>now\<close>; when that fails the sweep is skipped.\<close>

definition backfill_round ::
  "backfill_params \<Rightarrow> bool \<Rightarrow> instant \<Rightarrow> (rstr \<times> 'e attempt) list \<Rightarrow> 'e world \<Rightarrow> sweep_end \<times> 'e world"
where
  "backfill_round params listed now rooms w =
     (if \<not> listed then (SweepDone False, w)
      else sweep_rooms params (list_room_backfill (wd_table w) now) rooms False w)"

definition world_new :: "'e world" where
  "world_new = \<lparr>wd_table = (\<lambda>_. None), wd_persisted = [], wd_requests = [], wd_paused = False\<rparr>"

section \<open>No gaps\<close>

text \<open>
  The history of a room from its start: \<open>event i\<close> for each position \<open>i\<close>. A token stands for a position.
  An honest answer to a request holds the events from the position of the request down to the
  position of the token it returns, and returns no token exactly at the start of the room; a request
  without a token starts at or after \<open>live\<close>, the end of the history when backfill began.
\<close>

record 'e history =
  hs_event :: "nat \<Rightarrow> 'e"
  hs_pos :: "rstr \<Rightarrow> nat"
  hs_live :: nat

definition end_pos :: "'e history \<Rightarrow> rstr option \<Rightarrow> nat" where
  "end_pos h e = (case e of None \<Rightarrow> 0 | Some t \<Rightarrow> hs_pos h t)"

definition honest_page :: "'e history \<Rightarrow> rstr option \<Rightarrow> 'e list \<Rightarrow> rstr option \<Rightarrow> bool" where
  "honest_page h from events e \<longleftrightarrow>
     (\<exists>p. (case from of None \<Rightarrow> hs_live h \<le> p | Some t \<Rightarrow> p = hs_pos h t) \<and>
          end_pos h e \<le> p \<and> set events = hs_event h ` {end_pos h e..<p})"

definition honest_attempt :: "'e history \<Rightarrow> 'e attempt \<Rightarrow> bool" where
  "honest_attempt h a \<longleftrightarrow> (\<forall>from events e. at_fetch a from = FetchPage events e \<longrightarrow> honest_page h from events e)"

text \<open>An attempt whose answer holds the event, and in which storing it was skipped or failed.\<close>

definition drops_event :: "'e attempt \<Rightarrow> 'e \<Rightarrow> bool" where
  "drops_event a e \<longleftrightarrow> (\<exists>tok events end_token i. at_fetch a tok = FetchPage events end_token \<and>
     i < length events \<and> events ! i = e \<and> at_event a i \<noteq> EvStored)"

definition dealt_with :: "(rstr \<times> 'e attempt) set \<Rightarrow> rstr \<Rightarrow> 'e world \<Rightarrow> 'e \<Rightarrow> bool" where
  "dealt_with A room w e \<longleftrightarrow> (room, e) \<in> set (wd_persisted w) \<or> (\<exists>a. (room, a) \<in> A \<and> drops_event a e)"

definition covered :: "(rstr \<times> 'e attempt) set \<Rightarrow> 'e history \<Rightarrow> rstr \<Rightarrow> nat \<Rightarrow> 'e world \<Rightarrow> bool" where
  "covered A h room k w \<longleftrightarrow> (\<forall>i. k \<le> i \<and> i < hs_live h \<longrightarrow> dealt_with A room w (hs_event h i))"

definition gap_free :: "(rstr \<times> 'e attempt) set \<Rightarrow> 'e history \<Rightarrow> rstr \<Rightarrow> 'e world \<Rightarrow> bool" where
  "gap_free A h room w =
     (case wd_table w room of
        None \<Rightarrow> True
      | Some r \<Rightarrow>
          if rb_complete r then covered A h room 0 w
          else case rb_oldest_seen_token r of None \<Rightarrow> True | Some t \<Rightarrow> covered A h room (hs_pos h t) w)"

text \<open>What one page may do to the world: nothing, clear the failures of a capped room, log the request and
  persist part of the page, or persist the whole page and save the cursor.\<close>

definition state_token :: "room_backfill_state option \<Rightarrow> rstr option" where
  "state_token state = (case state of None \<Rightarrow> None | Some s \<Rightarrow> bs_oldest_seen_token s)"

text \<open>The stored events of the first \<open>n\<close> of a page.\<close>

definition stored :: "(nat \<Rightarrow> event_outcome) \<Rightarrow> nat \<Rightarrow> 'e list \<Rightarrow> 'e list" where
  "stored outcome i events = map snd (filter (\<lambda>(j, _). outcome j = EvStored) (enumerate i events))"

definition asked :: "rstr \<Rightarrow> room_backfill_state option \<Rightarrow> 'e attempt \<Rightarrow> 'e list \<Rightarrow> 'e world \<Rightarrow> 'e world" where
  "asked room state a xs w =
     w\<lparr>wd_requests := wd_requests w @ [(room, state_token state, at_now a)],
       wd_persisted := wd_persisted w @ map (Pair room) (stored (at_event a) 0 xs)\<rparr>"

lemma asked_sel [simp]:
  "wd_table (asked room state a xs w) = wd_table w"
  "wd_persisted (asked room state a xs w) = wd_persisted w @ map (Pair room) (stored (at_event a) 0 xs)"
  "wd_requests (asked room state a xs w) = wd_requests w @ [(room, state_token state, at_now a)]"
  by (simp_all add: asked_def)

lemma stored_Nil [simp]: "stored outcome i [] = []"
  by (simp add: stored_def)

lemma stored_Cons: "stored outcome i (e # es) = (if outcome i = EvStored then [e] else []) @ stored outcome (Suc i) es"
  by (simp add: stored_def)

lemma persist_page_stored:
  "persist_page room outcome c i es w =
     (let cut = (case c of Some k \<Rightarrow> k < i + length es \<and> es \<noteq> [] | None \<Rightarrow> False);
          xs = (if cut then take (the c - i) es else es)
      in (\<not> cut, w\<lparr>wd_persisted := wd_persisted w @ map (Pair room) (stored outcome i xs)\<rparr>))"
proof (induction es arbitrary: i w)
  case (Cons e es)
  then show ?case
    by (cases c; cases "outcome i")
      (auto simp: stored_Cons persist_backfilled_event_def Let_def take_Cons' Suc_diff_le
        split: if_splits nat_diff_split)
qed (simp add: Let_def split: option.split)

lemma stored_or_dropped:
  assumes "at_fetch a tok = FetchPage xs e" "x \<in> set xs"
  shows "x \<in> set (stored (at_event a) 0 xs) \<or> drops_event a x"
proof -
  obtain i where i: "i < length xs" "xs ! i = x"
    using assms(2) by (auto simp: in_set_conv_nth)
  show ?thesis
  proof (cases "at_event a i = EvStored")
    case True
    have "(i, x) \<in> set (enumerate 0 xs)"
      using i by (auto simp: in_set_enumerate_eq)
    with True show ?thesis
      unfolding stored_def by force
  next
    case False
    with assms(1) i show ?thesis
      unfolding drops_event_def by blast
  qed
qed

lemma backfill_room_page_none:
  "backfill_room_page params room state a w = (Idle, w)" if "case state of Some s \<Rightarrow> bs_complete s | None \<Rightarrow> False"
  using that by (cases state) (simp_all add: backfill_room_page_def)

definition at_cap :: "backfill_params \<Rightarrow> room_backfill_state option \<Rightarrow> bool" where
  "at_cap params state \<longleftrightarrow> bp_target_depth params \<noteq> 0 \<and>
     bp_target_depth params \<le> (case state of None \<Rightarrow> 0 | Some s \<Rightarrow> bs_events_backfilled s)"

definition page_answer :: "rstr \<Rightarrow> room_backfill_state option \<Rightarrow> 'e attempt \<Rightarrow> 'e world \<Rightarrow> page_outcome \<times> 'e world" where
  "page_answer room state a w =
     (case at_fetch a (state_token state) of
        FetchCancelled \<Rightarrow> (Abandoned, asked room state a [] w)
      | FetchHomeserver status \<Rightarrow> (PageFailed (of_status status (state_token state \<noteq> None)), asked room state a [] w)
      | FetchTimedOut \<Rightarrow> (PageFailed PfRetryable, asked room state a [] w)
      | FetchPage events e \<Rightarrow>
          (if (case at_cancel_after a of Some k \<Rightarrow> k < length events | None \<Rightarrow> False)
           then (Abandoned, asked room state a (take (the (at_cancel_after a)) events) w)
           else if at_save a = NotWritten then (Abandoned, asked room state a events w)
           else (if at_save a = WrittenUnanswered then Abandoned else if events \<noteq> [] then Paged else Idle,
                 (asked room state a events w)
                   \<lparr>wd_table := save_room_backfill (wd_table w) room e (e = None) (length events)\<rparr>)))"

lemma backfill_room_page_asks:
  assumes "\<not> (case state of Some s \<Rightarrow> bs_complete s | None \<Rightarrow> False)" "\<not> at_cap params state"
  shows "backfill_room_page params room state a w = page_answer room state a w"
  using assms
  by (cases state; cases "at_cancel_after a")
     (auto simp: backfill_room_page_def page_answer_def asked_def state_token_def at_cap_def persist_page_stored Let_def
       split: fetch.split write_outcome.split)

lemma backfill_room_page_capped:
  assumes "\<not> (case state of Some s \<Rightarrow> bs_complete s | None \<Rightarrow> False)" "at_cap params state"
  shows "backfill_room_page params room state a w = (Idle, w) \<or>
    backfill_room_page params room state a w = (Idle, w\<lparr>wd_table := clear_room_backfill_failures (wd_table w) room\<rparr>)"
proof (cases state)
  case None
  with assms show ?thesis by (auto simp: at_cap_def)
next
  case (Some s)
  with assms show ?thesis by (simp add: backfill_room_page_def at_cap_def Let_def)
qed

lemma page_cases:
  obtains (same) "snd (backfill_room_page params room state a w) = w"
  | (cleared) "snd (backfill_room_page params room state a w) =
      w\<lparr>wd_table := clear_room_backfill_failures (wd_table w) room\<rparr>"
  | (asked) xs where "snd (backfill_room_page params room state a w) = asked room state a xs w"
  | (saved) xs e where "at_fetch a (state_token state) = FetchPage xs e"
      "snd (backfill_room_page params room state a w) =
        (asked room state a xs w)\<lparr>wd_table := save_room_backfill (wd_table w) room e (e = None) (length xs)\<rparr>"
proof (cases "case state of Some s \<Rightarrow> bs_complete s | None \<Rightarrow> False")
  case True
  then show ?thesis by (simp add: backfill_room_page_none same)
next
  case complete: False
  show ?thesis
  proof (cases "at_cap params state")
    case True
    then show ?thesis using backfill_room_page_capped [OF complete True, of room a w] same cleared by auto
  next
    case False
    note eq = backfill_room_page_asks [OF complete False, of room a w]
    show ?thesis
    proof (cases "at_fetch a (state_token state)")
      case (FetchPage xs e)
      show ?thesis
        using FetchPage eq saved [of xs e] asked
        by (simp add: page_answer_def split: if_splits)
    qed (use eq asked in \<open>simp_all add: page_answer_def\<close>)
  qed
qed

text \<open>A page and its bookkeeping touch the row of their room only, and only add to what is persisted.\<close>

definition extends :: "rstr \<Rightarrow> 'e world \<Rightarrow> 'e world \<Rightarrow> bool" where
  "extends room w w' \<longleftrightarrow> (\<forall>x. x \<noteq> room \<longrightarrow> wd_table w' x = wd_table w x) \<and>
     set (wd_persisted w) \<subseteq> set (wd_persisted w')"

lemma extends_trans: "extends room w w1 \<Longrightarrow> extends room w1 w2 \<Longrightarrow> extends room w w2"
  by (auto simp: extends_def)

lemma dealt_with_mono:
  "dealt_with A room w e \<Longrightarrow> set (wd_persisted w) \<subseteq> set (wd_persisted w') \<Longrightarrow> dealt_with A room w' e"
  by (auto simp: dealt_with_def)

lemma covered_mono:
  "covered A h room k w \<Longrightarrow> k \<le> k' \<Longrightarrow> set (wd_persisted w) \<subseteq> set (wd_persisted w') \<Longrightarrow> covered A h room k' w'"
  unfolding covered_def by (meson dealt_with_mono le_trans)

text \<open>A row may be forgotten, lose its token or keep what it says.\<close>

lemma gap_free_mono:
  assumes "gap_free A h room w" "set (wd_persisted w) \<subseteq> set (wd_persisted w')"
    and "\<And>r'. wd_table w' room = Some r' \<Longrightarrow> \<not> rb_complete r' \<and> rb_oldest_seen_token r' = None \<or>
      (\<exists>r. wd_table w room = Some r \<and> rb_complete r' = rb_complete r \<and>
         (rb_oldest_seen_token r' = rb_oldest_seen_token r \<or> rb_oldest_seen_token r' = None))"
  shows "gap_free A h room w'"
proof (cases "wd_table w' room")
  case (Some r')
  note mono = covered_mono [OF _ order_refl assms(2)]
  from assms(3) [OF Some] show ?thesis
  proof (elim disjE exE conjE)
    fix r assume r: "wd_table w room = Some r" "rb_complete r' = rb_complete r"
      "rb_oldest_seen_token r' = rb_oldest_seen_token r"
    with assms(1) show ?thesis
      using mono by (simp add: gap_free_def Some split: if_splits option.splits)
  next
    fix r assume r: "wd_table w room = Some r" "rb_complete r' = rb_complete r" "rb_oldest_seen_token r' = None"
    with assms(1) show ?thesis
      using mono by (simp add: gap_free_def Some split: if_splits)
  qed (simp add: gap_free_def Some)
qed (simp add: gap_free_def)

lemma extends_other:
  assumes "extends room w w'" "x \<noteq> room" "gap_free A h x w"
  shows "gap_free A h x w'"
proof -
  have "wd_table w' x = wd_table w x" "set (wd_persisted w) \<subseteq> set (wd_persisted w')"
    using assms(1,2) by (simp_all add: extends_def)
  then show ?thesis
    by (intro gap_free_mono [OF assms(3)]) metis+
qed

lemma clear_failures_other: "x \<noteq> room \<Longrightarrow> clear_room_backfill_failures tab room x = tab x"
  by (simp add: clear_room_backfill_failures_def split: option.split)

lemma backfill_room_page_extends: "extends room w (snd (backfill_room_page params room state a w))"
  by (cases rule: page_cases [of params room state a w])
     (auto simp: extends_def clear_failures_other save_room_backfill_def)

lemma record_failure_extends: "extends room w (record_failure room state failure a w)"
  by (simp add: record_failure_def extends_def record_room_backfill_failure_def Let_def)

lemma covered_page:
  assumes "honest_page h from xs e" "\<And>t. from = Some t \<Longrightarrow> covered A h room (hs_pos h t) w"
    and "wd_persisted w' = wd_persisted w @ map (Pair room) (stored (at_event a) 0 xs)"
    and "at_fetch a from = FetchPage xs e" "(room, a) \<in> A"
  shows "covered A h room (end_pos h e) w'"
  unfolding covered_def
proof (intro allI impI)
  fix i assume i: "end_pos h e \<le> i \<and> i < hs_live h"
  obtain p where p: "case from of None \<Rightarrow> hs_live h \<le> p | Some t \<Rightarrow> p = hs_pos h t" "set xs = hs_event h ` {end_pos h e..<p}"
    using assms(1) by (auto simp: honest_page_def)
  show "dealt_with A room w' (hs_event h i)"
  proof (cases "i < p")
    case True
    with i p(2) have "hs_event h i \<in> set xs" by simp
    from stored_or_dropped [OF assms(4) this] show ?thesis
      using assms(5) by (auto simp: assms(3) dealt_with_def)
  next
    case False
    with p(1) i obtain t where t: "from = Some t" "p = hs_pos h t" by (cases "from") auto
    with False i assms(2) [OF t(1)] have "dealt_with A room w (hs_event h i)" by (simp add: covered_def)
    then show ?thesis by (rule dealt_with_mono) (simp add: assms(3))
  qed
qed

lemma gap_free_paused [simp]: "gap_free A h x (w\<lparr>wd_paused := b\<rparr>) = gap_free A h x w"
  by (simp add: gap_free_def covered_def dealt_with_def split: option.split)

lemma gap_free_token:
  assumes "gap_free A h room w" "wd_table w room = Some r" "rb_oldest_seen_token r = Some t"
  shows "covered A h room (hs_pos h t) w"
  using assms by (auto simp: gap_free_def intro: covered_mono split: if_splits)

lemma gap_free_saved:
  assumes "wd_table w room = Some r" "rb_oldest_seen_token r = e" "rb_complete r = (e = None)"
    and "covered A h room (end_pos h e) w"
  shows "gap_free A h room w"
  using assms by (cases e) (auto simp: gap_free_def end_pos_def)

lemma page_gap_free:
  assumes honest: "honest_attempt h a" "(room, a) \<in> A" and gf: "gap_free A h room w"
    and state: "state = map_option (state_of_row now) (wd_table w room)"
  shows "gap_free A h room (snd (backfill_room_page params room state a w))"
proof (cases rule: page_cases [of params room state a w])
  case same
  with gf show ?thesis by simp
next
  case cleared
  then show ?thesis
    by (intro gap_free_mono [OF gf]) (auto simp: clear_room_backfill_failures_def split: option.splits)
next
  case (asked xs)
  then show ?thesis
    by (intro gap_free_mono [OF gf]) auto
next
  case (saved xs e)
  let ?w = "snd (backfill_room_page params room state a w)"
  have page: "honest_page h (state_token state) xs e"
    using honest saved(1) by (simp add: honest_attempt_def)
  have before: "covered A h room (hs_pos h t) w" if "state_token state = Some t" for t
    using that gap_free_token [OF gf] state
    by (cases "wd_table w room") (simp_all add: state_token_def state_of_row_def)
  have "covered A h room (end_pos h e) ?w"
    by (rule covered_page [OF page before _ saved(1) honest(2)]) (simp_all add: saved(2))
  moreover obtain r where "wd_table ?w room = Some r" "rb_oldest_seen_token r = e" "rb_complete r = (e = None)"
    by (cases "wd_table w room") (simp_all add: saved(2) save_room_backfill_def)
  ultimately show ?thesis by (rule gap_free_saved [rotated 3])
qed

lemma record_failure_gap_free: "gap_free A h room w \<Longrightarrow> gap_free A h room (record_failure room state failure a w)"
  by (rule gap_free_mono)
     (auto simp: record_failure_def record_room_backfill_failure_def Let_def split: option.splits if_splits)

section \<open>Sweeps\<close>

text \<open>One room's turn, and the sweep as turns in sequence.\<close>

definition room_turn ::
  "backfill_params \<Rightarrow> rstr \<Rightarrow> room_backfill_state option \<Rightarrow> 'e attempt \<Rightarrow> 'e world \<Rightarrow> 'e world"
where
  "room_turn params room state a w =
     (case backfill_room_page params room state a w of
        (PageFailed failure, w2) \<Rightarrow> record_failure room state failure a w2
      | (_, w2) \<Rightarrow> w2)"

lemma room_turn_extends: "extends room w (room_turn params room state a w)"
  using backfill_room_page_extends [of room w params state a]
  by (auto simp: room_turn_def split: prod.split page_outcome.split intro: extends_trans record_failure_extends)

lemma room_turn_gap_free:
  assumes "honest_attempt h a" "(room, a) \<in> A" "gap_free A h room w"
    "state = map_option (state_of_row now) (wd_table w room)"
  shows "gap_free A h room (room_turn params room state a w)"
  using page_gap_free [OF assms, of params]
  by (auto simp: room_turn_def split: prod.split page_outcome.split intro: record_failure_gap_free)

definition turn_due :: "backfill_params \<Rightarrow> room_backfill_state option \<Rightarrow> bool" where
  "turn_due params state = (case state of None \<Rightarrow> True | Some s \<Rightarrow> \<not> bs_complete s \<and> bs_retry_due s)"

lemma sweep_rooms_step:
  "\<exists>p. snd (sweep_rooms params cursors ((room, a) # rooms) progressed w) = w \<or>
     snd (sweep_rooms params cursors ((room, a) # rooms) progressed w) = snd (sweep_rooms params cursors rooms p w) \<or>
     snd (sweep_rooms params cursors ((room, a) # rooms) progressed w) = w\<lparr>wd_paused := True\<rparr> \<or>
     (\<not> at_cancelled a \<and> turn_due params (cursors room) \<and> fst (disk_ok params (at_disk a)) \<and>
      snd (sweep_rooms params cursors ((room, a) # rooms) progressed w) =
        snd (sweep_rooms params cursors rooms p (room_turn params room (cursors room) a (w\<lparr>wd_paused := False\<rparr>))))"
proof (cases "at_cancelled a \<or> \<not> turn_due params (cursors room)")
  case True
  then show ?thesis by (cases "cursors room") (auto simp: turn_due_def Let_def)
next
  case False
  then have due: "\<not> at_cancelled a" "turn_due params (cursors room)" by simp_all
  show ?thesis
  proof (cases "fst (disk_ok params (at_disk a))")
    case False
    with due show ?thesis
      by (cases "cursors room") (auto simp: turn_due_def disk_ok_def Let_def)
  next
    case True
    then have ok: "disk_ok params (at_disk a) = (True, False)" by (simp add: disk_ok_def Let_def)
    show ?thesis
      using due ok
      by (cases "cursors room"; cases "backfill_room_page params room (cursors room) a (w\<lparr>wd_paused := False\<rparr>)")
         (auto simp: turn_due_def room_turn_def split: page_outcome.split)
  qed
qed

lemma room_turn_other: "x \<noteq> room \<Longrightarrow> wd_table (room_turn params room state a w) x = wd_table w x"
  using room_turn_extends [of room w params state a] by (simp add: extends_def)

text \<open>Induction over a sweep: the cursors read at its start still describe the rooms to come.\<close>

lemma sweep_rooms_invariant:
  assumes "distinct (map fst rooms)" "\<forall>room \<in> fst ` set rooms. cursors room = map_option (state_of_row now) (wd_table w room)"
    and "P w" "\<And>w b. P w \<Longrightarrow> P (w\<lparr>wd_paused := b\<rparr>)"
    and "\<And>room a w. (room, a) \<in> set rooms \<Longrightarrow> P w \<Longrightarrow> cursors room = map_option (state_of_row now) (wd_table w room) \<Longrightarrow>
      turn_due params (cursors room) \<Longrightarrow> P (room_turn params room (cursors room) a w)"
  shows "P (snd (sweep_rooms params cursors rooms progressed w))"
  using assms
proof (induction rooms arbitrary: progressed w)
  case Nil
  then show ?case by simp
next
  case (Cons ra rooms)
  obtain room a where ra: "ra = (room, a)" by (cases ra)
  let ?w = "room_turn params room (cursors room) a (w\<lparr>wd_paused := False\<rparr>)"
  have IH: "P (snd (sweep_rooms params cursors rooms p v))"
    if "P v" "\<forall>room \<in> fst ` set rooms. cursors room = map_option (state_of_row now) (wd_table v room)" for p v
    by (rule Cons.IH) (use Cons.prems that in auto)
  have rest: "\<forall>x \<in> fst ` set rooms. cursors x = map_option (state_of_row now) (wd_table w x)"
    using Cons.prems(2) by simp
  have turn: "P ?w" if "turn_due params (cursors room)"
    by (rule Cons.prems(5)) (use Cons.prems that ra in auto)
  have rest': "\<forall>x \<in> fst ` set rooms. cursors x = map_option (state_of_row now) (wd_table ?w x)"
  proof
    fix x assume x: "x \<in> fst ` set rooms"
    with Cons.prems(1) ra have "x \<noteq> room" by auto
    with bspec [OF rest x] show "cursors x = map_option (state_of_row now) (wd_table ?w x)"
      by (simp add: room_turn_other)
  qed
  obtain p where "snd (sweep_rooms params cursors ((room, a) # rooms) progressed w) = w \<or>
     snd (sweep_rooms params cursors ((room, a) # rooms) progressed w) = snd (sweep_rooms params cursors rooms p w) \<or>
     snd (sweep_rooms params cursors ((room, a) # rooms) progressed w) = w\<lparr>wd_paused := True\<rparr> \<or>
     (turn_due params (cursors room) \<and>
      snd (sweep_rooms params cursors ((room, a) # rooms) progressed w) = snd (sweep_rooms params cursors rooms p ?w))"
    using sweep_rooms_step [of params cursors room a rooms progressed w] by blast
  then show ?case
    unfolding ra using Cons.prems(3,4) IH [OF _ rest] IH [OF _ rest'] turn by metis
qed

lemma backfill_round_invariant:
  assumes "distinct (map fst rooms)" "P w" "\<And>w b. P w \<Longrightarrow> P (w\<lparr>wd_paused := b\<rparr>)"
    and "\<And>room a v. (room, a) \<in> set rooms \<Longrightarrow> P v \<Longrightarrow>
      list_room_backfill (wd_table w) now room = map_option (state_of_row now) (wd_table v room) \<Longrightarrow>
      turn_due params (list_room_backfill (wd_table w) now room) \<Longrightarrow>
      P (room_turn params room (list_room_backfill (wd_table w) now room) a v)"
  shows "P (snd (backfill_round params listed now rooms w))"
proof (cases listed)
  case True
  have "P (snd (sweep_rooms params (list_room_backfill (wd_table w) now) rooms False w))"
    by (rule sweep_rooms_invariant [where now = now and P = P, OF assms(1) _ assms(2,3,4)])
       (simp_all add: list_room_backfill_def)
  with True show ?thesis by (simp add: backfill_round_def)
qed (simp add: backfill_round_def assms(2))

text \<open>A run of the task: rounds in sequence.\<close>

type_synonym 'e round = "bool \<times> instant \<times> (rstr \<times> 'e attempt) list"

fun backfill_run :: "backfill_params \<Rightarrow> 'e round list \<Rightarrow> 'e world \<Rightarrow> 'e world" where
  "backfill_run params [] w = w"
| "backfill_run params ((listed, now, rooms) # rounds) w =
     backfill_run params rounds (snd (backfill_round params listed now rooms w))"

lemma backfill_round_gap_free:
  assumes "distinct (map fst rooms)" "\<forall>(room, a) \<in> set rooms. honest_attempt (H room) a" "set rooms \<subseteq> A"
    and "\<forall>x. gap_free A (H x) x w"
  shows "\<forall>x. gap_free A (H x) x (snd (backfill_round params listed now rooms w))"
proof (rule backfill_round_invariant [OF assms(1)], rule assms(4))
  fix v :: "'a world" and b assume "\<forall>x. gap_free A (H x) x v"
  then show "\<forall>x. gap_free A (H x) x (v\<lparr>wd_paused := b\<rparr>)" by simp
next
  fix room a and v :: "'a world"
  let ?s = "list_room_backfill (wd_table w) now room"
  assume *: "(room, a) \<in> set rooms" "\<forall>x. gap_free A (H x) x v" "?s = map_option (state_of_row now) (wd_table v room)"
  have "honest_attempt (H room) a" "(room, a) \<in> A" using * assms(2,3) by auto
  then show "\<forall>x. gap_free A (H x) x (room_turn params room ?s a v)"
    using * room_turn_gap_free [OF _ _ _ *(3)] extends_other [OF room_turn_extends] by metis
qed

text \<open>The attempts of a run, each with its room.\<close>

definition attempts_of :: "'e round list \<Rightarrow> (rstr \<times> 'e attempt) set" where
  "attempts_of rounds = (\<Union>(listed, now, rooms) \<in> set rounds. set rooms)"

definition honest_rounds :: "(rstr \<Rightarrow> 'e history) \<Rightarrow> 'e round list \<Rightarrow> bool" where
  "honest_rounds H rounds \<longleftrightarrow>
     (\<forall>(listed, now, rooms) \<in> set rounds. distinct (map fst rooms) \<and> (\<forall>(room, a) \<in> set rooms. honest_attempt (H room) a))"

lemma backfill_run_gap_free:
  assumes "honest_rounds H rounds" "attempts_of rounds \<subseteq> A" "\<forall>x. gap_free A (H x) x w"
  shows "\<forall>x. gap_free A (H x) x (backfill_run params rounds w)"
  using assms
proof (induction rounds arbitrary: w)
  case (Cons rd rounds)
  obtain listed now rooms where rd: "rd = (listed, now, rooms)" by (cases rd)
  have rd_ok: "distinct (map fst rooms)" "\<forall>(room, a) \<in> set rooms. honest_attempt (H room) a" "set rooms \<subseteq> A"
    and rest: "honest_rounds H rounds" "attempts_of rounds \<subseteq> A"
    using Cons.prems(1,2) by (auto simp: rd honest_rounds_def attempts_of_def)
  show ?case
    unfolding rd backfill_run.simps
    by (rule Cons.IH [OF rest backfill_round_gap_free [OF rd_ok Cons.prems(3)]])
qed simp

text \<open>C13: the cursor never runs ahead of the events it was handed. Start from an empty table and let the task
  run any rounds, with requests that fail, time out, are rejected, are cut off by cancellation or by
  store errors, where every page the homeserver does serve is honest. Then every event of the history below
  the live end that the cursor of a room counts as done, from the saved token on, or from the start of the
  room when it is marked complete, is stored, or was part of a page served for the room whose turn did not
  store it, because the room was departed, the event did not decode or the store answered with an error.\<close>

theorem backfill_no_gaps:
  assumes "honest_rounds H rounds"
    and "wd_table (backfill_run params rounds world_new) room = Some r"
    and "i < hs_live (H room)"
    and "rb_complete r \<or> (\<exists>t. rb_oldest_seen_token r = Some t \<and> hs_pos (H room) t \<le> i)"
  shows "(room, hs_event (H room) i) \<in> set (wd_persisted (backfill_run params rounds world_new)) \<or>
    (\<exists>a. (room, a) \<in> attempts_of rounds \<and> drops_event a (hs_event (H room) i))"
proof -
  have "\<forall>x. gap_free (attempts_of rounds) (H x) x (backfill_run params rounds world_new)"
    by (rule backfill_run_gap_free [OF assms(1) order_refl]) (simp add: gap_free_def world_new_def)
  then have "gap_free (attempts_of rounds) (H room) room (backfill_run params rounds world_new)"
    by blast
  with assms(2-4) have "dealt_with (attempts_of rounds) room (backfill_run params rounds world_new) (hs_event (H room) i)"
    by (auto simp: gap_free_def covered_def split: if_splits option.splits)
  then show ?thesis
    by (simp add: dealt_with_def)
qed

definition demo_attempt :: "(rstr option \<Rightarrow> nat fetch) \<Rightarrow> nat attempt" where
  "demo_attempt answer = \<lparr>at_now = 0, at_cancelled = False, at_disk = None, at_fetch = answer, at_event = (\<lambda>_. EvStored),
     at_cancel_after = None, at_save = Written, at_clear_ok = True, at_record_ok = True\<rparr>"

definition demo_answer :: "rstr option \<Rightarrow> nat fetch" where
  "demo_answer from = (if from = None then FetchPage [1] (Some [9]) else if from = Some [9] then FetchPage [0] None
     else FetchTimedOut)"

definition demo_history :: "nat history" where
  "demo_history = \<lparr>hs_event = (\<lambda>i. i), hs_pos = (\<lambda>_. 1), hs_live = 2\<rparr>"

definition demo_params :: backfill_params where
  "demo_params = \<lparr>bp_target_depth = 0, bp_min_free_bytes = 0, bp_percent_low = (\<lambda>_ _. False)\<rparr>"

lemma demo_honest: "honest_attempt demo_history (demo_attempt demo_answer)"
  unfolding honest_attempt_def
proof (intro allI impI)
  fix tok events e assume "at_fetch (demo_attempt demo_answer) tok = FetchPage events e"
  then consider "tok = None" "events = [1]" "e = Some [9]" | "tok = Some [9]" "events = [0]" "e = None"
    by (auto simp: demo_attempt_def demo_answer_def split: if_splits)
  then show "honest_page demo_history tok events e"
  proof cases
    case 1
    then show ?thesis
      by (auto simp: honest_page_def demo_history_def end_pos_def intro!: exI [of _ 2])
  next
    case 2
    then show ?thesis
      by (auto simp: honest_page_def demo_history_def end_pos_def)
  qed
qed

definition demo_rounds :: "nat round list" where
  "demo_rounds = [(True, 0, [([7], demo_attempt demo_answer)]), (True, 1, [([7], demo_attempt demo_answer)])]"

lemma demo_run:
  "wd_table (backfill_run demo_params demo_rounds world_new) [7] =
     Some \<lparr>rb_oldest_seen_token = None, rb_complete = True, rb_events_backfilled = 2, rb_consecutive_failures = 0,
       rb_last_failure = None, rb_retry_at = None, rb_parked = False, rb_token_rejections = 0\<rparr>"
  by (simp add: demo_rounds_def demo_params_def demo_attempt_def demo_answer_def world_new_def backfill_round_def
      list_room_backfill_def state_of_row_def disk_ok_def backfill_room_page_def
      persist_backfilled_event_def save_room_backfill_def)

lemma demo_drops_nothing: "\<not> drops_event (demo_attempt answer) e"
  by (simp add: drops_event_def demo_attempt_def)

theorem backfill_no_gaps_witness:
  "([7], 0) \<in> set (wd_persisted (backfill_run demo_params demo_rounds world_new))"
proof -
  have "honest_rounds (\<lambda>_. demo_history) demo_rounds"
    using demo_honest by (simp add: honest_rounds_def demo_rounds_def)
  from backfill_no_gaps [OF this demo_run, of 0] show ?thesis
    using demo_drops_nothing by (auto simp: demo_history_def attempts_of_def demo_rounds_def)
qed

section \<open>Load on the homeserver\<close>

lemma room_turn_requests:
  "wd_requests (room_turn params room state a w) = wd_requests w \<or>
   \<not> at_cap params state \<and>
   wd_requests (room_turn params room state a w) = wd_requests w @ [(room, state_token state, at_now a)]"
proof -
  have same: "wd_requests (room_turn params room state a w) = wd_requests (snd (backfill_room_page params room state a w))"
    by (simp add: room_turn_def record_failure_def Let_def split: prod.split page_outcome.split)
  consider "case state of Some s \<Rightarrow> bs_complete s | None \<Rightarrow> False"
    | "\<not> (case state of Some s \<Rightarrow> bs_complete s | None \<Rightarrow> False)" "at_cap params state"
    | "\<not> (case state of Some s \<Rightarrow> bs_complete s | None \<Rightarrow> False)" "\<not> at_cap params state"
    by blast
  then show ?thesis
  proof cases
    case 1
    then show ?thesis by (simp add: same backfill_room_page_none)
  next
    case 2
    then show ?thesis using backfill_room_page_capped [OF 2, of room a w] by (auto simp: same)
  next
    case 3
    then show ?thesis
      by (simp add: same backfill_room_page_asks page_answer_def split: fetch.split)
  qed
qed

text \<open>What a sweep may ask: the requests it logs, against the cursors it read.\<close>

definition request_allowed ::
  "backfill_params \<Rightarrow> (rstr \<Rightarrow> room_backfill_state option) \<Rightarrow> (rstr \<times> 'e attempt) list \<Rightarrow> rstr \<times> rstr option \<times> instant \<Rightarrow> bool"
where
  "request_allowed params cursors rooms q =
     (case q of (room, tok, t) \<Rightarrow>
        tok = state_token (cursors room) \<and> turn_due params (cursors room) \<and> \<not> at_cap params (cursors room) \<and>
        (\<exists>a. (room, a) \<in> set rooms \<and> t = at_now a \<and> \<not> at_cancelled a \<and> fst (disk_ok params (at_disk a))))"

lemma request_allowed_mono:
  "request_allowed params cursors rooms q \<Longrightarrow> request_allowed params cursors (ra # rooms) q"
  by (auto simp: request_allowed_def)

lemma sweep_rooms_requests:
  "\<exists>reqs. wd_requests (snd (sweep_rooms params cursors rooms progressed w)) = wd_requests w @ reqs \<and>
     subseq (map fst reqs) (map fst rooms) \<and> (\<forall>q \<in> set reqs. request_allowed params cursors rooms q)"
proof (induction rooms arbitrary: progressed w)
  case (Cons ra rooms)
  obtain room a where ra: "ra = (room, a)" by (cases ra)
  let ?w = "room_turn params room (cursors room) a (w\<lparr>wd_paused := False\<rparr>)"
  let ?q = "(room, state_token (cursors room), at_now a)"
  obtain p where "wd_requests (snd (sweep_rooms params cursors (ra # rooms) progressed w)) = wd_requests w \<or>
     snd (sweep_rooms params cursors (ra # rooms) progressed w) = snd (sweep_rooms params cursors rooms p w) \<or>
     (\<not> at_cancelled a \<and> turn_due params (cursors room) \<and> fst (disk_ok params (at_disk a)) \<and>
      snd (sweep_rooms params cursors (ra # rooms) progressed w) = snd (sweep_rooms params cursors rooms p ?w))"
    using sweep_rooms_step [of params cursors room a rooms progressed w] unfolding ra by auto
  then consider
      (none) "wd_requests (snd (sweep_rooms params cursors (ra # rooms) progressed w)) = wd_requests w"
    | (skip) "snd (sweep_rooms params cursors (ra # rooms) progressed w) = snd (sweep_rooms params cursors rooms p w)"
    | (turn) "\<not> at_cancelled a" "turn_due params (cursors room)" "fst (disk_ok params (at_disk a))"
        "snd (sweep_rooms params cursors (ra # rooms) progressed w) = snd (sweep_rooms params cursors rooms p ?w)"
    by blast
  then show ?case
  proof cases
    case none
    then show ?thesis by (intro exI [of _ "[]"]) simp
  next
    case skip
    with Cons.IH [of p w] show ?thesis by (auto intro: request_allowed_mono)
  next
    case turn
    obtain reqs where reqs: "wd_requests (snd (sweep_rooms params cursors (ra # rooms) progressed w)) = wd_requests ?w @ reqs"
      "subseq (map fst reqs) (map fst rooms)" "\<forall>q \<in> set reqs. request_allowed params cursors rooms q"
      using Cons.IH [of p ?w] turn(4) by auto
    consider "wd_requests ?w = wd_requests w" | "\<not> at_cap params (cursors room)" "wd_requests ?w = wd_requests w @ [?q]"
      using room_turn_requests [of params room "cursors room" a "w\<lparr>wd_paused := False\<rparr>"] by auto
    then show ?thesis
    proof cases
      case 1
      with reqs show ?thesis by (intro exI [of _ reqs]) (auto intro: request_allowed_mono)
    next
      case 2
      have "request_allowed params cursors (ra # rooms) ?q"
        using turn 2(1) by (auto simp: request_allowed_def ra)
      with 2 reqs show ?thesis
        by (intro exI [of _ "?q # reqs"]) (auto simp: ra intro: request_allowed_mono)
    qed
  qed
qed simp

text \<open>Each round sends at most one request per joined room, in the order of the rooms, each with the token of
  the room's row. It sends none for a room that is complete, at its depth cap or whose retry time has not come,
  none while free space is low and none at all when the cursors could not be read.\<close>

theorem backfill_round_requests:
  "\<exists>reqs. wd_requests (snd (backfill_round params listed now rooms w)) = wd_requests w @ reqs \<and>
     subseq (map fst reqs) (map fst rooms) \<and> (\<not> listed \<longrightarrow> reqs = []) \<and>
     (\<forall>(room, tok, t) \<in> set reqs.
        (\<exists>a. (room, a) \<in> set rooms \<and> t = at_now a \<and> fst (disk_ok params (at_disk a))) \<and>
        (case wd_table w room of
           None \<Rightarrow> tok = None
         | Some r \<Rightarrow> tok = rb_oldest_seen_token r \<and> \<not> rb_complete r \<and>
             (\<forall>u. rb_retry_at r = Some u \<longrightarrow> u \<le> now) \<and>
             (bp_target_depth params = 0 \<or> rb_events_backfilled r < bp_target_depth params)))"
proof (cases listed)
  case True
  let ?cursors = "list_room_backfill (wd_table w) now"
  obtain reqs where reqs: "wd_requests (snd (sweep_rooms params ?cursors rooms False w)) = wd_requests w @ reqs"
    "subseq (map fst reqs) (map fst rooms)" "\<forall>q \<in> set reqs. request_allowed params ?cursors rooms q"
    using sweep_rooms_requests [of params ?cursors rooms False w] by auto
  show ?thesis
  proof (intro exI [of _ reqs] conjI ballI)
    fix q assume q: "q \<in> set reqs"
    obtain room tok t where q': "q = (room, tok, t)" by (cases q)
    show "case q of (room, tok, t) \<Rightarrow>
        (\<exists>a. (room, a) \<in> set rooms \<and> t = at_now a \<and> fst (disk_ok params (at_disk a))) \<and>
        (case wd_table w room of
           None \<Rightarrow> tok = None
         | Some r \<Rightarrow> tok = rb_oldest_seen_token r \<and> \<not> rb_complete r \<and>
             (\<forall>u. rb_retry_at r = Some u \<longrightarrow> u \<le> now) \<and>
             (bp_target_depth params = 0 \<or> rb_events_backfilled r < bp_target_depth params))"
      using bspec [OF reqs(3) q]
      by (cases "wd_table w room")
         (auto simp: q' request_allowed_def list_room_backfill_def state_token_def turn_due_def at_cap_def state_of_row_def)
  qed (use True reqs(1,2) in \<open>simp_all add: backfill_round_def\<close>)
qed (simp add: backfill_round_def)

text \<open>The delay a failure imposes: a day for a room that is refused, for the fifth failure in a row and later
  ones and for a second rejection of a token; none for the first rejection, since the room restarts from its
  live end; one minute doubled for each earlier failure otherwise.\<close>

definition backoff :: "page_failure \<Rightarrow> room_backfill_state option \<Rightarrow> duration" where
  "backoff failure state =
     (let prior = (case state of None \<Rightarrow> 0 | Some s \<Rightarrow> bs_consecutive_failures s);
          rejections = (case state of None \<Rightarrow> 0 | Some s \<Rightarrow> bs_token_rejections s)
      in case failure of
           PfInaccessible \<Rightarrow> from_secs 86400
         | PfRejected \<Rightarrow> if rejections = 0 then 0 else from_secs 86400
         | PfRetryable \<Rightarrow> if prior < 4 then from_secs (60 * 2 ^ prior) else from_secs 86400)"

lemma retry_delay_small:
  assumes "prior < 4"
  shows "retry_delay (prior + 1) = from_secs (60 * 2 ^ prior)"
proof -
  from assms have "prior = 0 \<or> prior = 1 \<or> prior = 2 \<or> prior = 3" by arith
  then show ?thesis
    by (elim disjE) (simp_all add: retry_delay_def RETRY_BASE_def RETRY_MAX_def saturating_mul_def
      from_secs_def DURATION_MAX_def)
qed

lemma failure_record_delay:
  "bf_retry_after (failure_record failure (case state of None \<Rightarrow> 0 | Some s \<Rightarrow> bs_consecutive_failures s)
     (case state of None \<Rightarrow> 0 | Some s \<Rightarrow> bs_token_rejections s)) = backoff failure state"
proof (cases failure)
  case PfRetryable
  let ?n = "case state of None \<Rightarrow> 0 | Some s \<Rightarrow> bs_consecutive_failures s"
  have "saturating_i32 (?n + 1) = ?n + 1" if "?n < 4"
    using that by (simp add: saturating_i32_def)
  moreover have "PARK_AFTER \<le> saturating_i32 (?n + 1)" if "\<not> ?n < 4"
    using that by (simp add: saturating_i32_def PARK_AFTER_def)
  ultimately show ?thesis
    using PfRetryable retry_delay_small [of ?n]
    by (cases "?n < 4") (simp_all add: failure_record_def backoff_def PARK_AFTER_def PARK_FOR_def)
qed (simp_all add: failure_record_def backoff_def PARK_FOR_def)

text \<open>A room that is not due is left alone.\<close>

definition untouched :: "rstr \<Rightarrow> 'e world \<Rightarrow> 'e world \<Rightarrow> bool" where
  "untouched room w v \<longleftrightarrow> wd_table v room = wd_table w room \<and>
     filter (\<lambda>q. fst q = room) (wd_requests v) = filter (\<lambda>q. fst q = room) (wd_requests w)"

lemma room_turn_untouched:
  "untouched room w v \<Longrightarrow> x \<noteq> room \<Longrightarrow> untouched room w (room_turn params x state a v)"
  using room_turn_requests [of params x state a v] by (auto simp: untouched_def room_turn_other)

lemma sweep_rooms_untouched:
  assumes "\<not> turn_due params (cursors room)" "untouched room w v"
  shows "untouched room w (snd (sweep_rooms params cursors rooms progressed v))"
  using assms(2)
proof (induction rooms arbitrary: progressed v)
  case (Cons ra rooms)
  obtain x a where ra: "ra = (x, a)" by (cases ra)
  have paused: "untouched room w (v\<lparr>wd_paused := b\<rparr>)" for b
    using Cons.prems by (simp add: untouched_def)
  show ?case
    using sweep_rooms_step [of params cursors x a rooms progressed v] Cons.prems paused Cons.IH assms(1)
      room_turn_untouched [OF paused, of x params "cursors x" a False]
    unfolding ra by metis
qed simp

lemma backfill_run_untouched:
  assumes "wd_table w room = Some r" "rb_retry_at r = Some until" "\<forall>(listed, u, rooms) \<in> set rounds. u < until"
    and "untouched room w v"
  shows "untouched room w (backfill_run params rounds v)"
  using assms(3,4)
proof (induction rounds arbitrary: v)
  case (Cons rd rounds)
  obtain listed u rooms where rd: "rd = (listed, u, rooms)" by (cases rd)
  have "\<not> turn_due params (list_room_backfill (wd_table v) u room)"
    using Cons.prems assms(1,2) rd by (simp add: untouched_def turn_due_def list_room_backfill_def state_of_row_def)
  then have "untouched room w (snd (backfill_round params listed u rooms v))"
    unfolding backfill_round_def using Cons.prems(2) by (simp add: sweep_rooms_untouched)
  with Cons show ?case by (simp add: rd)
qed simp

text \<open>After a failed page of a room, and as long as the time of every later round lies before the end of the
  delay that failure imposes, the room's row stays as the failure left it and the homeserver gets no request
  for the room, whatever happens to the other rooms.\<close>

theorem backfill_backs_off:
  assumes "fst (backfill_room_page params room state a w) = PageFailed failure" "at_record_ok a"
    and "\<forall>(listed, u, rooms) \<in> set rounds. u < at_now a + backoff failure state"
  shows "wd_table (backfill_run params rounds (room_turn params room state a w)) room =
      wd_table (room_turn params room state a w) room \<and>
    filter (\<lambda>q. fst q = room) (wd_requests (backfill_run params rounds (room_turn params room state a w))) =
      filter (\<lambda>q. fst q = room) (wd_requests (room_turn params room state a w))"
proof -
  let ?w = "room_turn params room state a w"
  have "?w = record_failure room state failure a (snd (backfill_room_page params room state a w))"
    using assms(1) by (cases "backfill_room_page params room state a w") (simp add: room_turn_def)
  then obtain r where "wd_table ?w room = Some r" "rb_retry_at r = Some (at_now a + backoff failure state)"
    using assms(2)
    by (cases "wd_table (snd (backfill_room_page params room state a w)) room")
       (simp_all add: record_failure_def record_room_backfill_failure_def failure_record_delay Let_def)
  then have "untouched room ?w (backfill_run params rounds ?w)"
    by (rule backfill_run_untouched) (use assms(3) in \<open>simp_all add: untouched_def\<close>)
  then show ?thesis by (simp add: untouched_def)
qed

lemma backfill_run_complete_untouched:
  assumes "wd_table w room = Some r" "rb_complete r" "untouched room w v"
  shows "untouched room w (backfill_run params rounds v)"
  using assms(3)
proof (induction rounds arbitrary: v)
  case (Cons rd rounds)
  obtain listed u rooms where rd: "rd = (listed, u, rooms)" by (cases rd)
  have "\<not> turn_due params (list_room_backfill (wd_table v) u room)"
    using Cons.prems assms(1,2) by (simp add: untouched_def turn_due_def list_room_backfill_def state_of_row_def)
  then have "untouched room w (snd (backfill_round params listed u rooms v))"
    unfolding backfill_round_def using Cons.prems by (simp add: sweep_rooms_untouched)
  with Cons show ?case by (simp add: rd)
qed simp

text \<open>C14: an event that fails to be stored is skipped for good. When the last page of a room's history is
  served and its cursor written, the room becomes complete and counts the whole page as backfilled, whatever
  became of the page's events; only those whose storing succeeded are added; and from then on no round
  requests anything for the room or changes its row.\<close>

theorem backfill_drop_is_final:
  assumes "\<not> at_cap params state" "\<not> (case state of Some s \<Rightarrow> bs_complete s | None \<Rightarrow> False)"
    and "at_fetch a (state_token state) = FetchPage events None" "at_cancel_after a = None" "at_save a \<noteq> NotWritten"
    and "w' = room_turn params room state a w"
  shows "wd_persisted w' = wd_persisted w @
      map (\<lambda>i. (room, events ! i)) (filter (\<lambda>i. at_event a i = EvStored) [0..<length events]) \<and>
    (\<exists>r. wd_table w' room = Some r \<and> rb_complete r \<and>
       rb_events_backfilled r = length events + (case wd_table w room of None \<Rightarrow> 0 | Some r0 \<Rightarrow> rb_events_backfilled r0)) \<and>
    wd_table (backfill_run params rounds w') room = wd_table w' room \<and>
    filter (\<lambda>q. fst q = room) (wd_requests (backfill_run params rounds w')) =
      filter (\<lambda>q. fst q = room) (wd_requests w')"
proof -
  have w': "w' = (asked room state a events w)
      \<lparr>wd_table := save_room_backfill (wd_table w) room None True (length events)\<rparr>"
    using assms(3-6) by (auto simp: room_turn_def backfill_room_page_asks [OF assms(2,1)] page_answer_def)
  have "zip [0..<length events] events = map (\<lambda>i. (i, events ! i)) [0..<length events]"
    by (rule nth_equalityI) simp_all
  then have stored: "stored (at_event a) 0 events =
      map (\<lambda>i. events ! i) (filter (\<lambda>i. at_event a i = EvStored) [0..<length events])"
    by (simp add: stored_def enumerate_eq_zip filter_map comp_def)
  obtain r where r: "wd_table w' room = Some r" "rb_complete r"
    "rb_events_backfilled r = length events + (case wd_table w room of None \<Rightarrow> 0 | Some r0 \<Rightarrow> rb_events_backfilled r0)"
    by (cases "wd_table w room") (simp_all add: w' save_room_backfill_def)
  have "untouched room w' (backfill_run params rounds w')"
    by (rule backfill_run_complete_untouched [OF r(1,2)]) (simp add: untouched_def)
  then show ?thesis
    using r by (simp add: untouched_def) (simp add: w' stored)
qed

definition demo_failing :: "nat attempt" where
  "demo_failing = (demo_attempt (\<lambda>_. FetchPage [1, 0] None))\<lparr>at_event := (\<lambda>i. if i = 0 then EvStored else EvStoreError)\<rparr>"

theorem backfill_drop_is_final_witness:
  "wd_persisted (room_turn demo_params [7] None demo_failing world_new) = [([7], 1)] \<and>
   wd_requests (room_turn demo_params [7] None demo_failing world_new) = [([7], None, 0)] \<and>
   filter (\<lambda>q. fst q = [7]) (wd_requests (backfill_run demo_params demo_rounds
     (room_turn demo_params [7] None demo_failing world_new))) = [([7], None, 0)]"
proof -
  have h: "\<not> at_cap demo_params None" "\<not> (case None of Some s \<Rightarrow> bs_complete s | None \<Rightarrow> False)"
    "at_fetch demo_failing (state_token None) = FetchPage [1, 0] None" "at_cancel_after demo_failing = None"
    "at_save demo_failing \<noteq> NotWritten"
    by (simp_all add: at_cap_def demo_params_def demo_failing_def demo_attempt_def)
  have "wd_requests (room_turn demo_params [7] None demo_failing world_new) = [([7], None, 0)]"
    using h by (simp add: room_turn_def backfill_room_page_asks page_answer_def world_new_def state_token_def)
      (simp add: demo_failing_def demo_attempt_def)
  with backfill_drop_is_final [OF h refl, of "[7]" world_new demo_rounds] show ?thesis
    by (simp add: world_new_def) (simp add: demo_failing_def)
qed

theorem backfill_round_requests_witness:
  "\<exists>reqs. wd_requests (snd (backfill_round demo_params True 0 [([7], demo_attempt demo_answer)] world_new)) = reqs \<and>
     subseq (map fst reqs) [[7]] \<and> (\<forall>(room, tok, t) \<in> set reqs. tok = None)"
  using backfill_round_requests [of demo_params True 0 "[([7], demo_attempt demo_answer)]" world_new]
  by (simp add: world_new_def) fast

theorem backfill_backs_off_witness:
  "filter (\<lambda>q. fst q = [7]) (wd_requests (backfill_run demo_params
       [(True, from_secs 59, [([7], demo_attempt demo_answer)])]
       (room_turn demo_params [7] None (demo_attempt (\<lambda>_. FetchTimedOut)) world_new))) = [([7], None, 0)]"
proof -
  let ?a = "demo_attempt (\<lambda>_. FetchTimedOut)"
  have page: "backfill_room_page demo_params [7] None ?a world_new =
      (PageFailed PfRetryable, world_new\<lparr>wd_requests := [([7], None, 0)]\<rparr>)"
    by (simp add: backfill_room_page_def demo_params_def demo_attempt_def world_new_def)
  have "wd_requests (room_turn demo_params [7] None ?a world_new) = [([7], None, 0)]"
    by (simp add: room_turn_def page record_failure_def Let_def)
  moreover have "at_now ?a = 0" "at_record_ok ?a" by (simp_all add: demo_attempt_def)
  ultimately show ?thesis
    using backfill_backs_off [of demo_params "[7]" None ?a world_new PfRetryable
      "[(True, from_secs 59, [([7], demo_attempt demo_answer)])]"]
    by (simp add: page backoff_def from_secs_def)
qed

end
