(* ===== verification/Media_Index.thy ===== *)
theory Media_Index
  imports Axon_Prelude "HOL-Library.AList"
begin

text \<open>
  The byte accounting of the media cache: \<^verbatim>\<open>struct Index\<close> of
  \<^verbatim>\<open>crates/axon-media/src/cache.rs\<close>.

  \<^item> The \<^verbatim>\<open>HashMap\<close> of entries is an association list, the \<^verbatim>\<open>BTreeMap\<close> from sequence numbers to keys a
    list in ascending order of the numbers.
  \<^item> Arithmetic on \<^verbatim>\<open>u64\<close> is checked: \<open>None\<close> is a panic on overflow or underflow, and on the \<^verbatim>\<open>expect\<close> of
    \<^verbatim>\<open>collect_evictions\<close>.
  \<^item> The reference is a plain list of keys with sizes, least recently used first; the theorem at the end
    says that the two bookkeeping maps implement it.
\<close>

type_synonym uuid = nat
type_synonym mkey = "uuid \<times> rstr"

definition U64_LIMIT :: nat where
  "U64_LIMIT = 2 ^ 64"

definition checked_add :: "nat \<Rightarrow> nat \<Rightarrow> nat option" where
  "checked_add a b = (if a + b < U64_LIMIT then Some (a + b) else None)"

definition checked_sub :: "nat \<Rightarrow> nat \<Rightarrow> nat option" where
  "checked_sub a b = (if b \<le> a then Some (a - b) else None)"

section \<open>The index\<close>

record entry =
  en_size :: nat
  en_seq :: nat

record media_index =
  ix_entries :: "(mkey \<times> entry) list"
  ix_order :: "(nat \<times> mkey) list"
  ix_total_bytes :: nat
  ix_next_seq :: nat

definition index_default :: media_index where
  "index_default = \<lparr>ix_entries = [], ix_order = [], ix_total_bytes = 0, ix_next_seq = 0\<rparr>"

text \<open>\<^verbatim>\<open>BTreeMap::insert\<close> and \<^verbatim>\<open>BTreeMap::remove\<close>.\<close>

fun order_insert :: "nat \<Rightarrow> mkey \<Rightarrow> (nat \<times> mkey) list \<Rightarrow> (nat \<times> mkey) list" where
  "order_insert seq k [] = [(seq, k)]"
| "order_insert seq k ((s, x) # xs) =
     (if seq < s then (seq, k) # (s, x) # xs
      else if seq = s then (seq, k) # xs
      else (s, x) # order_insert seq k xs)"

definition order_remove :: "nat \<Rightarrow> (nat \<times> mkey) list \<Rightarrow> (nat \<times> mkey) list" where
  "order_remove seq xs = filter (\<lambda>p. fst p \<noteq> seq) xs"

definition index_push :: "mkey \<Rightarrow> nat \<Rightarrow> media_index \<Rightarrow> media_index option" where
  "index_push k sz ix =
     (case checked_add (ix_next_seq ix) 1 of
        None \<Rightarrow> None
      | Some next \<Rightarrow>
          (case checked_add (ix_total_bytes ix) sz of
             None \<Rightarrow> None
           | Some bytes \<Rightarrow>
               Some \<lparr>ix_entries = AList.update k \<lparr>en_size = sz, en_seq = ix_next_seq ix\<rparr> (ix_entries ix),
                     ix_order = order_insert (ix_next_seq ix) k (ix_order ix),
                     ix_total_bytes = bytes, ix_next_seq = next\<rparr>))"

definition index_record :: "mkey \<Rightarrow> nat \<Rightarrow> media_index \<Rightarrow> media_index option" where
  "index_record k sz ix =
     (case map_of (ix_entries ix) k of
        None \<Rightarrow> index_push k sz ix
      | Some existing \<Rightarrow>
          (case checked_sub (ix_total_bytes ix) (en_size existing) of
             None \<Rightarrow> None
           | Some bytes \<Rightarrow>
               index_push k sz
                 (ix\<lparr>ix_order := order_remove (en_seq existing) (ix_order ix), ix_total_bytes := bytes\<rparr>)))"

definition record_if_absent :: "mkey \<Rightarrow> nat \<Rightarrow> media_index \<Rightarrow> media_index option" where
  "record_if_absent k sz ix =
     (if map_of (ix_entries ix) k \<noteq> None then Some ix else index_push k sz ix)"

definition index_touch :: "mkey \<Rightarrow> media_index \<Rightarrow> media_index option" where
  "index_touch k ix =
     (case map_of (ix_entries ix) k of
        None \<Rightarrow> Some ix
      | Some e \<Rightarrow>
          (case checked_add (ix_next_seq ix) 1 of
             None \<Rightarrow> None
           | Some next \<Rightarrow>
               Some (ix\<lparr>ix_entries := AList.update k (e\<lparr>en_seq := ix_next_seq ix\<rparr>) (ix_entries ix),
                        ix_order := order_insert (ix_next_seq ix) k (order_remove (en_seq e) (ix_order ix)),
                        ix_next_seq := next\<rparr>)))"

text \<open>One round of \<^verbatim>\<open>collect_evictions\<close> removes the first key of the order; the loop ends when the total is within
  the limit or nothing is left.\<close>

function collect_evictions :: "nat \<Rightarrow> media_index \<Rightarrow> (mkey list \<times> media_index) option" where
  "collect_evictions max_bytes ix =
     (if ix_total_bytes ix \<le> max_bytes then Some ([], ix)
      else case ix_order ix of
        [] \<Rightarrow> Some ([], ix)
      | (seq, k) # rest \<Rightarrow>
          (case (case map_of (ix_entries ix) k of
                   None \<Rightarrow> Some (ix\<lparr>ix_order := rest\<rparr>)
                 | Some e \<Rightarrow>
                     map_option (\<lambda>bytes. ix\<lparr>ix_entries := AList.delete k (ix_entries ix), ix_order := rest,
                          ix_total_bytes := bytes\<rparr>) (checked_sub (ix_total_bytes ix) (en_size e))) of
             None \<Rightarrow> None
           | Some ix' \<Rightarrow> map_option (\<lambda>(victims, ix''). (k # victims, ix'')) (collect_evictions max_bytes ix')))"
  by pat_completeness auto
termination
  by (relation "measure (\<lambda>(_, ix). length (ix_order ix))") (auto split: option.splits)

declare collect_evictions.simps [simp del]

text \<open>\<^verbatim>\<open>remove_account\<close> removes the keys of the account one by one.\<close>

fun remove_keys :: "mkey list \<Rightarrow> media_index \<Rightarrow> media_index option" where
  "remove_keys [] ix = Some ix"
| "remove_keys (k # ks) ix =
     (case map_of (ix_entries ix) k of
        None \<Rightarrow> remove_keys ks ix
      | Some e \<Rightarrow>
          (case checked_sub (ix_total_bytes ix) (en_size e) of
             None \<Rightarrow> None
           | Some bytes \<Rightarrow>
               remove_keys ks (ix\<lparr>ix_entries := AList.delete k (ix_entries ix),
                 ix_order := order_remove (en_seq e) (ix_order ix), ix_total_bytes := bytes\<rparr>)))"

definition remove_account :: "uuid \<Rightarrow> media_index \<Rightarrow> media_index option" where
  "remove_account account_id ix =
     remove_keys (filter (\<lambda>k. fst k = account_id) (map fst (ix_entries ix))) ix"

section \<open>The reference\<close>

type_synonym lru = "(mkey \<times> nat) list"

definition lru_bytes :: "lru \<Rightarrow> nat" where
  "lru_bytes xs = sum_list (map snd xs)"

definition lru_remove :: "mkey \<Rightarrow> lru \<Rightarrow> lru" where
  "lru_remove k xs = filter (\<lambda>p. fst p \<noteq> k) xs"

definition lru_record :: "mkey \<Rightarrow> nat \<Rightarrow> lru \<Rightarrow> lru" where
  "lru_record k sz xs = lru_remove k xs @ [(k, sz)]"

definition lru_record_if_absent :: "mkey \<Rightarrow> nat \<Rightarrow> lru \<Rightarrow> lru" where
  "lru_record_if_absent k sz xs = (if k \<in> fst ` set xs then xs else xs @ [(k, sz)])"

definition lru_touch :: "mkey \<Rightarrow> lru \<Rightarrow> lru" where
  "lru_touch k xs = (case map_of xs k of None \<Rightarrow> xs | Some sz \<Rightarrow> lru_record k sz xs)"

fun lru_evict :: "nat \<Rightarrow> lru \<Rightarrow> mkey list \<times> lru" where
  "lru_evict max_bytes [] = ([], [])"
| "lru_evict max_bytes ((k, sz) # xs) =
     (if lru_bytes ((k, sz) # xs) \<le> max_bytes then ([], (k, sz) # xs)
      else case lru_evict max_bytes xs of (victims, rest) \<Rightarrow> (k # victims, rest))"

definition lru_remove_account :: "uuid \<Rightarrow> lru \<Rightarrow> lru" where
  "lru_remove_account account_id xs = filter (\<lambda>p. fst (fst p) \<noteq> account_id) xs"

text \<open>Eviction drops the shortest front part that brings the rest within the limit.\<close>

lemma lru_evict_shortest:
  assumes "lru_evict max_bytes xs = (victims, rest)"
  shows "map fst xs = victims @ map fst rest" "rest = drop (length victims) xs" "lru_bytes rest \<le> max_bytes"
    and "\<forall>n < length victims. max_bytes < lru_bytes (drop n xs)"
  using assms
proof (induction xs arbitrary: victims)
  case (Cons p xs)
  obtain k sz where p: "p = (k, sz)" by (cases p)
  {
    case 1
    then show ?case using Cons.IH(1) by (auto simp: p split: if_splits prod.splits)
  next
    case 2
    then show ?case using Cons.IH(2) by (auto simp: p split: if_splits prod.splits)
  next
    case 3
    then show ?case using Cons.IH(3) by (auto simp: p split: if_splits prod.splits)
  next
    case 4
    then show ?case using Cons.IH(4)
      by (auto simp: p drop_Cons less_Suc_eq_0_disj split: if_splits prod.splits nat.split)
  }
qed (simp_all add: lru_bytes_def)

section \<open>The two maps implement the reference\<close>

definition index_abs :: "media_index \<Rightarrow> lru" where
  "index_abs ix = map (\<lambda>(seq, k). (k, en_size (the (map_of (ix_entries ix) k)))) (ix_order ix)"

text \<open>The invariant, up to an entry that is about to be replaced: \<open>P\<close> says which keys count.\<close>

definition index_inv_on :: "(mkey \<Rightarrow> bool) \<Rightarrow> media_index \<Rightarrow> bool" where
  "index_inv_on P ix \<longleftrightarrow>
     sorted_wrt (<) (map fst (ix_order ix)) \<and>
     (\<forall>(seq, k) \<in> set (ix_order ix). seq < ix_next_seq ix \<and> P k \<and>
        (\<exists>e. map_of (ix_entries ix) k = Some e \<and> en_seq e = seq)) \<and>
     (\<forall>k e. P k \<and> map_of (ix_entries ix) k = Some e \<longrightarrow> (en_seq e, k) \<in> set (ix_order ix)) \<and>
     distinct (map fst (ix_entries ix)) \<and>
     ix_total_bytes ix = lru_bytes (index_abs ix)"

abbreviation index_inv :: "media_index \<Rightarrow> bool" where
  "index_inv \<equiv> index_inv_on (\<lambda>_. True)"

lemma index_inv_onD:
  assumes "index_inv_on P ix"
  shows "sorted_wrt (<) (map fst (ix_order ix))"
    and "\<And>seq k. (seq, k) \<in> set (ix_order ix) \<Longrightarrow> seq < ix_next_seq ix"
    and "\<And>seq k. (seq, k) \<in> set (ix_order ix) \<Longrightarrow> P k"
    and "\<And>seq k. (seq, k) \<in> set (ix_order ix) \<Longrightarrow> \<exists>e. map_of (ix_entries ix) k = Some e \<and> en_seq e = seq"
    and "\<And>k e. P k \<Longrightarrow> map_of (ix_entries ix) k = Some e \<Longrightarrow> (en_seq e, k) \<in> set (ix_order ix)"
    and "distinct (map fst (ix_entries ix))" "ix_total_bytes ix = lru_bytes (index_abs ix)"
  using assms by (fastforce simp: index_inv_on_def)+

lemma index_default_inv [simp]: "index_inv index_default" "index_abs index_default = []" "ix_next_seq index_default = 0"
  "ix_total_bytes index_default = 0"
  by (simp_all add: index_inv_on_def index_default_def index_abs_def lru_bytes_def)

lemma order_insert_last: "\<forall>p \<in> set xs. fst p < seq \<Longrightarrow> order_insert seq k xs = xs @ [(seq, k)]"
  by (induction seq k xs rule: order_insert.induct) auto

lemma lru_bytes_append [simp]: "lru_bytes (xs @ ys) = lru_bytes xs + lru_bytes ys"
  by (simp add: lru_bytes_def)

lemma index_abs_cong:
  assumes "ix_order ix' = ix_order ix" "\<And>seq k. (seq, k) \<in> set (ix_order ix) \<Longrightarrow>
      map_of (ix_entries ix') k = map_of (ix_entries ix) k"
  shows "index_abs ix' = index_abs ix"
  using assms by (auto simp: index_abs_def)

lemma order_remove_key:
  assumes "index_inv ix" "map_of (ix_entries ix) k = Some e"
  shows "order_remove (en_seq e) (ix_order ix) = filter (\<lambda>p. snd p \<noteq> k) (ix_order ix)"
  unfolding order_remove_def
proof (rule filter_cong [OF refl])
  fix p assume p: "p \<in> set (ix_order ix)"
  obtain seq x where px: "p = (seq, x)" by (cases p)
  have sorted: "sorted_wrt (<) (map fst (ix_order ix))" by (rule index_inv_onD(1) [OF assms(1)])
  then have inj: "inj_on fst (set (ix_order ix))"
    by (simp add: strict_sorted_iff distinct_map)
  have mem: "(en_seq e, k) \<in> set (ix_order ix)" by (rule index_inv_onD(5) [OF assms(1)]) (simp_all add: assms(2))
  have "x = k \<longleftrightarrow> seq = en_seq e"
  proof
    assume "x = k"
    with index_inv_onD(4) [OF assms(1)] p px assms(2) show "seq = en_seq e" by fastforce
  next
    assume "seq = en_seq e"
    with inj_onD [OF inj _ p mem] px show "x = k" by simp
  qed
  then show "(fst p \<noteq> en_seq e) = (snd p \<noteq> k)" by (simp add: px)
qed

lemma index_abs_remove: "index_abs (ix\<lparr>ix_order := filter (\<lambda>p. snd p \<noteq> k) (ix_order ix)\<rparr>) = lru_remove k (index_abs ix)"
  by (auto simp: index_abs_def lru_remove_def filter_map o_def split_beta)

lemma lru_remove_none: "k \<notin> fst ` set xs \<Longrightarrow> lru_remove k xs = xs"
  by (auto simp: lru_remove_def filter_id_conv image_iff)

lemma lru_bytes_remove:
  "distinct (map fst xs) \<Longrightarrow> map_of xs k = Some sz \<Longrightarrow> lru_bytes xs = lru_bytes (lru_remove k xs) + sz"
proof (induction xs)
  case (Cons p xs)
  show ?case
  proof (cases "fst p = k")
    case True
    with Cons.prems have "lru_remove k (p # xs) = xs" "snd p = sz"
      using lru_remove_none [of k xs] by (auto simp: lru_remove_def)
    then show ?thesis by (simp add: lru_bytes_def)
  next
    case False
    with Cons show ?thesis by (cases p) (simp add: lru_bytes_def lru_remove_def)
  qed
qed simp

lemma index_abs_map_of:
  assumes "index_inv ix"
  shows "map_of (index_abs ix) k = map_option en_size (map_of (ix_entries ix) k)"
proof (cases "map_of (ix_entries ix) k")
  case None
  with index_inv_onD(4) [OF assms] have "k \<notin> fst ` set (index_abs ix)"
    by (force simp: index_abs_def)
  then have "map_of (index_abs ix) k = None" by (simp add: map_of_eq_None_iff)
  with None show ?thesis by simp
next
  case (Some e)
  with index_inv_onD(5) [OF assms, of k e] have "(k, en_size e) \<in> set (index_abs ix)"
    by (force simp: index_abs_def)
  moreover have "v = en_size e" if "(k, v) \<in> set (index_abs ix)" for v
    using that Some by (auto simp: index_abs_def)
  ultimately show ?thesis
    using Some by (metis map_of_SomeD map_of_eq_None_iff not_None_eq option.map(2) rev_image_eqI fst_conv)
qed

lemma index_abs_keys: "index_inv ix \<Longrightarrow> k \<in> fst ` set (index_abs ix) \<longleftrightarrow> map_of (ix_entries ix) k \<noteq> None"
  using index_abs_map_of [of ix k] by (metis map_of_eq_None_iff option.map_disc_iff)

lemma index_abs_distinct:
  assumes "index_inv ix"
  shows "distinct (map fst (index_abs ix))"
proof -
  have "inj_on snd (set (ix_order ix))"
  proof (rule inj_onI)
    fix p q assume pq: "p \<in> set (ix_order ix)" "q \<in> set (ix_order ix)" "snd p = snd q"
    obtain a b x where "p = (a, x)" "q = (b, x)" using pq(3) by (cases p, cases q) simp
    with pq index_inv_onD(4) [OF assms, of a x] index_inv_onD(4) [OF assms, of b x] show "p = q" by auto
  qed
  moreover have "distinct (ix_order ix)"
    using index_inv_onD(1) [OF assms] by (simp add: strict_sorted_iff distinct_map)
  ultimately show ?thesis by (simp add: index_abs_def distinct_map o_def split_beta)
qed

lemma index_push_refines:
  assumes "index_inv_on (\<lambda>x. x \<noteq> k) ix" "ix_next_seq ix + 1 < U64_LIMIT" "ix_total_bytes ix + sz < U64_LIMIT"
  shows "\<exists>ix'. index_push k sz ix = Some ix' \<and> index_inv ix' \<and> index_abs ix' = index_abs ix @ [(k, sz)] \<and>
    ix_next_seq ix' = Suc (ix_next_seq ix)"
proof -
  let ?ix = "\<lparr>ix_entries = AList.update k \<lparr>en_size = sz, en_seq = ix_next_seq ix\<rparr> (ix_entries ix),
     ix_order = ix_order ix @ [(ix_next_seq ix, k)], ix_total_bytes = ix_total_bytes ix + sz,
     ix_next_seq = Suc (ix_next_seq ix)\<rparr>"
  note D = index_inv_onD [OF assms(1)]
  have ord: "order_insert (ix_next_seq ix) k (ix_order ix) = ix_order ix @ [(ix_next_seq ix, k)]"
    by (rule order_insert_last) (use D(2) in auto)
  have abs: "index_abs ?ix = index_abs ix @ [(k, sz)]"
    using D(3) by (force simp: index_abs_def update_conv')
  have "index_push k sz ix = Some ?ix"
    using assms(2,3) by (simp add: index_push_def checked_add_def ord)
  moreover have "index_inv ?ix"
    unfolding index_inv_on_def abs
  proof (intro conjI)
    show "sorted_wrt (<) (map fst (ix_order ?ix))"
      using D(1,2) by (fastforce simp: sorted_wrt_append)
    show "\<forall>(seq, x) \<in> set (ix_order ?ix). seq < ix_next_seq ?ix \<and> True \<and>
        (\<exists>e. map_of (ix_entries ?ix) x = Some e \<and> en_seq e = seq)"
      using D(2-4) by (fastforce simp: update_conv' intro: less_SucI)
    show "\<forall>x e. True \<and> map_of (ix_entries ?ix) x = Some e \<longrightarrow> (en_seq e, x) \<in> set (ix_order ?ix)"
      using D(5) by (auto simp: update_conv' split: if_splits)
    show "distinct (map fst (ix_entries ?ix))"
      using D(6) by (simp add: distinct_update)
  qed (simp add: D(7) lru_bytes_def)
  ultimately show ?thesis by (simp add: abs)
qed

text \<open>Taking a key out of the order, with its bytes: what is left counts every other key.\<close>

lemma index_take_out:
  assumes "index_inv ix" "map_of (ix_entries ix) k = Some e"
  defines "ix' \<equiv> ix\<lparr>ix_order := order_remove (en_seq e) (ix_order ix), ix_total_bytes := ix_total_bytes ix - en_size e\<rparr>"
  shows "checked_sub (ix_total_bytes ix) (en_size e) = Some (ix_total_bytes ix - en_size e)"
    and "index_inv_on (\<lambda>x. x \<noteq> k) ix'" "index_abs ix' = lru_remove k (index_abs ix)"
    and "ix_total_bytes ix' = lru_bytes (lru_remove k (index_abs ix))"
proof -
  note D = index_inv_onD [OF assms(1)]
  have ord: "ix_order ix' = filter (\<lambda>p. snd p \<noteq> k) (ix_order ix)"
    by (simp add: ix'_def order_remove_key [OF assms(1,2)])
  show abs: "index_abs ix' = lru_remove k (index_abs ix)"
    unfolding index_abs_remove [symmetric]
    by (simp add: index_abs_def ord) (simp add: ix'_def)
  have bytes: "ix_total_bytes ix = lru_bytes (lru_remove k (index_abs ix)) + en_size e"
    unfolding D(7) by (rule lru_bytes_remove [OF index_abs_distinct [OF assms(1)]])
      (simp add: index_abs_map_of [OF assms(1)] assms(2))
  then show "checked_sub (ix_total_bytes ix) (en_size e) = Some (ix_total_bytes ix - en_size e)"
    by (simp add: checked_sub_def)
  show total: "ix_total_bytes ix' = lru_bytes (lru_remove k (index_abs ix))"
    using bytes by (simp add: ix'_def)
  have same: "ix_entries ix' = ix_entries ix" "ix_next_seq ix' = ix_next_seq ix" by (simp_all add: ix'_def)
  show "index_inv_on (\<lambda>x. x \<noteq> k) ix'"
    unfolding index_inv_on_def same ord abs total
  proof (intro conjI)
    show "sorted_wrt (<) (map fst (filter (\<lambda>p. snd p \<noteq> k) (ix_order ix)))"
      using D(1) by (simp add: sorted_wrt_map sorted_wrt_filter)
  qed (use D(2,4,5,6) in \<open>auto simp: split_beta\<close>)
qed

text \<open>Deleting the entry as well gives the invariant back.\<close>

lemma index_drop_entry:
  assumes "index_inv_on (\<lambda>x. x \<noteq> k) ix"
  shows "index_inv (ix\<lparr>ix_entries := AList.delete k (ix_entries ix)\<rparr>)"
    and "index_abs (ix\<lparr>ix_entries := AList.delete k (ix_entries ix)\<rparr>) = index_abs ix"
proof -
  note D = index_inv_onD [OF assms]
  let ?ix = "ix\<lparr>ix_entries := AList.delete k (ix_entries ix)\<rparr>"
  show abs: "index_abs ?ix = index_abs ix"
    by (rule index_abs_cong) (use D(3) in \<open>auto simp: delete_conv'\<close>)
  show "index_inv ?ix"
    unfolding index_inv_on_def abs
  proof (intro conjI)
    show "\<forall>(seq, x) \<in> set (ix_order ?ix). seq < ix_next_seq ?ix \<and> True \<and>
        (\<exists>e. map_of (ix_entries ?ix) x = Some e \<and> en_seq e = seq)"
      using D(2-4) by (fastforce simp: delete_conv')
    show "\<forall>x e. True \<and> map_of (ix_entries ?ix) x = Some e \<longrightarrow> (en_seq e, x) \<in> set (ix_order ?ix)"
      using D(5) by (auto simp: delete_conv' split: if_splits)
  qed (use D(1,6,7) in \<open>simp_all add: distinct_delete\<close>)
qed

lemma index_record_refines:
  assumes "index_inv ix" "ix_next_seq ix + 1 < U64_LIMIT" "ix_total_bytes ix + sz < U64_LIMIT"
  shows "\<exists>ix'. index_record k sz ix = Some ix' \<and> index_inv ix' \<and> index_abs ix' = lru_record k sz (index_abs ix) \<and>
    ix_next_seq ix' = Suc (ix_next_seq ix)"
proof (cases "map_of (ix_entries ix) k")
  case None
  then have out: "k \<notin> fst ` set (index_abs ix)"
    using index_abs_keys [OF assms(1), of k] by blast
  have "index_inv_on (\<lambda>x. x \<noteq> k) ix"
    using assms(1) None unfolding index_inv_on_def by fastforce
  from index_push_refines [OF this assms(2,3)] None show ?thesis
    by (simp add: index_record_def lru_record_def lru_remove_none [OF out])
next
  case (Some e)
  note out = index_take_out [OF assms(1) Some]
  have "ix_total_bytes ix - en_size e + sz < U64_LIMIT" using assms(3) by simp
  with index_push_refines [OF out(2), of sz] assms(2) out(1,3) Some show ?thesis
    by (simp add: index_record_def lru_record_def)
qed

lemma index_touch_refines:
  assumes "index_inv ix" "ix_next_seq ix + 1 < U64_LIMIT" "ix_total_bytes ix < U64_LIMIT"
  shows "\<exists>ix'. index_touch k ix = Some ix' \<and> index_inv ix' \<and> index_abs ix' = lru_touch k (index_abs ix) \<and>
    ix_next_seq ix' \<le> Suc (ix_next_seq ix)"
proof (cases "map_of (ix_entries ix) k")
  case None
  with assms(1) show ?thesis by (simp add: index_touch_def lru_touch_def index_abs_map_of)
next
  case (Some e)
  note out = index_take_out [OF assms(1) Some]
  let ?ix = "ix\<lparr>ix_order := order_remove (en_seq e) (ix_order ix), ix_total_bytes := ix_total_bytes ix - en_size e\<rparr>"
  have le: "en_size e \<le> ix_total_bytes ix" using out(1) by (simp add: checked_sub_def split: if_splits)
  obtain ix' where push: "index_push k (en_size e) ?ix = Some ix'" "index_inv ix'"
      "index_abs ix' = index_abs ?ix @ [(k, en_size e)]" "ix_next_seq ix' = Suc (ix_next_seq ?ix)"
    using index_push_refines [OF out(2), of "en_size e"] assms(2,3) le by auto
  have "index_touch k ix = index_push k (en_size e) ?ix"
    using assms(2,3) Some le
    by (cases ix; cases e) (simp add: index_touch_def index_push_def checked_add_def)
  with push out(3) Some assms(1) show ?thesis
    by (simp add: lru_touch_def lru_record_def index_abs_map_of)
qed

lemma record_if_absent_refines:
  assumes "index_inv ix" "ix_next_seq ix + 1 < U64_LIMIT" "ix_total_bytes ix + sz < U64_LIMIT"
  shows "\<exists>ix'. record_if_absent k sz ix = Some ix' \<and> index_inv ix' \<and>
    index_abs ix' = lru_record_if_absent k sz (index_abs ix) \<and> ix_next_seq ix' \<le> Suc (ix_next_seq ix)"
proof (cases "map_of (ix_entries ix) k")
  case None
  have "index_inv_on (\<lambda>x. x \<noteq> k) ix"
    using assms(1) None unfolding index_inv_on_def by fastforce
  from index_push_refines [OF this assms(2,3)] None show ?thesis
    using index_abs_keys [OF assms(1), of k] by (auto simp: record_if_absent_def lru_record_if_absent_def)
next
  case (Some e)
  with assms(1) show ?thesis by (simp add: record_if_absent_def lru_record_if_absent_def index_abs_keys)
qed

text \<open>Removing one key altogether.\<close>

lemma index_forget_refines:
  assumes "index_inv ix" "map_of (ix_entries ix) k = Some e"
  defines "ix' \<equiv> ix\<lparr>ix_entries := AList.delete k (ix_entries ix), ix_order := order_remove (en_seq e) (ix_order ix),
    ix_total_bytes := ix_total_bytes ix - en_size e\<rparr>"
  shows "checked_sub (ix_total_bytes ix) (en_size e) = Some (ix_total_bytes ix - en_size e)" "index_inv ix'"
    "index_abs ix' = lru_remove k (index_abs ix)"
proof -
  note out = index_take_out [OF assms(1,2)]
  show "checked_sub (ix_total_bytes ix) (en_size e) = Some (ix_total_bytes ix - en_size e)" by (rule out(1))
  let ?out = "ix\<lparr>ix_order := order_remove (en_seq e) (ix_order ix), ix_total_bytes := ix_total_bytes ix - en_size e\<rparr>"
  have "ix' = ?out\<lparr>ix_entries := AList.delete k (ix_entries ?out)\<rparr>"
    by (cases ix) (simp add: ix'_def)
  then show "index_inv ix'" "index_abs ix' = lru_remove k (index_abs ix)"
    using index_drop_entry [OF out(2)] out(3) by simp_all
qed

lemma remove_keys_refines:
  assumes "index_inv ix"
  shows "\<exists>ix'. remove_keys ks ix = Some ix' \<and> index_inv ix' \<and>
    index_abs ix' = filter (\<lambda>p. fst p \<notin> set ks) (index_abs ix) \<and> ix_next_seq ix' = ix_next_seq ix"
  using assms
proof (induction ks arbitrary: ix)
  case (Cons k ks)
  show ?case
  proof (cases "map_of (ix_entries ix) k")
    case None
    with index_abs_keys [OF Cons.prems, of k] have "fst p \<noteq> k" if "p \<in> set (index_abs ix)" for p
      using that by force
    then have "filter (\<lambda>p. fst p \<notin> set (k # ks)) (index_abs ix) = filter (\<lambda>p. fst p \<notin> set ks) (index_abs ix)"
      by (intro filter_cong refl) simp
    with None Cons.IH [OF Cons.prems] show ?thesis by simp
  next
    case (Some e)
    note forget = index_forget_refines [OF Cons.prems Some]
    have "filter (\<lambda>p. fst p \<notin> set (k # ks)) (index_abs ix) = filter (\<lambda>p. fst p \<notin> set ks) (lru_remove k (index_abs ix))"
      by (auto simp: lru_remove_def intro: filter_cong)
    with Some forget Cons.IH [OF forget(2)] show ?thesis by simp
  qed
qed simp

lemma remove_account_refines:
  assumes "index_inv ix"
  shows "\<exists>ix'. remove_account a ix = Some ix' \<and> index_inv ix' \<and> index_abs ix' = lru_remove_account a (index_abs ix) \<and>
    ix_next_seq ix' = ix_next_seq ix"
proof -
  let ?ks = "filter (\<lambda>k. fst k = a) (map fst (ix_entries ix))"
  have "filter (\<lambda>p. fst p \<notin> set ?ks) (index_abs ix) = lru_remove_account a (index_abs ix)"
    unfolding lru_remove_account_def
  proof (rule filter_cong [OF refl])
    fix p assume p: "p \<in> set (index_abs ix)"
    then have "fst p \<in> fst ` set (index_abs ix)" by (rule imageI)
    then have "fst p \<in> fst ` set (ix_entries ix)"
      using index_abs_keys [OF assms, of "fst p"] map_of_eq_None_iff [of "ix_entries ix" "fst p"] by metis
    then show "(fst p \<notin> set ?ks) = (fst (fst p) \<noteq> a)" by auto
  qed
  with remove_keys_refines [OF assms, of ?ks] show ?thesis by (simp add: remove_account_def)
qed

lemma index_head:
  assumes "index_inv ix" "ix_order ix = (seq, k) # rest"
  obtains e where "map_of (ix_entries ix) k = Some e" "en_seq e = seq" "rest = order_remove seq (ix_order ix)"
    "index_abs ix = (k, en_size e) # lru_remove k (index_abs ix)"
proof -
  note D = index_inv_onD [OF assms(1)]
  obtain e where e: "map_of (ix_entries ix) k = Some e" "en_seq e = seq"
    using D(4) [of seq k] assms(2) by auto
  have "\<forall>p \<in> set rest. seq < fst p" using D(1) assms(2) by auto
  then have "order_remove seq (ix_order ix) = rest"
    by (auto simp: assms(2) order_remove_def filter_id_conv)
  then have rest: "rest = order_remove seq (ix_order ix)" ..
  obtain ys where ys: "index_abs ix = (k, en_size e) # ys" by (simp add: index_abs_def assms(2) e(1))
  with index_abs_distinct [OF assms(1)] have "lru_remove k (index_abs ix) = ys"
    using lru_remove_none [of k ys] by (simp add: lru_remove_def)
  with e rest ys show thesis by (auto intro: that)
qed

lemma collect_evictions_refines:
  assumes "index_inv ix"
  shows "\<exists>victims ix'. collect_evictions max_bytes ix = Some (victims, ix') \<and> index_inv ix' \<and>
    lru_evict max_bytes (index_abs ix) = (victims, index_abs ix') \<and> ix_next_seq ix' = ix_next_seq ix"
  using assms
proof (induction "length (ix_order ix)" arbitrary: ix)
  case 0
  then have "index_abs ix = []" by (simp add: index_abs_def)
  moreover have "collect_evictions max_bytes ix = Some ([], ix)"
    using 0 by (simp add: collect_evictions.simps)
  ultimately show ?case using 0 by simp
next
  case (Suc n)
  from Suc.hyps(2) obtain seq k rest where ord: "ix_order ix = (seq, k) # rest"
    by (cases "ix_order ix") auto
  obtain e where e: "map_of (ix_entries ix) k = Some e" "en_seq e = seq" "rest = order_remove seq (ix_order ix)"
    "index_abs ix = (k, en_size e) # lru_remove k (index_abs ix)"
    by (rule index_head [OF Suc.prems ord])
  let ?ix = "ix\<lparr>ix_entries := AList.delete k (ix_entries ix), ix_order := rest,
    ix_total_bytes := ix_total_bytes ix - en_size e\<rparr>"
  note forget = index_forget_refines [OF Suc.prems e(1), unfolded e(2), folded e(3)]
  note total = index_inv_onD(7) [OF Suc.prems]
  note evict = lru_evict.simps(2) [of max_bytes k "en_size e" "lru_remove k (index_abs ix)", folded e(4)]
  show ?case
  proof (cases "ix_total_bytes ix \<le> max_bytes")
    case True
    then have "collect_evictions max_bytes ix = Some ([], ix)" by (simp add: collect_evictions.simps)
    moreover have "lru_evict max_bytes (index_abs ix) = ([], index_abs ix)"
      using True total evict by simp
    ultimately show ?thesis using Suc.prems by simp
  next
    case False
    have step: "collect_evictions max_bytes ix =
        map_option (\<lambda>(victims, ix''). (k # victims, ix'')) (collect_evictions max_bytes ?ix)"
      using False e(1) forget(1) by (subst collect_evictions.simps) (simp add: ord)
    have "n = length (ix_order ?ix)" using Suc.hyps(2) ord by simp
    then obtain victims ix' where IH: "collect_evictions max_bytes ?ix = Some (victims, ix')" "index_inv ix'"
      "lru_evict max_bytes (index_abs ?ix) = (victims, index_abs ix')" "ix_next_seq ix' = ix_next_seq ?ix"
      using Suc.hyps(1) [of ?ix] forget(2) by blast
    have "lru_evict max_bytes (index_abs ix) = (k # victims, index_abs ix')"
      using False total IH(3) forget(3) evict by simp
    then show ?thesis using step IH by simp
  qed
qed

text \<open>The same, for an operation that returned.\<close>

lemma index_push_some:
  assumes "index_inv_on (\<lambda>x. x \<noteq> k) ix" "index_push k sz ix = Some ix'"
  shows "index_inv ix' \<and> index_abs ix' = index_abs ix @ [(k, sz)]"
proof -
  have "ix_next_seq ix + 1 < U64_LIMIT" "ix_total_bytes ix + sz < U64_LIMIT"
    using assms(2) by (auto simp: index_push_def checked_add_def split: if_splits option.splits)
  with index_push_refines [OF assms(1)] assms(2) show ?thesis by fastforce
qed

lemma index_inv_on_absent: "index_inv ix \<Longrightarrow> map_of (ix_entries ix) k = None \<Longrightarrow> index_inv_on (\<lambda>x. x \<noteq> k) ix"
  unfolding index_inv_on_def by fastforce

lemma index_record_some:
  assumes "index_inv ix" "index_record k sz ix = Some ix'"
  shows "index_inv ix' \<and> index_abs ix' = lru_record k sz (index_abs ix)"
proof (cases "map_of (ix_entries ix) k")
  case None
  then have out: "k \<notin> fst ` set (index_abs ix)"
    using index_abs_keys [OF assms(1), of k] by blast
  have "index_push k sz ix = Some ix'" using assms(2) None by (simp add: index_record_def)
  from index_push_some [OF index_inv_on_absent [OF assms(1) None] this] show ?thesis
    by (simp add: lru_record_def lru_remove_none [OF out])
next
  case (Some e)
  note out = index_take_out [OF assms(1) Some]
  have "index_push k sz (ix\<lparr>ix_order := order_remove (en_seq e) (ix_order ix),
      ix_total_bytes := ix_total_bytes ix - en_size e\<rparr>) = Some ix'"
    using assms(2) Some out(1) by (simp add: index_record_def)
  from index_push_some [OF out(2) this] out(3) show ?thesis by (simp add: lru_record_def)
qed

lemma record_if_absent_some:
  assumes "index_inv ix" "record_if_absent k sz ix = Some ix'"
  shows "index_inv ix' \<and> index_abs ix' = lru_record_if_absent k sz (index_abs ix)"
proof (cases "map_of (ix_entries ix) k")
  case None
  then have "k \<notin> fst ` set (index_abs ix)" using index_abs_keys [OF assms(1), of k] by blast
  with assms(2) None index_push_some [OF index_inv_on_absent [OF assms(1) None], of sz ix'] show ?thesis
    by (simp add: record_if_absent_def lru_record_if_absent_def)
next
  case (Some e)
  with assms index_abs_keys [OF assms(1), of k] show ?thesis
    by (simp add: record_if_absent_def lru_record_if_absent_def)
qed

lemma index_touch_some:
  assumes "index_inv ix" "index_touch k ix = Some ix'" "ix_total_bytes ix < U64_LIMIT"
  shows "index_inv ix' \<and> index_abs ix' = lru_touch k (index_abs ix)"
proof (cases "map_of (ix_entries ix) k")
  case None
  with assms index_abs_map_of [OF assms(1), of k] show ?thesis by (simp add: index_touch_def lru_touch_def)
next
  case (Some e)
  then have "ix_next_seq ix + 1 < U64_LIMIT"
    using assms(2) by (auto simp: index_touch_def checked_add_def split: if_splits)
  with index_touch_refines [OF assms(1), of k] assms(2,3) show ?thesis by fastforce
qed

lemma collect_evictions_some:
  assumes "index_inv ix" "collect_evictions max_bytes ix = Some (victims, ix')"
  shows "index_inv ix' \<and> lru_evict max_bytes (index_abs ix) = (victims, index_abs ix')"
  using collect_evictions_refines [OF assms(1), of max_bytes] assms(2) by auto

lemma remove_account_some:
  assumes "index_inv ix" "remove_account a ix = Some ix'"
  shows "index_inv ix' \<and> index_abs ix' = lru_remove_account a (index_abs ix)"
  using remove_account_refines [OF assms(1), of a] assms(2) by auto

section \<open>Refinement\<close>

datatype index_op =
    IxRecord mkey nat
  | IxRecordIfAbsent mkey nat
  | IxTouch mkey
  | IxCollect nat
  | IxRemoveAccount uuid

primrec index_apply :: "index_op \<Rightarrow> media_index \<Rightarrow> (mkey list \<times> media_index) option" where
  "index_apply (IxRecord k sz) ix = map_option (Pair []) (index_record k sz ix)"
| "index_apply (IxRecordIfAbsent k sz) ix = map_option (Pair []) (record_if_absent k sz ix)"
| "index_apply (IxTouch k) ix = map_option (Pair []) (index_touch k ix)"
| "index_apply (IxCollect max_bytes) ix = collect_evictions max_bytes ix"
| "index_apply (IxRemoveAccount a) ix = map_option (Pair []) (remove_account a ix)"

primrec lru_apply :: "index_op \<Rightarrow> lru \<Rightarrow> mkey list \<times> lru" where
  "lru_apply (IxRecord k sz) xs = ([], lru_record k sz xs)"
| "lru_apply (IxRecordIfAbsent k sz) xs = ([], lru_record_if_absent k sz xs)"
| "lru_apply (IxTouch k) xs = ([], lru_touch k xs)"
| "lru_apply (IxCollect max_bytes) xs = lru_evict max_bytes xs"
| "lru_apply (IxRemoveAccount a) xs = ([], lru_remove_account a xs)"

fun index_run :: "index_op list \<Rightarrow> media_index \<Rightarrow> (mkey list list \<times> media_index) option" where
  "index_run [] ix = Some ([], ix)"
| "index_run (x # xs) ix =
     (case index_apply x ix of
        None \<Rightarrow> None
      | Some (victims, ix') \<Rightarrow> map_option (\<lambda>(vs, ix''). (victims # vs, ix'')) (index_run xs ix'))"

fun lru_run :: "index_op list \<Rightarrow> lru \<Rightarrow> mkey list list \<times> lru" where
  "lru_run [] xs = ([], xs)"
| "lru_run (x # ops) xs =
     (case lru_apply x xs of (victims, xs') \<Rightarrow> (case lru_run ops xs' of (vs, xs'') \<Rightarrow> (victims # vs, xs'')))"

primrec op_bytes :: "index_op \<Rightarrow> nat" where
  "op_bytes (IxRecord k sz) = sz"
| "op_bytes (IxRecordIfAbsent k sz) = sz"
| "op_bytes (IxTouch k) = 0"
| "op_bytes (IxCollect max_bytes) = 0"
| "op_bytes (IxRemoveAccount a) = 0"

lemma index_apply_refines:
  assumes "index_inv ix" "ix_next_seq ix + 1 < U64_LIMIT" "ix_total_bytes ix + op_bytes x < U64_LIMIT"
  shows "\<exists>victims ix'. index_apply x ix = Some (victims, ix') \<and> index_inv ix' \<and>
    lru_apply x (index_abs ix) = (victims, index_abs ix') \<and> ix_next_seq ix' \<le> Suc (ix_next_seq ix)"
proof (cases x)
  case (IxRecord k sz)
  with index_record_refines [OF assms(1,2), of sz k] assms(3) show ?thesis by auto
next
  case (IxRecordIfAbsent k sz)
  with record_if_absent_refines [OF assms(1,2), of sz k] assms(3) show ?thesis by auto
next
  case (IxTouch k)
  with index_touch_refines [OF assms(1,2), of k] assms(3) show ?thesis by auto
next
  case (IxCollect m)
  with collect_evictions_refines [OF assms(1), of m] show ?thesis by auto
next
  case (IxRemoveAccount a)
  with remove_account_refines [OF assms(1), of a] show ?thesis by auto
qed

lemma lru_bytes_filter: "lru_bytes (filter P xs) \<le> lru_bytes xs"
  by (induction xs) (auto simp: lru_bytes_def)

lemma lru_bytes_drop: "lru_bytes (drop n xs) \<le> lru_bytes xs"
  by (induction xs arbitrary: n) (auto simp: lru_bytes_def drop_Cons split: nat.split intro: trans_le_add2)

lemma lru_apply_bytes:
  assumes "distinct (map fst xs)"
  shows "lru_bytes (snd (lru_apply x xs)) \<le> lru_bytes xs + op_bytes x"
proof (cases x)
  case (IxRecord k sz)
  then show ?thesis using lru_bytes_filter [of "\<lambda>p. fst p \<noteq> k" xs]
    by (simp add: lru_record_def lru_remove_def) (simp add: lru_bytes_def)
next
  case (IxTouch k)
  then show ?thesis
    using lru_bytes_remove [OF assms, of k]
    by (auto simp: lru_touch_def lru_record_def lru_bytes_def split: option.split)
next
  case (IxCollect m)
  obtain victims rest where "lru_evict m xs = (victims, rest)" by (cases "lru_evict m xs")
  with IxCollect lru_evict_shortest(2) [of m xs victims rest] show ?thesis by (simp add: lru_bytes_drop)
next
  case (IxRecordIfAbsent k sz)
  then show ?thesis by (simp add: lru_record_if_absent_def lru_bytes_def)
qed (simp add: lru_remove_account_def lru_bytes_filter)

text \<open>C15: the two maps of the index implement a plain list of keys and sizes in order of use. Over any sequence of
  operations (fewer than \<open>2 ^ 64\<close> of them, with fewer than \<open>2 ^ 64\<close> bytes recorded) no operation panics, each
  evicts exactly the keys the list evicts, and the index ends as the list does; an eviction takes the shortest
  part from the least recently used end that brings the total within the limit.\<close>

theorem media_index_refines:
  assumes "length ops < U64_LIMIT" "sum_list (map op_bytes ops) < U64_LIMIT"
  shows "\<exists>ix. index_run ops index_default = Some (fst (lru_run ops []), ix) \<and> index_inv ix \<and>
      index_abs ix = snd (lru_run ops []) \<and> ix_total_bytes ix = lru_bytes (snd (lru_run ops [])) \<and>
      (\<forall>max_bytes victims rest. lru_evict max_bytes (index_abs ix) = (victims, rest) \<longrightarrow>
         map fst (index_abs ix) = victims @ map fst rest \<and> lru_bytes rest \<le> max_bytes \<and>
         (\<forall>n < length victims. max_bytes < lru_bytes (drop n (index_abs ix))))"
proof -
  have run: "\<exists>ix'. index_run ops ix = Some (fst (lru_run ops (index_abs ix)), ix') \<and> index_inv ix' \<and>
      index_abs ix' = snd (lru_run ops (index_abs ix))"
    if "index_inv ix" "ix_next_seq ix + length ops < U64_LIMIT"
      "lru_bytes (index_abs ix) + sum_list (map op_bytes ops) < U64_LIMIT" for ix
    using that
  proof (induction ops arbitrary: ix)
    case (Cons x ops)
    have "ix_total_bytes ix + op_bytes x < U64_LIMIT"
      using Cons.prems index_inv_onD(7) [OF Cons.prems(1)] by simp
    then obtain victims ix1 where x: "index_apply x ix = Some (victims, ix1)" "index_inv ix1"
        "lru_apply x (index_abs ix) = (victims, index_abs ix1)" "ix_next_seq ix1 \<le> Suc (ix_next_seq ix)"
      using index_apply_refines [of ix x] Cons.prems by auto
    have "lru_bytes (index_abs ix1) \<le> lru_bytes (index_abs ix) + op_bytes x"
      using lru_apply_bytes [OF index_abs_distinct [OF Cons.prems(1)], of x] x(3) by simp
    with Cons.IH [OF x(2)] Cons.prems x show ?case by (auto split: prod.split)
  qed simp
  from run [of index_default] assms obtain ix where ix: "index_run ops index_default = Some (fst (lru_run ops []), ix)"
      "index_inv ix" "index_abs ix = snd (lru_run ops [])"
    by (auto simp: lru_bytes_def)
  with index_inv_onD(7) [OF ix(2)] show ?thesis by (auto dest: lru_evict_shortest)
qed

theorem media_index_refines_witness:
  "\<exists>ix. index_run [IxRecord (1, []) 5, IxRecord (1, [2]) 4, IxTouch (1, []), IxCollect 6] index_default =
     Some ([[], [], [], [(1, [2])]], ix) \<and> index_abs ix = [((1, []), 5)]"
proof -
  let ?ops = "[IxRecord (1, []) 5, IxRecord (1, [2]) 4, IxTouch (1, []), IxCollect 6]"
  have "lru_run ?ops [] = ([[], [], [], [(1, [2])]], [((1, []), 5)])"
    by (simp add: lru_record_def lru_remove_def lru_touch_def lru_bytes_def)
  with media_index_refines [of ?ops] show ?thesis by (auto simp: U64_LIMIT_def)
qed

end
