(* ===== verification/Media_Cache.thy ===== *)
theory Media_Cache
  imports Media_Index
begin

text \<open>
  The media cache as a system of tasks: \<^verbatim>\<open>crates/axon-media/src/cache.rs\<close>.

  \<^item> \<open>cache\<close> is the shared state (\<^verbatim>\<open>struct Inner\<close>) with the files and account directories on disk.
  \<^item> A task is where it stands between two awaits (\<open>pc\<close>); \<open>task_step\<close> runs it to its next await. The action
    says what the awaited operation did, or that the task's future was dropped.
  \<^item> A file operation whose future is dropped goes on in the blocking pool: it moves to \<open>ms_background\<close> and may
    happen at any later time.
  \<^item> A mutex is locked while some task holds its guard, so \<open>slot_held\<close> and \<open>account_held\<close> are read off the tasks; the
    strong count of a slot's \<^verbatim>\<open>Arc\<close> likewise.
  \<^item> Temporary files have fresh names and are not shared, so they are left out; a content is a list of bytes and
    the entity tags (SHA-256) are the second part of the keys.
  \<^item> \<open>ms_fetched\<close> and \<open>ms_lossy\<close> are ghost state: what the downloader has returned for each key, and whether a file operation
    has failed or been abandoned.
\<close>

section \<open>Shared state\<close>

type_synonym bytes = "nat list"
type_synonym slot = nat

record cache =
  mc_enabled :: bool
  mc_max_bytes :: nat
  mc_max_object_bytes :: nat
  mc_downloads :: nat
  mc_index :: media_index
  mc_flight :: "(mkey \<times> slot) list"
  mc_next_slot :: slot
  mc_purged :: "uuid list"
  mc_open_handles :: nat
  mc_files :: "(mkey \<times> bytes) list"
  mc_dirs :: "uuid list"

record media_config =
  cfg_enabled :: bool
  cfg_max_bytes :: nat
  cfg_max_object_bytes :: nat
  cfg_max_concurrent_downloads :: nat

definition cache_open :: "media_config \<Rightarrow> (mkey \<times> bytes) list \<Rightarrow> cache" where
  "cache_open cfg files =
     \<lparr>mc_enabled = cfg_enabled cfg, mc_max_bytes = cfg_max_bytes cfg, mc_max_object_bytes = cfg_max_object_bytes cfg,
      mc_downloads = max (cfg_max_concurrent_downloads cfg) 1, mc_index = index_default, mc_flight = [],
      mc_next_slot = 0, mc_purged = [], mc_open_handles = 0, mc_files = files,
      mc_dirs = remdups (map (fst \<circ> fst) files)\<rparr>"

datatype fetch_error =
    FeInternal rstr | FeAccountNotFound rstr | FeNotFound rstr | FeInvalid rstr | FeForbidden rstr
  | FeNotConnected rstr | FeUpstream rstr | FeUndecryptable rstr

datatype media_cache_error = McFetch fetch_error | TooLarge nat nat | McIo

text \<open>How a request ends: its resource, an error, or its future dropped.\<close>

datatype ending = Served bytes | Failed media_cache_error | Dropped

section \<open>Single flight\<close>

definition flight_slot :: "mkey \<Rightarrow> cache \<Rightarrow> slot \<times> cache" where
  "flight_slot k c =
     (case map_of (mc_flight c) k of
        Some s \<Rightarrow> (s, c)
      | None \<Rightarrow> (mc_next_slot c, c\<lparr>mc_flight := (k, mc_next_slot c) # mc_flight c, mc_next_slot := Suc (mc_next_slot c)\<rparr>))"

text \<open>\<open>strong_count\<close> is the count of the slot the map holds for \<open>k\<close>.\<close>

definition release_flight :: "(slot \<Rightarrow> nat) \<Rightarrow> mkey \<Rightarrow> cache \<Rightarrow> cache" where
  "release_flight strong_count k c =
     (case map_of (mc_flight c) k of
        None \<Rightarrow> c
      | Some s \<Rightarrow> if strong_count s = 1 then c\<lparr>mc_flight := AList.delete k (mc_flight c)\<rparr> else c)"

section \<open>Tasks\<close>

datatype pc =
    Start mkey
  | Hit mkey "slot option" bytes
  | Missed mkey
  | Joined mkey slot
  | Locked mkey slot
  | WaitPermit mkey "slot option"
  | Fetching mkey "slot option"
  | Fetched mkey "slot option" bytes
  | WaitAccount mkey slot bytes
  | Mkdir mkey slot bytes
  | Renaming mkey slot bytes
  | Recording mkey slot bytes
  | Evicting mkey slot bytes "mkey list"
  | Leaving mkey slot ending
  | DropRef mkey slot ending
  | Releasing mkey ending
  | Done mkey ending
  | Closed mkey
  | PurgeWait uuid
  | PurgeIndex uuid
  | PurgeRemove uuid
  | PurgeDone uuid bool
  | RbScan "mkey list" "(nat option \<times> mkey \<times> nat) list"
  | RbEvict "mkey list"
  | RbDone

fun slot_ref :: "pc \<Rightarrow> (mkey \<times> slot) option" where
  "slot_ref (Hit k so _) = map_option (Pair k) so"
| "slot_ref (Joined k s) = Some (k, s)"
| "slot_ref (Locked k s) = Some (k, s)"
| "slot_ref (WaitPermit k so) = map_option (Pair k) so"
| "slot_ref (Fetching k so) = map_option (Pair k) so"
| "slot_ref (Fetched k so _) = map_option (Pair k) so"
| "slot_ref (WaitAccount k s _) = Some (k, s)"
| "slot_ref (Mkdir k s _) = Some (k, s)"
| "slot_ref (Renaming k s _) = Some (k, s)"
| "slot_ref (Recording k s _) = Some (k, s)"
| "slot_ref (Evicting k s _ _) = Some (k, s)"
| "slot_ref (Leaving k s _) = Some (k, s)"
| "slot_ref (DropRef k s _) = Some (k, s)"
| "slot_ref _ = None"

fun slot_held :: "pc \<Rightarrow> slot option" where
  "slot_held (Joined k s) = None"
| "slot_held (DropRef k s _) = None"
| "slot_held p = map_option snd (slot_ref p)"

fun account_held :: "pc \<Rightarrow> uuid option" where
  "account_held (Mkdir k _ _) = Some (fst k)"
| "account_held (Renaming k _ _) = Some (fst k)"
| "account_held (Recording k _ _) = Some (fst k)"
| "account_held (Evicting k _ _ _) = Some (fst k)"
| "account_held (PurgeIndex a) = Some a"
| "account_held (PurgeRemove a) = Some a"
| "account_held _ = None"

text \<open>The map's own reference counts.\<close>

definition strong_count :: "pc list \<Rightarrow> slot \<Rightarrow> nat" where
  "strong_count ts s = Suc (length (filter (\<lambda>p. map_option snd (slot_ref p) = Some s) ts))"

text \<open>File operations that go on after their future is dropped.\<close>

datatype background = BgMkdir uuid | BgRename mkey bytes | BgUnlink mkey

record media_system =
  ms_cache :: cache
  ms_tasks :: "pc list"
  ms_background :: "background list"
  ms_fetched :: "(mkey \<times> bytes) list"
  ms_lossy :: bool

section \<open>The disk\<close>

definition fs_mkdir :: "uuid \<Rightarrow> cache \<Rightarrow> cache" where
  "fs_mkdir a c = c\<lparr>mc_dirs := List.insert a (mc_dirs c)\<rparr>"

text \<open>A rename into a directory that does not exist fails.\<close>

definition fs_rename :: "mkey \<Rightarrow> bytes \<Rightarrow> cache \<Rightarrow> cache option" where
  "fs_rename k data c =
     (if fst k \<in> set (mc_dirs c) then Some (c\<lparr>mc_files := AList.update k data (mc_files c)\<rparr>) else None)"

definition fs_unlink :: "mkey \<Rightarrow> cache \<Rightarrow> cache" where
  "fs_unlink k c = c\<lparr>mc_files := AList.delete k (mc_files c)\<rparr>"

definition account_files :: "uuid \<Rightarrow> cache \<Rightarrow> mkey list" where
  "account_files a c = filter (\<lambda>k. fst k = a) (map fst (mc_files c))"

definition fs_rmdir :: "uuid \<Rightarrow> cache \<Rightarrow> cache option" where
  "fs_rmdir a c =
     (if account_files a c = [] then Some (c\<lparr>mc_dirs := removeAll a (mc_dirs c)\<rparr>) else None)"

section \<open>Pieces of the operations\<close>

text \<open>The end of \<^verbatim>\<open>try_hit\<close>: the entry is touched and a resource handed out.\<close>

definition hit_touch :: "mkey \<Rightarrow> cache \<Rightarrow> cache option" where
  "hit_touch k c =
     map_option (\<lambda>ix. c\<lparr>mc_index := ix, mc_open_handles := Suc (mc_open_handles c)\<rparr>) (index_touch k (mc_index c))"

text \<open>The verdict of \<^verbatim>\<open>fetch_capped\<close> on what the downloader returned.\<close>

definition fetch_capped :: "nat \<Rightarrow> (fetch_error + bytes) \<Rightarrow> media_cache_error + bytes" where
  "fetch_capped cap r =
     (case r of
        Inl e \<Rightarrow> Inl (McFetch e)
      | Inr data \<Rightarrow> if cap < length data then Inl (TooLarge (length data) cap) else Inr data)"

text \<open>The section of \<^verbatim>\<open>store_and_open\<close> under the index mutex.\<close>

definition store_record :: "mkey \<Rightarrow> nat \<Rightarrow> cache \<Rightarrow> (mkey list \<times> cache) option" where
  "store_record k len c =
     (case index_record k len (mc_index c) of
        None \<Rightarrow> None
      | Some ix \<Rightarrow> map_option (\<lambda>(victims, ix'). (victims, c\<lparr>mc_index := ix'\<rparr>)) (collect_evictions (mc_max_bytes c) ix))"

fun seed_index :: "(nat option \<times> mkey \<times> nat) list \<Rightarrow> media_index \<Rightarrow> media_index option" where
  "seed_index [] ix = Some ix"
| "seed_index ((_, k, len) # found) ix =
     (case record_if_absent k len ix of None \<Rightarrow> None | Some ix' \<Rightarrow> seed_index found ix')"

text \<open>The end of \<^verbatim>\<open>rebuild\<close>: entries in order of modification time, unknown times first.\<close>

definition rebuild_seed :: "(nat option \<times> mkey \<times> nat) list \<Rightarrow> cache \<Rightarrow> (mkey list \<times> cache) option" where
  "rebuild_seed found c =
     (case seed_index (sort_key (\<lambda>e. case fst e of None \<Rightarrow> 0 | Some t \<Rightarrow> Suc t) found) (mc_index c) of
        None \<Rightarrow> None
      | Some ix \<Rightarrow> map_option (\<lambda>(victims, ix'). (victims, c\<lparr>mc_index := ix'\<rparr>)) (collect_evictions (mc_max_bytes c) ix))"

definition open_resource :: "cache \<Rightarrow> cache" where
  "open_resource c = c\<lparr>mc_open_handles := Suc (mc_open_handles c)\<rparr>"

section \<open>One step of a task\<close>

text \<open>What the awaited operation did: it went on, failed, failed beyond repair, the download returned, a file's
  metadata was read, another file was met by the scan, or the future was dropped.\<close>

datatype act = Go | Fail | FailAll | Returned "fetch_error + bytes" | Stat "nat option" | See mkey "nat option" | Cancel

text \<open>Where the task goes, the shared state, operations left to the background, what was downloaded, and whether
  a file may now be unaccounted for.\<close>

type_synonym effect = "pc \<times> cache \<times> background list \<times> (mkey \<times> bytes) list \<times> bool"

definition goto :: "pc \<Rightarrow> cache \<Rightarrow> effect option" where
  "goto p c = Some (p, c, [], [], False)"

text \<open>The guards of \<^verbatim>\<open>get_or_fetch_keyed\<close> are dropped on every way out.\<close>

definition leave :: "mkey \<Rightarrow> slot option \<Rightarrow> ending \<Rightarrow> pc" where
  "leave k so e = (case so of None \<Rightarrow> Done k e | Some s \<Rightarrow> Leaving k s e)"

definition lookup_step :: "pc list \<Rightarrow> cache \<Rightarrow> act \<Rightarrow> pc \<Rightarrow> effect option" where
  "lookup_step ts c act p =
     (case p of
        Start k \<Rightarrow>
          if \<not> mc_enabled c then (if act = Go then goto (WaitPermit k None) c else None)
          else (case act of
                  Go \<Rightarrow> (case map_of (mc_files c) k of
                           None \<Rightarrow> goto (Missed k) c | Some data \<Rightarrow> goto (Hit k None data) c)
                | Fail \<Rightarrow> goto (Missed k) c
                | _ \<Rightarrow> None)
      | Hit k so data \<Rightarrow>
          (case act of
             Go \<Rightarrow> (case hit_touch k c of None \<Rightarrow> None | Some c' \<Rightarrow> goto (leave k so (Served data)) c')
           | Fail \<Rightarrow> goto (case so of None \<Rightarrow> Missed k | Some s \<Rightarrow> WaitPermit k so) c
           | _ \<Rightarrow> None)
      | Missed k \<Rightarrow>
          (if act = Go then (case flight_slot k c of (s, c') \<Rightarrow> goto (Joined k s) c') else None)
      | Joined k s \<Rightarrow>
          (if act = Go \<and> (\<forall>q \<in> set ts. slot_held q \<noteq> Some s) then goto (Locked k s) c else None)
      | Locked k s \<Rightarrow>
          (case act of
             Go \<Rightarrow> (case map_of (mc_files c) k of
                      None \<Rightarrow> goto (WaitPermit k (Some s)) c | Some data \<Rightarrow> goto (Hit k (Some s) data) c)
           | Fail \<Rightarrow> goto (WaitPermit k (Some s)) c
           | _ \<Rightarrow> None)
      | _ \<Rightarrow> None)"

definition fetch_step :: "cache \<Rightarrow> act \<Rightarrow> pc \<Rightarrow> effect option" where
  "fetch_step c act p =
     (case p of
        WaitPermit k so \<Rightarrow>
          (if act = Go \<and> 0 < mc_downloads c then goto (Fetching k so) (c\<lparr>mc_downloads := mc_downloads c - 1\<rparr>) else None)
      | Fetching k so \<Rightarrow>
          (case act of
             Returned r \<Rightarrow>
               (let c' = c\<lparr>mc_downloads := Suc (mc_downloads c)\<rparr>
                in case fetch_capped (mc_max_object_bytes c) r of
                     Inl e \<Rightarrow> goto (leave k so (Failed e)) c'
                   | Inr data \<Rightarrow> Some (Fetched k so data, c', [], [(k, data)], False))
           | _ \<Rightarrow> None)
      | _ \<Rightarrow> None)"

definition store_step :: "pc list \<Rightarrow> cache \<Rightarrow> act \<Rightarrow> pc \<Rightarrow> effect option" where
  "store_step ts c act p =
     (case p of
        Fetched k so data \<Rightarrow>
          (case act of
             Go \<Rightarrow> (case so of
                      None \<Rightarrow> goto (Done k (Served data)) (open_resource c)
                    | Some s \<Rightarrow> goto (WaitAccount k s data) c)
           | Fail \<Rightarrow> goto (leave k so (Served data)) (open_resource c)
           | FailAll \<Rightarrow> goto (leave k so (Failed McIo)) c
           | _ \<Rightarrow> None)
      | WaitAccount k s data \<Rightarrow>
          (if act = Go \<and> (\<forall>q \<in> set ts. account_held q \<noteq> Some (fst k))
           then if fst k \<in> set (mc_purged c) then goto (Leaving k s (Served data)) (open_resource c)
                else goto (Mkdir k s data) c
           else None)
      | Mkdir k s data \<Rightarrow>
          (case act of
             Go \<Rightarrow> goto (Renaming k s data) (fs_mkdir (fst k) c)
           | Fail \<Rightarrow> goto (Leaving k s (Served data)) (open_resource c)
           | _ \<Rightarrow> None)
      | Renaming k s data \<Rightarrow>
          (case act of
             Go \<Rightarrow> (case fs_rename k data c of
                      Some c' \<Rightarrow> goto (Recording k s data) c'
                    | None \<Rightarrow> goto (Leaving k s (Served data)) (open_resource c))
           | Fail \<Rightarrow> goto (Leaving k s (Served data)) (open_resource c)
           | _ \<Rightarrow> None)
      | Recording k s data \<Rightarrow>
          (if act = Go
           then (case store_record k (length data) c of
                   None \<Rightarrow> None | Some (victims, c') \<Rightarrow> goto (Evicting k s data victims) c')
           else None)
      | Evicting k s data victims \<Rightarrow>
          (case victims of
             [] \<Rightarrow> if act = Go then goto (Leaving k s (Served data)) (open_resource c) else None
           | v # vs \<Rightarrow>
               (case act of
                  Go \<Rightarrow> goto (Evicting k s data vs) (fs_unlink v c)
                | Fail \<Rightarrow> Some (Evicting k s data vs, c, [], [], True)
                | _ \<Rightarrow> None))
      | _ \<Rightarrow> None)"

definition leave_step :: "pc list \<Rightarrow> cache \<Rightarrow> act \<Rightarrow> pc \<Rightarrow> effect option" where
  "leave_step ts c act p =
     (case p of
        Leaving k s e \<Rightarrow> (if act = Go then goto (DropRef k s e) c else None)
      | DropRef k s e \<Rightarrow> (if act = Go then goto (Releasing k e) c else None)
      | Releasing k e \<Rightarrow> (if act = Go then goto (Done k e) (release_flight (strong_count ts) k c) else None)
      | Done k e \<Rightarrow>
          (case e of
             Served data \<Rightarrow>
               if act = Go then goto (Closed k) (c\<lparr>mc_open_handles := mc_open_handles c - 1\<rparr>) else None
           | _ \<Rightarrow> None)
      | _ \<Rightarrow> None)"

definition cancel_step :: "cache \<Rightarrow> pc \<Rightarrow> effect option" where
  "cancel_step c p =
     (case p of
        Start k \<Rightarrow> (if mc_enabled c then goto (Done k Dropped) c else None)
      | Hit k so data \<Rightarrow> goto (leave k so Dropped) c
      | Joined k s \<Rightarrow> goto (DropRef k s Dropped) c
      | Locked k s \<Rightarrow> goto (Leaving k s Dropped) c
      | WaitPermit k so \<Rightarrow> goto (leave k so Dropped) c
      | Fetching k so \<Rightarrow> goto (leave k so Dropped) (c\<lparr>mc_downloads := Suc (mc_downloads c)\<rparr>)
      | Fetched k so data \<Rightarrow> goto (leave k so Dropped) c
      | WaitAccount k s data \<Rightarrow> goto (Leaving k s Dropped) c
      | Mkdir k s data \<Rightarrow> Some (Leaving k s Dropped, c, [BgMkdir (fst k)], [], False)
      | Renaming k s data \<Rightarrow> Some (Leaving k s Dropped, c, [BgRename k data], [], True)
      | Evicting k s data (v # vs) \<Rightarrow> Some (Leaving k s Dropped, c, [BgUnlink v], [], vs \<noteq> [])
      | _ \<Rightarrow> None)"

text \<open>\<^verbatim>\<open>purge_account\<close>: the tombstone, the index, the directory. Removing the directory unlinks its files one by one.\<close>

definition purge_step :: "pc list \<Rightarrow> cache \<Rightarrow> act \<Rightarrow> pc \<Rightarrow> effect option" where
  "purge_step ts c act p =
     (case p of
        PurgeWait a \<Rightarrow>
          (if act = Go \<and> (\<forall>q \<in> set ts. account_held q \<noteq> Some a)
           then goto (PurgeIndex a) (c\<lparr>mc_purged := List.insert a (mc_purged c)\<rparr>) else None)
      | PurgeIndex a \<Rightarrow>
          (if act = Go
           then (case remove_account a (mc_index c) of
                   None \<Rightarrow> None | Some ix \<Rightarrow> goto (PurgeRemove a) (c\<lparr>mc_index := ix\<rparr>))
           else None)
      | PurgeRemove a \<Rightarrow>
          (case act of
             See k _ \<Rightarrow> (if fst k = a then goto (PurgeRemove a) (fs_unlink k c) else None)
           | Go \<Rightarrow> (case fs_rmdir a c of None \<Rightarrow> None | Some c' \<Rightarrow> goto (PurgeDone a True) c')
           | Fail \<Rightarrow> Some (PurgeDone a False, c, [], [], True)
           | _ \<Rightarrow> None)
      | _ \<Rightarrow> None)"

definition rebuild_step :: "cache \<Rightarrow> act \<Rightarrow> pc \<Rightarrow> effect option" where
  "rebuild_step c act p =
     (case p of
        RbScan todo found \<Rightarrow>
          (case act of
             See k mtime \<Rightarrow>
               (case map_of (mc_files c) k of
                  None \<Rightarrow> None
                | Some data \<Rightarrow> goto (RbScan todo (found @ [(mtime, k, length data)])) c)
           | _ \<Rightarrow>
          (case todo of
             [] \<Rightarrow> if act = Go
                   then (case rebuild_seed found c of None \<Rightarrow> None | Some (victims, c') \<Rightarrow> goto (RbEvict victims) c')
                   else None
           | k # todo' \<Rightarrow>
               (case act of
                  Stat mtime \<Rightarrow>
                    (case map_of (mc_files c) k of
                       None \<Rightarrow> goto (RbScan todo' found) c
                     | Some data \<Rightarrow> goto (RbScan todo' (found @ [(mtime, k, length data)])) c)
                | Fail \<Rightarrow> Some (RbScan todo' found, c, [], [], True)
                | _ \<Rightarrow> None)))
      | RbEvict victims \<Rightarrow>
          (case victims of
             [] \<Rightarrow> if act = Go then goto RbDone c else None
           | v # vs \<Rightarrow>
               (case act of
                  Go \<Rightarrow> goto (RbEvict vs) (fs_unlink v c)
                | Fail \<Rightarrow> Some (RbEvict vs, c, [], [], True)
                | _ \<Rightarrow> None))
      | _ \<Rightarrow> None)"

definition task_step :: "pc list \<Rightarrow> cache \<Rightarrow> act \<Rightarrow> pc \<Rightarrow> effect option" where
  "task_step ts c act p =
     (if act = Cancel then cancel_step c p
      else case lookup_step ts c act p of
        Some r \<Rightarrow> Some r
      | None \<Rightarrow> (case fetch_step c act p of
        Some r \<Rightarrow> Some r
      | None \<Rightarrow> (case store_step ts c act p of
        Some r \<Rightarrow> Some r
      | None \<Rightarrow> (case leave_step ts c act p of
        Some r \<Rightarrow> Some r
      | None \<Rightarrow> (case purge_step ts c act p of
        Some r \<Rightarrow> Some r
      | None \<Rightarrow> rebuild_step c act p)))))"

section \<open>The system\<close>

datatype event = Step nat act | Request mkey | Purge uuid | Background nat

fun background_step :: "background \<Rightarrow> cache \<Rightarrow> cache" where
  "background_step (BgMkdir a) c = fs_mkdir a c"
| "background_step (BgRename k data) c = (case fs_rename k data c of None \<Rightarrow> c | Some c' \<Rightarrow> c')"
| "background_step (BgUnlink k) c = fs_unlink k c"

fun media_step :: "event \<Rightarrow> media_system \<Rightarrow> media_system option" where
  "media_step (Step i act) y =
     (if i < length (ms_tasks y)
      then (case task_step (ms_tasks y) (ms_cache y) act (ms_tasks y ! i) of
              None \<Rightarrow> None
            | Some (p, c, bg, fetched, lossy) \<Rightarrow>
                Some \<lparr>ms_cache = c, ms_tasks = (ms_tasks y)[i := p], ms_background = ms_background y @ bg,
                      ms_fetched = ms_fetched y @ fetched, ms_lossy = (ms_lossy y \<or> lossy)\<rparr>)
      else None)"
| "media_step (Request k) y = Some (y\<lparr>ms_tasks := ms_tasks y @ [Start k]\<rparr>)"
| "media_step (Purge a) y = Some (y\<lparr>ms_tasks := ms_tasks y @ [PurgeWait a]\<rparr>)"
| "media_step (Background i) y =
     (if i < length (ms_background y)
      then Some (y\<lparr>ms_cache := background_step (ms_background y ! i) (ms_cache y),
                   ms_background := take i (ms_background y) @ drop (Suc i) (ms_background y)\<rparr>)
      else None)"

text \<open>At boot an enabled cache starts one task that scans the files it finds.\<close>

definition media_boot :: "media_config \<Rightarrow> (mkey \<times> bytes) list \<Rightarrow> media_system" where
  "media_boot cfg files =
     \<lparr>ms_cache = cache_open cfg files, ms_tasks = (if cfg_enabled cfg then [RbScan (map fst files) []] else []),
      ms_background = [], ms_fetched = files, ms_lossy = False\<rparr>"

fun media_run :: "event list \<Rightarrow> media_system \<Rightarrow> media_system option" where
  "media_run [] y = Some y"
| "media_run (e # es) y = (case media_step e y of None \<Rightarrow> None | Some y' \<Rightarrow> media_run es y')"

definition media_steps :: "media_system \<Rightarrow> media_system \<Rightarrow> bool" where
  "media_steps y y' \<longleftrightarrow> (\<exists>e. media_step e y = Some y')"

definition media_init :: "media_system \<Rightarrow> bool" where
  "media_init y \<longleftrightarrow> (\<exists>cfg files. distinct (map fst files) \<and> y = media_boot cfg files)"

lemma media_run_steps: "media_run es y = Some y' \<Longrightarrow> media_steps\<^sup>*\<^sup>* y y'"
proof (induction es arbitrary: y)
  case (Cons e es)
  then show ?case
    by (auto simp: media_steps_def split: option.splits intro: converse_rtranclp_into_rtranclp)
qed simp

lemmas step_defs = goto_def lookup_step_def fetch_step_def store_step_def leave_step_def cancel_step_def purge_step_def
  rebuild_step_def

lemmas step_splits = if_splits option.splits act.splits list.splits sum.splits ending.splits prod.splits

text \<open>A step belongs to one of the six groups.\<close>

lemma task_step_groups:
  assumes "task_step ts c act p = Some r"
  obtains (cancel) "act = Cancel" "cancel_step c p = Some r"
  | (lookup) "lookup_step ts c act p = Some r"
  | (fetch) "fetch_step c act p = Some r"
  | (store) "store_step ts c act p = Some r"
  | (leave) "leave_step ts c act p = Some r"
  | (purge) "purge_step ts c act p = Some r"
  | (rebuild) "rebuild_step c act p = Some r"
  using assms by (auto simp: task_step_def split: if_splits option.splits)

lemma set_update_nth: "i < length xs \<Longrightarrow> q \<in> set (xs[i := p]) \<Longrightarrow> q = p \<or> (\<exists>j < length xs. j \<noteq> i \<and> q = xs ! j)"
  by (auto simp: in_set_conv_nth nth_list_update split: if_splits)

lemma in_set_update: "i < length xs \<Longrightarrow> q \<in> set xs \<Longrightarrow> q \<noteq> xs ! i \<Longrightarrow> q \<in> set (xs[i := p])"
  by (metis in_set_conv_nth length_list_update nth_list_update_neq)

text \<open>A guard that is taken only while no task holds it is held by one task at most.\<close>

definition exclusive :: "(pc \<Rightarrow> 'x option) \<Rightarrow> pc list \<Rightarrow> bool" where
  "exclusive h ts \<longleftrightarrow> (\<forall>i j x. i < length ts \<and> j < length ts \<and> h (ts ! i) = Some x \<and> h (ts ! j) = Some x \<longrightarrow> i = j)"

lemma exclusiveD: "exclusive h ts \<Longrightarrow> i < length ts \<Longrightarrow> j < length ts \<Longrightarrow> h (ts ! i) = Some x \<Longrightarrow> h (ts ! j) = Some x \<Longrightarrow> i = j"
  by (auto simp: exclusive_def)

lemma exclusive_update:
  assumes "exclusive h ts" "i < length ts" "\<forall>x. h p = Some x \<longrightarrow> h (ts ! i) = Some x \<or> (\<forall>q \<in> set ts. h q \<noteq> Some x)"
  shows "exclusive h (ts[i := p])"
  unfolding exclusive_def
proof (intro allI impI)
  fix a b x
  assume ab: "a < length (ts[i := p]) \<and> b < length (ts[i := p]) \<and> h (ts[i := p] ! a) = Some x \<and> h (ts[i := p] ! b) = Some x"
  then have len: "a < length ts" "b < length ts" by simp_all
  have "h (ts ! a) = Some x" if "a \<noteq> i" using ab that by simp
  moreover have "h (ts ! b) = Some x" if "b \<noteq> i" using ab that by simp
  moreover have "h (ts ! i) = Some x \<or> (\<forall>q \<in> set ts. h q \<noteq> Some x)" if "a = i \<or> b = i"
    using ab that assms(2,3) by auto
  ultimately show "a = b"
    using exclusiveD [OF assms(1) len] exclusiveD [OF assms(1,2) len(2)] exclusiveD [OF assms(1) len(1) assms(2)]
      nth_mem [OF len(1)] nth_mem [OF len(2)]
    by (cases "a = i"; cases "b = i") auto
qed

lemma exclusive_append: "exclusive h ts \<Longrightarrow> h p = None \<Longrightarrow> exclusive h (ts @ [p])"
  by (auto simp: exclusive_def nth_append less_Suc_eq)

lemma media_step_task:
  assumes "media_step (Step i act) y = Some y'"
  obtains p c bg fetched lossy where "i < length (ms_tasks y)"
    "task_step (ms_tasks y) (ms_cache y) act (ms_tasks y ! i) = Some (p, c, bg, fetched, lossy)"
    "ms_cache y' = c" "ms_tasks y' = (ms_tasks y)[i := p]" "ms_background y' = ms_background y @ bg"
    "ms_fetched y' = ms_fetched y @ fetched" "ms_lossy y' = (ms_lossy y \<or> lossy)"
  using assms by (auto split: if_splits option.splits)

text \<open>A configuration for the examples.\<close>

definition demo_media :: media_config where
  "demo_media = \<lparr>cfg_enabled = True, cfg_max_bytes = 10, cfg_max_object_bytes = 8, cfg_max_concurrent_downloads = 2\<rparr>"

end
