(* ===== verification/Media_Flight.thy ===== *)
theory Media_Flight
  imports Media_Cache
begin

text \<open>
  Single flight in the media cache: the invariant that ties the flight map to the references the tasks hold, under
  every interleaving and every cancellation of \<open>media_step\<close>.
\<close>

section \<open>At most one download per key\<close>

lemma slot_ref_leave [simp]: "slot_ref (leave k so e) = map_option (Pair k) so"
  by (simp add: leave_def split: option.split)

lemma slot_held_leave [simp]: "slot_held (leave k so e) = so"
  by (simp add: leave_def split: option.split)

text \<open>What a step does to the flight map and to the task's share of it.\<close>

definition flight_kept :: "pc list \<Rightarrow> cache \<Rightarrow> pc \<Rightarrow> pc \<Rightarrow> cache \<Rightarrow> bool" where
  "flight_kept ts c p p' c' \<longleftrightarrow>
     mc_flight c' = mc_flight c \<and> mc_next_slot c' = mc_next_slot c \<and> slot_ref p' = slot_ref p \<and>
     (\<forall>s. slot_held p' = Some s \<longrightarrow> slot_held p = Some s \<or> (\<forall>q \<in> set ts. slot_held q \<noteq> Some s)) \<and>
     (\<forall>k e. p' \<noteq> Releasing k e \<and> p \<noteq> Releasing k e)"

lemma flight_same [simp]:
  "mc_flight (fs_mkdir a c) = mc_flight c" "mc_next_slot (fs_mkdir a c) = mc_next_slot c"
  "mc_flight (fs_unlink k c) = mc_flight c" "mc_next_slot (fs_unlink k c) = mc_next_slot c"
  "mc_flight (open_resource c) = mc_flight c" "mc_next_slot (open_resource c) = mc_next_slot c"
  by (simp_all add: fs_mkdir_def fs_unlink_def open_resource_def)

lemma flight_same_option:
  "fs_rename k data c = Some c' \<Longrightarrow> mc_flight c' = mc_flight c \<and> mc_next_slot c' = mc_next_slot c"
  "fs_rmdir a c = Some c' \<Longrightarrow> mc_flight c' = mc_flight c \<and> mc_next_slot c' = mc_next_slot c"
  "hit_touch k c = Some c' \<Longrightarrow> mc_flight c' = mc_flight c \<and> mc_next_slot c' = mc_next_slot c"
  "store_record k n c = Some (vs, c') \<Longrightarrow> mc_flight c' = mc_flight c \<and> mc_next_slot c' = mc_next_slot c"
  "rebuild_seed found c = Some (vs, c') \<Longrightarrow> mc_flight c' = mc_flight c \<and> mc_next_slot c' = mc_next_slot c"
  by (auto simp: fs_rename_def fs_rmdir_def hit_touch_def store_record_def rebuild_seed_def split: if_splits option.splits)

lemma lookup_step_flight:
  assumes "lookup_step ts c act p = Some (p', c', x)"
  shows "flight_kept ts c p p' c' \<or> (\<exists>k s. p = Missed k \<and> flight_slot k c = (s, c') \<and> p' = Joined k s)"
  using assms
  by (cases p) (auto simp: step_defs flight_kept_def leave_def split: step_splits dest!: flight_same_option)

lemma fetch_step_flight: "fetch_step c act p = Some (p', c', x) \<Longrightarrow> flight_kept ts c p p' c'"
  by (cases p) (auto simp: step_defs flight_kept_def leave_def Let_def split: step_splits)

lemma store_step_flight: "store_step ts c act p = Some (p', c', x) \<Longrightarrow> flight_kept ts c p p' c'"
  by (cases p) (auto simp: step_defs flight_kept_def leave_def split: step_splits dest!: flight_same_option)

lemma purge_step_flight: "purge_step ts c act p = Some (p', c', x) \<Longrightarrow> flight_kept ts c p p' c'"
  by (cases p) (auto simp: step_defs flight_kept_def split: step_splits dest!: flight_same_option)

lemma rebuild_step_flight: "rebuild_step c act p = Some (p', c', x) \<Longrightarrow> flight_kept ts c p p' c'"
  by (cases p) (auto simp: step_defs flight_kept_def split: step_splits dest!: flight_same_option)

lemma cancel_step_flight: "cancel_step c p = Some (p', c', x) \<Longrightarrow> flight_kept ts c p p' c'"
  by (cases p) (auto simp: step_defs flight_kept_def leave_def split: step_splits)

lemma leave_step_flight:
  assumes "leave_step ts c act p = Some (p', c', x)"
  shows "flight_kept ts c p p' c' \<or>
    (\<exists>k s e. p = DropRef k s e \<and> p' = Releasing k e \<and> c' = c) \<or>
    (\<exists>k e. p = Releasing k e \<and> p' = Done k e \<and> c' = release_flight (strong_count ts) k c)"
  using assms by (cases p) (auto simp: step_defs flight_kept_def split: step_splits)

lemma task_step_flight:
  assumes "task_step ts c act p = Some (p', c', x)"
  obtains (kept) "flight_kept ts c p p' c'"
  | (join) k s where "p = Missed k" "flight_slot k c = (s, c')" "p' = Joined k s"
  | (dropped) k s e where "p = DropRef k s e" "p' = Releasing k e" "c' = c"
  | (release) k e where "p = Releasing k e" "p' = Done k e" "c' = release_flight (strong_count ts) k c"
  using assms
proof (cases rule: task_step_groups)
  case lookup
  then show ?thesis using lookup_step_flight kept join by blast
next
  case leave
  then show ?thesis using leave_step_flight kept dropped release by blast
qed (blast intro: kept cancel_step_flight fetch_step_flight store_step_flight purge_step_flight rebuild_step_flight)+

definition flight_map_inv :: "pc list \<Rightarrow> cache \<Rightarrow> bool" where
  "flight_map_inv ts c \<longleftrightarrow>
     (\<forall>q \<in> set ts. \<forall>k s. slot_ref q = Some (k, s) \<longrightarrow> map_of (mc_flight c) k = Some s) \<and>
     (\<forall>k s. map_of (mc_flight c) k = Some s \<longrightarrow> s < mc_next_slot c) \<and>
     (\<forall>k k' s. map_of (mc_flight c) k = Some s \<and> map_of (mc_flight c) k' = Some s \<longrightarrow> k = k') \<and>
     (\<forall>k s. map_of (mc_flight c) k = Some s \<longrightarrow>
        (\<exists>q \<in> set ts. slot_ref q = Some (k, s) \<or> (\<exists>e. q = Releasing k e)))"

lemma flight_map_invD:
  assumes "flight_map_inv ts c"
  shows "\<And>q k s. q \<in> set ts \<Longrightarrow> slot_ref q = Some (k, s) \<Longrightarrow> map_of (mc_flight c) k = Some s"
    and "\<And>k s. map_of (mc_flight c) k = Some s \<Longrightarrow> s < mc_next_slot c"
    and "\<And>k k' s. map_of (mc_flight c) k = Some s \<Longrightarrow> map_of (mc_flight c) k' = Some s \<Longrightarrow> k = k'"
    and "\<And>k s. map_of (mc_flight c) k = Some s \<Longrightarrow> \<exists>q \<in> set ts. slot_ref q = Some (k, s) \<or> (\<exists>e. q = Releasing k e)"
  using assms unfolding flight_map_inv_def by ((elim conjE, meson), (elim conjE, meson), (elim conjE, meson), (elim conjE, meson))

lemma flight_map_inv_append:
  assumes "flight_map_inv ts c" "slot_ref p = None"
  shows "flight_map_inv (ts @ [p]) c"
proof -
  note D = flight_map_invD [OF assms(1)]
  have "map_of (mc_flight c) k = Some s" if "q \<in> set (ts @ [p])" "slot_ref q = Some (k, s)" for q k s
    using that assms(2) D(1) [of q k s] by auto
  moreover have "\<exists>q \<in> set (ts @ [p]). slot_ref q = Some (k, s) \<or> (\<exists>e. q = Releasing k e)"
    if "map_of (mc_flight c) k = Some s" for k s
    using D(4) [OF that] by auto
  ultimately show ?thesis unfolding flight_map_inv_def using D(2,3) by (intro conjI) (blast, blast, blast, blast)
qed

lemma flight_map_inv_kept:
  assumes "flight_map_inv ts c" "i < length ts" "flight_kept ts c (ts ! i) p' c'"
  shows "flight_map_inv (ts[i := p']) c'"
proof -
  note D = flight_map_invD [OF assms(1)]
  note kept = assms(3) [unfolded flight_kept_def]
  have mem: "ts ! i \<in> set ts" using assms(2) by simp
  have refs: "\<exists>q' \<in> set ts. slot_ref q' = slot_ref q" if "q \<in> set (ts[i := p'])" for q
    using set_update_nth [OF assms(2) that] kept mem by auto
  have stays: "\<exists>q' \<in> set (ts[i := p']). slot_ref q' = Some (k, s) \<or> (\<exists>e. q' = Releasing k e)"
    if "q \<in> set ts" "slot_ref q = Some (k, s) \<or> (\<exists>e. q = Releasing k e)" for q k s
  proof (cases "q = ts ! i")
    case True
    with that(2) kept have "slot_ref p' = Some (k, s)" by auto
    then show ?thesis using set_update_memI [OF assms(2)] by blast
  next
    case False
    with that in_set_update [OF assms(2)] show ?thesis by blast
  qed
  have same: "mc_flight c' = mc_flight c" "mc_next_slot c' = mc_next_slot c" using kept by simp_all
  show ?thesis
    unfolding flight_map_inv_def same
    using refs D stays by (intro conjI) (metis, blast, blast, metis)
qed

lemma flight_map_inv_dropped:
  assumes "flight_map_inv ts c" "i < length ts" "ts ! i = DropRef k s e"
  shows "flight_map_inv (ts[i := Releasing k e]) c"
proof -
  note D = flight_map_invD [OF assms(1)]
  have stays: "\<exists>q' \<in> set (ts[i := Releasing k e]). slot_ref q' = Some (k', s') \<or> (\<exists>e. q' = Releasing k' e)"
    if q: "q \<in> set ts" "slot_ref q = Some (k', s') \<or> (\<exists>e. q = Releasing k' e)" for q k' s'
  proof (cases "q = ts ! i")
    case True
    with q(2) assms(3) have "k' = k" by simp
    then show ?thesis using set_update_memI [OF assms(2), of "Releasing k e"] by blast
  next
    case False
    with q in_set_update [OF assms(2)] show ?thesis by blast
  qed
  have old: "q \<in> set ts" if "q \<in> set (ts[i := Releasing k e])" "slot_ref q = Some r" for q r
    using set_update_nth [OF assms(2) that(1)] that(2) by auto
  show ?thesis
    unfolding flight_map_inv_def using D old stays by (intro conjI) (blast, blast, blast, metis)
qed

lemma flight_map_inv_join:
  assumes "flight_map_inv ts c" "i < length ts" "ts ! i = Missed k" "flight_slot k c = (s, c')"
  shows "flight_map_inv (ts[i := Joined k s]) c'"
proof -
  note D = flight_map_invD [OF assms(1)]
  have old: "q = Joined k s \<or> q \<in> set ts" if "q \<in> set (ts[i := Joined k s])" for q
    using set_update_nth [OF assms(2) that] by auto
  have stays: "q \<in> set (ts[i := Joined k s])" if "q \<in> set ts" "slot_ref q = Some r \<or> (\<exists>k e. q = Releasing k e)" for q r
    using that assms(3) by (intro in_set_update [OF assms(2)]) auto
  have new: "Joined k s \<in> set (ts[i := Joined k s])" by (rule set_update_memI [OF assms(2)])
  show ?thesis
  proof (cases "map_of (mc_flight c) k")
    case (Some s')
    with assms(4) have eq: "s' = s" "c' = c" by (simp_all add: flight_slot_def)
    show ?thesis
      unfolding flight_map_inv_def eq
    proof (intro conjI ballI allI impI)
      fix q k' t assume "q \<in> set (ts[i := Joined k s])" "slot_ref q = Some (k', t)"
      then show "map_of (mc_flight c) k' = Some t" using old D(1) Some eq by fastforce
    next
      fix k' t assume "map_of (mc_flight c) k' = Some t"
      then show "\<exists>q \<in> set (ts[i := Joined k s]). slot_ref q = Some (k', t) \<or> (\<exists>e. q = Releasing k' e)"
        using D(4) stays by meson
    qed (use D(2,3) in blast)+
  next
    case None
    with assms(4) have eq: "s = mc_next_slot c" "mc_flight c' = (k, s) # mc_flight c" "mc_next_slot c' = Suc s"
      by (auto simp: flight_slot_def)
    have fresh: "map_of (mc_flight c) k' \<noteq> Some s" for k' using D(2) eq(1) by fastforce
    show ?thesis
      unfolding flight_map_inv_def
    proof (intro conjI ballI allI impI)
      fix q k' t assume "q \<in> set (ts[i := Joined k s])" "slot_ref q = Some (k', t)"
      then show "map_of (mc_flight c') k' = Some t" using old D(1) None eq(2) by fastforce
    next
      fix k' t assume "map_of (mc_flight c') k' = Some t"
      then show "t < mc_next_slot c'" using D(2) eq by (fastforce split: if_splits)
    next
      fix k' k'' t assume "map_of (mc_flight c') k' = Some t \<and> map_of (mc_flight c') k'' = Some t"
      then show "k' = k''" using D(3) fresh by (auto simp: eq(2) split: if_splits)
    next
      fix k' t assume m: "map_of (mc_flight c') k' = Some t"
      have "k' = k \<and> t = s \<or> map_of (mc_flight c) k' = Some t"
        using m by (cases "k' = k") (simp_all add: eq(2))
      then consider "k' = k" "t = s" | "map_of (mc_flight c) k' = Some t" by blast
      then show "\<exists>q \<in> set (ts[i := Joined k s]). slot_ref q = Some (k', t) \<or> (\<exists>e. q = Releasing k' e)"
      proof cases
        case 1
        then show ?thesis by (intro bexI [OF _ new]) simp
      next
        case 2
        then show ?thesis using D(4) stays by meson
      qed
    qed
  qed
qed

lemma strong_count_one: "strong_count ts s = 1 \<longleftrightarrow> (\<forall>q \<in> set ts. \<forall>k. slot_ref q \<noteq> Some (k, s))"
proof -
  have "map_option snd x = Some s \<longleftrightarrow> (\<exists>k. x = Some (k, s))" for x :: "(mkey \<times> slot) option"
    by (cases x) auto
  then show ?thesis by (simp add: strong_count_def filter_empty_conv del: split_paired_Ex)
qed

lemma flight_map_inv_release:
  assumes "flight_map_inv ts c" "i < length ts" "ts ! i = Releasing k e"
  shows "flight_map_inv (ts[i := Done k e]) (release_flight (strong_count ts) k c)"
proof -
  note D = flight_map_invD [OF assms(1)]
  let ?c = "release_flight (strong_count ts) k c"
  have old: "q \<in> set ts" if "q \<in> set (ts[i := Done k e])" "slot_ref q = Some r" for q r
    using set_update_nth [OF assms(2) that(1)] that(2) by auto
  have sub: "map_of (mc_flight c) k' = Some t" if "map_of (mc_flight ?c) k' = Some t" for k' t
    using that by (auto simp: release_flight_def delete_conv' split: option.splits if_splits)
  have next_slot: "mc_next_slot ?c = mc_next_slot c"
    by (simp add: release_flight_def split: option.split)
  show ?thesis
    unfolding flight_map_inv_def next_slot
  proof (intro conjI ballI allI impI)
    fix q k' t assume q: "q \<in> set (ts[i := Done k e])" "slot_ref q = Some (k', t)"
    then have ref: "q \<in> set ts" using old by blast
    with q D(1) have "map_of (mc_flight c) k' = Some t" by blast
    moreover have "strong_count ts t \<noteq> 1" using ref q(2) unfolding strong_count_one by blast
    ultimately show "map_of (mc_flight ?c) k' = Some t"
      by (auto simp: release_flight_def delete_conv' split: option.split)
  next
    fix k' t assume m: "map_of (mc_flight ?c) k' = Some t"
    then obtain q where q: "q \<in> set ts" "slot_ref q = Some (k', t) \<or> (\<exists>e. q = Releasing k' e)"
      using D(4) sub by blast
    show "\<exists>q \<in> set (ts[i := Done k e]). slot_ref q = Some (k', t) \<or> (\<exists>e. q = Releasing k' e)"
    proof (cases "q = ts ! i")
      case False
      with q in_set_update [OF assms(2)] show ?thesis by blast
    next
      case True
      with q(2) assms(3) have "k' = k" by simp
      with m sub [OF m] have "strong_count ts t \<noteq> 1"
        by (auto simp: release_flight_def delete_conv')
      then obtain q' k'' where q': "q' \<in> set ts" "slot_ref q' = Some (k'', t)"
        unfolding strong_count_one by blast
      with D(1,3) sub [OF m] have "k'' = k'" by blast
      moreover have "q' \<noteq> ts ! i" using q'(2) assms(3) by auto
      ultimately show ?thesis using q' in_set_update [OF assms(2) q'(1)] by blast
    qed
  next
    fix k' t assume "map_of (mc_flight ?c) k' = Some t"
    then show "t < mc_next_slot c" using sub D(2) by blast
  next
    fix k' k'' t assume "map_of (mc_flight ?c) k' = Some t \<and> map_of (mc_flight ?c) k'' = Some t"
    then show "k' = k''" using sub D(3) by blast
  qed
qed

definition flight_inv :: "media_system \<Rightarrow> bool" where
  "flight_inv y \<longleftrightarrow> flight_map_inv (ms_tasks y) (ms_cache y) \<and> exclusive slot_held (ms_tasks y)"

lemma task_step_slot_held:
  assumes "task_step ts c act p = Some (p', c', x)"
  shows "\<forall>s. slot_held p' = Some s \<longrightarrow> slot_held p = Some s \<or> (\<forall>q \<in> set ts. slot_held q \<noteq> Some s)"
  using assms by (cases rule: task_step_flight) (simp_all add: flight_kept_def)

lemma task_step_flight_map:
  assumes "flight_map_inv ts c" "i < length ts" "task_step ts c act (ts ! i) = Some (p', c', x)"
  shows "flight_map_inv (ts[i := p']) c'"
  using assms(3)
proof (cases rule: task_step_flight)
  case kept
  then show ?thesis by (rule flight_map_inv_kept [OF assms(1,2)])
next
  case (join k s)
  then show ?thesis using flight_map_inv_join [OF assms(1,2)] by simp
next
  case (dropped k s e)
  then show ?thesis using flight_map_inv_dropped [OF assms(1,2)] by simp
next
  case (release k e)
  then show ?thesis using flight_map_inv_release [OF assms(1,2)] by simp
qed

lemma background_step_same [simp]:
  "mc_flight (background_step b c) = mc_flight c" "mc_next_slot (background_step b c) = mc_next_slot c"
  by (cases b; auto split: option.split dest: flight_same_option)+

lemma flight_map_inv_background: "flight_map_inv ts (background_step b c) = flight_map_inv ts c"
  unfolding flight_map_inv_def background_step_same ..

lemma flight_inv_step: "flight_inv y \<Longrightarrow> media_step e y = Some y' \<Longrightarrow> flight_inv y'"
proof (cases e)
  case (Step i act)
  assume "flight_inv y" "media_step e y = Some y'"
  then show ?thesis
    unfolding Step by (elim media_step_task)
      (auto simp: flight_inv_def intro: task_step_flight_map exclusive_update dest: task_step_slot_held)
next
  case (Background i)
  assume "flight_inv y" "media_step e y = Some y'"
  then show ?thesis
    by (auto simp: Background flight_inv_def flight_map_inv_background split: if_splits)
qed (auto simp: flight_inv_def flight_map_inv_append exclusive_append)

lemma flight_inv_boot: "flight_inv (media_boot cfg files)"
  by (simp add: flight_inv_def flight_map_inv_def media_boot_def cache_open_def exclusive_def)

text \<open>The task is past the check under the slot, up to the end of the store.\<close>

definition past_check :: "mkey \<Rightarrow> pc \<Rightarrow> bool" where
  "past_check k p = (case p of
      WaitPermit k' (Some s) \<Rightarrow> k' = k
    | Fetching k' (Some s) \<Rightarrow> k' = k
    | Fetched k' (Some s) d \<Rightarrow> k' = k
    | WaitAccount k' s d \<Rightarrow> k' = k
    | Mkdir k' s d \<Rightarrow> k' = k
    | Renaming k' s d \<Rightarrow> k' = k
    | Recording k' s d \<Rightarrow> k' = k
    | Evicting k' s d vs \<Rightarrow> k' = k
    | _ \<Rightarrow> False)"

lemma past_check_slot: "past_check k p \<Longrightarrow> \<exists>s. slot_ref p = Some (k, s) \<and> slot_held p = Some s"
  by (cases p) (auto simp: past_check_def split: option.splits)

text \<open>The task has let go of its slot.\<close>

fun at_rest :: "pc \<Rightarrow> bool" where
  "at_rest (Releasing k e) = False"
| "at_rest p = (slot_ref p = None)"

interpretation flight: inv_system media_init media_steps flight_inv
  by unfold_locales (auto simp: media_init_def media_steps_def flight_inv_boot dest: flight_inv_step)

lemma past_check_unique:
  assumes "flight_inv y" "i < length (ms_tasks y)" "j < length (ms_tasks y)"
    and "past_check k (ms_tasks y ! i)" "past_check k (ms_tasks y ! j)"
  shows "i = j"
proof -
  have inv: "flight_map_inv (ms_tasks y) (ms_cache y)" "exclusive slot_held (ms_tasks y)"
    using assms(1) by (simp_all add: flight_inv_def)
  obtain s t where s: "slot_ref (ms_tasks y ! i) = Some (k, s)" "slot_held (ms_tasks y ! i) = Some s"
    and t: "slot_ref (ms_tasks y ! j) = Some (k, t)" "slot_held (ms_tasks y ! j) = Some t"
    using past_check_slot assms(4,5) by metis
  have "Some s = Some t"
    using flight_map_invD(1) [OF inv(1) _ s(1)] flight_map_invD(1) [OF inv(1) _ t(1)] assms(2,3) by simp
  then show ?thesis using exclusiveD [OF inv(2), of i j s] s t assms(2,3) by simp
qed

lemma flight_empty_at_rest:
  assumes "flight_inv y" "\<forall>p \<in> set (ms_tasks y). at_rest p"
  shows "mc_flight (ms_cache y) = []"
proof (rule ccontr)
  assume "mc_flight (ms_cache y) \<noteq> []"
  then obtain k s xs where "mc_flight (ms_cache y) = (k, s) # xs" by (cases "mc_flight (ms_cache y)") auto
  then have "map_of (mc_flight (ms_cache y)) k = Some s" by simp
  then obtain q where q: "q \<in> set (ms_tasks y)" "slot_ref q = Some (k, s) \<or> (\<exists>e. q = Releasing k e)"
    using flight_map_invD(4) assms(1) by (metis flight_inv_def)
  with assms(2) have "at_rest q" by blast
  then show False using q(2) by (cases q) auto
qed

text \<open>C16: single flight. In every run of the cache, whatever is cancelled and whenever, two tasks that are past the
  check under the slot for the same key, downloading or storing it, are the same task. And no slot is leaked:
  whenever all tasks have let go of their slots, the flight map is empty.\<close>

theorem media_single_flight:
  assumes "media_run es (media_boot cfg files) = Some y" "distinct (map fst files)"
  shows "(\<forall>i j k. i < length (ms_tasks y) \<and> j < length (ms_tasks y) \<and> past_check k (ms_tasks y ! i) \<and>
      past_check k (ms_tasks y ! j) \<longrightarrow> i = j) \<and>
    ((\<forall>p \<in> set (ms_tasks y). at_rest p) \<longrightarrow> mc_flight (ms_cache y) = [])"
proof -
  have "flight_inv y"
    using flight.reach_inv [OF _ media_run_steps [OF assms(1)]] assms(2) by (auto simp: media_init_def)
  then show ?thesis using past_check_unique flight_empty_at_rest by blast
qed

definition demo_flight :: "event list" where
  "demo_flight = [Request (1, [5]), Request (1, [5]), Step 1 Go, Step 1 Go, Step 1 Go, Step 1 Go, Step 1 Go,
     Step 2 Go, Step 2 Go]"

lemma demo_flight_run:
  "\<exists>y. media_run demo_flight (media_boot demo_media []) = Some y \<and>
     ms_tasks y = [RbScan [] [], Fetching (1, [5]) (Some 0), Joined (1, [5]) 0]"
  by (simp add: demo_flight_def demo_media_def media_boot_def cache_open_def task_step_def step_defs flight_slot_def)

theorem media_single_flight_witness:
  "\<exists>y. media_run demo_flight (media_boot demo_media []) = Some y \<and> past_check (1, [5]) (ms_tasks y ! 1) \<and>
     (\<forall>j < 3. past_check (1, [5]) (ms_tasks y ! j) \<longrightarrow> j = 1)"
proof -
  obtain y where y: "media_run demo_flight (media_boot demo_media []) = Some y"
      "ms_tasks y = [RbScan [] [], Fetching (1, [5]) (Some 0), Joined (1, [5]) 0]"
    using demo_flight_run by blast
  have len: "length (ms_tasks y) = 3" and one: "past_check (1, [5]) (ms_tasks y ! 1)"
    by (simp_all add: y(2) past_check_def)
  have "\<forall>i j k. i < length (ms_tasks y) \<and> j < length (ms_tasks y) \<and> past_check k (ms_tasks y ! i) \<and>
      past_check k (ms_tasks y ! j) \<longrightarrow> i = j"
    using media_single_flight [OF y(1)] by simp
  from this [rule_format, of _ 1 "(1, [5])"] len one
  have "\<forall>j < 3. past_check (1, [5]) (ms_tasks y ! j) \<longrightarrow> j = 1" by simp
  with y(1) one show ?thesis by blast
qed

end
