(* ===== verification/Media_Purge.thy ===== *)
theory Media_Purge
  imports Media_Cache
begin

text \<open>
  Deleting an account's media: the lock and the tombstone between a purge and the requests in flight.
\<close>

section \<open>Purging an account\<close>

lemma account_held_leave [simp]: "account_held (leave k so e) = None"
  by (simp add: leave_def split: option.split)

lemma task_step_account_held:
  assumes "task_step ts c act p = Some (p', c', x)"
  shows "\<forall>a. account_held p' = Some a \<longrightarrow> account_held p = Some a \<or> (\<forall>q \<in> set ts. account_held q \<noteq> Some a)"
  using assms
proof (cases rule: task_step_groups)
  case cancel
  then show ?thesis by (cases p) (auto simp: step_defs split: step_splits)
next
  case lookup
  then show ?thesis by (cases p) (auto simp: step_defs split: step_splits)
next
  case fetch
  then show ?thesis by (cases p) (auto simp: step_defs Let_def split: step_splits)
next
  case store
  then show ?thesis by (cases p) (auto simp: step_defs split: step_splits)
next
  case leave
  then show ?thesis by (cases p) (auto simp: step_defs split: step_splits)
next
  case purge
  then show ?thesis by (cases p) (auto simp: step_defs split: step_splits)
next
  case rebuild
  then show ?thesis by (cases p) (auto simp: step_defs split: step_splits)
qed

text \<open>What is left of an account that has been purged.\<close>

definition account_gone :: "uuid \<Rightarrow> media_system \<Rightarrow> bool" where
  "account_gone a y \<longleftrightarrow> a \<in> set (mc_purged (ms_cache y)) \<and> account_files a (ms_cache y) = [] \<and>
     a \<notin> set (mc_dirs (ms_cache y)) \<and> BgMkdir a \<notin> set (ms_background y) \<and>
     (\<forall>p \<in> set (ms_tasks y). account_held p = Some a \<longrightarrow> p = PurgeIndex a \<or> p = PurgeRemove a)"

text \<open>A step keeps the tombstones, and leaves the disk of the account alone while no request holds its lock.\<close>

definition disk_kept :: "uuid \<Rightarrow> cache \<Rightarrow> cache \<Rightarrow> bool" where
  "disk_kept a c c' \<longleftrightarrow> set (mc_purged c) \<subseteq> set (mc_purged c') \<and>
     set (account_files a c') \<subseteq> set (account_files a c) \<and> (a \<in> set (mc_dirs c') \<longrightarrow> a \<in> set (mc_dirs c))"

lemma account_files_set: "set (account_files a c) = {k. fst k = a \<and> map_of (mc_files c) k \<noteq> None}"
  by (auto simp: account_files_def map_of_eq_None_iff image_iff)

lemma disk_kept_refl [simp]: "disk_kept a c c"
  by (simp add: disk_kept_def)

lemma disk_kept_same:
  assumes "mc_purged c' = mc_purged c" "mc_files c' = mc_files c" "mc_dirs c' = mc_dirs c"
  shows "disk_kept a c c'"
  using assms by (simp add: disk_kept_def account_files_def)

lemma disk_kept_ops [simp]:
  "disk_kept a c (open_resource c)" "disk_kept a c (fs_unlink k c)"
  "disk_kept a c (c\<lparr>mc_downloads := n\<rparr>)" "disk_kept a c (c\<lparr>mc_index := ix\<rparr>)" "disk_kept a c (c\<lparr>mc_open_handles := n\<rparr>)"
  "disk_kept a c (c\<lparr>mc_purged := List.insert b (mc_purged c)\<rparr>)"
  "disk_kept a c (release_flight f k c)"
  "b \<noteq> a \<Longrightarrow> disk_kept a c (fs_mkdir b c)"
  by (auto simp: disk_kept_def account_files_set open_resource_def fs_unlink_def fs_mkdir_def release_flight_def
      account_files_def AList.delete_eq split: option.splits)

lemma disk_kept_option:
  "hit_touch k c = Some c' \<Longrightarrow> disk_kept a c c'"
  "flight_slot k c = (s, c') \<Longrightarrow> disk_kept a c c'"
  "store_record k n c = Some (vs, c') \<Longrightarrow> disk_kept a c c'"
  "rebuild_seed found c = Some (vs, c') \<Longrightarrow> disk_kept a c c'"
  "fs_rmdir b c = Some c' \<Longrightarrow> disk_kept a c c'"
  by (auto simp: hit_touch_def flight_slot_def store_record_def rebuild_seed_def fs_rmdir_def disk_kept_def
      account_files_def split: option.splits if_splits)

lemma fs_rename_kept:
  "fs_rename k data c = Some c' \<Longrightarrow> fst k \<noteq> a \<or> a \<notin> set (mc_dirs c) \<Longrightarrow> disk_kept a c c'"
  by (auto simp: fs_rename_def disk_kept_def account_files_set update_conv' split: if_splits)

definition purge_only :: "uuid \<Rightarrow> pc \<Rightarrow> bool" where
  "purge_only a p \<longleftrightarrow> (account_held p = Some a \<longrightarrow> p = PurgeIndex a \<or> p = PurgeRemove a)"

lemma purge_only_leave [simp]: "purge_only a (leave k so e)"
  by (simp add: purge_only_def)

lemma task_step_gone:
  assumes "task_step ts c act p = Some (p', c', bg, x)" "purge_only a p" "a \<in> set (mc_purged c)"
  shows "disk_kept a c c' \<and> BgMkdir a \<notin> set bg \<and> purge_only a p'"
  using assms(1)
proof (cases rule: task_step_groups)
  case cancel
  with assms(2,3) show ?thesis by (cases p) (auto simp: step_defs purge_only_def split: step_splits)
next
  case lookup
  with assms(2,3) show ?thesis
    by (cases p) (auto simp: step_defs purge_only_def split: step_splits dest: disk_kept_option)
next
  case fetch
  with assms(2,3) show ?thesis by (cases p) (auto simp: step_defs purge_only_def Let_def split: step_splits)
next
  case store
  with assms(2,3) show ?thesis
    by (cases p) (auto simp: step_defs purge_only_def split: step_splits dest: disk_kept_option fs_rename_kept)
next
  case leave
  with assms(2,3) show ?thesis by (cases p) (auto simp: step_defs purge_only_def split: step_splits)
next
  case purge
  with assms(2,3) show ?thesis
    by (cases p) (auto simp: step_defs purge_only_def split: step_splits dest: disk_kept_option)
next
  case rebuild
  with assms(2,3) show ?thesis
    by (cases p) (auto simp: step_defs purge_only_def split: step_splits dest: disk_kept_option)
qed

lemma background_gone:
  assumes "b \<noteq> BgMkdir a" "a \<notin> set (mc_dirs c)"
  shows "disk_kept a c (background_step b c)"
  using assms by (cases b) (auto split: option.split intro: fs_rename_kept)

lemma account_gone_kept:
  assumes "account_gone a y" "disk_kept a (ms_cache y) (ms_cache y')" "BgMkdir a \<notin> set (ms_background y')"
    and "\<forall>p \<in> set (ms_tasks y'). purge_only a p"
  shows "account_gone a y'"
  using assms by (auto simp: account_gone_def disk_kept_def purge_only_def)

lemma account_gone_step:
  assumes "account_gone a y" "media_step e y = Some y'"
  shows "account_gone a y'"
proof -
  have only: "\<forall>p \<in> set (ms_tasks y). purge_only a p" and bg: "BgMkdir a \<notin> set (ms_background y)"
    and purged: "a \<in> set (mc_purged (ms_cache y))" and dirs: "a \<notin> set (mc_dirs (ms_cache y))"
    using assms(1) by (auto simp: account_gone_def purge_only_def)
  show ?thesis
  proof (cases e)
    case (Step i act)
    obtain p c b fetched lossy where st: "i < length (ms_tasks y)"
      "task_step (ms_tasks y) (ms_cache y) act (ms_tasks y ! i) = Some (p, c, b, fetched, lossy)"
      "ms_cache y' = c" "ms_tasks y' = (ms_tasks y)[i := p]" "ms_background y' = ms_background y @ b"
      using media_step_task [OF assms(2) [unfolded Step]] by metis
    have "disk_kept a (ms_cache y) c \<and> BgMkdir a \<notin> set b \<and> purge_only a p"
      by (rule task_step_gone [OF st(2)]) (use only st(1) purged in auto)
    then show ?thesis
      using account_gone_kept [OF assms(1), of y'] st bg only set_update_nth [OF st(1)] by fastforce
  next
    case (Background i)
    with assms(2) have st: "i < length (ms_background y)"
      "ms_cache y' = background_step (ms_background y ! i) (ms_cache y)" "ms_tasks y' = ms_tasks y"
      "ms_background y' = take i (ms_background y) @ drop (Suc i) (ms_background y)"
      by (auto split: if_splits)
    have "ms_background y ! i \<noteq> BgMkdir a" using bg st(1) nth_mem by metis
    then show ?thesis
      using account_gone_kept [OF assms(1), of y'] st bg only background_gone [OF _ dirs]
      by (auto dest: in_set_takeD in_set_dropD)
  qed (use account_gone_kept [OF assms(1), of y'] assms(2) bg only in \<open>auto simp: purge_only_def\<close>)
qed

lemma purged_same [simp]:
  "mc_purged (fs_mkdir a c) = mc_purged c" "mc_purged (fs_unlink k c) = mc_purged c"
  "mc_purged (open_resource c) = mc_purged c" "mc_purged (release_flight f k c) = mc_purged c"
  "mc_purged (background_step b c) = mc_purged c"
  by (simp_all add: fs_mkdir_def fs_unlink_def open_resource_def release_flight_def split: option.split)
    (cases b; simp add: fs_mkdir_def fs_unlink_def fs_rename_def split: option.split)

lemma purged_same_option:
  "fs_rename k data c = Some c' \<Longrightarrow> mc_purged c' = mc_purged c"
  "fs_rmdir a c = Some c' \<Longrightarrow> mc_purged c' = mc_purged c"
  "hit_touch k c = Some c' \<Longrightarrow> mc_purged c' = mc_purged c"
  "flight_slot k c = (s, c') \<Longrightarrow> mc_purged c' = mc_purged c"
  "store_record k n c = Some (vs, c') \<Longrightarrow> mc_purged c' = mc_purged c"
  "rebuild_seed found c = Some (vs, c') \<Longrightarrow> mc_purged c' = mc_purged c"
  by (auto simp: fs_rename_def fs_rmdir_def hit_touch_def flight_slot_def store_record_def rebuild_seed_def
      split: if_splits option.splits)

fun purging :: "uuid \<Rightarrow> pc \<Rightarrow> bool" where
  "purging a (PurgeIndex b) = (b = a)"
| "purging a (PurgeRemove b) = (b = a)"
| "purging a _ = False"

lemma purging_leave [simp]: "\<not> purging a (leave k so e)"
  by (simp add: leave_def split: option.split)

lemma task_step_purged:
  assumes "task_step ts c act p = Some (p', c', x)"
  shows "set (mc_purged c) \<subseteq> set (mc_purged c') \<and> (purging a p' \<longrightarrow> purging a p \<or> a \<in> set (mc_purged c'))"
  using assms
proof (cases rule: task_step_groups)
  case cancel
  then show ?thesis by (cases p) (auto simp: step_defs  split: step_splits)
next
  case lookup
  then show ?thesis by (cases p) (auto simp: step_defs  split: step_splits dest: purged_same_option)
next
  case fetch
  then show ?thesis by (cases p) (auto simp: step_defs  Let_def split: step_splits)
next
  case store
  then show ?thesis by (cases p) (auto simp: step_defs  split: step_splits dest: purged_same_option)
next
  case leave
  then show ?thesis by (cases p) (auto simp: step_defs  split: step_splits)
next
  case purge
  then show ?thesis by (cases p) (auto simp: step_defs  split: step_splits dest: purged_same_option)
next
  case rebuild
  then show ?thesis by (cases p) (auto simp: step_defs  split: step_splits dest: purged_same_option)
qed

definition purge_inv :: "media_system \<Rightarrow> bool" where
  "purge_inv y \<longleftrightarrow> exclusive account_held (ms_tasks y) \<and>
     (\<forall>p \<in> set (ms_tasks y). \<forall>a. purging a p \<longrightarrow> a \<in> set (mc_purged (ms_cache y)))"

lemma purge_inv_step:
  assumes "purge_inv y" "media_step e y = Some y'"
  shows "purge_inv y'"
proof (cases e)
  case (Step i act)
  obtain p c x where st: "i < length (ms_tasks y)"
    "task_step (ms_tasks y) (ms_cache y) act (ms_tasks y ! i) = Some (p, c, x)"
    "ms_cache y' = c" "ms_tasks y' = (ms_tasks y)[i := p]"
    using media_step_task [OF assms(2) [unfolded Step]] by metis
  have "exclusive account_held (ms_tasks y')"
    unfolding st(4) using assms(1) st task_step_account_held [OF st(2)]
    by (auto simp: purge_inv_def intro: exclusive_update)
  moreover have "a \<in> set (mc_purged c)" if "q \<in> set (ms_tasks y')" "purging a q" for a q
    using set_update_nth [OF st(1) that(1) [unfolded st(4)]] that(2) assms(1) st(1) task_step_purged [OF st(2), of a]
    unfolding purge_inv_def by (metis nth_mem subsetD)
  ultimately show ?thesis by (simp add: purge_inv_def st(3))
next
  case (Background i)
  with assms show ?thesis unfolding purge_inv_def by (force split: if_splits)
qed (use assms in \<open>auto simp: purge_inv_def exclusive_append \<close>)

interpretation purge: inv_system media_init media_steps purge_inv
proof unfold_locales
  show "media_init y \<Longrightarrow> purge_inv y" for y
    by (auto simp: media_init_def purge_inv_def media_boot_def exclusive_def split: if_splits)
  show "purge_inv y \<Longrightarrow> media_steps y y' \<Longrightarrow> purge_inv y'" for y y'
    by (auto simp: media_steps_def dest: purge_inv_step)
qed

lemma purge_end_gone:
  assumes "purge_inv y" "ms_tasks y ! i = PurgeRemove a" "media_step (Step i Go) y = Some y'"
    and "BgMkdir a \<notin> set (ms_background y)"
  shows "account_gone a y'"
proof -
  obtain p c bg x where st: "i < length (ms_tasks y)"
    "task_step (ms_tasks y) (ms_cache y) Go (ms_tasks y ! i) = Some (p, c, bg, x)"
    "ms_cache y' = c" "ms_tasks y' = (ms_tasks y)[i := p]" "ms_background y' = ms_background y @ bg"
    using media_step_task [OF assms(3)] by metis
  have rmdir: "fs_rmdir a (ms_cache y) = Some c" and p: "p = PurgeDone a True" and bg: "bg = []"
    using st(2) unfolding assms(2) by (auto simp: task_step_def step_defs split: option.splits)
  have purged: "a \<in> set (mc_purged (ms_cache y))"
    using assms(1,2) nth_mem [OF st(1)] by (force simp: purge_inv_def)
  have "account_held q \<noteq> Some a" if "q \<in> set (ms_tasks y')" for q
  proof
    assume held: "account_held q = Some a"
    with set_update_nth [OF st(1) that [unfolded st(4)]] p obtain j where "j < length (ms_tasks y)" "j \<noteq> i" "q = ms_tasks y ! j"
      by auto
    with held exclusiveD [of account_held "ms_tasks y" i j a] assms(1,2) st(1) show False by (simp add: purge_inv_def)
  qed
  with rmdir purged assms(4) show ?thesis
    unfolding account_gone_def st(3,5) bg
    by (auto simp: fs_rmdir_def account_files_def split: if_splits)
qed

text \<open>A purge is final. From the moment a purge has removed an account's directory, no file of the account is
  ever on disk again, whatever requests were in flight or arrive later and whatever is cancelled or still
  running in the background; the one exception is a directory creation that a cancelled request had left
  behind before the purge ended.\<close>

theorem media_purge_final:
  assumes "media_run es (media_boot cfg files) = Some y" "distinct (map fst files)"
    and "ms_tasks y ! i = PurgeRemove a" "media_step (Step i Go) y = Some y'" "BgMkdir a \<notin> set (ms_background y)"
    and "media_run es' y' = Some y''"
  shows "account_files a (ms_cache y'') = [] \<and> a \<notin> set (mc_dirs (ms_cache y''))"
proof -
  have "purge_inv y"
    using purge.reach_inv [OF _ media_run_steps [OF assms(1)]] assms(2) by (auto simp: media_init_def)
  then have "account_gone a y'" by (rule purge_end_gone [OF _ assms(3-5)])
  moreover have "account_gone a z'" if "media_run es z = Some z'" "account_gone a z" for es z z'
    using that by (induction es arbitrary: z) (auto split: option.splits dest: account_gone_step)
  ultimately show ?thesis using assms(6) by (auto simp: account_gone_def)
qed

definition demo_purge :: "event list" where
  "demo_purge = [Request (1, [5]), Step 1 Go, Step 1 Go, Step 1 Go, Step 1 Go, Step 1 Go, Step 1 (Returned (Inr [7])),
     Step 1 Go, Purge 1, Step 2 Go, Step 2 Go]"

lemma demo_purge_run:
  "\<exists>y y'. media_run demo_purge (media_boot demo_media []) = Some y \<and>
     ms_tasks y = [RbScan [] [], WaitAccount (1, [5]) 0 [7], PurgeRemove 1] \<and> ms_background y = [] \<and>
     media_step (Step 2 Go) y = Some y' \<and> (\<exists>y''. media_run [Step 1 Go] y' = Some y'')"
  by (simp add: demo_purge_def demo_media_def media_boot_def cache_open_def task_step_def step_defs flight_slot_def
    fetch_capped_def remove_account_def index_default_def fs_rmdir_def account_files_def)

theorem media_purge_final_witness:
  "\<exists>y. media_run (demo_purge @ [Step 2 Go, Step 1 Go]) (media_boot demo_media []) = Some y \<and>
     account_files 1 (ms_cache y) = [] \<and> 1 \<notin> set (mc_dirs (ms_cache y))"
proof -
  obtain y y' y'' where y: "media_run demo_purge (media_boot demo_media []) = Some y"
      "ms_tasks y = [RbScan [] [], WaitAccount (1, [5]) 0 [7], PurgeRemove 1]" "ms_background y = []"
      "media_step (Step 2 Go) y = Some y'" "media_run [Step 1 Go] y' = Some y''"
    using demo_purge_run by blast
  have "media_run (es @ fs) z = (case media_run es z of None \<Rightarrow> None | Some z' \<Rightarrow> media_run fs z')" for es fs z
    by (induction es arbitrary: z) (auto split: option.split)
  then have "media_run (demo_purge @ [Step 2 Go, Step 1 Go]) (media_boot demo_media []) = Some y''"
    using y by simp
  moreover have "account_files 1 (ms_cache y'') = [] \<and> 1 \<notin> set (mc_dirs (ms_cache y''))"
    by (rule media_purge_final [OF y(1) _ _ y(4) _ y(5)]) (simp_all add: y(2,3))
  ultimately show ?thesis by blast
qed

end
