(* ===== verification/Media_Store.thy ===== *)
theory Media_Store
  imports Media_Cache
begin

text \<open>
  What the media cache keeps and serves: the bytes under a key are bytes the downloader returned for that key, the index
  stays within its limit, and every file on disk is either counted or about to be counted or removed, as long
  as no file operation fails or is abandoned.
\<close>

section \<open>Bytes\<close>

text \<open>The sizes the scan has read.\<close>

definition found_right :: "(mkey \<times> bytes) set \<Rightarrow> (nat option \<times> mkey \<times> nat) list \<Rightarrow> bool" where
  "found_right F found \<longleftrightarrow> (\<forall>e \<in> set found. \<exists>data. (fst (snd e), data) \<in> F \<and> snd (snd e) = length data)"

lemma found_right_append [simp]:
  "found_right F (xs @ [e]) \<longleftrightarrow> found_right F xs \<and> (\<exists>data. (fst (snd e), data) \<in> F \<and> snd (snd e) = length data)"
  by (auto simp: found_right_def)

text \<open>Whether the bytes a task holds belong to \<open>F\<close>, the pairs of keys and contents known to be right.\<close>

fun holds_data :: "(mkey \<times> bytes) set \<Rightarrow> pc \<Rightarrow> bool" where
  "holds_data F (Hit k _ data) = ((k, data) \<in> F)"
| "holds_data F (Fetched k _ data) = ((k, data) \<in> F)"
| "holds_data F (WaitAccount k _ data) = ((k, data) \<in> F)"
| "holds_data F (Mkdir k _ data) = ((k, data) \<in> F)"
| "holds_data F (Renaming k _ data) = ((k, data) \<in> F)"
| "holds_data F (Recording k _ data) = ((k, data) \<in> F)"
| "holds_data F (Evicting k _ data _) = ((k, data) \<in> F)"
| "holds_data F (Leaving k _ (Served data)) = ((k, data) \<in> F)"
| "holds_data F (DropRef k _ (Served data)) = ((k, data) \<in> F)"
| "holds_data F (Releasing k (Served data)) = ((k, data) \<in> F)"
| "holds_data F (Done k (Served data)) = ((k, data) \<in> F)"
| "holds_data F (RbScan _ found) = found_right F found"
| "holds_data F _ = True"

lemma holds_data_leave [simp]:
  "holds_data F (leave k so (Served data)) = ((k, data) \<in> F)" "holds_data F (leave k so (Failed e))"
  "holds_data F (leave k so Dropped)"
  by (simp_all add: leave_def split: option.split)

lemma holds_data_mono:
  assumes "holds_data F p" "F \<subseteq> F'"
  shows "holds_data F' p"
proof (cases p)
  case (Leaving k s e)
  with assms show ?thesis by (cases e) auto
next
  case (DropRef k s e)
  with assms show ?thesis by (cases e) auto
next
  case (Releasing k e)
  with assms show ?thesis by (cases e) auto
next
  case (Done k e)
  with assms show ?thesis by (cases e) auto
next
  case (RbScan todo found)
  with assms show ?thesis by (fastforce simp: found_right_def)
qed (use assms in auto)

definition sizes_right :: "(mkey \<times> bytes) set \<Rightarrow> media_index \<Rightarrow> bool" where
  "sizes_right F ix \<longleftrightarrow> (\<forall>(k, n) \<in> set (index_abs ix). \<exists>data. (k, data) \<in> F \<and> n = length data)"

definition cache_data :: "(mkey \<times> bytes) set \<Rightarrow> cache \<Rightarrow> bool" where
  "cache_data F c \<longleftrightarrow> set (mc_files c) \<subseteq> F \<and> distinct (map fst (mc_files c)) \<and> index_inv (mc_index c) \<and>
     ix_total_bytes (mc_index c) \<le> mc_max_bytes c \<and> mc_max_bytes c < U64_LIMIT \<and> sizes_right F (mc_index c)"

fun background_data :: "(mkey \<times> bytes) set \<Rightarrow> background \<Rightarrow> bool" where
  "background_data F (BgRename k data) = ((k, data) \<in> F)"
| "background_data F _ = True"

section \<open>The operations of the index keep it\<close>

lemma sizes_right_record:
  assumes "index_inv ix" "index_record k (length data) ix = Some ix'" "sizes_right F ix" "(k, data) \<in> F"
  shows "index_inv ix' \<and> sizes_right F ix'"
  using index_record_some [OF assms(1,2)] assms(3,4)
  by (auto simp: sizes_right_def lru_record_def lru_remove_def)

lemma sizes_right_collect:
  assumes "index_inv ix" "collect_evictions m ix = Some (victims, ix')" "sizes_right F ix"
  shows "index_inv ix' \<and> sizes_right F ix' \<and> ix_total_bytes ix' \<le> m"
proof -
  have ix': "index_inv ix'" "lru_evict m (index_abs ix) = (victims, index_abs ix')"
    using collect_evictions_some [OF assms(1,2)] by simp_all
  from lru_evict_shortest(2,3) [OF ix'(2)] have "index_abs ix' = drop (length victims) (index_abs ix)"
    "lru_bytes (index_abs ix') \<le> m" by simp_all
  with ix'(1) assms(3) index_inv_onD(7) [OF ix'(1)] show ?thesis
    by (auto simp: sizes_right_def dest!: in_set_dropD)
qed

lemma lru_touch_set: "set (lru_touch k xs) \<subseteq> set xs"
  by (auto simp: lru_touch_def lru_record_def lru_remove_def split: option.splits dest: map_of_SomeD)

lemma sizes_right_touch:
  assumes "index_inv ix" "index_touch k ix = Some ix'" "ix_total_bytes ix < U64_LIMIT" "sizes_right F ix"
  shows "index_inv ix' \<and> sizes_right F ix' \<and> ix_total_bytes ix' = ix_total_bytes ix"
proof -
  have bytes: "ix_total_bytes ix' = ix_total_bytes ix"
    using assms(2) by (auto simp: index_touch_def split: option.splits)
  have "index_inv ix' \<and> index_abs ix' = lru_touch k (index_abs ix)"
    by (rule index_touch_some [OF assms(1-3)])
  with assms(4) lru_touch_set [of k "index_abs ix"] bytes show ?thesis unfolding sizes_right_def by auto
qed

lemma sizes_right_seed:
  assumes "index_inv ix" "seed_index found ix = Some ix'" "sizes_right F ix"
    and "found_right F found"
  shows "index_inv ix' \<and> sizes_right F ix'"
  using assms
proof (induction found arbitrary: ix)
  case (Cons x found)
  obtain m k n where x: "x = (m, k, n)" by (cases x)
  obtain ix1 where ix1: "record_if_absent k n ix = Some ix1" "seed_index found ix1 = Some ix'"
    using Cons.prems(2) by (auto simp: x split: option.splits)
  have "index_inv ix1 \<and> index_abs ix1 = lru_record_if_absent k n (index_abs ix)"
    by (rule record_if_absent_some [OF Cons.prems(1) ix1(1)])
  moreover from this have "sizes_right F ix1"
    using Cons.prems(3,4) by (auto simp: sizes_right_def lru_record_if_absent_def x found_right_def)
  ultimately show ?case using Cons.IH [of ix1] ix1(2) Cons.prems(4) by (simp add: found_right_def)
qed simp

lemma sizes_right_remove_account:
  assumes "index_inv ix" "remove_account a ix = Some ix'" "sizes_right F ix"
  shows "index_inv ix' \<and> sizes_right F ix' \<and> ix_total_bytes ix' \<le> ix_total_bytes ix"
proof -
  have ix': "index_inv ix'" "index_abs ix' = lru_remove_account a (index_abs ix)"
    using remove_account_some [OF assms(1,2)] by simp_all
  then have "ix_total_bytes ix' \<le> ix_total_bytes ix"
    using index_inv_onD(7) [OF assms(1)] index_inv_onD(7) [OF ix'(1)] by (simp add: lru_remove_account_def lru_bytes_filter)
  with ix' assms(3) show ?thesis by (auto simp: sizes_right_def lru_remove_account_def)
qed

section \<open>The shared state keeps it\<close>

lemma cache_data_same:
  assumes "cache_data F c" "mc_files c' = mc_files c" "mc_index c' = mc_index c" "mc_max_bytes c' = mc_max_bytes c"
  shows "cache_data F c'"
  using assms by (simp add: cache_data_def)

lemma cache_data_ops [simp]:
  assumes "cache_data F c"
  shows "cache_data F (open_resource c)" "cache_data F (fs_mkdir a c)" "cache_data F (fs_unlink k c)"
    "cache_data F (c\<lparr>mc_downloads := n\<rparr>)" "cache_data F (c\<lparr>mc_open_handles := n\<rparr>)" "cache_data F (c\<lparr>mc_purged := ps\<rparr>)"
    "cache_data F (release_flight f k c)"
  using assms
  by (auto simp: cache_data_def open_resource_def fs_mkdir_def fs_unlink_def release_flight_def AList.delete_eq
      distinct_map_filter intro: cache_data_same split: option.split)

lemma cache_data_hit:
  assumes "cache_data F c" "hit_touch k c = Some c'"
  shows "cache_data F c'"
proof -
  obtain ix where ix: "index_touch k (mc_index c) = Some ix"
      "c' = c\<lparr>mc_index := ix, mc_open_handles := Suc (mc_open_handles c)\<rparr>"
    using assms(2) by (auto simp: hit_touch_def)
  with sizes_right_touch [OF _ ix(1), of F] assms(1) show ?thesis by (simp add: cache_data_def)
qed

lemma cache_data_flight: "cache_data F c \<Longrightarrow> flight_slot k c = (s, c') \<Longrightarrow> cache_data F c'"
  by (auto simp: flight_slot_def cache_data_def split: option.splits)

lemma alist_update_subset: "set (AList.update k v xs) \<subseteq> insert (k, v) (set xs)"
  by (induction xs) auto

lemma cache_data_rename:
  assumes "cache_data F c" "fs_rename k data c = Some c'" "(k, data) \<in> F"
  shows "cache_data F c'"
  using assms alist_update_subset [of k data "mc_files c"]
  by (auto simp: cache_data_def fs_rename_def distinct_update split: if_splits)

lemma cache_data_rmdir: "cache_data F c \<Longrightarrow> fs_rmdir a c = Some c' \<Longrightarrow> cache_data F c'"
  by (auto simp: fs_rmdir_def cache_data_def split: if_splits)

lemma cache_data_collect:
  assumes "cache_data F c" "index_inv ix" "sizes_right F ix" "collect_evictions (mc_max_bytes c) ix = Some (vs, ix')"
  shows "cache_data F (c\<lparr>mc_index := ix'\<rparr>)"
  using sizes_right_collect [OF assms(2,4,3)] assms(1) by (simp add: cache_data_def)

lemma cache_data_store:
  assumes "cache_data F c" "store_record k (length data) c = Some (vs, c')" "(k, data) \<in> F"
  shows "cache_data F c'"
proof -
  obtain ix ix' where ix: "index_record k (length data) (mc_index c) = Some ix"
      "collect_evictions (mc_max_bytes c) ix = Some (vs, ix')" "c' = c\<lparr>mc_index := ix'\<rparr>"
    using assms(2) by (auto simp: store_record_def split: option.splits)
  have "index_inv ix \<and> sizes_right F ix"
    by (rule sizes_right_record [OF _ ix(1) _ assms(3)]) (use assms(1) in \<open>simp_all add: cache_data_def\<close>)
  with cache_data_collect [OF assms(1) _ _ ix(2)] ix(3) show ?thesis by simp
qed

lemma cache_data_seed:
  assumes "cache_data F c" "rebuild_seed found c = Some (vs, c')"
    and "found_right F found"
  shows "cache_data F c'"
proof -
  let ?sorted = "sort_key (\<lambda>e. case fst e of None \<Rightarrow> 0 | Some t \<Rightarrow> Suc t) found"
  obtain ix ix' where ix: "seed_index ?sorted (mc_index c) = Some ix"
      "collect_evictions (mc_max_bytes c) ix = Some (vs, ix')" "c' = c\<lparr>mc_index := ix'\<rparr>"
    using assms(2) by (auto simp: rebuild_seed_def split: option.splits)
  have "index_inv ix \<and> sizes_right F ix"
    by (rule sizes_right_seed [OF _ ix(1)]) (use assms(1,3) in \<open>simp_all add: cache_data_def found_right_def\<close>)
  with cache_data_collect [OF assms(1) _ _ ix(2)] ix(3) show ?thesis by simp
qed

lemma cache_data_purge:
  "cache_data F c \<Longrightarrow> remove_account a (mc_index c) = Some ix \<Longrightarrow> cache_data F (c\<lparr>mc_index := ix\<rparr>)"
  using sizes_right_remove_account [of "mc_index c" a ix F] by (auto simp: cache_data_def)

lemma cache_data_mono: "cache_data F c \<Longrightarrow> F \<subseteq> F' \<Longrightarrow> cache_data F' c"
  by (fastforce simp: cache_data_def sizes_right_def)

lemmas cache_data_options = cache_data_hit cache_data_flight cache_data_rename cache_data_rmdir cache_data_store
  cache_data_seed cache_data_purge

section \<open>Every step keeps it\<close>

lemma map_of_files: "cache_data F c \<Longrightarrow> map_of (mc_files c) k = Some data \<Longrightarrow> (k, data) \<in> F"
  by (auto simp: cache_data_def dest: map_of_SomeD)

lemma map_of_sizes: "cache_data F c \<Longrightarrow> map_of (mc_files c) k = Some d \<Longrightarrow> \<exists>data. (k, data) \<in> F \<and> length d = length data"
  using map_of_files by blast

lemma holds_data_ending:
  "holds_data F (Leaving k s e) = holds_data F (Done k e)" "holds_data F (DropRef k s e) = holds_data F (Done k e)"
  "holds_data F (Releasing k e) = holds_data F (Done k e)"
  by (cases e; simp)+

lemma task_step_data:
  assumes "task_step ts c act p = Some (p', c', bg, fd, l)" "cache_data F c" "holds_data F p"
  shows "cache_data (F \<union> set fd) c' \<and> holds_data (F \<union> set fd) p' \<and> (\<forall>b \<in> set bg. background_data (F \<union> set fd) b)"
  using assms(1)
proof (cases rule: task_step_groups)
  case cancel
  with assms(2,3) show ?thesis by (cases p) (auto simp: step_defs split: step_splits)
next
  case lookup
  with assms(2,3) show ?thesis
    by (cases p) (auto simp: step_defs split: step_splits dest: cache_data_options map_of_files)
next
  case fetch
  have more: "cache_data (F \<union> set fd) c" by (rule cache_data_mono [OF assms(2)]) simp
  with fetch assms(3) show ?thesis
    by (cases p) (auto simp: step_defs Let_def split: step_splits)
next
  case store
  with assms(2,3) show ?thesis
    by (cases p) (auto simp: step_defs split: step_splits dest: cache_data_options)
next
  case leave
  with assms(2,3) show ?thesis by (cases p) (auto simp: step_defs holds_data_ending split: step_splits)
next
  case purge
  with assms(2,3) show ?thesis by (cases p) (auto simp: step_defs split: step_splits dest: cache_data_options)
next
  case rebuild
  with assms(2,3) show ?thesis
    by (cases p) (auto simp: step_defs split: step_splits dest: cache_data_options intro: map_of_sizes)
qed

definition data_inv :: "media_system \<Rightarrow> bool" where
  "data_inv y \<longleftrightarrow> cache_data (set (ms_fetched y)) (ms_cache y) \<and>
     (\<forall>p \<in> set (ms_tasks y). holds_data (set (ms_fetched y)) p) \<and>
     (\<forall>b \<in> set (ms_background y). background_data (set (ms_fetched y)) b)"

lemma background_data_mono: "background_data F b \<Longrightarrow> F \<subseteq> F' \<Longrightarrow> background_data F' b"
  by (cases b) auto

lemma background_step_data: "cache_data F c \<Longrightarrow> background_data F b \<Longrightarrow> cache_data F (background_step b c)"
  by (cases b) (auto split: option.split intro: cache_data_rename)

lemma background_rest: "set (take i xs @ drop (Suc i) xs) \<subseteq> set xs"
  using set_take_subset [of i xs] set_drop_subset [of "Suc i" xs] by simp

lemma data_inv_step:
  assumes "data_inv y" "media_step e y = Some y'"
  shows "data_inv y'"
proof (cases e)
  case (Step i act)
  obtain p c b fd l where st: "i < length (ms_tasks y)"
    "task_step (ms_tasks y) (ms_cache y) act (ms_tasks y ! i) = Some (p, c, b, fd, l)"
    "ms_cache y' = c" "ms_tasks y' = (ms_tasks y)[i := p]" "ms_background y' = ms_background y @ b"
    "ms_fetched y' = ms_fetched y @ fd"
    by (rule media_step_task [OF assms(2) [unfolded Step]])
  let ?F = "set (ms_fetched y)"
  have new: "cache_data (?F \<union> set fd) c" "holds_data (?F \<union> set fd) p" "\<forall>x \<in> set b. background_data (?F \<union> set fd) x"
    using task_step_data [OF st(2), of ?F] assms(1) st(1) by (auto simp: data_inv_def)
  have "holds_data (?F \<union> set fd) q" if "q \<in> set (ms_tasks y')" for q
    using set_update_nth [OF st(1) that [unfolded st(4)]] new(2) assms(1)
    by (auto simp: data_inv_def intro: holds_data_mono)
  with new assms(1) show ?thesis
    by (auto simp: data_inv_def st(3,5,6) intro: background_data_mono)
next
  case (Background i)
  with assms(2) have st: "i < length (ms_background y)" "ms_tasks y' = ms_tasks y" "ms_fetched y' = ms_fetched y"
    "ms_cache y' = background_step (ms_background y ! i) (ms_cache y)"
    "ms_background y' = take i (ms_background y) @ drop (Suc i) (ms_background y)"
    by (auto split: if_splits)
  have "set (ms_background y') \<subseteq> set (ms_background y)" unfolding st(5) by (rule background_rest)
  with assms(1) st(1) show ?thesis
    by (auto simp: data_inv_def st(2-4) intro!: background_step_data)
qed (use assms in \<open>auto simp: data_inv_def\<close>)

definition media_init64 :: "media_system \<Rightarrow> bool" where
  "media_init64 y \<longleftrightarrow> (\<exists>cfg files. distinct (map fst files) \<and> cfg_max_bytes cfg < U64_LIMIT \<and> y = media_boot cfg files)"

interpretation data: inv_system media_init64 media_steps data_inv
proof unfold_locales
  show "media_init64 y \<Longrightarrow> data_inv y" for y
    by (auto simp: media_init64_def data_inv_def media_boot_def cache_data_def cache_open_def sizes_right_def found_right_def)
  show "data_inv y \<Longrightarrow> media_steps y y' \<Longrightarrow> data_inv y'" for y y'
    by (auto simp: media_steps_def dest: data_inv_step)
qed

section \<open>Every file is accounted for\<close>

definition index_keys :: "cache \<Rightarrow> mkey set" where
  "index_keys c = fst ` set (index_abs (mc_index c))"

definition found_keys :: "(nat option \<times> mkey \<times> nat) list \<Rightarrow> mkey set" where
  "found_keys found = (\<lambda>e. fst (snd e)) ` set found"

lemma found_keys_simps [simp]: "found_keys [] = {}" "found_keys (xs @ [(m, k, n)]) = insert k (found_keys xs)"
  by (simp_all add: found_keys_def)

text \<open>A task that is about to count the file, or to remove it.\<close>

fun covers :: "mkey \<Rightarrow> pc \<Rightarrow> bool" where
  "covers k (Recording k' _ _) = (k' = k)"
| "covers k (Evicting _ _ _ victims) = (k \<in> set victims)"
| "covers k (PurgeRemove a) = (fst k = a)"
| "covers k (RbScan todo found) = (k \<in> set todo \<or> k \<in> found_keys found)"
| "covers k (RbEvict victims) = (k \<in> set victims)"
| "covers k _ = False"

lemma covers_leave [simp]: "\<not> covers k (leave k' so e)"
  by (simp add: leave_def split: option.split)

definition on_disk :: "cache \<Rightarrow> mkey \<Rightarrow> bool" where
  "on_disk c k \<longleftrightarrow> map_of (mc_files c) k \<noteq> None"

definition accounted :: "media_system \<Rightarrow> mkey \<Rightarrow> bool" where
  "accounted y k \<longleftrightarrow> k \<in> index_keys (ms_cache y) \<or> (\<exists>p \<in> set (ms_tasks y). covers k p) \<or> BgUnlink k \<in> set (ms_background y)"

lemma on_disk_None [simp]: "map_of (mc_files c) k = None \<Longrightarrow> \<not> on_disk c k"
  by (simp add: on_disk_def)

lemma index_keys_same [simp]:
  "index_keys (open_resource c) = index_keys c" "index_keys (fs_mkdir a c) = index_keys c"
  "index_keys (fs_unlink k c) = index_keys c" "index_keys (c\<lparr>mc_downloads := n\<rparr>) = index_keys c"
  "index_keys (c\<lparr>mc_open_handles := n\<rparr>) = index_keys c" "index_keys (c\<lparr>mc_purged := ps\<rparr>) = index_keys c"
  "index_keys (release_flight f k c) = index_keys c" "index_keys (background_step b c) = index_keys c"
  by (simp_all add: index_keys_def open_resource_def fs_mkdir_def fs_unlink_def release_flight_def split: option.split)
    (cases b; simp add: fs_mkdir_def fs_unlink_def fs_rename_def split: option.split)

lemma on_disk_same [simp]:
  "on_disk (open_resource c) = on_disk c" "on_disk (fs_mkdir a c) = on_disk c"
  "on_disk (c\<lparr>mc_downloads := n\<rparr>) = on_disk c" "on_disk (c\<lparr>mc_index := ix\<rparr>) = on_disk c"
  "on_disk (c\<lparr>mc_open_handles := n\<rparr>) = on_disk c" "on_disk (c\<lparr>mc_purged := ps\<rparr>) = on_disk c"
  "on_disk (release_flight f k c) = on_disk c"
  by (auto simp: fun_eq_iff on_disk_def open_resource_def fs_mkdir_def release_flight_def split: option.split)

lemma on_disk_unlink [simp]: "on_disk (fs_unlink v c) k \<longleftrightarrow> k \<noteq> v \<and> on_disk c k"
  by (auto simp: on_disk_def fs_unlink_def delete_conv')

lemma on_disk_option:
  "hit_touch v c = Some c' \<Longrightarrow> on_disk c' = on_disk c"
  "flight_slot v c = (s, c') \<Longrightarrow> on_disk c' = on_disk c \<and> index_keys c' = index_keys c"
  "store_record v n c = Some (vs, c') \<Longrightarrow> on_disk c' = on_disk c"
  "rebuild_seed found c = Some (vs, c') \<Longrightarrow> on_disk c' = on_disk c"
  by (auto simp: fun_eq_iff on_disk_def index_keys_def hit_touch_def flight_slot_def fs_rename_def store_record_def
      rebuild_seed_def update_conv' split: option.splits if_splits)

lemma rmdir_empty: "fs_rmdir a c = Some c' \<Longrightarrow> fst k = a \<Longrightarrow> \<not> on_disk c' k"
  by (auto simp: fs_rmdir_def on_disk_def account_files_def filter_empty_conv map_of_eq_None_iff split: if_splits)

lemma rmdir_same: "fs_rmdir a c = Some c' \<Longrightarrow> on_disk c' = on_disk c \<and> index_keys c' = index_keys c"
  by (auto simp: fs_rmdir_def on_disk_def index_keys_def fun_eq_iff split: if_splits)

lemma hit_touch_keys:
  assumes "cache_data F c" "hit_touch v c = Some c'"
  shows "index_keys c' = index_keys c"
proof -
  obtain ix where ix: "index_touch v (mc_index c) = Some ix" "mc_index c' = ix"
    using assms(2) by (auto simp: hit_touch_def)
  have "index_abs ix = lru_touch v (index_abs (mc_index c))"
    using index_touch_some [OF _ ix(1)] assms(1) by (simp add: cache_data_def)
  moreover have "fst ` set (lru_touch v xs) = fst ` set xs" for xs
    by (force simp: lru_touch_def lru_record_def lru_remove_def split: option.splits dest: map_of_SomeD)
  ultimately show ?thesis by (simp add: index_keys_def ix(2))
qed

lemma collect_keys:
  assumes "index_inv ix" "collect_evictions m ix = Some (vs, ix')"
  shows "fst ` set (index_abs ix) = set vs \<union> fst ` set (index_abs ix')"
  using lru_evict_shortest(1) [of m "index_abs ix" vs "index_abs ix'"] collect_evictions_some [OF assms]
  by (metis set_append set_map)

lemma store_record_keys:
  assumes "cache_data F c" "store_record v n c = Some (vs, c')"
  shows "insert v (index_keys c) = set vs \<union> index_keys c'"
proof -
  obtain ix ix' where ix: "index_record v n (mc_index c) = Some ix"
      "collect_evictions (mc_max_bytes c) ix = Some (vs, ix')" "c' = c\<lparr>mc_index := ix'\<rparr>"
    using assms(2) by (auto simp: store_record_def split: option.splits)
  have rec: "index_inv ix" "index_abs ix = lru_record v n (index_abs (mc_index c))"
    using index_record_some [OF _ ix(1)] assms(1) by (simp_all add: cache_data_def)
  have "fst ` set (lru_record v n xs) = insert v (fst ` set xs)" for xs
    by (auto simp: lru_record_def lru_remove_def)
  with collect_keys [OF rec(1) ix(2)] rec(2) show ?thesis by (simp add: index_keys_def ix(3))
qed

lemma seed_index_keys:
  assumes "index_inv ix" "seed_index found ix = Some ix'"
  shows "index_inv ix' \<and> fst ` set (index_abs ix') = fst ` set (index_abs ix) \<union> found_keys found"
  using assms
proof (induction found arbitrary: ix)
  case (Cons x found)
  obtain m k n where x: "x = (m, k, n)" by (cases x)
  obtain ix1 where ix1: "record_if_absent k n ix = Some ix1" "seed_index found ix1 = Some ix'"
    using Cons.prems(2) by (auto simp: x split: option.splits)
  have r: "index_inv ix1" "index_abs ix1 = lru_record_if_absent k n (index_abs ix)"
    using record_if_absent_some [OF Cons.prems(1) ix1(1)] by simp_all
  have "fst ` set (index_abs ix1) = insert k (fst ` set (index_abs ix))"
    unfolding r(2) by (auto simp: lru_record_if_absent_def)
  with Cons.IH [OF r(1) ix1(2)] show ?case by (simp add: x found_keys_def)
qed simp

lemma rebuild_seed_keys:
  assumes "cache_data F c" "rebuild_seed found c = Some (vs, c')"
  shows "index_keys c \<union> found_keys found = set vs \<union> index_keys c'"
proof -
  let ?sorted = "sort_key (\<lambda>e. case fst e of None \<Rightarrow> 0 | Some t \<Rightarrow> Suc t) found"
  obtain ix ix' where ix: "seed_index ?sorted (mc_index c) = Some ix"
      "collect_evictions (mc_max_bytes c) ix = Some (vs, ix')" "c' = c\<lparr>mc_index := ix'\<rparr>"
    using assms(2) by (auto simp: rebuild_seed_def split: option.splits)
  have "index_inv ix \<and> fst ` set (index_abs ix) = index_keys c \<union> found_keys ?sorted"
    unfolding index_keys_def by (rule seed_index_keys [OF _ ix(1)]) (use assms(1) in \<open>simp add: cache_data_def\<close>)
  with collect_keys [OF _ ix(2)] show ?thesis by (simp add: index_keys_def ix(3) found_keys_def)
qed

lemma remove_account_keys:
  assumes "cache_data F c" "remove_account a (mc_index c) = Some ix"
  shows "index_keys (c\<lparr>mc_index := ix\<rparr>) = {k \<in> index_keys c. fst k \<noteq> a}"
  using remove_account_some [OF _ assms(2)] assms(1)
  by (force simp: index_keys_def cache_data_def lru_remove_account_def)

lemma store_record_leaves:
  assumes "cache_data F c" "store_record v n c = Some (vs, c')" "k \<notin> set vs" "k \<notin> index_keys c'"
  shows "k \<notin> index_keys c \<and> k \<noteq> v"
  using store_record_keys [OF assms(1,2)] assms(3,4) by blast

lemma rebuild_seed_leaves:
  assumes "cache_data F c" "rebuild_seed found c = Some (vs, c')" "k \<notin> set vs" "k \<notin> index_keys c'"
  shows "k \<notin> index_keys c \<and> k \<notin> found_keys found"
  using rebuild_seed_keys [OF assms(1,2)] assms(3,4) by blast

lemma fs_rename_leaves:
  "fs_rename v data c = Some c' \<Longrightarrow> on_disk c' k \<Longrightarrow> k = v \<or> on_disk c k"
  by (auto simp: on_disk_def fs_rename_def update_conv' split: if_splits)

lemma fs_rename_keys: "fs_rename v data c = Some c' \<Longrightarrow> index_keys c' = index_keys c"
  by (auto simp: index_keys_def fs_rename_def split: if_splits)

text \<open>One step: a file that is on disk after it is counted or covered by the task, or it was there before and the
  task had nothing to do with it.\<close>

lemma task_step_accounts:
  assumes "task_step ts c act p = Some (p', c', bg, fd, False)" "cache_data F c" "on_disk c' k"
  shows "k \<in> index_keys c' \<or> covers k p' \<or> BgUnlink k \<in> set bg \<or> (on_disk c k \<and> k \<notin> index_keys c \<and> \<not> covers k p)"
  using assms(1)
proof (cases rule: task_step_groups)
  case cancel
  with assms(3) show ?thesis by (cases p) (auto simp: step_defs split: step_splits)
next
  case lookup
  with assms(3) show ?thesis
    by (cases p) (auto simp: step_defs split: step_splits dest: on_disk_option hit_touch_keys [OF assms(2)])
next
  case fetch
  with assms(3) show ?thesis by (cases p) (auto simp: step_defs Let_def split: step_splits)
next
  case store
  with assms(3) show ?thesis
    by (cases p) (auto simp: step_defs split: step_splits dest: on_disk_option fs_rename_leaves
      fs_rename_keys store_record_leaves [OF assms(2)])
next
  case leave
  with assms(3) show ?thesis by (cases p) (auto simp: step_defs split: step_splits)
next
  case purge
  with assms(3) show ?thesis
    by (cases p) (auto simp: step_defs remove_account_keys [OF assms(2)] split: step_splits dest: rmdir_same rmdir_empty)
next
  case rebuild
  with assms(3) show ?thesis
    by (cases p) (auto simp: step_defs split: step_splits dest: on_disk_option rebuild_seed_leaves [OF assms(2)])
qed

definition accounts_inv :: "media_system \<Rightarrow> bool" where
  "accounts_inv y \<longleftrightarrow> data_inv y \<and>
     (\<not> ms_lossy y \<longrightarrow> (\<forall>k. on_disk (ms_cache y) k \<longrightarrow> accounted y k) \<and> (\<forall>k data. BgRename k data \<notin> set (ms_background y)))"

lemma task_step_background:
  assumes "task_step ts c act p = Some (p', c', bg, fd, False)"
  shows "BgRename k data \<notin> set bg"
  using assms
proof (cases rule: task_step_groups)
  case cancel
  then show ?thesis by (cases p) (auto simp: step_defs split: step_splits)
next
  case lookup
  then show ?thesis by (cases p) (auto simp: step_defs split: step_splits)
next
  case fetch
  then show ?thesis by (cases p) (auto simp: step_defs Let_def split: step_splits)
next
  case store
  then show ?thesis by (cases p) (auto simp: step_defs split: step_splits)
next
  case leave
  then show ?thesis by (cases p) (auto simp: step_defs split: step_splits)
next
  case purge
  then show ?thesis by (cases p) (auto simp: step_defs split: step_splits)
next
  case rebuild
  then show ?thesis by (cases p) (auto simp: step_defs split: step_splits)
qed

lemma accounted_step:
  assumes "accounts_inv y" "media_step (Step i act) y = Some y'" "\<not> ms_lossy y'" "on_disk (ms_cache y') k"
  shows "accounted y' k"
proof -
  obtain p c b fd l where st: "i < length (ms_tasks y)"
    "task_step (ms_tasks y) (ms_cache y) act (ms_tasks y ! i) = Some (p, c, b, fd, l)"
    "ms_cache y' = c" "ms_tasks y' = (ms_tasks y)[i := p]" "ms_background y' = ms_background y @ b"
    "ms_lossy y' = (ms_lossy y \<or> l)"
    by (rule media_step_task [OF assms(2)])
  have l: "l = False" and before: "\<And>k. on_disk (ms_cache y) k \<Longrightarrow> accounted y k"
    using assms(1,3) st(6) by (auto simp: accounts_inv_def)
  have "cache_data (set (ms_fetched y)) (ms_cache y)" using assms(1) by (simp add: accounts_inv_def data_inv_def)
  from task_step_accounts [OF st(2) [unfolded l] this assms(4) [unfolded st(3)]] consider
      "k \<in> index_keys c" | "covers k p" | "BgUnlink k \<in> set b"
    | "on_disk (ms_cache y) k" "k \<notin> index_keys (ms_cache y)" "\<not> covers k (ms_tasks y ! i)"
    by blast
  then show ?thesis
  proof cases
    case 2
    then show ?thesis using set_update_memI [OF st(1), of p] by (auto simp: accounted_def st(4))
  next
    case 4
    with before [OF 4(1)] have "(\<exists>q \<in> set (ms_tasks y). covers k q) \<or> BgUnlink k \<in> set (ms_background y)"
      by (simp add: accounted_def)
    then show ?thesis
      using in_set_update [OF st(1), of _ p] 4(3) by (auto simp: accounted_def st(4,5))
  qed (auto simp: accounted_def st(3,5))
qed

lemma in_background_rest: "b \<in> set xs \<Longrightarrow> i < length xs \<Longrightarrow> b \<noteq> xs ! i \<Longrightarrow> b \<in> set (take i xs @ drop (Suc i) xs)"
  by (subst (asm) id_take_nth_drop [of i xs]) auto

lemma accounted_append: "accounted y k \<Longrightarrow> accounted (y\<lparr>ms_tasks := ms_tasks y @ [p]\<rparr>) k"
  by (auto simp: accounted_def)

lemma accounts_inv_step:
  assumes "accounts_inv y" "media_step e y = Some y'"
  shows "accounts_inv y'"
proof -
  have data: "data_inv y'" using data_inv_step [OF _ assms(2)] assms(1) unfolding accounts_inv_def by blast
  show ?thesis
  proof (cases e)
    case (Step i act)
    obtain p c b fd l where st:
      "task_step (ms_tasks y) (ms_cache y) act (ms_tasks y ! i) = Some (p, c, b, fd, l)"
      "ms_background y' = ms_background y @ b" "ms_lossy y' = (ms_lossy y \<or> l)"
      by (rule media_step_task [OF assms(2) [unfolded Step]])
    have "BgRename k data \<notin> set (ms_background y')" if "\<not> ms_lossy y'" for k data
    proof -
      have "l = False" "\<not> ms_lossy y" using that st(3) by simp_all
      then have "BgRename k data \<notin> set b" "BgRename k data \<notin> set (ms_background y)"
        using task_step_background [of _ _ _ _ p c b fd k data] st(1) assms(1) unfolding accounts_inv_def by blast+
      then show ?thesis by (simp add: st(2))
    qed
    then show ?thesis
      using data accounted_step [OF assms [unfolded Step]] by (simp add: accounts_inv_def)
  next
    case (Background i)
    with assms(2) have st: "i < length (ms_background y)" "ms_tasks y' = ms_tasks y" "ms_lossy y' = ms_lossy y"
      "ms_cache y' = background_step (ms_background y ! i) (ms_cache y)"
      "ms_background y' = take i (ms_background y) @ drop (Suc i) (ms_background y)"
      by (auto split: if_splits)
    have mem: "ms_background y ! i \<in> set (ms_background y)" using st(1) by simp
    have "accounted y' k" if "\<not> ms_lossy y" "on_disk (ms_cache y') k" for k
    proof -
      have "on_disk (ms_cache y) k \<and> ms_background y ! i \<noteq> BgUnlink k"
        using that assms(1) mem by (cases "ms_background y ! i") (auto simp: st(4) accounts_inv_def)
      moreover from this have "accounted y k" using that(1) assms(1) unfolding accounts_inv_def by blast
      ultimately show ?thesis
        using in_background_rest [OF _ st(1), of "BgUnlink k"] by (auto simp: accounted_def st(2,4,5))
    qed
    moreover have "set (ms_background y') \<subseteq> set (ms_background y)" unfolding st(5) by (rule background_rest)
    ultimately show ?thesis using data assms(1) by (auto simp: accounts_inv_def st(3))
  qed (use data assms accounted_append in \<open>auto simp: accounts_inv_def\<close>)
qed

definition media_init_enabled :: "media_system \<Rightarrow> bool" where
  "media_init_enabled y \<longleftrightarrow> (\<exists>cfg files. distinct (map fst files) \<and> cfg_max_bytes cfg < U64_LIMIT \<and> cfg_enabled cfg \<and>
     y = media_boot cfg files)"

lemma on_disk_open: "on_disk (cache_open cfg files) k \<longleftrightarrow> k \<in> fst ` set files"
  by (simp add: on_disk_def cache_open_def map_of_eq_None_iff)

interpretation accounts: inv_system media_init_enabled media_steps accounts_inv
proof unfold_locales
  show "accounts_inv y" if "media_init_enabled y" for y
  proof -
    have "data_inv y"
      by (rule data.init_inv) (use that in \<open>auto simp: media_init_enabled_def media_init64_def\<close>)
    then show ?thesis
      using that by (auto simp: accounts_inv_def media_init_enabled_def media_boot_def accounted_def on_disk_open)
  qed
  show "accounts_inv y \<Longrightarrow> media_steps y y' \<Longrightarrow> accounts_inv y'" for y y'
    by (auto simp: media_steps_def dest: accounts_inv_step)
qed

section \<open>What the cache promises\<close>

lemma max_same [simp]:
  "mc_max_bytes (fs_mkdir a c) = mc_max_bytes c" "mc_max_bytes (fs_unlink k c) = mc_max_bytes c"
  "mc_max_bytes (open_resource c) = mc_max_bytes c" "mc_max_bytes (release_flight f k c) = mc_max_bytes c"
  "mc_max_bytes (background_step b c) = mc_max_bytes c"
  by (simp_all add: fs_mkdir_def fs_unlink_def open_resource_def release_flight_def split: option.split)
    (cases b; simp add: fs_mkdir_def fs_unlink_def fs_rename_def split: option.split)

lemma max_same_option:
  "fs_rename k data c = Some c' \<Longrightarrow> mc_max_bytes c' = mc_max_bytes c"
  "fs_rmdir a c = Some c' \<Longrightarrow> mc_max_bytes c' = mc_max_bytes c"
  "hit_touch k c = Some c' \<Longrightarrow> mc_max_bytes c' = mc_max_bytes c"
  "flight_slot k c = (s, c') \<Longrightarrow> mc_max_bytes c' = mc_max_bytes c"
  "store_record k n c = Some (vs, c') \<Longrightarrow> mc_max_bytes c' = mc_max_bytes c"
  "rebuild_seed found c = Some (vs, c') \<Longrightarrow> mc_max_bytes c' = mc_max_bytes c"
  by (auto simp: fs_rename_def fs_rmdir_def hit_touch_def flight_slot_def store_record_def rebuild_seed_def
      split: if_splits option.splits)

lemma task_step_max:
  assumes "task_step ts c act p = Some (p', c', x)"
  shows "mc_max_bytes c' = mc_max_bytes c"
  using assms
proof (cases rule: task_step_groups)
  case cancel
  then show ?thesis by (cases p) (auto simp: step_defs split: step_splits)
next
  case lookup
  then show ?thesis by (cases p) (auto simp: step_defs split: step_splits dest: max_same_option)
next
  case fetch
  then show ?thesis by (cases p) (auto simp: step_defs Let_def split: step_splits)
next
  case store
  then show ?thesis by (cases p) (auto simp: step_defs split: step_splits dest: max_same_option)
next
  case leave
  then show ?thesis by (cases p) (auto simp: step_defs split: step_splits)
next
  case purge
  then show ?thesis by (cases p) (auto simp: step_defs split: step_splits dest: max_same_option)
next
  case rebuild
  then show ?thesis by (cases p) (auto simp: step_defs split: step_splits dest: max_same_option)
qed

lemma media_step_max: "media_step e y = Some y' \<Longrightarrow> mc_max_bytes (ms_cache y') = mc_max_bytes (ms_cache y)"
  by (cases e) (auto split: if_splits option.splits dest: task_step_max)

lemma media_run_max: "media_run es y = Some y' \<Longrightarrow> mc_max_bytes (ms_cache y') = mc_max_bytes (ms_cache y)"
  by (induction es arbitrary: y) (auto split: option.splits dest: media_step_max)

lemma media_boot_max [simp]: "mc_max_bytes (ms_cache (media_boot cfg files)) = cfg_max_bytes cfg"
  by (simp add: media_boot_def cache_open_def)

text \<open>C17: what is served under a key is what the downloader returned for that key (or the file that was there at
  boot), byte for byte, in every run; and the bytes the index counts never exceed the configured limit.\<close>

theorem media_served_bytes:
  assumes "media_run es (media_boot cfg files) = Some y" "distinct (map fst files)" "cfg_max_bytes cfg < U64_LIMIT"
  shows "(\<forall>k data. Done k (Served data) \<in> set (ms_tasks y) \<longrightarrow> (k, data) \<in> set (ms_fetched y)) \<and>
    ix_total_bytes (mc_index (ms_cache y)) \<le> cfg_max_bytes cfg"
proof -
  have "mc_max_bytes (ms_cache y) = cfg_max_bytes cfg"
    using media_run_max [OF assms(1)] by simp
  moreover have inv: "data_inv y"
    using data.reach_inv [OF _ media_run_steps [OF assms(1)]] assms(2,3) by (auto simp: media_init64_def)
  moreover have "(k, data) \<in> set (ms_fetched y)" if "Done k (Served data) \<in> set (ms_tasks y)" for k data
    using inv bspec [OF _ that, of "holds_data (set (ms_fetched y))"] by (simp add: data_inv_def)
  ultimately show ?thesis by (simp add: data_inv_def cache_data_def)
qed

text \<open>No task is in the middle of anything.\<close>

fun settled :: "pc \<Rightarrow> bool" where
  "settled (Done _ _) = True"
| "settled (Closed _) = True"
| "settled (PurgeDone _ _) = True"
| "settled RbDone = True"
| "settled _ = False"

definition disk_bytes :: "cache \<Rightarrow> nat" where
  "disk_bytes c = sum_list (map (length \<circ> snd) (mc_files c))"

lemma settled_covers: "settled p \<Longrightarrow> \<not> covers k p"
  by (cases p) auto

text \<open>When contents do not change, the bytes on disk are bounded by the bytes counted.\<close>

lemma disk_bytes_le:
  assumes "cache_data F c" "\<And>k. on_disk c k \<Longrightarrow> k \<in> index_keys c"
    and "\<And>k d d'. (k, d) \<in> F \<Longrightarrow> (k, d') \<in> F \<Longrightarrow> length d = length d'"
  shows "disk_bytes c \<le> ix_total_bytes (mc_index c)"
proof -
  let ?sizes = "map (\<lambda>p. (fst p, length (snd p))) (mc_files c)"
  have files: "set (mc_files c) \<subseteq> F" "distinct (map fst (mc_files c))" and inv: "index_inv (mc_index c)"
    and right: "sizes_right F (mc_index c)"
    using assms(1) by (simp_all add: cache_data_def)
  have sub: "set ?sizes \<subseteq> set (index_abs (mc_index c))"
  proof
    fix e assume "e \<in> set ?sizes"
    then obtain k d where kd: "(k, d) \<in> set (mc_files c)" "e = (k, length d)" by auto
    then have "on_disk c k" by (force simp: on_disk_def map_of_eq_None_iff)
    with assms(2) [of k] obtain n where n: "(k, n) \<in> set (index_abs (mc_index c))" by (auto simp: index_keys_def)
    with right obtain d' where "(k, d') \<in> F" "n = length d'" by (auto simp: sizes_right_def)
    with assms(3) kd files(1) have "n = length d" by blast
    with n kd(2) show "e \<in> set (index_abs (mc_index c))" by simp
  qed
  have "distinct ?sizes" using files(2) by (auto simp: distinct_map inj_on_def)
  then have "sum_list (map snd ?sizes) = sum snd (set ?sizes)" by (rule sum_list_distinct_conv_sum_set)
  also have "\<dots> \<le> sum snd (set (index_abs (mc_index c)))" using sub by (intro sum_mono2) auto
  also have "\<dots> = sum_list (map snd (index_abs (mc_index c)))"
    using index_abs_distinct [OF inv] by (simp add: sum_list_distinct_conv_sum_set distinct_map)
  also have "\<dots> = ix_total_bytes (mc_index c)" using index_inv_onD(7) [OF inv] by (simp add: lru_bytes_def)
  finally show ?thesis by (simp add: disk_bytes_def o_def)
qed

text \<open>The disk stays within the limit. In an enabled cache, as long as no file operation has failed and none has
  been abandoned by a cancelled request, every file is counted or a running task is about to count or remove
  it; so whenever no task is in the middle of anything and the contents under a key never change, the files take up no
  more than the configured limit, whatever ran concurrently before.\<close>

theorem media_disk_bounded:
  assumes "media_run es (media_boot cfg files) = Some y" "distinct (map fst files)" "cfg_max_bytes cfg < U64_LIMIT"
    and "cfg_enabled cfg" "\<not> ms_lossy y" "\<forall>p \<in> set (ms_tasks y). settled p" "ms_background y = []"
    and "\<forall>k d d'. (k, d) \<in> set (ms_fetched y) \<and> (k, d') \<in> set (ms_fetched y) \<longrightarrow> d = d'"
  shows "disk_bytes (ms_cache y) \<le> cfg_max_bytes cfg"
proof -
  have inv: "accounts_inv y"
    using accounts.reach_inv [OF _ media_run_steps [OF assms(1)]] assms(2-4) by (auto simp: media_init_enabled_def)
  then have data: "cache_data (set (ms_fetched y)) (ms_cache y)"
    by (simp add: accounts_inv_def data_inv_def)
  have "k \<in> index_keys (ms_cache y)" if "on_disk (ms_cache y) k" for k
  proof -
    have "accounted y k" using inv assms(5) that unfolding accounts_inv_def by blast
    then show ?thesis using assms(6,7) settled_covers by (auto simp: accounted_def)
  qed
  then have "disk_bytes (ms_cache y) \<le> ix_total_bytes (mc_index (ms_cache y))"
    by (rule disk_bytes_le [OF data]) (use assms(8) in blast)+
  also have "\<dots> \<le> cfg_max_bytes cfg"
    using data media_run_max [OF assms(1)] by (simp add: cache_data_def)
  finally show ?thesis .
qed

section \<open>Abandoned stores\<close>

text \<open>The life of one request, by the task with number \<open>i\<close>, that is dropped while its file is being renamed.\<close>

definition leak_events :: "nat \<Rightarrow> mkey \<Rightarrow> bytes \<Rightarrow> event list" where
  "leak_events i k data =
     [Request k, Step i Go, Step i Go, Step i Go, Step i Go, Step i Go, Step i (Returned (Inr data)), Step i Go, Step i Go,
      Step i Go, Step i Cancel, Background 0, Step i Go, Step i Go, Step i Go]"

definition quiet :: "mkey \<Rightarrow> media_system \<Rightarrow> bool" where
  "quiet k y \<longleftrightarrow> (\<forall>p \<in> set (ms_tasks y). settled p) \<and> ms_background y = [] \<and> mc_flight (ms_cache y) = [] \<and>
     mc_enabled (ms_cache y) \<and> 0 < mc_downloads (ms_cache y) \<and> \<not> on_disk (ms_cache y) k \<and> mc_purged (ms_cache y) = []"

lemma settled_free: "settled p \<Longrightarrow> slot_ref p = None \<and> slot_held p = None \<and> account_held p = None"
  by (cases p) auto

lemma leak_round:
  assumes "quiet k y" "length data \<le> mc_max_object_bytes (ms_cache y)"
  shows "\<exists>y'. media_run (leak_events (length (ms_tasks y)) k data) y = Some y' \<and>
    ms_tasks y' = ms_tasks y @ [Done k Dropped] \<and> ms_background y' = [] \<and>
    mc_files (ms_cache y') = AList.update k data (mc_files (ms_cache y)) \<and> mc_index (ms_cache y') = mc_index (ms_cache y) \<and>
    mc_flight (ms_cache y') = [] \<and> mc_enabled (ms_cache y') \<and> mc_downloads (ms_cache y') = mc_downloads (ms_cache y) \<and>
    mc_purged (ms_cache y') = [] \<and> mc_max_object_bytes (ms_cache y') = mc_max_object_bytes (ms_cache y)"
proof -
  have free: "\<forall>p \<in> set (ms_tasks y). slot_held p \<noteq> Some s" "\<forall>p \<in> set (ms_tasks y). account_held p \<noteq> Some a"
      "filter (\<lambda>p. map_option snd (slot_ref p) = Some s) (ms_tasks y) = []" for s a
    using assms(1) settled_free by (auto simp: quiet_def filter_empty_conv)
  show ?thesis
    using assms free
    by (cases k) (simp add: leak_events_def quiet_def on_disk_def task_step_def step_defs flight_slot_def fetch_capped_def
        fs_mkdir_def fs_rename_def release_flight_def strong_count_def Let_def)
qed

lemma media_run_append:
  "media_run (es @ fs) y = (case media_run es y of None \<Rightarrow> None | Some y' \<Rightarrow> media_run fs y')"
  by (induction es arbitrary: y) (auto split: option.split)

lemma alist_update_new: "k \<notin> fst ` set xs \<Longrightarrow> AList.update k v xs = xs @ [(k, v)]"
  by (induction xs) auto

text \<open>After \<open>n\<close> such requests for different keys.\<close>

lemma leak_rounds:
  assumes "cfg_enabled cfg" "1 \<le> cfg_max_object_bytes cfg"
  shows "\<exists>es y. media_run es (media_boot cfg []) = Some y \<and> (\<forall>p \<in> set (ms_tasks y). settled p) \<and> ms_background y = [] \<and>
    mc_flight (ms_cache y) = [] \<and> mc_enabled (ms_cache y) \<and> 0 < mc_downloads (ms_cache y) \<and> mc_purged (ms_cache y) = [] \<and>
    mc_max_object_bytes (ms_cache y) = cfg_max_object_bytes cfg \<and> mc_index (ms_cache y) = index_default \<and>
    mc_files (ms_cache y) = map (\<lambda>m. ((1, [m]), [0])) [0..<n]"
proof (induction n)
  case 0
  have "media_run [Step 0 Go, Step 0 Go] (media_boot cfg []) = Some ((media_boot cfg [])\<lparr>ms_tasks := [RbDone]\<rparr>)"
    using assms(1) by (simp add: media_boot_def cache_open_def task_step_def step_defs rebuild_seed_def
      collect_evictions.simps)
  then show ?case
    using assms(1) by (intro exI [of _ "[Step 0 Go, Step 0 Go]"]) (simp add: media_boot_def cache_open_def)
next
  case (Suc n)
  then obtain es y where y: "media_run es (media_boot cfg []) = Some y" "\<forall>p \<in> set (ms_tasks y). settled p"
      "ms_background y = []" "mc_flight (ms_cache y) = []" "mc_enabled (ms_cache y)" "0 < mc_downloads (ms_cache y)"
      "mc_purged (ms_cache y) = []" "mc_max_object_bytes (ms_cache y) = cfg_max_object_bytes cfg"
      "mc_index (ms_cache y) = index_default" "mc_files (ms_cache y) = map (\<lambda>m. ((1, [m]), [0])) [0..<n]"
    by blast
  let ?k = "(1, [n])"
  have new: "?k \<notin> fst ` set (mc_files (ms_cache y))" by (auto simp: y(10))
  have "quiet ?k y" using y new by (simp add: quiet_def on_disk_def map_of_eq_None_iff)
  from leak_round [OF this, of "[0]"] y(8) assms(2) obtain y' where
    "media_run (leak_events (length (ms_tasks y)) ?k [0]) y = Some y'" "ms_tasks y' = ms_tasks y @ [Done ?k Dropped]"
    "ms_background y' = []" "mc_files (ms_cache y') = AList.update ?k [0] (mc_files (ms_cache y))"
    "mc_index (ms_cache y') = mc_index (ms_cache y)" "mc_flight (ms_cache y') = []" "mc_enabled (ms_cache y')"
    "mc_downloads (ms_cache y') = mc_downloads (ms_cache y)" "mc_purged (ms_cache y') = []"
    "mc_max_object_bytes (ms_cache y') = mc_max_object_bytes (ms_cache y)"
    by auto
  with y new show ?case
    by (intro exI [of _ "es @ leak_events (length (ms_tasks y)) ?k [0]"] exI [of _ y'])
      (simp add: media_run_append alist_update_new)
qed

text \<open>C18: cancellation defeats the limit. For every number of bytes there is a run of an enabled cache in which each
  file operation succeeds, all requests have ended and nothing is left running, and the files on disk take up more
  than that number while the index counts none of them: each request was dropped while its file was being
  renamed into place, so the rename took effect and the entry was never recorded.\<close>

theorem media_cancel_leaks:
  assumes "cfg_enabled cfg" "1 \<le> cfg_max_object_bytes cfg"
  shows "\<exists>es y. media_run es (media_boot cfg []) = Some y \<and> (\<forall>p \<in> set (ms_tasks y). settled p) \<and>
    ms_background y = [] \<and> N < disk_bytes (ms_cache y) \<and> ix_total_bytes (mc_index (ms_cache y)) = 0"
proof -
  obtain es y where y: "media_run es (media_boot cfg []) = Some y" "\<forall>p \<in> set (ms_tasks y). settled p"
      "ms_background y = []" "mc_index (ms_cache y) = index_default"
      "mc_files (ms_cache y) = map (\<lambda>m. ((1, [m]), [0])) [0..<Suc N]"
    using leak_rounds [OF assms, of "Suc N"] by blast
  have "disk_bytes (ms_cache y) = Suc N"
    by (simp add: disk_bytes_def y(5) o_def sum_list_triv del: upt_Suc)
  with y show ?thesis by (intro exI [of _ es] exI [of _ y]) simp
qed

section \<open>Examples\<close>

definition demo_store :: "event list" where
  "demo_store = [Step 0 Go, Step 0 Go, Request (1, [5]), Step 1 Go, Step 1 Go, Step 1 Go, Step 1 Go, Step 1 Go,
     Step 1 (Returned (Inr [7, 8])), Step 1 Go, Step 1 Go, Step 1 Go, Step 1 Go, Step 1 Go, Step 1 Go, Step 1 Go,
     Step 1 Go, Step 1 Go]"

lemma demo_store_run:
  "\<exists>y. media_run demo_store (media_boot demo_media []) = Some y \<and> ms_tasks y = [RbDone, Done (1, [5]) (Served [7, 8])] \<and>
     ms_background y = [] \<and> \<not> ms_lossy y \<and> ms_fetched y = [((1, [5]), [7, 8])] \<and> disk_bytes (ms_cache y) = 2"
  by (simp add: demo_store_def demo_media_def media_boot_def cache_open_def task_step_def step_defs flight_slot_def
      fetch_capped_def rebuild_seed_def collect_evictions.simps index_default_def fs_mkdir_def fs_rename_def store_record_def
      index_record_def index_push_def checked_add_def U64_LIMIT_def open_resource_def release_flight_def strong_count_def
      disk_bytes_def)

theorem media_served_bytes_witness:
  "\<exists>y. media_run demo_store (media_boot demo_media []) = Some y \<and> Done (1, [5]) (Served [7, 8]) \<in> set (ms_tasks y) \<and>
     ((1, [5]), [7, 8]) \<in> set (ms_fetched y) \<and> ix_total_bytes (mc_index (ms_cache y)) \<le> 10"
proof -
  obtain y where y: "media_run demo_store (media_boot demo_media []) = Some y"
      "ms_tasks y = [RbDone, Done (1, [5]) (Served [7, 8])]"
    using demo_store_run by blast
  from media_served_bytes [OF y(1)] y show ?thesis by (simp add: demo_media_def U64_LIMIT_def)
qed

theorem media_disk_bounded_witness:
  "\<exists>y. media_run demo_store (media_boot demo_media []) = Some y \<and> 0 < disk_bytes (ms_cache y) \<and> disk_bytes (ms_cache y) \<le> 10"
proof -
  obtain y where y: "media_run demo_store (media_boot demo_media []) = Some y"
      "ms_tasks y = [RbDone, Done (1, [5]) (Served [7, 8])]" "ms_background y = []" "\<not> ms_lossy y"
      "ms_fetched y = [((1, [5]), [7, 8])]" "disk_bytes (ms_cache y) = 2"
    using demo_store_run by blast
  have "disk_bytes (ms_cache y) \<le> cfg_max_bytes demo_media"
    by (rule media_disk_bounded [OF y(1)]) (simp_all add: y(2-5) demo_media_def U64_LIMIT_def)
  with y(1,6) show ?thesis by (simp add: demo_media_def)
qed

theorem media_cancel_leaks_witness:
  "\<exists>es y. media_run es (media_boot demo_media []) = Some y \<and> (\<forall>p \<in> set (ms_tasks y). settled p) \<and>
    ms_background y = [] \<and> 1000 < disk_bytes (ms_cache y) \<and> ix_total_bytes (mc_index (ms_cache y)) = 0"
  by (rule media_cancel_leaks) (simp_all add: demo_media_def)

end
