(* ===== verification/Room_Metadata.thy ===== *)
theory Room_Metadata
  imports Json_Value
begin

text \<open>
  Typed snapshots of cached room state (\<^verbatim>\<open>crates/axon-api/src/room_metadata.rs\<close>): the content of a state event is
  untrusted, and a read keeps what is well-formed of it, field by field.

  \<^item> The eight content structs and the tables of \<^verbatim>\<open>metadata_fields!\<close> have the same fields, so a struct is its
    table: the key in the event, the name the API emits, and the kind of the field. All of their fields are
    optional; a kind is what \<^verbatim>\<open>Deserialize\<close> accepts besides null.
  \<^item> A derived \<^verbatim>\<open>Deserialize\<close> of a struct accepts an object, or an array with the fields in order.
  \<^item> \<open>tf\<close> truncates the text of a JSON float toward zero. Integers beyond \<^verbatim>\<open>i64\<close> are read as floats too;
    rounding cannot bring them back into the range of power levels.
  \<^item> \<open>lenient_fields\<close> is the contract between the decoder and the repair of a kind, from which the snapshot of a
    whole table follows.
\<close>

section \<open>Kinds of fields\<close>

datatype meta_kind = KString | KBool | KU64 | KPredecessor | KStrings | KConditions | KPower | KPowerMap | KNotifications

datatype meta_value =
    MString rstr
  | MBool bool
  | MU64 nat
  | MPredecessor rstr "rstr option"
  | MStrings "rstr list"
  | MConditions "(rstr \<times> rstr option) list"
  | MPower int
  | MPowerMap "(rstr \<times> int) list"
  | MNotifications "int option"

definition de_option :: "(json_value \<Rightarrow> 'a option) \<Rightarrow> json_value option \<Rightarrow> 'a option option" where
  "de_option d ov =
     (case ov of None \<Rightarrow> Some None | Some v \<Rightarrow> if v = JNull then Some None else map_option Some (d v))"

definition de_vec :: "(json_value \<Rightarrow> 'a option) \<Rightarrow> json_value \<Rightarrow> 'a list option" where
  "de_vec d v = Option.bind (as_array v) (\<lambda>vs. those (map d vs))"

text \<open>\<^verbatim>\<open>RoomPredecessorMetadata\<close> and \<^verbatim>\<open>RoomJoinConditionMetadata\<close>: a required string and an optional one.\<close>

fun de_pair :: "rstr \<Rightarrow> rstr \<Rightarrow> json_value \<Rightarrow> (rstr \<times> rstr option) option" where
  "de_pair k1 k2 (JObject kvs) =
     Option.bind (Option.bind (map_of kvs k1) as_string) (\<lambda>x. map_option (Pair x) (de_option as_string (map_of kvs k2)))"
| "de_pair k1 k2 (JArray [a, b]) = Option.bind (as_string a) (\<lambda>x. map_option (Pair x) (de_option as_string (Some b)))"
| "de_pair k1 k2 _ = None"

definition de_predecessor :: "json_value \<Rightarrow> (rstr \<times> rstr option) option" where
  "de_predecessor = de_pair (lit ''room_id'') (lit ''event_id'')"

definition de_condition :: "json_value \<Rightarrow> (rstr \<times> rstr option) option" where
  "de_condition = de_pair (lit ''type'') (lit ''room_id'')"

section \<open>Power levels\<close>

datatype stored_power_level = SpInteger int | SpString rstr | SpFloat int

fun de_stored_power_level :: "(rstr \<Rightarrow> int) \<Rightarrow> json_value \<Rightarrow> stored_power_level option" where
  "de_stored_power_level tf (JNumber n) = Some (if in_i64 n then SpInteger n else SpFloat n)"
| "de_stored_power_level tf (JString s) = Some (SpString s)"
| "de_stored_power_level tf (JFloat f) = Some (SpFloat (tf f))"
| "de_stored_power_level tf _ = None"

definition MAX_SAFE_INTEGER :: int where
  "MAX_SAFE_INTEGER = 9007199254740991"

definition safe_integer :: "int \<Rightarrow> int option" where
  "safe_integer n = (if - MAX_SAFE_INTEGER \<le> n \<and> n \<le> MAX_SAFE_INTEGER then Some n else None)"

fun into_integer :: "stored_power_level \<Rightarrow> int option" where
  "into_integer (SpInteger n) = safe_integer n"
| "into_integer (SpString s) = Option.bind (parse_i64 (trim_matches is_white_space s)) safe_integer"
| "into_integer (SpFloat n) = safe_integer n"

definition power_level :: "(rstr \<Rightarrow> int) \<Rightarrow> json_value \<Rightarrow> int option" where
  "power_level tf v = Option.bind (de_stored_power_level tf v) into_integer"

definition is_valid_power_level :: "(rstr \<Rightarrow> int) \<Rightarrow> json_value \<Rightarrow> bool" where
  "is_valid_power_level tf v \<longleftrightarrow> power_level tf v \<noteq> None"

definition power_entry :: "(rstr \<Rightarrow> int) \<Rightarrow> rstr \<times> json_value \<Rightarrow> (rstr \<times> int) option" where
  "power_entry tf e = map_option (Pair (fst e)) (power_level tf (snd e))"

definition de_power_map :: "(rstr \<Rightarrow> int) \<Rightarrow> json_value \<Rightarrow> (rstr \<times> int) list option" where
  "de_power_map tf v = Option.bind (as_object v) (\<lambda>kvs. those (map (power_entry tf) kvs))"

definition ROOM :: rstr where
  "ROOM = lit ''room''"

fun de_notifications :: "(rstr \<Rightarrow> int) \<Rightarrow> json_value \<Rightarrow> int option option" where
  "de_notifications tf (JObject kvs) = de_option (power_level tf) (map_of kvs ROOM)"
| "de_notifications tf (JArray []) = Some None"
| "de_notifications tf (JArray [v]) = de_option (power_level tf) (Some v)"
| "de_notifications tf _ = None"

fun de_kind :: "(rstr \<Rightarrow> int) \<Rightarrow> meta_kind \<Rightarrow> json_value \<Rightarrow> meta_value option" where
  "de_kind tf KString v = map_option MString (as_string v)"
| "de_kind tf KBool v = map_option MBool (as_bool v)"
| "de_kind tf KU64 v = map_option MU64 (as_u64 v)"
| "de_kind tf KPredecessor v = map_option (\<lambda>(r, e). MPredecessor r e) (de_predecessor v)"
| "de_kind tf KStrings v = map_option MStrings (de_vec as_string v)"
| "de_kind tf KConditions v = map_option MConditions (de_vec de_condition v)"
| "de_kind tf KPower v = map_option MPower (power_level tf v)"
| "de_kind tf KPowerMap v = map_option MPowerMap (de_power_map tf v)"
| "de_kind tf KNotifications v = map_option MNotifications (de_notifications tf v)"

section \<open>Repair\<close>

text \<open>The fields that are left and the paths that were malformed, in order.\<close>

type_synonym repair_state = "json_map \<times> rstr list"

definition path_insert :: "rstr \<Rightarrow> rstr list \<Rightarrow> rstr list" where
  "path_insert p ps = (if p \<in> set ps then ps else insort p ps)"

definition repair_field :: "(json_value \<Rightarrow> 'a option) \<Rightarrow> rstr \<Rightarrow> repair_state \<Rightarrow> repair_state" where
  "repair_field d key st =
     (case map_of (fst st) key of
        Some v \<Rightarrow> if v \<noteq> JNull \<and> d v = None then (obj_remove key (fst st), path_insert key (snd st)) else st
      | None \<Rightarrow> st)"

definition repair_list :: "(json_value \<Rightarrow> 'a option) \<Rightarrow> rstr \<Rightarrow> repair_state \<Rightarrow> repair_state" where
  "repair_list d key st =
     (case map_of (fst st) key of
        Some (JArray vs) \<Rightarrow>
          (obj_insert key (JArray (filter (\<lambda>v. d v \<noteq> None) vs)) (fst st),
           if list_all (\<lambda>v. d v \<noteq> None) vs then snd st else path_insert (key @ lit ''[]'') (snd st))
      | _ \<Rightarrow> repair_field (de_vec d) key st)"

definition repair_power_map :: "(rstr \<Rightarrow> int) \<Rightarrow> rstr \<Rightarrow> repair_state \<Rightarrow> repair_state" where
  "repair_power_map tf key st =
     (case map_of (fst st) key of
        Some (JObject kvs) \<Rightarrow>
          (obj_insert key (JObject (filter (\<lambda>e. is_valid_power_level tf (snd e)) kvs)) (fst st),
           if list_all (\<lambda>e. is_valid_power_level tf (snd e)) kvs then snd st else path_insert (key @ lit ''.*'') (snd st))
      | _ \<Rightarrow> repair_field (de_power_map tf) key st)"

definition repair_power_field :: "(rstr \<Rightarrow> int) \<Rightarrow> rstr \<Rightarrow> repair_state \<Rightarrow> repair_state" where
  "repair_power_field tf key st =
     (case map_of (fst st) key of
        Some v \<Rightarrow> if v \<noteq> JNull \<and> \<not> is_valid_power_level tf v then (obj_remove key (fst st), path_insert key (snd st)) else st
      | None \<Rightarrow> st)"

definition repair_notifications :: "(rstr \<Rightarrow> int) \<Rightarrow> rstr \<Rightarrow> repair_state \<Rightarrow> repair_state" where
  "repair_notifications tf key st =
     (case map_of (fst st) key of
        Some (JObject kvs) \<Rightarrow>
          (case repair_power_field tf ROOM (kvs, []) of (kvs', nested) \<Rightarrow>
             (obj_insert key (JObject kvs') (fst st), fold path_insert (map (\<lambda>p. key @ lit ''.'' @ p) nested) (snd st)))
      | _ \<Rightarrow> repair_field (de_notifications tf) key st)"

fun repair_kind :: "(rstr \<Rightarrow> int) \<Rightarrow> meta_kind \<Rightarrow> rstr \<Rightarrow> repair_state \<Rightarrow> repair_state" where
  "repair_kind tf KString key st = repair_field as_string key st"
| "repair_kind tf KBool key st = repair_field as_bool key st"
| "repair_kind tf KU64 key st = repair_field as_u64 key st"
| "repair_kind tf KPredecessor key st = repair_field de_predecessor key st"
| "repair_kind tf KStrings key st = repair_list as_string key st"
| "repair_kind tf KConditions key st = repair_list de_condition key st"
| "repair_kind tf KPower key st = repair_power_field tf key st"
| "repair_kind tf KPowerMap key st = repair_power_map tf key st"
| "repair_kind tf KNotifications key st = repair_notifications tf key st"

section \<open>Tables\<close>

type_synonym meta_table = "(rstr \<times> rstr \<times> meta_kind) list"

definition plain :: "(string \<times> meta_kind) list \<Rightarrow> meta_table" where
  "plain fields = map (\<lambda>(k, kind). (lit k, lit k, kind)) fields"

definition RoomAliasesMetadata :: meta_table where
  "RoomAliasesMetadata = plain [(''alias'', KString), (''alt_aliases'', KStrings)]"

definition RoomCreationMetadata :: meta_table where
  "RoomCreationMetadata = plain [(''creator'', KString), (''additional_creators'', KStrings), (''room_version'', KString)]
     @ [(lit ''m.federate'', lit ''federate'', KBool), (lit ''type'', lit ''room_type'', KString)] @ plain [(''predecessor'', KPredecessor)]"

definition RoomJoinRulesMetadata :: meta_table where
  "RoomJoinRulesMetadata = plain [(''join_rule'', KString), (''allow'', KConditions)]"

definition RoomEncryptionMetadata :: meta_table where
  "RoomEncryptionMetadata = plain [(''algorithm'', KString), (''rotation_period_ms'', KU64), (''rotation_period_msgs'', KU64)]"

definition RoomPowerLevelsMetadata :: meta_table where
  "RoomPowerLevelsMetadata = plain [(''ban'', KPower), (''invite'', KPower), (''kick'', KPower), (''redact'', KPower),
     (''events_default'', KPower), (''state_default'', KPower), (''users_default'', KPower), (''users'', KPowerMap),
     (''events'', KPowerMap), (''notifications'', KNotifications)]"

definition RoomServerAclMetadata :: meta_table where
  "RoomServerAclMetadata = plain [(''allow_ip_literals'', KBool), (''allow'', KStrings), (''deny'', KStrings)]"

definition RoomHistoryVisibilityMetadata :: meta_table where
  "RoomHistoryVisibilityMetadata = plain [(''history_visibility'', KString)]"

definition RoomGuestAccessMetadata :: meta_table where
  "RoomGuestAccessMetadata = plain [(''guest_access'', KString)]"

definition metadata_tables :: "(rstr \<times> meta_table) list" where
  "metadata_tables = [(lit ''m.room.canonical_alias'', RoomAliasesMetadata), (lit ''m.room.create'', RoomCreationMetadata),
     (lit ''m.room.join_rules'', RoomJoinRulesMetadata), (lit ''m.room.encryption'', RoomEncryptionMetadata),
     (lit ''m.room.power_levels'', RoomPowerLevelsMetadata), (lit ''m.room.server_acl'', RoomServerAclMetadata),
     (lit ''m.room.history_visibility'', RoomHistoryVisibilityMetadata), (lit ''m.room.guest_access'', RoomGuestAccessMetadata)]"

type_synonym meta_content = "(rstr \<times> meta_value option) list"

definition de_content :: "(rstr \<Rightarrow> int) \<Rightarrow> meta_table \<Rightarrow> json_map \<Rightarrow> meta_content option" where
  "de_content tf table fields =
     those (map (\<lambda>(key, api, kind). map_option (Pair api) (de_option (de_kind tf kind) (map_of fields key))) table)"

definition repair_content :: "(rstr \<Rightarrow> int) \<Rightarrow> meta_table \<Rightarrow> json_map \<Rightarrow> repair_state" where
  "repair_content tf table fields = fold (\<lambda>(key, api, kind). repair_kind tf kind key) table (fields, [])"

section \<open>Snapshots\<close>

datatype metadata_status = MsUnknown | MsAvailable | MsPartial | MsUnavailable | MsInvalid | MsTooLarge

text \<open>The decoding of \<^verbatim>\<open>from_row\<close>: the status, the content and the malformed paths.\<close>

definition classify_content ::
  "(rstr \<Rightarrow> int) \<Rightarrow> meta_table \<Rightarrow> bool \<Rightarrow> json_value option \<Rightarrow> metadata_status \<times> meta_content option \<times> rstr list"
where
  "classify_content tf table oversized content =
     (if oversized then (MsTooLarge, None, [])
      else case content of
             None \<Rightarrow> (MsUnavailable, None, [])
           | Some JNull \<Rightarrow> (MsUnavailable, None, [])
           | Some (JObject fields) \<Rightarrow>
               (case de_content tf table fields of
                  Some c \<Rightarrow> (MsAvailable, Some c, [])
                | None \<Rightarrow>
                    (case repair_content tf table fields of (fields', invalid) \<Rightarrow>
                       case de_content tf table fields' of
                         Some c \<Rightarrow> (if invalid = [] then MsAvailable else MsPartial, Some c, invalid)
                       | None \<Rightarrow> (MsInvalid, None, invalid)))
           | Some _ \<Rightarrow> (MsInvalid, None, []))"


section \<open>What a read should show\<close>

text \<open>Of a value that is not null: the valid entries of a list or a map, and any other value as a whole or not at all.\<close>

fun field_spec :: "(rstr \<Rightarrow> int) \<Rightarrow> meta_kind \<Rightarrow> json_value \<Rightarrow> meta_value option" where
  "field_spec tf KStrings (JArray vs) = Some (MStrings (List.map_filter as_string vs))"
| "field_spec tf KConditions (JArray vs) = Some (MConditions (List.map_filter de_condition vs))"
| "field_spec tf KPowerMap (JObject kvs) = Some (MPowerMap (List.map_filter (power_entry tf) kvs))"
| "field_spec tf KNotifications (JObject kvs) = Some (MNotifications (Option.bind (map_of kvs ROOM) (power_level tf)))"
| "field_spec tf kind v = de_kind tf kind v"

fun field_path :: "meta_kind \<Rightarrow> rstr \<Rightarrow> json_value \<Rightarrow> rstr" where
  "field_path KStrings key (JArray vs) = key @ lit ''[]''"
| "field_path KConditions key (JArray vs) = key @ lit ''[]''"
| "field_path KPowerMap key (JObject kvs) = key @ lit ''.*''"
| "field_path KNotifications key (JObject kvs) = key @ lit ''.'' @ ROOM"
| "field_path kind key v = key"

definition shown :: "(rstr \<Rightarrow> int) \<Rightarrow> meta_kind \<Rightarrow> json_value option \<Rightarrow> meta_value option" where
  "shown tf kind ov = (case ov of None \<Rightarrow> None | Some v \<Rightarrow> if v = JNull then None else field_spec tf kind v)"

definition malformed :: "(rstr \<Rightarrow> int) \<Rightarrow> meta_kind \<Rightarrow> rstr \<Rightarrow> json_value option \<Rightarrow> rstr option" where
  "malformed tf kind key ov =
     (case ov of None \<Rightarrow> None | Some v \<Rightarrow> if v = JNull \<or> de_kind tf kind v \<noteq> None then None else Some (field_path kind key v))"

section \<open>The contract of a kind\<close>

lemma those_map_None: "those (map f xs) = None \<longleftrightarrow> (\<exists>x \<in> set xs. f x = None)"
  by (induction xs) (auto split: option.splits)

lemma those_map_Some: "those (map f xs) = Some ys \<longleftrightarrow> (\<forall>x \<in> set xs. f x \<noteq> None) \<and> ys = List.map_filter f xs"
  by (induction xs arbitrary: ys) (auto simp: map_filter_simps split: option.splits)

lemma map_filter_valid: "List.map_filter f (filter (\<lambda>x. f x \<noteq> None) xs) = List.map_filter f xs"
  by (induction xs) (auto simp: map_filter_simps split: option.splits)

lemma those_map_valid: "those (map f (filter (\<lambda>x. f x \<noteq> None) xs)) = Some (List.map_filter f xs)"
  unfolding those_map_Some map_filter_valid by simp

lemma map_filter_eq: "(\<And>x. x \<in> set xs \<Longrightarrow> f x = g x) \<Longrightarrow> List.map_filter f xs = List.map_filter g xs"
  by (induction xs) (auto simp: map_filter_simps split: option.split)

locale lenient_fields =
  fixes de :: "'k \<Rightarrow> json_value option \<Rightarrow> 'v option option"
    and repair :: "'k \<Rightarrow> rstr \<Rightarrow> repair_state \<Rightarrow> repair_state"
    and spec :: "'k \<Rightarrow> json_value option \<Rightarrow> 'v option"
    and bad :: "'k \<Rightarrow> rstr \<Rightarrow> json_value option \<Rightarrow> rstr option"
  assumes de_spec: "de k ov = Some x \<Longrightarrow> spec k ov = x"
    and bad_iff: "bad k key ov = None \<longleftrightarrow> de k ov \<noteq> None"
    and repair_here: "de k (map_of (fst (repair k key st)) key) = Some (spec k (map_of (fst st) key))"
    and repair_other: "key' \<noteq> key \<Longrightarrow> map_of (fst (repair k key st)) key' = map_of (fst st) key'"
    and repair_paths: "snd (repair k key st) = (case bad k key (map_of (fst st) key) of None \<Rightarrow> snd st | Some p \<Rightarrow> path_insert p (snd st))"
begin

definition de_table :: "(rstr \<times> rstr \<times> 'k) list \<Rightarrow> json_map \<Rightarrow> (rstr \<times> 'v option) list option" where
  "de_table table fields = those (map (\<lambda>(key, api, k). map_option (Pair api) (de k (map_of fields key))) table)"

definition repair_table :: "(rstr \<times> rstr \<times> 'k) list \<Rightarrow> repair_state \<Rightarrow> repair_state" where
  "repair_table table = fold (\<lambda>(key, api, k). repair k key) table"

definition spec_table :: "(rstr \<times> rstr \<times> 'k) list \<Rightarrow> json_map \<Rightarrow> (rstr \<times> 'v option) list" where
  "spec_table table fields = map (\<lambda>(key, api, k). (api, spec k (map_of fields key))) table"

definition bad_paths :: "(rstr \<times> rstr \<times> 'k) list \<Rightarrow> json_map \<Rightarrow> rstr list" where
  "bad_paths table fields = List.map_filter (\<lambda>(key, api, k). bad k key (map_of fields key)) table"

lemma de_table_Some: "de_table table fields = Some c \<Longrightarrow> c = spec_table table fields \<and> bad_paths table fields = []"
proof (induction table arbitrary: c)
  case (Cons t table)
  obtain key api k where t: "t = (key, api, k)" by (cases t)
  from Cons.prems obtain x c' where x: "de k (map_of fields key) = Some x" "de_table table fields = Some c'" "c = (api, x) # c'"
    by (auto simp: de_table_def t split: option.splits)
  moreover have "bad k key (map_of fields key) = None" using x(1) bad_iff by simp
  ultimately show ?case
    using Cons.IH [OF x(2)] de_spec [OF x(1)] by (simp add: spec_table_def bad_paths_def t map_filter_simps)
qed (simp add: de_table_def spec_table_def bad_paths_def map_filter_simps)

lemma de_table_None: "de_table table fields = None \<Longrightarrow> bad_paths table fields \<noteq> []"
proof (induction table)
  case (Cons t table)
  obtain key api k where t: "t = (key, api, k)" by (cases t)
  then show ?case
    using Cons bad_iff [of k key "map_of fields key"]
    by (auto simp: de_table_def bad_paths_def map_filter_simps split: option.splits)
qed (simp add: de_table_def)

lemma repair_table_other: "key \<notin> fst ` set table \<Longrightarrow> map_of (fst (repair_table table st)) key = map_of (fst st) key"
proof (induction table arbitrary: st)
  case (Cons t table)
  obtain key' api k where t: "t = (key', api, k)" by (cases t)
  have "map_of (fst (repair_table table (repair k key' st))) key = map_of (fst (repair k key' st)) key"
    using Cons by simp
  also have "\<dots> = map_of (fst st) key" using Cons.prems t by (intro repair_other) auto
  finally show ?case by (simp add: repair_table_def t)
qed (simp add: repair_table_def)

lemma repair_table_paths:
  "distinct (map fst table) \<Longrightarrow> snd (repair_table table st) = fold path_insert (bad_paths table (fst st)) (snd st)"
proof (induction table arbitrary: st)
  case (Cons t table)
  obtain key api k where t: "t = (key, api, k)" by (cases t)
  have keys: "key \<notin> fst ` set table" "distinct (map fst table)" using Cons.prems t by auto
  have "bad_paths table (fst (repair k key st)) = bad_paths table (fst st)"
    unfolding bad_paths_def by (rule map_filter_eq) (use keys(1) repair_other [of _ key k st] in \<open>force simp: image_iff\<close>)
  with Cons.IH [OF keys(2), of "repair k key st"] show ?case
    by (simp add: repair_table_def t bad_paths_def map_filter_simps repair_paths split: option.split)
qed (simp add: repair_table_def bad_paths_def map_filter_simps)

lemma repair_table_decodes:
  "distinct (map fst table) \<Longrightarrow> de_table table (fst (repair_table table st)) = Some (spec_table table (fst st))"
proof (induction table arbitrary: st)
  case (Cons t table)
  obtain key api k where t: "t = (key, api, k)" by (cases t)
  have keys: "key \<notin> fst ` set table" "distinct (map fst table)" using Cons.prems t by auto
  let ?st = "repair k key st"
  have "spec_table table (fst ?st) = spec_table table (fst st)"
    unfolding spec_table_def by (rule map_cong [OF refl]) (use keys(1) repair_other [of _ key k st] in \<open>force simp: image_iff\<close>)
  moreover have "de k (map_of (fst (repair_table table ?st)) key) = Some (spec k (map_of (fst st) key))"
    using repair_table_other [OF keys(1)] repair_here by simp
  ultimately show ?case
    using Cons.IH [OF keys(2), of ?st] by (simp add: repair_table_def de_table_def spec_table_def t)
qed (simp add: repair_table_def de_table_def spec_table_def)

end


section \<open>Every kind keeps the contract\<close>

lemma de_option_simps [simp]:
  "de_option d None = Some None" "de_option d (Some JNull) = Some None"
  "v \<noteq> JNull \<Longrightarrow> de_option d (Some v) = map_option Some (d v)"
  by (simp_all add: de_option_def)

lemma de_kind_null: "de_kind tf kind JNull = None"
  by (cases kind) (simp_all add: de_predecessor_def de_vec_def power_level_def de_power_map_def)

lemma power_level_null [simp]: "power_level tf JNull = None"
  by (simp add: power_level_def)

lemma de_option_power: "de_option (power_level tf) ov = Some x \<Longrightarrow> x = Option.bind ov (power_level tf)"
  by (auto simp: de_option_def split: option.splits if_splits)

lemma field_spec_de: "de_kind tf kind v = Some x \<Longrightarrow> field_spec tf kind v = Some x"
  by (cases kind; cases v) (auto simp: de_vec_def those_map_Some de_power_map_def dest: de_option_power)

text \<open>A plain field, of any decoder.\<close>

lemma repair_field_here:
  "de_option d (map_of (fst (repair_field d key st)) key) =
     Some (case map_of (fst st) key of None \<Rightarrow> None | Some v \<Rightarrow> if v = JNull then None else d v)"
  by (auto simp: repair_field_def de_option_def split: option.splits)

lemma repair_field_other: "key' \<noteq> key \<Longrightarrow> map_of (fst (repair_field d key st)) key' = map_of (fst st) key'"
  by (auto simp: repair_field_def split: option.splits)

lemma repair_field_paths:
  "snd (repair_field d key st) =
     (case map_of (fst st) key of None \<Rightarrow> snd st
      | Some v \<Rightarrow> if v = JNull \<or> d v \<noteq> None then snd st else path_insert key (snd st))"
  by (auto simp: repair_field_def split: option.splits)

lemma repair_power_field_eq: "repair_power_field tf key st = repair_field (power_level tf) key st"
  by (simp add: repair_power_field_def repair_field_def is_valid_power_level_def cong: option.case_cong)

lemma repair_kind_other: "key' \<noteq> key \<Longrightarrow> map_of (fst (repair_kind tf kind key st)) key' = map_of (fst st) key'"
  by (cases kind) (auto simp: repair_field_other repair_list_def repair_power_map_def repair_power_field_eq repair_notifications_def
      split: option.splits json_value.splits prod.splits)


lemma de_option_map: "de_option (\<lambda>v. map_option c (d v)) ov = map_option (map_option c) (de_option d ov)"
  by (auto simp: de_option_def option.map_comp o_def split: option.split)

lemma de_vec_other: "(\<And>vs. v \<noteq> JArray vs) \<Longrightarrow> de_vec d v = None"
  by (cases v) (auto simp: de_vec_def)

lemma de_power_map_other: "(\<And>kvs. v \<noteq> JObject kvs) \<Longrightarrow> de_power_map tf v = None"
  by (cases v) (auto simp: de_power_map_def)

lemma repair_list_here:
  "de_option (de_vec d) (map_of (fst (repair_list d key st)) key) =
     Some (case map_of (fst st) key of Some (JArray vs) \<Rightarrow> Some (List.map_filter d vs) | _ \<Rightarrow> None)"
proof (cases "\<exists>vs. map_of (fst st) key = Some (JArray vs)")
  case True
  then show ?thesis by (auto simp: repair_list_def de_vec_def those_map_valid simp del: not_None_eq)
next
  case False
  then have "repair_list d key st = repair_field (de_vec d) key st"
    by (auto simp: repair_list_def split: option.splits json_value.splits)
  then show ?thesis using False de_vec_other repair_field_here [of "de_vec d" key st]
    by (auto split: option.splits json_value.splits)
qed

lemma repair_list_paths:
  "snd (repair_list d key st) =
     (case map_of (fst st) key of None \<Rightarrow> snd st
      | Some v \<Rightarrow> if v = JNull \<or> de_vec d v \<noteq> None then snd st
                   else path_insert (case v of JArray _ \<Rightarrow> key @ lit ''[]'' | _ \<Rightarrow> key) (snd st))"
proof (cases "\<exists>vs. map_of (fst st) key = Some (JArray vs)")
  case True
  then show ?thesis by (auto simp: repair_list_def de_vec_def those_map_None list_all_iff simp del: not_None_eq)
next
  case False
  then have "repair_list d key st = repair_field (de_vec d) key st"
    by (auto simp: repair_list_def split: option.splits json_value.splits)
  then show ?thesis using False by (auto simp: repair_field_paths split: option.splits json_value.splits)
qed

lemma power_entry_None: "power_entry tf e \<noteq> None \<longleftrightarrow> is_valid_power_level tf (snd e)"
  by (simp add: power_entry_def is_valid_power_level_def)

lemma repair_power_map_here:
  "de_option (de_power_map tf) (map_of (fst (repair_power_map tf key st)) key) =
     Some (case map_of (fst st) key of Some (JObject kvs) \<Rightarrow> Some (List.map_filter (power_entry tf) kvs) | _ \<Rightarrow> None)"
proof (cases "\<exists>kvs. map_of (fst st) key = Some (JObject kvs)")
  case True
  then show ?thesis
    by (auto simp: repair_power_map_def de_power_map_def power_entry_None [symmetric] those_map_valid simp del: not_None_eq)
next
  case False
  then have "repair_power_map tf key st = repair_field (de_power_map tf) key st"
    by (auto simp: repair_power_map_def split: option.splits json_value.splits)
  then show ?thesis using False de_power_map_other repair_field_here [of "de_power_map tf" key st]
    by (auto split: option.splits json_value.splits)
qed

lemma repair_power_map_paths:
  "snd (repair_power_map tf key st) =
     (case map_of (fst st) key of None \<Rightarrow> snd st
      | Some v \<Rightarrow> if v = JNull \<or> de_power_map tf v \<noteq> None then snd st
                   else path_insert (case v of JObject _ \<Rightarrow> key @ lit ''.*'' | _ \<Rightarrow> key) (snd st))"
proof (cases "\<exists>kvs. map_of (fst st) key = Some (JObject kvs)")
  case True
  then show ?thesis
    by (auto simp: repair_power_map_def de_power_map_def those_map_None list_all_iff power_entry_None [symmetric] simp del: not_None_eq)
next
  case False
  then have "repair_power_map tf key st = repair_field (de_power_map tf) key st"
    by (auto simp: repair_power_map_def split: option.splits json_value.splits)
  then show ?thesis using False by (auto simp: repair_field_paths split: option.splits json_value.splits)
qed


lemma repair_notifications_here:
  "de_option (de_notifications tf) (map_of (fst (repair_notifications tf key st)) key) =
     Some (case map_of (fst st) key of None \<Rightarrow> None
           | Some v \<Rightarrow> if v = JNull then None
                        else case v of JObject kvs \<Rightarrow> Some (Option.bind (map_of kvs ROOM) (power_level tf)) | _ \<Rightarrow> de_notifications tf v)"
proof (cases "\<exists>kvs. map_of (fst st) key = Some (JObject kvs)")
  case True
  then obtain kvs where kvs: "map_of (fst st) key = Some (JObject kvs)" by blast
  have "de_option (power_level tf) (map_of (fst (repair_power_field tf ROOM (kvs, []))) ROOM) = Some (Option.bind (map_of kvs ROOM) (power_level tf))"
    unfolding repair_power_field_eq repair_field_here by (auto split: option.split)
  then show ?thesis using kvs by (simp add: repair_notifications_def split_beta)
next
  case False
  then have "repair_notifications tf key st = repair_field (de_notifications tf) key st"
    by (auto simp: repair_notifications_def split: option.splits json_value.splits)
  then show ?thesis using False repair_field_here [of "de_notifications tf" key st]
    by (auto split: option.splits json_value.splits)
qed

lemma repair_notifications_paths:
  "snd (repair_notifications tf key st) =
     (case map_of (fst st) key of None \<Rightarrow> snd st
      | Some v \<Rightarrow> if v = JNull \<or> de_notifications tf v \<noteq> None then snd st
                   else path_insert (case v of JObject _ \<Rightarrow> key @ lit ''.'' @ ROOM | _ \<Rightarrow> key) (snd st))"
proof (cases "\<exists>kvs. map_of (fst st) key = Some (JObject kvs)")
  case True
  then obtain kvs where kvs: "map_of (fst st) key = Some (JObject kvs)" by blast
  have "snd (repair_power_field tf ROOM (kvs, [])) = (if de_option (power_level tf) (map_of kvs ROOM) \<noteq> None then [] else [ROOM])"
    unfolding repair_power_field_eq repair_field_paths by (auto simp: path_insert_def de_option_def split: option.splits)
  then show ?thesis using kvs by (simp add: repair_notifications_def split_beta)
next
  case False
  then have "repair_notifications tf key st = repair_field (de_notifications tf) key st"
    by (auto simp: repair_notifications_def split: option.splits json_value.splits)
  then show ?thesis using False by (auto simp: repair_field_paths split: option.splits json_value.splits)
qed

lemma de_kind_fun:
  "de_kind tf KString = (\<lambda>v. map_option MString (as_string v))" "de_kind tf KBool = (\<lambda>v. map_option MBool (as_bool v))"
  "de_kind tf KU64 = (\<lambda>v. map_option MU64 (as_u64 v))"
  "de_kind tf KPredecessor = (\<lambda>v. map_option (\<lambda>(r, e). MPredecessor r e) (de_predecessor v))"
  "de_kind tf KStrings = (\<lambda>v. map_option MStrings (de_vec as_string v))"
  "de_kind tf KConditions = (\<lambda>v. map_option MConditions (de_vec de_condition v))"
  "de_kind tf KPower = (\<lambda>v. map_option MPower (power_level tf v))"
  "de_kind tf KPowerMap = (\<lambda>v. map_option MPowerMap (de_power_map tf v))"
  "de_kind tf KNotifications = (\<lambda>v. map_option MNotifications (de_notifications tf v))"
  by (simp_all add: fun_eq_iff)

lemma repair_kind_here:
  "de_option (de_kind tf kind) (map_of (fst (repair_kind tf kind key st)) key) = Some (shown tf kind (map_of (fst st) key))"
  by (cases kind)
    (auto simp: de_kind_fun de_option_map repair_field_here repair_list_here repair_power_map_here repair_power_field_eq repair_notifications_here shown_def
      de_vec_other de_power_map_other split: option.split json_value.split)

lemma repair_kind_paths:
  "snd (repair_kind tf kind key st) =
     (case malformed tf kind key (map_of (fst st) key) of None \<Rightarrow> snd st | Some p \<Rightarrow> path_insert p (snd st))"
  by (cases kind)
    (auto simp: repair_field_paths repair_list_paths repair_power_map_paths repair_power_field_eq repair_notifications_paths malformed_def
      split: option.split json_value.split)

interpretation metadata: lenient_fields "\<lambda>kind. de_option (de_kind tf kind)" "repair_kind tf" "shown tf" "malformed tf" for tf
proof unfold_locales
  show "shown tf k ov = x" if "de_option (de_kind tf k) ov = Some x" for k ov x
    using that by (auto simp: de_option_def shown_def field_spec_de split: option.splits if_splits)
  show "malformed tf k key ov = None \<longleftrightarrow> de_option (de_kind tf k) ov \<noteq> None" for k key ov
    by (auto simp: malformed_def de_option_def split: option.split)
qed (simp_all add: repair_kind_here repair_kind_other repair_kind_paths)


section \<open>Snapshots of a room\<close>

lemma path_insert_sorted: "sorted ps \<Longrightarrow> distinct ps \<Longrightarrow> sorted (path_insert p ps) \<and> distinct (path_insert p ps)"
  by (simp add: path_insert_def sorted_insort distinct_insort)

lemma fold_path_insert:
  "sorted ps \<Longrightarrow> distinct ps \<Longrightarrow>
     sorted (fold path_insert qs ps) \<and> distinct (fold path_insert qs ps) \<and> set (fold path_insert qs ps) = set qs \<union> set ps"
proof (induction qs arbitrary: ps)
  case (Cons q qs)
  have "set (path_insert q ps) = insert q (set ps)" by (auto simp: path_insert_def set_insort_key)
  with Cons.IH [of "path_insert q ps"] path_insert_sorted [OF Cons.prems] show ?case by auto
qed simp

definition malformed_paths :: "(rstr \<Rightarrow> int) \<Rightarrow> meta_table \<Rightarrow> json_map \<Rightarrow> rstr list" where
  "malformed_paths tf table fields = List.map_filter (\<lambda>(key, api, kind). malformed tf kind key (map_of fields key)) table"

lemma metadata_keys: "table \<in> snd ` set metadata_tables \<Longrightarrow> distinct (map fst table)"
  by (auto simp: metadata_tables_def RoomAliasesMetadata_def RoomCreationMetadata_def RoomJoinRulesMetadata_def RoomEncryptionMetadata_def
      RoomPowerLevelsMetadata_def RoomServerAclMetadata_def RoomHistoryVisibilityMetadata_def RoomGuestAccessMetadata_def plain_def lit_def)

lemma classify_object:
  assumes "distinct (map fst table)"
  shows "\<exists>invalid. classify_content tf table False (Some (JObject fields)) =
     (if invalid = [] then MsAvailable else MsPartial,
      Some (map (\<lambda>(key, api, kind). (api, shown tf kind (map_of fields key))) table), invalid) \<and>
     sorted invalid \<and> distinct invalid \<and> set invalid = set (malformed_paths tf table fields)"
proof (cases "de_content tf table fields")
  case (Some c)
  then have "metadata.de_table tf table fields = Some c" by (simp add: de_content_def metadata.de_table_def)
  from metadata.de_table_Some [OF this] Some show ?thesis
    by (simp add: classify_content_def metadata.spec_table_def metadata.bad_paths_def malformed_paths_def)
next
  case None
  let ?r = "repair_content tf table fields"
  have r: "?r = metadata.repair_table tf table (fields, [])"
    by (simp add: repair_content_def metadata.repair_table_def)
  have content: "de_content tf table (fst ?r) = Some (map (\<lambda>(key, api, kind). (api, shown tf kind (map_of fields key))) table)"
    using metadata.repair_table_decodes [OF assms, of tf "(fields, [])"]
    by (simp add: r de_content_def metadata.de_table_def metadata.spec_table_def)
  have paths: "snd ?r = fold path_insert (malformed_paths tf table fields) []"
    using metadata.repair_table_paths [OF assms, of tf "(fields, [])"] by (simp add: r metadata.bad_paths_def malformed_paths_def)
  have "classify_content tf table False (Some (JObject fields)) =
     (if snd ?r = [] then MsAvailable else MsPartial,
      Some (map (\<lambda>(key, api, kind). (api, shown tf kind (map_of fields key))) table), snd ?r)"
    using None content by (simp add: classify_content_def split_beta)
  then show ?thesis using fold_path_insert [of "[]" "malformed_paths tf table fields"] paths by auto
qed


text \<open>C30: whatever object a state event of one of the eight types has as its content, a read shows it: field by field
  the value where it is well-formed, the well-formed entries of a list or a map, and nothing elsewhere; the malformed
  paths are listed in order, each once; and the status is available when there is none, and partial otherwise. A
  single malformed field never hides the others, and a well-formed content is shown whole.\<close>

theorem metadata_fields_kept:
  assumes "table \<in> snd ` set metadata_tables"
  shows "\<exists>invalid. classify_content tf table False (Some (JObject fields)) =
     (if invalid = [] then MsAvailable else MsPartial,
      Some (map (\<lambda>(key, api, kind). (api, shown tf kind (map_of fields key))) table), invalid) \<and>
     sorted invalid \<and> distinct invalid \<and> set invalid = set (malformed_paths tf table fields)"
  by (rule classify_object [OF metadata_keys [OF assms]])

definition demo_alias_content :: json_map where
  "demo_alias_content = [(lit ''alias'', JNumber 1), (lit ''alt_aliases'', JArray [JString [97], JNull])]"

lemma demo_alias_facts:
  "map (\<lambda>(key, api, kind). (api, shown (\<lambda>_. 0) kind (map_of demo_alias_content key))) RoomAliasesMetadata =
     [(lit ''alias'', None), (lit ''alt_aliases'', Some (MStrings [[97]]))]"
  "malformed_paths (\<lambda>_. 0) RoomAliasesMetadata demo_alias_content = [lit ''alias'', lit ''alt_aliases'' @ lit ''[]'']"
  by (simp_all add: RoomAliasesMetadata_def plain_def demo_alias_content_def shown_def malformed_paths_def malformed_def map_filter_simps de_vec_def lit_def)

theorem metadata_fields_kept_witness:
  "\<exists>invalid. classify_content (\<lambda>_. 0) RoomAliasesMetadata False (Some (JObject demo_alias_content)) =
     (if invalid = [] then MsAvailable else MsPartial, Some [(lit ''alias'', None), (lit ''alt_aliases'', Some (MStrings [[97]]))], invalid) \<and>
     set invalid = set [lit ''alias'', lit ''alt_aliases'' @ lit ''[]'']"
proof -
  have "RoomAliasesMetadata \<in> snd ` set metadata_tables" by (simp add: metadata_tables_def)
  from metadata_fields_kept [OF this, of "\<lambda>_. 0" demo_alias_content, unfolded demo_alias_facts] show ?thesis by blast
qed

end
