(* ===== verification/Detail_Store.thy ===== *)
theory Detail_Store
  imports Json_Value
begin

text \<open>
  The cache of room details acquired from a homeserver:
  \<^verbatim>\<open>crates/axon-store/src/room_detail_acquisition.rs\<close>, with the table, the triggers and the epoch
  sequence of its migration (\<^verbatim>\<open>20261103120000_room_detail_acquisitions.sql\<close>), and the job and state
  type lists of \<^verbatim>\<open>crates/axon-core/src/room_details.rs\<close>.

  \<^item> A \<open>detail_db\<close> is what one account's rows of the tables hold; each operation is one committed
    transaction, and \<open>now\<close> is the PostgreSQL clock in Unix milliseconds.
  \<^item> \<^verbatim>\<open>i64\<close> and \<^verbatim>\<open>i32\<close> are integers, with saturation written out.
  \<^item> \<open>db_epochs\<close> records the epoch each cache row was written in; no operation reads it.
\<close>

section \<open>Types and lists\<close>

definition METADATA_STATE_TYPES :: "rstr list" where
  "METADATA_STATE_TYPES = map lit [''m.room.canonical_alias'', ''m.room.create'', ''m.room.join_rules'',
     ''m.room.encryption'', ''m.room.power_levels'', ''m.room.server_acl'', ''m.room.history_visibility'',
     ''m.room.guest_access'']"

definition is_metadata_state :: "rstr \<Rightarrow> rstr \<Rightarrow> bool" where
  "is_metadata_state event_type state_key \<longleftrightarrow> state_key = [] \<and> event_type \<in> set METADATA_STATE_TYPES"

definition ABSENCE_ORDER :: "rstr list" where
  "ABSENCE_ORDER = map lit [''m.room.encryption'', ''m.room.server_acl'', ''m.room.join_rules'',
     ''m.room.history_visibility'', ''m.room.guest_access'', ''m.room.power_levels'', ''m.room.canonical_alias'',
     ''m.room.create'']"

datatype detail_kind = LocalAliases | DirectoryVisibility | Absence

definition kind_str :: "detail_kind \<Rightarrow> rstr" where
  "kind_str kind = lit (case kind of LocalAliases \<Rightarrow> ''local_aliases'' | DirectoryVisibility \<Rightarrow> ''directory_visibility''
     | Absence \<Rightarrow> ''absence'')"

definition sat_i64 :: "int \<Rightarrow> int" where
  "sat_i64 i = max (- (2 ^ 63)) (min (2 ^ 63 - 1) i)"

definition sat_i32 :: "int \<Rightarrow> int" where
  "sat_i32 i = max (- (2 ^ 31)) (min (2 ^ 31 - 1) i)"

datatype detail_outcome =
    Answer (answer_status: rstr) (answer_value: "json_value option") (answer_ttl: int)
  | Present int
  | Failure (failure_category: rstr) (failure_retry: "int option") (failure_min: int) (failure_max: int)

datatype detail_write = Changed | Unchanged | Fenced

text \<open>The columns of \<^verbatim>\<open>room_detail_acquisitions\<close> beside its key; \<^verbatim>\<open>Previous\<close> and \<^verbatim>\<open>Next\<close> are parts of it.\<close>

record acq_row =
  ar_status :: "rstr option"
  ar_value :: "json_value option"
  ar_fetched :: "int option"
  ar_expires :: "int option"
  ar_failure :: "rstr option"
  ar_failures :: int
  ar_next :: "int option"

text \<open>\<^verbatim>\<open>min\<close> doubled per consecutive failure after the first, capped at \<^verbatim>\<open>max\<close>.\<close>

definition backoff_ms :: "int \<Rightarrow> int \<Rightarrow> int \<Rightarrow> int" where
  "backoff_ms failures mn mx =
     (let doublings = nat (max 0 (min 30 (sat_i32 (failures - 1))))
      in min (sat_i64 (mn * 2 ^ doublings)) mx)"

fun next_from :: "acq_row option \<Rightarrow> detail_outcome \<Rightarrow> int \<Rightarrow> acq_row" where
  "next_from previous (Answer status v ttl) now =
     \<lparr>ar_status = Some status, ar_value = v, ar_fetched = Some now, ar_expires = Some (sat_i64 (now + ttl)),
      ar_failure = None, ar_failures = 0, ar_next = None\<rparr>"
| "next_from previous (Present retry_in) now =
     \<lparr>ar_status = None, ar_value = None, ar_fetched = None, ar_expires = None, ar_failure = None, ar_failures = 0,
      ar_next = Some (sat_i64 (now + retry_in))\<rparr>"
| "next_from previous (Failure category retry_after mn mx) now =
     (let failures = sat_i32 ((case previous of None \<Rightarrow> 0 | Some old \<Rightarrow> ar_failures old) + 1)
      in \<lparr>ar_status = Option.bind previous ar_status, ar_value = Option.bind previous ar_value,
          ar_fetched = Option.bind previous ar_fetched, ar_expires = Option.bind previous ar_expires,
          ar_failure = Some category, ar_failures = failures,
          ar_next = Some (sat_i64 (now + max (backoff_ms failures mn mx) (case retry_after of None \<Rightarrow> 0 | Some r \<Rightarrow> r)))\<rparr>)"

section \<open>The tables\<close>

record room_summary =
  rs_epoch :: int
  rs_hidden_left :: bool

record state_tuple =
  st_event :: rstr
  st_sender :: rstr
  st_origin_ts :: int
  st_content :: "json_value option"
  st_redacted :: "bool option"
  st_redaction :: "rstr option"

type_synonym acq_key = "rstr \<times> rstr \<times> rstr"

record detail_db =
  db_active :: bool
  db_user :: rstr
  db_summaries :: "rstr \<rightharpoonup> room_summary"
  db_state :: "rstr \<times> rstr \<times> rstr \<rightharpoonup> state_tuple"
  db_gone :: "rstr set"
  db_rows :: "acq_key \<rightharpoonup> acq_row"
  db_seq :: int
  db_epochs :: "acq_key \<rightharpoonup> int"

definition member_joined :: "detail_db \<Rightarrow> rstr \<Rightarrow> bool" where
  "member_joined db room =
     (case db_state db (room, lit ''m.room.member'', db_user db) of
        None \<Rightarrow> False
      | Some m \<Rightarrow> Option.bind (st_content m) (\<lambda>c. jget c (lit ''membership'')) = Some (JString (lit ''join'')) \<and> st_redacted m \<noteq> Some True)"

definition joined_epoch :: "detail_db \<Rightarrow> rstr \<Rightarrow> int option" where
  "joined_epoch db room =
     (case db_summaries db room of
        None \<Rightarrow> None
      | Some s \<Rightarrow>
          if \<not> rs_hidden_left s \<and> db_active db \<and> member_joined db room \<and> room \<notin> db_gone db
          then Some (rs_epoch s) else None)"

definition row_due :: "int \<Rightarrow> acq_row \<Rightarrow> bool" where
  "row_due now row \<longleftrightarrow>
     (case ar_expires row of None \<Rightarrow> True | Some t \<Rightarrow> t \<le> now) \<and> (case ar_next row of None \<Rightarrow> True | Some t \<Rightarrow> t \<le> now)"

definition due_absence_types :: "detail_db \<Rightarrow> int \<Rightarrow> rstr \<Rightarrow> rstr list \<Rightarrow> rstr list" where
  "due_absence_types db now room types =
     filter (\<lambda>t. db_state db (room, t, []) = None \<and>
       \<not> (case db_rows db (room, kind_str Absence, t) of
            None \<Rightarrow> False
          | Some row \<Rightarrow> (case ar_expires row of None \<Rightarrow> False | Some e \<Rightarrow> now < e) \<or>
                        (case ar_next row of None \<Rightarrow> False | Some e \<Rightarrow> now < e))) types"

text \<open>What a read sees of one row. The table's checks leave ten keys for a room, and \<open>detail_keys\<close> is
  them in the order of kind and state type.\<close>

definition detail_keys :: "(rstr \<times> rstr) list" where
  "detail_keys = map (\<lambda>t. (kind_str Absence, lit t)) [''m.room.canonical_alias'', ''m.room.create'', ''m.room.encryption'',
       ''m.room.guest_access'', ''m.room.history_visibility'', ''m.room.join_rules'', ''m.room.power_levels'', ''m.room.server_acl'']
     @ [(kind_str DirectoryVisibility, []), (kind_str LocalAliases, [])]"

record detail_row =
  dr_kind :: rstr
  dr_type :: rstr
  dr_row :: acq_row
  dr_due :: bool

definition room_detail_snapshot :: "detail_db \<Rightarrow> int \<Rightarrow> rstr \<Rightarrow> detail_kind list \<Rightarrow> bool \<times> detail_row list" where
  "room_detail_snapshot db now room kinds =
     (joined_epoch db room \<noteq> None,
      concat (map (\<lambda>(kind, t).
        case db_rows db (room, kind, t) of
          Some row \<Rightarrow> (if kind \<in> set (map kind_str kinds)
                      then [\<lparr>dr_kind = kind, dr_type = t, dr_row = row, dr_due = row_due now row\<rparr>] else [])
        | None \<Rightarrow> []) detail_keys))"

section \<open>Recording\<close>

definition confirms_absence :: "detail_outcome \<Rightarrow> bool" where
  "confirms_absence outcome = (case outcome of Answer status _ _ \<Rightarrow> status = lit ''absent'' | _ \<Rightarrow> False)"

definition row_changed :: "int \<Rightarrow> acq_row option \<Rightarrow> acq_row \<Rightarrow> bool" where
  "row_changed now previous nxt =
     (case previous of
        None \<Rightarrow> True
      | Some old \<Rightarrow>
          ar_status old \<noteq> ar_status nxt \<or> ar_value old \<noteq> ar_value nxt \<or> ar_failure old \<noteq> ar_failure nxt \<or>
          (case ar_expires nxt of None \<Rightarrow> False | Some t \<Rightarrow> now < t) \<and>
          (case ar_expires old of None \<Rightarrow> True | Some t \<Rightarrow> t \<le> now))"

definition record_room_detail ::
  "int \<Rightarrow> rstr \<Rightarrow> int \<Rightarrow> detail_kind \<Rightarrow> rstr \<Rightarrow> detail_outcome \<Rightarrow> detail_db \<Rightarrow> detail_write \<times> detail_db"
where
  "record_room_detail now room epoch kind state_type outcome db =
     (if joined_epoch db room \<noteq> Some epoch then (Fenced, db)
      else if confirms_absence outcome \<and> db_state db (room, state_type, []) \<noteq> None then (Fenced, db)
      else
        let key = (room, kind_str kind, state_type);
            previous = db_rows db key;
            nxt = next_from previous outcome now
        in (if row_changed now previous nxt then Changed else Unchanged,
            db\<lparr>db_rows := (db_rows db)(key \<mapsto> nxt), db_epochs := (db_epochs db)(key \<mapsto> epoch)\<rparr>))"

section \<open>Membership epochs and triggers\<close>

definition forget_room :: "rstr \<Rightarrow> detail_db \<Rightarrow> detail_db" where
  "forget_room room db =
     db\<lparr>db_rows := (\<lambda>k. if fst k = room then None else db_rows db k),
        db_epochs := (\<lambda>k. if fst k = room then None else db_epochs db k)\<rparr>"

text \<open>The own \<^verbatim>\<open>m.room.member\<close> event changed: a new epoch, and with it the trigger that deletes the
  room's rows. A room without a summary has nothing to update.\<close>

definition advance_epoch :: "rstr \<Rightarrow> detail_db \<Rightarrow> detail_db" where
  "advance_epoch room db =
     (case db_summaries db room of
        None \<Rightarrow> db
      | Some s \<Rightarrow> forget_room room
          (db\<lparr>db_summaries := (db_summaries db)(room \<mapsto> s\<lparr>rs_epoch := db_seq db\<rparr>), db_seq := db_seq db + 1\<rparr>))"

text \<open>An update of \<^verbatim>\<open>hidden_left\<close>: the trigger starts a new epoch when the value changes.\<close>

definition set_hidden_left :: "rstr \<Rightarrow> bool \<Rightarrow> detail_db \<Rightarrow> detail_db" where
  "set_hidden_left room hidden db =
     (case db_summaries db room of
        None \<Rightarrow> db
      | Some s \<Rightarrow>
          if rs_hidden_left s = hidden then db
          else forget_room room
            (db\<lparr>db_summaries := (db_summaries db)(room \<mapsto> \<lparr>rs_epoch = db_seq db, rs_hidden_left = hidden\<rparr>),
                db_seq := db_seq db + 1\<rparr>))"

text \<open>A purge deletes the summary, and its foreign key the rows; a rebuild inserts it with the default
  epoch.\<close>

definition delete_summary :: "rstr \<Rightarrow> detail_db \<Rightarrow> detail_db" where
  "delete_summary room db = forget_room room (db\<lparr>db_summaries := (db_summaries db)(room := None)\<rparr>)"

definition insert_summary :: "rstr \<Rightarrow> bool \<Rightarrow> detail_db \<Rightarrow> detail_db" where
  "insert_summary room hidden db =
     (case db_summaries db room of
        Some _ \<Rightarrow> db
      | None \<Rightarrow> db\<lparr>db_summaries := (db_summaries db)(room \<mapsto> \<lparr>rs_epoch = db_seq db, rs_hidden_left = hidden\<rparr>),
                   db_seq := db_seq db + 1\<rparr>)"

text \<open>The upsert of a \<^verbatim>\<open>room_state\<close> tuple (\<^verbatim>\<open>state.rs\<close>): an older event is refused, and redaction
  evidence stays with its event. The tuple is the one given, its redaction columns from the
  evidence.\<close>

datatype state_redaction = RedactionUnknown | Redacted "rstr option"

fun redaction_columns :: "state_redaction \<Rightarrow> bool option \<times> rstr option" where
  "redaction_columns RedactionUnknown = (None, None)"
| "redaction_columns (Redacted event) = (Some True, event)"

definition coalesce_opt :: "'a option \<Rightarrow> 'a option \<Rightarrow> 'a option" where
  "coalesce_opt a b = (case a of Some x \<Rightarrow> Some x | None \<Rightarrow> b)"

definition upsert_tuple :: "state_tuple option \<Rightarrow> state_tuple \<Rightarrow> state_tuple option" where
  "upsert_tuple prior excluded =
     (case prior of
        None \<Rightarrow> Some excluded
      | Some p \<Rightarrow>
          if st_origin_ts excluded < st_origin_ts p then None
          else let same = (st_event p = st_event excluded)
               in Some (excluded\<lparr>
                 st_content := (if same \<and> st_redacted p = Some True \<and> st_redacted excluded \<noteq> Some True
                                then st_content p else st_content excluded),
                 st_redacted := (if same then (if st_redacted p = Some True then Some True
                                               else coalesce_opt (st_redacted excluded) (st_redacted p))
                                 else st_redacted excluded),
                 st_redaction := (if same then coalesce_opt (st_redaction p) (st_redaction excluded)
                                  else st_redaction excluded)\<rparr>))"

text \<open>The write and its trigger: an inserted metadata tuple deletes the confirmation of its absence.\<close>

definition write_tuple :: "rstr \<Rightarrow> rstr \<Rightarrow> rstr \<Rightarrow> state_tuple \<Rightarrow> detail_db \<Rightarrow> detail_db" where
  "write_tuple room event_type state_key tuple db =
     (let db' = db\<lparr>db_state := (db_state db)((room, event_type, state_key) \<mapsto> tuple)\<rparr>;
          key = (room, kind_str Absence, event_type)
      in if db_state db (room, event_type, state_key) = None \<and> is_metadata_state event_type state_key
         then db'\<lparr>db_rows := (db_rows db)(key := None), db_epochs := (db_epochs db)(key := None)\<rparr>
         else db')"

record state_upsert =
  su_room :: rstr
  su_type :: rstr
  su_key :: rstr
  su_event :: rstr
  su_sender :: rstr
  su_origin_ts :: int
  su_content :: "json_value option"

text \<open>\<^verbatim>\<open>upsert_room_state_with_redaction_and_purge\<close>, as far as it concerns these tables: whether the
  tuple changed, and a new epoch with every changed own member event.\<close>

definition upsert_room_state :: "state_upsert \<Rightarrow> rstr option \<Rightarrow> state_redaction \<Rightarrow> detail_db \<Rightarrow> bool \<times> detail_db" where
  "upsert_room_state s local_user evidence db =
     (let (redacted, redaction) = redaction_columns evidence;
          prior = db_state db (su_room s, su_type s, su_key s);
          own_membership = (su_type s = lit ''m.room.member'' \<and> local_user = Some (su_key s))
      in case upsert_tuple prior \<lparr>st_event = su_event s, st_sender = su_sender s, st_origin_ts = su_origin_ts s,
                st_content = su_content s, st_redacted = redacted, st_redaction = redaction\<rparr> of
           None \<Rightarrow> (False, db)
         | Some tuple \<Rightarrow>
             let changed = (prior \<noteq> Some tuple);
                 db' = write_tuple (su_room s) (su_type s) (su_key s) tuple db
             in (changed, if own_membership \<and> changed then advance_epoch (su_room s) db' else db'))"

section \<open>Runs\<close>

datatype db_op =
    OpUpsert state_upsert "rstr option" state_redaction
  | OpDeleteTuple rstr rstr rstr
  | OpHidden rstr bool
  | OpDelete rstr
  | OpInsert rstr bool
  | OpAccount bool
  | OpGone rstr bool
  | OpRecord int rstr int detail_kind rstr detail_outcome

fun db_apply :: "db_op \<Rightarrow> detail_db \<Rightarrow> detail_db" where
  "db_apply (OpUpsert s local_user evidence) db = snd (upsert_room_state s local_user evidence db)"
| "db_apply (OpDeleteTuple room event_type state_key) db =
     db\<lparr>db_state := (db_state db)((room, event_type, state_key) := None)\<rparr>"
| "db_apply (OpHidden room hidden) db = set_hidden_left room hidden db"
| "db_apply (OpDelete room) db = delete_summary room db"
| "db_apply (OpInsert room hidden) db = insert_summary room hidden db"
| "db_apply (OpAccount active) db = db\<lparr>db_active := active\<rparr>"
| "db_apply (OpGone room gone) db = db\<lparr>db_gone := (if gone then insert room (db_gone db) else db_gone db - {room})\<rparr>"
| "db_apply (OpRecord now room epoch kind t outcome) db = snd (record_room_detail now room epoch kind t outcome db)"

definition db_run :: "db_op list \<Rightarrow> detail_db \<Rightarrow> detail_db" where
  "db_run ops db = fold db_apply ops db"

lemma db_run_simps [simp]: "db_run [] db = db" "db_run (op # ops) db = db_run ops (db_apply op db)"
  by (simp_all add: db_run_def)

text \<open>A membership transition of a room: a changed own member event, a leave or rejoin that flips
  \<^verbatim>\<open>hidden_left\<close>, or a purge of the room.\<close>

fun departs :: "rstr \<Rightarrow> db_op \<Rightarrow> detail_db \<Rightarrow> bool" where
  "departs room (OpUpsert s local_user evidence) db \<longleftrightarrow>
     su_room s = room \<and> su_type s = lit ''m.room.member'' \<and> local_user = Some (su_key s) \<and>
     fst (upsert_room_state s local_user evidence db)"
| "departs room (OpHidden r hidden) db \<longleftrightarrow> r = room \<and> (\<exists>s. db_summaries db room = Some s \<and> rs_hidden_left s \<noteq> hidden)"
| "departs room (OpDelete r) db \<longleftrightarrow> r = room"
| "departs room _ db \<longleftrightarrow> False"

text \<open>The table's checks, with the ranges of its integer columns.\<close>

definition VALUE_STATUSES :: "rstr list" where
  "VALUE_STATUSES = map lit [''available'', ''partial'', ''too_large'', ''forbidden'', ''not_found'', ''unsupported'', ''absent'']"

definition FAILURES :: "rstr list" where
  "FAILURES = map lit [''timeout'', ''server_error'', ''rate_limited'', ''transport'', ''unauthorized'', ''invalid_response'']"

definition opt_i64 :: "int option \<Rightarrow> bool" where
  "opt_i64 i = (case i of None \<Rightarrow> True | Some x \<Rightarrow> in_i64 x)"

definition check_key :: "rstr \<Rightarrow> rstr \<Rightarrow> bool" where
  "check_key kind t \<longleftrightarrow> kind \<in> kind_str ` {LocalAliases, DirectoryVisibility, Absence} \<and>
     (kind = kind_str Absence \<longleftrightarrow> t \<noteq> []) \<and> t \<in> insert [] (set METADATA_STATE_TYPES)"

definition check_status :: "rstr \<Rightarrow> rstr \<Rightarrow> bool" where
  "check_status kind status \<longleftrightarrow> status \<in> set VALUE_STATUSES \<and>
     (if kind = kind_str Absence then status \<in> {lit ''absent'', lit ''forbidden''} else status \<noteq> lit ''absent'')"

definition check_row :: "rstr \<Rightarrow> acq_row \<Rightarrow> bool" where
  "check_row kind row \<longleftrightarrow>
     (case ar_status row of None \<Rightarrow> True | Some status \<Rightarrow> check_status kind status) \<and>
     (case ar_failure row of None \<Rightarrow> True | Some f \<Rightarrow> f \<in> set FAILURES) \<and>
     0 \<le> ar_failures row \<and> ar_failures row < 2 ^ 31 \<and>
     opt_i64 (ar_fetched row) \<and> opt_i64 (ar_expires row) \<and> opt_i64 (ar_next row) \<and>
     (ar_status row = None \<longleftrightarrow> ar_fetched row = None) \<and> (ar_fetched row = None \<longleftrightarrow> ar_expires row = None) \<and>
     (ar_failure row = None \<longleftrightarrow> ar_failures row = 0)"

text \<open>What the writer has to keep to: an outcome that fits the kind, and a clock in range.\<close>

definition outcome_ok :: "detail_kind \<Rightarrow> detail_outcome \<Rightarrow> bool" where
  "outcome_ok kind outcome =
     (case outcome of
        Answer status _ _ \<Rightarrow> check_status (kind_str kind) status
      | Present _ \<Rightarrow> True
      | Failure category _ _ _ \<Rightarrow> category \<in> set FAILURES)"

fun op_ok :: "db_op \<Rightarrow> bool" where
  "op_ok (OpRecord now room epoch kind t outcome) \<longleftrightarrow>
     in_i64 now \<and> outcome_ok kind outcome \<and> check_key (kind_str kind) t"
| "op_ok _ \<longleftrightarrow> True"

lemma in_i64_sat [simp]: "in_i64 (sat_i64 i)"
  by (simp add: in_i64_def sat_i64_def)

lemma sat_i64_id: "in_i64 i \<Longrightarrow> sat_i64 i = i"
  by (simp add: in_i64_def sat_i64_def)

lemma opt_i64_simps [simp]: "opt_i64 None" "opt_i64 (Some i) \<longleftrightarrow> in_i64 i"
  by (simp_all add: opt_i64_def)

lemma sat_i32_succ: "0 \<le> f \<Longrightarrow> f < 2 ^ 31 \<Longrightarrow> 0 < sat_i32 (f + 1) \<and> sat_i32 (f + 1) < 2 ^ 31"
  by (simp add: sat_i32_def)

lemma check_row_next:
  assumes "outcome_ok kind outcome" "in_i64 now" "\<And>row. previous = Some row \<Longrightarrow> check_row (kind_str kind) row"
  shows "check_row (kind_str kind) (next_from previous outcome now)"
proof (cases outcome)
  case (Failure category retry mn mx)
  then show ?thesis
    using assms sat_i32_succ [of "case previous of None \<Rightarrow> 0 | Some old \<Rightarrow> ar_failures old"]
    by (cases previous) (auto simp: Let_def check_row_def outcome_ok_def)
qed (use assms in \<open>auto simp: check_row_def outcome_ok_def\<close>)

section \<open>The invariant\<close>

definition epochs_below :: "detail_db \<Rightarrow> bool" where
  "epochs_below db \<longleftrightarrow> (\<forall>room s. db_summaries db room = Some s \<longrightarrow> rs_epoch s < db_seq db)"

text \<open>\<open>db_row_ok db room kind t row\<close>: the row passes the checks, was written in the room's current
  membership epoch, and confirms no absence beside a tuple.\<close>

definition db_row_ok :: "detail_db \<Rightarrow> rstr \<Rightarrow> rstr \<Rightarrow> rstr \<Rightarrow> acq_row \<Rightarrow> bool" where
  "db_row_ok db room kind t row \<longleftrightarrow>
     check_key kind t \<and> check_row kind row \<and>
     (\<exists>s. db_summaries db room = Some s \<and> db_epochs db (room, kind, t) = Some (rs_epoch s)) \<and>
     (ar_status row = Some (lit ''absent'') \<longrightarrow> db_state db (room, t, []) = None)"

definition rows_ok :: "detail_db \<Rightarrow> bool" where
  "rows_ok db \<longleftrightarrow> (\<forall>room kind t row. db_rows db (room, kind, t) = Some row \<longrightarrow> db_row_ok db room kind t row)"

lemma rows_okI: "(\<And>room kind t row. db_rows db (room, kind, t) = Some row \<Longrightarrow> db_row_ok db room kind t row) \<Longrightarrow> rows_ok db"
  by (simp add: rows_ok_def)

lemma rows_okD: "rows_ok db \<Longrightarrow> db_rows db (room, kind, t) = Some row \<Longrightarrow> db_row_ok db room kind t row"
  by (simp add: rows_ok_def)

lemma kind_str_inject [simp]: "kind_str k = kind_str k' \<longleftrightarrow> k = k'"
  by (cases k; cases k') (simp_all add: kind_str_def lit_inject)

lemma rows_ok_forget:
  assumes "rows_ok db" "\<And>r. r \<noteq> room \<Longrightarrow> db_summaries db' r = db_summaries db r"
    "db_rows db' = db_rows db" "db_epochs db' = db_epochs db" "db_state db' = db_state db"
  shows "rows_ok (forget_room room db')"
proof (rule rows_okI)
  fix r kind t row
  assume "db_rows (forget_room room db') (r, kind, t) = Some row"
  then have "r \<noteq> room" "db_rows db (r, kind, t) = Some row"
    by (auto simp: forget_room_def assms(3) split: if_splits)
  then show "db_row_ok (forget_room room db') r kind t row"
    using rows_okD [OF assms(1)] assms(2,4,5) by (simp add: forget_room_def db_row_ok_def)
qed

lemma rows_ok_advance: "rows_ok db \<Longrightarrow> rows_ok (advance_epoch room db)"
  by (auto simp: advance_epoch_def intro: rows_ok_forget split: option.splits)

lemma rows_ok_write:
  assumes "rows_ok db"
  shows "rows_ok (write_tuple room event_type state_key tuple db)"
proof (rule rows_okI)
  fix r kind t row
  let ?db = "write_tuple room event_type state_key tuple db"
  assume row: "db_rows ?db (r, kind, t) = Some row"
  then have old: "db_rows db (r, kind, t) = Some row"
    by (auto simp: write_tuple_def Let_def split: if_splits)
  note ok = rows_okD [OF assms old]
  have same: "db_summaries ?db = db_summaries db" "db_epochs ?db (r, kind, t) = db_epochs db (r, kind, t)"
    using row by (auto simp: write_tuple_def Let_def split: if_splits)
  have "db_state ?db (r, t, []) = None" if "ar_status row = Some (lit ''absent'')"
  proof -
    have "db_state db (r, t, []) = None" "check_key kind t" "check_status kind (lit ''absent'')"
      using ok that by (auto simp: db_row_ok_def check_row_def)
    then have "kind = kind_str Absence" "is_metadata_state t []"
      by (auto simp: check_status_def check_key_def is_metadata_state_def split: if_splits)
    then show ?thesis
      using row \<open>db_state db (r, t, []) = None\<close> by (auto simp: write_tuple_def Let_def split: if_splits)
  qed
  then show "db_row_ok ?db r kind t row"
    using ok by (simp add: db_row_ok_def same)
qed

lemma rows_ok_upsert: "rows_ok db \<Longrightarrow> rows_ok (snd (upsert_room_state s local_user evidence db))"
  by (auto simp: upsert_room_state_def Let_def rows_ok_write rows_ok_advance split: prod.splits option.splits)

lemma rows_ok_record:
  assumes "rows_ok db" "op_ok (OpRecord now room epoch kind t outcome)"
  shows "rows_ok (snd (record_room_detail now room epoch kind t outcome db))"
proof (cases "joined_epoch db room = Some epoch \<and> \<not> (confirms_absence outcome \<and> db_state db (room, t, []) \<noteq> None)")
  case True
  let ?db = "snd (record_room_detail now room epoch kind t outcome db)"
  let ?nxt = "next_from (db_rows db (room, kind_str kind, t)) outcome now"
  have db: "?db = db\<lparr>db_rows := (db_rows db)((room, kind_str kind, t) \<mapsto> ?nxt),
      db_epochs := (db_epochs db)((room, kind_str kind, t) \<mapsto> epoch)\<rparr>"
    using True by (auto simp: record_room_detail_def Let_def)
  have ok: "outcome_ok kind outcome" "in_i64 now" "check_key (kind_str kind) t"
    using assms(2) by simp_all
  have "check_row (kind_str kind) ?nxt"
    using ok rows_okD [OF assms(1)] by (intro check_row_next) (auto simp: db_row_ok_def)
  moreover have "db_state db (room, t, []) = None" if absent: "ar_status ?nxt = Some (lit ''absent'')"
  proof (cases outcome)
    case (Failure category retry mn mx)
    then obtain row where "db_rows db (room, kind_str kind, t) = Some row" "ar_status row = Some (lit ''absent'')"
      using absent Failure by (cases "db_rows db (room, kind_str kind, t)") (auto simp: Let_def)
    then show ?thesis
      using rows_okD [OF assms(1)] by (auto simp: db_row_ok_def)
  qed (use absent True in \<open>auto simp: confirms_absence_def\<close>)
  moreover obtain s where "db_summaries db room = Some s" "rs_epoch s = epoch"
    using True by (auto simp: joined_epoch_def split: option.splits if_splits)
  ultimately show ?thesis
    unfolding db using rows_okD [OF assms(1)] ok(3)
    by (intro rows_okI) (auto simp: db_row_ok_def split: if_splits)
next
  case False
  then have "record_room_detail now room epoch kind t outcome db = (Fenced, db)"
    by (auto simp: record_room_detail_def)
  then show ?thesis
    using assms(1) by simp
qed

lemma rows_ok_apply:
  assumes "rows_ok db" "op_ok op"
  shows "rows_ok (db_apply op db)"
proof (cases op)
  case (OpInsert room hidden)
  then show ?thesis
    using assms(1) by (fastforce simp: insert_summary_def rows_ok_def db_row_ok_def split: option.splits)
next
  case (OpHidden room hidden)
  then show ?thesis
    using assms(1) by (auto simp: set_hidden_left_def intro: rows_ok_forget split: option.splits)
next
  case (OpDelete room)
  then show ?thesis
    using assms(1) by (auto simp: delete_summary_def intro: rows_ok_forget)
next
  case (OpUpsert s local_user evidence)
  then show ?thesis
    using rows_ok_upsert [OF assms(1)] by simp
next
  case (OpRecord now room epoch kind t outcome)
  then show ?thesis
    using rows_ok_record [OF assms(1)] assms(2) by simp
qed (use assms(1) in \<open>auto simp: rows_ok_def db_row_ok_def\<close>)

lemma rows_ok_run: "rows_ok db \<Longrightarrow> list_all op_ok ops \<Longrightarrow> rows_ok (db_run ops db)"
  by (induction ops arbitrary: db) (simp_all add: rows_ok_apply)

section \<open>Epochs are never reused\<close>

definition epoch_of :: "detail_db \<Rightarrow> rstr \<Rightarrow> int option" where
  "epoch_of db room = map_option rs_epoch (db_summaries db room)"

definition epoch_gone :: "rstr \<Rightarrow> int \<Rightarrow> detail_db \<Rightarrow> bool" where
  "epoch_gone room e db \<longleftrightarrow> e < db_seq db \<and> epoch_of db room \<noteq> Some e"

lemma forget_room_simps [simp]:
  "db_summaries (forget_room room db) = db_summaries db" "db_seq (forget_room room db) = db_seq db"
  by (simp_all add: forget_room_def)

lemma write_tuple_simps [simp]:
  "db_summaries (write_tuple room t k tuple db) = db_summaries db" "db_seq (write_tuple room t k tuple db) = db_seq db"
  by (simp_all add: write_tuple_def Let_def)

text \<open>An operation leaves the summaries alone, removes one, or gives one the sequence's next value.\<close>

definition summaries_step :: "detail_db \<Rightarrow> detail_db \<Rightarrow> bool" where
  "summaries_step db db' \<longleftrightarrow>
     db_summaries db' = db_summaries db \<and> db_seq db' = db_seq db \<or>
     (\<exists>room. db_summaries db' = (db_summaries db)(room := None) \<and> db_seq db' = db_seq db) \<or>
     (\<exists>room s. db_summaries db' = (db_summaries db)(room \<mapsto> s) \<and> rs_epoch s = db_seq db \<and> db_seq db' = db_seq db + 1)"

lemma summaries_step_advance: "summaries_step db (advance_epoch room db)"
  by (fastforce simp: advance_epoch_def summaries_step_def split: option.splits)

lemma summaries_step_apply: "summaries_step db (db_apply op db)"
proof (cases op)
  case (OpUpsert s local_user evidence)
  have "summaries_step db (advance_epoch room (write_tuple room t k tuple db))" for room t k tuple
    using summaries_step_advance [of "write_tuple room t k tuple db" room] by (simp add: summaries_step_def)
  then show ?thesis
    unfolding OpUpsert
    by (auto simp: upsert_room_state_def Let_def summaries_step_def [of db db]
        summaries_step_def [of db "write_tuple _ _ _ _ db"] split: prod.splits option.splits)
next
  case (OpInsert room hidden)
  then show ?thesis
    by (fastforce simp: insert_summary_def summaries_step_def split: option.splits)
next
  case (OpHidden room hidden)
  then show ?thesis
    by (fastforce simp: set_hidden_left_def summaries_step_def split: option.splits)
next
  case (OpDelete room)
  then show ?thesis
    by (auto simp: delete_summary_def summaries_step_def)
next
  case (OpRecord now room epoch kind t outcome)
  then show ?thesis
    by (auto simp: record_room_detail_def summaries_step_def Let_def)
qed (auto simp: summaries_step_def)

lemma epochs_below_apply: "epochs_below db \<Longrightarrow> epochs_below (db_apply op db)"
  using summaries_step_apply [of db op] by (fastforce simp: summaries_step_def epochs_below_def split: if_splits)

lemma epoch_gone_apply: "epoch_gone room e db \<Longrightarrow> epoch_gone room e (db_apply op db)"
  using summaries_step_apply [of db op] by (auto simp: summaries_step_def epoch_gone_def epoch_of_def split: if_splits)

lemma epochs_below_run: "epochs_below db \<Longrightarrow> epochs_below (db_run ops db)"
  by (induction ops arbitrary: db) (simp_all add: epochs_below_apply)

lemma epoch_gone_run: "epoch_gone room e db \<Longrightarrow> epoch_gone room e (db_run ops db)"
  by (induction ops arbitrary: db) (simp_all add: epoch_gone_apply)

lemma db_seq_mono: "db_seq db \<le> db_seq (db_run ops db)"
proof (induction ops arbitrary: db)
  case (Cons op ops)
  have "db_seq db \<le> db_seq (db_apply op db)"
    using summaries_step_apply [of db op] by (auto simp: summaries_step_def)
  then show ?case
    using Cons [of "db_apply op db"] by simp
qed simp

lemma advance_gone: "epochs_below db \<Longrightarrow> epoch_of (advance_epoch room db) room \<noteq> epoch_of db room \<or> epoch_of db room = None"
  by (fastforce simp: advance_epoch_def epoch_of_def epochs_below_def split: option.splits)

lemma departs_gone:
  assumes "epochs_below db" "departs room op db" "epoch_of db room = Some e"
  shows "epoch_of (db_apply op db) room \<noteq> Some e"
proof (cases op)
  case (OpUpsert s local_user evidence)
  let ?db = "\<lambda>tuple. write_tuple (su_room s) (su_type s) (su_key s) tuple db"
  have "epoch_of (advance_epoch room (?db tuple)) room \<noteq> Some e" for tuple
    using advance_gone [of "?db tuple" room] assms(1,3)
    by (auto simp: epochs_below_def epoch_of_def [of "write_tuple _ _ _ _ _"] epoch_of_def [of db])
  then show ?thesis
    using assms(2) OpUpsert
    by (auto simp: upsert_room_state_def Let_def split: prod.splits option.splits if_splits)
qed (use assms in \<open>fastforce simp: set_hidden_left_def delete_summary_def epoch_of_def epochs_below_def\<close>)+

lemma joined_epoch_epoch: "joined_epoch db room = Some e \<Longrightarrow> epoch_of db room = Some e"
  by (auto simp: joined_epoch_def epoch_of_def split: option.splits if_splits)

lemma departed_fenced:
  assumes "epochs_below db" "joined_epoch db room = Some e" "departs room op (db_run before db)"
  shows "joined_epoch (db_run after (db_apply op (db_run before db))) room \<noteq> Some e"
proof -
  let ?mid = "db_run before db"
  have "e < db_seq db"
    using assms(1,2) by (auto simp: epochs_below_def joined_epoch_def split: option.splits if_splits)
  then have below: "epochs_below ?mid" "e < db_seq ?mid"
    using epochs_below_run [OF assms(1)] db_seq_mono [of db before] by auto
  have "epoch_gone room e (db_apply op ?mid)"
  proof (cases "epoch_of ?mid room = Some e")
    case True
    then show ?thesis
      using departs_gone [OF below(1) assms(3) True] below(2) db_seq_mono [of ?mid "[op]"] by (simp add: epoch_gone_def)
  next
    case False
    then show ?thesis
      using below(2) by (intro epoch_gone_apply) (simp add: epoch_gone_def)
  qed
  then show ?thesis
    using epoch_gone_run joined_epoch_epoch by (fastforce simp: epoch_gone_def)
qed

section \<open>Room state\<close>

definition su_tuple_key :: "state_upsert \<Rightarrow> rstr \<times> rstr \<times> rstr" where
  "su_tuple_key s = (su_room s, su_type s, su_key s)"

text \<open>\<open>still_redacted key p ups q\<close>: \<open>q\<close> is \<open>p\<close>'s event, still redacted and no older, and its content is \<open>p\<close>'s
  or that of a redacted delivery.\<close>

definition still_redacted ::
  "rstr \<times> rstr \<times> rstr \<Rightarrow> state_tuple \<Rightarrow> (state_upsert \<times> rstr option \<times> state_redaction) list \<Rightarrow> state_tuple \<Rightarrow> bool"
where
  "still_redacted key p ups q \<longleftrightarrow> st_event q = st_event p \<and> st_redacted q = Some True \<and> st_origin_ts p \<le> st_origin_ts q \<and>
     (st_content q = st_content p \<or>
      (\<exists>s u x. (s, u, Redacted x) \<in> set ups \<and> su_tuple_key s = key \<and> st_content q = su_content s))"

lemma still_redacted_trans:
  assumes "still_redacted key p [up] q" "still_redacted key q ups r"
  shows "still_redacted key p (up # ups) r"
  using assms unfolding still_redacted_def by (metis (no_types, lifting) list.set_intros order_trans set_ConsD empty_iff empty_set)

lemma db_state_advance [simp]: "db_state (advance_epoch room db) = db_state db"
  by (simp add: advance_epoch_def forget_room_def split: option.splits)

lemma db_state_write [simp]:
  "db_state (write_tuple room t k tuple db) = (db_state db)((room, t, k) \<mapsto> tuple)"
  by (simp add: write_tuple_def Let_def)

lemma db_state_upsert_other:
  "su_tuple_key s \<noteq> key \<Longrightarrow> db_state (snd (upsert_room_state s u evidence db)) key = db_state db key"
  by (auto simp: upsert_room_state_def Let_def su_tuple_key_def split: prod.splits option.splits)

lemma upsert_still_redacted:
  assumes "db_state db (su_tuple_key s) = Some p" "st_redacted p = Some True"
    "su_event s = st_event p \<or> su_origin_ts s < st_origin_ts p"
  shows "\<exists>q. db_state (snd (upsert_room_state s u evidence db)) (su_tuple_key s) = Some q \<and>
    still_redacted (su_tuple_key s) p [(s, u, evidence)] q"
  using assms
  by (cases evidence)
    (auto simp: upsert_room_state_def upsert_tuple_def su_tuple_key_def still_redacted_def Let_def coalesce_opt_def
      split: option.splits if_splits)

lemma run_still_redacted:
  assumes "db_state db key = Some p" "st_redacted p = Some True"
    "\<forall>(s, u, e) \<in> set ups. su_tuple_key s = key \<longrightarrow> su_event s = st_event p \<or> su_origin_ts s < st_origin_ts p"
  shows "\<exists>q. db_state (db_run (map (\<lambda>(s, u, e). OpUpsert s u e) ups) db) key = Some q \<and> still_redacted key p ups q"
  using assms
proof (induction ups arbitrary: db p)
  case (Cons up ups)
  obtain s u e where up: "up = (s, u, e)"
    by (cases up)
  let ?db = "snd (upsert_room_state s u e db)"
  obtain q where q: "db_state ?db key = Some q" "still_redacted key p [up] q"
  proof (cases "su_tuple_key s = key")
    case True
    then show ?thesis
      using that upsert_still_redacted [of db s p u e] Cons.prems up by auto
  next
    case False
    then show ?thesis
      using that [of p] Cons.prems(1,2) db_state_upsert_other [of s key u e db] by (simp add: still_redacted_def)
  qed
  have "\<forall>(s, u, e) \<in> set ups. su_tuple_key s = key \<longrightarrow> su_event s = st_event q \<or> su_origin_ts s < st_origin_ts q"
    using Cons.prems(3) q(2) by (fastforce simp: still_redacted_def)
  then obtain r where "db_state (db_run (map (\<lambda>(s, u, e). OpUpsert s u e) ups) ?db) key = Some r"
    "still_redacted key q ups r"
    using Cons.IH [OF q(1)] q(2) by (auto simp: still_redacted_def)
  then show ?case
    using still_redacted_trans [OF q(2)] by (auto simp: up)
qed (simp add: still_redacted_def)

section \<open>Properties\<close>

text \<open>C22: Whatever membership changes, purges, state writes and results happen in whatever order, every
  cached row passes the table's checks, belongs to a room that has a summary, was recorded in that
  room's current membership epoch, and confirms no absence beside a tuple of its type.\<close>

theorem detail_cache_sound:
  assumes "db_rows db = Map.empty" "list_all op_ok ops" "db_rows (db_run ops db) (room, kind, t) = Some row"
  shows "check_key kind t \<and> check_row kind row \<and>
    (\<exists>s. db_summaries (db_run ops db) room = Some s \<and> db_epochs (db_run ops db) (room, kind, t) = Some (rs_epoch s)) \<and>
    (ar_status row = Some (lit ''absent'') \<longrightarrow> db_state (db_run ops db) (room, t, []) = None)"
proof -
  have "rows_ok (db_run ops db)"
    using assms(1,2) by (intro rows_ok_run) (simp_all add: rows_ok_def)
  then show ?thesis
    using rows_okD assms(3) unfolding db_row_ok_def by blast
qed

definition demo_user :: rstr where
  "demo_user = lit ''@u:x''"

definition demo_room :: rstr where
  "demo_room = lit ''!r:x''"

definition demo_member :: "rstr \<Rightarrow> int \<Rightarrow> state_tuple" where
  "demo_member event ts = \<lparr>st_event = event, st_sender = demo_user, st_origin_ts = ts,
     st_content = Some (JObject [(lit ''membership'', JString (lit ''join''))]), st_redacted = None, st_redaction = None\<rparr>"

definition demo_db :: detail_db where
  "demo_db = \<lparr>db_active = True, db_user = demo_user,
     db_summaries = [demo_room \<mapsto> \<lparr>rs_epoch = 0, rs_hidden_left = False\<rparr>],
     db_state = [(demo_room, lit ''m.room.member'', demo_user) \<mapsto> demo_member (lit ''$1'') 1],
     db_gone = {}, db_rows = Map.empty, db_seq = 1, db_epochs = Map.empty\<rparr>"

definition demo_absent :: db_op where
  "demo_absent = OpRecord 1000 demo_room 0 Absence (lit ''m.room.encryption'') (Answer (lit ''absent'') None 86400000)"

lemma demo_absent_recorded:
  "db_rows (db_run [demo_absent] demo_db) (demo_room, kind_str Absence, lit ''m.room.encryption'') =
     Some \<lparr>ar_status = Some (lit ''absent''), ar_value = None, ar_fetched = Some 1000, ar_expires = Some 86401000,
       ar_failure = None, ar_failures = 0, ar_next = None\<rparr>"
  by (simp add: demo_absent_def demo_db_def record_room_detail_def joined_epoch_def member_joined_def demo_member_def
      demo_user_def demo_room_def jget_def Let_def sat_i64_def lit_inject)

lemma demo_absent_ok: "op_ok demo_absent"
  by (simp add: demo_absent_def in_i64_def outcome_ok_def check_status_def VALUE_STATUSES_def check_key_def
      METADATA_STATE_TYPES_def lit_inject) (simp add: lit_def)

theorem detail_cache_sound_witness:
  "check_key (kind_str Absence) (lit ''m.room.encryption'') \<and>
   (\<exists>s. db_summaries (db_run [demo_absent] demo_db) demo_room = Some s)"
  using detail_cache_sound [OF _ _ demo_absent_recorded] demo_absent_ok by (auto simp: demo_db_def)

text \<open>C23: A result is dropped once the account's membership has changed since its job started: after a
  leave, a rejoin, a purge, or a kick and rejoin delivered as one new member event, anything at all
  in between and afterwards, recording with the epoch the job read writes nothing.\<close>

theorem detail_departed_fenced:
  assumes "epochs_below db" "joined_epoch db room = Some e" "departs room op (db_run before db)"
  shows "record_room_detail now room e kind t outcome (db_run after (db_apply op (db_run before db))) =
    (Fenced, db_run after (db_apply op (db_run before db)))"
  using departed_fenced [OF assms] by (simp add: record_room_detail_def)

definition demo_rejoin :: db_op where
  "demo_rejoin = OpUpsert \<lparr>su_room = demo_room, su_type = lit ''m.room.member'', su_key = demo_user, su_event = lit ''$2'',
     su_sender = demo_user, su_origin_ts = 2, su_content = st_content (demo_member [] 0)\<rparr> (Some demo_user) RedactionUnknown"

theorem detail_departed_fenced_witness:
  "record_room_detail 5 demo_room 0 LocalAliases [] (Present 1) (db_run [] (db_apply demo_rejoin (db_run [] demo_db))) =
     (Fenced, db_run [] (db_apply demo_rejoin (db_run [] demo_db)))"
proof (rule detail_departed_fenced)
  show "epochs_below demo_db"
    by (simp add: epochs_below_def demo_db_def)
  show "joined_epoch demo_db demo_room = Some 0"
    by (simp add: demo_db_def joined_epoch_def member_joined_def demo_member_def jget_def)
  show "departs demo_room demo_rejoin (db_run [] demo_db)"
    by (simp add: demo_rejoin_def demo_db_def upsert_room_state_def upsert_tuple_def demo_member_def Let_def lit_inject)
qed

text \<open>Redacted state stays redacted. Once a tuple holds a redacted event, any deliveries of that
  event again, of older events, and of other tuples leave it redacted, with the content it had or
  that of another redacted delivery, and its timestamp never goes back.\<close>

theorem state_redaction_kept:
  assumes "db_state db key = Some p" "st_redacted p = Some True"
    "\<forall>(s, u, e) \<in> set ups. su_tuple_key s = key \<longrightarrow> su_event s = st_event p \<or> su_origin_ts s < st_origin_ts p"
  shows "\<exists>q. db_state (db_run (map (\<lambda>(s, u, e). OpUpsert s u e) ups) db) key = Some q \<and> st_event q = st_event p \<and>
    st_redacted q = Some True \<and> st_origin_ts p \<le> st_origin_ts q \<and>
    (st_content q = st_content p \<or>
     (\<exists>s u x. (s, u, Redacted x) \<in> set ups \<and> su_tuple_key s = key \<and> st_content q = su_content s))"
  using run_still_redacted [OF assms] unfolding still_redacted_def by blast

definition demo_upsert :: state_upsert where
  "demo_upsert = \<lparr>su_room = demo_room, su_type = lit ''m.room.topic'', su_key = [], su_event = lit ''$3'',
     su_sender = demo_user, su_origin_ts = 7, su_content = Some (JObject [(lit ''topic'', JString (lit ''x''))])\<rparr>"

definition demo_redacted_db :: detail_db where
  "demo_redacted_db = db_run [OpUpsert (demo_upsert\<lparr>su_content := Some (JObject [])\<rparr>) None (Redacted None)] demo_db"

lemma demo_redacted_tuple:
  "db_state demo_redacted_db (su_tuple_key demo_upsert) =
     Some \<lparr>st_event = lit ''$3'', st_sender = demo_user, st_origin_ts = 7, st_content = Some (JObject []),
       st_redacted = Some True, st_redaction = None\<rparr>"
  by (simp add: demo_redacted_db_def demo_upsert_def demo_db_def upsert_room_state_def upsert_tuple_def su_tuple_key_def
      lit_inject)

theorem state_redaction_kept_witness:
  "\<exists>q. db_state (db_run [OpUpsert demo_upsert None RedactionUnknown] demo_redacted_db) (su_tuple_key demo_upsert) = Some q \<and>
     st_redacted q = Some True \<and> st_content q = Some (JObject [])"
  using state_redaction_kept [OF demo_redacted_tuple, of "[(demo_upsert, None, RedactionUnknown)]"]
  by (auto simp: demo_upsert_def)

end
