(* ===== verification/Detail_Reply.thy ===== *)
theory Detail_Reply
  imports Detail_Store Gate_State
begin

text \<open>
  From a homeserver's response to what a client reads: the request, the interpretation of its reply
  and the backoff of \<^verbatim>\<open>crates/axon-sync/src/acquisition.rs\<close>, the bounded body reader of
  \<^verbatim>\<open>crates/axon-sync/src/bounded_body.rs\<close>, and the read side of \<^verbatim>\<open>crates/axon-api/src/room_details.rs\<close>.

  Code outside the repository is an argument: \<open>parse_json\<close> (\<^verbatim>\<open>serde_json::from_slice\<close>), \<open>valid_alias\<close>
  (ruma's \<^verbatim>\<open>OwnedRoomAliasId::try_from\<close>) and \<open>rfc2822\<close> (chrono's \<^verbatim>\<open>parse_from_rfc2822\<close>, in
  milliseconds). A response body is the list of its chunks and how it ends.
\<close>

section \<open>Limits, in milliseconds where the cache records them\<close>

definition MAX_RESPONSE_BYTES :: nat where
  "MAX_RESPONSE_BYTES = 64 * 1024"

definition MAX_ERROR_BYTES :: nat where
  "MAX_ERROR_BYTES = 4 * 1024"

definition MAX_LOCAL_ALIASES :: nat where
  "MAX_LOCAL_ALIASES = 256"

text \<open>\<^verbatim>\<open>ms\<close> of a duration of whole seconds: \<^verbatim>\<open>i64::MAX\<close> when it does not fit.\<close>

definition ms_of_secs :: "nat \<Rightarrow> int" where
  "ms_of_secs s = (if in_i64 (int s * 1000) then int s * 1000 else 2 ^ 63 - 1)"

definition AVAILABLE_TTL :: int where
  "AVAILABLE_TTL = ms_of_secs (15 * 60)"

definition CONCLUSIVE_DENIAL_TTL :: int where
  "CONCLUSIVE_DENIAL_TTL = ms_of_secs (60 * 60)"

definition ABSENCE_TTL :: int where
  "ABSENCE_TTL = ms_of_secs (24 * 60 * 60)"

definition UNSUPPORTED_TTL :: int where
  "UNSUPPORTED_TTL = ms_of_secs (24 * 60 * 60)"

definition FAILURE_BACKOFF_MIN_MS :: int where
  "FAILURE_BACKOFF_MIN_MS = ms_of_secs 60"

definition FAILURE_BACKOFF_MAX_MS :: int where
  "FAILURE_BACKOFF_MAX_MS = ms_of_secs (30 * 60)"

definition MAX_RETRY_AFTER_MS :: int where
  "MAX_RETRY_AFTER_MS = ms_of_secs (24 * 60 * 60)"

section \<open>Bodies\<close>

datatype body_error = BodyTooLarge | BodyTransport bool

text \<open>How a body ends: complete, or an error that is or is not a timeout.\<close>

datatype body_end = BodyEnd | BodyBroken bool

record http_body =
  hb_length :: "nat option"
  hb_chunks :: "nat list list"
  hb_end :: body_end

fun read_chunks :: "nat \<Rightarrow> nat list list \<Rightarrow> body_end \<Rightarrow> nat list \<Rightarrow> body_error + nat list" where
  "read_chunks mx [] BodyEnd body = Inr body"
| "read_chunks mx [] (BodyBroken timeout) body = Inl (BodyTransport timeout)"
| "read_chunks mx (chunk # chunks) fin body =
     (if mx < length body + length chunk then Inl BodyTooLarge else read_chunks mx chunks fin (body @ chunk))"

definition read_bounded_body :: "http_body \<Rightarrow> nat \<Rightarrow> body_error + nat list" where
  "read_bounded_body response mx =
     (case hb_length response of
        Some len \<Rightarrow> if mx < len then Inl BodyTooLarge else read_chunks mx (hb_chunks response) (hb_end response) []
      | None \<Rightarrow> read_chunks mx (hb_chunks response) (hb_end response) [])"

section \<open>Requests\<close>

datatype no_answer = NaTimeout | NaTransport | NaUnauthorized

datatype reply =
    ReplyOk "nat list"
  | ReplyTooLarge
  | ReplyStatus (reply_status: nat) (reply_errcode: "rstr option") (reply_retry: "int option")
  | ReplyFailed no_answer

text \<open>What reqwest's \<^verbatim>\<open>send\<close> gives: an error that is or is not a timeout, or a response with its status,
  its \<^verbatim>\<open>Retry-After\<close> header when it is text, and its body.\<close>

datatype http_sent = SendError bool | SendResponse nat "rstr option" http_body

fun as_i64 :: "json_value \<Rightarrow> int option" where
  "as_i64 (JNumber n) = (if in_i64 n then Some n else None)"
| "as_i64 _ = None"

definition retry_after :: "(rstr \<Rightarrow> int option) \<Rightarrow> int \<Rightarrow> rstr \<Rightarrow> int option" where
  "retry_after rfc2822 now header =
     (let v = trim_matches is_white_space header
      in case parse_usize v of
           Some seconds \<Rightarrow> Some (ms_of_secs seconds)
         | None \<Rightarrow> map_option (\<lambda>at. max (at - now) 0) (rfc2822 v))"

fun opt_max :: "int option \<Rightarrow> int option \<Rightarrow> int option" where
  "opt_max None b = b"
| "opt_max a None = a"
| "opt_max (Some a) (Some b) = Some (max a b)"

definition send ::
  "(nat list \<Rightarrow> json_value option) \<Rightarrow> (rstr \<Rightarrow> int option) \<Rightarrow> int \<Rightarrow> bool \<Rightarrow> http_sent \<Rightarrow> reply"
where
  "send parse_json rfc2822 now read_body sent =
     (case sent of
        SendError timeout \<Rightarrow> ReplyFailed (if timeout then NaTimeout else NaTransport)
      | SendResponse status header body \<Rightarrow>
          if status = 200 then
            (if \<not> read_body then ReplyOk []
             else case read_bounded_body body MAX_RESPONSE_BYTES of
                    Inr bytes \<Rightarrow> ReplyOk bytes
                  | Inl BodyTooLarge \<Rightarrow> ReplyTooLarge
                  | Inl (BodyTransport timeout) \<Rightarrow> ReplyFailed (if timeout then NaTimeout else NaTransport))
          else
            let header_retry = Option.bind header (retry_after rfc2822 now);
                json = (case read_bounded_body body MAX_ERROR_BYTES of Inr bytes \<Rightarrow> parse_json bytes | Inl _ \<Rightarrow> None);
                errcode = Option.bind (Option.bind json (\<lambda>b. jget b (lit ''errcode''))) as_string;
                body_retry = Option.bind (Option.bind json (\<lambda>b. jget b (lit ''retry_after_ms''))) as_i64
            in ReplyStatus status errcode
                 (map_option (\<lambda>r. max 0 (min MAX_RETRY_AFTER_MS r)) (opt_max header_retry body_retry)))"

definition gate_outcome :: "reply \<Rightarrow> outcome" where
  "gate_outcome r =
     (case r of
        ReplyOk _ \<Rightarrow> Success
      | ReplyTooLarge \<Rightarrow> Refused
      | ReplyStatus status _ _ \<Rightarrow> if status = 429 \<or> 500 \<le> status then Overloaded else Refused
      | ReplyFailed NaTimeout \<Rightarrow> TimedOut
      | ReplyFailed NaTransport \<Rightarrow> Overloaded
      | ReplyFailed NaUnauthorized \<Rightarrow> Local)"

text \<open>A request that holds its gate permit: whether there is an access token and whether the address can
  be built, and what the exchange gives within the timeout. The permit's outcome is the second
  component.\<close>

definition homeserver_get ::
  "(nat list \<Rightarrow> json_value option) \<Rightarrow> (rstr \<Rightarrow> int option) \<Rightarrow> int \<Rightarrow> bool \<Rightarrow> bool \<Rightarrow> bool \<Rightarrow> http_sent option \<Rightarrow> reply \<times> outcome"
where
  "homeserver_get parse_json rfc2822 now has_token has_url read_body exchange =
     (if \<not> has_token then (ReplyFailed NaUnauthorized, Local)
      else if \<not> has_url then (ReplyFailed NaTransport, Local)
      else case exchange of
             Some sent \<Rightarrow> (let r = send parse_json rfc2822 now read_body sent in (r, gate_outcome r))
           | None \<Rightarrow> (ReplyFailed NaTimeout, TimedOut))"

section \<open>Interpretation\<close>

definition failure :: "string \<Rightarrow> int option \<Rightarrow> detail_outcome" where
  "failure category retry = Failure (lit category) retry FAILURE_BACKOFF_MIN_MS FAILURE_BACKOFF_MAX_MS"

definition answer :: "string \<Rightarrow> json_value option \<Rightarrow> int \<Rightarrow> detail_outcome" where
  "answer status v ttl = Answer (lit status) v ttl"

definition answer_body :: "(rstr \<Rightarrow> bool) \<Rightarrow> detail_kind \<Rightarrow> json_value \<Rightarrow> detail_outcome option" where
  "answer_body valid_alias kind body =
     (case kind of
        LocalAliases \<Rightarrow>
          Option.bind (Option.bind (jget body (lit ''aliases'')) as_array) (\<lambda>aliases.
            if MAX_LOCAL_ALIASES < length aliases then Some (answer ''too_large'' None AVAILABLE_TTL)
            else
              let valid = filter valid_alias (List.map_filter as_string aliases)
              in Some (answer (if length valid = length aliases then ''available'' else ''partial'')
                         (Some (JArray (map JString valid))) AVAILABLE_TTL))
      | DirectoryVisibility \<Rightarrow>
          Option.bind (Option.bind (jget body (lit ''visibility'')) as_string) (\<lambda>visibility.
            if visibility = lit ''public'' \<or> visibility = lit ''private''
            then Some (answer ''available'' (Some (jobj [(''visibility'', JString visibility)])) AVAILABLE_TTL)
            else None)
      | Absence \<Rightarrow> None)"

definition interpret_status :: "detail_kind \<Rightarrow> nat \<Rightarrow> rstr option \<Rightarrow> int option \<Rightarrow> detail_outcome" where
  "interpret_status kind status errcode retry =
     (if status = 401 then failure ''unauthorized'' retry
      else if status = 403 then answer ''forbidden'' None CONCLUSIVE_DENIAL_TTL
      else if status = 404 \<and> errcode = Some (lit ''M_NOT_FOUND'') then
        (if kind = Absence then answer ''absent'' None ABSENCE_TTL else answer ''not_found'' None CONCLUSIVE_DENIAL_TTL)
      else if status = 404 \<and> (errcode = None \<or> errcode = Some (lit ''M_UNRECOGNIZED'')) \<or> status = 405 then
        (if kind = Absence then failure ''invalid_response'' None else answer ''unsupported'' None UNSUPPORTED_TTL)
      else if status = 429 then failure ''rate_limited'' retry
      else if 500 \<le> status \<and> status \<le> 599 then failure ''server_error'' retry
      else failure ''invalid_response'' None)"

definition interpret_reply :: "(nat list \<Rightarrow> json_value option) \<Rightarrow> (rstr \<Rightarrow> bool) \<Rightarrow> detail_kind \<Rightarrow> reply \<Rightarrow> detail_outcome" where
  "interpret_reply parse_json valid_alias kind r =
     (case r of
        ReplyFailed NaTimeout \<Rightarrow> failure ''timeout'' None
      | ReplyFailed NaTransport \<Rightarrow> failure ''transport'' None
      | ReplyFailed NaUnauthorized \<Rightarrow> failure ''unauthorized'' None
      | ReplyTooLarge \<Rightarrow>
          if kind = Absence then failure ''invalid_response'' None else answer ''too_large'' None AVAILABLE_TTL
      | ReplyOk body \<Rightarrow>
          if kind = Absence then Present CONCLUSIVE_DENIAL_TTL
          else (case Option.bind (parse_json body) (answer_body valid_alias kind) of
                  Some out \<Rightarrow> out
                | None \<Rightarrow> failure ''invalid_response'' None)
      | ReplyStatus status errcode retry \<Rightarrow> interpret_status kind status errcode retry)"

fun outcome_label :: "detail_outcome \<Rightarrow> rstr" where
  "outcome_label (Answer status _ _) = status"
| "outcome_label (Present _) = lit ''present''"
| "outcome_label (Failure category _ _ _) = category"

section \<open>Reads\<close>

datatype job_activity = JobIdle | JobQueued | JobRunning

datatype refresh_state = RefreshIdle | RefreshQueued | RefreshRunning

datatype refresh_failure = RfTimeout | RfServerError | RfRateLimited | RfTransport | RfUnauthorized | RfInvalidResponse

definition parse_refresh_failure :: "rstr \<Rightarrow> refresh_failure option" where
  "parse_refresh_failure category =
     map_of (map (\<lambda>(k, v). (lit k, v)) [(''timeout'', RfTimeout), (''server_error'', RfServerError),
       (''rate_limited'', RfRateLimited), (''transport'', RfTransport), (''unauthorized'', RfUnauthorized),
       (''invalid_response'', RfInvalidResponse)]) category"

record detail_refresh =
  rf_state :: refresh_state
  rf_failure :: "refresh_failure option"
  rf_next :: "int option"

fun activity_state :: "job_activity \<Rightarrow> refresh_state" where
  "activity_state JobIdle = RefreshIdle"
| "activity_state JobQueued = RefreshQueued"
| "activity_state JobRunning = RefreshRunning"

definition refresh_new :: "detail_row \<Rightarrow> job_activity \<Rightarrow> int option \<Rightarrow> detail_refresh" where
  "refresh_new row activity not_before =
     \<lparr>rf_state = (if dr_due row then activity_state activity else RefreshIdle),
      rf_failure = Option.bind (ar_failure (dr_row row)) parse_refresh_failure,
      rf_next = (if dr_due row then None else not_before)\<rparr>"

definition absence_fields :: "detail_row option \<Rightarrow> job_activity \<Rightarrow> int option \<times> detail_refresh option" where
  "absence_fields row activity =
     (case row of
        None \<Rightarrow> (None, if activity \<noteq> JobIdle
                      then Some \<lparr>rf_state = activity_state activity, rf_failure = None, rf_next = None\<rparr> else None)
      | Some row \<Rightarrow>
          let confirmed = (ar_status (dr_row row) = Some (lit ''absent''));
              not_before = (if confirmed then ar_next (dr_row row)
                            else opt_max (ar_expires (dr_row row)) (ar_next (dr_row row)))
          in (if confirmed then ar_fetched (dr_row row) else None, Some (refresh_new row activity not_before)))"

datatype detail_status = DsUnknown | DsAvailable | DsPartial | DsTooLarge | DsForbidden | DsNotFound | DsUnsupported

definition parse_detail_status :: "rstr option \<Rightarrow> detail_status" where
  "parse_detail_status status =
     (case Option.bind status (map_of (map (\<lambda>(k, v). (lit k, v)) [(''available'', DsAvailable), (''partial'', DsPartial),
             (''too_large'', DsTooLarge), (''forbidden'', DsForbidden), (''not_found'', DsNotFound),
             (''unsupported'', DsUnsupported)])) of
        Some d \<Rightarrow> d | None \<Rightarrow> DsUnknown)"

definition detail_parts :: "detail_row option \<Rightarrow> job_activity \<Rightarrow> detail_status \<times> int option \<times> int option \<times> detail_refresh" where
  "detail_parts row activity =
     (case row of
        None \<Rightarrow> (DsUnknown, None, None, \<lparr>rf_state = activity_state activity, rf_failure = None, rf_next = None\<rparr>)
      | Some row \<Rightarrow> (parse_detail_status (ar_status (dr_row row)), ar_fetched (dr_row row), ar_expires (dr_row row),
                    refresh_new row activity (ar_next (dr_row row))))"

definition with_value :: "detail_status \<Rightarrow> bool \<Rightarrow> 'a option \<Rightarrow> detail_status \<times> 'a option" where
  "with_value status has_value decoded =
     (if \<not> has_value then (status, None)
      else case decoded of Some v \<Rightarrow> (status, Some v) | None \<Rightarrow> (DsUnknown, None))"

text \<open>\<^verbatim>\<open>Vec<String>::deserialize\<close>: an array of nothing but strings.\<close>

fun decode_strings :: "json_value \<Rightarrow> rstr list option" where
  "decode_strings (JArray vs) = (if list_all (\<lambda>v. as_string v \<noteq> None) vs then Some (List.map_filter as_string vs) else None)"
| "decode_strings _ = None"

record 'v detail_dto =
  dd_status :: detail_status
  dd_value :: "'v option"
  dd_fetched :: "int option"
  dd_expires :: "int option"
  dd_refresh :: detail_refresh

definition local_aliases :: "detail_row option \<Rightarrow> job_activity \<Rightarrow> rstr list detail_dto" where
  "local_aliases row activity =
     (case detail_parts row activity of (status, fetched, expires, refresh) \<Rightarrow>
        (case with_value status (status = DsAvailable \<or> status = DsPartial)
                (Option.bind (Option.bind row (\<lambda>r. ar_value (dr_row r))) decode_strings) of (status, v) \<Rightarrow>
          \<lparr>dd_status = status, dd_value = v, dd_fetched = fetched, dd_expires = expires, dd_refresh = refresh\<rparr>))"

datatype directory = DirPublic | DirPrivate

definition parse_directory :: "rstr \<Rightarrow> directory option" where
  "parse_directory v = (if v = lit ''public'' then Some DirPublic else if v = lit ''private'' then Some DirPrivate else None)"

definition directory_visibility :: "detail_row option \<Rightarrow> job_activity \<Rightarrow> directory detail_dto" where
  "directory_visibility row activity =
     (case detail_parts row activity of (status, fetched, expires, refresh) \<Rightarrow>
        (case with_value status (status = DsAvailable)
                (Option.bind (Option.bind (Option.bind (Option.bind row (\<lambda>r. ar_value (dr_row r)))
                   (\<lambda>v. jget v (lit ''visibility''))) as_string) parse_directory) of (status, v) \<Rightarrow>
          \<lparr>dd_status = status, dd_value = v, dd_fetched = fetched, dd_expires = expires, dd_refresh = refresh\<rparr>))"

section \<open>What an interpretation can be\<close>

lemmas ttl_defs = AVAILABLE_TTL_def CONCLUSIVE_DENIAL_TTL_def ABSENCE_TTL_def UNSUPPORTED_TTL_def ms_of_secs_def
  FAILURE_BACKOFF_MIN_MS_def FAILURE_BACKOFF_MAX_MS_def MAX_RETRY_AFTER_MS_def in_i64_def

text \<open>The answers, the retry delay and the failures \<open>interpret_reply\<close> gives, with the bounds on their times.\<close>

definition interpreted :: "detail_kind \<Rightarrow> detail_outcome \<Rightarrow> bool" where
  "interpreted kind out =
     (case out of
        Answer status v ttl \<Rightarrow> check_status (kind_str kind) status \<and> 900000 \<le> ttl \<and> ttl \<le> 86400000
      | Present retry \<Rightarrow> retry = 3600000
      | Failure category retry mn mx \<Rightarrow> category \<in> set FAILURES \<and> mn = 60000 \<and> mx = 1800000)"

lemma interpreted_failure:
  "list_ex (\<lambda>c. c = category) [''timeout'', ''server_error'', ''rate_limited'', ''transport'', ''unauthorized'', ''invalid_response'']
   \<Longrightarrow> interpreted kind (failure category retry)"
  by (auto simp: interpreted_def failure_def FAILURES_def ttl_defs)

lemma check_status_answer:
  "kind \<noteq> Absence \<Longrightarrow>
   list_ex (\<lambda>c. c = status) [''available'', ''partial'', ''too_large'', ''forbidden'', ''not_found'', ''unsupported''] \<Longrightarrow>
   check_status (kind_str kind) (lit status)"
  by (auto simp: check_status_def VALUE_STATUSES_def lit_inject)

lemma check_status_absence: "check_status (kind_str Absence) (lit ''absent'')" "check_status (kind_str kind) (lit ''forbidden'')"
  by (simp_all add: check_status_def VALUE_STATUSES_def lit_inject)

lemma interpreted_answer:
  "check_status (kind_str kind) (lit status) \<Longrightarrow> 900000 \<le> ttl \<Longrightarrow> ttl \<le> 86400000 \<Longrightarrow> interpreted kind (answer status v ttl)"
  by (simp add: interpreted_def answer_def)

lemma answer_body_interpreted: "answer_body valid kind body = Some out \<Longrightarrow> interpreted kind out"
  by (auto simp: answer_body_def Option.bind_eq_Some_conv Let_def AVAILABLE_TTL_def ms_of_secs_def in_i64_def
      intro!: interpreted_answer check_status_answer split: detail_kind.splits if_splits)

lemma interpret_interpreted: "interpreted kind (interpret_reply parse_json valid kind r)"
proof (cases r)
  case (ReplyOk body)
  have "interpreted kind (Present CONCLUSIVE_DENIAL_TTL)"
    by (simp add: interpreted_def ttl_defs)
  with ReplyOk show ?thesis
    by (auto simp: interpret_reply_def Option.bind_eq_Some_conv interpreted_failure intro: answer_body_interpreted
        split: option.splits)
next
  case (ReplyStatus status errcode retry)
  then show ?thesis
    by (auto simp: interpret_reply_def interpret_status_def ttl_defs
        intro!: interpreted_failure interpreted_answer check_status_answer check_status_absence)
qed (auto simp: interpret_reply_def interpreted_failure ttl_defs intro!: interpreted_answer check_status_answer
    split: no_answer.splits)

lemma interpreted_ok: "interpreted kind out \<Longrightarrow> outcome_ok kind out"
  by (auto simp: interpreted_def outcome_ok_def split: detail_outcome.splits)

section \<open>Backoff and refresh times\<close>

lemma sat_i64_ge: "in_i64 a \<Longrightarrow> a \<le> b \<Longrightarrow> a \<le> sat_i64 b"
  by (auto simp: sat_i64_def in_i64_def)

lemma sat_i64_le: "in_i64 a \<Longrightarrow> b \<le> a \<Longrightarrow> sat_i64 b \<le> a"
  by (auto simp: sat_i64_def in_i64_def)

lemma backoff_ms_exact:
  assumes "0 < f" "f < 2 ^ 31"
  shows "backoff_ms f 60000 1800000 = min (60000 * 2 ^ min (nat f - 1) 30) 1800000"
proof -
  have "nat (max 0 (min 30 (sat_i32 (f - 1)))) = min (nat f - 1) 30"
    using assms by (auto simp: sat_i32_def)
  moreover have fits: "sat_i64 (60000 * x) = 60000 * x" if "0 \<le> x" "x \<le> 2 ^ 30" for x
    using that by (intro sat_i64_id) (auto simp: in_i64_def)
  have "sat_i64 (60000 * 2 ^ min (nat f - 1) 30) = 60000 * 2 ^ min (nat f - 1) 30"
    by (rule fits) (simp, rule power_increasing, simp_all)
  ultimately show ?thesis
    by (simp add: backoff_ms_def Let_def)
qed

lemma backoff_ms_bounds:
  assumes "0 < f" "f < 2 ^ 31"
  shows "60000 \<le> backoff_ms f 60000 1800000" "backoff_ms f 60000 1800000 \<le> 1800000"
  using backoff_ms_exact [OF assms] by simp_all

lemma interpreted_not_due:
  assumes "interpreted kind out" "\<And>row. previous = Some row \<Longrightarrow> check_row (kind_str kind) row"
    "in_i64 (now + 60000)" "t < now + 60000"
  shows "\<not> row_due t (next_from previous out now)"
proof (cases out)
  case (Answer status v ttl)
  then have "now + 60000 \<le> sat_i64 (now + ttl)"
    using assms(1,3) by (intro sat_i64_ge) (auto simp: interpreted_def)
  then show ?thesis
    using assms(4) by (simp add: Answer row_due_def)
next
  case (Present retry)
  then have "now + 60000 \<le> sat_i64 (now + retry)"
    using assms(1,3) by (intro sat_i64_ge) (auto simp: interpreted_def)
  then show ?thesis
    using assms(4) by (simp add: Present row_due_def)
next
  case (Failure category retry mn mx)
  define f where "f = sat_i32 ((case previous of None \<Rightarrow> 0 | Some old \<Rightarrow> ar_failures old) + 1)"
  have "0 < f \<and> f < 2 ^ 31"
    unfolding f_def using assms(2) by (intro sat_i32_succ) (auto simp: check_row_def split: option.splits)
  then have "60000 \<le> backoff_ms f mn mx"
    using backoff_ms_bounds(1) [of f] assms(1) Failure by (simp add: interpreted_def)
  then have "now + 60000 \<le> sat_i64 (now + max (backoff_ms f mn mx) (case retry of None \<Rightarrow> 0 | Some r \<Rightarrow> r))"
    using assms(3) by (intro sat_i64_ge) auto
  then show ?thesis
    using assms(4) by (simp add: Failure row_due_def Let_def f_def)
qed

text \<open>A failure's retry delay comes from \<open>send\<close>, which caps it.\<close>

definition retry_capped :: "detail_outcome \<Rightarrow> bool" where
  "retry_capped out = (case out of Failure _ (Some r) _ _ \<Rightarrow> 0 \<le> r \<and> r \<le> 86400000 | _ \<Rightarrow> True)"

lemma retry_capped_simps [simp]:
  "retry_capped (answer status v ttl)" "retry_capped (Present r)" "retry_capped (failure c None)"
  "retry_capped (failure c (Some r)) \<longleftrightarrow> 0 \<le> r \<and> r \<le> 86400000"
  by (simp_all add: retry_capped_def answer_def failure_def)

lemma answer_body_capped: "answer_body valid kind body = Some out \<Longrightarrow> retry_capped out"
  by (auto simp: answer_body_def Option.bind_eq_Some_conv Let_def split: detail_kind.splits if_splits)

lemma homeserver_get_capped:
  "retry_capped (interpret_reply parse_json valid kind (fst (homeserver_get pj rfc now tok url rb exchange)))"
proof -
  define r where "r = fst (homeserver_get pj rfc now tok url rb exchange)"
  have "0 \<le> x \<and> x \<le> 86400000" if "r = ReplyStatus status errcode (Some x)" for status errcode x
    using that
    by (auto simp: r_def homeserver_get_def send_def Let_def ttl_defs
        split: if_splits option.splits http_sent.splits sum.splits body_error.splits)
  then show ?thesis
    unfolding r_def [symmetric]
    by (cases r) (auto simp: interpret_reply_def interpret_status_def Option.bind_eq_Some_conv
        intro: answer_body_capped split: option.splits no_answer.splits, (metis not_None_eq retry_capped_simps(3,4))+)
qed

lemma interpreted_due_again:
  assumes "interpreted kind out" "retry_capped out" "\<And>row. previous = Some row \<Longrightarrow> check_row (kind_str kind) row"
    "\<And>row e. previous = Some row \<Longrightarrow> ar_expires row = Some e \<Longrightarrow> e \<le> now"
    "in_i64 (now + 86400000)" "now + 86400000 \<le> t"
  shows "row_due t (next_from previous out now)"
proof (cases out)
  case (Answer status v ttl)
  then have "sat_i64 (now + ttl) \<le> now + 86400000"
    using assms(1,5) by (intro sat_i64_le) (auto simp: interpreted_def)
  then show ?thesis
    using assms(6) by (simp add: Answer row_due_def)
next
  case (Present retry)
  then have "sat_i64 (now + retry) \<le> now + 86400000"
    using assms(1,5) by (intro sat_i64_le) (auto simp: interpreted_def)
  then show ?thesis
    using assms(6) by (simp add: Present row_due_def)
next
  case (Failure category retry mn mx)
  define f where "f = sat_i32 ((case previous of None \<Rightarrow> 0 | Some old \<Rightarrow> ar_failures old) + 1)"
  have "0 < f \<and> f < 2 ^ 31"
    unfolding f_def using assms(3) by (intro sat_i32_succ) (auto simp: check_row_def split: option.splits)
  then have "backoff_ms f mn mx \<le> 1800000"
    using backoff_ms_bounds(2) [of f] assms(1) Failure by (simp add: interpreted_def)
  then have "sat_i64 (now + max (backoff_ms f mn mx) (case retry of None \<Rightarrow> 0 | Some r \<Rightarrow> r)) \<le> now + 86400000"
    using assms(2,5) by (intro sat_i64_le) (auto simp: Failure retry_capped_def split: option.splits)
  moreover have "case Option.bind previous ar_expires of None \<Rightarrow> True | Some e \<Rightarrow> e \<le> t"
    using assms(4,6) by (cases previous) (fastforce split: option.splits)+
  ultimately show ?thesis
    using assms(6) by (simp add: Failure row_due_def Let_def f_def)
qed

section \<open>Round trips\<close>

lemma map_filter_JString [simp]: "List.map_filter as_string (map JString xs) = xs"
  by (induction xs) (simp_all add: map_filter_simps)

lemma decode_strings_JString [simp]: "decode_strings (JArray (map JString xs)) = Some xs"
  by (simp add: list_all_iff)

text \<open>The row a read finds is the recorded one.\<close>

definition find_row :: "detail_kind \<Rightarrow> detail_row list \<Rightarrow> detail_row option" where
  "find_row kind rows = find (\<lambda>row. dr_kind row = kind_str kind) rows"

lemma snapshot_find:
  assumes "kind = LocalAliases \<or> kind = DirectoryVisibility" "kind \<in> set kinds"
    "db_rows db (room, kind_str kind, []) = Some row"
  shows "find_row kind (snd (room_detail_snapshot db now room kinds)) =
    Some \<lparr>dr_kind = kind_str kind, dr_type = [], dr_row = row, dr_due = row_due now row\<rparr>"
proof -
  define entry where "entry = (\<lambda>(k, t). case db_rows db (room, k, t) of
      Some row \<Rightarrow> (if k \<in> set (map kind_str kinds)
                  then [\<lparr>dr_kind = k, dr_type = t, dr_row = row, dr_due = row_due now row\<rparr>] else [])
    | None \<Rightarrow> [])"
  have snd: "snd (room_detail_snapshot db now room kinds) = concat (map entry detail_keys)"
    by (simp add: room_detail_snapshot_def entry_def)
  have other: "find (\<lambda>row. dr_kind row = k') (entry (k, t) @ rest) = find (\<lambda>row. dr_kind row = k') rest"
    if "k \<noteq> k'" for k k' t rest
    using that by (simp add: entry_def split: option.splits)
  have this_one: "entry (kind_str kind, []) = [\<lparr>dr_kind = kind_str kind, dr_type = [], dr_row = row, dr_due = row_due now row\<rparr>]"
    using assms(2,3) by (simp add: entry_def)
  show ?thesis
    using assms(1) this_one
    by (auto simp: find_row_def snd detail_keys_def other)
qed

lemma record_row:
  assumes "record_room_detail now room epoch kind t out db = (w, db')" "w \<noteq> Fenced"
  shows "db_rows db' (room, kind_str kind, t) = Some (next_from (db_rows db (room, kind_str kind, t)) out now)"
  using assms by (auto simp: record_room_detail_def Let_def split: if_splits)

lemma parse_detail_status_simps:
  "parse_detail_status (Some (lit ''available'')) = DsAvailable"
  "parse_detail_status (Some (lit ''partial'')) = DsPartial"
  by (simp_all add: parse_detail_status_def lit_inject)

lemma read_aliases:
  assumes "body = Some v" "Option.bind (jget v (lit ''aliases'')) as_array = Some aliases" "length aliases \<le> MAX_LOCAL_ALIASES"
    "parse_json bytes = body" "valid = filter valid_alias (List.map_filter as_string aliases)"
  shows "interpret_reply parse_json valid_alias LocalAliases (ReplyOk bytes) =
    answer (if length valid = length aliases then ''available'' else ''partial'') (Some (JArray (map JString valid))) AVAILABLE_TTL"
  using assms by (simp add: interpret_reply_def answer_body_def Let_def not_less)

lemma local_aliases_answer:
  assumes "ar_status (dr_row row) = Some (lit (if ok then ''available'' else ''partial''))"
    "ar_value (dr_row row) = Some (JArray (map JString xs))"
  shows "dd_status (local_aliases (Some row) activity) = (if ok then DsAvailable else DsPartial)"
    "dd_value (local_aliases (Some row) activity) = Some xs"
    "dd_fetched (local_aliases (Some row) activity) = ar_fetched (dr_row row)"
    "dd_expires (local_aliases (Some row) activity) = ar_expires (dr_row row)"
proof -
  have status: "parse_detail_status (ar_status (dr_row row)) = (if ok then DsAvailable else DsPartial)"
    using assms(1) parse_detail_status_simps by (cases ok) simp_all
  have parts: "detail_parts (Some row) activity = (if ok then DsAvailable else DsPartial, ar_fetched (dr_row row),
      ar_expires (dr_row row), refresh_new row activity (ar_next (dr_row row)))"
    by (simp add: detail_parts_def status)
  have "local_aliases (Some row) activity = \<lparr>dd_status = (if ok then DsAvailable else DsPartial), dd_value = Some xs,
      dd_fetched = ar_fetched (dr_row row), dd_expires = ar_expires (dr_row row),
      dd_refresh = refresh_new row activity (ar_next (dr_row row))\<rparr>"
    unfolding local_aliases_def parts by (simp add: with_value_def assms(2) del: decode_strings.simps)
  then show "dd_status (local_aliases (Some row) activity) = (if ok then DsAvailable else DsPartial)"
    "dd_value (local_aliases (Some row) activity) = Some xs"
    "dd_fetched (local_aliases (Some row) activity) = ar_fetched (dr_row row)"
    "dd_expires (local_aliases (Some row) activity) = ar_expires (dr_row row)"
    by simp_all
qed

section \<open>Consecutive failures\<close>

definition fail_row :: "int \<times> string \<times> int option \<Rightarrow> acq_row option \<Rightarrow> acq_row option" where
  "fail_row f previous = (case f of (now, category, retry) \<Rightarrow> Some (next_from previous (failure category retry) now))"

definition kept_value :: "acq_row option \<Rightarrow> acq_row option \<Rightarrow> bool" where
  "kept_value previous row \<longleftrightarrow> Option.bind row ar_status = Option.bind previous ar_status \<and>
     Option.bind row ar_value = Option.bind previous ar_value \<and>
     Option.bind row ar_fetched = Option.bind previous ar_fetched \<and>
     Option.bind row ar_expires = Option.bind previous ar_expires"

definition failures_of :: "acq_row option \<Rightarrow> int" where
  "failures_of row = (case row of None \<Rightarrow> 0 | Some r \<Rightarrow> ar_failures r)"

lemma fail_row_step:
  assumes "0 \<le> failures_of previous" "failures_of previous < 2 ^ 31 - 1"
  shows "failures_of (fail_row (now, category, retry) previous) = failures_of previous + 1"
    "kept_value previous (fail_row (now, category, retry) previous)"
    "Option.bind (fail_row (now, category, retry) previous) ar_next =
       Some (sat_i64 (now + max (backoff_ms (failures_of previous + 1) 60000 1800000) (case retry of None \<Rightarrow> 0 | Some r \<Rightarrow> r)))"
  using assms
  by (simp_all add: fail_row_def failure_def Let_def kept_value_def failures_of_def sat_i32_def ttl_defs split: option.splits)

lemma fail_rows_failures:
  assumes "0 \<le> failures_of previous" "failures_of previous + int (length fs) < 2 ^ 31"
  shows "failures_of (fold fail_row fs previous) = failures_of previous + int (length fs) \<and>
    kept_value previous (fold fail_row fs previous)"
  using assms
proof (induction fs arbitrary: previous)
  case (Cons f fs)
  obtain now category retry where f: "f = (now, category, retry)"
    by (cases f)
  have step: "failures_of (fail_row f previous) = failures_of previous + 1" "kept_value previous (fail_row f previous)"
    using fail_row_step(1,2) [of previous now category retry] Cons.prems by (simp_all add: f)
  have "failures_of (fold fail_row fs (fail_row f previous)) = failures_of (fail_row f previous) + int (length fs) \<and>
      kept_value (fail_row f previous) (fold fail_row fs (fail_row f previous))"
    by (rule Cons.IH) (use step(1) Cons.prems in simp_all)
  then show ?case
    using step by (auto simp: kept_value_def)
qed (simp add: kept_value_def)

section \<open>Properties\<close>

text \<open>C24: Whatever the homeserver replies, what is recorded of it is well typed: the row passes every check
  of the table (status and failure from their lists, a confirmation only in an absence row, times and
  counts in range and set together), so recording an outcome cannot fail on a constraint.\<close>

theorem detail_reply_recordable:
  assumes "in_i64 now" "\<And>row. previous = Some row \<Longrightarrow> check_row (kind_str kind) row"
  shows "check_row (kind_str kind) (next_from previous (interpret_reply parse_json valid_alias kind r) now)"
  by (rule check_row_next [OF interpreted_ok [OF interpret_interpreted] assms])

theorem detail_reply_recordable_witness:
  "check_row (kind_str Absence) (next_from None (interpret_reply (\<lambda>_. None) (\<lambda>_. True) Absence (ReplyStatus 404 (Some (lit ''M_NOT_FOUND'')) None)) 5)"
  by (rule detail_reply_recordable) (simp_all add: in_i64_def)

text \<open>After any exchange with the homeserver, successful or not, the detail is not asked for again for a
  minute, and is due again after a day at the latest, whatever \<^verbatim>\<open>Retry-After\<close> says.\<close>

theorem detail_refresh_window:
  assumes "in_i64 (now + 60000)" "in_i64 (now + 86400000)"
    "\<And>row. previous = Some row \<Longrightarrow> check_row (kind_str kind) row \<and> row_due now row"
    "r = fst (homeserver_get pj rfc2822 clock has_token has_url read_body exchange)"
  shows "(t < now + 60000 \<longrightarrow> \<not> row_due t (next_from previous (interpret_reply parse_json valid_alias kind r) now)) \<and>
    (now + 86400000 \<le> t \<longrightarrow> row_due t (next_from previous (interpret_reply parse_json valid_alias kind r) now))"
proof -
  have "e \<le> now" if "previous = Some row" "ar_expires row = Some e" for row e
    using assms(3) that by (auto simp: row_due_def)
  then show ?thesis
    using interpreted_not_due [OF interpret_interpreted] interpreted_due_again [OF interpret_interpreted homeserver_get_capped] assms
    by metis
qed

theorem detail_refresh_window_witness:
  "\<not> row_due 60999 (next_from None (interpret_reply (\<lambda>_. None) (\<lambda>_. True) LocalAliases (ReplyFailed NaTimeout)) 1000) \<and>
   row_due 86401000 (next_from None (interpret_reply (\<lambda>_. None) (\<lambda>_. True) LocalAliases (ReplyFailed NaTimeout)) 1000)"
  using detail_refresh_window [of 1000 None LocalAliases "ReplyFailed NaTimeout" "\<lambda>_. None" "\<lambda>_. None" 0 True True True None
      60999 "\<lambda>_. None" "\<lambda>_. True"]
    detail_refresh_window [of 1000 None LocalAliases "ReplyFailed NaTimeout" "\<lambda>_. None" "\<lambda>_. None" 0 True True True None
      86401000 "\<lambda>_. None" "\<lambda>_. True"]
  by (simp add: in_i64_def homeserver_get_def)

text \<open>Consecutive failures back off by a minute, doubling each time up to half an hour, never sooner
  than the homeserver asked, and leave the last answer and its expiry in place.\<close>

theorem detail_backoff_doubles:
  assumes "failures_of previous = 0" "length fs < 2 ^ 31 - 1"
  shows "failures_of (fold fail_row (fs @ [(now, category, retry)]) previous) = int (length fs) + 1 \<and>
    kept_value previous (fold fail_row (fs @ [(now, category, retry)]) previous) \<and>
    Option.bind (fold fail_row (fs @ [(now, category, retry)]) previous) ar_next =
      Some (sat_i64 (now + max (min (60000 * 2 ^ min (length fs) 30) 1800000) (case retry of None \<Rightarrow> 0 | Some r \<Rightarrow> r)))"
proof -
  let ?p = "fold fail_row fs previous"
  have p: "failures_of ?p = int (length fs)" "kept_value previous ?p"
    using fail_rows_failures [of previous fs] assms by auto
  have step: "failures_of (fail_row (now, category, retry) ?p) = failures_of ?p + 1"
    "kept_value ?p (fail_row (now, category, retry) ?p)"
    "Option.bind (fail_row (now, category, retry) ?p) ar_next =
       Some (sat_i64 (now + max (backoff_ms (failures_of ?p + 1) 60000 1800000) (case retry of None \<Rightarrow> 0 | Some r \<Rightarrow> r)))"
    using fail_row_step [of ?p now category retry] p(1) assms(2) by auto
  have "backoff_ms (failures_of ?p + 1) 60000 1800000 = min (60000 * 2 ^ min (length fs) 30) 1800000"
    using backoff_ms_exact [of "failures_of ?p + 1"] p(1) assms(2) by (simp add: nat_add_distrib)
  then show ?thesis
    using p step by (auto simp: kept_value_def)
qed

theorem detail_backoff_doubles_witness:
  "Option.bind (fold fail_row ([(0, ''timeout'', None), (100000, ''timeout'', None)] @ [(300000, ''timeout'', Some 5)]) None) ar_next =
     Some 540000"
  using detail_backoff_doubles [of None "[(0, ''timeout'', None), (100000, ''timeout'', None)]" 300000 "''timeout''" "Some 5"]
  by (simp add: failures_of_def sat_i64_def)

text \<open>The aliases a homeserver lists are the aliases a client reads. When it answers with at most 256
  entries, and the account is still joined, a read after the answer is recorded serves exactly the
  valid ones in order, \<open>available\<close> if all are and \<open>partial\<close> otherwise, fetched then and fresh for fifteen
  minutes.\<close>

theorem detail_aliases_served:
  assumes "parse_json bytes = Some v" "Option.bind (jget v (lit ''aliases'')) as_array = Some aliases"
    "length aliases \<le> MAX_LOCAL_ALIASES" "joined_epoch db room = Some epoch" "in_i64 (now + 900000)"
    "valid = filter valid_alias (List.map_filter as_string aliases)"
    "record_room_detail now room epoch LocalAliases [] (interpret_reply parse_json valid_alias LocalAliases (ReplyOk bytes)) db = (w, db')"
    "dto = local_aliases (find_row LocalAliases (snd (room_detail_snapshot db' later room [LocalAliases, DirectoryVisibility]))) activity"
  shows "w \<noteq> Fenced \<and> dd_value dto = Some valid \<and>
    dd_status dto = (if length valid = length aliases then DsAvailable else DsPartial) \<and>
    dd_fetched dto = Some now \<and> dd_expires dto = Some (now + 900000)"
proof -
  let ?ok = "length valid = length aliases"
  have out: "interpret_reply parse_json valid_alias LocalAliases (ReplyOk bytes) =
      answer (if ?ok then ''available'' else ''partial'') (Some (JArray (map JString valid))) AVAILABLE_TTL"
    using assms(1-3,6) by (intro read_aliases) simp_all
  have w: "w \<noteq> Fenced"
    using assms(4,7) by (auto simp: out record_room_detail_def confirms_absence_def answer_def lit_inject Let_def split: if_splits)
  note row = record_row [OF assms(7) w, unfolded out answer_def, simplified]
  have sat: "sat_i64 (now + AVAILABLE_TTL) = now + 900000"
    using assms(5) by (simp add: sat_i64_id AVAILABLE_TTL_def ms_of_secs_def) (simp add: in_i64_def sat_i64_def)
  show ?thesis
    using w snapshot_find [OF _ _ row, of "[LocalAliases, DirectoryVisibility]" later]
      local_aliases_answer [where ok = ?ok and xs = valid and activity = activity]
    by (simp add: assms(8) sat)
qed

definition demo_json :: "nat list \<Rightarrow> json_value option" where
  "demo_json bytes = Some (JObject [(lit ''aliases'', JArray [JString (lit ''#a:x''), JNumber 3])])"

theorem detail_aliases_served_witness:
  "dd_value (local_aliases (find_row LocalAliases (snd (room_detail_snapshot
     (snd (record_room_detail 7 demo_room 0 LocalAliases [] (interpret_reply demo_json (\<lambda>_. True) LocalAliases (ReplyOk [])) demo_db))
     9 demo_room [LocalAliases, DirectoryVisibility]))) JobIdle) = Some [lit ''#a:x'']"
  using detail_aliases_served [of demo_json "[]" _ "[JString (lit ''#a:x''), JNumber 3]" demo_db demo_room 0 7 "[lit ''#a:x'']" "\<lambda>_. True"
      "fst (record_room_detail 7 demo_room 0 LocalAliases [] (interpret_reply demo_json (\<lambda>_. True) LocalAliases (ReplyOk [])) demo_db)"
      "snd (record_room_detail 7 demo_room 0 LocalAliases [] (interpret_reply demo_json (\<lambda>_. True) LocalAliases (ReplyOk [])) demo_db)"
      _ 9 JobIdle]
  by (simp add: demo_json_def jget_def MAX_LOCAL_ALIASES_def in_i64_def map_filter_simps demo_db_def joined_epoch_def
      member_joined_def demo_member_def)

end
