(* ===== verification/Detail_Changes.thy ===== *)
theory Detail_Changes
  imports Axon_Prelude
begin

text \<open>
  Coalesced \<^verbatim>\<open>room_details.changed\<close> frames: \<^verbatim>\<open>crates/axon-sync/src/room_details.rs\<close>.

  \<^item> The pending map is an association list with distinct rooms; nothing depends on its order, which
    in the code is that of a \<^verbatim>\<open>HashMap\<close>.
  \<^item> \<open>detail_step\<close> is the whole system: any number of producers, the flusher and the clock. The lock
    makes the first half of \<^verbatim>\<open>mark\<close> atomic; what the producer does after releasing it (publish a batch,
    or wake the flusher) is an entry of \<open>dt_owed\<close> that a later step carries out, so every
    interleaving of the two halves is a run.
  \<^item> Time is part of the state. \<open>lat\<close> is the longest a thread or task that can run waits to be
    scheduled: the clock does not pass the deadline of a step that is due. Timers fire at or after
    their time, and \<open>lat\<close> covers their granularity.
  \<^item> \<open>dt_log\<close> is the history of marks and frames, newest first; no step reads it.
\<close>

section \<open>Pending marks\<close>

datatype detail_source = Metadata | MemberCounts | HomeserverDetails

type_synonym detail_rooms = "(rstr \<times> detail_source set) list"

definition QUIET :: duration where
  "QUIET = 100 * 1000000"

definition MAX_DELAY :: duration where
  "MAX_DELAY = from_secs 1"

definition MAX_PENDING_ROOMS :: nat where
  "MAX_PENDING_ROOMS = 256"

record detail_pending =
  dp_rooms :: detail_rooms
  dp_marks :: nat
  dp_closed :: bool

fun rooms_insert :: "rstr \<Rightarrow> detail_source \<Rightarrow> detail_rooms \<Rightarrow> detail_rooms" where
  "rooms_insert room src [] = [(room, {src})]"
| "rooms_insert room src ((r, ss) # rooms) =
     (if r = room then (r, insert src ss) # rooms else (r, ss) # rooms_insert room src rooms)"

text \<open>What \<^verbatim>\<open>mark\<close> does under the lock: the pending state, whether to wake the flusher, and the rooms
  to publish. \<^verbatim>\<open>marks\<close> wraps at \<^verbatim>\<open>u64\<close>.\<close>

definition mark_locked ::
  "rstr \<Rightarrow> detail_source \<Rightarrow> detail_pending \<Rightarrow> detail_pending \<times> bool \<times> detail_rooms option"
where
  "mark_locked room src p =
     (let wake = (dp_rooms p = []);
          rooms = rooms_insert room src (dp_rooms p);
          publish = (dp_closed p \<or> MAX_PENDING_ROOMS \<le> length rooms)
      in (p\<lparr>dp_rooms := (if publish then [] else rooms), dp_marks := (dp_marks p + 1) mod 2 ^ 64\<rparr>,
          wake, if publish then Some rooms else None))"

text \<open>\<^verbatim>\<open>flush\<close> and \<^verbatim>\<open>close\<close> under the lock: the state, and the rooms to publish.\<close>

definition flush_locked :: "detail_pending \<Rightarrow> detail_pending \<times> detail_rooms" where
  "flush_locked p = (p\<lparr>dp_rooms := []\<rparr>, dp_rooms p)"

definition close_locked :: "detail_pending \<Rightarrow> detail_pending \<times> detail_rooms" where
  "close_locked p = (p\<lparr>dp_rooms := [], dp_closed := True\<rparr>, dp_rooms p)"

section \<open>Producers and flusher\<close>

datatype detail_event =
    EvMark rstr detail_source instant
  | EvFrame rstr "detail_source set" instant

text \<open>Where the flusher is: waiting to be woken, sleeping out the quiet period (when it was woken, the
  marks it has seen, and when the sleep ends), publishing (and whether it then stops), or stopped.\<close>

datatype flusher =
    FWait
  | FQuiet instant nat instant
  | FPublish detail_rooms bool
  | FDone

text \<open>What a producer still has to do, and by when.\<close>

datatype owed = OwedWake instant | OwedPublish detail_rooms instant

primrec owed_due :: "owed \<Rightarrow> instant" where
  "owed_due (OwedWake d) = d"
| "owed_due (OwedPublish _ d) = d"

record detail_system =
  dt_now :: instant
  dt_pending :: detail_pending
  dt_permit :: bool
  dt_cancelled :: bool
  dt_flusher :: flusher
  dt_due :: "instant option"
  dt_owed :: "owed list"
  dt_log :: "detail_event list"

definition detail_boot :: "instant \<Rightarrow> detail_system" where
  "detail_boot now = \<lparr>dt_now = now, dt_pending = \<lparr>dp_rooms = [], dp_marks = 0, dp_closed = False\<rparr>,
     dt_permit = False, dt_cancelled = False, dt_flusher = FWait, dt_due = None, dt_owed = [], dt_log = []\<rparr>"

definition publish_log :: "instant \<Rightarrow> detail_rooms \<Rightarrow> detail_event list \<Rightarrow> detail_event list" where
  "publish_log now rooms l = fold (\<lambda>(room, ss). (#) (EvFrame room ss now)) rooms l"

definition detail_mark :: "duration \<Rightarrow> rstr \<Rightarrow> detail_source \<Rightarrow> detail_system \<Rightarrow> detail_system" where
  "detail_mark lat room src s =
     (case mark_locked room src (dt_pending s) of (p, wake, publish) \<Rightarrow>
        let due = dt_now s + lat;
            todo = (case publish of
                      Some rooms \<Rightarrow> [OwedPublish rooms due]
                    | None \<Rightarrow> if wake then [OwedWake due] else [])
        in s\<lparr>dt_pending := p, dt_owed := dt_owed s @ todo,
             dt_log := EvMark room src (dt_now s) # dt_log s\<rparr>)"

text \<open>The flusher may run within \<open>lat\<close> from now, or sooner if it is due sooner.\<close>

definition hasten :: "duration \<Rightarrow> detail_system \<Rightarrow> detail_system" where
  "hasten lat s = s\<lparr>dt_due := Some (case dt_due s of None \<Rightarrow> dt_now s + lat | Some d \<Rightarrow> min d (dt_now s + lat))\<rparr>"

fun detail_owed :: "duration \<Rightarrow> owed \<Rightarrow> detail_system \<Rightarrow> detail_system" where
  "detail_owed lat (OwedWake _) s =
     (let s' = s\<lparr>dt_permit := True\<rparr> in if dt_flusher s = FWait then hasten lat s' else s')"
| "detail_owed lat (OwedPublish rooms _) s = s\<lparr>dt_log := publish_log (dt_now s) rooms (dt_log s)\<rparr>"

text \<open>\<^verbatim>\<open>wait = QUIET.min(MAX_DELAY.saturating_sub(first.elapsed()))\<close>.\<close>

definition go_quiet :: "duration \<Rightarrow> instant \<Rightarrow> detail_system \<Rightarrow> detail_system" where
  "go_quiet lat first s =
     (let until = dt_now s + min QUIET (MAX_DELAY - saturating_duration_since (dt_now s) first)
      in s\<lparr>dt_flusher := FQuiet first (dp_marks (dt_pending s)) until, dt_due := Some (until + lat)\<rparr>)"

definition go_close :: "duration \<Rightarrow> detail_system \<Rightarrow> detail_system" where
  "go_close lat s =
     (case close_locked (dt_pending s) of (p, rooms) \<Rightarrow>
        s\<lparr>dt_pending := p, dt_flusher := FPublish rooms True, dt_due := Some (dt_now s + lat)\<rparr>)"

definition go_flush :: "duration \<Rightarrow> detail_system \<Rightarrow> detail_system" where
  "go_flush lat s =
     (case flush_locked (dt_pending s) of (p, rooms) \<Rightarrow>
        s\<lparr>dt_pending := p, dt_flusher := FPublish rooms False, dt_due := Some (dt_now s + lat)\<rparr>)"

definition flusher_step :: "duration \<Rightarrow> detail_system \<Rightarrow> detail_system option" where
  "flusher_step lat s =
     (case dt_flusher s of
        FWait \<Rightarrow>
          (if dt_cancelled s then Some (go_close lat s)
           else if dt_permit s then Some (go_quiet lat (dt_now s) (s\<lparr>dt_permit := False\<rparr>))
           else None)
      | FQuiet first seen until \<Rightarrow>
          (if dt_cancelled s then Some (go_close lat s)
           else if dt_now s < until then None
           else if dp_marks (dt_pending s) = seen \<or> MAX_DELAY \<le> saturating_duration_since (dt_now s) first
           then Some (go_flush lat s)
           else Some (go_quiet lat first s))
      | FPublish rooms closing \<Rightarrow>
          Some (s\<lparr>dt_log := publish_log (dt_now s) rooms (dt_log s),
                  dt_flusher := (if closing then FDone else FWait),
                  dt_due := (if \<not> closing \<and> (dt_permit s \<or> dt_cancelled s) then Some (dt_now s + lat) else None)\<rparr>)
      | FDone \<Rightarrow> None)"

datatype detail_act =
    ActMark rstr detail_source
  | ActOwed nat
  | ActFlusher
  | ActCancel
  | ActTick duration

fun detail_step :: "duration \<Rightarrow> detail_act \<Rightarrow> detail_system \<Rightarrow> detail_system option" where
  "detail_step lat (ActMark room src) s = Some (detail_mark lat room src s)"
| "detail_step lat (ActOwed i) s =
     (if i < length (dt_owed s)
      then Some (detail_owed lat (dt_owed s ! i) (s\<lparr>dt_owed := take i (dt_owed s) @ drop (Suc i) (dt_owed s)\<rparr>))
      else None)"
| "detail_step lat ActFlusher s = flusher_step lat s"
| "detail_step lat ActCancel s =
     (let s' = s\<lparr>dt_cancelled := True\<rparr>
      in Some (case dt_flusher s of FWait \<Rightarrow> hasten lat s' | FQuiet _ _ _ \<Rightarrow> hasten lat s' | _ \<Rightarrow> s'))"
| "detail_step lat (ActTick d) s =
     (if (\<forall>o' \<in> set (dt_owed s). dt_now s + d \<le> owed_due o') \<and>
         (case dt_due s of None \<Rightarrow> True | Some due \<Rightarrow> dt_now s + d \<le> due)
      then Some (s\<lparr>dt_now := dt_now s + d\<rparr>) else None)"

fun detail_run :: "duration \<Rightarrow> detail_act list \<Rightarrow> detail_system \<Rightarrow> detail_system option" where
  "detail_run lat [] s = Some s"
| "detail_run lat (a # acts) s = Option.bind (detail_step lat a s) (detail_run lat acts)"

section \<open>Where a mark is\<close>

text \<open>The marks with no later frame for their room and source.\<close>

fun open_marks :: "detail_event list \<Rightarrow> (rstr \<times> detail_source \<times> instant) list" where
  "open_marks [] = []"
| "open_marks (EvMark room src t # l) = (room, src, t) # open_marks l"
| "open_marks (EvFrame room ss t # l) = filter (\<lambda>(r, src, _). \<not> (r = room \<and> src \<in> ss)) (open_marks l)"

definition covers :: "detail_rooms \<Rightarrow> rstr \<Rightarrow> detail_source \<Rightarrow> bool" where
  "covers rooms room src \<longleftrightarrow> (\<exists>ss. (room, ss) \<in> set rooms \<and> src \<in> ss)"

lemma covers_Nil [simp]: "\<not> covers [] room src"
  by (simp add: covers_def)

lemma covers_Cons [simp]: "covers ((r, ss) # rooms) room src \<longleftrightarrow> r = room \<and> src \<in> ss \<or> covers rooms room src"
  by (auto simp: covers_def)

lemma covers_rooms_insert [simp]:
  "covers (rooms_insert room src rooms) r x \<longleftrightarrow> r = room \<and> x = src \<or> covers rooms r x"
  by (induction rooms) (auto split: prod.splits if_splits)

lemma rooms_insert_not_Nil [simp]: "rooms_insert room src rooms \<noteq> []"
  by (cases rooms) (auto split: if_splits)

lemma publish_log_Nil [simp]: "publish_log now [] l = l"
  by (simp add: publish_log_def)

lemma publish_log_Cons [simp]:
  "publish_log now ((room, ss) # rooms) l = publish_log now rooms (EvFrame room ss now # l)"
  by (simp add: publish_log_def)

lemma set_open_publish:
  "set (open_marks (publish_log now rooms l)) = {(r, src, t) \<in> set (open_marks l). \<not> covers rooms r src}"
  by (induction rooms arbitrary: l) (auto split: prod.splits)

text \<open>\<open>delivered b l\<close>: every mark of the log is open, or has a later frame at most \<open>b\<close> after it.\<close>

definition framed :: "duration \<Rightarrow> detail_event list \<Rightarrow> rstr \<Rightarrow> detail_source \<Rightarrow> instant \<Rightarrow> bool" where
  "framed b l room src t \<longleftrightarrow> (\<exists>ss t'. EvFrame room ss t' \<in> set l \<and> src \<in> ss \<and> t' \<le> t + b)"

definition delivered :: "duration \<Rightarrow> detail_event list \<Rightarrow> bool" where
  "delivered b l \<longleftrightarrow> (\<forall>post room src t pre. l = post @ EvMark room src t # pre \<longrightarrow>
     framed b post room src t \<or> (room, src, t) \<in> set (open_marks l))"

lemma framed_Cons: "framed b l room src t \<Longrightarrow> framed b (e # l) room src t"
  by (auto simp: framed_def)

lemma delivered_mark: "delivered b l \<Longrightarrow> delivered b (EvMark room src t # l)"
  by (fastforce simp: delivered_def Cons_eq_append_conv intro: framed_Cons)

lemma delivered_frame:
  assumes "delivered b l" "\<And>r src t. (r, src, t) \<in> set (open_marks l) \<Longrightarrow> now \<le> t + b"
  shows "delivered b (EvFrame room ss now # l)"
  unfolding delivered_def
proof (intro allI impI)
  fix post r src t pre
  assume "EvFrame room ss now # l = post @ EvMark r src t # pre"
  then obtain post' where split: "post = EvFrame room ss now # post'" "l = post' @ EvMark r src t # pre"
    by (auto simp: Cons_eq_append_conv)
  consider "framed b post' r src t" | "(r, src, t) \<in> set (open_marks l)"
    using assms(1) split(2) unfolding delivered_def by blast
  then show "framed b post r src t \<or> (r, src, t) \<in> set (open_marks (EvFrame room ss now # l))"
  proof cases
    case 1
    then show ?thesis
      by (simp add: split(1) framed_Cons)
  next
    case 2
    then show ?thesis
      using assms(2) [OF 2] by (auto simp: split(1) framed_def)
  qed
qed

lemma delivered_publish:
  assumes "delivered b l" "\<And>r src t. (r, src, t) \<in> set (open_marks l) \<Longrightarrow> now \<le> t + b"
  shows "delivered b (publish_log now rooms l)"
  using assms
proof (induction rooms arbitrary: l)
  case (Cons entry rooms)
  obtain room ss where entry: "entry = (room, ss)"
    by fastforce
  have "delivered b (publish_log now rooms (EvFrame room ss now # l))"
    by (rule Cons.IH) (use Cons.prems in \<open>auto intro: delivered_frame\<close>)
  then show ?case
    by (simp add: entry)
qed simp

section \<open>The invariant\<close>

text \<open>The longest a mark waits for its frame.\<close>

definition detail_bound :: "duration \<Rightarrow> duration" where
  "detail_bound lat = MAX_DELAY + 4 * lat"

text \<open>When the flusher's next step is due.\<close>

definition flusher_timed :: "duration \<Rightarrow> detail_system \<Rightarrow> bool" where
  "flusher_timed lat s \<longleftrightarrow>
     (\<forall>d. dt_due s = Some d \<longrightarrow> dt_now s \<le> d) \<and>
     (case dt_flusher s of
        FWait \<Rightarrow> (dt_due s = None \<longleftrightarrow> \<not> dt_permit s \<and> \<not> dt_cancelled s) \<and> (\<forall>d. dt_due s = Some d \<longrightarrow> d \<le> dt_now s + lat)
          \<and> \<not> dp_closed (dt_pending s)
      | FQuiet first seen until \<Rightarrow> (\<exists>d. dt_due s = Some d \<and> d \<le> until + lat \<and> (dt_cancelled s \<or> until \<le> d))
          \<and> until \<le> first + MAX_DELAY \<and> first \<le> dt_now s \<and> \<not> dp_closed (dt_pending s)
      | FPublish rooms closing \<Rightarrow> (\<exists>d. dt_due s = Some d \<and> d \<le> dt_now s + lat) \<and> dp_closed (dt_pending s) = closing
      | FDone \<Rightarrow> dt_due s = None \<and> dp_closed (dt_pending s)) \<and>
     (dp_closed (dt_pending s) \<longrightarrow> dp_rooms (dt_pending s) = [])"

text \<open>Rooms are pending since \<open>a\<close>: the flusher is sleeping the quiet period, or is about to be woken.\<close>

definition waking :: "duration \<Rightarrow> instant \<Rightarrow> detail_system \<Rightarrow> bool" where
  "waking lat a s \<longleftrightarrow> (\<exists>e. OwedWake e \<in> set (dt_owed s) \<and> e \<le> a + lat)"

definition awake :: "duration \<Rightarrow> instant \<Rightarrow> detail_system \<Rightarrow> bool" where
  "awake lat a s \<longleftrightarrow>
     a \<le> dt_now s \<and>
     (dp_rooms (dt_pending s) \<noteq> [] \<longrightarrow>
       (case dt_flusher s of
          FWait \<Rightarrow> waking lat a s \<or> (\<exists>d. dt_due s = Some d \<and> d \<le> a + 2 * lat)
        | FQuiet first seen until \<Rightarrow> first \<le> a + 2 * lat
        | FPublish rooms closing \<Rightarrow> (\<exists>d. dt_due s = Some d \<and> d \<le> a + lat) \<and> (waking lat a s \<or> dt_permit s)
        | FDone \<Rightarrow> False))"

text \<open>An open mark is pending, or in a batch that is about to be published.\<close>

definition placed :: "duration \<Rightarrow> instant \<Rightarrow> detail_system \<Rightarrow> rstr \<Rightarrow> detail_source \<Rightarrow> instant \<Rightarrow> bool" where
  "placed lat a s room src t \<longleftrightarrow>
     covers (dp_rooms (dt_pending s)) room src \<and> a \<le> t \<or>
     (\<exists>rooms d. OwedPublish rooms d \<in> set (dt_owed s) \<and> covers rooms room src \<and> d \<le> t + detail_bound lat) \<or>
     (\<exists>rooms closing d. dt_flusher s = FPublish rooms closing \<and> dt_due s = Some d \<and> covers rooms room src \<and>
        d \<le> t + detail_bound lat)"

lemma placed_owedI:
  "OwedPublish rooms d \<in> set (dt_owed s) \<Longrightarrow> covers rooms room src \<Longrightarrow> d \<le> t + detail_bound lat \<Longrightarrow>
   placed lat a s room src t"
  unfolding placed_def by blast

definition detail_at :: "duration \<Rightarrow> instant \<Rightarrow> detail_system \<Rightarrow> bool" where
  "detail_at lat a s \<longleftrightarrow>
     flusher_timed lat s \<and> (\<forall>x \<in> set (dt_owed s). dt_now s \<le> owed_due x) \<and>
     delivered (detail_bound lat) (dt_log s) \<and> awake lat a s \<and>
     (\<forall>room src t. (room, src, t) \<in> set (open_marks (dt_log s)) \<longrightarrow> placed lat a s room src t)"

definition detail_inv :: "duration \<Rightarrow> detail_system \<Rightarrow> bool" where
  "detail_inv lat s \<longleftrightarrow> (\<exists>a. detail_at lat a s)"

lemma pending_age:
  assumes "flusher_timed lat s" "awake lat a s" "\<forall>x \<in> set (dt_owed s). dt_now s \<le> owed_due x"
    "dp_rooms (dt_pending s) \<noteq> []"
  shows "dt_now s \<le> a + MAX_DELAY + 3 * lat"
proof (cases "dt_flusher s")
  case FWait
  then show ?thesis
    using assms by (fastforce simp: flusher_timed_def awake_def waking_def)
qed (use assms in \<open>force simp: flusher_timed_def awake_def\<close>)+

lemma open_age:
  assumes "flusher_timed lat s" "awake lat a s" "\<forall>x \<in> set (dt_owed s). dt_now s \<le> owed_due x"
    "placed lat a s room src t"
  shows "dt_now s \<le> t + detail_bound lat"
proof (cases "covers (dp_rooms (dt_pending s)) room src \<and> a \<le> t")
  case True
  then have "dp_rooms (dt_pending s) \<noteq> []"
    by auto
  then show ?thesis
    using pending_age [OF assms(1-3)] True by (simp add: detail_bound_def)
next
  case False
  then show ?thesis
    using assms by (fastforce simp: placed_def flusher_timed_def)
qed

lemma detail_atD:
  assumes "detail_at lat a s"
  shows "flusher_timed lat s" "x \<in> set (dt_owed s) \<Longrightarrow> dt_now s \<le> owed_due x"
    "delivered (detail_bound lat) (dt_log s)" "awake lat a s"
    "(room, src, t) \<in> set (open_marks (dt_log s)) \<Longrightarrow> placed lat a s room src t"
    "(room, src, t) \<in> set (open_marks (dt_log s)) \<Longrightarrow> dt_now s \<le> t + detail_bound lat"
    "dp_rooms (dt_pending s) \<noteq> [] \<Longrightarrow> dt_now s \<le> a + MAX_DELAY + 3 * lat"
  using assms open_age pending_age unfolding detail_at_def by blast+

lemma detail_invI:
  assumes "flusher_timed lat s" "\<And>x. x \<in> set (dt_owed s) \<Longrightarrow> dt_now s \<le> owed_due x"
    "delivered (detail_bound lat) (dt_log s)" "awake lat a s"
    "\<And>room src t. (room, src, t) \<in> set (open_marks (dt_log s)) \<Longrightarrow> placed lat a s room src t"
  shows "detail_inv lat s"
  using assms unfolding detail_inv_def detail_at_def by blast

lemma boot_inv: "detail_inv lat (detail_boot now)"
  by (rule detail_invI [of _ _ now])
    (simp_all add: detail_boot_def flusher_timed_def delivered_def awake_def)

section \<open>Every step keeps the invariant\<close>

lemma flusher_timed_mark:
  assumes "flusher_timed lat s"
  shows "flusher_timed lat (detail_mark lat room src s)"
  using assms
  by (auto simp: flusher_timed_def detail_mark_def mark_locked_def Let_def split: flusher.splits)

lemma waking_mono: "waking lat a s \<Longrightarrow> set (dt_owed s) \<subseteq> set (dt_owed s') \<Longrightarrow> waking lat a s'"
  by (auto simp: waking_def)

lemma awake_mark_first:
  assumes "flusher_timed lat s" "dp_rooms (dt_pending s) = []"
  shows "awake lat (dt_now s) (detail_mark lat room src s)"
  using assms
  by (auto simp: awake_def flusher_timed_def waking_def detail_mark_def mark_locked_def Let_def
      split: flusher.splits option.splits)

lemma awake_mark_later:
  assumes "awake lat a s" "dp_rooms (dt_pending s) \<noteq> []"
  shows "awake lat a (detail_mark lat room src s)"
  using assms
  by (auto simp: awake_def waking_def detail_mark_def mark_locked_def Let_def split: flusher.splits)

lemma placed_mark:
  assumes "placed lat a s r x t" "dp_rooms (dt_pending s) \<noteq> [] \<Longrightarrow> dt_now s \<le> a + MAX_DELAY + 3 * lat"
  shows "placed lat (if dp_rooms (dt_pending s) = [] then b else a) (detail_mark lat room src s) r x t"
proof (cases "covers (dp_rooms (dt_pending s)) r x \<and> a \<le> t")
  case True
  then have "dp_rooms (dt_pending s) \<noteq> []"
    by auto
  then show ?thesis
    using True assms(2)
    by (fastforce simp: placed_def detail_mark_def mark_locked_def Let_def detail_bound_def)
next
  case False
  then show ?thesis
    using assms(1) by (fastforce simp: placed_def detail_mark_def mark_locked_def Let_def)
qed

lemma placed_new_mark:
  assumes "a \<le> dt_now s"
  shows "placed lat a (detail_mark lat room src s) room src (dt_now s)"
proof (cases "dp_closed (dt_pending s) \<or> MAX_PENDING_ROOMS \<le> length (rooms_insert room src (dp_rooms (dt_pending s)))")
  case True
  then show ?thesis
    by (intro placed_owedI [of "rooms_insert room src (dp_rooms (dt_pending s))" "dt_now s + lat"])
      (simp_all add: detail_mark_def mark_locked_def Let_def detail_bound_def)
next
  case False
  then show ?thesis
    using assms by (simp add: placed_def detail_mark_def mark_locked_def Let_def)
qed

lemma mark_inv:
  assumes "detail_inv lat s"
  shows "detail_inv lat (detail_mark lat room src s)"
proof -
  from assms obtain a where "detail_at lat a s"
    unfolding detail_inv_def ..
  note inv = detail_atD [OF this]
  let ?s = "detail_mark lat room src s"
  let ?a = "if dp_rooms (dt_pending s) = [] then dt_now s else a"
  have same: "dt_now ?s = dt_now s" "dt_log ?s = EvMark room src (dt_now s) # dt_log s"
    by (simp_all add: detail_mark_def mark_locked_def Let_def)
  show ?thesis
  proof (rule detail_invI)
    show "flusher_timed lat ?s"
      by (rule flusher_timed_mark [OF inv(1)])
    show "dt_now ?s \<le> owed_due x" if "x \<in> set (dt_owed ?s)" for x
      using that inv(2)
      by (auto simp: detail_mark_def mark_locked_def Let_def split: if_splits)
    show "delivered (detail_bound lat) (dt_log ?s)"
      unfolding same by (rule delivered_mark [OF inv(3)])
    show "awake lat ?a ?s"
      using awake_mark_first [OF inv(1)] awake_mark_later [OF inv(4)] by simp
    have "?a \<le> dt_now s"
      using inv(4) by (simp add: awake_def)
    then show "placed lat ?a ?s r x t" if "(r, x, t) \<in> set (open_marks (dt_log ?s))" for r x t
      using that placed_new_mark placed_mark [OF inv(5) inv(7)] by (auto simp: same)
  qed
qed

text \<open>A producer's second half.\<close>

lemma set_remove_nth: "i < length xs \<Longrightarrow> set xs = insert (xs ! i) (set (take i xs @ drop (Suc i) xs))"
  by (metis id_take_nth_drop list.simps(15) set_append Un_insert_right)

lemma wake_inv:
  assumes "detail_inv lat s" "set (dt_owed s) = insert (OwedWake e) (set rest)"
  shows "detail_inv lat (detail_owed lat (OwedWake e) (s\<lparr>dt_owed := rest\<rparr>))"
proof -
  from assms(1) obtain a where "detail_at lat a s"
    unfolding detail_inv_def ..
  note inv = detail_atD [OF this]
  let ?s = "detail_owed lat (OwedWake e) (s\<lparr>dt_owed := rest\<rparr>)"
  have soon: "dt_now s \<le> e"
    using inv(2) [of "OwedWake e"] assms(2) by simp
  show ?thesis
  proof (rule detail_invI)
    show "flusher_timed lat ?s"
      using inv(1) by (auto simp: flusher_timed_def hasten_def Let_def split: flusher.splits option.splits)
    show "dt_now ?s \<le> owed_due x" if "x \<in> set (dt_owed ?s)" for x
      using that inv(2) [of x] assms(2) by (auto simp: hasten_def Let_def split: if_splits)
    show "delivered (detail_bound lat) (dt_log ?s)"
      using inv(3) by (simp add: hasten_def Let_def)
    show "awake lat a ?s"
      using inv(4) soon assms(2)
      by (auto simp: awake_def waking_def hasten_def Let_def min_def split: flusher.splits option.splits)
    show "placed lat a ?s r x t" if "(r, x, t) \<in> set (open_marks (dt_log ?s))" for r x t
      using that inv(5) [of r x t] assms(2)
      by (fastforce simp: placed_def hasten_def Let_def)
  qed
qed

lemma owed_publish_inv:
  assumes "detail_inv lat s" "set (dt_owed s) = insert (OwedPublish rooms e) (set rest)"
  shows "detail_inv lat (detail_owed lat (OwedPublish rooms e) (s\<lparr>dt_owed := rest\<rparr>))"
proof -
  from assms(1) obtain a where "detail_at lat a s"
    unfolding detail_inv_def ..
  note inv = detail_atD [OF this]
  let ?s = "detail_owed lat (OwedPublish rooms e) (s\<lparr>dt_owed := rest\<rparr>)"
  show ?thesis
  proof (rule detail_invI)
    show "flusher_timed lat ?s"
      using inv(1) by (auto simp: flusher_timed_def split: flusher.splits)
    show "dt_now ?s \<le> owed_due x" if "x \<in> set (dt_owed ?s)" for x
      using that inv(2) [of x] assms(2) by simp
    show "delivered (detail_bound lat) (dt_log ?s)"
      using delivered_publish [OF inv(3) inv(6)] by simp
    show "awake lat a ?s"
      using inv(4) assms(2) by (auto simp: awake_def waking_def split: flusher.splits)
    show "placed lat a ?s r x t" if "(r, x, t) \<in> set (open_marks (dt_log ?s))" for r x t
      using that inv(5) [of r x t] assms(2) by (auto simp: placed_def set_open_publish)
  qed
qed

lemma cancel_inv:
  assumes "detail_inv lat s" "detail_step lat ActCancel s = Some s'"
  shows "detail_inv lat s'"
proof -
  from assms(1) obtain a where "detail_at lat a s"
    unfolding detail_inv_def ..
  note inv = detail_atD [OF this]
  show ?thesis
  proof (rule detail_invI)
    show "flusher_timed lat s'"
      using inv(1) assms(2)
      by (auto simp: flusher_timed_def hasten_def Let_def min_def split: flusher.splits option.splits)
    show "dt_now s' \<le> owed_due x" if "x \<in> set (dt_owed s')" for x
      using that inv(2) [of x] assms(2) by (auto simp: hasten_def Let_def split: flusher.splits)
    show "delivered (detail_bound lat) (dt_log s')"
      using inv(3) assms(2) by (auto simp: hasten_def Let_def split: flusher.splits)
    show "awake lat a s'"
      using inv(4) assms(2)
      by (auto simp: awake_def waking_def hasten_def Let_def min_def split: flusher.splits option.splits)
    show "placed lat a s' r x t" if "(r, x, t) \<in> set (open_marks (dt_log s'))" for r x t
      using that inv(5) [of r x t] assms(2)
      by (fastforce simp: placed_def hasten_def Let_def split: flusher.splits)
  qed
qed

lemma tick_inv:
  assumes "detail_inv lat s" "detail_step lat (ActTick d) s = Some s'"
  shows "detail_inv lat s'"
proof -
  from assms(1) obtain a where "detail_at lat a s"
    unfolding detail_inv_def ..
  note inv = detail_atD [OF this]
  have s': "s' = s\<lparr>dt_now := dt_now s + d\<rparr>" "\<forall>x \<in> set (dt_owed s). dt_now s + d \<le> owed_due x"
    "\<And>due. dt_due s = Some due \<Longrightarrow> dt_now s + d \<le> due"
    using assms(2) by (auto split: if_splits)
  show ?thesis
  proof (rule detail_invI)
    show "flusher_timed lat s'"
      using inv(1) s'(3) by (auto simp: flusher_timed_def s'(1) split: flusher.splits)
    show "awake lat a s'"
      using inv(4) by (auto simp: awake_def waking_def s'(1) split: flusher.splits)
    show "placed lat a s' r x t" if "(r, x, t) \<in> set (open_marks (dt_log s'))" for r x t
      using that inv(5) [of r x t] by (simp add: placed_def s'(1))
  qed (use inv(3) s'(2) in \<open>simp_all add: s'(1)\<close>)
qed

text \<open>The flusher.\<close>

lemma quiet_inv:
  assumes at: "detail_at lat a s" and first: "first \<le> dt_now s" "first \<le> a + 2 * lat"
    and s': "s' = go_quiet lat first (s\<lparr>dt_permit := permit\<rparr>)"
    and flusher: "\<And>rooms closing. dt_flusher s \<noteq> FPublish rooms closing"
    and early: "dt_now s \<le> first + MAX_DELAY" "\<not> dp_closed (dt_pending s)"
  shows "detail_inv lat s'"
proof -
  note inv = detail_atD [OF at]
  show ?thesis
  proof (rule detail_invI)
    show "flusher_timed lat s'"
      using first early by (auto simp: s' flusher_timed_def go_quiet_def Let_def saturating_duration_since_def)
    show "awake lat a s'"
      using inv(4) first by (auto simp: awake_def s' go_quiet_def Let_def split: flusher.splits)
    show "placed lat a s' r x t" if "(r, x, t) \<in> set (open_marks (dt_log s'))" for r x t
      using that inv(5) [of r x t] flusher by (simp add: placed_def s' go_quiet_def Let_def)
  qed (use inv(2,3) in \<open>simp_all add: s' go_quiet_def Let_def\<close>)
qed

text \<open>\<^verbatim>\<open>flush\<close> and \<^verbatim>\<open>close\<close> take what is pending.\<close>

lemma take_inv:
  assumes at: "detail_at lat a s" and s': "s' = s\<lparr>dt_pending := p, dt_flusher := FPublish (dp_rooms (dt_pending s)) closing,
      dt_due := Some (dt_now s + lat)\<rparr>"
    and p: "dp_rooms p = []" "dp_closed p = closing"
    and flusher: "\<And>rooms closing. dt_flusher s \<noteq> FPublish rooms closing"
  shows "detail_inv lat s'"
proof -
  note inv = detail_atD [OF at]
  show ?thesis
  proof (rule detail_invI)
    show "flusher_timed lat s'"
      by (simp add: s' p flusher_timed_def)
    show "awake lat a s'"
      using inv(4) by (simp add: s' p awake_def)
    show "placed lat a s' r x t" if "(r, x, t) \<in> set (open_marks (dt_log s'))" for r x t
    proof (cases "covers (dp_rooms (dt_pending s)) r x \<and> a \<le> t")
      case True
      then have "dt_now s \<le> a + MAX_DELAY + 3 * lat"
        by (intro inv(7)) auto
      with True show ?thesis
        by (simp add: s' placed_def detail_bound_def)
    next
      case False
      then show ?thesis
        using that inv(5) [of r x t] flusher by (auto simp: s' placed_def)
    qed
  qed (use inv(2,3) in \<open>simp_all add: s'\<close>)
qed

lemma published_inv:
  assumes at: "detail_at lat a s" and flusher: "dt_flusher s = FPublish rooms closing"
    and s': "flusher_step lat s = Some s'"
  shows "detail_inv lat s'"
proof -
  note inv = detail_atD [OF at]
  have eq: "s' = s\<lparr>dt_log := publish_log (dt_now s) rooms (dt_log s),
      dt_flusher := (if closing then FDone else FWait),
      dt_due := (if \<not> closing \<and> (dt_permit s \<or> dt_cancelled s) then Some (dt_now s + lat) else None)\<rparr>"
    using s' by (simp add: flusher_step_def flusher)
  obtain d where due: "dt_due s = Some d" "dt_now s \<le> d" "dp_closed (dt_pending s) = closing"
    "closing \<longrightarrow> dp_rooms (dt_pending s) = []"
    using inv(1) by (auto simp: flusher_timed_def flusher)
  show ?thesis
  proof (rule detail_invI)
    show "flusher_timed lat s'"
      using due by (simp add: eq flusher_timed_def)
    show "delivered (detail_bound lat) (dt_log s')"
      using delivered_publish [OF inv(3) inv(6)] by (simp add: eq)
    show "awake lat a s'"
      using inv(4) due by (auto simp: eq awake_def waking_def flusher)
    show "placed lat a s' r x t" if "(r, x, t) \<in> set (open_marks (dt_log s'))" for r x t
      using that inv(5) [of r x t] by (auto simp: eq placed_def flusher set_open_publish)
  qed (use inv(2) in \<open>simp_all add: eq\<close>)
qed

lemma close_inv:
  assumes "detail_at lat a s" "\<And>rooms closing. dt_flusher s \<noteq> FPublish rooms closing"
  shows "detail_inv lat (go_close lat s)"
  by (rule take_inv [OF assms(1), where p = "(dt_pending s)\<lparr>dp_rooms := [], dp_closed := True\<rparr>" and closing = True])
    (use assms(2) in \<open>simp_all add: go_close_def close_locked_def\<close>)

lemma flush_inv:
  assumes "detail_at lat a s" "dt_flusher s = FQuiet first seen until"
  shows "detail_inv lat (go_flush lat s)"
  by (rule take_inv [OF assms(1), where p = "(dt_pending s)\<lparr>dp_rooms := []\<rparr>" and closing = False])
    (use assms(2) detail_atD(1) [OF assms(1)] in \<open>simp_all add: go_flush_def flush_locked_def flusher_timed_def\<close>)

lemma detail_at_since:
  assumes "detail_at lat a s"
  shows "detail_at lat (if dp_rooms (dt_pending s) = [] then dt_now s else a) s"
proof (cases "dp_rooms (dt_pending s) = []")
  case True
  then have "placed lat (dt_now s) s = placed lat a s"
    by (simp add: placed_def fun_eq_iff)
  with True assms show ?thesis
    by (simp add: detail_at_def awake_def)
qed (use assms in simp)

lemma flusher_inv:
  assumes "detail_inv lat s" "flusher_step lat s = Some s'"
  shows "detail_inv lat s'"
proof -
  from assms(1) obtain a where at: "detail_at lat a s"
    unfolding detail_inv_def ..
  note timed = detail_atD(1) [OF at] and aw = detail_atD(4) [OF at] and owed = detail_atD(2) [OF at]
  show ?thesis
  proof (cases "dt_flusher s")
    case FWait
    have soon: "dt_now s \<le> a + 2 * lat" if "dp_rooms (dt_pending s) \<noteq> []"
      using that aw timed owed by (fastforce simp: FWait awake_def waking_def flusher_timed_def)
    have "\<not> dp_closed (dt_pending s)"
      using timed by (simp add: FWait flusher_timed_def)
    show ?thesis
    proof (cases "dt_cancelled s")
      case True
      then show ?thesis
        using assms(2) close_inv [OF at] FWait by (simp add: flusher_step_def)
    next
      case False
      let ?b = "if dp_rooms (dt_pending s) = [] then dt_now s else a"
      have b: "detail_at lat ?b s" "dt_now s \<le> ?b + 2 * lat"
        using detail_at_since [OF at] soon by simp_all
      show ?thesis
        by (rule quiet_inv [OF b(1) _ b(2), of s' False])
          (use assms(2) False FWait \<open>\<not> dp_closed _\<close> in \<open>simp_all add: flusher_step_def split: if_splits\<close>)
    qed
  next
    case (FQuiet first seen until)
    have early: "first \<le> dt_now s" "\<not> dp_closed (dt_pending s)"
      using timed by (simp_all add: FQuiet flusher_timed_def)
    let ?b = "if dp_rooms (dt_pending s) = [] then dt_now s else a"
    have b: "detail_at lat ?b s" "first \<le> ?b + 2 * lat"
      using detail_at_since [OF at] aw early by (simp_all add: awake_def FQuiet)
    have "s' = go_close lat s \<or> s' = go_flush lat s \<or> s' = go_quiet lat first s \<and> dt_now s \<le> first + MAX_DELAY"
      using assms(2) by (auto simp: flusher_step_def FQuiet saturating_duration_since_def split: if_splits)
    then show ?thesis
    proof (elim disjE conjE)
      assume s': "s' = go_quiet lat first s" and "dt_now s \<le> first + MAX_DELAY"
      then show ?thesis
        by (intro quiet_inv [OF b(1) early(1) b(2), of s' "dt_permit s"]) (simp_all add: FQuiet early)
    qed (simp_all add: close_inv [OF at] flush_inv [OF at FQuiet] FQuiet)
  next
    case (FPublish rooms closing)
    then show ?thesis
      by (rule published_inv [OF at _ assms(2)])
  next
    case FDone
    then show ?thesis
      using assms(2) by (simp add: flusher_step_def)
  qed
qed

lemma detail_step_inv:
  assumes "detail_inv lat s" "detail_step lat act s = Some s'"
  shows "detail_inv lat s'"
proof (cases act)
  case (ActMark room src)
  then show ?thesis
    using assms mark_inv by auto
next
  case (ActOwed i)
  then have i: "i < length (dt_owed s)"
    using assms(2) by (simp split: if_splits)
  then show ?thesis
    using assms(2) wake_inv [OF assms(1)] owed_publish_inv [OF assms(1)] set_remove_nth [OF i] ActOwed
    by (cases "dt_owed s ! i") auto
next
  case ActFlusher
  then show ?thesis
    using assms flusher_inv by simp
next
  case ActCancel
  then show ?thesis
    using assms cancel_inv by blast
next
  case (ActTick d)
  then show ?thesis
    using assms tick_inv by blast
qed

definition detail_init :: "detail_system \<Rightarrow> bool" where
  "detail_init s \<longleftrightarrow> (\<exists>now. s = detail_boot now)"

definition detail_steps :: "duration \<Rightarrow> detail_system \<Rightarrow> detail_system \<Rightarrow> bool" where
  "detail_steps lat s s' \<longleftrightarrow> (\<exists>act. detail_step lat act s = Some s')"

interpretation coalesce: inv_system detail_init "detail_steps lat" "detail_inv lat" for lat
  by unfold_locales (auto simp: detail_init_def detail_steps_def boot_inv dest: detail_step_inv)

lemma detail_run_steps: "detail_run lat acts s = Some s' \<Longrightarrow> (detail_steps lat)\<^sup>*\<^sup>* s s'"
proof (induction acts arbitrary: s)
  case (Cons act acts)
  then obtain u where "detail_step lat act s = Some u" "detail_run lat acts u = Some s'"
    by (auto simp: Option.bind_eq_Some_conv)
  then show ?case
    using Cons.IH [of u] by (auto simp: detail_steps_def intro: converse_rtranclp_into_rtranclp)
qed simp

section \<open>Progress\<close>

text \<open>A step the system takes by itself: time passes, the flusher runs, or a producer finishes a mark.\<close>

definition own_step :: "duration \<Rightarrow> detail_system \<Rightarrow> bool" where
  "own_step lat s \<longleftrightarrow> (\<exists>act s'. detail_step lat act s = Some s' \<and>
     (case act of ActFlusher \<Rightarrow> True | ActOwed _ \<Rightarrow> True | ActTick d \<Rightarrow> 0 < d | _ \<Rightarrow> False))"

lemma own_stepI:
  "detail_step lat ActFlusher s \<noteq> None \<Longrightarrow> own_step lat s"
  "detail_step lat (ActOwed i) s \<noteq> None \<Longrightarrow> own_step lat s"
  "detail_step lat (ActTick d) s \<noteq> None \<Longrightarrow> 0 < d \<Longrightarrow> own_step lat s"
  unfolding own_step_def
    apply (rule exI [of _ ActFlusher], fastforce)
   apply (rule exI [of _ "ActOwed i"], fastforce)
  apply (rule exI [of _ "ActTick d"], fastforce)
  done

lemma detail_progress:
  assumes "detail_inv lat s"
  shows "own_step lat s"
proof (cases "dt_owed s = []")
  case True
  have timed: "flusher_timed lat s"
    using assms by (auto simp: detail_inv_def detail_at_def)
  show ?thesis
  proof (cases "dt_flusher s")
    case FWait
    then show ?thesis
      using timed True own_stepI(1) [of lat s] own_stepI(3) [of lat 1 s]
      by (cases "dt_due s") (auto simp: flusher_timed_def flusher_step_def)
  next
    case (FQuiet first seen until)
    then obtain d where d: "dt_due s = Some d" "dt_cancelled s \<or> until \<le> d"
      using timed by (auto simp: flusher_timed_def)
    show ?thesis
    proof (cases "dt_cancelled s \<or> until \<le> dt_now s")
      case True
      then show ?thesis
        using own_stepI(1) [of lat s] by (auto simp: FQuiet flusher_step_def)
    next
      case False
      then show ?thesis
        using own_stepI(3) [of lat "until - dt_now s" s] d \<open>dt_owed s = []\<close> by auto
    qed
  next
    case (FPublish rooms closing)
    then show ?thesis
      using own_stepI(1) [of lat s] by (simp add: flusher_step_def)
  next
    case FDone
    then show ?thesis
      using timed True own_stepI(3) [of lat 1 s] by (simp add: flusher_timed_def)
  qed
next
  case False
  then show ?thesis
    using own_stepI(2) [of lat 0 s] by simp
qed

section \<open>What a frame reports\<close>

definition marked :: "detail_event list \<Rightarrow> rstr \<Rightarrow> detail_source \<Rightarrow> bool" where
  "marked l room src \<longleftrightarrow> (\<exists>t. EvMark room src t \<in> set l)"

definition frames_sound :: "detail_event list \<Rightarrow> bool" where
  "frames_sound l \<longleftrightarrow> (\<forall>post room ss t pre. l = post @ EvFrame room ss t # pre \<longrightarrow>
     (\<forall>src \<in> ss. marked pre room src))"

definition rooms_sound :: "detail_event list \<Rightarrow> detail_rooms \<Rightarrow> bool" where
  "rooms_sound l rooms \<longleftrightarrow> distinct (map fst rooms) \<and> (\<forall>room src. covers rooms room src \<longrightarrow> marked l room src)"

primrec owed_sound :: "detail_event list \<Rightarrow> owed \<Rightarrow> bool" where
  "owed_sound l (OwedWake _) = True"
| "owed_sound l (OwedPublish rooms _) = rooms_sound l rooms"

definition frame_inv :: "detail_system \<Rightarrow> bool" where
  "frame_inv s \<longleftrightarrow> frames_sound (dt_log s) \<and> rooms_sound (dt_log s) (dp_rooms (dt_pending s)) \<and>
     length (dp_rooms (dt_pending s)) < MAX_PENDING_ROOMS \<and>
     (\<forall>x \<in> set (dt_owed s). owed_sound (dt_log s) x) \<and>
     (\<forall>rooms closing. dt_flusher s = FPublish rooms closing \<longrightarrow> rooms_sound (dt_log s) rooms)"

lemma frames_sound_mark: "frames_sound l \<Longrightarrow> frames_sound (EvMark room src t # l)"
  by (auto simp: frames_sound_def Cons_eq_append_conv)

lemma set_publish_log: "set l \<subseteq> set (publish_log now rooms l)"
  by (induction rooms arbitrary: l) (auto split: prod.splits, fastforce)

lemma rooms_sound_mono: "rooms_sound l rooms \<Longrightarrow> set l \<subseteq> set l' \<Longrightarrow> rooms_sound l' rooms"
  unfolding rooms_sound_def marked_def by blast

lemma owed_sound_mono: "owed_sound l x \<Longrightarrow> set l \<subseteq> set l' \<Longrightarrow> owed_sound l' x"
  by (cases x) (auto intro: rooms_sound_mono)

lemma rooms_sound_Cons: "rooms_sound l rooms \<Longrightarrow> rooms_sound (e # l) rooms"
  by (rule rooms_sound_mono) auto

lemma owed_sound_Cons: "owed_sound l x \<Longrightarrow> owed_sound (e # l) x"
  by (rule owed_sound_mono) auto

lemma frames_sound_publish:
  "frames_sound l \<Longrightarrow> (\<And>room src. covers rooms room src \<Longrightarrow> marked l room src) \<Longrightarrow>
   frames_sound (publish_log now rooms l)"
proof (induction rooms arbitrary: l)
  case (Cons entry rooms)
  obtain room ss where entry: "entry = (room, ss)"
    by fastforce
  have "frames_sound (EvFrame room ss now # l)"
    using Cons.prems by (auto simp: frames_sound_def Cons_eq_append_conv entry)
  then have "frames_sound (publish_log now rooms (EvFrame room ss now # l))"
    by (rule Cons.IH) (use Cons.prems(2) in \<open>fastforce simp: marked_def entry\<close>)
  then show ?case
    by (simp add: entry)
qed simp

lemma keys_rooms_insert: "set (map fst (rooms_insert room src rooms)) = insert room (set (map fst rooms))"
  by (induction room src rooms rule: rooms_insert.induct) (simp_all add: insert_commute)

lemma distinct_rooms_insert: "distinct (map fst rooms) \<Longrightarrow> distinct (map fst (rooms_insert room src rooms))"
proof (induction rooms)
  case (Cons entry rooms)
  then show ?case
    using keys_rooms_insert [of room src rooms] by (cases entry) auto
qed simp

lemma rooms_sound_insert:
  "rooms_sound l rooms \<Longrightarrow> rooms_sound (EvMark room src t # l) (rooms_insert room src rooms)"
  by (auto simp: rooms_sound_def marked_def distinct_rooms_insert)

lemma frame_inv_mark: "frame_inv s \<Longrightarrow> frame_inv (detail_mark lat room src s)"
  using rooms_sound_insert [of "dt_log s" "dp_rooms (dt_pending s)" room src "dt_now s"]
    rooms_sound_Cons [of "dt_log s" _ "EvMark room src (dt_now s)"]
    owed_sound_Cons [of "dt_log s" _ "EvMark room src (dt_now s)"]
  by (auto simp: frame_inv_def detail_mark_def mark_locked_def Let_def frames_sound_mark rooms_sound_def [of _ "[]"]
      MAX_PENDING_ROOMS_def split: if_splits)

lemma frame_inv_publish:
  assumes "frame_inv s" "rooms_sound (dt_log s) rooms"
  shows "frame_inv (s\<lparr>dt_log := publish_log now rooms (dt_log s)\<rparr>)"
proof -
  have "frames_sound (publish_log now rooms (dt_log s))"
    using assms by (intro frames_sound_publish) (auto simp: frame_inv_def rooms_sound_def)
  then show ?thesis
    using assms(1) rooms_sound_mono [OF _ set_publish_log] owed_sound_mono [OF _ set_publish_log] by (auto simp: frame_inv_def)
qed

lemma frame_inv_flusher:
  assumes "frame_inv s" "flusher_step lat s = Some s'"
  shows "frame_inv s'"
proof (cases "dt_flusher s")
  case (FPublish rooms closing)
  then have "frame_inv (s\<lparr>dt_log := publish_log (dt_now s) rooms (dt_log s)\<rparr>)"
    using assms(1) by (intro frame_inv_publish) (auto simp: frame_inv_def)
  then show ?thesis
    using assms(2) FPublish unfolding frame_inv_def flusher_step_def by (cases closing) fastforce+
qed (use assms in \<open>auto simp: flusher_step_def frame_inv_def go_quiet_def go_close_def go_flush_def
       close_locked_def flush_locked_def Let_def rooms_sound_def [of _ "[]"] MAX_PENDING_ROOMS_def split: if_splits\<close>)

lemma frame_inv_step:
  assumes "frame_inv s" "detail_step lat act s = Some s'"
  shows "frame_inv s'"
proof (cases act)
  case (ActOwed i)
  then have i: "i < length (dt_owed s)"
    using assms(2) by (simp split: if_splits)
  let ?s = "s\<lparr>dt_owed := take i (dt_owed s) @ drop (Suc i) (dt_owed s)\<rparr>"
  have keep: "frame_inv ?s"
    using assms(1) set_remove_nth [OF i] by (auto simp: frame_inv_def dest: in_set_takeD in_set_dropD)
  show ?thesis
  proof (cases "dt_owed s ! i")
    case (OwedWake e)
    then show ?thesis
      using keep assms(2) i ActOwed by (auto simp: frame_inv_def hasten_def Let_def split: if_splits)
  next
    case (OwedPublish rooms e)
    then have "rooms_sound (dt_log ?s) rooms"
      using assms(1) nth_mem [OF i] by (fastforce simp: frame_inv_def)
    then show ?thesis
      using frame_inv_publish [OF keep, of rooms "dt_now s"] assms(2) i ActOwed OwedPublish by simp
  qed
next
  case ActCancel
  then show ?thesis
    using assms by (auto simp: frame_inv_def hasten_def Let_def split: flusher.splits)
next
  case (ActTick d)
  then show ?thesis
    using assms by (auto simp: frame_inv_def split: if_splits)
qed (use assms frame_inv_mark frame_inv_flusher in auto)

interpretation frames: inv_system detail_init "detail_steps lat" frame_inv for lat
proof unfold_locales
  show "frame_inv s" if "detail_init s" for s
    using that by (auto simp: detail_init_def detail_boot_def frame_inv_def frames_sound_def rooms_sound_def
        MAX_PENDING_ROOMS_def)
  show "frame_inv t" if "frame_inv s" "detail_steps lat s t" for s t
    using that frame_inv_step by (auto simp: detail_steps_def)
qed

section \<open>Properties\<close>

text \<open>C21: No change is lost or held back. In every run of the producers, the flusher and a
  cancellation, in any interleaving, each mark of a room and source is followed by a frame for that
  room and source within the maximum delay (and four scheduling latencies), unless that time has not
  passed yet; and the system can always take a step by itself, so that time is reached.\<close>

theorem detail_changes_delivered:
  assumes "detail_run lat acts (detail_boot t0) = Some s"
  shows "(\<forall>post room src t pre. dt_log s = post @ EvMark room src t # pre \<longrightarrow>
      framed (detail_bound lat) post room src t \<or> dt_now s \<le> t + detail_bound lat) \<and> own_step lat s"
proof -
  have inv: "detail_inv lat s"
    using coalesce.reach_inv [OF _ detail_run_steps [OF assms]] by (auto simp: detail_init_def)
  then obtain a where at: "detail_at lat a s"
    unfolding detail_inv_def ..
  have "framed (detail_bound lat) post room src t \<or> dt_now s \<le> t + detail_bound lat"
    if "dt_log s = post @ EvMark room src t # pre" for post room src t pre
    using detail_atD(3,6) [OF at] that unfolding delivered_def by blast
  then show ?thesis
    using detail_progress [OF inv] by blast
qed

definition demo_detail_run :: "detail_act list" where
  "demo_detail_run = [ActMark (lit ''!a:x'') Metadata, ActOwed 0, ActFlusher, ActTick (20 * 1000000),
     ActMark (lit ''!a:x'') MemberCounts, ActTick (80 * 1000000), ActFlusher, ActTick (100 * 1000000), ActFlusher, ActFlusher]"

definition demo_detail_end :: detail_system where
  "demo_detail_end = the (detail_run 0 demo_detail_run (detail_boot 0))"

lemmas demo_detail_eval = demo_detail_end_def demo_detail_run_def detail_boot_def detail_mark_def mark_locked_def Let_def
  hasten_def flusher_step_def go_quiet_def go_flush_def flush_locked_def saturating_duration_since_def QUIET_def
  MAX_DELAY_def MAX_PENDING_ROOMS_def from_secs_def publish_log_def

lemma demo_detail_log:
  "detail_run 0 demo_detail_run (detail_boot 0) = Some demo_detail_end"
  "dt_log demo_detail_end = [EvFrame (lit ''!a:x'') {Metadata, MemberCounts} (200 * 1000000),
     EvMark (lit ''!a:x'') MemberCounts (20 * 1000000), EvMark (lit ''!a:x'') Metadata 0]"
  by (simp_all add: demo_detail_eval insert_commute)

theorem detail_changes_delivered_witness:
  "dt_log demo_detail_end = [EvFrame (lit ''!a:x'') {Metadata, MemberCounts} (200 * 1000000),
     EvMark (lit ''!a:x'') MemberCounts (20 * 1000000), EvMark (lit ''!a:x'') Metadata 0] \<and> own_step 0 demo_detail_end"
  using detail_changes_delivered [OF demo_detail_log(1)] demo_detail_log(2) by simp

text \<open>A frame reports only sources that were marked for its room before it, and the pending map stays
  below its bound with at most one entry per room.\<close>

theorem detail_frames_sound:
  assumes "detail_run lat acts (detail_boot t0) = Some s" "dt_log s = post @ EvFrame room ss t # pre" "src \<in> ss"
  shows "(\<exists>t'. EvMark room src t' \<in> set pre) \<and> length (dp_rooms (dt_pending s)) < MAX_PENDING_ROOMS \<and>
    distinct (map fst (dp_rooms (dt_pending s)))"
proof -
  have "frame_inv s"
    using frames.reach_inv [OF _ detail_run_steps [OF assms(1)]] by (auto simp: detail_init_def)
  then show ?thesis
    using assms(2,3) unfolding frame_inv_def frames_sound_def rooms_sound_def marked_def by blast
qed

theorem detail_frames_sound_witness:
  "(\<exists>t'. EvMark (lit ''!a:x'') Metadata t' \<in> set (tl (dt_log demo_detail_end))) \<and>
   length (dp_rooms (dt_pending demo_detail_end)) < MAX_PENDING_ROOMS"
  using detail_frames_sound [OF demo_detail_log(1), of "[]"] demo_detail_log(2) by auto

end
