(* ===== verification/Detail_Worker.thy ===== *)
theory Detail_Worker
  imports Detail_Reply Detail_Changes
begin

text \<open>
  One account's acquisition queue and worker, and the registry of queues:
  \<^verbatim>\<open>crates/axon-sync/src/acquisition.rs\<close>.

  \<^item> \<open>push\<close>, \<open>observe\<close>, \<open>take_next\<close>, \<open>set_sending\<close> and \<open>finish\<close> are the methods of \<^verbatim>\<open>Queue\<close>, each atomic under its
    lock. A mark of \<^verbatim>\<open>RoomDetailsChanges\<close> is an element of the result; \<open>Detail_Changes\<close> models what
    becomes of it.
  \<^item> \<open>worker_step\<close> is one uninterrupted piece of \<^verbatim>\<open>Worker::run\<close>, from one await to the next; an \<open>acq_act\<close> says
    what the awaited thing gave (a store result or its failure, a gate permit, a reply).
    Readers, other database transactions and the clock act between any two steps.
  \<^item> \<open>aq_log\<close> is the history, newest first; no step reads it.
\<close>

datatype detail_job = JobLocalAliases | JobDirectoryVisibility | JobAbsence

definition QUEUE_CAPACITY :: nat where
  "QUEUE_CAPACITY = 32"

definition COOLDOWN_CAPACITY :: nat where
  "COOLDOWN_CAPACITY = 2 * QUEUE_CAPACITY"

definition JOB_INTERVAL :: duration where
  "JOB_INTERVAL = 250 * 1000000"

definition FAILURE_BACKOFF_MIN :: duration where
  "FAILURE_BACKOFF_MIN = from_secs 60"

section \<open>The queue\<close>

record acq_entry =
  ae_room :: rstr
  ae_job :: detail_job
  ae_observed :: bool

definition entry_is :: "rstr \<Rightarrow> detail_job \<Rightarrow> acq_entry \<Rightarrow> bool" where
  "entry_is room job e \<longleftrightarrow> ae_job e = job \<and> ae_room e = room"

record acq_queue =
  q_queued :: "acq_entry list"
  q_running :: "acq_entry option"
  q_sending :: bool
  q_cooldown :: "(rstr \<times> detail_job \<times> instant) list"
  q_wake :: bool

definition queue_new :: acq_queue where
  "queue_new = \<lparr>q_queued = [], q_running = None, q_sending = False, q_cooldown = [], q_wake = False\<rparr>"

fun frame_source :: "detail_job \<Rightarrow> detail_source" where
  "frame_source JobAbsence = Metadata"
| "frame_source JobLocalAliases = HomeserverDetails"
| "frame_source JobDirectoryVisibility = HomeserverDetails"

text \<open>\<open>push\<close>: the queue, the dropped job, and the mark that announces it.\<close>

definition push ::
  "instant \<Rightarrow> rstr \<Rightarrow> detail_job \<Rightarrow> acq_queue \<Rightarrow> acq_queue \<times> (rstr \<times> detail_job) option \<times> (rstr \<times> detail_source) list"
where
  "push now room job q =
     (let q1 = q\<lparr>q_cooldown := filter (\<lambda>(_, _, until). now < until) (q_cooldown q)\<rparr>
      in if (case q_running q1 of None \<Rightarrow> False | Some e \<Rightarrow> entry_is room job e) \<or>
            list_ex (entry_is room job) (q_queued q1) \<or>
            list_ex (\<lambda>(r, k, _). k = job \<and> r = room) (q_cooldown q1)
         then (q1, None, [])
         else
           let full = QUEUE_CAPACITY \<le> length (q_queued q1);
               dropped = (if full then (case q_queued q1 of [] \<Rightarrow> None | e # _ \<Rightarrow> Some e) else None);
               kept = (if full then tl (q_queued q1) else q_queued q1);
               q2 = q1\<lparr>q_queued := kept @ [\<lparr>ae_room = room, ae_job = job, ae_observed = False\<rparr>], q_wake := True\<rparr>
           in case dropped of
                None \<Rightarrow> (q2, None, [])
              | Some e \<Rightarrow> (q2, Some (ae_room e, ae_job e),
                           if ae_observed e then [(ae_room e, frame_source (ae_job e))] else []))"

fun observe_queued :: "rstr \<Rightarrow> detail_job \<Rightarrow> acq_entry list \<Rightarrow> acq_entry list option" where
  "observe_queued room job [] = None"
| "observe_queued room job (e # es) =
     (if entry_is room job e then Some (e\<lparr>ae_observed := True\<rparr> # es)
      else map_option ((#) e) (observe_queued room job es))"

definition observe :: "rstr \<Rightarrow> detail_job \<Rightarrow> acq_queue \<Rightarrow> acq_queue \<times> job_activity" where
  "observe room job q =
     (case q_running q of
        Some e \<Rightarrow>
          if entry_is room job e
          then (q\<lparr>q_running := Some (e\<lparr>ae_observed := True\<rparr>)\<rparr>, if q_sending q then JobRunning else JobQueued)
          else (case observe_queued room job (q_queued q) of
                  Some es \<Rightarrow> (q\<lparr>q_queued := es\<rparr>, JobQueued) | None \<Rightarrow> (q, JobIdle))
      | None \<Rightarrow> (case observe_queued room job (q_queued q) of
                  Some es \<Rightarrow> (q\<lparr>q_queued := es\<rparr>, JobQueued) | None \<Rightarrow> (q, JobIdle)))"

text \<open>One look of \<^verbatim>\<open>next\<close>'s loop.\<close>

definition take_next :: "acq_queue \<Rightarrow> acq_queue \<times> (rstr \<times> detail_job) option" where
  "take_next q =
     (case q_queued q of
        [] \<Rightarrow> (q, None)
      | e # es \<Rightarrow> (q\<lparr>q_queued := es, q_running := Some e\<rparr>, Some (ae_room e, ae_job e)))"

definition set_sending :: "bool \<Rightarrow> acq_queue \<Rightarrow> acq_queue" where
  "set_sending b q = q\<lparr>q_sending := b\<rparr>"

definition finish :: "instant \<Rightarrow> bool \<Rightarrow> acq_queue \<Rightarrow> acq_queue \<times> bool" where
  "finish now local_failure q =
     (let q1 = q\<lparr>q_sending := False, q_running := None\<rparr>
      in case q_running q of
           None \<Rightarrow> (q1, False)
         | Some e \<Rightarrow>
             (if local_failure
              then q1\<lparr>q_cooldown := (if COOLDOWN_CAPACITY \<le> length (q_cooldown q1) then tl (q_cooldown q1) else q_cooldown q1)
                       @ [(ae_room e, ae_job e, now + FAILURE_BACKOFF_MIN)]\<rparr>
              else q1, ae_observed e))"

section \<open>The registry\<close>

text \<open>The registry maps an account to its run's queue; \<open>ar_queues\<close> is the heap the \<^verbatim>\<open>Arc\<close>s point to, and a
  registration holds its queue's address.\<close>

record acquisitions =
  rg_accounts :: "nat \<rightharpoonup> nat"
  rg_queues :: "nat \<Rightarrow> acq_queue"
  rg_fresh :: nat

definition reg_register :: "nat \<Rightarrow> acquisitions \<Rightarrow> acquisitions \<times> nat \<times> nat" where
  "reg_register account r =
     (r\<lparr>rg_accounts := (rg_accounts r)(account \<mapsto> rg_fresh r), rg_queues := (rg_queues r)(rg_fresh r := queue_new),
        rg_fresh := rg_fresh r + 1\<rparr>, account, rg_fresh r)"

definition reg_drop :: "nat \<times> nat \<Rightarrow> acquisitions \<Rightarrow> acquisitions" where
  "reg_drop registration r =
     (case registration of (account, queue) \<Rightarrow>
        if rg_accounts r account = Some queue then r\<lparr>rg_accounts := (rg_accounts r)(account := None)\<rparr> else r)"

definition reg_request ::
  "(rstr \<Rightarrow> bool) \<Rightarrow> instant \<Rightarrow> nat \<Rightarrow> rstr \<Rightarrow> detail_job \<Rightarrow> acquisitions \<Rightarrow> acquisitions \<times> (rstr \<times> detail_source) list"
where
  "reg_request valid_room now account room job r =
     (if \<not> valid_room room then (r, [])
      else case rg_accounts r account of
             None \<Rightarrow> (r, [])
           | Some a \<Rightarrow> (case push now room job (rg_queues r a) of (q, _, marks) \<Rightarrow>
               (r\<lparr>rg_queues := (rg_queues r)(a := q)\<rparr>, marks)))"

definition reg_activity :: "nat \<Rightarrow> rstr \<Rightarrow> detail_job \<Rightarrow> acquisitions \<Rightarrow> acquisitions \<times> job_activity" where
  "reg_activity account room job r =
     (case rg_accounts r account of
        None \<Rightarrow> (r, JobIdle)
      | Some a \<Rightarrow> (case observe room job (rg_queues r a) of (q, act) \<Rightarrow>
          (r\<lparr>rg_queues := (rg_queues r)(a := q)\<rparr>, act)))"

section \<open>The worker\<close>

record ran =
  ran_changed :: bool
  ran_local_failure :: bool

definition ran_record :: "detail_write option \<Rightarrow> ran \<Rightarrow> ran" where
  "ran_record w r =
     (case w of
        Some Changed \<Rightarrow> r\<lparr>ran_changed := True\<rparr>
      | Some _ \<Rightarrow> r
      | None \<Rightarrow> r\<lparr>ran_local_failure := True\<rparr>)"

fun job_kind :: "detail_job \<Rightarrow> detail_kind" where
  "job_kind JobLocalAliases = LocalAliases"
| "job_kind JobDirectoryVisibility = DirectoryVisibility"
| "job_kind JobAbsence = Absence"

text \<open>Where the worker is. \<open>WPace\<close> waits out the pacing interval and the gate, and \<open>WSent\<close> has a request in
  flight since the instant it carries; both hold the state types still to ask, the current one first
  (the details jobs have one, the empty type).\<close>

datatype worker_pc =
    WNext
  | WWait
  | WTaken rstr detail_job
  | WDue rstr detail_job int
  | WPace rstr detail_job int "rstr list" ran
  | WSent rstr detail_job int "rstr list" ran instant
  | WRecord rstr detail_job int "rstr list" ran detail_outcome
  | WRecheck rstr detail_job int "rstr list" ran
  | WFinish rstr detail_job ran
  | WStopped

datatype acq_event =
    LogObserved rstr detail_job
  | LogTaken rstr detail_job instant
  | LogSent rstr detail_kind rstr instant
  | LogFailed rstr detail_job instant
  | LogMark rstr detail_job detail_source

record acq_system =
  aq_now :: instant
  aq_queue :: acq_queue
  aq_db :: detail_db
  aq_pc :: worker_pc
  aq_last :: "instant option"
  aq_log :: "acq_event list"

datatype acq_input = Go int | StoreFailed | Admitted | Replied reply

definition log_dropped ::
  "(rstr \<times> detail_job) option \<Rightarrow> (rstr \<times> detail_source) list \<Rightarrow> acq_event list \<Rightarrow> acq_event list"
where
  "log_dropped dropped marks l =
     (case dropped of None \<Rightarrow> l | Some (_, job) \<Rightarrow> map (\<lambda>(room, src). LogMark room job src) marks @ l)"

definition log_finished :: "instant \<Rightarrow> rstr \<Rightarrow> detail_job \<Rightarrow> ran \<Rightarrow> bool \<Rightarrow> acq_event list \<Rightarrow> acq_event list" where
  "log_finished now room job r observed l =
     (if ran_changed r \<or> observed then [LogMark room job (frame_source job)] else []) @
     (if ran_local_failure r then [LogFailed room job now] else []) @ l"

text \<open>What to ask for a job: the details jobs ask once, while the detail is due; an absence job asks for
  each due type in order.\<close>

definition job_todo :: "detail_db \<Rightarrow> int \<Rightarrow> rstr \<Rightarrow> detail_job \<Rightarrow> rstr list" where
  "job_todo db pg room job =
     (if job = JobAbsence then due_absence_types db pg room ABSENCE_ORDER
      else case snd (room_detail_snapshot db pg room [job_kind job]) of
             row # _ \<Rightarrow> if dr_due row then [[]] else []
           | [] \<Rightarrow> [[]])"

definition no_run :: ran where
  "no_run = \<lparr>ran_changed = False, ran_local_failure = False\<rparr>"

text \<open>After a request is recorded. Only an absence job goes on, and only when the request answered and its
  result was recorded; a fenced result first re-reads the membership.\<close>

definition after_write :: "rstr \<Rightarrow> detail_job \<Rightarrow> int \<Rightarrow> rstr list \<Rightarrow> ran \<Rightarrow> bool \<Rightarrow> detail_write option \<Rightarrow> worker_pc" where
  "after_write room job epoch todo r failed w =
     (let r' = ran_record w r
      in if job \<noteq> JobAbsence \<or> failed \<or> w = None then WFinish room job r'
         else if w = Some Fenced then WRecheck room job epoch (tl todo) r'
         else if tl todo = [] then WFinish room job r'
         else WPace room job epoch (tl todo) r')"

definition is_failure :: "detail_outcome \<Rightarrow> bool" where
  "is_failure out = (case out of Failure _ _ _ _ \<Rightarrow> True | _ \<Rightarrow> False)"

fun worker_step ::
  "(nat list \<Rightarrow> json_value option) \<Rightarrow> (rstr \<Rightarrow> bool) \<Rightarrow> acq_input \<Rightarrow> acq_system \<Rightarrow> acq_system option"
where
  "worker_step parse_json valid_alias inp s =
     (case (aq_pc s, inp) of
        (WNext, Go _) \<Rightarrow>
          (case take_next (aq_queue s) of
             (q, Some (room, job)) \<Rightarrow>
               Some (s\<lparr>aq_queue := q, aq_pc := WTaken room job, aq_log := LogTaken room job (aq_now s) # aq_log s\<rparr>)
           | (q, None) \<Rightarrow> Some (s\<lparr>aq_pc := WWait\<rparr>))
      | (WWait, Go _) \<Rightarrow>
          if q_wake (aq_queue s) then Some (s\<lparr>aq_queue := (aq_queue s)\<lparr>q_wake := False\<rparr>, aq_pc := WNext\<rparr>) else None
      | (WTaken room job, Go _) \<Rightarrow>
          (case joined_epoch (aq_db s) room of
             Some epoch \<Rightarrow> Some (s\<lparr>aq_pc := WDue room job epoch\<rparr>)
           | None \<Rightarrow> Some (s\<lparr>aq_pc := WFinish room job no_run\<rparr>))
      | (WTaken room job, StoreFailed) \<Rightarrow> Some (s\<lparr>aq_pc := WFinish room job (no_run\<lparr>ran_local_failure := True\<rparr>)\<rparr>)
      | (WDue room job epoch, Go pg) \<Rightarrow>
          (case job_todo (aq_db s) pg room job of
             [] \<Rightarrow> Some (s\<lparr>aq_pc := WFinish room job no_run\<rparr>)
           | todo \<Rightarrow> Some (s\<lparr>aq_pc := WPace room job epoch todo no_run\<rparr>))
      | (WDue room job epoch, StoreFailed) \<Rightarrow> Some (s\<lparr>aq_pc := WFinish room job (no_run\<lparr>ran_local_failure := True\<rparr>)\<rparr>)
      | (WPace room job epoch todo r, Admitted) \<Rightarrow>
          if (case aq_last s of None \<Rightarrow> True | Some t \<Rightarrow> t + JOB_INTERVAL \<le> aq_now s)
          then Some (s\<lparr>aq_queue := set_sending True (aq_queue s), aq_pc := WSent room job epoch todo r (aq_now s),
                       aq_log := LogSent room (job_kind job) (hd todo) (aq_now s) # aq_log s\<rparr>)
          else None
      | (WSent room job epoch todo r at, Replied rep) \<Rightarrow>
          Some (s\<lparr>aq_queue := set_sending False (aq_queue s), aq_last := Some at,
                  aq_pc := WRecord room job epoch todo r (interpret_reply parse_json valid_alias (job_kind job) rep)\<rparr>)
      | (WRecord room job epoch todo r out, Go pg) \<Rightarrow>
          (case record_room_detail pg room epoch (job_kind job) (hd todo) out (aq_db s) of
             (w, db) \<Rightarrow> Some (s\<lparr>aq_db := db, aq_pc := after_write room job epoch todo r (is_failure out) (Some w)\<rparr>))
      | (WRecord room job epoch todo r out, StoreFailed) \<Rightarrow>
          Some (s\<lparr>aq_pc := after_write room job epoch todo r (is_failure out) None\<rparr>)
      | (WRecheck room job epoch todo r, Go _) \<Rightarrow>
          if joined_epoch (aq_db s) room \<noteq> Some epoch \<or> todo = []
          then Some (s\<lparr>aq_pc := WFinish room job r\<rparr>) else Some (s\<lparr>aq_pc := WPace room job epoch todo r\<rparr>)
      | (WRecheck room job epoch todo r, StoreFailed) \<Rightarrow>
          Some (s\<lparr>aq_pc := (if todo = [] then WFinish room job r else WPace room job epoch todo r)\<rparr>)
      | (WFinish room job r, Go _) \<Rightarrow>
          (case finish (aq_now s) (ran_local_failure r) (aq_queue s) of
             (q, observed) \<Rightarrow> Some (s\<lparr>aq_queue := q, aq_pc := WNext,
               aq_log := log_finished (aq_now s) room job r observed (aq_log s)\<rparr>))
      | _ \<Rightarrow> None)"

declare worker_step.simps [simp del]

datatype acq_act =
    AcqRequest rstr detail_job
  | AcqObserve rstr detail_job
  | AcqDb db_op
  | AcqWorker acq_input
  | AcqTick duration
  | AcqCancel

fun acq_step :: "(nat list \<Rightarrow> json_value option) \<Rightarrow> (rstr \<Rightarrow> bool) \<Rightarrow> acq_act \<Rightarrow> acq_system \<Rightarrow> acq_system option" where
  "acq_step pj va (AcqRequest room job) s =
     (case push (aq_now s) room job (aq_queue s) of (q, dropped, marks) \<Rightarrow>
        Some (s\<lparr>aq_queue := q, aq_log := log_dropped dropped marks (aq_log s)\<rparr>))"
| "acq_step pj va (AcqObserve room job) s =
     (case observe room job (aq_queue s) of (q, act) \<Rightarrow>
        Some (s\<lparr>aq_queue := q, aq_log := (if act = JobIdle then aq_log s else LogObserved room job # aq_log s)\<rparr>))"
| "acq_step pj va (AcqDb op) s = Some (s\<lparr>aq_db := db_apply op (aq_db s)\<rparr>)"
| "acq_step pj va (AcqWorker inp) s = worker_step pj va inp s"
| "acq_step pj va (AcqTick d) s = Some (s\<lparr>aq_now := aq_now s + d\<rparr>)"
| "acq_step pj va AcqCancel s = Some (s\<lparr>aq_pc := WStopped\<rparr>)"

fun acq_run :: "(nat list \<Rightarrow> json_value option) \<Rightarrow> (rstr \<Rightarrow> bool) \<Rightarrow> acq_act list \<Rightarrow> acq_system \<Rightarrow> acq_system option" where
  "acq_run pj va [] s = Some s"
| "acq_run pj va (a # acts) s = Option.bind (acq_step pj va a s) (acq_run pj va acts)"

definition acq_boot :: "instant \<Rightarrow> detail_db \<Rightarrow> acq_system" where
  "acq_boot now db = \<lparr>aq_now = now, aq_queue = queue_new, aq_db = db, aq_pc = WNext, aq_last = None, aq_log = []\<rparr>"

section \<open>The invariant of the queue\<close>

definition entry_key :: "acq_entry \<Rightarrow> rstr \<times> detail_job" where
  "entry_key e = (ae_room e, ae_job e)"

definition cool_key :: "rstr \<times> detail_job \<times> instant \<Rightarrow> rstr \<times> detail_job" where
  "cool_key c = (fst c, fst (snd c))"

definition running_list :: "acq_queue \<Rightarrow> acq_entry list" where
  "running_list q = (case q_running q of None \<Rightarrow> [] | Some e \<Rightarrow> [e])"

definition queue_keys :: "acq_queue \<Rightarrow> (rstr \<times> detail_job) list" where
  "queue_keys q = map entry_key (running_list q @ q_queued q) @ map cool_key (q_cooldown q)"

text \<open>Bounded, and a room's job is in at most one place: taken, queued or held back.\<close>

definition queue_ok :: "acq_queue \<Rightarrow> bool" where
  "queue_ok q \<longleftrightarrow> length (q_queued q) \<le> QUEUE_CAPACITY \<and> length (q_cooldown q) \<le> COOLDOWN_CAPACITY \<and> distinct (queue_keys q)"

lemma entry_is_key: "entry_is room job e \<longleftrightarrow> entry_key e = (room, job)"
  by (auto simp: entry_is_def entry_key_def)

lemma cool_key_simps [simp]: "cool_key (room, job, t) = (room, job)"
  by (simp add: cool_key_def)

lemma entry_key_simps [simp]:
  "entry_key \<lparr>ae_room = room, ae_job = job, ae_observed = b\<rparr> = (room, job)" "entry_key (e\<lparr>ae_observed := b\<rparr>) = entry_key e"
  by (simp_all add: entry_key_def)

lemma distinct_map_kept: "distinct (map f xs) \<Longrightarrow> distinct (map f (filter P xs))"
  by (induction xs) auto

text \<open>\<open>push\<close>, in the two ways it goes.\<close>

definition cooled :: "instant \<Rightarrow> acq_queue \<Rightarrow> acq_queue" where
  "cooled now q = q\<lparr>q_cooldown := filter (\<lambda>(_, _, until). now < until) (q_cooldown q)\<rparr>"

lemma list_ex_entry: "list_ex (entry_is room job) es \<longleftrightarrow> (room, job) \<in> entry_key ` set es"
  by (induction es) (auto simp: entry_is_key)

lemma list_ex_cool: "list_ex (\<lambda>(r, k, _). k = job \<and> r = room) cs \<longleftrightarrow> (room, job) \<in> cool_key ` set cs"
  by (induction cs) (auto simp: cool_key_def)

lemma push_guard:
  "(case q_running q of None \<Rightarrow> False | Some e \<Rightarrow> entry_is room job e) \<or> list_ex (entry_is room job) (q_queued q) \<or>
     list_ex (\<lambda>(r, k, _). k = job \<and> r = room) (q_cooldown q) \<longleftrightarrow> (room, job) \<in> set (queue_keys q)"
  unfolding list_ex_entry list_ex_cool by (auto simp: queue_keys_def running_list_def entry_is_key split: option.splits)

lemma push_cases:
  obtains (refused) "(room, job) \<in> set (queue_keys (cooled now q))" "push now room job q = (cooled now q, None, [])"
  | (queued) es dropped where "(room, job) \<notin> set (queue_keys (cooled now q))"
      "q_queued q = (case dropped of None \<Rightarrow> es | Some e \<Rightarrow> e # es)"
      "dropped = None \<longleftrightarrow> length (q_queued q) < QUEUE_CAPACITY"
      "push now room job q =
         ((cooled now q)\<lparr>q_queued := es @ [\<lparr>ae_room = room, ae_job = job, ae_observed = False\<rparr>], q_wake := True\<rparr>,
          map_option entry_key dropped,
          case dropped of None \<Rightarrow> [] | Some e \<Rightarrow> if ae_observed e then [(ae_room e, frame_source (ae_job e))] else [])"
proof (cases "(room, job) \<in> set (queue_keys (cooled now q))")
  case True
  then show ?thesis
    using refused by (simp add: push_def Let_def push_guard flip: cooled_def)
next
  case False
  have same: "q_queued (cooled now q) = q_queued q"
    by (simp add: cooled_def)
  show ?thesis
  proof (cases "QUEUE_CAPACITY \<le> length (q_queued q)")
    case True
    then obtain e es where "q_queued q = e # es"
      by (cases "q_queued q") (auto simp: QUEUE_CAPACITY_def)
    then show ?thesis
      using queued [of es "Some e"] False True
      by (simp add: push_def Let_def push_guard same entry_key_def flip: cooled_def)
  next
    case small: False
    then show ?thesis
      using queued [of "q_queued q" None] False
      by (simp add: push_def Let_def push_guard same flip: cooled_def)
  qed
qed

lemma queue_ok_cooled: "queue_ok q \<Longrightarrow> queue_ok (cooled now q)"
  by (auto simp: queue_ok_def queue_keys_def cooled_def running_list_def distinct_map_kept intro: le_trans [OF length_filter_le])

text \<open>Moving keys around keeps them distinct.\<close>

lemma distinct_push:
  "distinct (rs @ qs @ cs) \<Longrightarrow> k \<notin> set (rs @ qs @ cs) \<Longrightarrow> qs = es \<or> qs = d # es \<Longrightarrow> distinct (rs @ (es @ [k]) @ cs)"
  by auto

lemma distinct_hold:
  assumes "distinct ((k # qs) @ cs)"
  shows "distinct (qs @ cs @ [k])" "distinct (qs @ tl cs @ [k])" "distinct (qs @ cs)"
  using assms by (cases cs; auto)+

lemma queue_ok_push:
  assumes "queue_ok q" "push now room job q = (q', dropped, marks)"
  shows "queue_ok q'"
proof (cases rule: push_cases [of room job now q])
  case refused
  then show ?thesis
    using assms queue_ok_cooled by simp
next
  case (queued es d)
  let ?c = "cooled now q"
  have ok: "queue_ok ?c" "q_queued ?c = q_queued q"
    using queue_ok_cooled [OF assms(1)] by (simp_all add: cooled_def)
  have q': "q' = ?c\<lparr>q_queued := es @ [\<lparr>ae_room = room, ae_job = job, ae_observed = False\<rparr>], q_wake := True\<rparr>"
    using assms(2) queued(4) by simp
  have "distinct (map entry_key (running_list ?c) @ (map entry_key es @ [(room, job)]) @ map cool_key (q_cooldown ?c))"
    by (rule distinct_push [of _ "map entry_key (q_queued ?c)" _ _ _ "entry_key (the d)"])
      (use ok queued(1,2) in \<open>simp_all add: queue_ok_def queue_keys_def split: option.splits\<close>)
  moreover have "length es < QUEUE_CAPACITY"
    using ok queued(2,3) by (cases d) (simp_all add: queue_ok_def)
  ultimately show ?thesis
    using ok by (simp add: q' queue_ok_def queue_keys_def running_list_def)
qed

lemma observe_queued_keys:
  "observe_queued room job es = Some es' \<Longrightarrow> map entry_key es' = map entry_key es \<and> length es' = length es"
  by (induction es arbitrary: es') (auto split: if_splits)

text \<open>\<open>observe\<close> only sets a flag.\<close>

lemma observe_keys:
  assumes "observe room job q = (q', act)"
  shows "queue_keys q' = queue_keys q \<and> length (q_queued q') = length (q_queued q) \<and> q_cooldown q' = q_cooldown q"
proof (cases "observe_queued room job (q_queued q)")
  case None
  then show ?thesis
    using assms by (cases "q_running q") (auto simp: observe_def queue_keys_def running_list_def split: if_splits)
next
  case (Some es)
  then show ?thesis
    using assms observe_queued_keys [OF Some]
    by (cases "q_running q") (auto simp: observe_def queue_keys_def running_list_def split: if_splits)
qed

lemma queue_ok_observe: "queue_ok q \<Longrightarrow> observe room job q = (q', act) \<Longrightarrow> queue_ok q'"
  unfolding queue_ok_def using observe_keys [of room job q q' act] by simp

lemma take_next_keys:
  "q_running q = None \<Longrightarrow> take_next q = (q', taken) \<Longrightarrow> queue_keys q' = queue_keys q"
  by (auto simp: take_next_def queue_keys_def running_list_def split: list.splits)

lemma queue_ok_take: "queue_ok q \<Longrightarrow> q_running q = None \<Longrightarrow> take_next q = (q', taken) \<Longrightarrow> queue_ok q'"
  using take_next_keys [of q q' taken] by (auto simp: queue_ok_def take_next_def split: list.splits)

lemma queue_ok_flags [simp]: "queue_ok (q\<lparr>q_sending := b\<rparr>) = queue_ok q" "queue_ok (q\<lparr>q_wake := b\<rparr>) = queue_ok q"
  by (simp_all add: queue_ok_def queue_keys_def running_list_def)

lemma queue_ok_finish:
  assumes "queue_ok q" "finish now lf q = (q', observed)"
  shows "queue_ok q'"
proof (cases "q_running q")
  case None
  then have "queue_keys q' = queue_keys q" "q_queued q' = q_queued q" "q_cooldown q' = q_cooldown q"
    using assms(2) by (auto simp: finish_def Let_def queue_keys_def running_list_def)
  then show ?thesis
    using assms(1) unfolding queue_ok_def by simp
next
  case (Some e)
  let ?qs = "map entry_key (q_queued q)" and ?cs = "map cool_key (q_cooldown q)"
  have "distinct ((entry_key e # ?qs) @ ?cs)"
    using assms(1) Some by (simp add: queue_ok_def queue_keys_def running_list_def)
  note distinct = distinct_hold [OF this]
  have len: "length (q_cooldown q) \<le> COOLDOWN_CAPACITY" "length (q_queued q) \<le> QUEUE_CAPACITY" "0 < COOLDOWN_CAPACITY"
    using assms(1) by (simp_all add: queue_ok_def COOLDOWN_CAPACITY_def QUEUE_CAPACITY_def)
  have keys: "queue_keys q' = ?qs @ (if \<not> lf then ?cs
      else (if COOLDOWN_CAPACITY \<le> length (q_cooldown q) then tl ?cs else ?cs) @ [entry_key e])"
    using assms(2) Some by (auto simp: finish_def Let_def queue_keys_def running_list_def entry_key_def map_tl)
  have "distinct (queue_keys q')"
    unfolding keys using distinct by (cases lf; cases "COOLDOWN_CAPACITY \<le> length (q_cooldown q)") simp_all
  then show ?thesis
    using assms(2) Some len by (auto simp: finish_def Let_def queue_ok_def)
qed


section \<open>The kinds of worker step\<close>

fun pc_job :: "worker_pc \<Rightarrow> (rstr \<times> detail_job) option" where
  "pc_job (WTaken room job) = Some (room, job)"
| "pc_job (WDue room job _) = Some (room, job)"
| "pc_job (WPace room job _ _ _) = Some (room, job)"
| "pc_job (WSent room job _ _ _ _) = Some (room, job)"
| "pc_job (WRecord room job _ _ _ _) = Some (room, job)"
| "pc_job (WRecheck room job _ _ _) = Some (room, job)"
| "pc_job (WFinish room job _) = Some (room, job)"
| "pc_job _ = None"

fun pc_sent :: "worker_pc \<Rightarrow> instant option" where
  "pc_sent (WSent _ _ _ _ _ at) = Some at"
| "pc_sent _ = None"

text \<open>A step that only moves the worker on within its job, perhaps after a write to the cache.\<close>

definition internal_step :: "acq_system \<Rightarrow> acq_system \<Rightarrow> bool" where
  "internal_step s s' \<longleftrightarrow> (\<exists>db pc. s' = s\<lparr>aq_db := db, aq_pc := pc\<rparr> \<and> pc_job pc = pc_job (aq_pc s) \<and> pc_job pc \<noteq> None \<and>
     pc_sent pc = None \<and> pc_sent (aq_pc s) = None)"

lemma internal_stepI:
  "pc_job pc = pc_job (aq_pc s) \<Longrightarrow> pc_job pc \<noteq> None \<Longrightarrow> pc_sent pc = None \<Longrightarrow> pc_sent (aq_pc s) = None \<Longrightarrow>
   internal_step s (s\<lparr>aq_pc := pc\<rparr>)"
  "pc_job pc = pc_job (aq_pc s) \<Longrightarrow> pc_job pc \<noteq> None \<Longrightarrow> pc_sent pc = None \<Longrightarrow> pc_sent (aq_pc s) = None \<Longrightarrow>
   internal_step s (s\<lparr>aq_db := db, aq_pc := pc\<rparr>)"
  unfolding internal_step_def by (rule exI [of _ "aq_db s"], rule exI [of _ pc], simp) blast

lemma after_write_pc [simp]:
  "pc_job (after_write room job epoch todo r failed w) = Some (room, job)"
  "pc_sent (after_write room job epoch todo r failed w) = None"
  by (simp_all add: after_write_def Let_def)

lemma worker_step_cases:
  assumes "worker_step pj va inp s = Some s'"
  obtains (taken) q room job where "aq_pc s = WNext" "take_next (aq_queue s) = (q, Some (room, job))"
      "s' = s\<lparr>aq_queue := q, aq_pc := WTaken room job, aq_log := LogTaken room job (aq_now s) # aq_log s\<rparr>"
  | (empty) "aq_pc s = WNext" "q_queued (aq_queue s) = []" "s' = s\<lparr>aq_pc := WWait\<rparr>"
  | (woken) "aq_pc s = WWait" "s' = s\<lparr>aq_queue := (aq_queue s)\<lparr>q_wake := False\<rparr>, aq_pc := WNext\<rparr>"
  | (inside) "internal_step s s'"
  | (sent) room job epoch todo r where "aq_pc s = WPace room job epoch todo r"
      "\<And>t. aq_last s = Some t \<Longrightarrow> t + JOB_INTERVAL \<le> aq_now s"
      "s' = s\<lparr>aq_queue := set_sending True (aq_queue s), aq_pc := WSent room job epoch todo r (aq_now s),
              aq_log := LogSent room (job_kind job) (hd todo) (aq_now s) # aq_log s\<rparr>"
  | (replied) room job epoch todo r at out where "aq_pc s = WSent room job epoch todo r at"
      "s' = s\<lparr>aq_queue := set_sending False (aq_queue s), aq_last := Some at, aq_pc := WRecord room job epoch todo r out\<rparr>"
  | (finished) room job r q observed where "aq_pc s = WFinish room job r"
      "finish (aq_now s) (ran_local_failure r) (aq_queue s) = (q, observed)"
      "s' = s\<lparr>aq_queue := q, aq_pc := WNext, aq_log := log_finished (aq_now s) room job r observed (aq_log s)\<rparr>"
proof (cases "aq_pc s")
  case WNext
  then show ?thesis
    using assms taken empty
    by (cases inp) (auto simp: worker_step.simps take_next_def split: list.splits)
next
  case WWait
  then show ?thesis
    using assms woken by (cases inp) (auto simp: worker_step.simps split: if_splits)
next
  case (WPace room job epoch todo r)
  then show ?thesis
    using assms sent by (cases inp) (auto simp: worker_step.simps split: if_splits option.splits)
next
  case (WSent room job epoch todo r at)
  then show ?thesis
    using assms replied by (cases inp) (auto simp: worker_step.simps)
next
  case (WFinish room job r)
  then show ?thesis
    using assms finished by (cases inp) (auto simp: worker_step.simps split: prod.splits)
next
  case WStopped
  then show ?thesis
    using assms by (cases inp) (auto simp: worker_step.simps)
qed (use assms inside in \<open>cases inp; auto simp: worker_step.simps internal_stepI split: option.splits list.splits prod.splits if_splits\<close>)+

section \<open>The worker and its queue agree\<close>

text \<open>The taken entry is the job the worker is at, it reads as sending exactly while a request is in
  flight, and a worker that waits is about to be woken if a job is queued.\<close>

definition acq_ok :: "acq_system \<Rightarrow> bool" where
  "acq_ok s \<longleftrightarrow> queue_ok (aq_queue s) \<and>
     (aq_pc s \<noteq> WStopped \<longrightarrow>
        map_option entry_key (q_running (aq_queue s)) = pc_job (aq_pc s) \<and>
        (q_sending (aq_queue s) \<longleftrightarrow> pc_sent (aq_pc s) \<noteq> None)) \<and>
     (aq_pc s = WWait \<longrightarrow> q_queued (aq_queue s) = [] \<or> q_wake (aq_queue s))"

lemma push_running:
  assumes "push now room job q = (q', dropped, marks)"
  shows "q_running q' = q_running q" "q_sending q' = q_sending q" "q_queued q' = q_queued q \<and> q_wake q' = q_wake q \<or> q_wake q'"
  using assms by (cases rule: push_cases [of room job now q]; auto simp: cooled_def)+

lemma observe_running:
  assumes "observe room job q = (q', act)"
  shows "map_option entry_key (q_running q') = map_option entry_key (q_running q)" "q_sending q' = q_sending q"
    "q_wake q' = q_wake q" "q_queued q' = [] \<longleftrightarrow> q_queued q = []"
proof -
  have "length (q_queued q') = length (q_queued q)"
    using observe_keys [OF assms] by simp
  then show "q_queued q' = [] \<longleftrightarrow> q_queued q = []"
    by (metis length_0_conv)
qed (use assms in \<open>auto simp: observe_def split: option.splits if_splits\<close>)

lemma internal_step_ok: "internal_step s s' \<Longrightarrow> acq_ok s \<Longrightarrow> acq_ok s'"
  by (auto simp: internal_step_def acq_ok_def)

lemma pc_job_None_stopped [simp]: "pc_job WStopped = None"
  by simp

lemma acq_ok_worker:
  assumes "acq_ok s" "worker_step pj va inp s = Some s'"
  shows "acq_ok s'"
  using assms(2)
proof (cases rule: worker_step_cases)
  case (taken q room job)
  have "q_running (aq_queue s) = None"
    using assms(1) taken(1) by (simp add: acq_ok_def)
  then have "queue_ok q"
    using assms(1) taken(2) queue_ok_take [of "aq_queue s"] by (simp add: acq_ok_def)
  moreover have "map_option entry_key (q_running q) = Some (room, job)" "\<not> q_sending q"
    using taken(1,2) assms(1) by (auto simp: take_next_def entry_key_def acq_ok_def split: list.splits)
  ultimately show ?thesis
    using taken(3) by (auto simp: acq_ok_def)
next
  case (finished room job r q observed)
  then have "queue_ok q"
    using assms(1) queue_ok_finish [OF _ finished(2)] by (simp add: acq_ok_def)
  moreover have "q_running q = None" "\<not> q_sending q"
    using finished(2) by (auto simp: finish_def Let_def split: option.splits if_splits)
  ultimately show ?thesis
    using finished(3) by (simp add: acq_ok_def)
qed (use assms(1) internal_step_ok in \<open>auto simp: acq_ok_def set_sending_def\<close>)

lemma acq_ok_step:
  assumes "acq_ok s" "acq_step pj va act s = Some s'"
  shows "acq_ok s'"
proof (cases act)
  case (AcqRequest room job)
  obtain q dropped marks where push: "push (aq_now s) room job (aq_queue s) = (q, dropped, marks)"
    by (metis prod_cases3)
  then show ?thesis
    using assms AcqRequest queue_ok_push [OF _ push] push_running [OF push] by (auto simp: acq_ok_def)
next
  case (AcqObserve room job)
  obtain q act where obs: "observe room job (aq_queue s) = (q, act)"
    by fastforce
  then show ?thesis
    using assms AcqObserve queue_ok_observe [OF _ obs] observe_running [OF obs] by (auto simp: acq_ok_def)
next
  case (AcqWorker inp)
  then show ?thesis
    using assms acq_ok_worker by simp
qed (use assms in \<open>auto simp: acq_ok_def\<close>)

section \<open>Observed jobs are announced\<close>

fun open_obs :: "acq_event list \<Rightarrow> (rstr \<times> detail_job) set" where
  "open_obs [] = {}"
| "open_obs (LogObserved room job # l) = insert (room, job) (open_obs l)"
| "open_obs (LogMark room job src # l) = (if src = frame_source job then open_obs l - {(room, job)} else open_obs l)"
| "open_obs (_ # l) = open_obs l"

definition seen_keys :: "acq_queue \<Rightarrow> (rstr \<times> detail_job) set" where
  "seen_keys q = {entry_key e | e. e \<in> set (running_list q @ q_queued q) \<and> ae_observed e}"

definition obs_ok :: "acq_system \<Rightarrow> bool" where
  "obs_ok s \<longleftrightarrow> open_obs (aq_log s) \<subseteq> seen_keys (aq_queue s)"

lemma seen_keysI: "e \<in> set (running_list q @ q_queued q) \<Longrightarrow> ae_observed e \<Longrightarrow> entry_key e \<in> seen_keys q"
  unfolding seen_keys_def by blast

lemma seen_keysE:
  assumes "k \<in> seen_keys q"
  obtains e where "e \<in> set (running_list q @ q_queued q)" "ae_observed e" "entry_key e = k"
  using assms unfolding seen_keys_def by blast

lemma log_dropped_obs:
  "open_obs (log_dropped (map_option entry_key d)
     (case d of None \<Rightarrow> [] | Some e \<Rightarrow> if ae_observed e then [(ae_room e, frame_source (ae_job e))] else []) l) =
   (case d of None \<Rightarrow> open_obs l | Some e \<Rightarrow> if ae_observed e then open_obs l - {entry_key e} else open_obs l)"
  by (cases d) (simp_all add: log_dropped_def entry_key_def)

lemma obs_push:
  assumes "push now room job q = (q', dropped, marks)" "open_obs l \<subseteq> seen_keys q" "queue_ok q"
  shows "open_obs (log_dropped dropped marks l) \<subseteq> seen_keys q'"
proof (cases rule: push_cases [of room job now q])
  case refused
  then show ?thesis
    using assms(1,2) by (simp add: log_dropped_def seen_keys_def cooled_def running_list_def)
next
  case (queued es d)
  have q': "q_running q' = q_running q" "q_queued q' = es @ [\<lparr>ae_room = room, ae_job = job, ae_observed = False\<rparr>]"
    using assms(1) queued(4) by (auto simp: cooled_def)
  have out: "dropped = map_option entry_key d"
    "marks = (case d of None \<Rightarrow> [] | Some e \<Rightarrow> if ae_observed e then [(ae_room e, frame_source (ae_job e))] else [])"
    using assms(1) queued(4) by simp_all
  show ?thesis
    unfolding out log_dropped_obs
  proof
    fix k
    assume k: "k \<in> (case d of None \<Rightarrow> open_obs l | Some e \<Rightarrow> if ae_observed e then open_obs l - {entry_key e} else open_obs l)"
    then have "k \<in> seen_keys q"
      using assms(2) by (auto split: option.splits if_splits)
    then obtain e where e: "e \<in> set (running_list q @ q_queued q)" "ae_observed e" "entry_key e = k"
      by (rule seen_keysE)
    have "e \<in> set (running_list q @ es)"
      using e k queued(2) by (auto split: option.splits if_splits)
    then show "k \<in> seen_keys q'"
      using seen_keysI [of e q'] e(2,3) by (auto simp: running_list_def q')
  qed
qed

lemma observe_queued_seen:
  "observe_queued room job es = Some es' \<Longrightarrow>
   \<exists>e' \<in> set es'. entry_key e' = (room, job) \<and> ae_observed e'"
  by (induction es arbitrary: es') (auto simp: entry_is_key split: if_splits)

lemma observe_queued_mono:
  "observe_queued room job es = Some es' \<Longrightarrow> e \<in> set es \<Longrightarrow> ae_observed e \<Longrightarrow>
   \<exists>e' \<in> set es'. entry_key e' = entry_key e \<and> ae_observed e'"
  by (induction es arbitrary: es') (auto split: if_splits)

lemma observe_seen:
  assumes "observe room job q = (q', act)"
  shows "seen_keys q \<subseteq> seen_keys q'" "act \<noteq> JobIdle \<Longrightarrow> (room, job) \<in> seen_keys q'"
proof -
  consider (running) e where "q_running q = Some e" "entry_is room job e" "q' = q\<lparr>q_running := Some (e\<lparr>ae_observed := True\<rparr>)\<rparr>"
    | (queued) es where "observe_queued room job (q_queued q) = Some es" "q' = q\<lparr>q_queued := es\<rparr>"
    | (idle) "q' = q" "act = JobIdle"
    using assms by (auto simp: observe_def split: option.splits if_splits)
  note cases = this
  show "seen_keys q \<subseteq> seen_keys q'"
  proof
    fix k
    assume "k \<in> seen_keys q"
    then obtain e where e: "e \<in> set (running_list q @ q_queued q)" "ae_observed e" "entry_key e = k"
      by (rule seen_keysE)
    from cases show "k \<in> seen_keys q'"
    proof cases
      case (running d)
      then show ?thesis
        using e seen_keysI [of e q'] seen_keysI [of "d\<lparr>ae_observed := True\<rparr>" q'] by (auto simp: running_list_def)
    next
      case (queued es)
      then show ?thesis
        using e observe_queued_mono [OF queued(1), of e] seen_keysI [of _ q'] by (fastforce simp: running_list_def)
    qed (use e in \<open>auto intro: seen_keysI\<close>)
  qed
  show "(room, job) \<in> seen_keys q'" if "act \<noteq> JobIdle"
    using cases
  proof cases
    case (running d)
    then show ?thesis
      using seen_keysI [of "d\<lparr>ae_observed := True\<rparr>" q'] by (simp add: running_list_def entry_is_key)
  next
    case (queued es)
    then show ?thesis
      using observe_queued_seen [OF queued(1)] seen_keysI [of _ q'] by fastforce
  qed (use that in simp)
qed

lemma take_seen: "q_running q = None \<Longrightarrow> take_next q = (q', taken) \<Longrightarrow> seen_keys q' = seen_keys q"
  by (auto simp: take_next_def seen_keys_def running_list_def split: list.splits)

lemma finish_seen:
  assumes "finish now lf q = (q', observed)" "map_option entry_key (q_running q) = Some (room, job)"
  shows "seen_keys q - (if observed then {(room, job)} else {}) \<subseteq> seen_keys q'"
  using assms by (auto simp: finish_def Let_def seen_keys_def running_list_def split: option.splits if_splits)

lemma obs_ok_worker:
  assumes "acq_ok s" "obs_ok s" "worker_step pj va inp s = Some s'"
  shows "obs_ok s'"
  using assms(3)
proof (cases rule: worker_step_cases)
  case (taken q room job)
  then show ?thesis
    using assms(1,2) take_seen [of "aq_queue s" q] by (simp add: obs_ok_def acq_ok_def)
next
  case (finished room job r q observed)
  then have "open_obs (aq_log s) - (if observed then {(room, job)} else {}) \<subseteq> seen_keys q"
    using assms(1,2) finish_seen [OF finished(2), of room job] by (auto simp: obs_ok_def acq_ok_def)
  then show ?thesis
    using finished(3) by (auto simp: obs_ok_def log_finished_def split: if_splits)
qed (use assms(2) in \<open>auto simp: obs_ok_def internal_step_def seen_keys_def running_list_def set_sending_def\<close>)

lemma obs_ok_step:
  assumes "acq_ok s" "obs_ok s" "acq_step pj va act s = Some s'"
  shows "obs_ok s'"
proof (cases act)
  case (AcqRequest room job)
  obtain q dropped marks where push: "push (aq_now s) room job (aq_queue s) = (q, dropped, marks)"
    by (metis prod_cases3)
  then show ?thesis
    using assms AcqRequest obs_push [OF push, of "aq_log s"] unfolding obs_ok_def acq_ok_def by fastforce
next
  case (AcqObserve room job)
  obtain q res where obs: "observe room job (aq_queue s) = (q, res)"
    by fastforce
  have "open_obs (aq_log s') \<subseteq> insert (room, job) (open_obs (aq_log s))" "res = JobIdle \<Longrightarrow> aq_log s' = aq_log s" "aq_queue s' = q"
    using assms(3) AcqObserve obs by (auto split: if_splits)
  then show ?thesis
    using assms(2) observe_seen [OF obs] unfolding obs_ok_def by (cases "res = JobIdle") auto
next
  case (AcqWorker inp)
  then show ?thesis
    using assms obs_ok_worker by simp
qed (use assms in \<open>auto simp: obs_ok_def\<close>)

lemma open_obs_split:
  "l = post @ LogObserved room job # pre \<Longrightarrow> (room, job) \<notin> open_obs l \<Longrightarrow>
   LogMark room job (frame_source job) \<in> set post"
  by (induction post arbitrary: l rule: open_obs.induct) (auto split: if_splits)

section \<open>Requests are paced\<close>

fun sent_times :: "acq_event list \<Rightarrow> instant list" where
  "sent_times [] = []"
| "sent_times (LogSent _ _ _ t # l) = t # sent_times l"
| "sent_times (_ # l) = sent_times l"

definition paced :: "instant list \<Rightarrow> bool" where
  "paced ts \<longleftrightarrow> sorted_wrt (\<lambda>later earlier. earlier + JOB_INTERVAL \<le> later) ts"

definition pace_ok :: "acq_system \<Rightarrow> bool" where
  "pace_ok s \<longleftrightarrow> paced (sent_times (aq_log s)) \<and>
     (aq_pc s \<noteq> WStopped \<longrightarrow>
       (case pc_sent (aq_pc s) of
          Some at \<Rightarrow> \<exists>ts. sent_times (aq_log s) = at # ts
        | None \<Rightarrow> aq_last s = (case sent_times (aq_log s) of [] \<Rightarrow> None | t # _ \<Rightarrow> Some t)))"

lemma sent_times_log [simp]:
  "sent_times (log_dropped dropped marks l) = sent_times l" "sent_times (log_finished now room job r observed l) = sent_times l"
proof -
  have "sent_times (map (\<lambda>(room, src). LogMark room job src) marks @ l) = sent_times l" for job
    by (induction marks) auto
  then show "sent_times (log_dropped dropped marks l) = sent_times l"
    by (auto simp: log_dropped_def split: option.splits)
qed (simp add: log_finished_def)

lemma paced_Cons:
  assumes "paced ts" "\<And>t. ts = t # tl ts \<Longrightarrow> t + JOB_INTERVAL \<le> now"
  shows "paced (now # ts)"
proof (cases ts)
  case (Cons t us)
  then have "t + JOB_INTERVAL \<le> now" "\<forall>u \<in> set us. u + JOB_INTERVAL \<le> t"
    using assms by (auto simp: paced_def)
  then have "\<forall>u \<in> set ts. u + JOB_INTERVAL \<le> now"
    using Cons by auto
  then show ?thesis
    using assms(1) by (simp add: paced_def)
qed (simp add: paced_def)

lemma pace_ok_worker:
  assumes "pace_ok s" "worker_step pj va inp s = Some s'"
  shows "pace_ok s'"
  using assms(2)
proof (cases rule: worker_step_cases)
  case (sent room job epoch todo r)
  then have "aq_last s = (case sent_times (aq_log s) of [] \<Rightarrow> None | t # _ \<Rightarrow> Some t)" "paced (sent_times (aq_log s))"
    using assms(1) by (simp_all add: pace_ok_def)
  then have "paced (aq_now s # sent_times (aq_log s))"
    using sent(2) by (intro paced_Cons) (auto split: list.splits)
  then show ?thesis
    using sent(3) by (simp add: pace_ok_def)
qed (use assms(1) in \<open>auto simp: pace_ok_def internal_step_def\<close>)

lemma pace_ok_step:
  assumes "pace_ok s" "acq_step pj va act s = Some s'"
  shows "pace_ok s'"
  using assms pace_ok_worker [OF assms(1)]
  by (cases act) (auto simp: pace_ok_def split: prod.splits if_splits option.splits)

section \<open>Local failures are held back\<close>

text \<open>The failures of a log, each with the number of failures after it.\<close>

fun fails :: "acq_event list \<Rightarrow> (rstr \<times> detail_job \<times> instant \<times> nat) list" where
  "fails [] = []"
| "fails (LogFailed room job t # l) = (room, job, t, 0) # map (\<lambda>(r, j, u, n). (r, j, u, Suc n)) (fails l)"
| "fails (_ # l) = fails l"

fun failed_count :: "acq_event list \<Rightarrow> nat" where
  "failed_count [] = 0"
| "failed_count (LogFailed _ _ _ # l) = Suc (failed_count l)"
| "failed_count (_ # l) = failed_count l"

lemma fails_split: "(room, job, t, failed_count post) \<in> set (fails (post @ LogFailed room job t # pre))"
  by (induction post rule: failed_count.induct) (auto intro: rev_image_eqI)

text \<open>\<open>held now cs (room, job, t, n)\<close>: a failure at \<open>t\<close> with \<open>n\<close> more after it is over, forgotten, or in the
  cooldown with at most \<open>n\<close> entries behind it.\<close>

definition held :: "instant \<Rightarrow> (rstr \<times> detail_job \<times> instant) list \<Rightarrow> rstr \<Rightarrow> detail_job \<Rightarrow> instant \<Rightarrow> nat \<Rightarrow> bool" where
  "held now cs room job t n \<longleftrightarrow> t + FAILURE_BACKOFF_MIN \<le> now \<or> COOLDOWN_CAPACITY \<le> n \<or>
     (\<exists>as bs. cs = as @ (room, job, t + FAILURE_BACKOFF_MIN) # bs \<and> length bs \<le> n)"

fun taken_ok :: "acq_event list \<Rightarrow> bool" where
  "taken_ok [] \<longleftrightarrow> True"
| "taken_ok (LogTaken room job now # l) \<longleftrightarrow> taken_ok l \<and>
     (\<forall>t n. (room, job, t, n) \<in> set (fails l) \<longrightarrow> t + FAILURE_BACKOFF_MIN \<le> now \<or> COOLDOWN_CAPACITY \<le> n)"
| "taken_ok (_ # l) \<longleftrightarrow> taken_ok l"

definition hold_ok :: "acq_system \<Rightarrow> bool" where
  "hold_ok s \<longleftrightarrow> taken_ok (aq_log s) \<and>
     (\<forall>room job t n. (room, job, t, n) \<in> set (fails (aq_log s)) \<longrightarrow> held (aq_now s) (q_cooldown (aq_queue s)) room job t n)"

lemma fails_log_dropped [simp]: "fails (log_dropped dropped marks l) = fails l" "taken_ok (log_dropped dropped marks l) = taken_ok l"
proof -
  have "fails (map (\<lambda>(room, src). LogMark room job src) marks @ l) = fails l"
    "taken_ok (map (\<lambda>(room, src). LogMark room job src) marks @ l) = taken_ok l" for job
    by (induction marks) auto
  then show "fails (log_dropped dropped marks l) = fails l" "taken_ok (log_dropped dropped marks l) = taken_ok l"
    by (auto simp: log_dropped_def split: option.splits)
qed

lemma held_later: "held now cs room job t n \<Longrightarrow> held (now + d) cs room job t n"
  by (auto simp: held_def)

lemma held_filter:
  assumes "held now cs room job t n"
  shows "held now (filter (\<lambda>(_, _, until). now < until) cs) room job t n"
proof (cases "t + FAILURE_BACKOFF_MIN \<le> now \<or> COOLDOWN_CAPACITY \<le> n")
  case False
  then obtain as bs where cs: "cs = as @ (room, job, t + FAILURE_BACKOFF_MIN) # bs" "length bs \<le> n"
    using assms by (auto simp: held_def)
  have "length (filter (\<lambda>(_, _, until). now < until) bs) \<le> n"
    using cs(2) length_filter_le order_trans by blast
  then show ?thesis
    using False by (auto simp: held_def cs(1))
qed (auto simp: held_def)

lemma push_cooldown:
  "push now room job q = (q', dropped, marks) \<Longrightarrow> q_cooldown q' = filter (\<lambda>(_, _, until). now < until) (q_cooldown q)"
  by (cases rule: push_cases [of room job now q]) (auto simp: cooled_def)

text \<open>A new failure pushes the oldest entry out of a full cooldown.\<close>

lemma held_append:
  assumes "held now cs room job t n"
  shows "held now ((if COOLDOWN_CAPACITY \<le> length cs then tl cs else cs) @ [c]) room job t (Suc n)"
proof (cases "t + FAILURE_BACKOFF_MIN \<le> now \<or> COOLDOWN_CAPACITY \<le> n")
  case False
  then obtain as bs where cs: "cs = as @ (room, job, t + FAILURE_BACKOFF_MIN) # bs" "length bs \<le> n"
    using assms by (auto simp: held_def)
  show ?thesis
  proof (cases "COOLDOWN_CAPACITY \<le> length cs \<and> as = []")
    case True
    then have "COOLDOWN_CAPACITY \<le> Suc n"
      using cs by auto
    then show ?thesis
      by (simp add: held_def)
  next
    case False
    define as' where "as' = (if COOLDOWN_CAPACITY \<le> length cs then tl as else as)"
    have "(if COOLDOWN_CAPACITY \<le> length cs then tl cs else cs) @ [c] =
        as' @ (room, job, t + FAILURE_BACKOFF_MIN) # (bs @ [c])"
      using False cs(1) by (auto simp: as'_def)
    moreover have "length (bs @ [c]) \<le> Suc n"
      using cs(2) by simp
    ultimately show ?thesis
      unfolding held_def by blast
  qed
qed (auto simp: held_def)

lemma hold_ok_finish:
  assumes "hold_ok s" "finish (aq_now s) (ran_local_failure r) (aq_queue s) = (q, observed)"
    "map_option entry_key (q_running (aq_queue s)) = Some (room, job)"
  shows "hold_ok (s\<lparr>aq_queue := q, aq_pc := WNext, aq_log := log_finished (aq_now s) room job r observed (aq_log s)\<rparr>)"
proof (cases "ran_local_failure r")
  case True
  let ?cs = "q_cooldown (aq_queue s)"
  let ?c = "(room, job, aq_now s + FAILURE_BACKOFF_MIN)"
  have q: "q_cooldown q = (if COOLDOWN_CAPACITY \<le> length ?cs then tl ?cs else ?cs) @ [?c]"
    using assms(2,3) True by (auto simp: finish_def Let_def entry_key_def)
  have log: "fails (log_finished (aq_now s) room job r observed (aq_log s)) =
      (room, job, aq_now s, 0) # map (\<lambda>(r, j, u, n). (r, j, u, Suc n)) (fails (aq_log s))"
    "taken_ok (log_finished (aq_now s) room job r observed (aq_log s)) = taken_ok (aq_log s)"
    using True by (simp_all add: log_finished_def)
  have new: "held (aq_now s) (q_cooldown q) room job (aq_now s) 0"
    unfolding held_def q by blast
  have old: "held (aq_now s) (q_cooldown q) r' j u (Suc n)" if "(r', j, u, n) \<in> set (fails (aq_log s))" for r' j u n
    unfolding q by (rule held_append) (use assms(1) that in \<open>auto simp: hold_ok_def\<close>)
  show ?thesis
    using assms(1) new old by (auto simp: hold_ok_def log)
next
  case False
  then have "q_cooldown q = q_cooldown (aq_queue s)" "fails (log_finished (aq_now s) room job r observed (aq_log s)) = fails (aq_log s)"
    "taken_ok (log_finished (aq_now s) room job r observed (aq_log s)) = taken_ok (aq_log s)"
    using assms(2) by (auto simp: finish_def Let_def log_finished_def split: option.splits)
  then show ?thesis
    using assms(1) by (simp add: hold_ok_def)
qed

lemma hold_ok_take:
  assumes "acq_ok s" "hold_ok s" "aq_pc s = WNext" "take_next (aq_queue s) = (q, Some (room, job))"
  shows "hold_ok (s\<lparr>aq_queue := q, aq_pc := WTaken room job, aq_log := LogTaken room job (aq_now s) # aq_log s\<rparr>)"
proof -
  obtain e es where queue: "q_queued (aq_queue s) = e # es" "entry_key e = (room, job)" "q_cooldown q = q_cooldown (aq_queue s)"
    using assms(4) by (auto simp: take_next_def entry_key_def split: list.splits)
  have "(room, job) \<notin> set (map cool_key (q_cooldown (aq_queue s)))"
    using assms(1) queue by (auto simp: acq_ok_def queue_ok_def queue_keys_def)
  then have gone: "\<nexists>as t bs. q_cooldown (aq_queue s) = as @ (room, job, t) # bs"
    by auto
  have "t + FAILURE_BACKOFF_MIN \<le> aq_now s \<or> COOLDOWN_CAPACITY \<le> n" if "(room, job, t, n) \<in> set (fails (aq_log s))" for t n
    using assms(2) that gone unfolding hold_ok_def held_def by blast
  then show ?thesis
    using assms(2) queue(3) by (auto simp: hold_ok_def)
qed

lemma hold_ok_worker:
  assumes "acq_ok s" "hold_ok s" "worker_step pj va inp s = Some s'"
  shows "hold_ok s'"
  using assms(3)
proof (cases rule: worker_step_cases)
  case (taken q room job)
  then show ?thesis
    using hold_ok_take [OF assms(1,2)] by simp
next
  case (finished room job r q observed)
  then show ?thesis
    using assms(1) hold_ok_finish [OF assms(2) finished(2)] by (simp add: acq_ok_def)
qed (use assms(2) in \<open>auto simp: hold_ok_def internal_step_def set_sending_def\<close>)

lemma hold_ok_step:
  assumes "acq_ok s" "hold_ok s" "acq_step pj va act s = Some s'"
  shows "hold_ok s'"
proof (cases act)
  case (AcqRequest room job)
  obtain q dropped marks where push: "push (aq_now s) room job (aq_queue s) = (q, dropped, marks)"
    by (metis prod_cases3)
  then show ?thesis
    using assms AcqRequest held_filter push_cooldown [OF push] by (auto simp: hold_ok_def)
next
  case (AcqObserve room job)
  obtain q res where obs: "observe room job (aq_queue s) = (q, res)"
    by fastforce
  then show ?thesis
    using assms AcqObserve observe_keys [OF obs] by (auto simp: hold_ok_def split: if_splits)
next
  case (AcqWorker inp)
  then show ?thesis
    using assms hold_ok_worker by simp
next
  case (AcqTick d)
  then show ?thesis
    using assms held_later by (auto simp: hold_ok_def)
qed (use assms in \<open>auto simp: hold_ok_def\<close>)

lemma taken_ok_split:
  "taken_ok (post @ LogTaken room job now # l) \<Longrightarrow> (room, job, t, n) \<in> set (fails l) \<Longrightarrow>
   t + FAILURE_BACKOFF_MIN \<le> now \<or> COOLDOWN_CAPACITY \<le> n"
  by (induction post rule: taken_ok.induct) auto

section \<open>The whole invariant\<close>

definition acq_inv :: "acq_system \<Rightarrow> bool" where
  "acq_inv s \<longleftrightarrow> acq_ok s \<and> obs_ok s \<and> pace_ok s \<and> hold_ok s"

definition acq_init :: "acq_system \<Rightarrow> bool" where
  "acq_init s \<longleftrightarrow> (\<exists>now db. s = acq_boot now db)"

definition acq_steps :: "(nat list \<Rightarrow> json_value option) \<Rightarrow> (rstr \<Rightarrow> bool) \<Rightarrow> acq_system \<Rightarrow> acq_system \<Rightarrow> bool" where
  "acq_steps pj va s s' \<longleftrightarrow> (\<exists>act. acq_step pj va act s = Some s')"

interpretation acquisition: inv_system acq_init "acq_steps pj va" acq_inv for pj va
proof unfold_locales
  show "acq_inv s" if "acq_init s" for s
    using that by (auto simp: acq_init_def acq_boot_def acq_inv_def acq_ok_def queue_new_def queue_ok_def queue_keys_def
        running_list_def obs_ok_def pace_ok_def paced_def hold_ok_def)
  show "acq_inv t" if "acq_inv s" "acq_steps pj va s t" for s t
    using that acq_ok_step obs_ok_step pace_ok_step hold_ok_step unfolding acq_inv_def acq_steps_def by blast
qed

lemma acq_run_steps: "acq_run pj va acts s = Some s' \<Longrightarrow> (acq_steps pj va)\<^sup>*\<^sup>* s s'"
proof (induction acts arbitrary: s)
  case (Cons act acts)
  then obtain u where "acq_step pj va act s = Some u" "acq_run pj va acts u = Some s'"
    by (auto simp: Option.bind_eq_Some_conv)
  then show ?case
    using Cons.IH [of u] by (auto simp: acq_steps_def intro: converse_rtranclp_into_rtranclp)
qed simp

lemma acq_run_inv: "acq_run pj va acts (acq_boot now db) = Some s \<Longrightarrow> acq_inv s"
  by (rule acquisition.reach_inv [OF _ acq_run_steps]) (auto simp: acq_init_def)

section \<open>Properties\<close>

definition demo_acts :: "acq_act list" where
  "demo_acts = [AcqRequest demo_room JobLocalAliases, AcqObserve demo_room JobLocalAliases, AcqWorker (Go 0), AcqWorker (Go 0),
     AcqWorker (Go 0), AcqWorker Admitted, AcqWorker (Replied (ReplyFailed NaTimeout)), AcqWorker StoreFailed, AcqWorker (Go 0),
     AcqTick (from_secs 60), AcqRequest demo_room JobLocalAliases, AcqWorker (Go 0), AcqWorker (Go 0), AcqWorker (Go 0),
     AcqWorker Admitted]"

definition demo_end :: acq_system where
  "demo_end = the (acq_run (\<lambda>_. None) (\<lambda>_. True) demo_acts (acq_boot 0 demo_db))"

definition demo_log :: "acq_event list" where
  "demo_log = [LogSent demo_room LocalAliases [] (from_secs 60), LogTaken demo_room JobLocalAliases (from_secs 60),
     LogMark demo_room JobLocalAliases HomeserverDetails, LogFailed demo_room JobLocalAliases 0,
     LogSent demo_room LocalAliases [] 0, LogTaken demo_room JobLocalAliases 0, LogObserved demo_room JobLocalAliases]"

lemma demo_joined: "joined_epoch demo_db demo_room = Some 0"
  by (simp add: demo_db_def joined_epoch_def member_joined_def demo_member_def jget_def)

lemma demo_due: "job_todo demo_db 0 demo_room JobLocalAliases = [[]]"
  by (simp add: job_todo_def room_detail_snapshot_def demo_db_def detail_keys_def)

lemmas demo_acq_eval = demo_end_def demo_acts_def acq_boot_def queue_new_def push_def observe_def take_next_def finish_def
  set_sending_def worker_step.simps entry_is_def Let_def demo_joined demo_due after_write_def ran_record_def no_run_def
  log_finished_def log_dropped_def demo_log_def JOB_INTERVAL_def FAILURE_BACKOFF_MIN_def COOLDOWN_CAPACITY_def QUEUE_CAPACITY_def
  from_secs_def

lemma demo_acq_run:
  "acq_run (\<lambda>_. None) (\<lambda>_. True) demo_acts (acq_boot 0 demo_db) = Some demo_end" "aq_log demo_end = demo_log"
  by (simp_all add: demo_acq_eval)

text \<open>C19: The queue is bounded and unambiguous. However reads, the worker, other transactions and a
  cancellation interleave, at most 32 jobs wait and at most 64 are held back; a room's job is in at most
  one of the taken entry, the queue and the hold; the taken entry is the job the worker is at; it
  reads as running exactly while a request is in flight; and a worker that sleeps with a job queued
  has been woken.\<close>

theorem acq_queue_consistent:
  assumes "acq_run pj va acts (acq_boot now db) = Some s"
  shows "length (q_queued (aq_queue s)) \<le> 32 \<and> length (q_cooldown (aq_queue s)) \<le> 64 \<and> distinct (queue_keys (aq_queue s)) \<and>
    (aq_pc s \<noteq> WStopped \<longrightarrow> map_option entry_key (q_running (aq_queue s)) = pc_job (aq_pc s) \<and>
       (q_sending (aq_queue s) \<longleftrightarrow> pc_sent (aq_pc s) \<noteq> None)) \<and>
    (aq_pc s = WWait \<and> q_queued (aq_queue s) \<noteq> [] \<longrightarrow> q_wake (aq_queue s))"
  using acq_run_inv [OF assms]
  unfolding acq_inv_def acq_ok_def queue_ok_def QUEUE_CAPACITY_def COOLDOWN_CAPACITY_def by auto

theorem acq_queue_consistent_witness: "length (q_queued (aq_queue demo_end)) \<le> 32"
  using acq_queue_consistent [OF demo_acq_run(1)] by blast

text \<open>C20: A job a read reported as queued or running is announced when it ends. After every read that saw
  the job, either the job is still queued or taken, with the flag that makes its end announced, or a
  mark for the room and the read's source has followed; this includes jobs dropped from a full queue and
  jobs that failed.\<close>

theorem acq_observed_announced:
  assumes "acq_run pj va acts (acq_boot now db) = Some s" "aq_log s = post @ LogObserved room job # pre"
  shows "LogMark room job (frame_source job) \<in> set post \<or>
    (\<exists>e \<in> set (running_list (aq_queue s) @ q_queued (aq_queue s)). ae_room e = room \<and> ae_job e = job \<and> ae_observed e)"
proof (cases "(room, job) \<in> open_obs (aq_log s)")
  case True
  then have "(room, job) \<in> seen_keys (aq_queue s)"
    using acq_run_inv [OF assms(1)] unfolding acq_inv_def obs_ok_def by blast
  then obtain e where "e \<in> set (running_list (aq_queue s) @ q_queued (aq_queue s))" "ae_observed e" "entry_key e = (room, job)"
    by (rule seen_keysE)
  then show ?thesis
    unfolding entry_key_def by blast
next
  case False
  then show ?thesis
    using open_obs_split [OF assms(2)] by blast
qed

theorem acq_observed_announced_witness:
  "LogMark demo_room JobLocalAliases HomeserverDetails \<in> set demo_log \<and>
   (LogMark demo_room JobLocalAliases HomeserverDetails \<in> set (butlast demo_log) \<or>
    (\<exists>e \<in> set (running_list (aq_queue demo_end) @ q_queued (aq_queue demo_end)). ae_room e = demo_room))"
  using acq_observed_announced [OF demo_acq_run(1), of "butlast demo_log" demo_room JobLocalAliases "[]"] demo_acq_run(2)
  by (auto simp: demo_log_def)

text \<open>The homeserver is asked at a bounded rate: any two requests of an account run start at least
  250 ms apart, however long the gate holds either back.\<close>

theorem acq_requests_paced:
  assumes "acq_run pj va acts (acq_boot now db) = Some s"
    "aq_log s = post @ LogSent room' kind' type' t' # mid @ LogSent room kind type t # pre"
  shows "t + 250 * 1000000 \<le> t'"
proof -
  have "sent_times (xs @ ys) = sent_times xs @ sent_times ys" for xs ys
    by (induction xs rule: sent_times.induct) auto
  then show ?thesis
    using acq_run_inv [OF assms(1)] assms(2)
    by (simp add: acq_inv_def pace_ok_def paced_def sorted_wrt_append JOB_INTERVAL_def)
qed

theorem acq_requests_paced_witness: "(0 :: nat) + 250 * 1000000 \<le> from_secs 60"
  using acq_requests_paced [OF demo_acq_run(1), of "[]" demo_room LocalAliases "[]" "from_secs 60"
      "[LogTaken demo_room JobLocalAliases (from_secs 60), LogMark demo_room JobLocalAliases HomeserverDetails,
        LogFailed demo_room JobLocalAliases 0]" demo_room LocalAliases "[]" 0
      "[LogTaken demo_room JobLocalAliases 0, LogObserved demo_room JobLocalAliases]"]
    demo_acq_run(2)
  by (simp add: demo_log_def)

text \<open>A job whose result could not be read or recorded locally, so that no backoff was stored, is
  not taken again for a minute, however often it is requested, unless 64 further jobs failed in the
  same way.\<close>

theorem acq_failures_held:
  assumes "acq_run pj va acts (acq_boot now db) = Some s"
    "aq_log s = post @ LogTaken room job t' # mid @ LogFailed room job t # pre"
  shows "t + from_secs 60 \<le> t' \<or> 64 \<le> failed_count mid"
  using taken_ok_split [of post room job t' "mid @ LogFailed room job t # pre" t "failed_count mid"]
    fails_split [of room job t mid pre] acq_run_inv [OF assms(1)] assms(2)
  by (simp add: acq_inv_def hold_ok_def FAILURE_BACKOFF_MIN_def COOLDOWN_CAPACITY_def QUEUE_CAPACITY_def)

theorem acq_failures_held_witness: "0 + from_secs 60 \<le> from_secs 60 \<or> (64 :: nat) \<le> failed_count [LogMark demo_room JobLocalAliases HomeserverDetails]"
  by (rule acq_failures_held [OF demo_acq_run(1), of "[LogSent demo_room LocalAliases [] (from_secs 60)]" demo_room JobLocalAliases _ _ _
        "[LogSent demo_room LocalAliases [] 0, LogTaken demo_room JobLocalAliases 0, LogObserved demo_room JobLocalAliases]"])
    (simp add: demo_acq_run(2) demo_log_def)

end
