(* ===== verification/Metadata_Routes.thy ===== *)
theory Metadata_Routes
  imports Room_Metadata Detail_Worker
begin

text \<open>
  The two reads of room details (\<^verbatim>\<open>crates/axon-api/src/routes/room_metadata.rs\<close>): they put together the typed snapshots of
  \<open>Room_Metadata\<close>, the cache of \<open>Detail_Store\<close> and the registry of \<open>Detail_Worker\<close>. The two queries of a read see the database at
  two moments, \<open>db1\<close> and \<open>db2\<close>. \<open>json_len\<close> is the length of a content as the database prints it.
\<close>

section \<open>Rows and snapshots\<close>

record metadata_row =
  mr_type :: rstr
  mr_state :: state_tuple
  mr_oversized :: bool

definition MAX_METADATA_BYTES :: nat where
  "MAX_METADATA_BYTES = 131072"

definition state_row :: "(json_value \<Rightarrow> nat) \<Rightarrow> rstr \<Rightarrow> state_tuple \<Rightarrow> metadata_row" where
  "state_row json_len t st =
     (let oversized = (case st_content st of None \<Rightarrow> False | Some c \<Rightarrow> MAX_METADATA_BYTES < json_len c)
      in \<lparr>mr_type = t, mr_state = (if oversized then st\<lparr>st_content := None\<rparr> else st), mr_oversized = oversized\<rparr>)"

definition room_metadata_states :: "(json_value \<Rightarrow> nat) \<Rightarrow> detail_db \<Rightarrow> rstr \<Rightarrow> rstr list \<Rightarrow> metadata_row list" where
  "room_metadata_states json_len db room types =
     List.map_filter (\<lambda>t. map_option (state_row json_len t) (db_state db (room, t, []))) (sort types)"

record room_snapshot =
  rs_status :: metadata_status
  rs_event :: "rstr option"
  rs_sender :: "rstr option"
  rs_origin_ts :: "int option"
  rs_redacted :: "bool option"
  rs_redaction :: "rstr option"
  rs_invalid :: "rstr list"
  rs_content :: "meta_content option"
  rs_absent_at :: "int option"
  rs_check :: "detail_refresh option"

definition default_snapshot :: room_snapshot where
  "default_snapshot = \<lparr>rs_status = MsUnknown, rs_event = None, rs_sender = None, rs_origin_ts = None, rs_redacted = None,
     rs_redaction = None, rs_invalid = [], rs_content = None, rs_absent_at = None, rs_check = None\<rparr>"

definition from_row :: "(rstr \<Rightarrow> int) \<Rightarrow> meta_table \<Rightarrow> metadata_row \<Rightarrow> room_snapshot" where
  "from_row tf table row =
     (case classify_content tf table (mr_oversized row) (st_content (mr_state row)) of (status, content, invalid) \<Rightarrow>
        \<lparr>rs_status = status, rs_event = Some (st_event (mr_state row)), rs_sender = Some (st_sender (mr_state row)),
         rs_origin_ts = Some (st_origin_ts (mr_state row)), rs_redacted = st_redacted (mr_state row),
         rs_redaction = st_redaction (mr_state row), rs_invalid = invalid, rs_content = content, rs_absent_at = None, rs_check = None\<rparr>)"

text \<open>\<^verbatim>\<open>RoomMetadataDto\<close>: a snapshot for each of the eight types; rows of other types are ignored.\<close>

type_synonym room_metadata = "rstr \<Rightarrow> room_snapshot"

definition EVENT_TYPES :: "rstr list" where
  "EVENT_TYPES = map fst metadata_tables"

definition from_rows :: "(rstr \<Rightarrow> int) \<Rightarrow> metadata_row list \<Rightarrow> room_metadata" where
  "from_rows tf rows =
     fold (\<lambda>row m. case map_of metadata_tables (mr_type row) of
                     None \<Rightarrow> m
                   | Some table \<Rightarrow> m(mr_type row := from_row tf table row)) rows (\<lambda>_. default_snapshot)"

definition has_no_tuple :: "room_snapshot \<Rightarrow> bool" where
  "has_no_tuple s \<longleftrightarrow> rs_status s = MsUnknown"

definition set_absence :: "int option \<times> detail_refresh option \<Rightarrow> room_snapshot \<Rightarrow> room_snapshot" where
  "set_absence absence s = (if has_no_tuple s then s\<lparr>rs_absent_at := fst absence, rs_check := snd absence\<rparr> else s)"

section \<open>The routes\<close>

definition absence_row :: "detail_row list \<Rightarrow> rstr \<Rightarrow> detail_row option" where
  "absence_row rows t = find (\<lambda>r. dr_type r = t) rows"

definition absence_due :: "detail_row list \<Rightarrow> room_metadata \<Rightarrow> bool" where
  "absence_due rows m \<longleftrightarrow>
     list_ex (\<lambda>t. has_no_tuple (m t) \<and> (case absence_row rows t of None \<Rightarrow> True | Some r \<Rightarrow> dr_due r)) EVENT_TYPES"

text \<open>Asks for the job when it is due, then looks what it does.\<close>

definition ask ::
  "(rstr \<Rightarrow> bool) \<Rightarrow> instant \<Rightarrow> nat \<Rightarrow> rstr \<Rightarrow> detail_job \<Rightarrow> bool \<Rightarrow> bool \<Rightarrow> acquisitions \<Rightarrow> acquisitions \<times> job_activity \<times> (rstr \<times> detail_source) list"
where
  "ask valid_room now account room job eligible due reg =
     (if \<not> eligible then (reg, JobIdle, [])
      else case (if due then reg_request valid_room now account room job reg else (reg, [])) of (reg1, marks) \<Rightarrow>
             (case reg_activity account room job reg1 of (reg2, activity) \<Rightarrow> (reg2, activity, marks)))"

definition room_metadata_route ::
  "(rstr \<Rightarrow> int) \<Rightarrow> (json_value \<Rightarrow> nat) \<Rightarrow> (rstr \<Rightarrow> bool) \<Rightarrow> detail_db \<Rightarrow> detail_db \<Rightarrow> int \<Rightarrow> instant \<Rightarrow> nat \<Rightarrow> rstr \<Rightarrow> acquisitions \<Rightarrow>
   room_metadata \<times> acquisitions \<times> (rstr \<times> detail_source) list"
where
  "room_metadata_route tf json_len valid_room db1 db2 now_ms now account room reg =
     (let m = from_rows tf (room_metadata_states json_len db1 room EVENT_TYPES)
      in case room_detail_snapshot db2 now_ms room [Absence] of (eligible, rows) \<Rightarrow>
           (case ask valid_room now account room JobAbsence eligible (absence_due rows m) reg of (reg', activity, marks) \<Rightarrow>
              (\<lambda>t. if t \<in> set EVENT_TYPES then set_absence (absence_fields (absence_row rows t) activity) (m t) else m t, reg', marks)))"

definition row_of_kind :: "detail_row list \<Rightarrow> detail_kind \<Rightarrow> detail_row option" where
  "row_of_kind rows kind = find (\<lambda>r. dr_kind r = kind_str kind) rows"

definition room_homeserver_details ::
  "(rstr \<Rightarrow> bool) \<Rightarrow> detail_db \<Rightarrow> int \<Rightarrow> instant \<Rightarrow> nat \<Rightarrow> rstr \<Rightarrow> acquisitions \<Rightarrow>
   (rstr list detail_dto \<times> directory detail_dto) \<times> acquisitions \<times> (rstr \<times> detail_source) list"
where
  "room_homeserver_details valid_room db now_ms now account room reg =
     (case room_detail_snapshot db now_ms room [LocalAliases, DirectoryVisibility] of (eligible, rows) \<Rightarrow>
        let due = (\<lambda>kind. case row_of_kind rows kind of None \<Rightarrow> True | Some r \<Rightarrow> dr_due r)
        in case ask valid_room now account room JobLocalAliases eligible (due LocalAliases) reg of (reg1, act1, marks1) \<Rightarrow>
           (case ask valid_room now account room JobDirectoryVisibility eligible (due DirectoryVisibility) reg1 of (reg2, act2, marks2) \<Rightarrow>
              ((local_aliases (row_of_kind rows LocalAliases) act1, directory_visibility (row_of_kind rows DirectoryVisibility) act2),
               reg2, marks1 @ marks2)))"


section \<open>Pending confirmations\<close>

lemma observe_queued_None: "observe_queued room job es = None \<Longrightarrow> (room, job) \<notin> entry_key ` set es"
  by (induction es) (auto simp: entry_is_key split: if_splits)

lemma observe_idle: "observe room job q = (q', JobIdle) \<Longrightarrow> (room, job) \<notin> entry_key ` set (running_list q @ q_queued q)"
  by (auto simp: observe_def running_list_def entry_is_key split: option.splits if_splits dest!: observe_queued_None)

definition cooling :: "instant \<Rightarrow> rstr \<Rightarrow> detail_job \<Rightarrow> acq_queue \<Rightarrow> bool" where
  "cooling now room job q \<longleftrightarrow> list_ex (\<lambda>(r, j, until). r = room \<and> j = job \<and> now < until) (q_cooldown q)"

lemma push_present:
  assumes "push now room job q = (q', out)" "\<not> cooling now room job q"
  shows "(room, job) \<in> entry_key ` set (running_list q' @ q_queued q')"
proof (cases rule: push_cases [of room job now q])
  case refused
  then have "(room, job) \<in> entry_key ` set (running_list q @ q_queued q)"
    using assms(2) by (auto simp: queue_keys_def cooled_def running_list_def cool_key_def cooling_def list_ex_iff)
  then show ?thesis using refused(2) assms(1) by (auto simp: cooled_def running_list_def)
next
  case (queued es dropped)
  then show ?thesis using assms(1) by (auto simp: entry_key_def)
qed

lemma ask_observed:
  assumes "ask valid_room now account room job eligible due reg = (reg', activity, marks)" "activity \<noteq> JobIdle"
  shows "\<exists>a. rg_accounts reg' account = Some a \<and> (room, job) \<in> seen_keys (rg_queues reg' a)"
proof -
  obtain reg1 where act: "reg_activity account room job reg1 = (reg', activity)"
    using assms by (auto simp: ask_def split: if_splits prod.splits)
  then obtain a q where a: "rg_accounts reg1 account = Some a" "observe room job (rg_queues reg1 a) = (q, activity)"
    "reg' = reg1\<lparr>rg_queues := (rg_queues reg1)(a := q)\<rparr>"
    using assms(2) by (auto simp: reg_activity_def split: option.splits prod.splits)
  then show ?thesis using observe_seen(2) [OF a(2) assms(2)] by simp
qed

lemma ask_shown:
  assumes "ask valid_room now account room job True True reg = (reg', activity, marks)" "valid_room room"
    "rg_accounts reg account = Some a" "\<not> cooling now room job (rg_queues reg a)"
  shows "activity \<noteq> JobIdle"
proof -
  obtain q d ms where push: "push now room job (rg_queues reg a) = (q, d, ms)" by (cases "push now room job (rg_queues reg a)")
  obtain q' where "observe room job q = (q', activity)"
    using assms(1,2,3) push by (auto simp: ask_def reg_request_def reg_activity_def split: prod.splits)
  then show ?thesis using push_present [OF push assms(4)] observe_idle [of room job q q'] by blast
qed

section \<open>Snapshots by type\<close>

lemma map_filter_find:
  "(\<And>t x. f t = Some x \<Longrightarrow> mr_type x = t) \<Longrightarrow> distinct ts \<Longrightarrow>
     fold (\<lambda>row m. m(mr_type row := g row)) (List.map_filter f ts) m0 t = (if t \<in> set ts then (case f t of None \<Rightarrow> m0 t | Some x \<Rightarrow> g x) else m0 t)"
proof (induction ts arbitrary: m0)
  case (Cons u ts)
  then show ?case
    by (cases "f u") (auto simp: map_filter_simps split: option.splits)
qed (simp add: map_filter_simps)

lemma EVENT_TYPES_distinct: "distinct EVENT_TYPES"
  by (simp add: EVENT_TYPES_def metadata_tables_def lit_def)


lemma from_rows_at:
  assumes "t \<in> set EVENT_TYPES"
  shows "from_rows tf (room_metadata_states json_len db room EVENT_TYPES) t =
     (case db_state db (room, t, []) of None \<Rightarrow> default_snapshot
      | Some st \<Rightarrow> from_row tf (the (map_of metadata_tables t)) (state_row json_len t st))"
proof -
  let ?f = "\<lambda>t. map_option (state_row json_len t) (db_state db (room, t, []))"
  let ?g = "\<lambda>row. from_row tf (the (map_of metadata_tables (mr_type row))) row"
  let ?rows = "List.map_filter ?f (sort EVENT_TYPES)"
  have rows: "room_metadata_states json_len db room EVENT_TYPES = ?rows"
    by (simp add: room_metadata_states_def)
  have "mr_type row \<in> set EVENT_TYPES" if "row \<in> set ?rows" for row
    using that by (auto simp: List.map_filter_def state_row_def Let_def)
  then have "map_of metadata_tables (mr_type row) \<noteq> None" if "row \<in> set ?rows" for row
    using that by (simp add: EVENT_TYPES_def map_of_eq_None_iff)
  then have step: "(case map_of metadata_tables (mr_type row) of None \<Rightarrow> m | Some table \<Rightarrow> m(mr_type row := from_row tf table row)) = m(mr_type row := ?g row)"
      if "row \<in> set ?rows" for row m using that by fastforce
  have "from_rows tf ?rows = fold (\<lambda>row m. m(mr_type row := ?g row)) ?rows (\<lambda>_. default_snapshot)"
    unfolding from_rows_def by (rule fold_cong [OF refl refl], rule ext, rule step)
  moreover have "fold (\<lambda>row m. m(mr_type row := ?g row)) ?rows (\<lambda>_. default_snapshot) t = (case ?f t of None \<Rightarrow> default_snapshot | Some x \<Rightarrow> ?g x)"
    using assms EVENT_TYPES_distinct
    by (subst map_filter_find) (auto simp: state_row_def Let_def)
  ultimately show ?thesis unfolding rows by (auto simp: state_row_def Let_def split: option.split)
qed

lemma classify_known: "fst (classify_content tf table oversized content) \<noteq> MsUnknown"
  by (auto simp: classify_content_def split: option.split json_value.split prod.split)

lemma from_row_status: "rs_status (from_row tf table row) \<noteq> MsUnknown"
  using classify_known [of tf table "mr_oversized row" "st_content (mr_state row)"] by (simp add: from_row_def split_beta)

lemma from_row_absent: "rs_absent_at (from_row tf table row) = None" "rs_check (from_row tf table row) = None"
  by (simp_all add: from_row_def split_beta)

lemma unknown_iff:
  "t \<in> set EVENT_TYPES \<Longrightarrow>
     has_no_tuple (from_rows tf (room_metadata_states json_len db room EVENT_TYPES) t) \<longleftrightarrow> db_state db (room, t, []) = None"
  by (auto simp: from_rows_at has_no_tuple_def from_row_status default_snapshot_def split: option.split)

lemma snapshot_absence_row:
  assumes "room_detail_snapshot db now room [Absence] = (eligible, rows)" "absence_row rows t = Some r"
  shows "db_rows db (room, kind_str Absence, t) = Some (dr_row r) \<and> dr_due r = row_due now (dr_row r)"
proof -
  have "r \<in> set rows" "dr_type r = t" using assms(2) by (auto simp: absence_row_def find_Some_iff)
  then show ?thesis using assms(1) by (auto simp: room_detail_snapshot_def split: option.splits if_splits)
qed

lemma snapshot_absence_missing:
  assumes "room_detail_snapshot db now room [Absence] = (eligible, rows)" "absence_row rows t = None" "t \<in> set EVENT_TYPES"
  shows "db_rows db (room, kind_str Absence, t) = None"
proof -
  have key: "(kind_str Absence, t) \<in> set detail_keys"
    using assms(3) by (auto simp: EVENT_TYPES_def metadata_tables_def detail_keys_def)
  show ?thesis
  proof (rule ccontr)
    assume "db_rows db (room, kind_str Absence, t) \<noteq> None"
    then obtain row where row: "db_rows db (room, kind_str Absence, t) = Some row" by blast
    have "\<lparr>dr_kind = kind_str Absence, dr_type = t, dr_row = row, dr_due = row_due now row\<rparr> \<in> set rows"
      using assms(1) key row by (force simp: room_detail_snapshot_def)
    then show False using assms(2) by (auto simp: absence_row_def find_None_iff)
  qed
qed


section \<open>Properties\<close>

lemma route_parts:
  assumes "room_metadata_route tf json_len valid_room db1 db2 now_ms now account room reg = (m', reg', marks)" "t \<in> set EVENT_TYPES"
  obtains eligible rows activity m where
    "room_detail_snapshot db2 now_ms room [Absence] = (eligible, rows)" "m = from_rows tf (room_metadata_states json_len db1 room EVENT_TYPES)"
    "ask valid_room now account room JobAbsence eligible (absence_due rows m) reg = (reg', activity, marks)"
    "m' t = set_absence (absence_fields (absence_row rows t) activity) (m t)"
  using assms by (auto simp: room_metadata_route_def Let_def split: prod.splits)

text \<open>C31: a type reads as unknown exactly when the cache has no state event of it; and a read reports that the
  homeserver confirmed its absence only then, and only with the time of a confirmation that is on record for the
  room's current membership.\<close>

theorem metadata_absence_sound:
  assumes "room_metadata_route tf json_len valid_room db1 db2 now_ms now account room reg = (m, reg', marks)" "t \<in> set EVENT_TYPES"
  shows "(rs_status (m t) = MsUnknown \<longleftrightarrow> db_state db1 (room, t, []) = None) \<and>
    (\<forall>at. rs_absent_at (m t) = Some at \<longrightarrow> db_state db1 (room, t, []) = None \<and>
       (\<exists>row. db_rows db2 (room, kind_str Absence, t) = Some row \<and> ar_status row = Some (lit ''absent'') \<and> ar_fetched row = Some at))"
proof -
  obtain eligible rows activity m0 where parts: "room_detail_snapshot db2 now_ms room [Absence] = (eligible, rows)"
    "m0 = from_rows tf (room_metadata_states json_len db1 room EVENT_TYPES)"
    "m t = set_absence (absence_fields (absence_row rows t) activity) (m0 t)"
    using route_parts [OF assms] by metis
  have unknown: "has_no_tuple (m0 t) \<longleftrightarrow> db_state db1 (room, t, []) = None" unfolding parts(2) by (rule unknown_iff [OF assms(2)])
  then have status: "rs_status (m t) = MsUnknown \<longleftrightarrow> db_state db1 (room, t, []) = None"
    unfolding parts(3) set_absence_def has_no_tuple_def by simp
  have none: "db_state db1 (room, t, []) = None \<and> fst (absence_fields (absence_row rows t) activity) = Some at"
    if "rs_absent_at (m t) = Some at" for at
  proof (cases "db_state db1 (room, t, [])")
    case (Some st)
    then have "m0 t = from_row tf (the (map_of metadata_tables t)) (state_row json_len t st)"
      unfolding parts(2) by (simp add: from_rows_at [OF assms(2)])
    then show ?thesis using that Some unknown unfolding parts(3) set_absence_def by (simp add: from_row_absent)
  qed (use that unknown in \<open>simp add: parts(3) set_absence_def\<close>)
  have "\<exists>row. db_rows db2 (room, kind_str Absence, t) = Some row \<and> ar_status row = Some (lit ''absent'') \<and> ar_fetched row = Some at"
    if at: "fst (absence_fields (absence_row rows t) activity) = Some at" for at
  proof -
    from at obtain r where r: "absence_row rows t = Some r" "ar_status (dr_row r) = Some (lit ''absent'')" "ar_fetched (dr_row r) = Some at"
      by (auto simp: absence_fields_def Let_def split: option.splits if_splits)
    then show ?thesis using snapshot_absence_row [OF parts(1) r(1)] by blast
  qed
  with none status show ?thesis by blast
qed

text \<open>C32: when a joined room has no state event of a type and the confirmation of that is due, a read queues the job and
  its own answer already shows the confirmation coming, unless the job failed locally less than a minute
  before; and whenever an answer shows a confirmation coming, the job is in the account's queue and marked as seen, so that
  its end is announced.\<close>

theorem metadata_pending_observed:
  assumes "room_metadata_route tf json_len valid_room db1 db2 now_ms now account room reg = (m, reg', marks)" "t \<in> set EVENT_TYPES"
  shows "(joined_epoch db2 room \<noteq> None \<and> valid_room room \<and> db_state db1 (room, t, []) = None \<and>
      (case db_rows db2 (room, kind_str Absence, t) of None \<Rightarrow> True | Some row \<Rightarrow> row_due now_ms row) \<and>
      (\<exists>a. rg_accounts reg account = Some a \<and> \<not> cooling now room JobAbsence (rg_queues reg a)) \<longrightarrow>
        (\<exists>c. rs_check (m t) = Some c \<and> rf_state c \<noteq> RefreshIdle)) \<and>
    (\<forall>c. rs_check (m t) = Some c \<and> rf_state c \<noteq> RefreshIdle \<longrightarrow>
       (\<exists>a. rg_accounts reg' account = Some a \<and> (room, JobAbsence) \<in> seen_keys (rg_queues reg' a)))"
proof -
  obtain eligible rows activity m0 where parts: "room_detail_snapshot db2 now_ms room [Absence] = (eligible, rows)"
    "m0 = from_rows tf (room_metadata_states json_len db1 room EVENT_TYPES)"
    "ask valid_room now account room JobAbsence eligible (absence_due rows m0) reg = (reg', activity, marks)"
    "m t = set_absence (absence_fields (absence_row rows t) activity) (m0 t)"
    using route_parts [OF assms] by metis
  have unknown: "has_no_tuple (m0 t) \<longleftrightarrow> db_state db1 (room, t, []) = None" unfolding parts(2) by (rule unknown_iff [OF assms(2)])
  have eligible: "eligible \<longleftrightarrow> joined_epoch db2 room \<noteq> None" using parts(1) by (auto simp: room_detail_snapshot_def)
  have shown: "\<exists>c. rs_check (m t) = Some c \<and> rf_state c \<noteq> RefreshIdle"
    if "eligible" "valid_room room" "db_state db1 (room, t, []) = None"
      "case db_rows db2 (room, kind_str Absence, t) of None \<Rightarrow> True | Some row \<Rightarrow> row_due now_ms row"
      "rg_accounts reg account = Some a" "\<not> cooling now room JobAbsence (rg_queues reg a)" for a
  proof -
    have due: "case absence_row rows t of None \<Rightarrow> True | Some r \<Rightarrow> dr_due r"
      using that(4) snapshot_absence_row [OF parts(1)] by (auto split: option.splits)
    then have "absence_due rows m0" using that(3) unknown assms(2) by (auto simp: absence_due_def list_ex_iff)
    then have "activity \<noteq> JobIdle" using ask_shown parts(3) that(1,2,5,6) by metis
    then show ?thesis using due that(3) unknown unfolding parts(4)
      by (cases activity) (auto simp: set_absence_def absence_fields_def refresh_new_def Let_def split: option.splits)
  qed
  have "activity \<noteq> JobIdle" if "rs_check (m t) = Some c" "rf_state c \<noteq> RefreshIdle" for c
    using that from_row_absent(2) unknown unfolding parts(4) parts(2)
    by (cases activity) (auto simp: set_absence_def absence_fields_def refresh_new_def Let_def from_rows_at [OF assms(2)] default_snapshot_def
        has_no_tuple_def from_row_status from_row_absent split: option.splits if_splits)
  then show ?thesis using shown ask_observed [OF parts(3)] eligible by blast
qed


text \<open>The joined room of \<open>Detail_Store\<close>, and an account whose queue is new.\<close>

definition demo_registry :: acquisitions where
  "demo_registry = fst (reg_register 0 \<lparr>rg_accounts = Map.empty, rg_queues = (\<lambda>_. queue_new), rg_fresh = 0\<rparr>)"

definition demo_read :: "room_metadata \<times> acquisitions \<times> (rstr \<times> detail_source) list" where
  "demo_read = room_metadata_route (\<lambda>_. 0) (\<lambda>_. 0) (\<lambda>_. True) demo_db demo_db 0 0 0 demo_room demo_registry"

lemma demo_read_parts:
  "room_metadata_route (\<lambda>_. 0) (\<lambda>_. 0) (\<lambda>_. True) demo_db demo_db 0 0 0 demo_room demo_registry = (fst demo_read, fst (snd demo_read), snd (snd demo_read))"
  by (simp add: demo_read_def)

lemma demo_create: "lit ''m.room.create'' \<in> set EVENT_TYPES" "db_state demo_db (demo_room, lit ''m.room.create'', []) = None"
  "joined_epoch demo_db demo_room \<noteq> None" "db_rows demo_db (demo_room, kind_str Absence, lit ''m.room.create'') = None"
  by (simp_all add: EVENT_TYPES_def metadata_tables_def demo_db_def demo_user_def joined_epoch_def member_joined_def demo_member_def jget_def)
    (simp add: lit_def)?

theorem metadata_absence_sound_witness: "rs_status (fst demo_read (lit ''m.room.create'')) = MsUnknown"
  using metadata_absence_sound [OF demo_read_parts demo_create(1)] demo_create(2) by blast

theorem metadata_pending_observed_witness:
  "\<exists>a. rg_accounts (fst (snd demo_read)) 0 = Some a \<and> (demo_room, JobAbsence) \<in> seen_keys (rg_queues (fst (snd demo_read)) a)"
proof -
  have "rg_accounts demo_registry 0 = Some 0 \<and> \<not> cooling 0 demo_room JobAbsence (rg_queues demo_registry 0)"
    by (simp add: demo_registry_def reg_register_def queue_new_def cooling_def)
  then show ?thesis using metadata_pending_observed [OF demo_read_parts demo_create(1)] demo_create by auto
qed

end
