(* ===== verification/Staged_Uploads.thy ===== *)
theory Staged_Uploads
  imports Rust_Text
begin

text \<open>
  Staged uploads: \<^verbatim>\<open>crates/axon-server/src/uploads.rs\<close>, the table \<^verbatim>\<open>media_uploads\<close> of
  \<^verbatim>\<open>crates/axon-store/src/media_uploads.rs\<close>, and the claim of \<^verbatim>\<open>with_staged_upload\<close>
  (\<^verbatim>\<open>crates/axon-api/src/uploads.rs\<close>; \<^verbatim>\<open>send_media\<close> of \<^verbatim>\<open>routes/messages.rs\<close> has the same flow).

  \<^item> The table is the list of its rows, with distinct ids; a SQL statement is one function on it.
  \<^item> A request is a task whose program point \<open>upc\<close> says what it awaits. \<open>InCancel\<close> drops the task there, as a
    timeout does, or a client that disconnects: the cleanup guard schedules its unlink, and the
    awaited file operation or statement is left behind in \<open>us_bg\<close>, to run later or never. A statement that
    reports an error may have run too: it is left behind in the same way.
  \<^item> \<open>Mutate\<close> awaits what the caller does with the bytes. The previews of a bundle, which are claimed one
    after the other and completed or released together, are one such task each.
  \<^item> \<open>UBoot\<close> is the end of the process and the reconciliation at the next boot.
  \<^item> Upload ids are random and never repeat: a new one is outside \<open>us_ids\<close>. \<open>us_staged\<close> is the account and
    the bytes that were streamed for an id, from the rename on; no step reads it.
  \<^item> The image library is the parameter \<open>uc_images\<close>. The semaphores, which only delay the start of a task,
    are left out.
\<close>

section \<open>The table\<close>

datatype upload_state = Staged | Sending

datatype upload_kind = ImageUpload | FileUpload

text \<open>\<^verbatim>\<open><root>/<account>/<upload>\<close> and \<^verbatim>\<open><root>/<account>/.<upload>.tmp\<close>.\<close>

datatype upath = FinalFile nat nat | TempFile nat nat

record upload_row =
  up_id :: nat
  up_account :: nat
  up_kind :: upload_kind
  up_filename :: rstr
  up_content_type :: "rstr option"
  up_size :: int
  up_path :: upath
  up_state :: upload_state
  up_expires :: int
  up_generated :: bool

definition is_upload :: "nat \<Rightarrow> nat \<Rightarrow> upload_row \<Rightarrow> bool" where
  "is_upload a u r \<longleftrightarrow> up_account r = a \<and> up_id r = u"

text \<open>A duplicate id violates the primary key, an account that is gone the foreign key, an empty name or a negative size a check.\<close>

definition insert_upload :: "(nat \<rightharpoonup> bool) \<Rightarrow> upload_row \<Rightarrow> upload_row list \<Rightarrow> upload_row list option" where
  "insert_upload accounts row rows =
     (if accounts (up_account row) = None \<or> up_filename row = [] \<or> up_size row < 0 \<or> list_ex (\<lambda>r. up_id r = up_id row) rows then None else Some (rows @ [row]))"

definition generated_of :: "nat \<Rightarrow> upload_row list \<Rightarrow> upload_row list" where
  "generated_of a rows = filter (\<lambda>r. up_account r = a \<and> up_generated r) rows"

text \<open>\<open>Some None\<close> is a full quota.\<close>

definition insert_generated_preview_upload ::
  "(nat \<rightharpoonup> bool) \<Rightarrow> upload_row \<Rightarrow> nat \<Rightarrow> int \<Rightarrow> upload_row list \<Rightarrow> upload_row list option option"
where
  "insert_generated_preview_upload accounts row max_count max_bytes rows =
     (let mine = generated_of (up_account row) rows
      in if max_count \<le> length mine \<or> max_bytes - sum_list (map up_size mine) < up_size row then Some None
         else map_option Some (insert_upload accounts row rows))"

definition get_media_upload :: "nat \<Rightarrow> nat \<Rightarrow> upload_row list \<Rightarrow> upload_row option" where
  "get_media_upload a u rows = find (is_upload a u) rows"

definition delete_staged_media_upload :: "nat \<Rightarrow> nat \<Rightarrow> upload_row list \<Rightarrow> upload_row list \<times> upload_row option" where
  "delete_staged_media_upload a u rows =
     (let hit = (\<lambda>r. is_upload a u r \<and> up_state r = Staged) in (filter (\<lambda>r. \<not> hit r) rows, find hit rows))"

definition claim_staged_media_upload :: "int \<Rightarrow> nat \<Rightarrow> nat \<Rightarrow> upload_row list \<Rightarrow> upload_row list \<times> upload_row option" where
  "claim_staged_media_upload now a u rows =
     (let hit = (\<lambda>r. is_upload a u r \<and> up_state r = Staged \<and> now < up_expires r)
      in (map (\<lambda>r. if hit r then r\<lparr>up_state := Sending\<rparr> else r) rows,
          map_option (\<lambda>r. r\<lparr>up_state := Sending\<rparr>) (find hit rows)))"

definition complete_sending_media_upload :: "nat \<Rightarrow> nat \<Rightarrow> upload_row list \<Rightarrow> upload_row list \<times> upload_row option" where
  "complete_sending_media_upload a u rows =
     (let hit = (\<lambda>r. is_upload a u r \<and> up_state r = Sending) in (filter (\<lambda>r. \<not> hit r) rows, find hit rows))"

definition release_sending_media_upload :: "nat \<Rightarrow> nat \<Rightarrow> upload_row list \<Rightarrow> upload_row list \<times> upload_row option" where
  "release_sending_media_upload a u rows =
     (let hit = (\<lambda>r. is_upload a u r \<and> up_state r = Sending)
      in (map (\<lambda>r. if hit r then r\<lparr>up_state := Staged\<rparr> else r) rows,
          map_option (\<lambda>r. r\<lparr>up_state := Staged\<rparr>) (find hit rows)))"

definition reconcile_sending_media_uploads :: "upload_row list \<Rightarrow> upload_row list" where
  "reconcile_sending_media_uploads rows = map (\<lambda>r. if up_state r = Sending then r\<lparr>up_state := Staged\<rparr> else r) rows"

definition delete_expired_media_uploads :: "int \<Rightarrow> upload_row list \<Rightarrow> upload_row list \<times> upload_row list" where
  "delete_expired_media_uploads now rows =
     (let hit = (\<lambda>r. up_state r = Staged \<and> up_expires r \<le> now) in (filter (\<lambda>r. \<not> hit r) rows, filter hit rows))"

definition list_media_upload_ids :: "upload_row list \<Rightarrow> (nat \<times> nat) list" where
  "list_media_upload_ids rows = map (\<lambda>r. (up_account r, up_id r)) rows"

section \<open>Files\<close>

type_synonym upload_files = "upath \<rightharpoonup> nat list"

datatype upload_error = UeInvalid | UeNotFound | UeForbidden | UeTooLarge | UeTimeout | UeCapacity | UeInternal

text \<open>\<^verbatim>\<open>read_bounded\<close>: at most one byte more than the cap is read.\<close>

definition read_bounded :: "upload_row \<Rightarrow> nat \<Rightarrow> upload_files \<Rightarrow> upload_error + nat list" where
  "read_bounded row cap files =
     (if up_size row < 0 \<or> int cap < up_size row then Inl UeTooLarge
      else case files (up_path row) of
             None \<Rightarrow> Inl UeNotFound
           | Some content \<Rightarrow>
               let bytes = take (cap + 1) content
               in if cap < length bytes then Inl UeTooLarge
                  else if int (length bytes) \<noteq> up_size row then Inl UeInvalid
                  else Inr bytes)"

section \<open>Preview images\<close>

text \<open>What the image library answers: the format guessed from the first bytes, the dimensions in the header, and
  whether the pixels decode within the limits on width, height and allocation.\<close>

datatype image_format = Png | Jpeg | WebP | OtherFormat

record image_lib =
  il_format :: "nat list \<Rightarrow> image_format option"
  il_dimensions :: "nat list \<Rightarrow> (nat \<times> nat) option"
  il_decodes :: "nat list \<Rightarrow> image_format \<Rightarrow> nat \<Rightarrow> nat \<Rightarrow> nat \<Rightarrow> bool"

record preview_image =
  pi_bytes :: "nat list"
  pi_mimetype :: rstr
  pi_width :: nat
  pi_height :: nat

definition MAX_IMAGE_BYTES :: nat where
  "MAX_IMAGE_BYTES = 2 * 1024 * 1024"

definition MAX_IMAGE_PIXELS :: nat where
  "MAX_IMAGE_PIXELS = 4000000"

fun format_mimetype :: "image_format \<Rightarrow> rstr option" where
  "format_mimetype Png = Some (lit ''image/png'')"
| "format_mimetype Jpeg = Some (lit ''image/jpeg'')"
| "format_mimetype WebP = Some (lit ''image/webp'')"
| "format_mimetype OtherFormat = None"

definition declared_matches :: "rstr \<Rightarrow> rstr \<Rightarrow> bool" where
  "declared_matches mimetype t =
     (let declared = to_ascii_lowercase (trim_matches is_white_space (hd (split_on (\<lambda>c. c = 59) t)))
      in declared = mimetype \<or> mimetype = lit ''image/jpeg'' \<and> declared = lit ''image/jpg'')"

definition validate_preview_image :: "image_lib \<Rightarrow> upload_row \<Rightarrow> nat list \<Rightarrow> preview_image option" where
  "validate_preview_image lib row bytes =
     (if up_kind row \<noteq> ImageUpload \<or> MAX_IMAGE_BYTES < length bytes then None
      else case il_format lib bytes of
             None \<Rightarrow> None
           | Some fmt \<Rightarrow>
               (case format_mimetype fmt of
                  None \<Rightarrow> None
                | Some mimetype \<Rightarrow>
                    if (case up_content_type row of None \<Rightarrow> False | Some t \<Rightarrow> \<not> declared_matches mimetype t) then None
                    else case il_dimensions lib bytes of
                           None \<Rightarrow> None
                         | Some (w, h) \<Rightarrow>
                             if w = 0 \<or> h = 0 \<or> MAX_IMAGE_PIXELS < w * h \<or>
                                \<not> il_decodes lib bytes fmt w h (32 * 1024 * 1024) then None
                             else Some \<lparr>pi_bytes = bytes, pi_mimetype = mimetype, pi_width = w, pi_height = h\<rparr>))"

section \<open>Orphans\<close>

fun path_ids :: "upath \<Rightarrow> nat \<times> nat" where
  "path_ids (FinalFile a u) = (a, u)"
| "path_ids (TempFile a u) = (a, u)"

text \<open>\<^verbatim>\<open>prune_orphan_files\<close>: \<open>keep\<close> are the files whose removal fails.\<close>

definition prune_orphan_files :: "(upath \<Rightarrow> bool) \<Rightarrow> upload_row list \<Rightarrow> upload_files \<Rightarrow> upload_files" where
  "prune_orphan_files keep rows files =
     (\<lambda>p. if path_ids p \<in> set (list_media_upload_ids rows) \<or> keep p then files p else None)"

definition remove_files :: "(upath \<Rightarrow> bool) \<Rightarrow> upath list \<Rightarrow> upload_files \<Rightarrow> upload_files" where
  "remove_files keep paths files = (\<lambda>p. if p \<in> set paths \<and> \<not> keep p then None else files p)"

section \<open>Tasks\<close>

record stage_request =
  sr_account :: nat
  sr_kind :: upload_kind
  sr_filename :: rstr
  sr_content_type :: "rstr option"

datatype upload_reply = UrStaged upload_row | UrOk | UrSent | UrSendFailed | UrError upload_error

datatype upload_stmt =
    StInsert upload_row
  | StClaim nat nat
  | StComplete nat nat
  | StRelease nat nat
  | StDelete nat nat
  | StExpire

text \<open>The program points of \<^verbatim>\<open>stage_upload_inner\<close> (\<open>Stage\<dots>\<close>), of \<^verbatim>\<open>claim_bounded\<close> and \<^verbatim>\<open>claim_preview_upload\<close> (\<open>Claim\<dots>\<close>, with
  the cap and whether the image is validated), of \<^verbatim>\<open>with_staged_upload\<close> (\<open>Mutate\<close>, \<open>Complete\<close>, \<open>Release\<close>), of
  \<^verbatim>\<open>delete_upload\<close> and \<^verbatim>\<open>sweep_expired\<close>; \<open>Unlink\<close> removes files one after the other.\<close>

datatype upc =
    StageAccount stage_request bool
  | StageMkdir stage_request bool
  | StageOpen stage_request bool nat
  | StageWrite stage_request bool nat "nat list"
  | StageSync stage_request bool nat "nat list"
  | StageRename stage_request bool nat "nat list"
  | StageInsert upload_row
  | ClaimRow nat nat nat bool
  | ClaimRead nat nat nat bool upload_row
  | ClaimCheck nat nat upload_row "nat list"
  | ClaimUndo nat nat upload_error
  | Mutate nat nat "nat list"
  | Complete nat nat
  | Release nat nat
  | DeleteRow nat nat
  | Sweep
  | Unlink "upload_reply option" "upath list"

datatype upload_bg = BgOpen nat nat | BgUnlink upath | BgRename nat nat | BgStmt upload_stmt

record upload_config =
  uc_max_bytes :: nat
  uc_ttl :: int
  uc_images :: image_lib

record upload_system =
  us_now :: int
  us_accounts :: "nat \<rightharpoonup> bool"
  us_rows :: "upload_row list"
  us_files :: upload_files
  us_tasks :: "nat \<rightharpoonup> upc"
  us_bg :: "upload_bg list"
  us_ids :: "nat set"
  us_staged :: "nat \<rightharpoonup> nat \<times> nat list"
  us_replies :: "(nat \<times> upload_reply) list"

definition GENERATED_COUNT :: nat where
  "GENERATED_COUNT = 160"

definition GENERATED_BYTES :: int where
  "GENERATED_BYTES = 64 * 1024 * 1024"

text \<open>The table after a statement, and the rows it returns. A refused insert is \<open>Inl\<close>.\<close>

definition insert_stmt :: "(nat \<rightharpoonup> bool) \<Rightarrow> upload_row \<Rightarrow> upload_row list \<Rightarrow> upload_error + upload_row list" where
  "insert_stmt accounts row rows =
     (if up_generated row
      then case insert_generated_preview_upload accounts row GENERATED_COUNT GENERATED_BYTES rows of
             None \<Rightarrow> Inl UeInternal
           | Some None \<Rightarrow> Inl UeCapacity
           | Some (Some rows') \<Rightarrow> Inr rows'
      else case insert_upload accounts row rows of None \<Rightarrow> Inl UeInternal | Some rows' \<Rightarrow> Inr rows')"

definition rows_of :: "upload_row option \<Rightarrow> upload_row list" where
  "rows_of r = (case r of None \<Rightarrow> [] | Some x \<Rightarrow> [x])"

fun run_stmt :: "(nat \<rightharpoonup> bool) \<Rightarrow> int \<Rightarrow> upload_stmt \<Rightarrow> upload_row list \<Rightarrow> upload_row list \<times> upload_row list" where
  "run_stmt accounts now (StInsert row) rows =
     (case insert_stmt accounts row rows of Inl _ \<Rightarrow> (rows, []) | Inr rows' \<Rightarrow> (rows', [row]))"
| "run_stmt accounts now (StClaim a u) rows = map_prod (\<lambda>x. x) rows_of (claim_staged_media_upload now a u rows)"
| "run_stmt accounts now (StComplete a u) rows = map_prod (\<lambda>x. x) rows_of (complete_sending_media_upload a u rows)"
| "run_stmt accounts now (StRelease a u) rows = map_prod (\<lambda>x. x) rows_of (release_sending_media_upload a u rows)"
| "run_stmt accounts now (StDelete a u) rows = map_prod (\<lambda>x. x) rows_of (delete_staged_media_upload a u rows)"
| "run_stmt accounts now StExpire rows = delete_expired_media_uploads now rows"

definition stmt_rows :: "upload_stmt \<Rightarrow> upload_system \<Rightarrow> upload_row list" where
  "stmt_rows st s = fst (run_stmt (us_accounts s) (us_now s) st (us_rows s))"

definition stmt_out :: "upload_stmt \<Rightarrow> upload_system \<Rightarrow> upload_row list" where
  "stmt_out st s = snd (run_stmt (us_accounts s) (us_now s) st (us_rows s))"

definition apply_stmt :: "upload_stmt \<Rightarrow> upload_system \<Rightarrow> upload_system" where
  "apply_stmt st s = s\<lparr>us_rows := stmt_rows st s\<rparr>"

definition goto_u :: "nat \<Rightarrow> upc \<Rightarrow> upload_system \<Rightarrow> upload_system" where
  "goto_u i pc s = s\<lparr>us_tasks := (us_tasks s)(i \<mapsto> pc)\<rparr>"

text \<open>A task ends with a reply, unless it was dropped or has no caller.\<close>

definition end_u :: "nat \<Rightarrow> upload_reply option \<Rightarrow> upload_bg list \<Rightarrow> upload_system \<Rightarrow> upload_system" where
  "end_u i reply bg s =
     s\<lparr>us_tasks := (us_tasks s)(i := None), us_bg := us_bg s @ bg,
       us_replies := us_replies s @ (case reply of None \<Rightarrow> [] | Some r \<Rightarrow> [(i, r)])\<rparr>"

definition unlink_next :: "nat \<Rightarrow> upload_reply option \<Rightarrow> upath list \<Rightarrow> upload_system \<Rightarrow> upload_system" where
  "unlink_next i reply paths s = (if paths = [] then end_u i reply [] s else goto_u i (Unlink reply paths) s)"

text \<open>What a program point leaves behind when the task is dropped there: the operation it awaits, and the unlink its
  \<^verbatim>\<open>CleanupFileGuard\<close> schedules.\<close>

fun abandoned :: "upc \<Rightarrow> upload_bg list" where
  "abandoned (StageAccount req g) = []"
| "abandoned (StageMkdir req g) = []"
| "abandoned (StageOpen req g u) = [BgOpen (sr_account req) u, BgUnlink (TempFile (sr_account req) u)]"
| "abandoned (StageWrite req g u bytes) = [BgUnlink (TempFile (sr_account req) u)]"
| "abandoned (StageSync req g u bytes) = [BgUnlink (TempFile (sr_account req) u)]"
| "abandoned (StageRename req g u bytes) = [BgRename (sr_account req) u, BgUnlink (TempFile (sr_account req) u)]"
| "abandoned (StageInsert row) = [BgStmt (StInsert row), BgUnlink (up_path row)]"
| "abandoned (ClaimRow a u cap preview) = [BgStmt (StClaim a u)]"
| "abandoned (ClaimRead a u cap preview row) = []"
| "abandoned (ClaimCheck a u row bytes) = []"
| "abandoned (ClaimUndo a u e) = [BgStmt (StRelease a u)]"
| "abandoned (Mutate a u bytes) = []"
| "abandoned (Complete a u) = [BgStmt (StComplete a u)]"
| "abandoned (Release a u) = [BgStmt (StRelease a u)]"
| "abandoned (DeleteRow a u) = [BgStmt (StDelete a u)]"
| "abandoned Sweep = [BgStmt StExpire]"
| "abandoned (Unlink reply paths) = (case paths of [] \<Rightarrow> [] | p # _ \<Rightarrow> [BgUnlink p])"

datatype upload_input = InGo nat | InChunk "nat list" | InEnd | InBodyError | InFail | InSent | InSendFailed | InCancel

text \<open>\<^verbatim>\<open>stage_upload_inner\<close>, the awaited operation having succeeded. \<open>u\<close> is the random id where one is drawn.\<close>

definition stage_open :: "nat \<Rightarrow> stage_request \<Rightarrow> bool \<Rightarrow> nat \<Rightarrow> upload_system \<Rightarrow> upload_system" where
  "stage_open i req g u s =
     (let tmp = TempFile (sr_account req) u
      in if us_files s tmp \<noteq> None then end_u i (Some (UrError UeInternal)) [BgUnlink tmp] s
         else goto_u i (StageWrite req g u []) (s\<lparr>us_files := (us_files s)(tmp \<mapsto> [])\<rparr>))"

definition stage_chunk :: "upload_config \<Rightarrow> nat \<Rightarrow> stage_request \<Rightarrow> bool \<Rightarrow> nat \<Rightarrow> nat list \<Rightarrow> nat list \<Rightarrow> upload_system \<Rightarrow> upload_system" where
  "stage_chunk cfg i req g u bytes chunk s =
     (let tmp = TempFile (sr_account req) u
      in if uc_max_bytes cfg < length bytes + length chunk then end_u i (Some (UrError UeTooLarge)) [BgUnlink tmp] s
         else goto_u i (StageWrite req g u (bytes @ chunk))
                (s\<lparr>us_files := (case us_files s tmp of None \<Rightarrow> us_files s | Some _ \<Rightarrow> (us_files s)(tmp \<mapsto> bytes @ chunk))\<rparr>))"

definition staged_row :: "upload_config \<Rightarrow> int \<Rightarrow> stage_request \<Rightarrow> bool \<Rightarrow> nat \<Rightarrow> nat list \<Rightarrow> upload_row" where
  "staged_row cfg now req g u bytes =
     \<lparr>up_id = u, up_account = sr_account req, up_kind = sr_kind req, up_filename = sr_filename req,
      up_content_type = sr_content_type req, up_size = int (length bytes), up_path = FinalFile (sr_account req) u,
      up_state = Staged, up_expires = now + uc_ttl cfg, up_generated = g\<rparr>"

definition stage_rename :: "upload_config \<Rightarrow> nat \<Rightarrow> stage_request \<Rightarrow> bool \<Rightarrow> nat \<Rightarrow> nat list \<Rightarrow> upload_system \<Rightarrow> upload_system" where
  "stage_rename cfg i req g u bytes s =
     (let a = sr_account req; tmp = TempFile a u; final = FinalFile a u
      in case us_files s tmp of
           None \<Rightarrow> end_u i (Some (UrError UeInternal)) [BgUnlink tmp] s
         | Some content \<Rightarrow>
             let s' = s\<lparr>us_files := (us_files s)(tmp := None, final \<mapsto> content), us_staged := (us_staged s)(u \<mapsto> (a, bytes))\<rparr>
             in if 2 ^ 63 \<le> length bytes then end_u i (Some (UrError UeTooLarge)) [BgUnlink final] s'
                else goto_u i (StageInsert (staged_row cfg (us_now s) req g u bytes)) s')"

definition stage_insert :: "nat \<Rightarrow> upload_row \<Rightarrow> upload_system \<Rightarrow> upload_system" where
  "stage_insert i row s =
     (case insert_stmt (us_accounts s) row (us_rows s) of
        Inl e \<Rightarrow> end_u i (Some (UrError e)) [BgUnlink (up_path row)] s
      | Inr rows \<Rightarrow> end_u i (Some (UrStaged row)) [] (s\<lparr>us_rows := rows\<rparr>))"

definition stage_go :: "upload_config \<Rightarrow> nat \<Rightarrow> nat \<Rightarrow> upc \<Rightarrow> upload_system \<Rightarrow> upload_system option" where
  "stage_go cfg i u pc s =
     (case pc of
        StageAccount req g \<Rightarrow>
          (case us_accounts s (sr_account req) of
             None \<Rightarrow> Some (end_u i (Some (UrError UeNotFound)) [] s)
           | Some active \<Rightarrow> Some (if active then goto_u i (StageMkdir req g) s else end_u i (Some (UrError UeForbidden)) [] s))
      | StageMkdir req g \<Rightarrow>
          (if u \<in> us_ids s then None else Some (goto_u i (StageOpen req g u) (s\<lparr>us_ids := insert u (us_ids s)\<rparr>)))
      | StageOpen req g v \<Rightarrow> Some (stage_open i req g v s)
      | StageSync req g v bytes \<Rightarrow> Some (goto_u i (StageRename req g v bytes) s)
      | StageRename req g v bytes \<Rightarrow> Some (stage_rename cfg i req g v bytes s)
      | StageInsert row \<Rightarrow> Some (stage_insert i row s)
      | _ \<Rightarrow> None)"

text \<open>The body of a request arrives in chunks.\<close>

definition stage_body :: "upload_config \<Rightarrow> nat \<Rightarrow> upload_input \<Rightarrow> upc \<Rightarrow> upload_system \<Rightarrow> upload_system option" where
  "stage_body cfg i inp pc s =
     (case pc of
        StageWrite req g u bytes \<Rightarrow>
          (case inp of
             InChunk chunk \<Rightarrow> Some (stage_chunk cfg i req g u bytes chunk s)
           | InEnd \<Rightarrow> Some (goto_u i (StageSync req g u bytes) s)
           | InBodyError \<Rightarrow> Some (end_u i (Some (UrError UeInvalid)) [BgUnlink (TempFile (sr_account req) u)] s)
           | _ \<Rightarrow> None)
      | _ \<Rightarrow> None)"

text \<open>The awaited operation fails. A failed release or completion is only logged.\<close>

definition task_fail :: "nat \<Rightarrow> upc \<Rightarrow> upload_system \<Rightarrow> upload_system" where
  "task_fail i pc s =
     (let failed_u = (\<lambda>bg. end_u i (Some (UrError UeInternal)) bg s)
      in case pc of
           StageOpen req g u \<Rightarrow> failed_u [BgUnlink (TempFile (sr_account req) u)]
         | StageRename req g u bytes \<Rightarrow> failed_u [BgUnlink (TempFile (sr_account req) u)]
         | ClaimRead a u cap preview row \<Rightarrow> goto_u i (ClaimUndo a u UeInternal) s
         | ClaimCheck a u row bytes \<Rightarrow> goto_u i (ClaimUndo a u UeInternal) s
         | ClaimUndo a u e \<Rightarrow> end_u i (Some (UrError e)) (abandoned pc) s
         | Mutate a u bytes \<Rightarrow> goto_u i (Release a u) s
         | Complete a u \<Rightarrow> end_u i (Some UrSent) (abandoned pc) s
         | Release a u \<Rightarrow> end_u i (Some UrSendFailed) (abandoned pc) s
         | Sweep \<Rightarrow> end_u i None (abandoned pc) s
         | Unlink reply paths \<Rightarrow> unlink_next i reply (tl paths) s
         | _ \<Rightarrow> failed_u (abandoned pc))"

text \<open>Claims, and what is done with them.\<close>

definition claim_row :: "nat \<Rightarrow> nat \<Rightarrow> nat \<Rightarrow> nat \<Rightarrow> bool \<Rightarrow> upload_system \<Rightarrow> upload_system" where
  "claim_row i a u cap preview s =
     (case stmt_out (StClaim a u) s of
        [] \<Rightarrow> end_u i (Some (UrError UeNotFound)) [] s
      | row # _ \<Rightarrow> goto_u i (ClaimRead a u cap preview row) (apply_stmt (StClaim a u) s))"

definition claim_read :: "nat \<Rightarrow> nat \<Rightarrow> nat \<Rightarrow> nat \<Rightarrow> bool \<Rightarrow> upload_row \<Rightarrow> upload_system \<Rightarrow> upload_system" where
  "claim_read i a u cap preview row s =
     (case read_bounded row cap (us_files s) of
        Inr bytes \<Rightarrow> goto_u i (if preview then ClaimCheck a u row bytes else Mutate a u bytes) s
      | Inl e \<Rightarrow> goto_u i (ClaimUndo a u e) s)"

text \<open>\<^verbatim>\<open>complete_upload\<close>, \<^verbatim>\<open>delete_upload\<close> and \<^verbatim>\<open>sweep_expired\<close>: the rows go, then their files.\<close>

definition remove_rows :: "nat \<Rightarrow> upload_stmt \<Rightarrow> upload_reply option \<Rightarrow> upload_system \<Rightarrow> upload_system" where
  "remove_rows i st reply s = unlink_next i reply (map up_path (stmt_out st s)) (apply_stmt st s)"

definition release_end :: "nat \<Rightarrow> nat \<Rightarrow> nat \<Rightarrow> upload_reply \<Rightarrow> upload_system \<Rightarrow> upload_system" where
  "release_end i a u reply s = end_u i (Some reply) [] (apply_stmt (StRelease a u) s)"

definition claim_go :: "upload_config \<Rightarrow> nat \<Rightarrow> upc \<Rightarrow> upload_system \<Rightarrow> upload_system option" where
  "claim_go cfg i pc s =
     (case pc of
        ClaimRow a u cap preview \<Rightarrow> Some (claim_row i a u cap preview s)
      | ClaimRead a u cap preview row \<Rightarrow> Some (claim_read i a u cap preview row s)
      | ClaimCheck a u row bytes \<Rightarrow>
          Some (goto_u i (if validate_preview_image (uc_images cfg) row bytes \<noteq> None then Mutate a u bytes else ClaimUndo a u UeInvalid) s)
      | ClaimUndo a u e \<Rightarrow> Some (release_end i a u (UrError e) s)
      | Complete a u \<Rightarrow> Some (remove_rows i (StComplete a u) (Some UrSent) s)
      | Release a u \<Rightarrow> Some (release_end i a u UrSendFailed s)
      | DeleteRow a u \<Rightarrow>
          Some (remove_rows i (StDelete a u) (Some (if stmt_out (StDelete a u) s = [] then UrError UeNotFound else UrOk)) s)
      | Sweep \<Rightarrow> Some (remove_rows i StExpire None s)
      | Unlink reply paths \<Rightarrow>
          (case paths of
             [] \<Rightarrow> None
           | p # ps \<Rightarrow> Some (unlink_next i reply ps (s\<lparr>us_files := (us_files s)(p := None)\<rparr>)))
      | _ \<Rightarrow> None)"

fun is_stage :: "upc \<Rightarrow> bool" where
  "is_stage (StageAccount _ _) = True"
| "is_stage (StageMkdir _ _) = True"
| "is_stage (StageOpen _ _ _) = True"
| "is_stage (StageWrite _ _ _ _) = True"
| "is_stage (StageSync _ _ _ _) = True"
| "is_stage (StageRename _ _ _ _) = True"
| "is_stage (StageInsert _) = True"
| "is_stage _ = False"

text \<open>The request that a staged upload is for: \<^verbatim>\<open>with_staged_upload\<close>.\<close>

definition mutate_step :: "nat \<Rightarrow> upload_input \<Rightarrow> upc \<Rightarrow> upload_system \<Rightarrow> upload_system option" where
  "mutate_step i inp pc s =
     (case pc of
        Mutate a u bytes \<Rightarrow> Some (goto_u i (if inp = InSent then Complete a u else Release a u) s)
      | _ \<Rightarrow> None)"

definition task_step_u :: "upload_config \<Rightarrow> nat \<Rightarrow> upload_input \<Rightarrow> upc \<Rightarrow> upload_system \<Rightarrow> upload_system option" where
  "task_step_u cfg i inp pc s =
     (case inp of
        InGo u \<Rightarrow> (if is_stage pc then stage_go cfg i u pc s else claim_go cfg i pc s)
      | InFail \<Rightarrow> Some (task_fail i pc s)
      | InCancel \<Rightarrow> Some (end_u i None (abandoned pc) s)
      | InSent \<Rightarrow> mutate_step i inp pc s
      | InSendFailed \<Rightarrow> mutate_step i inp pc s
      | _ \<Rightarrow> stage_body cfg i inp pc s)"

section \<open>The system\<close>

fun run_bg :: "upload_bg \<Rightarrow> upload_system \<Rightarrow> upload_system" where
  "run_bg (BgOpen a u) s =
     (if us_files s (TempFile a u) = None then s\<lparr>us_files := (us_files s)(TempFile a u \<mapsto> [])\<rparr> else s)"
| "run_bg (BgUnlink p) s = s\<lparr>us_files := (us_files s)(p := None)\<rparr>"
| "run_bg (BgRename a u) s =
     (case us_files s (TempFile a u) of
        None \<Rightarrow> s
      | Some content \<Rightarrow> s\<lparr>us_files := (us_files s)(TempFile a u := None, FinalFile a u \<mapsto> content)\<rparr>)"
| "run_bg (BgStmt st) s = apply_stmt st s"

text \<open>\<^verbatim>\<open>reconcile_boot\<close>: which of its three parts fail, and which files cannot be removed.\<close>

definition reconcile_boot :: "bool \<Rightarrow> bool \<Rightarrow> bool \<Rightarrow> (upath \<Rightarrow> bool) \<Rightarrow> upload_system \<Rightarrow> upload_system" where
  "reconcile_boot reset_ok list_ok expire_ok keep s =
     (let rows1 = (if reset_ok then reconcile_sending_media_uploads (us_rows s) else us_rows s);
          files1 = (if list_ok then prune_orphan_files keep rows1 (us_files s) else us_files s)
      in if expire_ok
         then s\<lparr>us_rows := fst (delete_expired_media_uploads (us_now s) rows1),
                us_files := remove_files keep (map up_path (snd (delete_expired_media_uploads (us_now s) rows1))) files1\<rparr>
         else s\<lparr>us_rows := rows1, us_files := files1\<rparr>)"

text \<open>\<open>UAccount a None\<close> deletes an account: its rows go with it.\<close>

datatype upload_event =
    UStart nat upc
  | UStep nat upload_input
  | UBackground nat
  | ULost nat
  | UTick nat
  | UAccount nat "bool option"
  | UBoot bool bool bool "upath \<Rightarrow> bool"

fun starts :: "upload_config \<Rightarrow> upc \<Rightarrow> bool" where
  "starts cfg (StageAccount _ _) = True"
| "starts cfg (ClaimRow a u cap preview) = (cap = (if preview then MAX_IMAGE_BYTES else uc_max_bytes cfg))"
| "starts cfg (DeleteRow _ _) = True"
| "starts cfg Sweep = True"
| "starts cfg _ = False"

definition drop_nth :: "nat \<Rightarrow> 'a list \<Rightarrow> 'a list" where
  "drop_nth n xs = take n xs @ drop (Suc n) xs"

fun upload_step :: "upload_config \<Rightarrow> upload_event \<Rightarrow> upload_system \<Rightarrow> upload_system option" where
  "upload_step cfg (UStart i pc) s =
     (if starts cfg pc \<and> us_tasks s i = None then Some (goto_u i pc s) else None)"
| "upload_step cfg (UStep i inp) s =
     (case us_tasks s i of None \<Rightarrow> None | Some pc \<Rightarrow> task_step_u cfg i inp pc s)"
| "upload_step cfg (UBackground n) s =
     (if n < length (us_bg s) then Some (run_bg (us_bg s ! n) (s\<lparr>us_bg := drop_nth n (us_bg s)\<rparr>)) else None)"
| "upload_step cfg (ULost n) s =
     (if n < length (us_bg s) then Some (s\<lparr>us_bg := drop_nth n (us_bg s)\<rparr>) else None)"
| "upload_step cfg (UTick d) s = Some (s\<lparr>us_now := us_now s + int d\<rparr>)"
| "upload_step cfg (UAccount a state) s =
     Some (s\<lparr>us_accounts := (us_accounts s)(a := state),
             us_rows := (if state = None then filter (\<lambda>r. up_account r \<noteq> a) (us_rows s) else us_rows s)\<rparr>)"
| "upload_step cfg (UBoot reset_ok list_ok expire_ok keep) s =
     Some (reconcile_boot reset_ok list_ok expire_ok keep (s\<lparr>us_tasks := Map.empty, us_bg := []\<rparr>))"

fun upload_run :: "upload_config \<Rightarrow> upload_event list \<Rightarrow> upload_system \<Rightarrow> upload_system option" where
  "upload_run cfg [] s = Some s"
| "upload_run cfg (e # es) s = Option.bind (upload_step cfg e s) (upload_run cfg es)"

definition upload_boot :: "(nat \<rightharpoonup> bool) \<Rightarrow> int \<Rightarrow> upload_system" where
  "upload_boot accounts now = \<lparr>us_now = now, us_accounts = accounts, us_rows = [], us_files = Map.empty, us_tasks = Map.empty,
     us_bg = [], us_ids = {}, us_staged = Map.empty, us_replies = []\<rparr>"

text \<open>\<^verbatim>\<open>read_preview_upload\<close>: the account, the row and the file are read one after the other, in the states \<open>s1\<close>, \<open>s2\<close>, \<open>s3\<close>.\<close>

definition read_preview_upload ::
  "upload_config \<Rightarrow> upload_system \<Rightarrow> upload_system \<Rightarrow> upload_system \<Rightarrow> nat \<Rightarrow> nat \<Rightarrow> upload_error + preview_image"
where
  "read_preview_upload cfg s1 s2 s3 a u =
     (if us_accounts s1 a \<noteq> Some True then Inl UeNotFound
      else case get_media_upload a u (us_rows s2) of
             None \<Rightarrow> Inl UeNotFound
           | Some row \<Rightarrow>
               if up_state row \<noteq> Staged \<or> up_expires row \<le> us_now s2 then Inl UeNotFound
               else case read_bounded row MAX_IMAGE_BYTES (us_files s3) of
                      Inl e \<Rightarrow> Inl (if e = UeInvalid then UeNotFound else e)
                    | Inr bytes \<Rightarrow>
                        (case validate_preview_image (uc_images cfg) row bytes of None \<Rightarrow> Inl UeInvalid | Some img \<Rightarrow> Inr img))"

end
