(* ===== verification/Upload_Invariants.thy ===== *)
theory Upload_Invariants
  imports Staged_Uploads
begin

text \<open>
  What the staged uploads of \<open>Staged_Uploads\<close> guarantee.

  \<^item> An upload id has at most one \<^emph>\<open>owner\<close>: the request that is staging it, the request that holds its claim, or the
    operation one of these left behind. \<open>up_ok\<close> says so, and what the owner may rely on; \<open>up_ok_step\<close> is that
    every event keeps it.
  \<^item> The proofs of the steps first give the ownership up (\<open>up_ok_end\<close>), then change the files and the rows of
    an id nobody owns (\<open>up_ok_free\<close>), then take it again (\<open>up_ok_take\<close>).
  \<^item> \<open>quota_ok\<close> bounds what the generated previews of an account occupy.
\<close>

section \<open>Owners\<close>

fun owner :: "upc \<Rightarrow> nat option" where
  "owner (StageOpen req g u) = Some u"
| "owner (StageWrite req g u bytes) = Some u"
| "owner (StageSync req g u bytes) = Some u"
| "owner (StageRename req g u bytes) = Some u"
| "owner (StageInsert row) = Some (up_id row)"
| "owner (ClaimRead a u cap preview row) = Some u"
| "owner (ClaimCheck a u row bytes) = Some u"
| "owner (ClaimUndo a u e) = Some u"
| "owner (Mutate a u bytes) = Some u"
| "owner (Complete a u) = Some u"
| "owner (Release a u) = Some u"
| "owner _ = None"

fun bg_owner :: "upload_bg \<Rightarrow> nat option" where
  "bg_owner (BgOpen a u) = Some u"
| "bg_owner (BgRename a u) = Some u"
| "bg_owner (BgStmt (StInsert row)) = Some (up_id row)"
| "bg_owner (BgStmt (StComplete a u)) = Some u"
| "bg_owner (BgStmt (StRelease a u)) = Some u"
| "bg_owner _ = None"

definition bg_owners :: "upload_system \<Rightarrow> nat list" where
  "bg_owners s = List.map_filter bg_owner (us_bg s)"

definition free_u :: "upload_system \<Rightarrow> nat \<Rightarrow> bool" where
  "free_u s u \<longleftrightarrow> (\<forall>i pc. us_tasks s i = Some pc \<longrightarrow> owner pc \<noteq> Some u) \<and> u \<notin> set (bg_owners s)"

text \<open>The row of an upload says where its bytes are and how many.\<close>

definition row_ok :: "upload_system \<Rightarrow> upload_row \<Rightarrow> bool" where
  "row_ok s r \<longleftrightarrow> up_path r = FinalFile (up_account r) (up_id r) \<and>
     (\<exists>b. us_staged s (up_id r) = Some (up_account r, b) \<and> up_size r = int (length b))"

definition no_row :: "upload_system \<Rightarrow> nat \<Rightarrow> bool" where
  "no_row s u \<longleftrightarrow> u \<notin> set (map up_id (us_rows s))"

definition claimed :: "upload_system \<Rightarrow> nat \<Rightarrow> bool" where
  "claimed s u \<longleftrightarrow> (\<forall>r. r \<in> set (us_rows s) \<longrightarrow> up_id r = u \<longrightarrow> up_state r = Sending)"

definition private_u :: "upload_system \<Rightarrow> nat \<Rightarrow> nat \<Rightarrow> bool" where
  "private_u s a u \<longleftrightarrow> no_row s u \<and> us_staged s u = None \<and> (\<forall>p. snd (path_ids p) = u \<longrightarrow> p \<noteq> TempFile a u \<longrightarrow> us_files s p = None)"

definition tmp_is :: "upload_system \<Rightarrow> nat \<Rightarrow> nat \<Rightarrow> nat list \<Rightarrow> bool" where
  "tmp_is s a u bytes \<longleftrightarrow> us_files s (TempFile a u) = None \<or> us_files s (TempFile a u) = Some bytes"

fun pc_ok :: "upload_system \<Rightarrow> upc \<Rightarrow> bool" where
  "pc_ok s (StageOpen req g u) = private_u s (sr_account req) u"
| "pc_ok s (StageWrite req g u bytes) = (private_u s (sr_account req) u \<and> tmp_is s (sr_account req) u bytes)"
| "pc_ok s (StageSync req g u bytes) = (private_u s (sr_account req) u \<and> tmp_is s (sr_account req) u bytes)"
| "pc_ok s (StageRename req g u bytes) = (private_u s (sr_account req) u \<and> tmp_is s (sr_account req) u bytes)"
| "pc_ok s (StageInsert row) = (no_row s (up_id row) \<and> row_ok s row \<and> up_state row = Staged)"
| "pc_ok s (ClaimRead a u cap preview row) = (claimed s u \<and> row_ok s row \<and> is_upload a u row)"
| "pc_ok s (ClaimCheck a u row bytes) = (claimed s u \<and> us_staged s u = Some (a, bytes))"
| "pc_ok s (ClaimUndo a u e) = claimed s u"
| "pc_ok s (Mutate a u bytes) = (claimed s u \<and> us_staged s u = Some (a, bytes))"
| "pc_ok s (Complete a u) = claimed s u"
| "pc_ok s (Release a u) = claimed s u"
| "pc_ok s _ = True"

fun bg_ok :: "upload_system \<Rightarrow> upload_bg \<Rightarrow> bool" where
  "bg_ok s (BgOpen a u) = private_u s a u"
| "bg_ok s (BgRename a u) = private_u s a u"
| "bg_ok s (BgStmt (StInsert row)) = (no_row s (up_id row) \<and> row_ok s row \<and> up_state row = Staged)"
| "bg_ok s (BgStmt (StComplete a u)) = claimed s u"
| "bg_ok s (BgStmt (StRelease a u)) = claimed s u"
| "bg_ok s _ = True"

text \<open>What holds of the files and rows, whoever owns them.\<close>

definition data_ok :: "upload_system \<Rightarrow> bool" where
  "data_ok s \<longleftrightarrow>
     distinct (map up_id (us_rows s)) \<and> (\<forall>r. r \<in> set (us_rows s) \<longrightarrow> row_ok s r) \<and>
     (\<forall>u b. us_staged s u = Some b \<longrightarrow> u \<in> us_ids s \<and>
        (\<forall>a. us_files s (TempFile a u) = None) \<and> (\<forall>a c. us_files s (FinalFile a u) = Some c \<longrightarrow> c = snd b)) \<and>
     (\<forall>p c. us_files s p = Some c \<longrightarrow> snd (path_ids p) \<in> us_ids s)"

definition owners_ok :: "upload_system \<Rightarrow> bool" where
  "owners_ok s \<longleftrightarrow>
     (\<forall>i j p q u. us_tasks s i = Some p \<longrightarrow> us_tasks s j = Some q \<longrightarrow> owner p = Some u \<longrightarrow> owner q = Some u \<longrightarrow> i = j) \<and>
     (\<forall>i p u. us_tasks s i = Some p \<longrightarrow> owner p = Some u \<longrightarrow> u \<notin> set (bg_owners s) \<and> u \<in> us_ids s) \<and>
     distinct (bg_owners s) \<and> set (bg_owners s) \<subseteq> us_ids s"

definition up_ok :: "upload_system \<Rightarrow> bool" where
  "up_ok s \<longleftrightarrow> data_ok s \<and> owners_ok s \<and> (\<forall>i pc. us_tasks s i = Some pc \<longrightarrow> pc_ok s pc) \<and>
     (\<forall>b. b \<in> set (us_bg s) \<longrightarrow> bg_ok s b)"

lemma up_ok_pc: "up_ok s \<Longrightarrow> us_tasks s i = Some pc \<Longrightarrow> pc_ok s pc"
  unfolding up_ok_def by blast

lemma up_ok_owned: "up_ok s \<Longrightarrow> us_tasks s i = Some pc \<Longrightarrow> owner pc = Some u \<Longrightarrow> u \<in> us_ids s"
  unfolding up_ok_def owners_ok_def by blast

lemma data_ok_row: "data_ok s \<Longrightarrow> r \<in> set (us_rows s) \<Longrightarrow> row_ok s r"
  unfolding data_ok_def by blast

lemma data_ok_final: "data_ok s \<Longrightarrow> us_staged s u = Some b \<Longrightarrow> us_files s (FinalFile a u) = Some c \<Longrightarrow> c = snd b"
  unfolding data_ok_def by blast

lemma data_ok_row_id: "data_ok s \<Longrightarrow> row_ok s r \<Longrightarrow> up_id r \<in> us_ids s"
  unfolding data_ok_def row_ok_def by blast

lemma data_ok_fresh:
  assumes "data_ok s" "u \<notin> us_ids s"
  shows "private_u s a u"
proof -
  have "no_row s u" using assms data_ok_row data_ok_row_id unfolding no_row_def by fastforce
  moreover have "us_staged s u = None" using assms unfolding data_ok_def by (cases "us_staged s u") blast+
  moreover have "us_files s p = None" if "snd (path_ids p) = u" for p
    using assms that unfolding data_ok_def by (cases "us_files s p") blast+
  ultimately show ?thesis unfolding private_u_def by blast
qed

section \<open>Giving up, changing, taking\<close>

text \<open>What an owner relies on concerns its own id only.\<close>

definition same_off :: "nat \<Rightarrow> upload_system \<Rightarrow> upload_system \<Rightarrow> bool" where
  "same_off u s s' \<longleftrightarrow>
     (\<forall>r. up_id r \<noteq> u \<longrightarrow> (r \<in> set (us_rows s') \<longleftrightarrow> r \<in> set (us_rows s))) \<and>
     (\<forall>v. v \<noteq> u \<longrightarrow> us_staged s' v = us_staged s v) \<and>
     (\<forall>p. snd (path_ids p) \<noteq> u \<longrightarrow> us_files s' p = us_files s p)"

lemma same_off_facts:
  assumes "same_off u s s'" "v \<noteq> u"
  shows "no_row s v \<Longrightarrow> no_row s' v" "claimed s v \<Longrightarrow> claimed s' v" "private_u s a v \<Longrightarrow> private_u s' a v"
    "tmp_is s a v bytes \<Longrightarrow> tmp_is s' a v bytes" "us_staged s' v = us_staged s v"
  using assms unfolding same_off_def no_row_def claimed_def private_u_def tmp_is_def
  by (fastforce, blast, fastforce, simp, blast)

lemma row_ok_same: "same_off u s s' \<Longrightarrow> up_id r \<noteq> u \<Longrightarrow> row_ok s r \<Longrightarrow> row_ok s' r"
  unfolding row_ok_def by (auto simp: same_off_def)

lemma pc_ok_same: "same_off u s s' \<Longrightarrow> owner pc \<noteq> Some u \<Longrightarrow> pc_ok s pc \<Longrightarrow> pc_ok s' pc"
  by (cases pc) (auto simp: same_off_facts row_ok_same is_upload_def)

lemma bg_ok_same: "same_off u s s' \<Longrightarrow> bg_owner b \<noteq> Some u \<Longrightarrow> bg_ok s b \<Longrightarrow> bg_ok s' b"
proof (cases b)
  case (BgStmt st)
  then show "same_off u s s' \<Longrightarrow> bg_owner b \<noteq> Some u \<Longrightarrow> bg_ok s b \<Longrightarrow> bg_ok s' b"
    by (cases st) (auto simp: same_off_facts row_ok_same)
qed (auto simp: same_off_facts)

lemma bg_owners_mem: "b \<in> set (us_bg s) \<Longrightarrow> bg_owner b = Some u \<Longrightarrow> u \<in> set (bg_owners s)"
  by (auto simp: bg_owners_def List.map_filter_def image_def)

lemma up_ok_free:
  assumes "up_ok s" "free_u s u" "same_off u s s'" "data_ok s'"
    "us_tasks s' = us_tasks s" "us_bg s' = us_bg s" "us_ids s \<subseteq> us_ids s'"
  shows "up_ok s'"
proof -
  have owners: "bg_owners s' = bg_owners s" using assms(6) by (simp add: bg_owners_def)
  have "owners_ok s'" using assms owners unfolding up_ok_def owners_ok_def by fastforce
  moreover have "pc_ok s' pc" if "us_tasks s' i = Some pc" for i pc
    using that assms pc_ok_same [OF assms(3)] unfolding up_ok_def free_u_def by simp
  moreover have "bg_ok s' b" if "b \<in> set (us_bg s')" for b
    using that assms bg_ok_same [OF assms(3), of b] bg_owners_mem [of b s u] unfolding up_ok_def free_u_def by fastforce
  ultimately show ?thesis using assms(4) unfolding up_ok_def by blast
qed

text \<open>The predicates do not look at tasks, left-over operations, replies, accounts or the clock.\<close>

lemma same_data:
  assumes "us_rows s' = us_rows s" "us_files s' = us_files s" "us_staged s' = us_staged s"
  shows "pc_ok s' pc = pc_ok s pc" "bg_ok s' b = bg_ok s b" "us_ids s' = us_ids s \<Longrightarrow> data_ok s' = data_ok s"
proof -
  have facts: "row_ok s' = row_ok s" "no_row s' = no_row s" "claimed s' = claimed s" "private_u s' = private_u s" "tmp_is s' = tmp_is s"
    using assms by (auto simp: fun_eq_iff row_ok_def no_row_def claimed_def private_u_def tmp_is_def)
  show "pc_ok s' pc = pc_ok s pc" by (cases pc) (simp_all add: facts assms)
  show "bg_ok s' b = bg_ok s b"
  proof (cases b)
    case (BgStmt st)
    then show ?thesis by (cases st) (simp_all add: facts)
  qed (simp_all add: facts)
  show "us_ids s' = us_ids s \<Longrightarrow> data_ok s' = data_ok s" by (simp add: data_ok_def facts assms)
qed

lemma end_u_data [simp]:
  "us_rows (end_u i r bg s) = us_rows s" "us_files (end_u i r bg s) = us_files s" "us_staged (end_u i r bg s) = us_staged s"
  "us_ids (end_u i r bg s) = us_ids s" "us_tasks (end_u i r bg s) = (us_tasks s)(i := None)" "us_bg (end_u i r bg s) = us_bg s @ bg"
  "us_accounts (end_u i r bg s) = us_accounts s" "us_now (end_u i r bg s) = us_now s"
  by (simp_all add: end_u_def)

lemma goto_u_data [simp]:
  "us_rows (goto_u i pc s) = us_rows s" "us_files (goto_u i pc s) = us_files s" "us_staged (goto_u i pc s) = us_staged s"
  "us_ids (goto_u i pc s) = us_ids s" "us_tasks (goto_u i pc s) = (us_tasks s)(i \<mapsto> pc)" "us_bg (goto_u i pc s) = us_bg s"
  by (simp_all add: goto_u_def)

lemma up_ok_end:
  assumes inv: "up_ok s" and pc: "us_tasks s i = Some pc"
    and bg: "List.map_filter bg_owner bg = [] \<or> (\<exists>u. List.map_filter bg_owner bg = [u] \<and> owner pc = Some u)"
    and ok: "\<And>b. b \<in> set bg \<Longrightarrow> bg_ok s b"
  shows "up_ok (end_u i r bg s)"
proof -
  let ?s = "end_u i r bg s"
  have owners: "bg_owners ?s = bg_owners s @ List.map_filter bg_owner bg"
    by (simp add: bg_owners_def List.map_filter_def)
  have "owners_ok ?s"
    using inv bg pc unfolding up_ok_def owners_ok_def owners
    by (elim disjE exE conjE) (auto split: if_splits)
  moreover have "pc_ok ?s p" if "us_tasks ?s j = Some p" for j p
    using that inv unfolding up_ok_def by (auto simp: same_data [of ?s s] split: if_splits)
  moreover have "bg_ok ?s b" if "b \<in> set (us_bg ?s)" for b
    using that inv ok unfolding up_ok_def by (auto simp: same_data [of ?s s])
  ultimately show ?thesis using inv unfolding up_ok_def by (auto simp: same_data [of ?s s])
qed

lemma free_end:
  assumes "up_ok s" "us_tasks s i = Some pc" "owner pc = Some u"
  shows "free_u (end_u i r [] s) u"
  using assms unfolding up_ok_def owners_ok_def free_u_def bg_owners_def by (auto split: if_splits)

lemma up_ok_take:
  assumes inv: "up_ok s" and free: "owner pc = None \<or> (\<exists>u. owner pc = Some u \<and> free_u s u \<and> u \<in> us_ids s)" and ok: "pc_ok s pc"
  shows "up_ok (goto_u i pc s)"
proof -
  let ?s = "goto_u i pc s"
  have owners: "bg_owners ?s = bg_owners s" by (simp add: bg_owners_def)
  have "owners_ok ?s"
    using inv free unfolding up_ok_def owners_ok_def owners free_u_def
    by (elim disjE exE conjE) (auto split: if_splits)
  moreover have "pc_ok ?s p" if "us_tasks ?s j = Some p" for j p
    using that inv ok unfolding up_ok_def by (auto simp: same_data [of ?s s] split: if_splits)
  ultimately show ?thesis using inv unfolding up_ok_def by (auto simp: same_data [of ?s s])
qed

text \<open>A task that keeps what it owns, or drops it.\<close>

lemma up_ok_goto:
  assumes inv: "up_ok s" and pc: "us_tasks s i = Some pc" and keep: "owner pc' = owner pc \<or> owner pc' = None" and ok: "pc_ok s pc'"
  shows "up_ok (goto_u i pc' s)"
proof -
  let ?e = "end_u i None [] s"
  have e: "up_ok ?e" by (rule up_ok_end [OF inv pc]) (simp_all add: map_filter_simps)
  have "owner pc' = None \<or> (\<exists>u. owner pc' = Some u \<and> free_u ?e u \<and> u \<in> us_ids ?e)"
    using keep free_end [OF inv pc] inv pc unfolding up_ok_def owners_ok_def by (cases "owner pc'") auto
  from up_ok_take [OF e this] ok have "up_ok (goto_u i pc' ?e)" by (simp add: same_data [of ?e s])
  moreover have "goto_u i pc' ?e = goto_u i pc' s" by (simp add: goto_u_def end_u_def)
  ultimately show ?thesis by simp
qed


section \<open>Changes nobody relies against\<close>

text \<open>Rows that go or become claimed, files that go, tasks and left-over operations that go.\<close>

definition less_data :: "upload_system \<Rightarrow> upload_system \<Rightarrow> bool" where
  "less_data s s' \<longleftrightarrow> us_staged s' = us_staged s \<and> us_ids s' = us_ids s \<and> distinct (map up_id (us_rows s')) \<and>
     (\<forall>r'. r' \<in> set (us_rows s') \<longrightarrow> (\<exists>r. r \<in> set (us_rows s) \<and> (r' = r \<or> r' = r\<lparr>up_state := Sending\<rparr>))) \<and>
     (\<forall>p c. us_files s' p = Some c \<longrightarrow> us_files s p = Some c)"

lemma less_rowD:
  assumes "less_data s s'" "r' \<in> set (us_rows s')"
  obtains r where "r \<in> set (us_rows s)" "r' = r \<or> r' = r\<lparr>up_state := Sending\<rparr>" "up_id r' = up_id r"
  using assms unfolding less_data_def by force

lemma less_files: "less_data s s' \<Longrightarrow> us_files s p = None \<Longrightarrow> us_files s' p = None"
  unfolding less_data_def by (cases "us_files s' p") auto

lemma less_facts:
  assumes less: "less_data s s'"
  shows "no_row s v \<Longrightarrow> no_row s' v" "claimed s v \<Longrightarrow> claimed s' v" "private_u s a v \<Longrightarrow> private_u s' a v"
    "tmp_is s a v bytes \<Longrightarrow> tmp_is s' a v bytes" "row_ok s r \<Longrightarrow> row_ok s' r" "us_staged s' = us_staged s"
proof -
  show no: "no_row s v \<Longrightarrow> no_row s' v"
    unfolding no_row_def by (auto elim: less_rowD [OF less])
  show "claimed s v \<Longrightarrow> claimed s' v"
    unfolding claimed_def by (auto elim!: less_rowD [OF less])
  show "us_staged s' = us_staged s" using less by (simp add: less_data_def)
  then show "private_u s a v \<Longrightarrow> private_u s' a v"
    using no less_files [OF less] unfolding private_u_def by simp
  show "tmp_is s a v bytes \<Longrightarrow> tmp_is s' a v bytes"
    using less unfolding tmp_is_def less_data_def by (cases "us_files s' (TempFile a v)") auto
  show "row_ok s r \<Longrightarrow> row_ok s' r" using less by (simp add: row_ok_def less_data_def)
qed

lemma pc_ok_less: "less_data s s' \<Longrightarrow> pc_ok s pc \<Longrightarrow> pc_ok s' pc"
  by (cases pc) (auto simp: less_facts)

lemma bg_ok_less: "less_data s s' \<Longrightarrow> bg_ok s b \<Longrightarrow> bg_ok s' b"
proof (cases b)
  case (BgStmt st)
  then show "less_data s s' \<Longrightarrow> bg_ok s b \<Longrightarrow> bg_ok s' b" by (cases st) (auto simp: less_facts)
qed (auto simp: less_facts)

lemma row_ok_state [simp]: "row_ok s (r\<lparr>up_state := x\<rparr>) = row_ok s r"
  by (simp add: row_ok_def)

lemma data_ok_less:
  assumes "data_ok s" and less: "less_data s s'"
  shows "data_ok s'"
proof -
  have "row_ok s' r" if "r \<in> set (us_rows s')" for r
    using assms(1) less_rowD [OF less that] less_facts(5) [OF less] unfolding data_ok_def by (metis row_ok_state)
  moreover have "distinct (map up_id (us_rows s'))" using less by (simp add: less_data_def)
  moreover have "us_files s p = Some c" if "us_files s' p = Some c" for p c
    using less that by (simp add: less_data_def)
  moreover have eqs: "us_staged s' = us_staged s" "us_ids s' = us_ids s" using less by (simp_all add: less_data_def)
  ultimately show ?thesis using assms(1) less_files [OF less] unfolding data_ok_def eqs by blast
qed

lemma up_ok_less:
  assumes inv: "up_ok s" and less: "less_data s s'"
    and tasks: "\<And>i pc. us_tasks s' i = Some pc \<Longrightarrow> us_tasks s i = Some pc"
    and bg: "set (us_bg s') \<subseteq> set (us_bg s)" "distinct (bg_owners s')"
  shows "up_ok s'"
proof -
  have owners: "set (bg_owners s') \<subseteq> set (bg_owners s)"
    using bg(1) by (auto simp: bg_owners_def List.map_filter_def)
  have ids: "us_ids s' = us_ids s" using less by (simp add: less_data_def)
  have "owners_ok s'"
    using inv tasks owners bg(2) unfolding up_ok_def owners_ok_def ids by blast
  then show ?thesis
    using inv tasks bg(1) pc_ok_less [OF less] bg_ok_less [OF less] data_ok_less [OF _ less] unfolding up_ok_def by blast
qed

lemma up_ok_less_same:
  "up_ok s \<Longrightarrow> less_data s s' \<Longrightarrow> us_tasks s' = us_tasks s \<Longrightarrow> us_bg s' = us_bg s \<Longrightarrow> up_ok s'"
  by (frule up_ok_less [of s s']) (auto simp: bg_owners_def up_ok_def owners_ok_def)

section \<open>The statements\<close>

lemma distinct_ids_map [simp]: "(\<And>r. up_id (f r) = up_id r) \<Longrightarrow> map up_id (map f rows) = map up_id rows"
  by simp

lemma stmt_less:
  assumes "data_ok s" "st = StClaim a u \<or> st = StDelete a u \<or> st = StComplete a u \<or> st = StExpire"
  shows "less_data s (s\<lparr>us_rows := stmt_rows st s\<rparr>)"
proof -
  have "distinct (map up_id (filter P (us_rows s)))" for P
    using assms(1) by (simp add: data_ok_def distinct_map_filter)
  moreover have "map up_id (map (\<lambda>r. if P r then r\<lparr>up_state := Sending\<rparr> else r) rows) = map up_id rows" for P rows
    by simp
  ultimately show ?thesis
    using assms unfolding less_data_def stmt_rows_def
    by (elim disjE) (auto simp: claim_staged_media_upload_def delete_staged_media_upload_def
        complete_sending_media_upload_def delete_expired_media_uploads_def Let_def data_ok_def o_def if_distrib cong: if_cong)
qed

lemma apply_less:
  "up_ok s \<Longrightarrow> st = StClaim a u \<or> st = StDelete a u \<or> st = StComplete a u \<or> st = StExpire \<Longrightarrow> up_ok (apply_stmt st s)"
  unfolding apply_stmt_def by (rule up_ok_less_same, assumption, rule stmt_less) (simp_all add: up_ok_def)

lemma apply_release:
  assumes "up_ok s" "free_u s u"
  shows "up_ok (apply_stmt (StRelease a u) s)"
proof (rule up_ok_free [OF assms])
  let ?f = "\<lambda>r. if is_upload a u r \<and> up_state r = Sending then r\<lparr>up_state := Staged\<rparr> else r"
  have rows: "us_rows (apply_stmt (StRelease a u) s) = map ?f (us_rows s)"
    by (simp add: apply_stmt_def stmt_rows_def release_sending_media_upload_def Let_def)
  show "same_off u s (apply_stmt (StRelease a u) s)"
    unfolding same_off_def rows by (auto simp: apply_stmt_def is_upload_def image_iff split: if_splits)
  have "distinct (map up_id (map ?f (us_rows s)))"
    using assms(1) by (simp add: up_ok_def data_ok_def o_def if_distrib cong: if_cong)
  moreover have "row_ok s (?f r) = row_ok s r" for r by simp
  ultimately show "data_ok (apply_stmt (StRelease a u) s)"
    using assms(1) unfolding up_ok_def data_ok_def rows by (auto simp: apply_stmt_def row_ok_def)
qed (simp_all add: apply_stmt_def)

lemma insert_stmt_rows: "insert_stmt accounts row rows = Inr rows' \<Longrightarrow> rows' = rows @ [row] \<and> up_id row \<notin> set (map up_id rows)"
  by (auto simp: insert_stmt_def insert_generated_preview_upload_def insert_upload_def Let_def list_ex_iff
      split: if_splits option.splits)

lemma insert_row:
  assumes "up_ok s" "free_u s (up_id row)" "row_ok s row" "up_id row \<notin> set (map up_id (us_rows s))"
  shows "up_ok (s\<lparr>us_rows := us_rows s @ [row]\<rparr>)"
proof (rule up_ok_free [OF assms(1,2)])
  show "same_off (up_id row) s (s\<lparr>us_rows := us_rows s @ [row]\<rparr>)" by (auto simp: same_off_def)
  show "data_ok (s\<lparr>us_rows := us_rows s @ [row]\<rparr>)"
    using assms unfolding up_ok_def data_ok_def by (auto simp: row_ok_def)
qed simp_all

lemma apply_insert:
  assumes "up_ok s" "free_u s (up_id row)" "row_ok s row"
  shows "up_ok (apply_stmt (StInsert row) s)"
  using assms insert_row [OF assms] unfolding apply_stmt_def stmt_rows_def
  by (auto split: sum.splits dest: insert_stmt_rows)

section \<open>The files\<close>

lemma tmp_written:
  assumes "up_ok s" "free_u s u" "us_staged s u = None" "u \<in> us_ids s"
  shows "up_ok (s\<lparr>us_files := (us_files s)(TempFile a u \<mapsto> c)\<rparr>)"
proof (rule up_ok_free [OF assms(1,2)])
  show "same_off u s (s\<lparr>us_files := (us_files s)(TempFile a u \<mapsto> c)\<rparr>)" by (simp add: same_off_def)
  show "data_ok (s\<lparr>us_files := (us_files s)(TempFile a u \<mapsto> c)\<rparr>)"
    using assms unfolding up_ok_def data_ok_def by (auto simp: row_ok_def split: if_splits)
qed simp_all

text \<open>A rename nobody waits for: the upload has no row, and never gets one.\<close>

lemma tmp_renamed:
  assumes "up_ok s" "free_u s u" "us_staged s u = None" "u \<in> us_ids s"
  shows "up_ok (s\<lparr>us_files := (us_files s)(TempFile a u := None, FinalFile a u \<mapsto> c)\<rparr>)"
proof (rule up_ok_free [OF assms(1,2)])
  let ?s = "s\<lparr>us_files := (us_files s)(TempFile a u := None, FinalFile a u \<mapsto> c)\<rparr>"
  show "same_off u s ?s" by (simp add: same_off_def)
  show "data_ok ?s" using assms unfolding up_ok_def data_ok_def by (auto simp: row_ok_def split: if_splits)
qed simp_all

lemma tmp_finished:
  assumes "up_ok s" "free_u s u" "private_u s a u" "u \<in> us_ids s"
  shows "up_ok (s\<lparr>us_files := (us_files s)(TempFile a u := None, FinalFile a u \<mapsto> c), us_staged := (us_staged s)(u \<mapsto> (a, c))\<rparr>)"
proof (rule up_ok_free [OF assms(1,2)])
  let ?s = "s\<lparr>us_files := (us_files s)(TempFile a u := None, FinalFile a u \<mapsto> c), us_staged := (us_staged s)(u \<mapsto> (a, c))\<rparr>"
  show "same_off u s ?s" by (simp add: same_off_def)
  have "row_ok ?s r" if "r \<in> set (us_rows s)" for r
    using assms(1,3) that by (auto simp: up_ok_def data_ok_def row_ok_def private_u_def no_row_def)
  then show "data_ok ?s"
    using assms unfolding up_ok_def data_ok_def private_u_def by (auto split: if_splits)
qed simp_all


section \<open>The steps of a task\<close>

text \<open>A task changes the files of the id it owns: it gives the id up, the files change, it takes the id again.\<close>

lemma up_ok_swap:
  assumes inv: "up_ok s" and pc: "us_tasks s i = Some pc" "owner pc = Some u" "owner pc' = Some u"
    and f: "\<And>e. up_ok e \<Longrightarrow> free_u e u \<Longrightarrow> u \<in> us_ids e \<Longrightarrow> pc_ok e pc \<Longrightarrow> us_files e = us_files s \<Longrightarrow> us_staged e = us_staged s \<Longrightarrow>
               up_ok (e\<lparr>us_files := files, us_staged := staged\<rparr>)"
    and ok: "pc_ok (s\<lparr>us_files := files, us_staged := staged\<rparr>) pc'"
  shows "up_ok (goto_u i pc' (s\<lparr>us_files := files, us_staged := staged\<rparr>))"
proof -
  let ?e = "end_u i None [] s"
  let ?f = "?e\<lparr>us_files := files, us_staged := staged\<rparr>"
  have "up_ok ?e" by (rule up_ok_end [OF inv pc(1)]) (simp_all add: map_filter_simps)
  moreover have "free_u ?e u" by (rule free_end [OF inv pc(1,2)])
  moreover have ids: "u \<in> us_ids ?e" using inv pc unfolding up_ok_def owners_ok_def by auto
  moreover have "pc_ok ?e pc" using inv pc unfolding up_ok_def by (auto simp: same_data [of ?e s])
  ultimately have "up_ok ?f" "free_u ?f u" using f [of ?e] by (simp_all add: free_u_def bg_owners_def)
  then have "up_ok (goto_u i pc' ?f)"
    using ok ids pc(3) by (intro up_ok_take) (simp_all add: same_data [of ?f "s\<lparr>us_files := files, us_staged := staged\<rparr>"])
  moreover have "goto_u i pc' ?f = goto_u i pc' (s\<lparr>us_files := files, us_staged := staged\<rparr>)"
    by (simp add: goto_u_def end_u_def)
  ultimately show ?thesis by simp
qed

lemma up_ok_end_unowned:
  "up_ok s \<Longrightarrow> us_tasks s i = Some pc \<Longrightarrow> List.map_filter bg_owner bg = [] \<Longrightarrow> (\<And>b. b \<in> set bg \<Longrightarrow> bg_ok s b) \<Longrightarrow> up_ok (end_u i r bg s)"
  by (rule up_ok_end) auto

lemma up_ok_end_unlink: "up_ok s \<Longrightarrow> us_tasks s i = Some pc \<Longrightarrow> up_ok (end_u i r [BgUnlink p] s)"
  by (rule up_ok_end_unowned) (simp_all add: map_filter_simps)

lemma stage_open_ok:
  assumes inv: "up_ok s" and pc: "us_tasks s i = Some (StageOpen req g u)"
  shows "up_ok (stage_open i req g u s)"
proof (cases "us_files s (TempFile (sr_account req) u) = None")
  case True
  let ?files = "(us_files s)(TempFile (sr_account req) u \<mapsto> [])"
  have ok: "private_u s (sr_account req) u" using up_ok_pc [OF inv pc] by simp
  have "up_ok (goto_u i (StageWrite req g u []) (s\<lparr>us_files := ?files, us_staged := us_staged s\<rparr>))"
  proof (rule up_ok_swap [OF inv pc])
    show "up_ok (e\<lparr>us_files := ?files, us_staged := us_staged s\<rparr>)"
      if "up_ok e" "free_u e u" "u \<in> us_ids e" "us_files e = us_files s" "us_staged e = us_staged s" for e
      using tmp_written [of e u "sr_account req" "[]"] that ok by (cases e) (auto simp: private_u_def)
  qed (use ok in \<open>auto simp: private_u_def no_row_def tmp_is_def\<close>)
  then show ?thesis using True by (simp add: stage_open_def)
next
  case False
  then show ?thesis using up_ok_end_unlink [OF inv pc] by (simp add: stage_open_def Let_def)
qed

lemma stage_chunk_ok:
  assumes inv: "up_ok s" and pc: "us_tasks s i = Some (StageWrite req g u bytes)"
  shows "up_ok (stage_chunk cfg i req g u bytes chunk s)"
proof (cases "uc_max_bytes cfg < length bytes + length chunk")
  case False
  let ?tmp = "TempFile (sr_account req) u"
  let ?files = "case us_files s ?tmp of None \<Rightarrow> us_files s | Some _ \<Rightarrow> (us_files s)(?tmp \<mapsto> bytes @ chunk)"
  have ok: "private_u s (sr_account req) u" using up_ok_pc [OF inv pc] by simp
  have "up_ok (goto_u i (StageWrite req g u (bytes @ chunk)) (s\<lparr>us_files := ?files, us_staged := us_staged s\<rparr>))"
  proof (rule up_ok_swap [OF inv pc])
    show "up_ok (e\<lparr>us_files := ?files, us_staged := us_staged s\<rparr>)"
      if "up_ok e" "free_u e u" "u \<in> us_ids e" "us_files e = us_files s" "us_staged e = us_staged s" for e
      using tmp_written [of e u "sr_account req" "bytes @ chunk"] that ok by (cases e) (auto simp: private_u_def split: option.split)
  qed (use ok in \<open>auto simp: private_u_def no_row_def tmp_is_def split: option.split\<close>)
  then show ?thesis using False by (simp add: stage_chunk_def Let_def)
next
  case True
  then show ?thesis using up_ok_end_unlink [OF inv pc] by (simp add: stage_chunk_def Let_def)
qed

lemma stage_rename_ok:
  assumes inv: "up_ok s" and pc: "us_tasks s i = Some (StageRename req g u bytes)"
  shows "up_ok (stage_rename cfg i req g u bytes s)"
proof (cases "us_files s (TempFile (sr_account req) u)")
  case None
  then show ?thesis using up_ok_end_unlink [OF inv pc] by (simp add: stage_rename_def)
next
  case (Some content)
  let ?a = "sr_account req"
  let ?row = "staged_row cfg (us_now s) req g u bytes"
  let ?files = "(us_files s)(TempFile ?a u := None, FinalFile ?a u \<mapsto> bytes)"
  let ?s = "s\<lparr>us_files := ?files, us_staged := (us_staged s)(u \<mapsto> (?a, bytes))\<rparr>"
  have ok: "private_u s ?a u" and content: "content = bytes"
    using up_ok_pc [OF inv pc] Some by (auto simp: tmp_is_def)
  have next_ok: "up_ok (goto_u i (StageInsert ?row) ?s)"
  proof (rule up_ok_swap [OF inv pc])
    show "up_ok (e\<lparr>us_files := ?files, us_staged := (us_staged s)(u \<mapsto> (?a, bytes))\<rparr>)"
      if "up_ok e" "free_u e u" "u \<in> us_ids e" "pc_ok e (StageRename req g u bytes)" "us_files e = us_files s" "us_staged e = us_staged s" for e
      using tmp_finished [of e u ?a bytes] that by simp
  qed (use ok in \<open>auto simp: private_u_def no_row_def row_ok_def staged_row_def\<close>)
  have "up_ok (end_u i r [BgUnlink (FinalFile ?a u)] (goto_u i (StageInsert ?row) ?s))" for r
    by (rule up_ok_end_unlink [OF next_ok]) simp
  moreover have "end_u i r bg (goto_u i (StageInsert ?row) ?s) = end_u i r bg ?s" for r bg by (simp add: end_u_def goto_u_def)
  ultimately show ?thesis using next_ok Some content by (simp add: stage_rename_def Let_def)
qed

text \<open>The statement of an owner is its last step.\<close>

lemma end_rows: "(end_u i r bg s)\<lparr>us_rows := rows\<rparr> = end_u i r bg (s\<lparr>us_rows := rows\<rparr>)"
  by (simp add: end_u_def)

lemma stage_insert_ok:
  assumes inv: "up_ok s" and pc: "us_tasks s i = Some (StageInsert row)"
  shows "up_ok (stage_insert i row s)"
proof (cases "insert_stmt (us_accounts s) row (us_rows s)")
  case (Inl e)
  then show ?thesis using up_ok_end_unlink [OF inv pc] by (simp add: stage_insert_def)
next
  case (Inr rows)
  let ?e = "end_u i (Some (UrStaged row)) [] s"
  have "up_ok ?e" by (rule up_ok_end_unowned [OF inv pc]) (simp_all add: map_filter_simps)
  moreover have "free_u ?e (up_id row)" using free_end [OF inv pc] by simp
  moreover have "row_ok ?e row" using up_ok_pc [OF inv pc] by (simp add: row_ok_def)
  ultimately show ?thesis
    using insert_row [of ?e row] insert_stmt_rows [OF Inr] Inr by (simp add: stage_insert_def end_rows)
qed

lemma release_end_ok:
  assumes inv: "up_ok s" and pc: "us_tasks s i = Some pc" "owner pc = Some u"
  shows "up_ok (release_end i a u reply s)"
proof -
  let ?e = "end_u i (Some reply) [] s"
  have "up_ok ?e" by (rule up_ok_end_unowned [OF inv pc(1)]) (simp_all add: map_filter_simps)
  from apply_release [OF this free_end [OF inv pc], of a]
  show ?thesis by (simp add: release_end_def apply_stmt_def stmt_rows_def end_rows)
qed

lemma unlink_next_ok: "up_ok s \<Longrightarrow> us_tasks s i = Some pc \<Longrightarrow> up_ok (unlink_next i reply paths s)"
  unfolding unlink_next_def by (auto intro: up_ok_end_unowned up_ok_goto simp: map_filter_simps)

lemma remove_rows_ok:
  assumes "up_ok s" "us_tasks s i = Some pc" "st = StComplete a u \<or> st = StDelete a u \<or> st = StExpire"
  shows "up_ok (remove_rows i st reply s)"
  unfolding remove_rows_def
  by (rule unlink_next_ok [of _ _ pc]) (use assms apply_less [of s st a u] in \<open>auto simp: apply_stmt_def\<close>)


text \<open>A row that can be claimed has no owner.\<close>

lemma pc_owner_row: "pc_ok s pc \<Longrightarrow> owner pc = Some u \<Longrightarrow> no_row s u \<or> claimed s u"
  by (cases pc) (auto simp: private_u_def)

lemma bg_owner_row: "bg_ok s b \<Longrightarrow> bg_owner b = Some u \<Longrightarrow> no_row s u \<or> claimed s u"
proof (cases b)
  case (BgStmt st)
  then show "bg_ok s b \<Longrightarrow> bg_owner b = Some u \<Longrightarrow> no_row s u \<or> claimed s u" by (cases st) auto
qed (auto simp: private_u_def)

lemma staged_free:
  assumes inv: "up_ok s" and r: "r \<in> set (us_rows s)" "up_state r = Staged"
  shows "free_u s (up_id r)"
proof -
  have not: "\<not> (no_row s (up_id r) \<or> claimed s (up_id r))"
    using r unfolding no_row_def claimed_def by auto
  have "owner pc \<noteq> Some (up_id r)" if "us_tasks s i = Some pc" for i pc
    using not pc_owner_row [OF up_ok_pc [OF inv that]] by blast
  moreover have "up_id r \<notin> set (bg_owners s)"
  proof
    assume "up_id r \<in> set (bg_owners s)"
    then obtain b where "b \<in> set (us_bg s)" "bg_owner b = Some (up_id r)"
      by (auto simp: bg_owners_def List.map_filter_def)
    with not bg_owner_row inv show False unfolding up_ok_def by blast
  qed
  ultimately show ?thesis unfolding free_u_def by blast
qed

lemma unique_row: "data_ok s \<Longrightarrow> r \<in> set (us_rows s) \<Longrightarrow> r' \<in> set (us_rows s) \<Longrightarrow> up_id r' = up_id r \<Longrightarrow> r' = r"
  unfolding data_ok_def distinct_map by (auto dest: inj_onD)

lemma find_SomeD: "find P xs = Some x \<Longrightarrow> x \<in> set xs \<and> P x"
  by (auto simp: find_Some_iff)

lemma claim_out:
  assumes "stmt_out (StClaim a u) s = row # rest"
  obtains r where "r \<in> set (us_rows s)" "is_upload a u r" "up_state r = Staged" "us_now s < up_expires r" "row = r\<lparr>up_state := Sending\<rparr>"
  using assms by (auto simp: stmt_out_def rows_of_def claim_staged_media_upload_def Let_def split: option.splits dest!: find_SomeD)

lemma claim_rows: "stmt_rows (StClaim a u) s =
    map (\<lambda>r. if is_upload a u r \<and> up_state r = Staged \<and> us_now s < up_expires r then r\<lparr>up_state := Sending\<rparr> else r) (us_rows s)"
  by (simp add: stmt_rows_def claim_staged_media_upload_def Let_def)

lemma claim_row_ok:
  assumes inv: "up_ok s" and pc: "us_tasks s i = Some (ClaimRow a u cap preview)"
  shows "up_ok (claim_row i a u cap preview s)"
proof (cases "stmt_out (StClaim a u) s")
  case Nil
  then show ?thesis using up_ok_end_unowned [OF inv pc, of "[]"] by (simp add: claim_row_def map_filter_simps)
next
  case (Cons row rest)
  then obtain r where r: "r \<in> set (us_rows s)" "is_upload a u r" "up_state r = Staged" "us_now s < up_expires r" "row = r\<lparr>up_state := Sending\<rparr>"
    by (rule claim_out)
  then have u: "up_id r = u" by (simp add: is_upload_def)
  let ?s = "apply_stmt (StClaim a u) s"
  have data: "data_ok s" using inv by (simp add: up_ok_def)
  have "up_ok ?s" using apply_less [OF inv] by blast
  moreover have "free_u ?s u" using staged_free [OF inv r(1,3)] u by (simp add: free_u_def bg_owners_def apply_stmt_def)
  moreover have "row_ok s r" using data r(1) by (simp add: data_ok_def)
  then have "row_ok ?s row" "u \<in> us_ids ?s" using r(5) u data by (auto simp: row_ok_def apply_stmt_def data_ok_def)
  moreover have "up_state x = Sending" if "x \<in> set (us_rows ?s)" "up_id x = u" for x
  proof -
    from that(1) obtain y where y: "y \<in> set (us_rows s)"
      "x = (if is_upload a u y \<and> up_state y = Staged \<and> us_now s < up_expires y then y\<lparr>up_state := Sending\<rparr> else y)"
      by (auto simp: apply_stmt_def claim_rows)
    then have "y = r" using unique_row [OF data r(1)] that(2) u by (simp split: if_splits)
    then show ?thesis using y r by simp
  qed
  then have "claimed ?s u" unfolding claimed_def by blast
  moreover have "is_upload a u row" using r(2,5) by (simp add: is_upload_def)
  ultimately have "up_ok (goto_u i (ClaimRead a u cap preview row) ?s)" by (intro up_ok_take) simp_all
  then show ?thesis using Cons by (simp add: claim_row_def)
qed

lemma read_bounded_staged:
  assumes "data_ok s" "row_ok s row" "read_bounded row cap (us_files s) = Inr bytes"
  shows "us_staged s (up_id row) = Some (up_account row, bytes)"
proof -
  from assms(2,3) obtain c where "us_files s (FinalFile (up_account row) (up_id row)) = Some c" "bytes = take (cap + 1) c"
    "length bytes \<le> cap"
    by (auto simp: read_bounded_def row_ok_def Let_def split: if_splits option.splits)
  moreover from this have "bytes = c" by simp
  ultimately show ?thesis using data_ok_final [OF assms(1)] assms(2) unfolding row_ok_def by fastforce
qed

lemma claim_read_ok:
  assumes inv: "up_ok s" and pc: "us_tasks s i = Some (ClaimRead a u cap preview row)"
  shows "up_ok (claim_read i a u cap preview row s)"
proof (cases "read_bounded row cap (us_files s)")
  case (Inl e)
  then show ?thesis using up_ok_pc [OF inv pc] by (simp add: claim_read_def) (rule up_ok_goto [OF inv pc], simp_all)
next
  case (Inr bytes)
  have "us_staged s u = Some (a, bytes)"
    using read_bounded_staged [OF _ _ Inr] up_ok_pc [OF inv pc] inv by (auto simp: up_ok_def is_upload_def)
  then show ?thesis using Inr up_ok_pc [OF inv pc] by (simp add: claim_read_def) (auto intro!: up_ok_goto [OF inv pc])
qed

section \<open>Every event\<close>

lemma abandoned_ok: "pc_ok s pc \<Longrightarrow> b \<in> set (abandoned pc) \<Longrightarrow> bg_ok s b"
  by (cases pc) (auto split: list.splits)

lemma abandoned_owner: "List.map_filter bg_owner (abandoned pc) = [] \<or> (\<exists>u. List.map_filter bg_owner (abandoned pc) = [u] \<and> owner pc = Some u)"
  by (cases pc) (auto simp: map_filter_simps split: list.splits)

lemma abandon_ok: "up_ok s \<Longrightarrow> us_tasks s i = Some pc \<Longrightarrow> up_ok (end_u i r (abandoned pc) s)"
  by (rule up_ok_end [OF _ _ abandoned_owner]) (auto intro: abandoned_ok up_ok_pc)

lemma task_fail_ok:
  assumes inv: "up_ok s" and pc: "us_tasks s i = Some pc"
  shows "up_ok (task_fail i pc s)"
  using pc abandon_ok [OF inv pc] up_ok_end_unlink [OF inv pc] unlink_next_ok [OF inv pc] up_ok_pc [OF inv pc]
  by (cases pc) (auto simp: task_fail_def Let_def intro!: up_ok_goto [OF inv pc])

lemma stage_go_ok:
  assumes inv: "up_ok s" and pc: "us_tasks s i = Some pc" and go: "stage_go cfg i u pc s = Some s'"
  shows "up_ok s'"
proof (cases pc)
  case (StageMkdir req g)
  let ?s = "s\<lparr>us_ids := insert u (us_ids s)\<rparr>"
  have new: "u \<notin> us_ids s" and s': "s' = goto_u i (StageOpen req g u) ?s"
    using go StageMkdir by (auto simp: stage_go_def split: if_splits)
  have free: "free_u s u" using new inv unfolding up_ok_def owners_ok_def free_u_def by blast
  have "data_ok ?s" using inv unfolding up_ok_def data_ok_def by (auto simp: row_ok_def)
  then have "up_ok ?s" by (intro up_ok_free [OF inv free]) (auto simp: same_off_def)
  moreover have "private_u ?s (sr_account req) u"
    using data_ok_fresh [OF _ new] inv by (simp add: up_ok_def private_u_def no_row_def)
  ultimately show ?thesis unfolding s' using free by (intro up_ok_take) (auto simp: free_u_def bg_owners_def)
next
  case (StageAccount req g)
  then show ?thesis
    using go up_ok_end_unowned [OF inv pc, of "[]"] up_ok_goto [OF inv pc, of "StageMkdir req g"]
    by (auto simp: stage_go_def map_filter_simps split: option.splits if_splits)
next
  case (StageSync req g v bytes)
  then show ?thesis
    using go up_ok_pc [OF inv pc] by (auto simp: stage_go_def intro!: up_ok_goto [OF inv pc])
qed (use go pc inv in \<open>auto simp: stage_go_def stage_open_ok stage_rename_ok stage_insert_ok\<close>)


lemma unlink_file_ok: "up_ok s \<Longrightarrow> up_ok (s\<lparr>us_files := (us_files s)(p := None)\<rparr>)"
  by (rule up_ok_less_same) (auto simp: less_data_def up_ok_def data_ok_def split: if_splits)

lemma claim_go_ok:
  assumes inv: "up_ok s" and pc: "us_tasks s i = Some pc" and go: "claim_go cfg i pc s = Some s'"
  shows "up_ok s'"
proof (cases pc)
  case (Unlink reply paths)
  then obtain p ps where "paths = p # ps" "s' = unlink_next i reply ps (s\<lparr>us_files := (us_files s)(p := None)\<rparr>)"
    using go by (auto simp: claim_go_def split: list.splits)
  then show ?thesis using unlink_next_ok [OF unlink_file_ok [OF inv, of p], of i pc] pc by simp
next
  case (ClaimCheck a u row bytes)
  then show ?thesis
    using go up_ok_pc [OF inv pc] by (auto simp: claim_go_def split: if_splits intro!: up_ok_goto [OF inv pc])
qed (use go pc inv remove_rows_ok [OF inv pc] in \<open>auto simp: claim_go_def claim_row_ok claim_read_ok release_end_ok\<close>)

lemma stage_body_ok:
  assumes inv: "up_ok s" and pc: "us_tasks s i = Some pc" and go: "stage_body cfg i inp pc s = Some s'"
  shows "up_ok s'"
proof -
  from go obtain req g u bytes where w: "pc = StageWrite req g u bytes"
    by (cases pc) (auto simp: stage_body_def)
  then show ?thesis
    using go pc up_ok_pc [OF inv pc] stage_chunk_ok [OF inv] up_ok_end_unlink [OF inv pc]
    by (cases inp) (auto simp: stage_body_def intro!: up_ok_goto [OF inv pc])
qed

lemma mutate_step_ok:
  assumes inv: "up_ok s" and pc: "us_tasks s i = Some pc" and go: "mutate_step i inp pc s = Some s'"
  shows "up_ok s'"
  using go up_ok_pc [OF inv pc]
  by (cases pc) (auto simp: mutate_step_def split: if_splits intro!: up_ok_goto [OF inv pc])

lemma task_step_u_ok:
  assumes inv: "up_ok s" and pc: "us_tasks s i = Some pc" and go: "task_step_u cfg i inp pc s = Some s'"
  shows "up_ok s'"
  using go stage_go_ok [OF inv pc] claim_go_ok [OF inv pc] task_fail_ok [OF inv pc] abandon_ok [OF inv pc]
    mutate_step_ok [OF inv pc] stage_body_ok [OF inv pc]
  by (cases inp) (auto simp: task_step_u_def split: if_splits)

text \<open>Left-over operations.\<close>

lemma drop_nth_split: "n < length xs \<Longrightarrow> \<exists>ys zs. xs = ys @ xs ! n # zs \<and> drop_nth n xs = ys @ zs"
  using id_take_nth_drop [of n xs] unfolding drop_nth_def by metis

lemma lost_ok:
  assumes inv: "up_ok s" and n: "n < length (us_bg s)"
  shows "up_ok (s\<lparr>us_bg := drop_nth n (us_bg s)\<rparr>)"
    and "bg_owner (us_bg s ! n) = Some u \<Longrightarrow> free_u (s\<lparr>us_bg := drop_nth n (us_bg s)\<rparr>) u \<and> u \<in> us_ids s"
    and "bg_ok (s\<lparr>us_bg := drop_nth n (us_bg s)\<rparr>) (us_bg s ! n)"
proof -
  let ?s = "s\<lparr>us_bg := drop_nth n (us_bg s)\<rparr>"
  from drop_nth_split [OF n] obtain ys zs where split: "us_bg s = ys @ us_bg s ! n # zs" "drop_nth n (us_bg s) = ys @ zs" by blast
  have "bg_owners s = List.map_filter bg_owner ys @ List.map_filter bg_owner [us_bg s ! n] @ List.map_filter bg_owner zs"
    unfolding bg_owners_def by (subst split(1)) (simp add: List.map_filter_def)
  moreover have "bg_owners ?s = List.map_filter bg_owner ys @ List.map_filter bg_owner zs"
    by (simp add: bg_owners_def split(2) List.map_filter_def)
  moreover have "distinct (bg_owners s)" using inv by (simp add: up_ok_def owners_ok_def)
  ultimately have owners: "distinct (bg_owners ?s)"
    "bg_owner (us_bg s ! n) = Some u \<Longrightarrow> u \<notin> set (bg_owners ?s)" "bg_owner (us_bg s ! n) = Some u \<Longrightarrow> u \<in> set (bg_owners s)"
    by (auto simp: map_filter_simps)
  have "set (drop_nth n (us_bg s)) \<subseteq> set (us_bg s)" unfolding split(2) by (subst split(1)) auto
  then show "up_ok ?s"
    using inv owners by (intro up_ok_less [OF inv]) (auto simp: less_data_def up_ok_def data_ok_def)
  show "free_u ?s u \<and> u \<in> us_ids s" if "bg_owner (us_bg s ! n) = Some u"
    using inv owners(2,3) [OF that] unfolding up_ok_def owners_ok_def free_u_def by auto
  have "bg_ok s (us_bg s ! n)" using inv n by (simp add: up_ok_def)
  then show "bg_ok ?s (us_bg s ! n)" by (simp add: same_data [of ?s s])
qed

lemma run_bg_ok:
  assumes inv: "up_ok s" and b: "bg_ok s b" and free: "\<And>u. bg_owner b = Some u \<Longrightarrow> free_u s u \<and> u \<in> us_ids s"
  shows "up_ok (run_bg b s)"
proof (cases b)
  case (BgStmt st)
  then show ?thesis
    using b free apply_less [OF inv, of st] apply_insert [OF inv] apply_release [OF inv]
    by (cases st) auto
next
  case (BgRename a u)
  then show ?thesis
    using b free tmp_renamed [OF inv] inv by (auto simp: private_u_def split: option.split)
next
  case (BgOpen a u)
  then show ?thesis using b free tmp_written [OF inv] inv by (auto simp: private_u_def)
qed (use unlink_file_ok [OF inv] in simp)

lemma idle_ok: "data_ok s \<Longrightarrow> us_tasks s = Map.empty \<Longrightarrow> us_bg s = [] \<Longrightarrow> up_ok s"
  by (simp add: up_ok_def owners_ok_def bg_owners_def map_filter_simps)

lemma reset_data:
  assumes "data_ok s"
  shows "data_ok (s\<lparr>us_rows := reconcile_sending_media_uploads (us_rows s)\<rparr>)"
proof -
  have "map up_id (reconcile_sending_media_uploads rows) = map up_id rows" for rows
    by (simp add: reconcile_sending_media_uploads_def)
  moreover have "row_ok s r" if "r \<in> set (reconcile_sending_media_uploads (us_rows s))" for r
    using that assms by (auto simp: reconcile_sending_media_uploads_def data_ok_def split: if_splits)
  ultimately show ?thesis using assms unfolding data_ok_def by (simp add: row_ok_def)
qed

lemma reconcile_boot_ok:
  assumes data: "data_ok s" and idle: "us_tasks s = Map.empty" "us_bg s = []"
  shows "up_ok (reconcile_boot reset_ok list_ok expire_ok keep s)"
proof -
  let ?s1 = "s\<lparr>us_rows := if reset_ok then reconcile_sending_media_uploads (us_rows s) else us_rows s\<rparr>"
  have s1: "data_ok ?s1" using reset_data [OF data] data by auto
  have "less_data ?s1 (reconcile_boot reset_ok list_ok expire_ok keep s)"
    using s1 unfolding less_data_def data_ok_def reconcile_boot_def
    by (auto simp: Let_def delete_expired_media_uploads_def prune_orphan_files_def remove_files_def distinct_map_filter split: if_splits)
  with s1 have "data_ok (reconcile_boot reset_ok list_ok expire_ok keep s)" by (rule data_ok_less)
  then show ?thesis using idle by (intro idle_ok) (simp_all add: reconcile_boot_def Let_def)
qed

lemma account_ok:
  "up_ok s \<Longrightarrow> up_ok (s\<lparr>us_accounts := accounts, us_rows := if gone then filter P (us_rows s) else us_rows s\<rparr>)"
  by (rule up_ok_less_same) (auto simp: less_data_def up_ok_def data_ok_def distinct_map_filter)

lemma tick_ok: "up_ok s \<Longrightarrow> up_ok (s\<lparr>us_now := now\<rparr>)"
  by (rule up_ok_less_same) (auto simp: less_data_def up_ok_def data_ok_def)

lemma up_ok_step:
  assumes inv: "up_ok s" and step: "upload_step cfg e s = Some s'"
  shows "up_ok s'"
proof (cases e)
  case (UStart i pc)
  have "owner pc = None \<and> pc_ok s pc" if "starts cfg pc" using that by (cases pc) auto
  then show ?thesis using UStart step by (auto split: if_splits intro!: up_ok_take [OF inv])
next
  case (UStep i inp)
  then show ?thesis using step task_step_u_ok [OF inv] by (auto split: option.splits)
next
  case (UBackground n)
  then show ?thesis using step lost_ok [OF inv] by (auto split: if_splits intro!: run_bg_ok)
next
  case (UTick d)
  then show ?thesis using step tick_ok [OF inv] by auto
next
  case (UBoot reset_ok list_ok expire_ok keep)
  have "data_ok (s\<lparr>us_tasks := Map.empty, us_bg := []\<rparr>)"
    using inv by (simp add: up_ok_def same_data [of "s\<lparr>us_tasks := Map.empty, us_bg := []\<rparr>" s])
  then show ?thesis using UBoot step by (auto intro!: reconcile_boot_ok)
next
  case (UAccount a state)
  then show ?thesis using step account_ok [OF inv, of "state = None" "\<lambda>r. up_account r \<noteq> a" "(us_accounts s)(a := state)"] by auto
qed (use step lost_ok(1) [OF inv] in \<open>auto split: if_splits\<close>)


section \<open>The quota of generated previews\<close>

definition quota_ok :: "upload_row list \<Rightarrow> bool" where
  "quota_ok rows \<longleftrightarrow> (\<forall>r. r \<in> set rows \<longrightarrow> 0 \<le> up_size r) \<and>
     (\<forall>a. length (generated_of a rows) \<le> GENERATED_COUNT \<and> sum_list (map up_size (generated_of a rows)) \<le> GENERATED_BYTES)"

lemma sum_filter_le:
  "(\<And>r. r \<in> set rows \<Longrightarrow> 0 \<le> f r) \<Longrightarrow> sum_list (map f (filter P rows)) \<le> sum_list (map f rows)" for f :: "'a \<Rightarrow> int"
  by (induction rows) (auto intro: add_increasing)

lemma quota_filter:
  assumes "quota_ok rows"
  shows "quota_ok (filter P rows)"
proof -
  have gen: "generated_of a (filter P rows) = filter P (generated_of a rows)" for a
    by (simp add: generated_of_def conj_commute)
  have "sum_list (map up_size (filter P (generated_of a rows))) \<le> sum_list (map up_size (generated_of a rows))" for a
    using assms by (intro sum_filter_le) (auto simp: quota_ok_def generated_of_def)
  then have "sum_list (map up_size (filter P (generated_of a rows))) \<le> GENERATED_BYTES" for a
    using assms order_trans unfolding quota_ok_def by blast
  moreover have "length (filter P (generated_of a rows)) \<le> GENERATED_COUNT" for a
    using assms order_trans [OF length_filter_le] unfolding quota_ok_def by blast
  ultimately show ?thesis using assms unfolding quota_ok_def gen by simp
qed

lemma quota_map:
  assumes "quota_ok rows" and f: "\<And>r. up_account (f r) = up_account r \<and> up_generated (f r) = up_generated r \<and> up_size (f r) = up_size r"
  shows "quota_ok (map f rows)"
proof -
  have "generated_of a (map f rows) = map f (generated_of a rows)" for a
    by (simp add: generated_of_def filter_map o_def f)
  then show ?thesis using assms(1) by (auto simp: quota_ok_def o_def f)
qed

lemma quota_insert:
  assumes "quota_ok rows" "0 \<le> up_size row" "insert_stmt accounts row rows = Inr rows'"
  shows "quota_ok rows'"
proof -
  have rows': "rows' = rows @ [row]" using insert_stmt_rows [OF assms(3)] by simp
  have room: "length (generated_of (up_account row) rows) < GENERATED_COUNT \<and>
      sum_list (map up_size (generated_of (up_account row) rows)) + up_size row \<le> GENERATED_BYTES" if "up_generated row"
    using assms(3) that by (auto simp: insert_stmt_def insert_generated_preview_upload_def Let_def split: if_splits option.splits)
  have "length (generated_of a rows') \<le> GENERATED_COUNT \<and> sum_list (map up_size (generated_of a rows')) \<le> GENERATED_BYTES" for a
    using assms(1) room unfolding rows' quota_ok_def by (auto simp: generated_of_def Suc_le_eq)
  then show ?thesis using assms(1,2) unfolding quota_ok_def rows' by auto
qed

lemma quota_stmt:
  assumes "quota_ok (us_rows s)" "\<And>row. st = StInsert row \<Longrightarrow> 0 \<le> up_size row"
  shows "quota_ok (stmt_rows st s)"
proof (cases st)
  case (StInsert row)
  then show ?thesis using assms by (auto simp: stmt_rows_def quota_insert split: sum.split)
qed (use assms(1) in \<open>auto simp: stmt_rows_def claim_staged_media_upload_def complete_sending_media_upload_def release_sending_media_upload_def
     delete_staged_media_upload_def delete_expired_media_uploads_def Let_def intro!: quota_filter quota_map split: if_splits\<close>)

text \<open>What a step of a task does to the table.\<close>

lemma unlink_next_rows [simp]: "us_rows (unlink_next i r ps s) = us_rows s"
  by (simp add: unlink_next_def)

lemma stage_rows:
  "us_rows (stage_open i req g u s) = us_rows s" "us_rows (stage_chunk cfg i req g u bytes chunk s) = us_rows s"
  "us_rows (stage_rename cfg i req g u bytes s) = us_rows s" "us_rows (claim_read i a u cap preview row s) = us_rows s"
  by (auto simp: stage_open_def stage_chunk_def stage_rename_def claim_read_def Let_def split: option.split sum.split)

lemma task_fail_rows [simp]: "us_rows (task_fail i pc s) = us_rows s"
  by (cases pc) (simp_all add: task_fail_def Let_def)

lemma stage_go_rows:
  "stage_go cfg i u pc s = Some s' \<Longrightarrow> us_rows s' = us_rows s \<or> (\<exists>row. pc = StageInsert row \<and> insert_stmt (us_accounts s) row (us_rows s) = Inr (us_rows s'))"
  by (cases pc) (auto simp: stage_go_def stage_rows stage_insert_def split: option.splits if_splits sum.splits)

lemma claim_go_rows:
  "claim_go cfg i pc s = Some s' \<Longrightarrow> us_rows s' = us_rows s \<or>
     (\<exists>st. (\<forall>row. st \<noteq> StInsert row) \<and> (\<forall>a u. st = StComplete a u \<or> st = StRelease a u \<longrightarrow> owner pc = Some u) \<and> us_rows s' = stmt_rows st s)"
  by (cases pc) (auto simp: claim_go_def stage_rows claim_row_def remove_rows_def release_end_def apply_stmt_def split: list.splits)

lemma stage_body_rows: "stage_body cfg i inp pc s = Some s' \<Longrightarrow> us_rows s' = us_rows s"
  by (cases pc; cases inp) (auto simp: stage_body_def stage_rows)

lemma mutate_step_rows: "mutate_step i inp pc s = Some s' \<Longrightarrow> us_rows s' = us_rows s"
  by (cases pc) (auto simp: mutate_step_def)

lemma quota_task_step:
  assumes ok: "up_ok s" and quota: "quota_ok (us_rows s)" and pc: "us_tasks s i = Some pc" and step: "task_step_u cfg i inp pc s = Some s'"
  shows "quota_ok (us_rows s')"
proof -
  have "0 \<le> up_size row" if "pc = StageInsert row" for row
    using up_ok_pc [OF ok pc] that by (auto simp: row_ok_def)
  then have go: "quota_ok (us_rows s')" if "stage_go cfg i u pc s = Some s'" for u
    using stage_go_rows [OF that] quota quota_insert [OF quota] by fastforce
  have claim: "quota_ok (us_rows s')" if "claim_go cfg i pc s = Some s'"
    using claim_go_rows [OF that] quota quota_stmt [OF quota] by fastforce
  show ?thesis
    using step quota go claim by (cases inp) (auto simp: task_step_u_def split: if_splits dest: stage_body_rows mutate_step_rows)
qed

lemma quota_run_bg:
  assumes "bg_ok s b" "quota_ok (us_rows s)"
  shows "quota_ok (us_rows (run_bg b s))"
proof (cases b)
  case (BgStmt st)
  then have "0 \<le> up_size row" if "st = StInsert row" for row using assms(1) that by (auto simp: row_ok_def)
  then show ?thesis using BgStmt quota_stmt [OF assms(2), of st] by (simp add: apply_stmt_def)
qed (use assms(2) in \<open>auto split: option.split\<close>)

lemma quota_step:
  assumes ok: "up_ok s" and quota: "quota_ok (us_rows s)" and step: "upload_step cfg e s = Some s'"
  shows "quota_ok (us_rows s')"
proof (cases e)
  case (UStep i inp)
  then show ?thesis using step quota_task_step [OF ok quota] by (auto split: option.splits)
next
  case (UBackground n)
  then show ?thesis using step quota lost_ok(3) [OF ok] by (auto split: if_splits intro!: quota_run_bg)
next
  case (UBoot reset_ok list_ok expire_ok keep)
  then show ?thesis using step quota
    by (auto simp: reconcile_boot_def reconcile_sending_media_uploads_def delete_expired_media_uploads_def Let_def
        split: if_splits intro!: quota_filter quota_map)
qed (use step quota in \<open>auto split: if_splits intro: quota_filter\<close>)

end
