(* ===== verification/Upload_Guarantees.thy ===== *)
theory Upload_Guarantees
  imports Upload_Invariants
begin

text \<open>
  What the reachable states of the staged uploads guarantee: a claim has one holder, who gets the bytes that
  were streamed for the upload by its account; the quota of generated previews holds; a request that ends settles
  its claim; a boot repairs what a crash left; and the one state that only a boot repairs, a claim whose request was
  dropped.
\<close>

section \<open>Reachable states\<close>

definition up_inv :: "upload_system \<Rightarrow> bool" where
  "up_inv s \<longleftrightarrow> up_ok s \<and> quota_ok (us_rows s)"

definition upload_init :: "upload_system \<Rightarrow> bool" where
  "upload_init s \<longleftrightarrow> (\<exists>accounts now. s = upload_boot accounts now)"

definition upload_steps :: "upload_config \<Rightarrow> upload_system \<Rightarrow> upload_system \<Rightarrow> bool" where
  "upload_steps cfg s s' \<longleftrightarrow> (\<exists>e. upload_step cfg e s = Some s')"

interpretation uploads: inv_system upload_init "upload_steps cfg" up_inv for cfg
proof unfold_locales
  show "up_inv s" if "upload_init s" for s
  proof -
    obtain accounts now where s: "s = upload_boot accounts now" using \<open>upload_init s\<close> by (auto simp: upload_init_def)
    have "data_ok s" by (simp add: s upload_boot_def data_ok_def)
    moreover have "quota_ok (us_rows s)" by (simp add: s upload_boot_def quota_ok_def generated_of_def GENERATED_BYTES_def)
    ultimately show ?thesis by (auto simp: up_inv_def s upload_boot_def intro: idle_ok)
  qed
  show "up_inv t" if "up_inv s" "upload_steps cfg s t" for s t
    using that up_ok_step quota_step unfolding up_inv_def upload_steps_def by blast
qed

lemma upload_run_steps: "upload_run cfg es s = Some s' \<Longrightarrow> (upload_steps cfg)\<^sup>*\<^sup>* s s'"
proof (induction es arbitrary: s)
  case (Cons e es)
  then obtain t where "upload_step cfg e s = Some t" "upload_run cfg es t = Some s'"
    by (auto simp: bind_eq_Some_conv)
  then have "upload_steps cfg s t" "(upload_steps cfg)\<^sup>*\<^sup>* t s'"
    using Cons.IH unfolding upload_steps_def by blast+
  then show ?case by (rule converse_rtranclp_into_rtranclp)
qed simp

lemma upload_run_inv: "upload_run cfg es (upload_boot accounts now) = Some s \<Longrightarrow> up_inv s"
  by (rule uploads.reach_inv [OF _ upload_run_steps]) (auto simp: upload_init_def)

section \<open>A claim nobody holds\<close>

text \<open>An upload that is claimed while nobody owns it.\<close>

definition wedged :: "upload_row \<Rightarrow> upload_system \<Rightarrow> bool" where
  "wedged r s \<longleftrightarrow> r \<in> set (us_rows s) \<and> up_state r = Sending \<and> free_u s (up_id r)"

fun unwedges :: "upload_row \<Rightarrow> upload_event \<Rightarrow> bool" where
  "unwedges r (UBoot _ _ _ _) = True"
| "unwedges r (UAccount a state) = (a = up_account r \<and> state = None)"
| "unwedges r _ = False"

lemma wedged_rows:
  "wedged r s \<Longrightarrow> free_u s' (up_id r) \<Longrightarrow> r \<in> set (us_rows s') \<Longrightarrow> wedged r s'"
  by (simp add: wedged_def)

lemma insert_keeps_rows: "insert_stmt accounts row rows = Inr rows' \<Longrightarrow> r \<in> set rows \<Longrightarrow> r \<in> set rows'"
  by (drule insert_stmt_rows) simp

text \<open>A statement that is not about the upload, or about staged uploads only, leaves a claimed row alone.\<close>

lemma stmt_keeps:
  assumes r: "r \<in> set (us_rows s)" "up_state r = Sending"
    and st: "\<And>a. st \<noteq> StComplete a (up_id r)" "\<And>a. st \<noteq> StRelease a (up_id r)"
  shows "r \<in> set (stmt_rows st s)"
proof (cases st)
  case (StInsert row)
  then show ?thesis using r by (auto simp: stmt_rows_def split: sum.split dest: insert_keeps_rows)
qed (use r st in \<open>force simp: stmt_rows_def claim_staged_media_upload_def complete_sending_media_upload_def release_sending_media_upload_def
     delete_staged_media_upload_def delete_expired_media_uploads_def is_upload_def Let_def\<close>)+


lemma free_goto: "free_u s u \<Longrightarrow> owner pc \<noteq> Some u \<Longrightarrow> free_u (goto_u i pc s) u"
  by (auto simp: free_u_def bg_owners_def)

lemma free_ended: "free_u s u \<Longrightarrow> u \<notin> set (List.map_filter bg_owner bg) \<Longrightarrow> free_u (end_u i r bg s) u"
  by (auto simp: free_u_def bg_owners_def List.map_filter_def)

lemma free_upd [simp]:
  "free_u (s\<lparr>us_rows := rows\<rparr>) u = free_u s u" "free_u (s\<lparr>us_files := files\<rparr>) u = free_u s u"
  "free_u (s\<lparr>us_staged := staged\<rparr>) u = free_u s u" "free_u (s\<lparr>us_ids := ids\<rparr>) u = free_u s u"
  "free_u (s\<lparr>us_now := now\<rparr>) u = free_u s u" "free_u (s\<lparr>us_accounts := accounts\<rparr>) u = free_u s u"
  by (simp_all add: free_u_def bg_owners_def)

lemma free_owner: "free_u s u \<Longrightarrow> us_tasks s i = Some pc \<Longrightarrow> owner pc \<noteq> Some u"
  by (auto simp: free_u_def)

lemma free_unlink: "free_u s u \<Longrightarrow> free_u (unlink_next i r ps s) u"
  by (auto simp: unlink_next_def map_filter_simps intro: free_goto free_ended)

lemma free_abandoned: "free_u s u \<Longrightarrow> us_tasks s i = Some pc \<Longrightarrow> free_u (end_u i r (abandoned pc) s) u"
  using abandoned_owner [of pc] free_owner [of s u i pc] by (auto intro: free_ended)

lemma free_task_fail:
  assumes free: "free_u s u" and pc: "us_tasks s i = Some pc"
  shows "free_u (task_fail i pc s) u"
  using free free_owner [OF free pc] free_abandoned [OF free pc]
  by (cases pc) (auto simp: task_fail_def Let_def map_filter_simps free_unlink intro!: free_goto free_ended)

lemma free_stage_go:
  assumes free: "free_u s u" and pc: "us_tasks s i = Some pc" and u: "u \<in> us_ids s" and step: "stage_go cfg i v pc s = Some s'"
  shows "free_u s' u"
  using free free_owner [OF free pc] u step
  by (cases pc) (auto simp: stage_go_def stage_open_def stage_rename_def stage_insert_def staged_row_def Let_def map_filter_simps
      split: option.splits if_splits sum.splits intro!: free_goto free_ended)

lemma free_claim_go:
  assumes free: "free_u s u" and pc: "us_tasks s i = Some pc" and out: "\<And>a. stmt_out (StClaim a u) s = []"
    and step: "claim_go cfg i pc s = Some s'"
  shows "free_u s' u"
  using free free_owner [OF free pc] out step
  by (cases pc) (auto simp: claim_go_def claim_row_def claim_read_def remove_rows_def release_end_def apply_stmt_def map_filter_simps free_unlink
      split: list.splits sum.splits if_splits intro!: free_goto free_ended)

lemma free_stage_body:
  assumes free: "free_u s u" and pc: "us_tasks s i = Some pc" and step: "stage_body cfg i inp pc s = Some s'"
  shows "free_u s' u"
  using free free_owner [OF free pc] step
  by (cases pc; cases inp) (auto simp: stage_body_def stage_chunk_def Let_def map_filter_simps
      split: option.splits if_splits intro!: free_goto free_ended)

lemma free_mutate_step:
  assumes free: "free_u s u" and pc: "us_tasks s i = Some pc" and step: "mutate_step i inp pc s = Some s'"
  shows "free_u s' u"
  using free free_owner [OF free pc] step
  by (cases pc) (auto simp: mutate_step_def split: if_splits intro!: free_goto)

lemma wedged_unclaimable:
  assumes "data_ok s" "wedged r s"
  shows "stmt_out (StClaim a (up_id r)) s = []"
proof (rule ccontr)
  assume "stmt_out (StClaim a (up_id r)) s \<noteq> []"
  then obtain row rest where "stmt_out (StClaim a (up_id r)) s = row # rest" by (auto simp: neq_Nil_conv)
  then obtain x where "x \<in> set (us_rows s)" "is_upload a (up_id r) x" "up_state x = Staged" by (rule claim_out)
  then show False using assms unique_row [of s r x] by (auto simp: wedged_def is_upload_def)
qed

lemma wedged_task_step:
  assumes ok: "up_ok s" and wedged: "wedged r s" and pc: "us_tasks s i = Some pc" and step: "task_step_u cfg i inp pc s = Some s'"
  shows "wedged r s'"
proof (rule wedged_rows [OF wedged])
  have data: "data_ok s" using ok by (simp add: up_ok_def)
  have r: "r \<in> set (us_rows s)" "up_state r = Sending" and free: "free_u s (up_id r)" using wedged by (simp_all add: wedged_def)
  have u: "up_id r \<in> us_ids s" using data_ok_row_id [OF data data_ok_row [OF data r(1)]] .
  show "free_u s' (up_id r)"
    using step free_stage_go [OF free pc u] free_claim_go [OF free pc wedged_unclaimable [OF data wedged]]
      free_stage_body [OF free pc] free_mutate_step [OF free pc] free_task_fail [OF free pc] free_abandoned [OF free pc]
    by (cases inp) (auto simp: task_step_u_def split: if_splits)
  have "r \<in> set (us_rows s')" if "claim_go cfg i pc s = Some s'"
    using claim_go_rows [OF that]
  proof (elim disjE exE conjE)
    fix st
    assume "\<forall>a u. st = StComplete a u \<or> st = StRelease a u \<longrightarrow> owner pc = Some u" and rows: "us_rows s' = stmt_rows st s"
    then have "st \<noteq> StComplete a (up_id r)" "st \<noteq> StRelease a (up_id r)" for a using free_owner [OF free pc] by blast+
    then show "r \<in> set (us_rows s')" using stmt_keeps [OF r] rows by simp
  qed (use r(1) in simp)
  moreover have "r \<in> set (us_rows s')" if "stage_go cfg i v pc s = Some s'" for v
    using stage_go_rows [OF that] r(1) insert_keeps_rows by fastforce
  ultimately show "r \<in> set (us_rows s')"
    using step r(1) by (cases inp) (auto simp: task_step_u_def split: if_splits dest: stage_body_rows mutate_step_rows)
qed


lemma free_run_bg: "free_u (run_bg b s) u = free_u s u"
  by (cases b) (auto simp: apply_stmt_def split: option.split)

lemma wedged_background:
  assumes ok: "up_ok s" and wedged: "wedged r s" and n: "n < length (us_bg s)"
  shows "wedged r (run_bg (us_bg s ! n) (s\<lparr>us_bg := drop_nth n (us_bg s)\<rparr>))" and "wedged r (s\<lparr>us_bg := drop_nth n (us_bg s)\<rparr>)"
proof -
  let ?s = "s\<lparr>us_bg := drop_nth n (us_bg s)\<rparr>"
  have sub: "set (drop_nth n (us_bg s)) \<subseteq> set (us_bg s)"
    by (auto simp: drop_nth_def dest: in_set_takeD in_set_dropD)
  then show w: "wedged r ?s"
    using wedged unfolding wedged_def free_u_def bg_owners_def by (auto simp: List.map_filter_def)
  have "bg_owner (us_bg s ! n) \<noteq> Some (up_id r)"
    using wedged bg_owners_mem [of "us_bg s ! n" s] n by (auto simp: wedged_def free_u_def)
  moreover have "r \<in> set (stmt_rows st ?s)" if "bg_owner (BgStmt st) \<noteq> Some (up_id r)" for st
    using w that by (intro stmt_keeps) (auto simp: wedged_def)
  ultimately have "r \<in> set (us_rows (run_bg (us_bg s ! n) ?s))"
    using w by (cases "us_bg s ! n") (auto simp: wedged_def apply_stmt_def split: option.split)
  then show "wedged r (run_bg (us_bg s ! n) ?s)" using w by (simp add: wedged_def free_run_bg)
qed

lemma wedged_step:
  assumes ok: "up_ok s" and wedged: "wedged r s" and e: "\<not> unwedges r e" and step: "upload_step cfg e s = Some s'"
  shows "wedged r s'"
proof (cases e)
  case (UStart i pc)
  have "owner pc = None" if "starts cfg pc" using that by (cases pc) auto
  then show ?thesis using UStart step wedged by (auto simp: wedged_def split: if_splits intro!: free_goto)
next
  case (UStep i inp)
  then show ?thesis using step wedged_task_step [OF ok wedged] by (auto split: option.splits)
next
  case (UAccount a state)
  then show ?thesis using step wedged e by (auto simp: wedged_def)
next
  case (UTick d)
  then show ?thesis using step wedged by (auto simp: wedged_def)
qed (use step e wedged_background [OF ok wedged] in \<open>auto split: if_splits\<close>)

lemma wedged_run:
  "up_ok s \<Longrightarrow> wedged r s \<Longrightarrow> list_all (\<lambda>e. \<not> unwedges r e) es \<Longrightarrow> upload_run cfg es s = Some s' \<Longrightarrow> wedged r s'"
proof (induction es arbitrary: s)
  case (Cons e es)
  then obtain t where "upload_step cfg e s = Some t" "upload_run cfg es t = Some s'" by (auto simp: bind_eq_Some_conv)
  moreover have "\<not> unwedges r e" "list_all (\<lambda>e. \<not> unwedges r e) es" using Cons.prems(3) by simp_all
  ultimately show ?case using Cons.IH Cons.prems(1,2) wedged_step up_ok_step by blast
qed simp


section \<open>Boot\<close>

lemma boot_step:
  "upload_step cfg (UBoot True True True (\<lambda>_. False)) s = Some s' \<Longrightarrow>
     us_rows s' = filter (\<lambda>r. us_now s < up_expires r) (reconcile_sending_media_uploads (us_rows s)) \<and>
     us_files s' = (\<lambda>p. if path_ids p \<in> set (list_media_upload_ids (us_rows s)) \<and>
         p \<notin> set (map up_path (filter (\<lambda>r. up_expires r \<le> us_now s) (us_rows s))) then us_files s p else None)"
proof -
  have staged: "up_state r = Staged" if "r \<in> set (reconcile_sending_media_uploads rows)" for r rows
    using that by (auto simp: reconcile_sending_media_uploads_def split: if_splits) (metis upload_state.exhaust)
  have "filter (\<lambda>r. \<not> (up_state r = Staged \<and> up_expires r \<le> us_now s)) (reconcile_sending_media_uploads rows) =
      filter (\<lambda>r. us_now s < up_expires r) (reconcile_sending_media_uploads rows)" for rows
    using staged by (intro filter_cong) auto
  moreover have "filter (\<lambda>r. up_state r = Staged \<and> up_expires r \<le> us_now s) (reconcile_sending_media_uploads rows) =
      filter (\<lambda>r. up_expires r \<le> us_now s) (reconcile_sending_media_uploads rows)" for rows
    using staged by (intro filter_cong) auto
  moreover have "map up_path (filter (\<lambda>r. up_expires r \<le> t) (reconcile_sending_media_uploads rows)) = map up_path (filter (\<lambda>r. up_expires r \<le> t) rows)" for t rows
    by (induction rows) (auto simp: reconcile_sending_media_uploads_def)
  moreover have "list_media_upload_ids (reconcile_sending_media_uploads rows) = list_media_upload_ids rows" for rows
    by (simp add: list_media_upload_ids_def reconcile_sending_media_uploads_def)
  ultimately show "upload_step cfg (UBoot True True True (\<lambda>_. False)) s = Some s' \<Longrightarrow> ?thesis"
    by (auto simp: reconcile_boot_def Let_def delete_expired_media_uploads_def prune_orphan_files_def remove_files_def fun_eq_iff simp del: set_map set_filter)
qed

lemma file_has_row:
  assumes "data_ok s" "r \<in> set (us_rows s)" "path_ids p = (up_account r, up_id r)" "us_files s p = Some c"
  shows "p = up_path r"
  using assms unfolding data_ok_def row_ok_def by (cases p) force+


lemma reset_staged: "r \<in> set (reconcile_sending_media_uploads rows) \<Longrightarrow> up_state r = Staged"
  by (auto simp: reconcile_sending_media_uploads_def split: if_splits) (metis upload_state.exhaust)

lemma kept_row:
  assumes "rows' = filter (\<lambda>r. t < up_expires r) (reconcile_sending_media_uploads rows)" "r \<in> set rows" "t < up_expires r"
  shows "r\<lparr>up_state := Staged\<rparr> \<in> set rows'"
proof -
  have "r\<lparr>up_state := Staged\<rparr> = (if up_state r = Sending then r\<lparr>up_state := Staged\<rparr> else r)"
    by (cases "up_state r") auto
  then have "r\<lparr>up_state := Staged\<rparr> \<in> set (reconcile_sending_media_uploads rows)"
    using assms(2) unfolding reconcile_sending_media_uploads_def set_map by (rule image_eqI)
  then show ?thesis using assms(1,3) by simp
qed

lemma unexpired_path:
  assumes data: "data_ok s" and r: "r \<in> set (us_rows s)" "us_now s < up_expires r"
  shows "path_ids (up_path r) \<in> set (list_media_upload_ids (us_rows s)) \<and>
    up_path r \<notin> set (map up_path (filter (\<lambda>r. up_expires r \<le> us_now s) (us_rows s)))"
proof -
  have path: "up_path x = FinalFile (up_account x) (up_id x)" if "x \<in> set (us_rows s)" for x
    using data_ok_row [OF data that] by (simp add: row_ok_def)
  have "path_ids (up_path r) \<in> set (list_media_upload_ids (us_rows s))"
    using path [OF r(1)] r(1) by (auto simp: list_media_upload_ids_def)
  moreover have "x = r" if "x \<in> set (us_rows s)" "up_path x = up_path r" for x
    using path [OF that(1)] path [OF r(1)] that(2) unique_row [OF data r(1) that(1)] by simp
  ultimately show ?thesis using r(2) by force
qed

lemma find_only:
  assumes "r \<in> set rows" "\<And>x. x \<in> set rows \<Longrightarrow> P x \<longleftrightarrow> x = r"
  shows "find P rows = Some r"
  using assms by (induction rows) auto

lemma upload_run_ok: "up_ok s \<Longrightarrow> upload_run cfg es s = Some s' \<Longrightarrow> up_ok s'"
proof (induction es arbitrary: s)
  case (Cons e es)
  then obtain t where "upload_step cfg e s = Some t" "upload_run cfg es t = Some s'" by (auto simp: bind_eq_Some_conv)
  then show ?case using Cons.IH [OF up_ok_step [OF Cons.prems(1)]] by blast
qed simp

text \<open>The last steps of a request that holds a claim.\<close>

lemma end_u_replies: "us_replies (end_u i reply bg s) = us_replies s @ (case reply of None \<Rightarrow> [] | Some r \<Rightarrow> [(i, r)])"
  by (simp add: end_u_def)

lemma sent_run:
  assumes "us_tasks s i = Some (Mutate a u bytes)" "find (\<lambda>x. is_upload a u x \<and> up_state x = Sending) (us_rows s) = Some r"
  shows "upload_run cfg [UStep i InSent, UStep i (InGo 0), UStep i (InGo 0)] s =
    Some (end_u i (Some UrSent) []
      (s\<lparr>us_rows := filter (\<lambda>x. \<not> (is_upload a u x \<and> up_state x = Sending)) (us_rows s), us_files := (us_files s)(up_path r := None)\<rparr>))"
  using assms by (simp add: task_step_u_def mutate_step_def claim_go_def remove_rows_def stmt_out_def apply_stmt_def stmt_rows_def
      complete_sending_media_upload_def rows_of_def unlink_next_def goto_u_def end_u_def)

lemma send_failed_run:
  assumes "us_tasks s i = Some (Mutate a u bytes)"
  shows "upload_run cfg [UStep i InSendFailed, UStep i (InGo 0)] s =
    Some (end_u i (Some UrSendFailed) []
      (s\<lparr>us_rows := map (\<lambda>x. if is_upload a u x \<and> up_state x = Sending then x\<lparr>up_state := Staged\<rparr> else x) (us_rows s)\<rparr>))"
  using assms by (simp add: task_step_u_def mutate_step_def claim_go_def release_end_def apply_stmt_def stmt_rows_def
      release_sending_media_upload_def goto_u_def end_u_def)

section \<open>Properties\<close>

text \<open>C25: the request that holds the claim of an upload is its only owner: no other request stages, holds or
  settles it, no operation that was left behind will, and its row, unless its account is gone, is marked as being
  sent, so that it cannot be claimed again, deleted, or swept.\<close>

theorem upload_claim_exclusive:
  assumes "upload_run cfg es (upload_boot accounts now) = Some s" "us_tasks s i = Some (Mutate a u bytes)"
  shows "(\<forall>j pc. us_tasks s j = Some pc \<and> owner pc = Some u \<longrightarrow> j = i) \<and> u \<notin> set (bg_owners s) \<and>
    (\<forall>r. r \<in> set (us_rows s) \<and> up_id r = u \<longrightarrow> up_state r = Sending)"
proof -
  have ok: "up_ok s" using upload_run_inv [OF assms(1)] by (simp add: up_inv_def)
  have "claimed s u" using up_ok_pc [OF ok assms(2)] by simp
  moreover have "owner (Mutate a u bytes) = Some u" by simp
  ultimately show ?thesis
    using ok assms(2) unfolding up_ok_def owners_ok_def claimed_def by blast
qed

text \<open>C26: the bytes a request is given for an upload are the bytes that were streamed for it, whole, and they
  were streamed for the account that claims them.\<close>

theorem upload_bytes_intact:
  assumes "upload_run cfg es (upload_boot accounts now) = Some s" "us_tasks s i = Some (Mutate a u bytes)"
  shows "us_staged s u = Some (a, bytes)"
proof -
  have "up_ok s" using upload_run_inv [OF assms(1)] by (simp add: up_inv_def)
  from up_ok_pc [OF this assms(2)] show ?thesis by simp
qed

text \<open>C27: at every moment the rows of an account's generated previews are at most 160, and declare at most 64 MiB.\<close>

theorem upload_quota:
  assumes "upload_run cfg es (upload_boot accounts now) = Some s"
  shows "length (generated_of a (us_rows s)) \<le> GENERATED_COUNT \<and> sum_list (map up_size (generated_of a (us_rows s))) \<le> GENERATED_BYTES"
  using upload_run_inv [OF assms] unfolding up_inv_def quota_ok_def by blast

text \<open>A request that holds a claim settles it. When what it awaits succeeds, the row and then the file go; when
  it fails, the row is staged again and no file is touched.\<close>

theorem upload_settles:
  assumes "upload_run cfg es (upload_boot accounts now) = Some s" "us_tasks s i = Some (Mutate a u bytes)"
    and "r \<in> set (us_rows s)" "up_id r = u"
  shows "(\<exists>s'. upload_run cfg [UStep i InSent, UStep i (InGo 0), UStep i (InGo 0)] s = Some s' \<and> no_row s' u \<and>
      us_files s' (FinalFile a u) = None \<and> us_tasks s' i = None \<and> us_replies s' = us_replies s @ [(i, UrSent)]) \<and>
    (\<exists>s'. upload_run cfg [UStep i InSendFailed, UStep i (InGo 0)] s = Some s' \<and> r\<lparr>up_state := Staged\<rparr> \<in> set (us_rows s') \<and>
      us_files s' = us_files s \<and> us_tasks s' i = None \<and> us_replies s' = us_replies s @ [(i, UrSendFailed)])"
proof -
  have ok: "up_ok s" using upload_run_inv [OF assms(1)] by (simp add: up_inv_def)
  then have data: "data_ok s" by (simp add: up_ok_def)
  have "up_account r = a" and path: "up_path r = FinalFile a u" and sending: "up_state r = Sending"
    using up_ok_pc [OF ok assms(2)] data_ok_row [OF data assms(3)] assms(3,4) by (auto simp: row_ok_def claimed_def)
  then have hit: "is_upload a u x \<and> up_state x = Sending \<longleftrightarrow> x = r" if "x \<in> set (us_rows s)" for x
    using unique_row [OF data assms(3) that] assms(4) unfolding is_upload_def by metis
  have out: "find (\<lambda>x. is_upload a u x \<and> up_state x = Sending) (us_rows s) = Some r"
    using find_only [OF assms(3) hit] .
  have gone: "x \<in> set (filter (\<lambda>x. \<not> (is_upload a u x \<and> up_state x = Sending)) (us_rows s)) \<Longrightarrow> up_id x \<noteq> u" for x
    using hit [of x] unique_row [OF data assms(3), of x] assms(4) unfolding set_filter mem_Collect_eq by metis
  have back_in: "r\<lparr>up_state := Staged\<rparr> \<in> set (map (\<lambda>x. if is_upload a u x \<and> up_state x = Sending then x\<lparr>up_state := Staged\<rparr> else x) (us_rows s))"
    using assms(3) hit [OF assms(3)] by force
  have "no_row (end_u i (Some UrSent) [] (s\<lparr>us_rows := filter (\<lambda>x. \<not> (is_upload a u x \<and> up_state x = Sending)) (us_rows s), us_files := fs\<rparr>)) u" for fs
    using gone by (auto simp: no_row_def)
  then have "\<exists>s'. upload_run cfg [UStep i InSent, UStep i (InGo 0), UStep i (InGo 0)] s = Some s' \<and> no_row s' u \<and>
      us_files s' (FinalFile a u) = None \<and> us_tasks s' i = None \<and> us_replies s' = us_replies s @ [(i, UrSent)]"
    unfolding sent_run [OF assms(2) out] path by (simp add: end_u_replies)
  moreover have "\<exists>s'. upload_run cfg [UStep i InSendFailed, UStep i (InGo 0)] s = Some s' \<and> r\<lparr>up_state := Staged\<rparr> \<in> set (us_rows s') \<and>
      us_files s' = us_files s \<and> us_tasks s' i = None \<and> us_replies s' = us_replies s @ [(i, UrSendFailed)]"
    unfolding send_failed_run [OF assms(2)] using back_in by (simp add: end_u_replies del: set_map)
  ultimately show ?thesis by blast
qed

text \<open>C28: a boot whose queries and removals succeed leaves no upload marked as being sent, none that has expired and
  no file without a row, and it keeps every upload that has not expired, staged, with its file.\<close>

theorem upload_boot_recovers:
  assumes "upload_run cfg es (upload_boot accounts now) = Some s"
    and "upload_step cfg (UBoot True True True (\<lambda>_. False)) s = Some s'"
  shows "(\<forall>r. r \<in> set (us_rows s') \<longrightarrow> up_state r = Staged \<and> us_now s < up_expires r) \<and>
    (\<forall>p c. us_files s' p = Some c \<longrightarrow> (\<exists>r. r \<in> set (us_rows s') \<and> up_path r = p)) \<and>
    (\<forall>r. r \<in> set (us_rows s) \<and> us_now s < up_expires r \<longrightarrow>
       r\<lparr>up_state := Staged\<rparr> \<in> set (us_rows s') \<and> us_files s' (up_path r) = us_files s (up_path r))"
proof -
  have data: "data_ok s" using upload_run_inv [OF assms(1)] by (simp add: up_inv_def up_ok_def)
  note rows = conjunct1 [OF boot_step [OF assms(2)]] and files = conjunct2 [OF boot_step [OF assms(2)]]
  have kept: "r\<lparr>up_state := Staged\<rparr> \<in> set (us_rows s')" if "r \<in> set (us_rows s)" "us_now s < up_expires r" for r
    using that by (rule kept_row [OF rows])
  have "\<exists>r. r \<in> set (us_rows s') \<and> up_path r = p" if "us_files s' p = Some c" for p c
  proof -
    from that files have p: "path_ids p \<in> set (list_media_upload_ids (us_rows s))" "us_files s p = Some c"
      "p \<notin> set (map up_path (filter (\<lambda>r. up_expires r \<le> us_now s) (us_rows s)))" by (auto split: if_splits)
    then obtain r where r: "r \<in> set (us_rows s)" "path_ids p = (up_account r, up_id r)" by (auto simp: list_media_upload_ids_def)
    have path: "p = up_path r" by (rule file_has_row [OF data r p(2)])
    with r(1) p(3) have "us_now s < up_expires r" by force
    from kept [OF r(1) this] path show ?thesis by force
  qed
  moreover have "up_state r = Staged \<and> us_now s < up_expires r" if "r \<in> set (us_rows s')" for r
    using that unfolding rows by (auto simp: reset_staged)
  moreover have "us_files s' (up_path r) = us_files s (up_path r)" if "r \<in> set (us_rows s)" "us_now s < up_expires r" for r
    using unexpired_path [OF data that] unfolding files by simp
  ultimately show ?thesis using kept by blast
qed

text \<open>C29: a request that is dropped while it awaits what is done with the bytes of its upload leaves the row marked as being
  sent for good: until the next boot, or the deletion of the account, every continuation keeps it so, and it cannot
  be claimed.\<close>

theorem upload_abandoned_wedged:
  assumes "upload_run cfg es (upload_boot accounts now) = Some s" "us_tasks s i = Some (Mutate a u bytes)"
    and "r \<in> set (us_rows s)" "up_id r = u"
    and "upload_run cfg (UStep i InCancel # es') s = Some s'" "list_all (\<lambda>e. \<not> unwedges r e) es'"
  shows "r \<in> set (us_rows s') \<and> up_state r = Sending \<and> stmt_out (StClaim b u) s' = []"
proof -
  have ok: "up_ok s" using upload_run_inv [OF assms(1)] by (simp add: up_inv_def)
  let ?t = "end_u i None [] s"
  have t: "upload_run cfg es' ?t = Some s'" using assms(2,5) by (simp add: task_step_u_def)
  have "claimed s u" using up_ok_pc [OF ok assms(2)] by simp
  then have "wedged r ?t"
    using assms(3,4) free_end [OF ok assms(2)] by (simp add: wedged_def claimed_def)
  moreover have "up_ok ?t" using abandon_ok [OF ok assms(2)] by simp
  ultimately have "wedged r s'" using wedged_run [OF _ _ assms(6) t] by blast
  moreover have "data_ok s'" using upload_run_ok [OF \<open>up_ok ?t\<close> t] by (simp add: up_ok_def)
  ultimately show ?thesis using wedged_unclaimable [of s' r b] assms(4) by (simp add: wedged_def)
qed


section \<open>Witnesses\<close>

text \<open>Account 0 stages two bytes as upload 7, and task 1 claims it.\<close>

definition demo_upload_config :: upload_config where
  "demo_upload_config = \<lparr>uc_max_bytes = 10, uc_ttl = 100,
     uc_images = \<lparr>il_format = (\<lambda>_. None), il_dimensions = (\<lambda>_. None), il_decodes = (\<lambda>_ _ _ _ _. False)\<rparr>\<rparr>"

definition demo_request :: stage_request where
  "demo_request = \<lparr>sr_account = 0, sr_kind = FileUpload, sr_filename = [102], sr_content_type = None\<rparr>"

definition demo_stage :: "upload_event list" where
  "demo_stage = [UStart 0 (StageAccount demo_request False), UStep 0 (InGo 0), UStep 0 (InGo 7), UStep 0 (InGo 0), UStep 0 (InChunk [1, 2]),
     UStep 0 InEnd, UStep 0 (InGo 0), UStep 0 (InGo 0), UStep 0 (InGo 0)]"

definition demo_claim :: "upload_event list" where
  "demo_claim = [UStart 1 (ClaimRow 0 7 10 False), UStep 1 (InGo 0), UStep 1 (InGo 0)]"

definition demo_row :: "upload_state \<Rightarrow> upload_row" where
  "demo_row st = (staged_row demo_upload_config 0 demo_request False 7 [1, 2])\<lparr>up_state := st\<rparr>"

definition demo_uploads :: "upload_state \<Rightarrow> (nat \<rightharpoonup> upc) \<Rightarrow> upload_system" where
  "demo_uploads st tasks = \<lparr>us_now = 0, us_accounts = [0 \<mapsto> True], us_rows = [demo_row st], us_files = [FinalFile 0 7 \<mapsto> [1, 2]],
     us_tasks = tasks, us_bg = [], us_ids = {7}, us_staged = [7 \<mapsto> (0, [1, 2])], us_replies = [(0, UrStaged (demo_row Staged))]\<rparr>"

lemmas demo_upload_defs = task_step_u_def stage_go_def stage_open_def stage_body_def stage_chunk_def stage_rename_def stage_insert_def
  staged_row_def insert_stmt_def insert_upload_def claim_go_def claim_row_def claim_read_def stmt_out_def apply_stmt_def stmt_rows_def
  claim_staged_media_upload_def rows_of_def read_bounded_def goto_u_def end_u_def is_upload_def demo_upload_config_def demo_request_def
  demo_row_def demo_uploads_def

lemma demo_stage_run: "upload_run demo_upload_config demo_stage (upload_boot [0 \<mapsto> True] 0) = Some (demo_uploads Staged Map.empty)"
  by (simp add: demo_stage_def upload_boot_def demo_upload_defs fun_upd_twist fun_eq_iff)

lemma demo_claim_run:
  "upload_run demo_upload_config demo_claim (demo_uploads Staged Map.empty) = Some (demo_uploads Sending [1 \<mapsto> Mutate 0 7 [1, 2]])"
  by (simp add: demo_claim_def demo_upload_defs)

lemma upload_run_append: "upload_run cfg (es @ es') s = Option.bind (upload_run cfg es s) (upload_run cfg es')"
  by (induction es arbitrary: s) (simp_all split: Option.bind_split)

lemma demo_upload_run:
  "upload_run demo_upload_config (demo_stage @ demo_claim) (upload_boot [0 \<mapsto> True] 0) = Some (demo_uploads Sending [1 \<mapsto> Mutate 0 7 [1, 2]])"
  by (simp add: upload_run_append demo_stage_run demo_claim_run)

theorem upload_claim_exclusive_witness: "7 \<notin> set (bg_owners (demo_uploads Sending [1 \<mapsto> Mutate 0 7 [1, 2]]))"
  using upload_claim_exclusive [OF demo_upload_run, of 1 0 7 "[1, 2]"] by (simp add: demo_uploads_def)

theorem upload_bytes_intact_witness: "us_staged (demo_uploads Sending [1 \<mapsto> Mutate 0 7 [1, 2]]) 7 = Some (0, [1, 2])"
  using upload_bytes_intact [OF demo_upload_run, of 1 0 7 "[1, 2]"] by (simp add: demo_uploads_def)

theorem upload_quota_witness: "length (generated_of 0 (us_rows (demo_uploads Staged Map.empty))) \<le> GENERATED_COUNT"
  using upload_quota [OF demo_stage_run, of 0] by blast

theorem upload_settles_witness:
  "\<exists>s'. upload_run demo_upload_config [UStep 1 InSent, UStep 1 (InGo 0), UStep 1 (InGo 0)] (demo_uploads Sending [1 \<mapsto> Mutate 0 7 [1, 2]]) = Some s' \<and>
     no_row s' 7"
  using upload_settles [OF demo_upload_run, of 1 0 7 "[1, 2]" "demo_row Sending"]
  by (simp add: demo_uploads_def demo_row_def staged_row_def) blast

theorem upload_boot_recovers_witness:
  "\<exists>s'. upload_step demo_upload_config (UBoot True True True (\<lambda>_. False)) (demo_uploads Sending [1 \<mapsto> Mutate 0 7 [1, 2]]) = Some s' \<and>
     (\<forall>r. r \<in> set (us_rows s') \<longrightarrow> up_state r = Staged)"
proof -
  obtain s' where "upload_step demo_upload_config (UBoot True True True (\<lambda>_. False)) (demo_uploads Sending [1 \<mapsto> Mutate 0 7 [1, 2]]) = Some s'"
    by simp
  with upload_boot_recovers [OF demo_upload_run this] show ?thesis by blast
qed

theorem upload_abandoned_wedged_witness:
  "demo_row Sending \<in> set (us_rows (demo_uploads Sending Map.empty\<lparr>us_now := 1000\<rparr>)) \<and>
   stmt_out (StClaim 0 7) (demo_uploads Sending Map.empty\<lparr>us_now := 1000\<rparr>) = []"
proof -
  have "upload_run demo_upload_config [UStep 1 InCancel, UTick 1000] (demo_uploads Sending [1 \<mapsto> Mutate 0 7 [1, 2]]) =
      Some (demo_uploads Sending Map.empty\<lparr>us_now := 1000\<rparr>)"
    by (simp add: demo_upload_defs)
  from upload_abandoned_wedged [OF demo_upload_run _ _ _ this, of 0 7 "[1, 2]" "demo_row Sending" 0] show ?thesis
    by (simp add: demo_uploads_def) (simp add: demo_row_def staged_row_def)
qed

end
