(* ===== verification/Device_State.thy ===== *)
theory Device_State
  imports Json_Value "HOL-Library.Multiset"
begin

text \<open>
  State that the clients of an account share through the server (drafts, read markers):
  \<^verbatim>\<open>crates/axon-store/src/device_state.rs\<close> with its migration, and the two routes of
  \<^verbatim>\<open>crates/axon-api/src/routes/device_state.rs\<close>. Each client writes rows of its own; a read merges the rows of
  all clients, the newest write of a key winning, and a deleted key is a row without a value. What the database
  answers to a statement (\<open>ok\<close>) and the time it reads (\<open>now\<close>) come from outside, as does the printed length of a
  value (\<open>json_len\<close>). A write is committed by one step and announced by a later one, so that concurrent requests
  announce in any order and a request dropped in between announces nothing. Shown (\<open>device_state_last_write\<close>): what a
  read says of a key in terms of the log of committed writes, and that each announcement is of a committed write.
\<close>

type_synonym uuid = nat

section \<open>The table\<close>

record ds_row =
  ds_account :: uuid
  ds_device :: uuid
  ds_namespace :: rstr
  ds_key :: rstr
  ds_value :: "json_value option"
  ds_updated :: nat

record ds_db =
  dd_accounts :: "uuid list"
  dd_rows :: "ds_row list"

type_synonym ds_entries = "(rstr \<times> json_value option) list"

text \<open>Rows of one key of the merged view, and the primary key.\<close>

definition row_for :: "uuid \<Rightarrow> rstr \<Rightarrow> rstr \<Rightarrow> ds_row \<Rightarrow> bool" where
  "row_for a n k r = (ds_account r = a \<and> ds_namespace r = n \<and> ds_key r = k)"

definition same_primary :: "ds_row \<Rightarrow> ds_row \<Rightarrow> bool" where
  "same_primary x r = (ds_device x = ds_device r \<and> row_for (ds_account r) (ds_namespace r) (ds_key r) x)"

text \<open>\<^verbatim>\<open>NULLIF(entry.value, 'null')\<close> on the value array, in which a deletion rides as JSON null.\<close>

definition stored_value :: "json_value option \<Rightarrow> json_value option" where
  "stored_value v = (case v of None \<Rightarrow> None | Some w \<Rightarrow> if w = JNull then None else Some w)"

text \<open>One row of \<^verbatim>\<open>INSERT ... ON CONFLICT DO UPDATE\<close>: the default of the column on an insert and the trigger on an
  update both set \<^verbatim>\<open>updated_at\<close> to the statement's time.\<close>

definition upsert_row :: "ds_row \<Rightarrow> ds_row list \<Rightarrow> ds_row list" where
  "upsert_row r rows =
     (if \<exists>x \<in> set rows. same_primary x r
      then map (\<lambda>x. if same_primary x r then x\<lparr>ds_value := ds_value r, ds_updated := ds_updated r\<rparr> else x) rows
      else rows @ [r])"

definition ds_new_row :: "uuid \<Rightarrow> uuid \<Rightarrow> rstr \<Rightarrow> nat \<Rightarrow> rstr \<times> json_value option \<Rightarrow> ds_row" where
  "ds_new_row a d n now e =
     \<lparr>ds_account = a, ds_device = d, ds_namespace = n, ds_key = fst e, ds_value = stored_value (snd e), ds_updated = now\<rparr>"

text \<open>The statement fails on a foreign key that is not there and on a key given twice; without entries it returns
  no row, which is an error too.\<close>

definition upsert_device_state :: "bool \<Rightarrow> nat \<Rightarrow> uuid \<Rightarrow> uuid \<Rightarrow> rstr \<Rightarrow> ds_entries \<Rightarrow> ds_db \<Rightarrow> (ds_db \<times> nat) option" where
  "upsert_device_state ok now a d n entries db =
     (if \<not> ok \<or> a \<notin> set (dd_accounts db) \<or> \<not> distinct (map fst entries) \<or> entries = [] then None
      else Some (db\<lparr>dd_rows := fold (\<lambda>e. upsert_row (ds_new_row a d n now e)) entries (dd_rows db)\<rparr>, now))"

text \<open>\<^verbatim>\<open>DISTINCT ON (key) ... ORDER BY key, updated_at DESC, device_id\<close>: the first row of a key in that order.\<close>

definition beats :: "ds_row \<Rightarrow> ds_row \<Rightarrow> bool" where
  "beats x y = (ds_updated y < ds_updated x \<or> ds_updated y = ds_updated x \<and> ds_device x \<le> ds_device y)"

fun winner :: "ds_row list \<Rightarrow> ds_row option" where
  "winner [] = None"
| "winner (r # rows) = Some (case winner rows of None \<Rightarrow> r | Some w \<Rightarrow> if beats r w then r else w)"

definition merged_device_state :: "uuid \<Rightarrow> rstr \<Rightarrow> ds_db \<Rightarrow> ds_row list" where
  "merged_device_state a n db =
     (let rows = filter (\<lambda>r. ds_account r = a \<and> ds_namespace r = n) (dd_rows db);
          winners = List.map_filter (\<lambda>k. winner (filter (\<lambda>r. ds_key r = k) rows)) (sort (remdups (map ds_key rows)))
      in filter (\<lambda>r. ds_value r \<noteq> None) winners)"

section \<open>The routes\<close>

definition MAX_PUT_ENTRIES :: nat where "MAX_PUT_ENTRIES = 64"
definition MAX_KEY_BYTES :: nat where "MAX_KEY_BYTES = 512"
definition MAX_NAMESPACE_BYTES :: nat where "MAX_NAMESPACE_BYTES = 64"
definition MAX_OPAQUE_JSON_BYTES :: nat where "MAX_OPAQUE_JSON_BYTES = 64 * 1024"

datatype ds_refusal = NoEntries | NamespaceTooLong | TooManyEntries | KeyTooLong | ValueTooLarge rstr

datatype ds_error = AccountNotFound | BadRequest ds_refusal | Internal

record ds_frame =
  df_account :: uuid
  df_device :: uuid
  df_namespace :: rstr
  df_entries :: ds_entries
  df_updated :: nat

text \<open>\<^verbatim>\<open>require_account\<close>; \<open>ok\<close> is whether the query is answered.\<close>

definition require_account :: "bool \<Rightarrow> uuid \<Rightarrow> ds_db \<Rightarrow> ds_error option" where
  "require_account ok a db = (if \<not> ok then Some Internal else if a \<notin> set (dd_accounts db) then Some AccountNotFound else None)"

text \<open>\<^verbatim>\<open>DeviceStateEntryDto::from\<close> without its times: the winners are collected in a map of their keys.\<close>

definition entry_dto :: "ds_row \<Rightarrow> json_value \<times> uuid" where
  "entry_dto r = (case ds_value r of None \<Rightarrow> JNull | Some v \<Rightarrow> v, ds_device r)"

definition get_device_state :: "bool \<Rightarrow> bool \<Rightarrow> rstr \<Rightarrow> uuid \<Rightarrow> ds_db \<Rightarrow> ds_error + (rstr \<times> json_value \<times> uuid) list" where
  "get_device_state ok1 ok2 n a db =
     (case require_account ok1 a db of
        Some e \<Rightarrow> Inl e
      | None \<Rightarrow> if \<not> ok2 then Inl Internal else Inr (map (\<lambda>r. (ds_key r, entry_dto r)) (merged_device_state a n db)))"

text \<open>The loop over the entries stops at the first one over a limit.\<close>

fun check_entries :: "(json_value \<Rightarrow> nat) \<Rightarrow> ds_entries \<Rightarrow> ds_refusal option" where
  "check_entries json_len [] = None"
| "check_entries json_len ((k, v) # es) =
     (if MAX_KEY_BYTES < length (utf8 k) then Some KeyTooLong
      else if MAX_OPAQUE_JSON_BYTES < (case v of None \<Rightarrow> 0 | Some w \<Rightarrow> json_len w) then Some (ValueTooLarge k)
      else check_entries json_len es)"

definition check_put :: "(json_value \<Rightarrow> nat) \<Rightarrow> rstr \<Rightarrow> ds_entries \<Rightarrow> ds_refusal option" where
  "check_put json_len n entries =
     (if entries = [] then Some NoEntries
      else if MAX_NAMESPACE_BYTES < length (utf8 n) then Some NamespaceTooLong
      else if MAX_PUT_ENTRIES < length entries then Some TooManyEntries
      else check_entries json_len entries)"

text \<open>The handler up to the commit of its statement, at the time \<open>now\<close>: the database after it and the frame the rest of
  the handler broadcasts. \<open>ok2\<close> is whether the statement is committed; whether its answer arrives is decided later.\<close>

definition put_commit ::
  "(json_value \<Rightarrow> nat) \<Rightarrow> bool \<Rightarrow> bool \<Rightarrow> nat \<Rightarrow> uuid \<Rightarrow> rstr \<Rightarrow> uuid \<Rightarrow> ds_entries \<Rightarrow> ds_db \<Rightarrow> ds_error + (ds_db \<times> ds_frame)" where
  "put_commit json_len ok1 ok2 now d n a entries db =
     (case require_account ok1 a db of
        Some e \<Rightarrow> Inl e
      | None \<Rightarrow>
          (case check_put json_len n entries of
             Some r \<Rightarrow> Inl (BadRequest r)
           | None \<Rightarrow>
               (case upsert_device_state ok2 now a d n entries db of
                  None \<Rightarrow> Inl Internal
                | Some (db', updated) \<Rightarrow>
                    Inr (db', \<lparr>df_account = a, df_device = d, df_namespace = n, df_entries = entries, df_updated = updated\<rparr>))))"

text \<open>\<^verbatim>\<open>DeviceStateFramePayload::from\<close>: a deletion is null on the wire; the entries are collected in a map.\<close>

definition frame_payload :: "ds_frame \<Rightarrow> json_map" where
  "frame_payload f = fold (\<lambda>(k, v). obj_insert k (case v of None \<Rightarrow> JNull | Some w \<Rightarrow> w)) (df_entries f) []"

section \<open>The server\<close>

text \<open>The requests being served: the database, the frames of the handlers whose statement is committed and that still
  await its answer, the frames broadcast in order, and the log of committed writes.\<close>

record ds_put =
  dp_ok :: "bool \<times> bool"
  dp_now :: nat
  dp_device :: uuid
  dp_namespace :: rstr
  dp_account :: uuid
  dp_entries :: ds_entries

record ds_server =
  sv_db :: ds_db
  sv_handlers :: "ds_frame list"
  sv_frames :: "ds_frame list"
  sv_committed :: "ds_frame list"

definition server_new :: "uuid list \<Rightarrow> ds_server" where
  "server_new accounts = \<lparr>sv_db = \<lparr>dd_accounts = accounts, dd_rows = []\<rparr>, sv_handlers = [], sv_frames = [], sv_committed = []\<rparr>"

definition begin_put :: "(json_value \<Rightarrow> nat) \<Rightarrow> ds_put \<Rightarrow> ds_server \<Rightarrow> ds_server" where
  "begin_put json_len p s =
     (case put_commit json_len (fst (dp_ok p)) (snd (dp_ok p)) (dp_now p) (dp_device p) (dp_namespace p) (dp_account p) (dp_entries p) (sv_db s) of
        Inl e \<Rightarrow> s
      | Inr (db, f) \<Rightarrow> s\<lparr>sv_db := db, sv_handlers := sv_handlers s @ [f], sv_committed := sv_committed s @ [f]\<rparr>)"

definition remove_nth :: "nat \<Rightarrow> 'a list \<Rightarrow> 'a list" where
  "remove_nth i xs = take i xs @ drop (Suc i) xs"

text \<open>The rest of a handler, once the database has answered.\<close>

definition broadcast_put :: "nat \<Rightarrow> ds_server \<Rightarrow> ds_server" where
  "broadcast_put i s =
     (if i < length (sv_handlers s)
      then s\<lparr>sv_handlers := remove_nth i (sv_handlers s), sv_frames := sv_frames s @ [sv_handlers s ! i]\<rparr> else s)"

text \<open>A handler ends without broadcasting: the client hung up and its future is dropped, or the answer of the database
  was lost and the request fails.\<close>

definition drop_put :: "nat \<Rightarrow> ds_server \<Rightarrow> ds_server" where
  "drop_put i s = s\<lparr>sv_handlers := remove_nth i (sv_handlers s)\<rparr>"

datatype ds_step = BeginPut ds_put | BroadcastPut nat | DropPut nat

fun serve :: "(json_value \<Rightarrow> nat) \<Rightarrow> ds_step \<Rightarrow> ds_server \<Rightarrow> ds_server" where
  "serve json_len (BeginPut p) s = begin_put json_len p s"
| "serve json_len (BroadcastPut i) s = broadcast_put i s"
| "serve json_len (DropPut i) s = drop_put i s"

section \<open>The contract\<close>

text \<open>The last write of one device to a key in a log of writes: the value, or \<open>None\<close> for a deletion, and its time.\<close>

definition names_key :: "uuid \<Rightarrow> rstr \<Rightarrow> rstr \<Rightarrow> ds_frame \<Rightarrow> bool" where
  "names_key a n k f = (df_account f = a \<and> df_namespace f = n \<and> k \<in> fst ` set (df_entries f))"

definition says :: "rstr \<Rightarrow> ds_frame \<Rightarrow> json_value option \<times> nat" where
  "says k f = (stored_value (the (map_of (df_entries f) k)), df_updated f)"

definition device_last :: "ds_frame list \<Rightarrow> uuid \<Rightarrow> rstr \<Rightarrow> rstr \<Rightarrow> uuid \<Rightarrow> (json_value option \<times> nat) option" where
  "device_last log a n k d = map_option (says k) (find (\<lambda>f. names_key a n k f \<and> df_device f = d) (rev log))"

text \<open>The device whose last write is the newest of all devices' last writes, the smaller device first on a tie.\<close>

definition newest_device :: "ds_frame list \<Rightarrow> uuid \<Rightarrow> rstr \<Rightarrow> rstr \<Rightarrow> uuid \<Rightarrow> bool" where
  "newest_device log a n k d \<longleftrightarrow>
     (\<exists>v t. device_last log a n k d = Some (v, t) \<and>
       (\<forall>d' v' t'. device_last log a n k d' = Some (v', t') \<longrightarrow> d' \<noteq> d \<longrightarrow> t' < t \<or> t' = t \<and> d < d'))"

lemma newest_deviceD:
  assumes "newest_device log a n k d" "device_last log a n k d = Some w" "device_last log a n k d' = Some w'" "d' \<noteq> d"
  shows "snd w' < snd w \<or> snd w' = snd w \<and> d < d'"
  using assms unfolding newest_device_def by (metis option.inject prod.collapse snd_conv)

lemma device_last_Nil [simp]: "device_last [] a n k d = None"
  by (simp add: device_last_def)

lemma device_last_snoc:
  "device_last (log @ [f]) a n k d = (if names_key a n k f \<and> df_device f = d then Some (says k f) else device_last log a n k d)"
  by (simp add: device_last_def)

section \<open>What the rows of a key say\<close>

lemma winner_None [simp]: "winner rows = None \<longleftrightarrow> rows = []"
  by (cases rows) auto

lemma winner_in: "winner rows = Some w \<Longrightarrow> w \<in> set rows"
  by (induction rows arbitrary: w) (auto split: option.splits if_splits)

lemma winner_beats: "winner rows = Some w \<Longrightarrow> y \<in> set rows \<Longrightarrow> beats w y"
proof (induction rows arbitrary: w y)
  case (Cons r rows)
  show ?case
  proof (cases "winner rows")
    case None
    then show ?thesis
      using Cons.prems by (auto simp: beats_def)
  next
    case (Some x)
    have "beats r x \<Longrightarrow> beats x y \<Longrightarrow> beats r y" "beats r r" "\<not> beats r x \<Longrightarrow> beats x r"
      by (auto simp: beats_def)
    then show ?thesis
      using Cons.prems Cons.IH [OF Some] Some by (auto split: if_splits)
  qed
qed simp

lemma filter_map_filter: "filter P (List.map_filter f xs) = List.map_filter (\<lambda>x. Option.bind (f x) (\<lambda>y. if P y then Some y else None)) xs"
  by (induction xs) (auto simp: List.map_filter_simps split: option.splits)

lemma map_of_map_filter:
  assumes "\<And>x y. g x = Some y \<Longrightarrow> key y = x"
  shows "map_of (map (\<lambda>y. (key y, h y)) (List.map_filter g xs)) k = (if k \<in> set xs then map_option h (g k) else None)"
  using assms by (induction xs) (auto simp: List.map_filter_simps split: option.splits)

text \<open>The merged view at one key is the winner among its rows, unless that is a deletion.\<close>

lemma merged_lookup:
  "map_of (map (\<lambda>r. (ds_key r, h r)) (merged_device_state a n db)) k =
     (case winner (filter (row_for a n k) (dd_rows db)) of
        None \<Rightarrow> None
      | Some r \<Rightarrow> if ds_value r = None then None else Some (h r))"
proof -
  let ?rows = "filter (\<lambda>r. ds_account r = a \<and> ds_namespace r = n) (dd_rows db)"
  let ?g = "\<lambda>k. Option.bind (winner (filter (\<lambda>r. ds_key r = k) ?rows)) (\<lambda>r. if ds_value r \<noteq> None then Some r else None)"
  have key: "ds_key y = x" if "?g x = Some y" for x y
    using that by (auto simp: bind_eq_Some_conv split: if_splits dest!: winner_in)
  have rows: "filter (\<lambda>r. ds_key r = k) ?rows = filter (row_for a n k) (dd_rows db)"
    by (auto simp: row_for_def intro: filter_cong)
  have "map_of (map (\<lambda>r. (ds_key r, h r)) (merged_device_state a n db)) k =
    (if k \<in> set (sort (remdups (map ds_key ?rows))) then map_option h (?g k) else None)"
    unfolding merged_device_state_def Let_def filter_map_filter by (rule map_of_map_filter) (rule key)
  moreover have "k \<notin> set (map ds_key ?rows) \<Longrightarrow> filter (row_for a n k) (dd_rows db) = []"
    by (auto simp: filter_empty_conv row_for_def)
  ultimately show ?thesis
    unfolding rows by (auto split: option.splits)
qed

section \<open>The table is what the log says\<close>

definition row_of :: "uuid \<Rightarrow> rstr \<Rightarrow> rstr \<Rightarrow> uuid \<Rightarrow> json_value option \<times> nat \<Rightarrow> ds_row" where
  "row_of a n k d w =
     \<lparr>ds_account = a, ds_device = d, ds_namespace = n, ds_key = k, ds_value = fst w, ds_updated = snd w\<rparr>"

definition table_is :: "ds_row list \<Rightarrow> ds_frame list \<Rightarrow> bool" where
  "table_is rows log \<longleftrightarrow> (\<forall>a n k d w. row_of a n k d w \<in> set rows \<longleftrightarrow> device_last log a n k d = Some w)"

lemma row_of_sel [simp]:
  "ds_device (row_of a n k d w) = d" "ds_value (row_of a n k d w) = fst w" "ds_updated (row_of a n k d w) = snd w"
  "row_for a n k (row_of a' n' k' d w) \<longleftrightarrow> a' = a \<and> n' = n \<and> k' = k"
  by (auto simp: row_of_def row_for_def)

lemma row_for_row_of: "row_for a n k r \<Longrightarrow> r = row_of a n k (ds_device r) (ds_value r, ds_updated r)"
  by (cases r) (simp add: row_for_def row_of_def)

text \<open>A written row replaces the row of its primary key.\<close>

lemma set_upsert_row: "set (upsert_row r rows) = insert r {x \<in> set rows. \<not> same_primary x r}"
proof -
  have eq: "same_primary x r \<Longrightarrow> x\<lparr>ds_value := ds_value r, ds_updated := ds_updated r\<rparr> = r" for x
    by (cases x; cases r) (simp add: same_primary_def row_for_def)
  show ?thesis
  proof (cases "\<exists>x \<in> set rows. same_primary x r")
    case True
    then obtain x where "x \<in> set rows" "same_primary x r"
      by blast
    then have "r \<in> (\<lambda>x. if same_primary x r then x\<lparr>ds_value := ds_value r, ds_updated := ds_updated r\<rparr> else x) ` set rows"
      using eq by (force intro!: image_eqI [of _ _ x])
    then show ?thesis
      using True eq by (auto simp: upsert_row_def)
  qed (auto simp: upsert_row_def)
qed

lemma row_for_new [simp]: "row_for a n k (ds_new_row a' d n' now e) \<longleftrightarrow> a' = a \<and> n' = n \<and> fst e = k"
  by (auto simp: row_for_def ds_new_row_def)

lemma new_row_sel [simp]:
  "ds_device (ds_new_row a d n now e) = d" "ds_value (ds_new_row a d n now e) = stored_value (snd e)"
  "ds_updated (ds_new_row a d n now e) = now"
  by (simp_all add: ds_new_row_def)

lemma same_primary_new [simp]:
  "same_primary (row_of a n k d w) (ds_new_row a' d' n' now e) \<longleftrightarrow> a = a' \<and> n = n' \<and> k = fst e \<and> d = d'"
  by (auto simp: same_primary_def row_for_def row_of_def ds_new_row_def)

lemma row_of_new [simp]:
  "row_of a n k d w = ds_new_row a' d' n' now e \<longleftrightarrow>
   a = a' \<and> n = n' \<and> k = fst e \<and> d = d' \<and> w = (stored_value (snd e), now)"
  by (cases w) (auto simp: row_of_def ds_new_row_def)

text \<open>A statement writes the rows of its entries and leaves every other row as it is.\<close>

lemma batch_rows:
  "distinct (map fst entries) \<Longrightarrow>
   row_of a n k d w \<in> set (fold (\<lambda>e. upsert_row (ds_new_row a' d' n' now e)) entries rows) \<longleftrightarrow>
     (if a = a' \<and> n = n' \<and> d = d' \<and> k \<in> fst ` set entries then w = (stored_value (the (map_of entries k)), now)
      else row_of a n k d w \<in> set rows)"
proof (induction entries arbitrary: rows)
  case (Cons e es)
  have "k = fst e \<Longrightarrow> k \<notin> fst ` set es"
    using Cons.prems by auto
  then show ?case
    using Cons.IH [of "upsert_row (ds_new_row a' d' n' now e) rows"] Cons.prems
    by (cases e) (auto simp: set_upsert_row)
qed simp

lemma put_commit_Inr:
  assumes "put_commit json_len ok1 ok2 now d n a entries db = Inr (db', f)"
  shows "f = \<lparr>df_account = a, df_device = d, df_namespace = n, df_entries = entries, df_updated = now\<rparr>"
    "distinct (map fst entries)" "dd_accounts db' = dd_accounts db" "a \<in> set (dd_accounts db)"
    "dd_rows db' = fold (\<lambda>e. upsert_row (ds_new_row a d n now e)) entries (dd_rows db)"
  using assms by (auto simp: put_commit_def upsert_device_state_def split: option.splits if_splits)

lemma put_commit_table:
  assumes "table_is (dd_rows db) log" "put_commit json_len ok1 ok2 now d n a entries db = Inr (db', f)"
  shows "table_is (dd_rows db') (log @ [f])"
proof -
  note put = put_commit_Inr [OF assms(2)]
  show ?thesis
    using assms(1) unfolding table_is_def put(5) batch_rows [OF put(2)] device_last_snoc
    by (auto simp: put(1) names_key_def says_def)
qed

section \<open>What a read says\<close>

lemma winner_is_newest:
  assumes "table_is rows log" "winner (filter (row_for a n k) rows) = Some r"
  shows "newest_device log a n k (ds_device r)"
    "device_last log a n k (ds_device r) = Some (ds_value r, ds_updated r)"
    "r = row_of a n k (ds_device r) (ds_value r, ds_updated r)"
proof -
  have r: "r \<in> set rows" "row_for a n k r"
    using winner_in [OF assms(2)] by simp_all
  show rw: "r = row_of a n k (ds_device r) (ds_value r, ds_updated r)"
    by (rule row_for_row_of [OF r(2)])
  then show last: "device_last log a n k (ds_device r) = Some (ds_value r, ds_updated r)"
    using assms(1) r(1) unfolding table_is_def by metis
  have "t' < ds_updated r \<or> t' = ds_updated r \<and> ds_device r < d'"
    if "device_last log a n k d' = Some (v', t')" "d' \<noteq> ds_device r" for d' v' t'
  proof -
    have "row_of a n k d' (v', t') \<in> set (filter (row_for a n k) rows)"
      using assms(1) that(1) by (simp add: table_is_def)
    from winner_beats [OF assms(2) this] show ?thesis
      using that(2) by (auto simp: beats_def)
  qed
  then show "newest_device log a n k (ds_device r)"
    unfolding newest_device_def using last by blast
qed

lemma newest_wins:
  assumes "table_is rows log" "newest_device log a n k d" "device_last log a n k d = Some w"
  shows "winner (filter (row_for a n k) rows) = Some (row_of a n k d w)"
proof -
  have mem: "row_of a n k d w \<in> set (filter (row_for a n k) rows)"
    using assms(1,3) by (simp add: table_is_def del: split_paired_All)
  then have "filter (row_for a n k) rows \<noteq> []"
    by force
  then obtain x where x: "winner (filter (row_for a n k) rows) = Some x"
    by (cases "winner (filter (row_for a n k) rows)") simp_all
  note xn = winner_is_newest [OF assms(1) x]
  have "beats x (row_of a n k d w)"
    by (rule winner_beats [OF x mem])
  then have "ds_device x = d"
    using newest_deviceD [OF assms(2,3) xn(2)] by (cases "ds_device x = d") (auto simp: beats_def)
  then show ?thesis
    using x xn(2,3) assms(3) by (metis option.inject)
qed

lemma read_of_table:
  assumes "table_is (dd_rows db) log"
  shows "map_of (map (\<lambda>r. (ds_key r, entry_dto r)) (merged_device_state a n db)) k = Some (v, d) \<longleftrightarrow>
    newest_device log a n k d \<and> (\<exists>t. device_last log a n k d = Some (Some v, t))"
proof -
  have eq: "map_of (map (\<lambda>r. (ds_key r, entry_dto r)) (merged_device_state a n db)) k = Some (v, d) \<longleftrightarrow>
      (\<exists>r. winner (filter (row_for a n k) (dd_rows db)) = Some r \<and> ds_value r = Some v \<and> ds_device r = d)"
    by (auto simp: merged_lookup entry_dto_def split: option.splits)
  show ?thesis
    unfolding eq using winner_is_newest [OF assms, of a n k] newest_wins [OF assms, of a n k d]
    by (metis fst_conv row_of_sel(1,2))
qed

text \<open>Where times grow along the log, the newest device is that of the last write.\<close>

lemma device_last_in:
  "device_last log a n k d = Some (v, t) \<Longrightarrow> \<exists>f \<in> set log. names_key a n k f \<and> df_device f = d \<and> (v, t) = says k f"
  by (auto simp: device_last_def find_Some_iff) (metis length_rev nth_mem set_rev)

lemma newest_is_last:
  assumes "sorted_wrt (\<lambda>f g. df_updated f < df_updated g) log" "find (names_key a n k) (rev log) = Some f"
  shows "device_last log a n k (df_device f) = Some (says k f) \<and> (newest_device log a n k d \<longleftrightarrow> d = df_device f)"
  using assms
proof (induction log rule: rev_induct)
  case (snoc g log)
  show ?case
  proof (cases "names_key a n k g")
    case True
    then have g: "f = g"
      using snoc.prems(2) by simp
    have older: "t' < df_updated g" if "device_last log a n k d' = Some (v', t')" for d' v' t'
      using device_last_in [OF that] snoc.prems(1) by (auto simp: sorted_wrt_append says_def)
    have last: "device_last (log @ [g]) a n k (df_device g) = Some (says k g)"
      using True by (simp add: device_last_snoc)
    have "newest_device (log @ [g]) a n k (df_device g)"
      unfolding newest_device_def using True older
      by (auto simp: device_last_snoc says_def split: if_splits)
    moreover have "\<not> newest_device (log @ [g]) a n k d" if "d \<noteq> df_device g"
    proof
      assume new: "newest_device (log @ [g]) a n k d"
      then obtain v t where d: "device_last (log @ [g]) a n k d = Some (v, t)"
        unfolding newest_device_def by blast
      have "df_updated g < t \<or> df_updated g = t \<and> d < df_device g"
        using newest_deviceD [OF new d last] \<open>d \<noteq> df_device g\<close> by (simp add: says_def)
      moreover have "t < df_updated g"
        using d \<open>d \<noteq> df_device g\<close> older by (auto simp: device_last_snoc split: if_splits)
      ultimately show False
        by simp
    qed
    ultimately show ?thesis
      using last g by blast
  next
    case False
    then have "device_last (log @ [g]) a n k = device_last log a n k"
      by (auto simp: device_last_snoc fun_eq_iff)
    then show ?thesis
      using snoc False by (simp add: newest_device_def sorted_wrt_append)
  qed
qed simp

section \<open>Runs of the server\<close>

definition server_ok :: "uuid list \<Rightarrow> ds_server \<Rightarrow> bool" where
  "server_ok accounts s \<longleftrightarrow> dd_accounts (sv_db s) = accounts \<and> table_is (dd_rows (sv_db s)) (sv_committed s) \<and>
     mset (sv_frames s) + mset (sv_handlers s) \<subseteq># mset (sv_committed s)"

lemma mset_remove_nth: "i < length xs \<Longrightarrow> mset xs = add_mset (xs ! i) (mset (remove_nth i xs))"
  unfolding remove_nth_def by (subst id_take_nth_drop [of i xs]) simp_all

lemma mset_remove_nth_subset: "mset (remove_nth i xs) \<subseteq># mset xs"
proof (cases "i < length xs")
  case True
  then show ?thesis
    using mset_remove_nth [OF True] by simp
qed (simp add: remove_nth_def)

lemma serve_ok: "server_ok accounts s \<Longrightarrow> server_ok accounts (serve json_len st s)"
proof (cases st)
  case (BeginPut p)
  assume ok: "server_ok accounts s"
  show ?thesis
  proof (cases "put_commit json_len (fst (dp_ok p)) (snd (dp_ok p)) (dp_now p) (dp_device p) (dp_namespace p)
      (dp_account p) (dp_entries p) (sv_db s)")
    case (Inr r)
    obtain db f where r: "r = (db, f)"
      by (cases r)
    have "table_is (dd_rows db) (sv_committed s @ [f])" "dd_accounts db = dd_accounts (sv_db s)"
      using put_commit_table [OF _ Inr [unfolded r]] put_commit_Inr(3) [OF Inr [unfolded r]] ok
      by (simp_all add: server_ok_def)
    then show ?thesis
      using ok Inr r by (simp add: BeginPut begin_put_def server_ok_def)
  qed (simp add: BeginPut begin_put_def ok)
next
  case (BroadcastPut i)
  assume ok: "server_ok accounts s"
  show ?thesis
  proof (cases "i < length (sv_handlers s)")
    case True
    then show ?thesis
      using ok mset_remove_nth [OF True] by (simp add: BroadcastPut broadcast_put_def server_ok_def)
  qed (simp add: BroadcastPut broadcast_put_def ok)
next
  case (DropPut i)
  assume ok: "server_ok accounts s"
  then show ?thesis
    using subset_mset.order_trans [OF subset_mset.add_left_mono [OF mset_remove_nth_subset [of i "sv_handlers s"]]]
    by (auto simp: DropPut drop_put_def server_ok_def)
qed

lemma serves_ok: "server_ok accounts s \<Longrightarrow> server_ok accounts (fold (serve json_len) steps s)"
  by (induction steps arbitrary: s) (simp_all add: serve_ok)

section \<open>Properties\<close>

text \<open>C33: whatever requests the clients of the server make, in whatever order their statements commit, at whatever
  times, and in whatever order or not at all their frames are broadcast: a read of a namespace of a known account
  shows a value and a device at a key exactly when that device's last committed write to the key holds the value and
  is newer than every other device's last committed write to it, the smaller device winning a tie. Where the times
  of the committed writes grow along the log, that is the last committed write to the key, and a key whose last
  committed write is a deletion is not shown. Every frame broadcast is of a committed write, and no write is
  broadcast twice.\<close>

theorem device_state_last_write:
  assumes "s = fold (serve json_len) steps (server_new accounts)" "a \<in> set accounts"
  shows "\<exists>view. get_device_state True True n a (sv_db s) = Inr view \<and>
    (\<forall>k v d. map_of view k = Some (v, d) \<longleftrightarrow>
       newest_device (sv_committed s) a n k d \<and> (\<exists>t. device_last (sv_committed s) a n k d = Some (Some v, t))) \<and>
    (sorted_wrt (\<lambda>f g. df_updated f < df_updated g) (sv_committed s) \<longrightarrow>
      (\<forall>k. map_of view k = (case find (names_key a n k) (rev (sv_committed s)) of
         None \<Rightarrow> None
       | Some f \<Rightarrow> map_option (\<lambda>v. (v, df_device f)) (stored_value (the (map_of (df_entries f) k)))))) \<and>
    mset (sv_frames s) \<subseteq># mset (sv_committed s)"
proof -
  have ok: "server_ok accounts s"
    unfolding assms(1)
    by (rule serves_ok) (simp add: server_ok_def server_new_def table_is_def)
  define view where "view = map (\<lambda>r. (ds_key r, entry_dto r)) (merged_device_state a n (sv_db s))"
  have get: "get_device_state True True n a (sv_db s) = Inr view"
    using ok assms(2) by (simp add: get_device_state_def require_account_def server_ok_def view_def)
  have table: "table_is (dd_rows (sv_db s)) (sv_committed s)"
    using ok by (simp add: server_ok_def)
  have look: "map_of view k = Some (v, d) \<longleftrightarrow>
      newest_device (sv_committed s) a n k d \<and> (\<exists>t. device_last (sv_committed s) a n k d = Some (Some v, t))" for k v d
    unfolding view_def by (rule read_of_table [OF table])
  have last: "map_of view k = (case find (names_key a n k) (rev (sv_committed s)) of
      None \<Rightarrow> None | Some f \<Rightarrow> map_option (\<lambda>v. (v, df_device f)) (stored_value (the (map_of (df_entries f) k))))"
    if sorted: "sorted_wrt (\<lambda>f g. df_updated f < df_updated g) (sv_committed s)" for k
  proof (cases "find (names_key a n k) (rev (sv_committed s))")
    case None
    then have "device_last (sv_committed s) a n k d = None" for d
      by (auto simp: device_last_def find_None_iff)
    then have "map_of view k = None"
      using look [of k] by (metis not_None_eq option.distinct(1) surj_pair)
    then show ?thesis
      using None by simp
  next
    case (Some f)
    note f = newest_is_last [OF sorted Some]
    have "map_of view k = Some (v, d) \<longleftrightarrow> d = df_device f \<and> stored_value (the (map_of (df_entries f) k)) = Some v" for v d
      using f [of d] by (auto simp: look says_def)
    then show ?thesis
      using Some by (cases "map_of view k"; cases "stored_value (the (map_of (df_entries f) k))") auto
  qed
  have "mset (sv_frames s) \<subseteq># mset (sv_committed s)"
    using ok subset_mset.order_trans [OF mset_subset_eq_add_left] unfolding server_ok_def by blast
  then show ?thesis
    using get look last by blast
qed

definition demo_puts :: "ds_put list" where
  "demo_puts =
     [\<lparr>dp_ok = (True, True), dp_now = 10, dp_device = 2, dp_namespace = lit ''drafts'', dp_account = 7, dp_entries = [(lit ''a'', Some (JString [104]))]\<rparr>,
      \<lparr>dp_ok = (True, True), dp_now = 20, dp_device = 1, dp_namespace = lit ''drafts'', dp_account = 7,
       dp_entries = [(lit ''a'', Some (JString [105])), (lit ''b'', Some (JString [106]))]\<rparr>,
      \<lparr>dp_ok = (True, True), dp_now = 25, dp_device = 1, dp_namespace = lit ''drafts'', dp_account = 8, dp_entries = [(lit ''a'', None)]\<rparr>,
      \<lparr>dp_ok = (True, True), dp_now = 30, dp_device = 2, dp_namespace = lit ''drafts'', dp_account = 7, dp_entries = [(lit ''b'', None)]\<rparr>]"

definition demo_steps :: "ds_step list" where
  "demo_steps = map BeginPut demo_puts @ [DropPut 0, BroadcastPut 1, BroadcastPut 0]"

theorem device_state_last_write_witness:
  "\<exists>view. get_device_state True True (lit ''drafts'') 7 (sv_db (fold (serve (\<lambda>_. 1)) demo_steps (server_new [7]))) = Inr view \<and>
     map_of view (lit ''a'') = Some (JString [105], 1) \<and> map_of view (lit ''b'') = None \<and>
     length (sv_frames (fold (serve (\<lambda>_. 1)) demo_steps (server_new [7]))) = 2"
proof -
  define s where "s = fold (serve (\<lambda>_. 1)) demo_steps (server_new [7])"
  have lens: "length (utf8 (lit ''drafts'')) = 6" "length (utf8 (lit ''a'')) = 1" "length (utf8 (lit ''b'')) = 1" "lit ''a'' \<noteq> lit ''b''"
    by code_simp+
  have log: "sv_committed s = map (\<lambda>p. \<lparr>df_account = dp_account p, df_device = dp_device p, df_namespace = dp_namespace p,
      df_entries = dp_entries p, df_updated = dp_now p\<rparr>) (filter (\<lambda>p. dp_account p = 7) demo_puts)"
    and frames: "length (sv_frames s) = 2"
    by (simp_all add: s_def demo_steps_def demo_puts_def server_new_def begin_put_def put_commit_def require_account_def check_put_def lens
        MAX_NAMESPACE_BYTES_def MAX_PUT_ENTRIES_def MAX_KEY_BYTES_def MAX_OPAQUE_JSON_BYTES_def upsert_device_state_def
        lens(4) lens(4) [symmetric] drop_put_def broadcast_put_def remove_nth_def)
  have sorted: "sorted_wrt (\<lambda>f g. df_updated f < df_updated g) (sv_committed s)"
    by (simp add: log demo_puts_def)
  obtain view where view: "get_device_state True True (lit ''drafts'') 7 (sv_db s) = Inr view"
    "\<forall>k. map_of view k = (case find (names_key 7 (lit ''drafts'') k) (rev (sv_committed s)) of
         None \<Rightarrow> None
       | Some f \<Rightarrow> map_option (\<lambda>v. (v, df_device f)) (stored_value (the (map_of (df_entries f) k))))"
    using device_state_last_write [OF s_def, of 7 "lit ''drafts''"] sorted by auto
  have "map_of view (lit ''a'') = Some (JString [105], 1)" "map_of view (lit ''b'') = None"
    by (simp_all add: view(2) log demo_puts_def names_key_def stored_value_def lens(4) lens(4) [symmetric])
  then show ?thesis
    using view(1) frames unfolding s_def by blast
qed

end
