(* ===== verification/Tui_State.thy ===== *)
theory Tui_State
  imports Device_State
begin

text \<open>
  The part of the terminal client's \<^verbatim>\<open>App\<close> (\<^verbatim>\<open>clients/tui/src\<close>) that it shares with the user's other devices:
  \<^verbatim>\<open>app/drafts.rs\<close>, \<^verbatim>\<open>app/read_markers.rs\<close>, \<^verbatim>\<open>app/typing.rs\<close>, the device-state reads of \<^verbatim>\<open>app/bootstrap.rs\<close>, and the
  places of \<^verbatim>\<open>keymap.rs\<close>, \<^verbatim>\<open>app.rs\<close> and \<^verbatim>\<open>app/reactions.rs\<close> that borrow the compose buffer and give it back. The event loop is
  single-threaded: each handler runs to its end before the next event, so a handler is a function on the state.
  \<^verbatim>\<open>Instant::now()\<close> is the argument \<open>now\<close>, read once per handler. Requests spawned in the background are appended to
  \<open>ta_sent\<close>; the iteration order of a received map is the order of its list.
\<close>

section \<open>State\<close>

type_synonym room_key = "uuid \<times> rstr"

text \<open>\<^verbatim>\<open>Mode\<close>, without the data of the modes that no function here reads.\<close>

datatype search_kind = SearchRooms | SearchMessages | SearchAccounts | SearchRoomFilter

datatype tui_mode =
    Compose | LoginUsername | LoginPassword | RecoveryKey | ConfirmLogout | ConfirmDelete | ConfirmRoomAction
  | RoomList | AccountList | MessageList | SearchMode search_kind | SearchForm | SearchResults
  | Editing rstr | Reacting rstr | Unreacting | Verification | PopupMode | DateJump

record pending_draft_put =
  pd_room :: room_key
  pd_value :: "rstr option"
  pd_due :: instant

record typing_notice =
  tn_room :: room_key
  tn_last_true :: instant
  tn_idle_deadline :: instant

record read_marker =
  rk_event :: rstr
  rk_origin_ts :: int

record receipt_target =
  rt_event :: rstr
  rt_arrival_order :: int

record pending_marker_put =
  pm_room :: room_key
  pm_marker :: read_marker
  pm_due :: instant

datatype tui_request =
    PutState uuid uuid rstr ds_entries
  | ReadState uuid "uuid list"
  | SendTyping room_key bool
  | SendReceipt room_key receipt_target

record tui_app =
  ta_mode :: tui_mode
  ta_rooms :: "room_key list"
  ta_selected :: "nat option"
  ta_accounts :: "uuid list"
  ta_device :: uuid
  ta_wired :: bool
  ta_buffer :: rstr
  ta_cursor :: nat
  ta_compose_room :: "room_key option"
  ta_drafts :: "room_key \<Rightarrow> rstr option"
  ta_pending :: "pending_draft_put option"
  ta_since_fetch :: "room_key set"
  ta_inflight :: bool
  ta_again :: bool
  ta_typing :: "typing_notice option"
  ta_markers :: "room_key \<Rightarrow> read_marker option"
  ta_receipts :: "room_key \<Rightarrow> receipt_target option"
  ta_failed_receipts :: "room_key set"
  ta_pending_marker :: "pending_marker_put option"
  ta_unread :: "room_key \<Rightarrow> nat option"
  ta_unread_touched :: "room_key set"
  ta_sent :: "tui_request list"

definition selected_room :: "tui_app \<Rightarrow> room_key option" where
  "selected_room s = (case ta_selected s of None \<Rightarrow> None | Some i \<Rightarrow> if i < length (ta_rooms s) then Some (ta_rooms s ! i) else None)"

text \<open>A background request; \<open>ta_wired\<close> says that the channels of the outcomes are set up, without which nothing is sent.\<close>

definition spawn_request :: "tui_request \<Rightarrow> tui_app \<Rightarrow> tui_app" where
  "spawn_request q s = (if ta_wired s then s\<lparr>ta_sent := ta_sent s @ [q]\<rparr> else s)"

section \<open>Typing notices\<close>

definition TYPING_REFRESH :: duration where "TYPING_REFRESH = from_secs 3"
definition TYPING_IDLE :: duration where "TYPING_IDLE = from_secs 4"

definition stop_typing_now :: "tui_app \<Rightarrow> tui_app" where
  "stop_typing_now s =
     (case ta_typing s of None \<Rightarrow> s | Some t \<Rightarrow> spawn_request (SendTyping (tn_room t) False) (s\<lparr>ta_typing := None\<rparr>))"

definition stop_typing_for_room :: "room_key \<Rightarrow> tui_app \<Rightarrow> tui_app" where
  "stop_typing_for_room r s =
     (case ta_typing s of None \<Rightarrow> s | Some t \<Rightarrow> if tn_room t = r then stop_typing_now s else s)"

definition note_typing :: "room_key \<Rightarrow> instant \<Rightarrow> tui_app \<Rightarrow> tui_app" where
  "note_typing r now s =
     (let s1 = (case ta_typing s of None \<Rightarrow> s | Some t \<Rightarrow> if tn_room t \<noteq> r then stop_typing_now s else s);
          refresh_due = (case ta_typing s1 of None \<Rightarrow> True | Some t \<Rightarrow> TYPING_REFRESH \<le> saturating_duration_since now (tn_last_true t));
          s2 = (if refresh_due then spawn_request (SendTyping r True) s1 else s1);
          last_true = (if refresh_due then now else case ta_typing s1 of None \<Rightarrow> now | Some t \<Rightarrow> tn_last_true t)
      in s2\<lparr>ta_typing := Some \<lparr>tn_room = r, tn_last_true = last_true, tn_idle_deadline = now + TYPING_IDLE\<rparr>\<rparr>)"

definition flush_due_typing :: "instant \<Rightarrow> tui_app \<Rightarrow> tui_app" where
  "flush_due_typing now s =
     (case ta_typing s of None \<Rightarrow> s | Some t \<Rightarrow> if now < tn_idle_deadline t then s else stop_typing_now s)"

section \<open>Drafts\<close>

definition DRAFTS_NAMESPACE :: rstr where "DRAFTS_NAMESPACE = lit ''drafts''"
definition DRAFT_DEBOUNCE :: duration where "DRAFT_DEBOUNCE = 400000000"

definition draft_value :: "rstr \<Rightarrow> json_value" where
  "draft_value t = jobj [(''text'', JString t)]"

definition draft_text :: "json_value \<Rightarrow> rstr option" where
  "draft_text v = Option.bind (jget v (lit ''text'')) as_string"

text \<open>A slash command in progress; two slashes escape a literal one.\<close>

definition is_command :: "rstr \<Rightarrow> bool" where
  "is_command t = (take 1 t = [47] \<and> take 2 t \<noteq> [47, 47])"

definition cancel_pending_draft_put :: "room_key \<Rightarrow> tui_app \<Rightarrow> tui_app" where
  "cancel_pending_draft_put r s =
     (case ta_pending s of None \<Rightarrow> s | Some p \<Rightarrow> if pd_room p = r then s\<lparr>ta_pending := None\<rparr> else s)"

definition note_draft_activity :: "instant \<Rightarrow> tui_app \<Rightarrow> tui_app" where
  "note_draft_activity now s =
     (if ta_mode s \<noteq> Compose then s
      else case selected_room s of
        None \<Rightarrow> s
      | Some r \<Rightarrow>
          (let s1 = s\<lparr>ta_compose_room := Some r\<rparr>;
               t = ta_buffer s;
               v = (if t = [] then None else Some t)
           in if is_command t then stop_typing_for_room r (cancel_pending_draft_put r s1)
              else if ta_drafts s r = v then
                (let s2 = cancel_pending_draft_put r s1 in if v = None then stop_typing_for_room r s2 else s2)
              else
                (let s2 = (case v of Some _ \<Rightarrow> note_typing r now s1 | None \<Rightarrow> stop_typing_for_room r s1)
                 in s2\<lparr>ta_pending := Some \<lparr>pd_room = r, pd_value = v, pd_due = now + DRAFT_DEBOUNCE\<rparr>\<rparr>)))"

definition put_draft :: "pending_draft_put \<Rightarrow> tui_app \<Rightarrow> tui_app" where
  "put_draft p s =
     spawn_request (PutState (ta_device s) (fst (pd_room p)) DRAFTS_NAMESPACE [(snd (pd_room p), map_option draft_value (pd_value p))]) s"

definition flush_due_draft_put :: "instant \<Rightarrow> tui_app \<Rightarrow> tui_app" where
  "flush_due_draft_put now s =
     (case ta_pending s of
        None \<Rightarrow> s
      | Some p \<Rightarrow>
          if now < pd_due p then s
          else (let s1 = s\<lparr>ta_pending := None\<rparr>
                in case pd_value p of
                     Some t \<Rightarrow> put_draft p (s1\<lparr>ta_drafts := (ta_drafts s)(pd_room p \<mapsto> t)\<rparr>)
                   | None \<Rightarrow>
                       if ta_drafts s (pd_room p) = None then s1
                       else put_draft p (s1\<lparr>ta_drafts := (ta_drafts s)(pd_room p := None)\<rparr>)))"

definition flush_pending_draft_now :: "tui_app \<Rightarrow> tui_app" where
  "flush_pending_draft_now s = (case ta_pending s of None \<Rightarrow> s | Some p \<Rightarrow> flush_due_draft_put (pd_due p) s)"

definition buffer_holds_draft :: "tui_app \<Rightarrow> bool" where
  "buffer_holds_draft s =
     (case ta_mode s of
        LoginUsername \<Rightarrow> False | LoginPassword \<Rightarrow> False | RecoveryKey \<Rightarrow> False | ConfirmLogout \<Rightarrow> False | ConfirmDelete \<Rightarrow> False
      | Editing _ \<Rightarrow> False | Reacting _ \<Rightarrow> False | Unreacting \<Rightarrow> False | Verification \<Rightarrow> False | DateJump \<Rightarrow> False
      | _ \<Rightarrow> True)"

definition set_buffer :: "rstr \<Rightarrow> tui_app \<Rightarrow> tui_app" where
  "set_buffer t s = s\<lparr>ta_buffer := t, ta_cursor := length (utf8 t)\<rparr>"

definition restore_draft_into_buffer :: "tui_app \<Rightarrow> tui_app" where
  "restore_draft_into_buffer s =
     (if \<not> buffer_holds_draft s \<or> ta_buffer s \<noteq> [] then s
      else case selected_room s of
        None \<Rightarrow> s
      | Some r \<Rightarrow> (case ta_drafts s r of None \<Rightarrow> s | Some t \<Rightarrow> set_buffer t s)\<lparr>ta_compose_room := Some r\<rparr>)"

definition sync_draft_on_room_change :: "tui_app \<Rightarrow> tui_app" where
  "sync_draft_on_room_change s =
     (if \<not> buffer_holds_draft s \<or> ta_compose_room s = selected_room s then s
      else (let s1 = flush_pending_draft_now (stop_typing_now s);
                t = (case selected_room s of None \<Rightarrow> [] | Some r \<Rightarrow> (case ta_drafts s1 r of None \<Rightarrow> [] | Some t \<Rightarrow> t))
            in (set_buffer t s1)\<lparr>ta_compose_room := selected_room s\<rparr>))"

text \<open>One entry of a frame, then the frame. Null deletes; a shape that is not a draft's is left alone.\<close>

definition incoming_draft :: "json_value \<Rightarrow> rstr option option" where
  "incoming_draft v = (if v = JNull then Some None else map_option Some (draft_text v))"

definition apply_draft_entry :: "uuid \<Rightarrow> rstr \<times> json_value \<Rightarrow> tui_app \<Rightarrow> tui_app" where
  "apply_draft_entry a e s =
     (let r = (a, fst e)
      in case incoming_draft (snd e) of
           None \<Rightarrow> s
         | Some inc \<Rightarrow>
             (let s1 = s\<lparr>ta_drafts := (ta_drafts s)(r := inc), ta_since_fetch := insert r (ta_since_fetch s)\<rparr>
              in if ta_compose_room s \<noteq> Some r \<or> \<not> buffer_holds_draft s then s1
                 else if ta_buffer s = [] \<or> ta_drafts s r = Some (ta_buffer s)
                 then set_buffer (case inc of None \<Rightarrow> [] | Some t \<Rightarrow> t) s1
                 else s1))"

definition handle_draft_frame :: "uuid \<Rightarrow> json_map \<Rightarrow> tui_app \<Rightarrow> tui_app" where
  "handle_draft_frame a entries s = fold (apply_draft_entry a) entries s"

text \<open>The merged view of one account replaces what is known of it, except for the rooms with a write of their own that
  the view may not have seen.\<close>

definition protected_rooms :: "uuid \<Rightarrow> tui_app \<Rightarrow> room_key set" where
  "protected_rooms a s =
     {r \<in> set_option (ta_compose_room s) \<union> set_option (map_option pd_room (ta_pending s)) \<union> ta_since_fetch s. fst r = a}"

definition insert_draft :: "uuid \<Rightarrow> room_key set \<Rightarrow> rstr \<times> json_value \<Rightarrow> (room_key \<Rightarrow> rstr option) \<Rightarrow> (room_key \<Rightarrow> rstr option)" where
  "insert_draft a prot e drafts =
     (if (a, fst e) \<in> prot then drafts
      else case draft_text (snd e) of None \<Rightarrow> drafts | Some t \<Rightarrow> drafts((a, fst e) \<mapsto> t))"

definition apply_draft_read :: "uuid \<times> json_map option \<Rightarrow> tui_app \<Rightarrow> tui_app" where
  "apply_draft_read rd s =
     (case snd rd of
        None \<Rightarrow> s
      | Some entries \<Rightarrow>
          (let a = fst rd;
               prot = protected_rooms a s;
               kept = (\<lambda>r. if fst r \<noteq> a \<or> snd r \<in> fst ` set entries \<or> r \<in> prot then ta_drafts s r else None)
           in s\<lparr>ta_drafts := fold (insert_draft a prot) entries kept\<rparr>))"

definition apply_draft_reads :: "(uuid \<times> json_map option) list \<Rightarrow> tui_app \<Rightarrow> tui_app" where
  "apply_draft_reads reads s = restore_draft_into_buffer (fold apply_draft_read reads s)"

section \<open>Read markers\<close>

definition READ_MARKERS_NAMESPACE :: rstr where "READ_MARKERS_NAMESPACE = lit ''read_markers''"

definition marker_value :: "read_marker \<Rightarrow> json_value" where
  "marker_value m = jobj [(''event_id'', JString (rk_event m)), (''origin_ts'', JNumber (rk_origin_ts m))]"

fun json_i64 :: "json_value \<Rightarrow> int option" where
  "json_i64 (JNumber n) = (if in_i64 n then Some n else None)"
| "json_i64 _ = None"

definition marker_from_value :: "json_value \<Rightarrow> read_marker option" where
  "marker_from_value v =
     Option.bind (Option.bind (jget v (lit ''event_id'')) as_string) (\<lambda>e.
     Option.bind (Option.bind (jget v (lit ''origin_ts'')) json_i64) (\<lambda>t. Some \<lparr>rk_event = e, rk_origin_ts = t\<rparr>))"

text \<open>The loop of \<^verbatim>\<open>read_targets_for\<close> over the displayed events of a page, each with its id, display time and arrival order.\<close>

fun read_targets_loop :: "(rstr \<times> int \<times> int) list \<Rightarrow> ((rstr \<times> int \<times> int) \<times> (rstr \<times> int \<times> int)) option \<Rightarrow>
    ((rstr \<times> int \<times> int) \<times> (rstr \<times> int \<times> int)) option" where
  "read_targets_loop [] found = found"
| "read_targets_loop (e # es) found =
     read_targets_loop es
       (Some (case found of None \<Rightarrow> (e, e) | Some (_, m) \<Rightarrow> (e, if snd (snd m) \<le> snd (snd e) then e else m)))"

definition read_targets :: "(rstr \<times> int \<times> int) list \<Rightarrow> (read_marker \<times> receipt_target) option" where
  "read_targets displayed =
     map_option (\<lambda>(l, m). (\<lparr>rk_event = fst l, rk_origin_ts = fst (snd l)\<rparr>, \<lparr>rt_event = fst m, rt_arrival_order = snd (snd m)\<rparr>))
       (read_targets_loop displayed None)"

definition apply_marker :: "room_key \<Rightarrow> read_marker \<Rightarrow> tui_app \<Rightarrow> tui_app \<times> bool" where
  "apply_marker r m s =
     (case ta_markers s r of
        Some c \<Rightarrow> if rk_origin_ts m \<le> rk_origin_ts c then (s, False) else (s\<lparr>ta_markers := (ta_markers s)(r \<mapsto> m)\<rparr>, True)
      | None \<Rightarrow> (s\<lparr>ta_markers := (ta_markers s)(r \<mapsto> m)\<rparr>, True))"

definition apply_receipt_target :: "room_key \<Rightarrow> receipt_target \<Rightarrow> tui_app \<Rightarrow> tui_app \<times> bool" where
  "apply_receipt_target r t s =
     (let failed = (r \<in> ta_failed_receipts s);
          stale = (case ta_receipts s r of None \<Rightarrow> False
                   | Some c \<Rightarrow> rt_arrival_order t < rt_arrival_order c \<or> rt_arrival_order c = rt_arrival_order t \<and> \<not> failed)
      in if stale then (s, False)
         else (s\<lparr>ta_failed_receipts := ta_failed_receipts s - {r}, ta_receipts := (ta_receipts s)(r \<mapsto> t)\<rparr>, True))"

definition current_read_put :: "room_key \<Rightarrow> read_marker \<Rightarrow> tui_app \<Rightarrow> read_marker \<times> receipt_target option" where
  "current_read_put r armed s = (case ta_markers s r of None \<Rightarrow> armed | Some m \<Rightarrow> m, ta_receipts s r)"

definition spawn_read_put :: "room_key \<Rightarrow> read_marker \<Rightarrow> receipt_target option \<Rightarrow> tui_app \<Rightarrow> tui_app" where
  "spawn_read_put r m receipt s =
     (let s1 = (case receipt of None \<Rightarrow> s | Some t \<Rightarrow> spawn_request (SendReceipt r t) s)
      in spawn_request (PutState (ta_device s) (fst r) READ_MARKERS_NAMESPACE [(snd r, Some (marker_value m))]) s1)"

definition spawn_current_read_put :: "room_key \<Rightarrow> read_marker \<Rightarrow> tui_app \<Rightarrow> tui_app" where
  "spawn_current_read_put r armed s = (let (m, receipt) = current_read_put r armed s in spawn_read_put r m receipt s)"

definition note_room_read :: "room_key \<Rightarrow> read_marker \<Rightarrow> receipt_target option \<Rightarrow> instant \<Rightarrow> tui_app \<Rightarrow> tui_app" where
  "note_room_read r m receipt now s =
     (let (s1, marker_advanced) = apply_marker r m s;
          (s2, receipt_advanced) = (case receipt of None \<Rightarrow> (s1, False) | Some t \<Rightarrow> apply_receipt_target r t s1)
      in if \<not> marker_advanced \<and> \<not> receipt_advanced then s2
         else (let s3 = (case ta_pending_marker s2 of
                           None \<Rightarrow> s2
                         | Some p \<Rightarrow> (let s' = s2\<lparr>ta_pending_marker := None\<rparr>
                                      in if pm_room p \<noteq> r then spawn_current_read_put (pm_room p) (pm_marker p) s' else s'))
               in s3\<lparr>ta_pending_marker :=
                       Some \<lparr>pm_room = r, pm_marker = (case ta_markers s3 r of None \<Rightarrow> m | Some c \<Rightarrow> c), pm_due = now + DRAFT_DEBOUNCE\<rparr>\<rparr>))"

definition forget_failed_receipt :: "room_key \<Rightarrow> receipt_target \<Rightarrow> tui_app \<Rightarrow> tui_app" where
  "forget_failed_receipt r t s =
     (if ta_receipts s r = Some t then s\<lparr>ta_failed_receipts := insert r (ta_failed_receipts s)\<rparr> else s)"

definition flush_due_marker_put :: "instant \<Rightarrow> tui_app \<Rightarrow> tui_app" where
  "flush_due_marker_put now s =
     (case ta_pending_marker s of
        None \<Rightarrow> s
      | Some p \<Rightarrow> if now < pm_due p then s else spawn_current_read_put (pm_room p) (pm_marker p) (s\<lparr>ta_pending_marker := None\<rparr>))"

definition apply_marker_entry :: "uuid \<Rightarrow> rstr \<times> json_value \<Rightarrow> tui_app \<Rightarrow> tui_app" where
  "apply_marker_entry a e s =
     (case marker_from_value (snd e) of None \<Rightarrow> s | Some m \<Rightarrow> fst (apply_marker (a, fst e) m s))"

definition apply_read_marker_reads :: "(uuid \<times> json_map option) list \<Rightarrow> tui_app \<Rightarrow> tui_app" where
  "apply_read_marker_reads reads s =
     fold (\<lambda>rd s. case snd rd of None \<Rightarrow> s | Some entries \<Rightarrow> fold (apply_marker_entry (fst rd)) entries s) reads s"

definition clear_room_unread :: "room_key \<Rightarrow> tui_app \<Rightarrow> tui_app" where
  "clear_room_unread r s = s\<lparr>ta_unread := (ta_unread s)(r := None), ta_unread_touched := insert r (ta_unread_touched s)\<rparr>"

definition marker_frame_entry :: "uuid \<Rightarrow> rstr \<times> json_value \<Rightarrow> tui_app \<Rightarrow> tui_app" where
  "marker_frame_entry a e s =
     (case marker_from_value (snd e) of
        None \<Rightarrow> s
      | Some m \<Rightarrow> (let (s', advanced) = apply_marker (a, fst e) m s in if advanced then clear_room_unread (a, fst e) s' else s'))"

definition handle_read_marker_frame :: "uuid \<Rightarrow> json_map \<Rightarrow> tui_app \<Rightarrow> tui_app" where
  "handle_read_marker_frame a entries s = fold (marker_frame_entry a) entries s"

section \<open>Frames and reads\<close>

definition handle_device_state_frame :: "uuid \<Rightarrow> uuid \<Rightarrow> rstr \<Rightarrow> json_map \<Rightarrow> tui_app \<Rightarrow> tui_app" where
  "handle_device_state_frame a device ns entries s =
     (if device = ta_device s then s
      else if ns = DRAFTS_NAMESPACE then handle_draft_frame a entries s
      else if ns = READ_MARKERS_NAMESPACE then handle_read_marker_frame a entries s
      else s)"

definition request_device_state :: "tui_app \<Rightarrow> tui_app" where
  "request_device_state s =
     (if ta_inflight s then s\<lparr>ta_again := True\<rparr>
      else spawn_request (ReadState (ta_device s) (ta_accounts s)) (s\<lparr>ta_inflight := True, ta_since_fetch := {}\<rparr>))"

text \<open>The device-state arm of \<^verbatim>\<open>handle_bootstrap_outcome\<close>, up to the start-up stages.\<close>

definition device_state_landed :: "(uuid \<times> json_map option) list \<Rightarrow> (uuid \<times> json_map option) list \<Rightarrow> tui_app \<Rightarrow> tui_app" where
  "device_state_landed markers drafts s =
     (let s1 = apply_draft_reads drafts (apply_read_marker_reads markers (s\<lparr>ta_inflight := False\<rparr>))
      in if ta_again s1 then request_device_state (s1\<lparr>ta_again := False\<rparr>) else s1)"

datatype draft_outcome = PutFailed rstr | ReceiptFailed room_key receipt_target

definition handle_draft_outcome :: "draft_outcome \<Rightarrow> tui_app \<Rightarrow> tui_app" where
  "handle_draft_outcome oc s = (case oc of PutFailed _ \<Rightarrow> s | ReceiptFailed r t \<Rightarrow> forget_failed_receipt r t s)"

text \<open>The flushes of the main loop's tick. The tick ends with \<^verbatim>\<open>poll_pending_join_open\<close>, which may open a room; that is the event
  \<open>EOpen\<close> below, right after the flushes.\<close>

definition tui_tick :: "instant \<Rightarrow> tui_app \<Rightarrow> tui_app" where
  "tui_tick now s = flush_due_typing now (flush_due_marker_put now (flush_due_draft_put now s))"

section \<open>The compose buffer on loan\<close>

definition clear_input_buffer :: "tui_app \<Rightarrow> tui_app" where
  "clear_input_buffer s = s\<lparr>ta_buffer := [], ta_cursor := 0\<rparr>"

text \<open>\<^verbatim>\<open>start_edit_selected_message\<close> on a message with this id and body, \<^verbatim>\<open>start_react_to_selected_message\<close>, \<^verbatim>\<open>start_date_jump\<close>.\<close>

definition local_echo :: "rstr \<Rightarrow> bool" where
  "local_echo event_id = (strip_prefix (lit ''local-echo:'') event_id \<noteq> None)"

definition start_edit_selected_message :: "(rstr \<times> rstr) option \<Rightarrow> tui_app \<Rightarrow> tui_app" where
  "start_edit_selected_message selected s =
     (case selected of
        None \<Rightarrow> s
      | Some (event_id, body) \<Rightarrow>
          if local_echo event_id then s
          else (set_buffer body (flush_pending_draft_now s))\<lparr>ta_mode := Editing event_id\<rparr>)"

definition start_react_to_selected_message :: "rstr option \<Rightarrow> tui_app \<Rightarrow> tui_app" where
  "start_react_to_selected_message selected s =
     (case selected of
        None \<Rightarrow> s
      | Some event_id \<Rightarrow>
          if local_echo event_id then s
          else (clear_input_buffer (flush_pending_draft_now s))\<lparr>ta_mode := Reacting event_id\<rparr>)"

definition start_date_jump :: "tui_app \<Rightarrow> tui_app" where
  "start_date_jump s = (clear_input_buffer (flush_pending_draft_now s))\<lparr>ta_mode := DateJump\<rparr>"

text \<open>The ways back. Submitting an edit or a reaction takes the text and restores the draft; the clear key of both
  modes goes through \<^verbatim>\<open>clear_input_and_selection\<close>; another key may abandon the mode; a date is entered or cancelled.\<close>

definition submit_borrowed :: "tui_app \<Rightarrow> tui_app" where
  "submit_borrowed s = restore_draft_into_buffer (s\<lparr>ta_buffer := [], ta_cursor := 0, ta_mode := Compose\<rparr>)"

definition clear_input_and_selection :: "tui_app \<Rightarrow> tui_app" where
  "clear_input_and_selection s = (clear_input_buffer s)\<lparr>ta_mode := Compose\<rparr>"

definition abandon_transient_input_mode :: "tui_app \<Rightarrow> tui_app" where
  "abandon_transient_input_mode s =
     (let transient = (case ta_mode s of
           LoginUsername \<Rightarrow> True | LoginPassword \<Rightarrow> True | RecoveryKey \<Rightarrow> True | ConfirmLogout \<Rightarrow> True | ConfirmDelete \<Rightarrow> True
         | ConfirmRoomAction \<Rightarrow> True | Editing _ \<Rightarrow> True | Reacting _ \<Rightarrow> True | Unreacting \<Rightarrow> True | DateJump \<Rightarrow> True
         | SearchForm \<Rightarrow> True | SearchResults \<Rightarrow> True | _ \<Rightarrow> False)
      in if transient then restore_draft_into_buffer ((clear_input_buffer s)\<lparr>ta_mode := Compose\<rparr>) else s)"

definition leave_date_jump :: "tui_app \<Rightarrow> tui_app" where
  "leave_date_jump s = restore_draft_into_buffer ((clear_input_buffer s)\<lparr>ta_mode := MessageList\<rparr>)"

text \<open>A room chosen with a key: \<^verbatim>\<open>select_room_index\<close> with \<^verbatim>\<open>prepare_room_selection\<close> and the end of
  \<^verbatim>\<open>load_selected_timeline\<close>, after the transient mode was abandoned. The sidebar's path that waits for the first device-state read
  during start-up is left out.\<close>

definition switch_room :: "nat \<Rightarrow> tui_app \<Rightarrow> tui_app" where
  "switch_room i s =
     (let s1 = (abandon_transient_input_mode s)\<lparr>ta_selected := Some i\<rparr>
      in if selected_room s1 = None then s1 else sync_draft_on_room_change s1)"

text \<open>\<^verbatim>\<open>cycle_focus\<close> and \<^verbatim>\<open>cycle_focus_prev\<close>, with the panels that are shown.\<close>

definition abandons_on_focus :: "tui_mode \<Rightarrow> bool" where
  "abandons_on_focus m =
     (case m of
        LoginUsername \<Rightarrow> True | LoginPassword \<Rightarrow> True | RecoveryKey \<Rightarrow> True | ConfirmLogout \<Rightarrow> True | ConfirmDelete \<Rightarrow> True
      | ConfirmRoomAction \<Rightarrow> True | Editing _ \<Rightarrow> True | Reacting _ \<Rightarrow> True | Unreacting \<Rightarrow> True | SearchForm \<Rightarrow> True | SearchResults \<Rightarrow> True
      | _ \<Rightarrow> False)"

text \<open>The panel a mode belongs to: 0 for the compose line, then accounts, rooms, messages; popups go with the messages.\<close>

definition focus_panel :: "tui_mode \<Rightarrow> nat option" where
  "focus_panel m =
     (case m of
        Compose \<Rightarrow> Some 0
      | AccountList \<Rightarrow> Some 1 | SearchMode SearchAccounts \<Rightarrow> Some 1
      | RoomList \<Rightarrow> Some 2 | SearchMode SearchRooms \<Rightarrow> Some 2
      | MessageList \<Rightarrow> Some 3 | SearchMode SearchMessages \<Rightarrow> Some 3 | PopupMode \<Rightarrow> Some 3
      | _ \<Rightarrow> None)"

definition focus_next :: "bool \<Rightarrow> bool \<Rightarrow> tui_mode \<Rightarrow> tui_mode" where
  "focus_next accounts rooms m =
     (if accounts \<and> rooms then
        (if focus_panel m = Some 0 then AccountList else if focus_panel m = Some 1 then RoomList
         else if focus_panel m = Some 2 then MessageList else Compose)
      else if accounts then
        (if focus_panel m = Some 0 then AccountList else if focus_panel m = Some 1 then MessageList else Compose)
      else if rooms then
        (if focus_panel m = Some 0 then RoomList else if focus_panel m = Some 2 then MessageList else Compose)
      else if m = Compose \<or> m = PopupMode then MessageList else Compose)"

definition focus_prev :: "bool \<Rightarrow> bool \<Rightarrow> tui_mode \<Rightarrow> tui_mode" where
  "focus_prev accounts rooms m =
     (if accounts \<and> rooms then
        (if focus_panel m = Some 0 then MessageList else if focus_panel m = Some 2 then AccountList
         else if focus_panel m = Some 3 then RoomList else Compose)
      else if accounts then
        (if focus_panel m = Some 0 then MessageList else if focus_panel m = Some 3 then AccountList else Compose)
      else if rooms then
        (if focus_panel m = Some 0 then MessageList else if focus_panel m = Some 3 then RoomList else Compose)
      else if m = Compose \<or> m = PopupMode then MessageList else Compose)"

definition cycle_focus :: "(tui_mode \<Rightarrow> tui_mode) \<Rightarrow> tui_app \<Rightarrow> tui_app" where
  "cycle_focus step s = (if abandons_on_focus (ta_mode s) then abandon_transient_input_mode s else s\<lparr>ta_mode := step (ta_mode s)\<rparr>)"

text \<open>What a refreshed room list does to the selection (\<^verbatim>\<open>apply_room_refresh\<close>): \<open>eligible\<close> and \<open>visible\<close> are the indices the
  filters leave of the new list, \<open>launching\<close> a pending space launch. The room stays selected by its key, and else the
  index does; rooms that are gone lose their mark of a live write.\<close>

definition room_position :: "room_key \<Rightarrow> room_key list \<Rightarrow> nat option" where
  "room_position r rooms = (if r \<in> set rooms then Some (length (takeWhile (\<lambda>x. x \<noteq> r) rooms)) else None)"

definition refresh_selection :: "room_key list \<Rightarrow> nat list \<Rightarrow> nat list \<Rightarrow> bool \<Rightarrow> tui_app \<Rightarrow> tui_app" where
  "refresh_selection rooms eligible visible launching s =
     (let by_key = Option.bind (selected_room s) (\<lambda>r. room_position r rooms);
          kept = (case by_key of Some i \<Rightarrow> Some i
                  | None \<Rightarrow> Option.bind (ta_selected s) (\<lambda>i. if i < length rooms then Some i else None));
          chosen = (if rooms = [] then None
                    else if (case kept of None \<Rightarrow> True | Some i \<Rightarrow> i \<notin> set eligible)
                    then (case visible of [] \<Rightarrow> None | i # _ \<Rightarrow> Some i)
                    else kept)
      in s\<lparr>ta_rooms := rooms,
           ta_since_fetch := {r \<in> ta_since_fetch s. r \<notin> set (ta_rooms s) \<or> r \<in> set rooms},
           ta_selected := (if launching then None else chosen)\<rparr>)"

text \<open>A joined room opens of its own accord, unless a prompt owns the entry line: then it opens on a later tick, when
  \<^verbatim>\<open>poll_pending_join_open\<close> finds no prompt and no command in flight.\<close>

definition prompt_owns_entry_line :: "tui_mode \<Rightarrow> bool" where
  "prompt_owns_entry_line m =
     (case m of
        LoginUsername \<Rightarrow> True | LoginPassword \<Rightarrow> True | RecoveryKey \<Rightarrow> True | ConfirmLogout \<Rightarrow> True | ConfirmDelete \<Rightarrow> True
      | ConfirmRoomAction \<Rightarrow> True | Editing _ \<Rightarrow> True | Reacting _ \<Rightarrow> True | Unreacting \<Rightarrow> True | SearchMode _ \<Rightarrow> True | DateJump \<Rightarrow> True
      | SearchForm \<Rightarrow> True | SearchResults \<Rightarrow> True | Verification \<Rightarrow> True | _ \<Rightarrow> False)"

definition open_or_defer_joined_room :: "nat \<Rightarrow> tui_app \<Rightarrow> tui_app" where
  "open_or_defer_joined_room i s = (if prompt_owns_entry_line (ta_mode s) then s else switch_room i s)"

text \<open>A join that failed puts its command line back, where the composer is empty.\<close>

definition restore_join_line_if_composer_is_empty :: "rstr \<Rightarrow> tui_app \<Rightarrow> tui_app" where
  "restore_join_line_if_composer_is_empty argument s =
     (if ta_mode s = Compose \<and> ta_buffer s = [] then set_buffer (lit ''/join '' @ argument) s else s)"

text \<open>The four \<^verbatim>\<open>restore_..._input\<close> of the account commands put their command line back, wherever the user is by then. The \<open>name\<close> is
  recover, backup enable, logout or delete.\<close>

definition restore_command_input :: "rstr \<Rightarrow> rstr option \<Rightarrow> tui_app \<Rightarrow> tui_app" where
  "restore_command_input name target s =
     (set_buffer (case target of
                    None \<Rightarrow> [47] @ name
                  | Some t \<Rightarrow> if t = [] then [47] @ name else [47] @ name @ [32] @ t)
        (s\<lparr>ta_mode := Compose\<rparr>))"

section \<open>Events\<close>

text \<open>What a key or a paste may do to this state. \<^verbatim>\<open>KText\<close> stands for everything that leaves another text in the buffer: typing,
  deleting, completion, sending a message.\<close>

datatype tui_key =
    KText rstr nat
  | KFocusNext bool bool
  | KFocusPrev bool bool
  | KMessages
  | KSwitch nat
  | KEdit "(rstr \<times> rstr) option"
  | KReact "rstr option"
  | KDateJump
  | KSubmit
  | KClear
  | KLeaveDate

fun key_effect :: "tui_key \<Rightarrow> tui_app \<Rightarrow> tui_app" where
  "key_effect (KText t c) s = s\<lparr>ta_buffer := t, ta_cursor := c\<rparr>"
| "key_effect (KFocusNext accounts rooms) s = cycle_focus (focus_next accounts rooms) s"
| "key_effect (KFocusPrev accounts rooms) s = cycle_focus (focus_prev accounts rooms) s"
| "key_effect KMessages s = (abandon_transient_input_mode s)\<lparr>ta_mode := MessageList\<rparr>"
| "key_effect (KSwitch i) s = switch_room i s"
| "key_effect (KEdit selected) s = start_edit_selected_message selected s"
| "key_effect (KReact selected) s = start_react_to_selected_message selected s"
| "key_effect KDateJump s = start_date_jump s"
| "key_effect KSubmit s = submit_borrowed s"
| "key_effect KClear s = clear_input_and_selection s"
| "key_effect KLeaveDate s = leave_date_jump s"

text \<open>The modes in which a key has that effect.\<close>

fun key_possible :: "tui_key \<Rightarrow> tui_app \<Rightarrow> bool" where
  "key_possible (KText t c) s = (case ta_mode s of Compose \<Rightarrow> True | Editing _ \<Rightarrow> True | Reacting _ \<Rightarrow> True | DateJump \<Rightarrow> True | _ \<Rightarrow> False)"
| "key_possible KMessages s = (ta_mode s \<noteq> DateJump)"
| "key_possible (KSwitch i) s = (i < length (ta_rooms s))"
| "key_possible (KEdit selected) s = buffer_holds_draft s"
| "key_possible (KReact selected) s = buffer_holds_draft s"
| "key_possible KDateJump s = buffer_holds_draft s"
| "key_possible KSubmit s = (case ta_mode s of Editing _ \<Rightarrow> True | Reacting _ \<Rightarrow> True | _ \<Rightarrow> False)"
| "key_possible KClear s = (case ta_mode s of Editing _ \<Rightarrow> True | Reacting _ \<Rightarrow> True | _ \<Rightarrow> False)"
| "key_possible KLeaveDate s = (ta_mode s = DateJump)"
| "key_possible _ s = True"

datatype tui_event =
    EKey tui_key instant
  | ETick instant
  | EFrame uuid uuid rstr json_map
  | ERequest
  | ELanded "(uuid \<times> json_map option) list" "(uuid \<times> json_map option) list"
  | EOutcome draft_outcome
  | ERead room_key read_marker "receipt_target option" instant
  | ERefresh "room_key list" "nat list" "nat list" bool
  | ESync
  | EOpen nat
  | EJoinFailed rstr
  | EUnresolved rstr "rstr option"

text \<open>A refreshed room list arrives at start-up, after a change of an account, a tag or a membership, and on its own
  (\<open>ERefresh\<close>). Some of these, and only some, then load the timeline of the selected room, which ends in \<^verbatim>\<open>sync_draft_on_room_change\<close>
  (\<open>ESync\<close>): \<^verbatim>\<open>handle_room_action_outcome\<close> when the selected room was left, \<^verbatim>\<open>refresh_after_lifecycle_change\<close> and
  \<^verbatim>\<open>handle_bootstrap_outcome\<close> when a room became selected. \<open>EJoinFailed\<close> is a join that failed, \<open>EUnresolved\<close> an account command whose
  target the server's list of accounts did not settle. The prompts of logins, recovery and confirmations, searches and verification
  have keys and outcomes of their own, which are not events here; unread badges are followed only as far as read markers
  clear them.\<close>

text \<open>The main loop: after a key or a paste it looks whether the draft changed.\<close>

fun tui_handle :: "tui_event \<Rightarrow> tui_app \<Rightarrow> tui_app" where
  "tui_handle (EKey k now) s = note_draft_activity now (key_effect k s)"
| "tui_handle (ETick now) s = tui_tick now s"
| "tui_handle (EFrame a device ns entries) s = handle_device_state_frame a device ns entries s"
| "tui_handle ERequest s = request_device_state s"
| "tui_handle (ELanded markers drafts) s = device_state_landed markers drafts s"
| "tui_handle (EOutcome oc) s = handle_draft_outcome oc s"
| "tui_handle (ERead r m receipt now) s = note_room_read r m receipt now s"
| "tui_handle (ERefresh rooms eligible visible launching) s = refresh_selection rooms eligible visible launching s"
| "tui_handle ESync s = sync_draft_on_room_change s"
| "tui_handle (EOpen i) s = open_or_defer_joined_room i s"
| "tui_handle (EJoinFailed argument) s = restore_join_line_if_composer_is_empty argument s"
| "tui_handle (EUnresolved name target) s = restore_command_input name target s"

end
