(* ===== verification/Tui_Drafts.thy ===== *)
theory Tui_Drafts
  imports Tui_State
begin

text \<open>
  What the terminal client does to drafts. \<open>draft_wf\<close> is the invariant of its event loop (the buffer belongs to the selected
  room, and a pending write to the buffer's room), \<open>keeps r b\<close> says that the draft \<open>b\<close> of the room \<open>r\<close> is on record.
\<close>

section \<open>Typing and read markers leave drafts alone\<close>

definition draft_view :: "tui_app \<Rightarrow> tui_mode \<times> room_key list \<times> nat option \<times> rstr \<times> room_key option \<times> (room_key \<Rightarrow> rstr option) \<times>
    pending_draft_put option \<times> uuid \<times> bool" where
  "draft_view s = (ta_mode s, ta_rooms s, ta_selected s, ta_buffer s, ta_compose_room s, ta_drafts s, ta_pending s, ta_device s, ta_wired s)"

lemma draft_viewD:
  assumes "draft_view s = draft_view s'"
  shows "ta_mode s = ta_mode s'" "ta_rooms s = ta_rooms s'" "ta_selected s = ta_selected s'" "ta_buffer s = ta_buffer s'"
    "ta_compose_room s = ta_compose_room s'" "ta_drafts s = ta_drafts s'" "ta_pending s = ta_pending s'" "ta_device s = ta_device s'"
    "ta_wired s = ta_wired s'" "selected_room s = selected_room s'" "buffer_holds_draft s = buffer_holds_draft s'"
  using assms by (auto simp: draft_view_def selected_room_def buffer_holds_draft_def split: option.split)

lemma view_spawn: "draft_view (spawn_request q s) = draft_view s"
  by (simp add: spawn_request_def draft_view_def)

lemma view_stop_typing: "draft_view (stop_typing_now s) = draft_view s"
  by (auto simp: stop_typing_now_def spawn_request_def draft_view_def split: option.split)

lemma view_stop_typing_for: "draft_view (stop_typing_for_room r s) = draft_view s"
  by (simp add: stop_typing_for_room_def view_stop_typing split: option.split)

lemma view_typing_update: "draft_view (s\<lparr>ta_typing := x\<rparr>) = draft_view s"
  by (simp add: draft_view_def)

lemma view_note_typing: "draft_view (note_typing r now s) = draft_view s"
  by (simp add: note_typing_def Let_def view_typing_update view_spawn view_stop_typing split: option.split)

lemma view_flush_typing: "draft_view (flush_due_typing now s) = draft_view s"
  by (simp add: flush_due_typing_def view_stop_typing split: option.split)

lemma view_marker_update:
  "draft_view (s\<lparr>ta_markers := m\<rparr>) = draft_view s" "draft_view (s\<lparr>ta_pending_marker := pm\<rparr>) = draft_view s"
  "draft_view (s\<lparr>ta_failed_receipts := fr\<rparr>) = draft_view s" "draft_view (s\<lparr>ta_receipts := rc\<rparr>) = draft_view s"
  "draft_view (s\<lparr>ta_unread := u\<rparr>) = draft_view s" "draft_view (s\<lparr>ta_unread_touched := ut\<rparr>) = draft_view s"
  "draft_view (s\<lparr>ta_inflight := b\<rparr>) = draft_view s" "draft_view (s\<lparr>ta_again := c\<rparr>) = draft_view s"
  "draft_view (s\<lparr>ta_since_fetch := sf\<rparr>) = draft_view s"
  by (simp_all add: draft_view_def)

lemma view_apply_marker: "draft_view (fst (apply_marker r m s)) = draft_view s"
  by (simp add: apply_marker_def view_marker_update split: option.split)

lemma view_apply_receipt: "draft_view (fst (apply_receipt_target r t s)) = draft_view s"
  by (simp add: apply_receipt_target_def Let_def view_marker_update)

lemma view_spawn_read_put: "draft_view (spawn_current_read_put r m s) = draft_view s"
  by (simp add: spawn_current_read_put_def spawn_read_put_def current_read_put_def view_spawn Let_def split: option.split prod.split)

lemma view_note_room_read: "draft_view (note_room_read r m receipt now s) = draft_view s"
proof -
  let ?s1 = "fst (apply_marker r m s)"
  let ?s2 = "fst (case receipt of None \<Rightarrow> (?s1, False) | Some t \<Rightarrow> apply_receipt_target r t ?s1)"
  have "draft_view ?s2 = draft_view s"
    by (simp add: view_apply_marker view_apply_receipt split: option.split)
  then show ?thesis
    by (auto simp: note_room_read_def Let_def split_beta view_marker_update view_spawn_read_put split: option.split)
qed

lemma view_flush_marker: "draft_view (flush_due_marker_put now s) = draft_view s"
  by (simp add: flush_due_marker_put_def view_spawn_read_put view_marker_update split: option.split)

lemma view_marker_entry: "draft_view (apply_marker_entry a e s) = draft_view s"
  by (simp add: apply_marker_entry_def view_apply_marker split: option.split)

lemma view_frame_entry: "draft_view (marker_frame_entry a e s) = draft_view s"
  by (simp add: marker_frame_entry_def Let_def split_beta clear_room_unread_def view_marker_update view_apply_marker split: option.split)

lemma fold_view: "(\<And>x s. draft_view (f x s) = draft_view s) \<Longrightarrow> draft_view (fold f xs s) = draft_view s"
  by (induction xs arbitrary: s) simp_all

lemma view_marker_frame: "draft_view (handle_read_marker_frame a entries s) = draft_view s"
  unfolding handle_read_marker_frame_def by (rule fold_view) (rule view_frame_entry)

lemma view_marker_reads: "draft_view (apply_read_marker_reads reads s) = draft_view s"
  unfolding apply_read_marker_reads_def
  by (rule fold_view) (auto simp: view_marker_entry intro!: fold_view split: option.split)

lemma view_request: "draft_view (request_device_state s) = draft_view s"
  by (simp add: request_device_state_def view_spawn view_marker_update)

lemma view_outcome: "draft_view (handle_draft_outcome oc s) = draft_view s"
  by (simp add: handle_draft_outcome_def forget_failed_receipt_def view_marker_update split: draft_outcome.split)

lemmas view_simps [simp] =
  view_spawn [THEN draft_viewD(1)] view_spawn [THEN draft_viewD(4)] view_spawn [THEN draft_viewD(5)] view_spawn [THEN draft_viewD(6)]
  view_spawn [THEN draft_viewD(7)] view_spawn [THEN draft_viewD(8)] view_spawn [THEN draft_viewD(9)] view_spawn [THEN draft_viewD(10)]
  view_spawn [THEN draft_viewD(11)]
  view_stop_typing [THEN draft_viewD(1)] view_stop_typing [THEN draft_viewD(4)] view_stop_typing [THEN draft_viewD(5)]
  view_stop_typing [THEN draft_viewD(6)] view_stop_typing [THEN draft_viewD(7)] view_stop_typing [THEN draft_viewD(8)]
  view_stop_typing [THEN draft_viewD(9)] view_stop_typing [THEN draft_viewD(10)] view_stop_typing [THEN draft_viewD(11)]
  view_stop_typing_for [THEN draft_viewD(1)] view_stop_typing_for [THEN draft_viewD(4)] view_stop_typing_for [THEN draft_viewD(5)]
  view_stop_typing_for [THEN draft_viewD(6)] view_stop_typing_for [THEN draft_viewD(7)] view_stop_typing_for [THEN draft_viewD(10)]
  view_stop_typing_for [THEN draft_viewD(11)]
  view_note_typing [THEN draft_viewD(1)] view_note_typing [THEN draft_viewD(4)] view_note_typing [THEN draft_viewD(5)]
  view_note_typing [THEN draft_viewD(6)] view_note_typing [THEN draft_viewD(7)] view_note_typing [THEN draft_viewD(10)]
  view_note_typing [THEN draft_viewD(11)]

section \<open>The draft on record\<close>

text \<open>A write that waits for its debounce counts as the draft of its room.\<close>

definition draft_on_record :: "tui_app \<Rightarrow> room_key \<Rightarrow> rstr option" where
  "draft_on_record s r =
     (case ta_pending s of None \<Rightarrow> ta_drafts s r | Some p \<Rightarrow> if pd_room p = r then pd_value p else ta_drafts s r)"

definition mode_plain :: "tui_mode \<Rightarrow> bool" where
  "mode_plain m =
     (case m of Compose \<Rightarrow> True | RoomList \<Rightarrow> True | AccountList \<Rightarrow> True | MessageList \<Rightarrow> True | PopupMode \<Rightarrow> True | SearchMode _ \<Rightarrow> True | _ \<Rightarrow> False)"

definition mode_loan :: "tui_mode \<Rightarrow> bool" where
  "mode_loan m = (case m of Editing _ \<Rightarrow> True | Reacting _ \<Rightarrow> True | DateJump \<Rightarrow> True | _ \<Rightarrow> False)"

definition draft_wf :: "tui_app \<Rightarrow> bool" where
  "draft_wf s =
     (selected_room s \<noteq> None \<and> ta_compose_room s = selected_room s \<and>
      (\<forall>p. ta_pending s = Some p \<longrightarrow> Some (pd_room p) = ta_compose_room s) \<and>
      (mode_plain (ta_mode s) \<or> mode_loan (ta_mode s) \<and> ta_pending s = None))"

lemma holds_plain: "mode_plain (ta_mode s) \<Longrightarrow> buffer_holds_draft s"
  by (auto simp: mode_plain_def buffer_holds_draft_def split: tui_mode.splits)

lemma loan_not_holds: "mode_loan (ta_mode s) \<Longrightarrow> \<not> buffer_holds_draft s"
  by (auto simp: mode_loan_def buffer_holds_draft_def split: tui_mode.splits)

lemma holds_mode: "ta_mode s = ta_mode s' \<Longrightarrow> buffer_holds_draft s = buffer_holds_draft s'"
  by (simp add: buffer_holds_draft_def)

lemma selected_cong: "ta_selected s = ta_selected s' \<Longrightarrow> ta_rooms s = ta_rooms s' \<Longrightarrow> selected_room s = selected_room s'"
  by (simp add: selected_room_def split: option.split)

lemma wf_view:
  assumes "draft_view s = draft_view s'"
  shows "draft_wf s = draft_wf s'"
  unfolding draft_wf_def draft_viewD [OF assms] ..

lemma record_view:
  assumes "draft_view s = draft_view s'"
  shows "draft_on_record s = draft_on_record s'"
  unfolding draft_on_record_def fun_eq_iff draft_viewD [OF assms] by simp

lemma record_update [simp]:
  "draft_on_record (s\<lparr>ta_buffer := t\<rparr>) r = draft_on_record s r" "draft_on_record (s\<lparr>ta_cursor := c\<rparr>) r = draft_on_record s r"
  "draft_on_record (s\<lparr>ta_mode := m\<rparr>) r = draft_on_record s r" "draft_on_record (s\<lparr>ta_selected := i\<rparr>) r = draft_on_record s r"
  "draft_on_record (s\<lparr>ta_compose_room := x\<rparr>) r = draft_on_record s r"
  "draft_on_record (s\<lparr>ta_buffer := t, ta_cursor := c\<rparr>) r = draft_on_record s r"
  "draft_on_record (s\<lparr>ta_buffer := t, ta_cursor := c, ta_mode := m\<rparr>) r = draft_on_record s r"
  by (simp_all add: draft_on_record_def split: option.split)

section \<open>The flush\<close>

text \<open>The part of the state that a flush of the pending write leaves alone.\<close>

definition compose_view :: "tui_app \<Rightarrow> tui_mode \<times> room_key list \<times> nat option \<times> rstr \<times> room_key option \<times> uuid \<times> bool" where
  "compose_view s = (ta_mode s, ta_rooms s, ta_selected s, ta_buffer s, ta_compose_room s, ta_device s, ta_wired s)"

lemma compose_viewD:
  assumes "compose_view s = compose_view s'"
  shows "ta_mode s = ta_mode s'" "ta_rooms s = ta_rooms s'" "ta_selected s = ta_selected s'" "ta_buffer s = ta_buffer s'"
    "ta_compose_room s = ta_compose_room s'" "selected_room s = selected_room s'" "buffer_holds_draft s = buffer_holds_draft s'"
  using assms by (auto simp: compose_view_def selected_room_def buffer_holds_draft_def split: option.split)

lemma compose_spawn: "compose_view (spawn_request q s) = compose_view s"
  by (simp add: spawn_request_def compose_view_def)

lemma compose_flush: "compose_view (flush_due_draft_put now s) = compose_view s"
  by (auto simp: flush_due_draft_put_def put_draft_def Let_def compose_spawn compose_view_def spawn_request_def split: option.split)

lemma compose_flush_now: "compose_view (flush_pending_draft_now s) = compose_view s"
  by (simp add: flush_pending_draft_now_def compose_flush split: option.split)

lemma pending_flush: "ta_pending (flush_due_draft_put now s) = None \<or> ta_pending (flush_due_draft_put now s) = ta_pending s"
  by (auto simp: flush_due_draft_put_def put_draft_def Let_def split: option.split)

lemma pending_flush_now [simp]: "ta_pending (flush_pending_draft_now s) = None"
  by (auto simp: flush_pending_draft_now_def flush_due_draft_put_def put_draft_def Let_def split: option.split)

lemma record_flush: "draft_on_record (flush_due_draft_put now s) r = draft_on_record s r"
  by (auto simp: draft_on_record_def flush_due_draft_put_def put_draft_def Let_def split: option.split)

lemma record_flush_now: "draft_on_record (flush_pending_draft_now s) r = draft_on_record s r"
  by (simp add: flush_pending_draft_now_def record_flush split: option.split)

lemma drafts_flush_now: "ta_drafts (flush_pending_draft_now s) r = draft_on_record s r"
  using record_flush_now [of s r] by (simp add: draft_on_record_def)

lemma record_no_pending: "ta_pending s = None \<Longrightarrow> draft_on_record s r = ta_drafts s r"
  by (simp add: draft_on_record_def)

section \<open>The operations of a key\<close>

text \<open>What \<^verbatim>\<open>note_draft_activity\<close> leaves: the buffer's text is on record unless it is a command.\<close>

definition buffer_draft :: "tui_app \<Rightarrow> rstr option" where
  "buffer_draft s = (if ta_buffer s = [] then None else Some (ta_buffer s))"

lemma note_fields:
  "ta_mode (note_draft_activity now s) = ta_mode s" "ta_buffer (note_draft_activity now s) = ta_buffer s"
  "ta_drafts (note_draft_activity now s) = ta_drafts s" "ta_rooms (note_draft_activity now s) = ta_rooms s"
  "ta_selected (note_draft_activity now s) = ta_selected s"
  by (simp_all add: note_draft_activity_def cancel_pending_draft_put_def Let_def draft_viewD(2,3) [OF view_stop_typing_for]
      draft_viewD(2,3) [OF view_note_typing] split: option.split)

lemma note_selected: "selected_room (note_draft_activity now s) = selected_room s"
  by (rule selected_cong) (simp_all add: note_fields)

lemma note_compose:
  "ta_compose_room (note_draft_activity now s) = (if ta_mode s = Compose \<and> selected_room s \<noteq> None then selected_room s else ta_compose_room s)"
  by (auto simp: note_draft_activity_def cancel_pending_draft_put_def Let_def split: option.split)

lemma note_pending:
  "ta_pending (note_draft_activity now s) =
     (if ta_mode s \<noteq> Compose then ta_pending s
      else case selected_room s of
        None \<Rightarrow> ta_pending s
      | Some r \<Rightarrow>
          if is_command (ta_buffer s) \<or> ta_drafts s r = buffer_draft s
          then (case ta_pending s of None \<Rightarrow> None | Some p \<Rightarrow> if pd_room p = r then None else Some p)
          else Some \<lparr>pd_room = r, pd_value = buffer_draft s, pd_due = now + DRAFT_DEBOUNCE\<rparr>)"
  by (auto simp: note_draft_activity_def cancel_pending_draft_put_def buffer_draft_def Let_def split: option.split)

lemma wf_note:
  assumes "draft_wf s"
  shows "draft_wf (note_draft_activity now s)"
proof (cases "ta_mode s = Compose")
  case True
  obtain r where r: "selected_room s = Some r" "ta_compose_room s = Some r" "\<forall>p. ta_pending s = Some p \<longrightarrow> pd_room p = r"
    using assms by (auto simp: draft_wf_def)
  have "ta_pending (note_draft_activity now s) = Some p \<Longrightarrow> pd_room p = r" for p
    using True r by (auto simp: note_pending split: option.splits if_splits)
  then show ?thesis
    using True r by (auto simp: draft_wf_def note_fields note_compose note_selected mode_plain_def)
next
  case False
  then show ?thesis
    using assms by (simp add: note_draft_activity_def)
qed

lemma record_note:
  assumes "draft_wf s"
  shows "draft_on_record (note_draft_activity now s) r =
    (if ta_mode s = Compose \<and> selected_room s = Some r
     then if is_command (ta_buffer s) then ta_drafts s r else buffer_draft s
     else draft_on_record s r)"
proof -
  obtain r0 where r0: "selected_room s = Some r0" "\<forall>p. ta_pending s = Some p \<longrightarrow> pd_room p = r0"
    using assms by (auto simp: draft_wf_def)
  then show ?thesis
    by (cases "ta_pending s") (auto simp: draft_on_record_def note_fields note_pending)
qed

text \<open>Restoring and switching keep the record, and show the draft on record when nothing is pending.\<close>

lemma restore_fields:
  "ta_mode (restore_draft_into_buffer s) = ta_mode s" "ta_drafts (restore_draft_into_buffer s) = ta_drafts s"
  "ta_pending (restore_draft_into_buffer s) = ta_pending s" "ta_rooms (restore_draft_into_buffer s) = ta_rooms s"
  "ta_selected (restore_draft_into_buffer s) = ta_selected s"
  by (simp_all add: restore_draft_into_buffer_def set_buffer_def split: option.split)

lemma restore_selected: "selected_room (restore_draft_into_buffer s) = selected_room s"
  by (rule selected_cong) (simp_all add: restore_fields)

lemma restore_holds: "buffer_holds_draft (restore_draft_into_buffer s) = buffer_holds_draft s"
  by (rule holds_mode) (simp add: restore_fields)

lemma restore_compose:
  "ta_compose_room (restore_draft_into_buffer s) =
     (if buffer_holds_draft s \<and> ta_buffer s = [] \<and> selected_room s \<noteq> None then selected_room s else ta_compose_room s)"
  by (auto simp: restore_draft_into_buffer_def set_buffer_def split: option.split)

lemma restore_buffer:
  "ta_buffer (restore_draft_into_buffer s) =
     (if buffer_holds_draft s \<and> ta_buffer s = []
      then case selected_room s of None \<Rightarrow> [] | Some r \<Rightarrow> (case ta_drafts s r of None \<Rightarrow> [] | Some t \<Rightarrow> t)
      else ta_buffer s)"
  by (auto simp: restore_draft_into_buffer_def set_buffer_def split: option.split)

lemma record_restore: "draft_on_record (restore_draft_into_buffer s) = draft_on_record s"
  by (rule ext) (simp add: draft_on_record_def restore_fields split: option.split)

lemma wf_restore: "draft_wf s \<Longrightarrow> draft_wf (restore_draft_into_buffer s)"
  by (auto simp: draft_wf_def restore_fields restore_selected restore_compose)

lemma sync_fields:
  "ta_mode (sync_draft_on_room_change s) = ta_mode s" "ta_rooms (sync_draft_on_room_change s) = ta_rooms s"
  "ta_selected (sync_draft_on_room_change s) = ta_selected s"
  by (simp_all add: sync_draft_on_room_change_def Let_def set_buffer_def compose_viewD(1-3) [OF compose_flush_now]
      draft_viewD(2,3) [OF view_stop_typing])

lemma sync_selected: "selected_room (sync_draft_on_room_change s) = selected_room s"
  by (rule selected_cong) (simp_all add: sync_fields)

lemma record_sync: "draft_on_record (sync_draft_on_room_change s) r = draft_on_record s r"
proof -
  have "draft_on_record (flush_pending_draft_now (stop_typing_now s)) r = draft_on_record s r"
    by (simp add: record_flush_now record_view [OF view_stop_typing])
  then show ?thesis
    by (simp add: sync_draft_on_room_change_def Let_def draft_on_record_def set_buffer_def)
qed

lemma wf_sync:
  assumes "mode_plain (ta_mode s)" "selected_room s \<noteq> None" "ta_compose_room s = selected_room s \<longrightarrow> draft_wf s"
  shows "draft_wf (sync_draft_on_room_change s)"
proof (cases "ta_compose_room s = selected_room s")
  case False
  then have "ta_compose_room (sync_draft_on_room_change s) = selected_room s" "ta_pending (sync_draft_on_room_change s) = None"
    using holds_plain [OF assms(1)] by (simp_all add: sync_draft_on_room_change_def Let_def set_buffer_def)
  then show ?thesis
    using assms by (simp add: draft_wf_def sync_fields sync_selected)
qed (use assms in \<open>simp add: sync_draft_on_room_change_def\<close>)

lemma sync_buffer:
  assumes "buffer_holds_draft s" "ta_compose_room s \<noteq> selected_room s" "selected_room s = Some r"
  shows "ta_buffer (sync_draft_on_room_change s) = (case draft_on_record s r of None \<Rightarrow> [] | Some t \<Rightarrow> t)"
  using assms by (simp add: sync_draft_on_room_change_def Let_def set_buffer_def drafts_flush_now record_view [OF view_stop_typing])

section \<open>Keys keep the invariant\<close>

text \<open>Keys other than the two that take a draft away: the clear key of an edit or a reaction does not give the draft back
  (\<open>draft_cancel_deletes\<close>), and the focus keys leave the date prompt with its text in the buffer (\<open>date_text_drafted\<close>).\<close>

definition key_safe :: "tui_key \<Rightarrow> tui_app \<Rightarrow> bool" where
  "key_safe k s =
     (key_possible k s \<and>
      (case k of KClear \<Rightarrow> False | KFocusNext _ _ \<Rightarrow> ta_mode s \<noteq> DateJump | KFocusPrev _ _ \<Rightarrow> ta_mode s \<noteq> DateJump | _ \<Rightarrow> True))"

lemma wf_modes: "draft_wf s \<Longrightarrow> \<not> mode_plain (ta_mode s) \<Longrightarrow> mode_loan (ta_mode s) \<and> ta_pending s = None"
  by (auto simp: draft_wf_def)

lemma abandon_plain: "mode_plain (ta_mode s) \<Longrightarrow> abandon_transient_input_mode s = s"
  by (auto simp: mode_plain_def abandon_transient_input_mode_def split: tui_mode.splits)

lemma abandon_loan:
  "mode_loan (ta_mode s) \<Longrightarrow> abandon_transient_input_mode s = restore_draft_into_buffer (s\<lparr>ta_buffer := [], ta_cursor := 0, ta_mode := Compose\<rparr>)"
  by (auto simp: mode_loan_def abandon_transient_input_mode_def clear_input_buffer_def split: tui_mode.splits)

lemma returned_fields [simp]:
  "selected_room (s\<lparr>ta_buffer := t, ta_cursor := c, ta_mode := m\<rparr>) = selected_room s"
  "selected_room (s\<lparr>ta_buffer := t, ta_cursor := c\<rparr>) = selected_room s"
  "selected_room (s\<lparr>ta_mode := m\<rparr>) = selected_room s"
  by (simp_all add: selected_room_def split: option.split)

text \<open>A loan that ends in a plain mode.\<close>

lemma wf_return:
  assumes "draft_wf s" "mode_plain m"
  shows "draft_wf (restore_draft_into_buffer (s\<lparr>ta_buffer := [], ta_cursor := 0, ta_mode := m\<rparr>))"
  using assms by (intro wf_restore) (auto simp: draft_wf_def)

lemma wf_abandon:
  assumes "draft_wf s"
  shows "draft_wf (abandon_transient_input_mode s)" "mode_plain (ta_mode (abandon_transient_input_mode s))"
proof -
  have "mode_plain Compose"
    by (simp add: mode_plain_def)
  then have "draft_wf (abandon_transient_input_mode s) \<and> mode_plain (ta_mode (abandon_transient_input_mode s))"
    using assms wf_modes [OF assms] wf_return [OF assms]
    by (cases "mode_plain (ta_mode s)") (simp_all add: abandon_plain abandon_loan restore_fields)
  then show "draft_wf (abandon_transient_input_mode s)" "mode_plain (ta_mode (abandon_transient_input_mode s))"
    by simp_all
qed

lemma wf_mode:
  assumes "draft_wf s" "mode_plain m"
  shows "draft_wf (s\<lparr>ta_mode := m\<rparr>)"
  using assms by (auto simp: draft_wf_def)

lemma wf_lend:
  assumes "draft_wf s" "mode_loan m"
  shows "draft_wf ((set_buffer t (flush_pending_draft_now s))\<lparr>ta_mode := m\<rparr>)"
    "draft_wf ((clear_input_buffer (flush_pending_draft_now s))\<lparr>ta_mode := m\<rparr>)"
  using assms by (auto simp: draft_wf_def set_buffer_def clear_input_buffer_def compose_viewD [OF compose_flush_now])

lemma focus_plain: "mode_plain (focus_next a b m)" "mode_plain (focus_prev a b m)"
  by (simp_all add: focus_next_def focus_prev_def mode_plain_def)

lemma loan_focus: "mode_loan m \<Longrightarrow> m \<noteq> DateJump \<Longrightarrow> abandons_on_focus m"
  by (auto simp: mode_loan_def abandons_on_focus_def split: tui_mode.splits)

lemma wf_focus:
  assumes "draft_wf s" "\<And>m. mode_plain (f m)"
  shows "draft_wf (cycle_focus f s)"
  using assms by (simp add: cycle_focus_def wf_abandon wf_mode)

lemma wf_switch:
  assumes "draft_wf s" "i < length (ta_rooms s)"
  shows "draft_wf (switch_room i s)"
proof -
  let ?s0 = "abandon_transient_input_mode s"
  let ?s1 = "?s0\<lparr>ta_selected := Some i\<rparr>"
  have "ta_rooms ?s0 = ta_rooms s"
    by (simp add: abandon_transient_input_mode_def restore_fields clear_input_buffer_def Let_def)
  then have sel: "selected_room ?s1 = Some (ta_rooms s ! i)"
    using assms(2) by (simp add: selected_room_def)
  moreover have "ta_compose_room ?s1 = selected_room ?s1 \<longrightarrow> draft_wf ?s1"
    using wf_abandon [OF assms(1)] sel by (auto simp: draft_wf_def)
  ultimately show ?thesis
    using wf_abandon(2) [OF assms(1)] by (simp add: switch_room_def wf_sync)
qed

lemma switch_selected: "i < length (ta_rooms s) \<Longrightarrow> selected_room (switch_room i s) = Some (ta_rooms s ! i)"
proof -
  assume i: "i < length (ta_rooms s)"
  have "ta_rooms (abandon_transient_input_mode s) = ta_rooms s"
    by (simp add: abandon_transient_input_mode_def restore_fields clear_input_buffer_def Let_def)
  then have "selected_room ((abandon_transient_input_mode s)\<lparr>ta_selected := Some i\<rparr>) = Some (ta_rooms s ! i)"
    using i by (simp add: selected_room_def)
  then show ?thesis
    by (simp add: switch_room_def Let_def sync_selected)
qed

lemma wf_key:
  assumes "draft_wf s" "key_possible k s"
  shows "draft_wf (key_effect k s)"
proof (cases k)
  case (KText t c)
  then show ?thesis
    using assms(1) by (simp add: draft_wf_def)
next
  case KMessages
  then show ?thesis
    using wf_mode [OF wf_abandon(1) [OF assms(1)]] by (simp add: mode_plain_def)
next
  case (KEdit selected)
  then show ?thesis
    using assms(1) wf_lend(1) [OF assms(1)]
    by (auto simp: start_edit_selected_message_def mode_loan_def split: option.split)
next
  case (KReact selected)
  then show ?thesis
    using assms(1) wf_lend(2) [OF assms(1)]
    by (auto simp: start_react_to_selected_message_def mode_loan_def split: option.split)
next
  case KDateJump
  then show ?thesis
    using wf_lend(2) [OF assms(1)] by (simp add: start_date_jump_def mode_loan_def)
next
  case KSubmit
  then show ?thesis
    using wf_return [OF assms(1)] by (simp add: submit_borrowed_def mode_plain_def)
next
  case KLeaveDate
  then show ?thesis
    using wf_return [OF assms(1)] by (simp add: leave_date_jump_def clear_input_buffer_def mode_plain_def)
next
  case KClear
  then show ?thesis
    using assms(1) by (simp add: clear_input_and_selection_def clear_input_buffer_def draft_wf_def mode_plain_def)
next
  case (KSwitch i)
  then show ?thesis
    using assms wf_switch by simp
qed (use assms focus_plain wf_focus in auto)

section \<open>Keys keep a draft\<close>

text \<open>The draft \<open>b\<close> of room \<open>r\<close> is on record, and in the buffer while that shows the room's draft.\<close>

definition keeps :: "room_key \<Rightarrow> rstr \<Rightarrow> tui_app \<Rightarrow> bool" where
  "keeps r b s = (draft_on_record s r = Some b \<and> (buffer_holds_draft s \<and> ta_compose_room s = Some r \<longrightarrow> ta_buffer s = b))"

lemma keeps_view:
  assumes "draft_view s = draft_view s'"
  shows "keeps r b s = keeps r b s'"
  unfolding keeps_def record_view [OF assms] draft_viewD [OF assms] ..

lemma keeps_note:
  assumes "draft_wf s" "keeps r b s" "b \<noteq> []" "\<not> is_command b"
  shows "keeps r b (note_draft_activity now s)"
proof -
  have same: "ta_compose_room (note_draft_activity now s) = ta_compose_room s"
    using assms(1) by (auto simp: note_compose draft_wf_def)
  have holds: "buffer_holds_draft (note_draft_activity now s) = buffer_holds_draft s"
    by (rule holds_mode) (simp add: note_fields)
  have "draft_on_record (note_draft_activity now s) r = Some b"
  proof (cases "ta_mode s = Compose \<and> selected_room s = Some r")
    case True
    then have "buffer_holds_draft s" "ta_compose_room s = Some r"
      using assms(1) by (auto simp: buffer_holds_draft_def draft_wf_def)
    then have "ta_buffer s = b"
      using assms(2) by (simp add: keeps_def)
    then show ?thesis
      using True assms(3,4) by (simp add: record_note [OF assms(1)] buffer_draft_def)
  next
    case False
    then show ?thesis
      using assms(2) by (auto simp: record_note [OF assms(1)] keeps_def)
  qed
  then show ?thesis
    using assms(2) same holds by (simp add: keeps_def note_fields)
qed

lemma keeps_return:
  assumes "draft_wf s" "keeps r b s" "mode_loan (ta_mode s)"
  shows "keeps r b (restore_draft_into_buffer (s\<lparr>ta_buffer := [], ta_cursor := 0, ta_mode := m\<rparr>))"
proof -
  let ?s = "s\<lparr>ta_buffer := [], ta_cursor := 0, ta_mode := m\<rparr>"
  have "ta_pending s = None" "ta_compose_room s = selected_room s" "selected_room s \<noteq> None"
    using assms(1,3) wf_modes [OF assms(1)] loan_not_holds [OF assms(3)] holds_plain [of s] by (auto simp: draft_wf_def)
  moreover from this have "ta_drafts s r = Some b"
    using assms(2) by (simp add: keeps_def draft_on_record_def)
  ultimately show ?thesis
    by (auto simp: keeps_def draft_on_record_def restore_fields restore_compose restore_buffer restore_holds)
qed

lemma keeps_abandon:
  assumes "draft_wf s" "keeps r b s"
  shows "keeps r b (abandon_transient_input_mode s)"
  using assms wf_modes [OF assms(1)] keeps_return [OF assms]
  by (cases "mode_plain (ta_mode s)") (simp_all add: abandon_plain abandon_loan)

lemma keeps_mode:
  assumes "keeps r b s" "mode_plain (ta_mode s)" "mode_plain m"
  shows "keeps r b (s\<lparr>ta_mode := m\<rparr>)"
  using assms holds_plain [OF assms(2)] by (simp add: keeps_def)

lemma keeps_lend:
  assumes "keeps r b s" "mode_loan m"
  shows "keeps r b ((set_buffer t (flush_pending_draft_now s))\<lparr>ta_mode := m\<rparr>)"
    "keeps r b ((clear_input_buffer (flush_pending_draft_now s))\<lparr>ta_mode := m\<rparr>)"
  using assms record_flush_now [of s r] loan_not_holds [of "x\<lparr>ta_mode := m\<rparr>" for x]
  by (simp_all add: keeps_def set_buffer_def clear_input_buffer_def)

lemma keeps_switch:
  assumes "draft_wf s" "keeps r b s" "i < length (ta_rooms s)"
  shows "keeps r b (switch_room i s)"
proof -
  let ?s1 = "(abandon_transient_input_mode s)\<lparr>ta_selected := Some i\<rparr>"
  have plain: "mode_plain (ta_mode ?s1)" and rec: "draft_on_record ?s1 r = Some b"
    using wf_abandon [OF assms(1)] keeps_abandon [OF assms(1,2)] by (simp_all add: keeps_def)
  show ?thesis
  proof (cases "selected_room ?s1 = None \<or> ta_compose_room ?s1 = selected_room ?s1")
    case True
    then have "switch_room i s = ?s1"
      by (auto simp: switch_room_def sync_draft_on_room_change_def Let_def)
    then show ?thesis
      using keeps_abandon [OF assms(1,2)] rec by (simp add: keeps_def buffer_holds_draft_def)
  next
    case False
    then obtain r1 where r1: "selected_room ?s1 = Some r1"
      by auto
    have "ta_compose_room (sync_draft_on_room_change ?s1) = selected_room ?s1"
      using False holds_plain [OF plain] by (simp add: sync_draft_on_room_change_def Let_def set_buffer_def)
    moreover have "ta_buffer (sync_draft_on_room_change ?s1) = (case draft_on_record ?s1 r1 of None \<Rightarrow> [] | Some t \<Rightarrow> t)"
      using False r1 holds_plain [OF plain] by (intro sync_buffer) auto
    ultimately show ?thesis
      using False r1 rec by (auto simp: switch_room_def keeps_def record_sync)
  qed
qed

lemma keeps_focus:
  assumes "draft_wf s" "keeps r b s" "ta_mode s \<noteq> DateJump" "\<And>m. mode_plain (f m)"
  shows "keeps r b (cycle_focus f s)"
proof (cases "mode_plain (ta_mode s)")
  case True
  then show ?thesis
    using assms keeps_mode keeps_abandon by (simp add: cycle_focus_def)
next
  case False
  then show ?thesis
    using assms wf_modes [OF assms(1)] loan_focus [of "ta_mode s"] keeps_abandon by (simp add: cycle_focus_def)
qed

lemma keeps_key:
  assumes "draft_wf s" "keeps r b s" "key_safe k s"
    and "\<And>t c. k = KText t c \<Longrightarrow> ta_mode s = Compose \<Longrightarrow> selected_room s \<noteq> Some r"
  shows "keeps r b (key_effect k s)"
proof (cases k)
  case (KText t c)
  have "\<not> buffer_holds_draft s \<or> ta_compose_room s \<noteq> Some r"
    using assms(1,3,4) KText by (auto simp: key_safe_def draft_wf_def buffer_holds_draft_def split: tui_mode.splits)
  then show ?thesis
    using assms(2) KText holds_mode [of "s\<lparr>ta_buffer := t, ta_cursor := c\<rparr>" s] by (auto simp: keeps_def)
next
  case KMessages
  then show ?thesis
    using keeps_mode [OF keeps_abandon [OF assms(1,2)] wf_abandon(2) [OF assms(1)]] by (simp add: mode_plain_def)
next
  case (KEdit selected)
  then show ?thesis
    using assms(2) keeps_lend(1) [OF assms(2)]
    by (auto simp: start_edit_selected_message_def mode_loan_def split: option.split)
next
  case (KReact selected)
  then show ?thesis
    using assms(2) keeps_lend(2) [OF assms(2)]
    by (auto simp: start_react_to_selected_message_def mode_loan_def split: option.split)
next
  case KDateJump
  then show ?thesis
    using keeps_lend(2) [OF assms(2)] by (simp add: start_date_jump_def mode_loan_def)
next
  case KSubmit
  then show ?thesis
    using keeps_return [OF assms(1,2)] assms(3)
    by (auto simp: submit_borrowed_def key_safe_def mode_loan_def split: tui_mode.splits)
next
  case KLeaveDate
  then show ?thesis
    using keeps_return [OF assms(1,2)] assms(3) by (simp add: leave_date_jump_def clear_input_buffer_def key_safe_def mode_loan_def)
next
  case (KSwitch i)
  then show ?thesis
    using assms keeps_switch by (simp add: key_safe_def)
qed (use assms focus_plain keeps_focus in \<open>auto simp: key_safe_def\<close>)

section \<open>Frames and reads\<close>

lemma entry_fields:
  "ta_mode (apply_draft_entry a e s) = ta_mode s" "ta_rooms (apply_draft_entry a e s) = ta_rooms s"
  "ta_selected (apply_draft_entry a e s) = ta_selected s" "ta_compose_room (apply_draft_entry a e s) = ta_compose_room s"
  "ta_pending (apply_draft_entry a e s) = ta_pending s"
  by (simp_all add: apply_draft_entry_def Let_def set_buffer_def split: option.split)

lemma entry_drafts:
  "ta_drafts (apply_draft_entry a e s) =
     (case incoming_draft (snd e) of None \<Rightarrow> ta_drafts s | Some inc \<Rightarrow> (ta_drafts s)((a, fst e) := inc))"
  by (simp add: apply_draft_entry_def Let_def set_buffer_def split: option.split)

lemma entry_buffer:
  "ta_buffer (apply_draft_entry a e s) =
     (case incoming_draft (snd e) of
        None \<Rightarrow> ta_buffer s
      | Some inc \<Rightarrow>
          if ta_compose_room s = Some (a, fst e) \<and> buffer_holds_draft s \<and>
             (ta_buffer s = [] \<or> ta_drafts s (a, fst e) = Some (ta_buffer s))
          then (case inc of None \<Rightarrow> [] | Some t \<Rightarrow> t) else ta_buffer s)"
  by (simp add: apply_draft_entry_def Let_def set_buffer_def split: option.split)

lemma entry_holds: "buffer_holds_draft (apply_draft_entry a e s) = buffer_holds_draft s"
  by (rule holds_mode) (simp add: entry_fields)

lemma wf_fields:
  assumes "draft_wf s" "ta_mode s' = ta_mode s" "ta_rooms s' = ta_rooms s" "ta_selected s' = ta_selected s"
    "ta_compose_room s' = ta_compose_room s" "ta_pending s' = ta_pending s \<or> ta_pending s' = None"
  shows "draft_wf s'"
  using assms selected_cong [of s' s] by (auto simp: draft_wf_def)

lemma wf_entry: "draft_wf s \<Longrightarrow> draft_wf (apply_draft_entry a e s)"
  by (erule wf_fields) (simp_all add: entry_fields)

text \<open>A frame or a view that says nothing else of the room \<open>r\<close> than \<open>b\<close>.\<close>

definition entry_agrees :: "room_key \<Rightarrow> rstr \<Rightarrow> uuid \<Rightarrow> rstr \<times> json_value \<Rightarrow> bool" where
  "entry_agrees r b a e = ((a, fst e) = r \<longrightarrow> incoming_draft (snd e) = None \<or> incoming_draft (snd e) = Some (Some b))"

lemma keeps_entry:
  assumes "keeps r b s" "entry_agrees r b a e"
  shows "keeps r b (apply_draft_entry a e s)"
proof -
  have "draft_on_record (apply_draft_entry a e s) r = Some b"
    using assms by (auto simp: keeps_def draft_on_record_def entry_fields entry_drafts entry_agrees_def split: option.splits if_splits)
  moreover have "ta_buffer (apply_draft_entry a e s) = b" if "buffer_holds_draft s" "ta_compose_room s = Some r"
    using assms that by (auto simp: keeps_def entry_buffer entry_agrees_def split: option.splits if_splits)
  ultimately show ?thesis
    by (simp add: keeps_def entry_holds entry_fields)
qed

lemma fold_invariant_on: "P s \<Longrightarrow> (\<And>x s. x \<in> set xs \<Longrightarrow> P s \<Longrightarrow> P (f x s)) \<Longrightarrow> P (fold f xs s)"
  by (induction xs arbitrary: s) auto

lemma wf_draft_frame: "draft_wf s \<Longrightarrow> draft_wf (handle_draft_frame a entries s)"
  unfolding handle_draft_frame_def by (rule fold_invariant_on) (auto intro: wf_entry)

lemma keeps_draft_frame:
  "keeps r b s \<Longrightarrow> \<forall>e \<in> set entries. entry_agrees r b a e \<Longrightarrow> keeps r b (handle_draft_frame a entries s)"
  unfolding handle_draft_frame_def by (rule fold_invariant_on) (auto intro: keeps_entry)

lemma wf_frame: "draft_wf s \<Longrightarrow> draft_wf (handle_device_state_frame a device ns entries s)"
  by (simp add: handle_device_state_frame_def wf_draft_frame wf_view [OF view_marker_frame])

lemma keeps_frame:
  assumes "keeps r b s" "device \<noteq> ta_device s \<and> ns = DRAFTS_NAMESPACE \<longrightarrow> (\<forall>e \<in> set entries. entry_agrees r b a e)"
  shows "keeps r b (handle_device_state_frame a device ns entries s)"
  using assms by (simp add: handle_device_state_frame_def keeps_draft_frame keeps_view [OF view_marker_frame])

lemma read_fields:
  "ta_mode (apply_draft_read rd s) = ta_mode s" "ta_rooms (apply_draft_read rd s) = ta_rooms s"
  "ta_selected (apply_draft_read rd s) = ta_selected s" "ta_compose_room (apply_draft_read rd s) = ta_compose_room s"
  "ta_pending (apply_draft_read rd s) = ta_pending s" "ta_buffer (apply_draft_read rd s) = ta_buffer s"
  "ta_since_fetch (apply_draft_read rd s) = ta_since_fetch s"
  by (simp_all add: apply_draft_read_def Let_def split: option.split)

lemma read_holds: "buffer_holds_draft (apply_draft_read rd s) = buffer_holds_draft s"
  by (rule holds_mode) (simp add: read_fields)

text \<open>What one read leaves of a room: nothing changes where it is protected, another account's, or the read failed.\<close>

lemma fold_insert_draft:
  "fold (insert_draft a prot) entries drafts r =
     (if r \<in> prot \<or> fst r \<noteq> a then drafts r
      else case filter (\<lambda>e. fst e = snd r \<and> draft_text (snd e) \<noteq> None) (rev entries) of
             [] \<Rightarrow> drafts r | e # _ \<Rightarrow> draft_text (snd e))"
proof (induction entries arbitrary: drafts)
  case (Cons e es)
  then show ?case
    by (cases r) (auto simp: insert_draft_def split: option.splits list.splits)
qed simp

definition read_agrees :: "room_key \<Rightarrow> rstr \<Rightarrow> uuid \<times> json_map option \<Rightarrow> bool" where
  "read_agrees r b rd =
     (case snd rd of
        None \<Rightarrow> True
      | Some entries \<Rightarrow> fst rd = fst r \<longrightarrow>
          snd r \<in> fst ` set entries \<and> (\<forall>e \<in> set entries. fst e = snd r \<longrightarrow> draft_text (snd e) = None \<or> draft_text (snd e) = Some b))"

lemma read_drafts:
  assumes "read_agrees r b rd" "ta_drafts s r = Some b"
  shows "ta_drafts (apply_draft_read rd s) r = Some b"
proof (cases "snd rd")
  case (Some entries)
  let ?hits = "filter (\<lambda>e. fst e = snd r \<and> draft_text (snd e) \<noteq> None) (rev entries)"
  have hits: "draft_text (snd e) = Some b" if "fst r = fst rd" "?hits = e # es" for e es
  proof -
    have "e \<in> set ?hits"
      using that(2) by simp
    then show ?thesis
      using assms(1) that(1) Some by (auto simp: read_agrees_def)
  qed
  have "fst r = fst rd \<Longrightarrow> snd r \<in> fst ` set entries"
    using assms(1) Some by (simp add: read_agrees_def)
  then show ?thesis
    using assms(2) Some hits
    by (cases "?hits") (auto simp: apply_draft_read_def Let_def fold_insert_draft)
qed (use assms(2) in \<open>simp add: apply_draft_read_def\<close>)

lemma protected_read [simp]: "protected_rooms a (apply_draft_read rd s) = protected_rooms a s"
  by (simp add: protected_rooms_def read_fields)

lemma read_protected:
  assumes "r \<in> protected_rooms (fst r) s"
  shows "ta_drafts (apply_draft_read rd s) r = ta_drafts s r"
  using assms by (cases "fst rd = fst r") (auto simp: apply_draft_read_def Let_def fold_insert_draft split: option.split)

lemma keeps_read:
  assumes "keeps r b s" "r \<in> protected_rooms (fst r) s \<or> read_agrees r b rd"
  shows "keeps r b (apply_draft_read rd s)"
proof -
  have "draft_on_record (apply_draft_read rd s) r = Some b"
    using assms(1,2) read_drafts [of r b rd s] read_protected [of r s rd]
    by (auto simp: keeps_def draft_on_record_def read_fields split: option.splits if_splits)
  then show ?thesis
    using assms(1) by (simp add: keeps_def read_holds read_fields)
qed

lemma keeps_restore:
  assumes "draft_wf s" "keeps r b s" "b \<noteq> []"
  shows "keeps r b (restore_draft_into_buffer s)"
  using assms by (auto simp: keeps_def record_restore restore_holds restore_compose restore_buffer draft_wf_def)

lemma wf_read: "draft_wf s \<Longrightarrow> draft_wf (apply_draft_read rd s)"
  by (erule wf_fields) (simp_all add: read_fields)

lemma wf_reads: "draft_wf s \<Longrightarrow> draft_wf (apply_draft_reads reads s)"
  unfolding apply_draft_reads_def
  by (intro wf_restore fold_invariant_on [where P = draft_wf]) (simp_all add: wf_read)

lemma keeps_reads:
  assumes "draft_wf s" "keeps r b s" "b \<noteq> []" "r \<in> protected_rooms (fst r) s \<or> (\<forall>rd \<in> set reads. read_agrees r b rd)"
  shows "keeps r b (apply_draft_reads reads s)"
proof -
  let ?P = "\<lambda>s'. draft_wf s' \<and> keeps r b s' \<and> protected_rooms (fst r) s' = protected_rooms (fst r) s"
  have "?P (fold apply_draft_read reads s)"
    using assms by (intro fold_invariant_on [where P = ?P]) (auto simp: wf_read keeps_read)
  then show ?thesis
    using assms(3) by (simp add: apply_draft_reads_def keeps_restore)
qed

section \<open>Modes on loan\<close>

text \<open>While the buffer is on loan nothing is pending. Unlike \<open>draft_wf\<close> this survives a refreshed room list that takes the
  selected room away.\<close>

definition loan_wf :: "tui_app \<Rightarrow> bool" where
  "loan_wf s = (mode_plain (ta_mode s) \<or> mode_loan (ta_mode s) \<and> ta_pending s = None)"

lemma loan_wf_keep:
  "loan_wf s \<Longrightarrow> ta_mode s' = ta_mode s \<Longrightarrow> ta_pending s' = ta_pending s \<or> ta_pending s' = None \<Longrightarrow> loan_wf s'"
  by (auto simp: loan_wf_def)

lemma loan_wf_plain: "mode_plain (ta_mode s) \<Longrightarrow> loan_wf s"
  by (simp add: loan_wf_def)

lemma pending_sync: "ta_pending (sync_draft_on_room_change s) = ta_pending s \<or> ta_pending (sync_draft_on_room_change s) = None"
  by (simp add: sync_draft_on_room_change_def Let_def set_buffer_def)

lemma abandon_mode_plain: "loan_wf s \<Longrightarrow> mode_plain (ta_mode (abandon_transient_input_mode s))"
  by (auto simp: loan_wf_def abandon_plain abandon_loan restore_fields) (simp add: mode_plain_def)

lemma loan_wf_key:
  assumes "loan_wf s" "key_possible k s"
  shows "loan_wf (key_effect k s)"
proof (cases k)
  case (KSwitch i)
  then show ?thesis
    using abandon_mode_plain [OF assms(1)] by (simp add: loan_wf_plain switch_room_def Let_def sync_fields)
next
  case (KEdit selected)
  then show ?thesis
    using assms(1) by (auto simp: start_edit_selected_message_def set_buffer_def loan_wf_def mode_loan_def split: option.split)
next
  case (KReact selected)
  then show ?thesis
    using assms(1) by (auto simp: start_react_to_selected_message_def clear_input_buffer_def loan_wf_def mode_loan_def split: option.split)
qed (use assms abandon_mode_plain [OF assms(1)] focus_plain in
    \<open>auto simp: loan_wf_def cycle_focus_def start_date_jump_def clear_input_buffer_def submit_borrowed_def restore_fields
       clear_input_and_selection_def leave_date_jump_def\<close>, auto simp: mode_plain_def mode_loan_def)

lemma loan_wf_note: "loan_wf s \<Longrightarrow> loan_wf (note_draft_activity now s)"
  by (auto simp: loan_wf_def note_fields note_pending mode_plain_def)

lemma wf_loan: "draft_wf s \<Longrightarrow> loan_wf s"
  by (simp add: draft_wf_def loan_wf_def)

end
