(* ===== verification/Tui_Guarantees.thy ===== *)
theory Tui_Guarantees
  imports Tui_Drafts
begin

text \<open>
  The guarantees of the terminal client's drafts over its event loop: what a draft survives, what the events in the
  background may do to the compose buffer, and two ways in which a draft is deleted against the intention of the code.
\<close>

section \<open>The event loop\<close>

fun event_possible :: "tui_event \<Rightarrow> tui_app \<Rightarrow> bool" where
  "event_possible (EKey k now) s = key_possible k s"
| "event_possible (ERefresh rooms eligible visible launching) s = list_all (\<lambda>i. i < length rooms) (eligible @ visible)"
| "event_possible (EOpen i) s = (i < length (ta_rooms s))"
| "event_possible (EUnresolved name target) s = (name \<in> {lit ''recover'', lit ''backup enable'', lit ''logout'', lit ''delete''})"
| "event_possible _ s = True"

inductive tui_step :: "tui_app \<Rightarrow> tui_app \<Rightarrow> bool" where
  "event_possible e s \<Longrightarrow> tui_step s (tui_handle e s)"

text \<open>The client once its first room is loaded.\<close>

definition draft_start :: "tui_app \<Rightarrow> bool" where
  "draft_start s =
     (ta_mode s = Compose \<and> selected_room s \<noteq> None \<and> ta_compose_room s = selected_room s \<and> ta_pending s = None)"

lemma wf_tick: "draft_wf s \<Longrightarrow> draft_wf (tui_tick now s)"
proof -
  assume wf: "draft_wf s"
  have "draft_wf (flush_due_draft_put now s)"
    by (rule wf_fields [OF wf]) (simp_all add: compose_viewD [OF compose_flush] pending_flush disj_commute)
  then show ?thesis
    by (simp add: tui_tick_def wf_view [OF view_flush_typing] wf_view [OF view_flush_marker])
qed

lemma wf_landed: "draft_wf s \<Longrightarrow> draft_wf (device_state_landed markers drafts s)"
proof -
  assume "draft_wf s"
  then have "draft_wf (apply_read_marker_reads markers (s\<lparr>ta_inflight := False\<rparr>))"
    by (simp add: wf_view [OF view_marker_reads] wf_view [OF view_marker_update(7)])
  then show ?thesis
    by (simp add: device_state_landed_def Let_def wf_reads wf_view [OF view_request] wf_view [OF view_marker_update(8)])
qed

text \<open>A refreshed room list under which the same room stays selected.\<close>

definition event_calm :: "tui_event \<Rightarrow> tui_app \<Rightarrow> bool" where
  "event_calm e s =
     (case e of
        ERefresh rooms eligible visible launching \<Rightarrow> selected_room (refresh_selection rooms eligible visible launching s) = selected_room s
      | _ \<Rightarrow> True)"

lemma refresh_fields:
  "ta_mode (refresh_selection rooms el vis la s) = ta_mode s" "ta_buffer (refresh_selection rooms el vis la s) = ta_buffer s"
  "ta_compose_room (refresh_selection rooms el vis la s) = ta_compose_room s" "ta_drafts (refresh_selection rooms el vis la s) = ta_drafts s"
  "ta_pending (refresh_selection rooms el vis la s) = ta_pending s"
  by (simp_all add: refresh_selection_def Let_def)

lemma refresh_record: "draft_on_record (refresh_selection rooms el vis la s) r = draft_on_record s r"
  by (simp add: draft_on_record_def refresh_fields split: option.split)

lemma sync_noop: "ta_compose_room s = selected_room s \<Longrightarrow> sync_draft_on_room_change s = s"
  by (simp add: sync_draft_on_room_change_def)

lemma prompt_loan: "mode_loan m \<Longrightarrow> prompt_owns_entry_line m"
  by (auto simp: mode_loan_def prompt_owns_entry_line_def split: tui_mode.splits)

lemma wf_open: "draft_wf s \<Longrightarrow> i < length (ta_rooms s) \<Longrightarrow> draft_wf (open_or_defer_joined_room i s)"
  by (simp add: open_or_defer_joined_room_def wf_switch)

lemma join_line_fields:
  "ta_mode (restore_join_line_if_composer_is_empty a s) = ta_mode s" "ta_pending (restore_join_line_if_composer_is_empty a s) = ta_pending s"
  "ta_compose_room (restore_join_line_if_composer_is_empty a s) = ta_compose_room s"
  "selected_room (restore_join_line_if_composer_is_empty a s) = selected_room s"
  "draft_on_record (restore_join_line_if_composer_is_empty a s) r = draft_on_record s r"
  by (simp_all add: restore_join_line_if_composer_is_empty_def set_buffer_def draft_on_record_def selected_room_def split: option.split)

lemma command_fields:
  "ta_mode (restore_command_input name target s) = Compose" "ta_pending (restore_command_input name target s) = ta_pending s"
  "ta_compose_room (restore_command_input name target s) = ta_compose_room s" "ta_drafts (restore_command_input name target s) = ta_drafts s"
  "selected_room (restore_command_input name target s) = selected_room s"
  by (simp_all add: restore_command_input_def set_buffer_def selected_room_def split: option.split)

lemma wf_event: "draft_wf s \<Longrightarrow> event_possible e s \<Longrightarrow> event_calm e s \<Longrightarrow> draft_wf (tui_handle e s)"
proof (cases e)
  case (ERefresh rooms el vis la)
  assume "draft_wf s" "event_calm e s"
  then show ?thesis
    by (simp add: ERefresh event_calm_def draft_wf_def refresh_fields)
next
  case ESync
  assume "draft_wf s"
  then show ?thesis
    using sync_noop [of s] by (simp add: ESync draft_wf_def)
next
  case (EJoinFailed a)
  assume "draft_wf s"
  then show ?thesis
    by (simp add: EJoinFailed draft_wf_def join_line_fields)
next
  case (EUnresolved name target)
  assume "draft_wf s"
  then show ?thesis
    by (simp add: EUnresolved draft_wf_def command_fields mode_plain_def)
qed (simp_all add: wf_note wf_key wf_tick wf_frame wf_view [OF view_request] wf_landed wf_view [OF view_outcome]
      wf_view [OF view_note_room_read] wf_open)

lemma landed_fields:
  "ta_mode (device_state_landed markers drafts s) = ta_mode s" "ta_pending (device_state_landed markers drafts s) = ta_pending s"
proof -
  let ?s = "apply_read_marker_reads markers (s\<lparr>ta_inflight := False\<rparr>)"
  have v: "draft_view ?s = draft_view s"
    by (simp add: view_marker_reads view_marker_update)
  have w: "draft_view (device_state_landed markers drafts s) = draft_view (apply_draft_reads drafts ?s)"
    by (simp add: device_state_landed_def Let_def view_request view_marker_update)
  have "ta_mode (fold apply_draft_read drafts x) = ta_mode x \<and> ta_pending (fold apply_draft_read drafts x) = ta_pending x" for x
    by (induction drafts arbitrary: x) (simp_all add: read_fields)
  then show "ta_mode (device_state_landed markers drafts s) = ta_mode s" "ta_pending (device_state_landed markers drafts s) = ta_pending s"
    by (simp_all add: draft_viewD(1,7) [OF w] apply_draft_reads_def restore_fields draft_viewD(1,7) [OF v])
qed

lemma frame_fields:
  "ta_mode (handle_device_state_frame a d ns es s) = ta_mode s" "ta_pending (handle_device_state_frame a d ns es s) = ta_pending s"
proof -
  have "ta_mode (fold (apply_draft_entry a) es x) = ta_mode x \<and> ta_pending (fold (apply_draft_entry a) es x) = ta_pending x" for x
    by (induction es arbitrary: x) (simp_all add: entry_fields)
  then show "ta_mode (handle_device_state_frame a d ns es s) = ta_mode s" "ta_pending (handle_device_state_frame a d ns es s) = ta_pending s"
    by (simp_all add: handle_device_state_frame_def handle_draft_frame_def draft_viewD(1,7) [OF view_marker_frame])
qed

lemma tick_fields:
  "ta_mode (tui_tick now s) = ta_mode s" "ta_pending (tui_tick now s) = ta_pending s \<or> ta_pending (tui_tick now s) = None"
  using pending_flush [of now s]
  by (auto simp: tui_tick_def draft_viewD(1,7) [OF view_flush_typing] draft_viewD(1,7) [OF view_flush_marker]
      compose_viewD(1) [OF compose_flush])

lemma loan_wf_open:
  assumes "loan_wf s"
  shows "loan_wf (open_or_defer_joined_room i s)"
  using assms abandon_mode_plain [OF assms]
  by (simp add: open_or_defer_joined_room_def loan_wf_plain switch_room_def Let_def sync_fields)

lemma loan_wf_event:
  assumes "loan_wf s" "event_possible e s"
  shows "loan_wf (tui_handle e s)"
proof (cases e)
  case (EKey k now)
  then show ?thesis
    using assms by (simp add: loan_wf_note loan_wf_key)
next
  case (EOpen i)
  then show ?thesis
    using assms(1) by (simp add: loan_wf_open)
next
  case (ETick now)
  show ?thesis
    unfolding ETick tui_handle.simps by (rule loan_wf_keep [OF assms(1) tick_fields])
next
  case ESync
  show ?thesis
    unfolding ESync tui_handle.simps by (rule loan_wf_keep [OF assms(1) sync_fields(1) pending_sync])
next
  case (EUnresolved name target)
  show ?thesis
    by (simp add: EUnresolved loan_wf_def command_fields mode_plain_def)
qed (auto intro!: loan_wf_keep [OF assms(1)] simp: frame_fields landed_fields refresh_fields join_line_fields
      draft_viewD(1,7) [OF view_request] draft_viewD(1,7) [OF view_outcome] draft_viewD(1,7) [OF view_note_room_read])

interpretation tui: inv_system draft_start tui_step loan_wf
proof
  fix s
  assume "draft_start s"
  then show "loan_wf s"
    by (auto simp: draft_start_def loan_wf_def mode_plain_def)
next
  fix s t
  assume "loan_wf s" "tui_step s t"
  then show "loan_wf t"
    by (auto elim!: tui_step.cases intro: loan_wf_event)
qed

section \<open>A draft through a run\<close>

text \<open>Events that leave the draft \<open>b\<close> of the room \<open>r\<close> to the client. Left out are:
  \<^item> typing in the room; the clear key of an edit or a reaction; the focus keys in the date prompt;
  \<^item> a frame of another device that says something else of the room's draft;
  \<^item> a read that says something else of it, or does not mention it, while the room is not protected. The last includes a read
    answered before this client's own write arrived, once the room was left (\<open>stale_read_drops\<close>);
  \<^item> a refreshed room list that takes the selected room away (\<open>refresh_moves_text\<close>);
  \<^item> an account command that puts its line back (\<open>command_overwrites\<close>).\<close>

fun event_leaves :: "room_key \<Rightarrow> rstr \<Rightarrow> tui_event \<Rightarrow> tui_app \<Rightarrow> bool" where
  "event_leaves r b (EKey k now) s =
     (key_safe k s \<and> (case k of KText _ _ \<Rightarrow> ta_mode s = Compose \<longrightarrow> selected_room s \<noteq> Some r | _ \<Rightarrow> True))"
| "event_leaves r b (EFrame a device ns entries) s =
     (device \<noteq> ta_device s \<and> ns = DRAFTS_NAMESPACE \<longrightarrow> (\<forall>e \<in> set entries. entry_agrees r b a e))"
| "event_leaves r b (ELanded markers drafts) s =
     (r \<in> protected_rooms (fst r) s \<or> (\<forall>rd \<in> set drafts. read_agrees r b rd))"
| "event_leaves r b (EUnresolved name target) s = False"
| "event_leaves r b e s = (event_possible e s \<and> event_calm e s)"

fun draft_run :: "room_key \<Rightarrow> rstr \<Rightarrow> tui_event list \<Rightarrow> tui_app \<Rightarrow> bool" where
  "draft_run r b [] s = True"
| "draft_run r b (e # es) s = (event_leaves r b e s \<and> draft_run r b es (tui_handle e s))"

lemma leaves_possible: "event_leaves r b e s \<Longrightarrow> event_possible e s \<and> event_calm e s"
  by (cases e) (auto simp: key_safe_def event_calm_def)

lemma keeps_tick: "keeps r b s \<Longrightarrow> keeps r b (tui_tick now s)"
proof -
  assume "keeps r b s"
  then have "keeps r b (flush_due_draft_put now s)"
    by (simp add: keeps_def record_flush compose_viewD [OF compose_flush])
  then show ?thesis
    by (simp add: tui_tick_def keeps_view [OF view_flush_typing] keeps_view [OF view_flush_marker])
qed

lemma since_fetch_marker_entries: "ta_since_fetch (fold (apply_marker_entry a) es s) = ta_since_fetch s"
  by (induction es arbitrary: s) (simp_all add: apply_marker_entry_def apply_marker_def split: option.split)

lemma since_fetch_reads: "ta_since_fetch (apply_read_marker_reads markers s) = ta_since_fetch s"
  unfolding apply_read_marker_reads_def
  by (induction markers arbitrary: s) (simp_all add: since_fetch_marker_entries split: option.split)

lemma keeps_landed:
  assumes "draft_wf s" "keeps r b s" "b \<noteq> []" "r \<in> protected_rooms (fst r) s \<or> (\<forall>rd \<in> set drafts. read_agrees r b rd)"
  shows "keeps r b (device_state_landed markers drafts s)"
proof -
  let ?s = "apply_read_marker_reads markers (s\<lparr>ta_inflight := False\<rparr>)"
  have prot: "protected_rooms (fst r) ?s = protected_rooms (fst r) s"
    by (simp add: protected_rooms_def draft_viewD(5,7) [OF view_marker_reads] since_fetch_reads)
  have "draft_wf ?s" "keeps r b ?s"
    using assms(1,2) by (simp_all add: wf_view [OF view_marker_reads] wf_view [OF view_marker_update(7)]
        keeps_view [OF view_marker_reads] keeps_view [OF view_marker_update(7)])
  then have "keeps r b (apply_draft_reads drafts ?s)"
    using assms(3,4) prot by (intro keeps_reads) simp_all
  then show ?thesis
    by (simp add: device_state_landed_def Let_def keeps_view [OF view_request] keeps_view [OF view_marker_update(8)])
qed

lemma keeps_event:
  assumes "draft_wf s" "keeps r b s" "b \<noteq> []" "\<not> is_command b" "event_leaves r b e s"
  shows "keeps r b (tui_handle e s)"
proof (cases e)
  case (EKey k now)
  have "keeps r b (key_effect k s)"
    using assms(1,2,5) EKey by (intro keeps_key) auto
  then show ?thesis
    using assms EKey wf_key leaves_possible [OF assms(5)] by (auto intro: keeps_note)
next
  case (ERefresh rooms el vis la)
  then show ?thesis
    using assms(2) by (simp add: keeps_def refresh_record refresh_fields holds_mode [OF refresh_fields(1)])
next
  case ESync
  then show ?thesis
    using assms(1,2) sync_noop [of s] by (simp add: draft_wf_def)
next
  case (EOpen i)
  then show ?thesis
    using assms keeps_switch by (simp add: open_or_defer_joined_room_def)
next
  case (EJoinFailed a)
  have "ta_buffer (restore_join_line_if_composer_is_empty a s) = ta_buffer s" if "ta_buffer s \<noteq> []"
    using that by (simp add: restore_join_line_if_composer_is_empty_def)
  then show ?thesis
    using assms(2,3) by (auto simp: EJoinFailed keeps_def join_line_fields holds_mode [OF join_line_fields(1)])
qed (use assms in \<open>simp_all add: keeps_tick keeps_frame keeps_landed keeps_view [OF view_request] keeps_view [OF view_outcome]
      keeps_view [OF view_note_room_read]\<close>)

lemma keeps_run:
  assumes "draft_wf s" "keeps r b s" "b \<noteq> []" "\<not> is_command b" "draft_run r b es s"
  shows "draft_wf (fold tui_handle es s) \<and> keeps r b (fold tui_handle es s)"
  using assms(1,2,5)
proof (induction es arbitrary: s)
  case (Cons e es)
  then have leaves: "event_leaves r b e s"
    by simp
  have "draft_wf (tui_handle e s)" "keeps r b (tui_handle e s)"
    using keeps_event [OF Cons.prems(1,2) assms(3,4) leaves] wf_event [OF Cons.prems(1)] leaves_possible [OF leaves] by simp_all
  then show ?case
    using Cons.IH Cons.prems(3) by simp
qed simp

lemma keeps_typed:
  assumes "draft_wf s" "ta_mode s = Compose" "selected_room s = Some r" "b \<noteq> []" "\<not> is_command b"
  shows "draft_wf (tui_handle (EKey (KText b c) now) s) \<and> keeps r b (tui_handle (EKey (KText b c) now) s)"
proof -
  let ?s = "s\<lparr>ta_buffer := b, ta_cursor := c\<rparr>"
  have wf: "draft_wf ?s"
    using assms(1) by (simp add: draft_wf_def)
  have "draft_on_record (note_draft_activity now ?s) r = Some b"
    using assms by (simp add: record_note [OF wf] buffer_draft_def)
  then show ?thesis
    by (simp add: keeps_def note_fields wf_note [OF wf])
qed

section \<open>Background events and the buffer\<close>

definition tui_background :: "tui_event \<Rightarrow> bool" where
  "tui_background e = (case e of EKey _ _ \<Rightarrow> False | EUnresolved _ _ \<Rightarrow> False | EFrame _ _ _ entries \<Rightarrow> distinct (map fst entries) | _ \<Rightarrow> True)"

definition room_event :: "tui_event \<Rightarrow> bool" where
  "room_event e = (case e of ERefresh _ _ _ _ \<Rightarrow> True | ESync \<Rightarrow> True | EOpen _ \<Rightarrow> True | _ \<Rightarrow> False)"

text \<open>The buffer was replaced by the draft known now of the room it shows, and held nothing that was not on record.\<close>

definition shows_draft :: "tui_app \<Rightarrow> tui_app \<Rightarrow> bool" where
  "shows_draft s s' =
     (buffer_holds_draft s \<and>
      (ta_buffer s = [] \<or> (\<exists>r. ta_compose_room s = Some r \<and> ta_drafts s r = Some (ta_buffer s))) \<and>
      (\<exists>r. ta_compose_room s' = Some r \<and> ta_buffer s' = (case ta_drafts s' r of None \<Rightarrow> [] | Some t \<Rightarrow> t)))"

text \<open>The buffer changed rooms: it shows what was on record of the room selected now, and what is on record of every room stays.\<close>

definition changes_room :: "tui_app \<Rightarrow> tui_app \<Rightarrow> bool" where
  "changes_room s s' =
     (buffer_holds_draft s \<and> ta_compose_room s' \<noteq> ta_compose_room s \<and> ta_compose_room s' = selected_room s' \<and>
      ta_buffer s' = (case selected_room s' of None \<Rightarrow> [] | Some r \<Rightarrow> (case draft_on_record s r of None \<Rightarrow> [] | Some t \<Rightarrow> t)) \<and>
      (\<forall>r. draft_on_record s' r = draft_on_record s r))"

lemma sync_changes_room: "sync_draft_on_room_change s = s \<or> changes_room s (sync_draft_on_room_change s)"
proof (cases "buffer_holds_draft s \<and> ta_compose_room s \<noteq> selected_room s")
  case True
  have "ta_buffer (sync_draft_on_room_change s) =
       (case selected_room s of None \<Rightarrow> [] | Some r \<Rightarrow> (case draft_on_record s r of None \<Rightarrow> [] | Some t \<Rightarrow> t))"
  proof (cases "selected_room s")
    case None
    then show ?thesis
      using True by (auto simp: sync_draft_on_room_change_def Let_def set_buffer_def)
  qed (use True sync_buffer [of s] in simp)
  moreover have "ta_compose_room (sync_draft_on_room_change s) = selected_room s"
    using True by (simp add: sync_draft_on_room_change_def Let_def)
  ultimately show ?thesis
    using True by (auto simp: changes_room_def sync_selected record_sync)
qed (auto simp: sync_draft_on_room_change_def)

lemma prompt_not_plain: "\<not> prompt_owns_entry_line m \<Longrightarrow> mode_plain m"
  by (auto simp: prompt_owns_entry_line_def mode_plain_def split: tui_mode.splits)

lemma open_changes_room:
  "ta_buffer (open_or_defer_joined_room i s) = ta_buffer s \<or> changes_room s (open_or_defer_joined_room i s)"
proof (cases "prompt_owns_entry_line (ta_mode s)")
  case False
  let ?s1 = "s\<lparr>ta_selected := Some i\<rparr>"
  have "open_or_defer_joined_room i s = (if selected_room ?s1 = None then ?s1 else sync_draft_on_room_change ?s1)"
    using False by (simp add: open_or_defer_joined_room_def switch_room_def abandon_plain [OF prompt_not_plain] Let_def)
  moreover have "draft_on_record ?s1 = draft_on_record s" "buffer_holds_draft ?s1 = buffer_holds_draft s" "ta_compose_room ?s1 = ta_compose_room s"
    by (auto simp: draft_on_record_def buffer_holds_draft_def fun_eq_iff split: option.split)
  then have "changes_room ?s1 s' = changes_room s s'" for s'
    unfolding changes_room_def by (simp only:)
  ultimately show ?thesis
    using sync_changes_room [of ?s1] by auto
qed (simp add: open_or_defer_joined_room_def)

lemma fold_entry_fields:
  "ta_compose_room (fold (apply_draft_entry a) es s) = ta_compose_room s"
  "buffer_holds_draft (fold (apply_draft_entry a) es s) = buffer_holds_draft s"
  by (induction es arbitrary: s) (simp_all add: entry_fields entry_holds)

lemma frame_other_room:
  assumes "\<forall>e \<in> set es. Some (a, fst e) \<noteq> ta_compose_room s"
  shows "ta_buffer (fold (apply_draft_entry a) es s) = ta_buffer s \<and>
    (\<forall>r. ta_compose_room s = Some r \<longrightarrow> ta_drafts (fold (apply_draft_entry a) es s) r = ta_drafts s r)"
  using assms
proof (induction es arbitrary: s)
  case (Cons e es)
  have "Some (a, fst e) \<noteq> ta_compose_room s"
    using Cons.prems by simp
  then have "ta_buffer (apply_draft_entry a e s) = ta_buffer s"
    "\<forall>r. ta_compose_room s = Some r \<longrightarrow> ta_drafts (apply_draft_entry a e s) r = ta_drafts s r"
    by (auto simp: entry_buffer entry_drafts split: option.split)
  then show ?case
    using Cons.IH [of "apply_draft_entry a e s"] Cons.prems by (auto simp: entry_fields)
qed simp

lemma entry_shows: "ta_buffer (apply_draft_entry a e s) = ta_buffer s \<or> shows_draft s (apply_draft_entry a e s)"
  by (auto simp: shows_draft_def entry_buffer entry_drafts entry_fields split: option.splits)

lemma frame_shows:
  assumes "distinct (map fst entries)"
  shows "ta_buffer (handle_draft_frame a entries s) = ta_buffer s \<or> shows_draft s (handle_draft_frame a entries s)"
proof (cases "\<exists>e \<in> set entries. Some (a, fst e) = ta_compose_room s")
  case True
  then obtain e where e: "e \<in> set entries" "ta_compose_room s = Some (a, fst e)"
    by metis
  then obtain es1 es2 where es: "entries = es1 @ e # es2"
    by (meson split_list)
  let ?s1 = "fold (apply_draft_entry a) es1 s"
  let ?s2 = "apply_draft_entry a e ?s1"
  have other: "\<forall>x \<in> set es1 \<union> set es2. fst x \<noteq> fst e"
  proof -
    have "fst e \<notin> fst ` set es1" "fst e \<notin> fst ` set es2"
      using assms by (simp_all add: es)
    then show ?thesis
      by (metis Un_iff imageI)
  qed
  have s1: "ta_buffer ?s1 = ta_buffer s" "ta_drafts ?s1 (a, fst e) = ta_drafts s (a, fst e)"
    using frame_other_room [of es1 a s] other e(2) by auto
  have s2: "ta_buffer (fold (apply_draft_entry a) es2 ?s2) = ta_buffer ?s2"
    "ta_drafts (fold (apply_draft_entry a) es2 ?s2) (a, fst e) = ta_drafts ?s2 (a, fst e)"
    using frame_other_room [of es2 a ?s2] other e(2) by (auto simp: entry_fields fold_entry_fields)
  show ?thesis
    using entry_shows [of a e ?s1] s1 s2 e(2)
    by (auto simp: handle_draft_frame_def es shows_draft_def fold_entry_fields entry_fields)
next
  case False
  then show ?thesis
    using frame_other_room [of entries a s] by (auto simp: handle_draft_frame_def)
qed

lemma fold_read_fields:
  "ta_compose_room (fold apply_draft_read reads s) = ta_compose_room s" "ta_buffer (fold apply_draft_read reads s) = ta_buffer s"
  "buffer_holds_draft (fold apply_draft_read reads s) = buffer_holds_draft s"
  by (induction reads arbitrary: s) (simp_all add: read_fields read_holds)

lemma reads_show: "ta_buffer (apply_draft_reads reads s) = ta_buffer s \<or> shows_draft s (apply_draft_reads reads s)"
  by (auto simp: apply_draft_reads_def shows_draft_def restore_buffer restore_compose restore_fields fold_read_fields
      split: option.splits)

lemma shows_view:
  assumes "draft_view s1 = draft_view s" "draft_view s2' = draft_view s2"
  shows "shows_draft s1 s2' = shows_draft s s2"
  unfolding shows_draft_def draft_viewD [OF assms(1)] draft_viewD [OF assms(2)] ..

lemma draft_text_value: "draft_text (draft_value d) = Some d"
  by (simp add: draft_value_def draft_text_def jobj_def)

lemma incoming_draft_value: "incoming_draft (draft_value d) = Some (Some d)"
  by (simp add: incoming_draft_def draft_text_value) (simp add: draft_value_def jobj_def)

section \<open>Properties\<close>

text \<open>C34: a text that is no command, typed in a room to which the buffer belongs, stays the draft of that room on record, and
  coming back to the room shows it again, through every run of the events of \<open>tui_event\<close> (keys, ticks, frames, reads, room
  changes, refreshed room lists, failed joins), except for those that \<open>event_leaves\<close> leaves out: further typing in the room, the clear key of an
  edit or a reaction, the focus keys in the date prompt, a frame of another device or an unprotecting read that says
  otherwise (a stale one included), a refreshed list that takes the selected room away, and an account command that puts its
  line back.\<close>

theorem draft_survives:
  assumes "draft_wf s" "ta_mode s = Compose" "selected_room s = Some r" "b \<noteq> []" "\<not> is_command b"
    and "draft_run r b es (tui_handle (EKey (KText b c) now) s)"
    and "s' = fold tui_handle es (tui_handle (EKey (KText b c) now) s)"
  shows "draft_on_record s' r = Some b \<and>
    (\<forall>i < length (ta_rooms s'). ta_rooms s' ! i = r \<longrightarrow> ta_buffer (tui_handle (EKey (KSwitch i) later) s') = b)"
proof -
  have kept: "draft_wf s' \<and> keeps r b s'"
    using keeps_typed [OF assms(1-5), of c now] keeps_run [OF _ _ assms(4,5,6)] assms(7) by simp
  have "ta_buffer (tui_handle (EKey (KSwitch i) later) s') = b" if i: "i < length (ta_rooms s')" "ta_rooms s' ! i = r" for i
  proof -
    let ?s = "switch_room i s'"
    have "draft_wf ?s" "keeps r b ?s"
      using kept i(1) wf_switch keeps_switch by auto
    moreover have "mode_plain (ta_mode ?s)"
      using wf_abandon(2) [of s'] kept by (simp add: switch_room_def Let_def sync_fields)
    moreover have "selected_room ?s = Some r"
    proof -
      have "ta_rooms (abandon_transient_input_mode s') = ta_rooms s'"
        by (simp add: abandon_transient_input_mode_def restore_fields clear_input_buffer_def Let_def)
      then have "selected_room ((abandon_transient_input_mode s')\<lparr>ta_selected := Some i\<rparr>) = Some r"
        using i by (simp add: selected_room_def)
      then show ?thesis
        by (simp add: switch_room_def Let_def sync_selected)
    qed
    ultimately have "ta_buffer ?s = b"
      using holds_plain by (auto simp: keeps_def draft_wf_def)
    then show ?thesis
      by (simp add: note_fields)
  qed
  then show ?thesis
    using kept by (simp add: keeps_def)
qed

text \<open>C35: what reaches the compose buffer without a key. A tick, a frame of another device, a landed read, a request, an
  outcome and a read position leave it, or it was empty or equal to the known draft of its room, and then it shows the draft
  known after the event. A refreshed room list, a loaded timeline and a joined room that opens leave it, or they change rooms:
  then it shows what is on record of the room selected now, and no room's draft on record changes, so the text replaced is lost
  only where it was not on record, as a half-typed command is not. A failed join puts its line into an empty buffer only. The
  exception is an account command that puts its line back (\<open>command_overwrites\<close>); prompts are not covered.\<close>

theorem draft_buffer_safe:
  assumes "tui_background e"
  shows "ta_buffer (tui_handle e s) = ta_buffer s \<or>
    (if room_event e then changes_room s (tui_handle e s)
     else shows_draft s (tui_handle e s) \<or> (\<exists>a. e = EJoinFailed a \<and> ta_mode s = Compose \<and> ta_buffer s = []))"
proof (cases e)
  case (ELanded markers drafts)
  let ?s = "apply_read_marker_reads markers (s\<lparr>ta_inflight := False\<rparr>)"
  have v: "draft_view ?s = draft_view s"
    by (simp add: view_marker_reads view_marker_update)
  have w: "draft_view (tui_handle e s) = draft_view (apply_draft_reads drafts ?s)"
    by (simp add: ELanded device_state_landed_def Let_def view_request view_marker_update)
  show ?thesis
    using reads_show [of drafts ?s] shows_view [OF v [symmetric] w] draft_viewD(4) [OF v] draft_viewD(4) [OF w]
    by (simp add: ELanded room_event_def)
next
  case (EFrame a device ns entries)
  then show ?thesis
    using frame_shows [of entries a s] assms draft_viewD(4) [OF view_marker_frame [of a entries s]]
    by (simp add: handle_device_state_frame_def tui_background_def room_event_def)
next
  case ESync
  then show ?thesis
    using sync_changes_room [of s] by (auto simp: room_event_def)
next
  case (EOpen i)
  then show ?thesis
    using open_changes_room [of i s] by (simp add: room_event_def)
next
  case (EJoinFailed a)
  then show ?thesis
    by (simp add: restore_join_line_if_composer_is_empty_def room_event_def)
qed (use assms in \<open>simp_all add: tui_background_def tui_tick_def draft_viewD(4) [OF view_flush_typing] draft_viewD(4) [OF view_flush_marker]
      compose_viewD(4) [OF compose_flush] draft_viewD(4) [OF view_request] draft_viewD(4) [OF view_outcome]
      draft_viewD(4) [OF view_note_room_read] refresh_fields\<close>)

section \<open>Drafts deleted against the intention\<close>

lemma sent_spawn: "set (ta_sent s) \<subseteq> set (ta_sent (spawn_request q s))"
  by (auto simp: spawn_request_def)

lemma sent_stop_typing: "set (ta_sent s) \<subseteq> set (ta_sent (stop_typing_now s))"
  using sent_spawn [of "s\<lparr>ta_typing := None\<rparr>"] by (auto simp: stop_typing_now_def split: option.split)

lemma sent_flush_typing: "set (ta_sent s) \<subseteq> set (ta_sent (flush_due_typing now s))"
  using sent_stop_typing by (simp add: flush_due_typing_def split: option.split)

lemma sent_read_put: "set (ta_sent s) \<subseteq> set (ta_sent (spawn_current_read_put r m s))"
  by (auto simp: spawn_current_read_put_def current_read_put_def spawn_read_put_def spawn_request_def Let_def split: option.split)

lemma sent_flush_marker: "set (ta_sent s) \<subseteq> set (ta_sent (flush_due_marker_put now s))"
  using sent_read_put [of "s\<lparr>ta_pending_marker := None\<rparr>"] by (auto simp: flush_due_marker_put_def split: option.split)

text \<open>A pending deletion that is due takes the draft from the record and sends the deletion.\<close>

lemma tick_deletes:
  assumes "ta_pending s = Some \<lparr>pd_room = r, pd_value = None, pd_due = due\<rparr>" "due \<le> now" "ta_drafts s r = Some d" "ta_wired s"
  shows "ta_drafts (tui_tick now s) r = None \<and> PutState (ta_device s) (fst r) DRAFTS_NAMESPACE [(snd r, None)] \<in> set (ta_sent (tui_tick now s))
    \<and> ta_buffer (tui_tick now s) = ta_buffer s"
proof -
  let ?s = "flush_due_draft_put now s"
  have "PutState (ta_device s) (fst r) DRAFTS_NAMESPACE [(snd r, None)] \<in> set (ta_sent ?s)" "ta_drafts ?s r = None"
    using assms by (auto simp: flush_due_draft_put_def put_draft_def spawn_request_def Let_def)
  then show ?thesis
    using sent_flush_marker [of ?s now] sent_flush_typing [of "flush_due_marker_put now ?s" now]
    by (auto simp: tui_tick_def draft_viewD(4,6) [OF view_flush_typing] draft_viewD(4,6) [OF view_flush_marker] compose_viewD(4) [OF compose_flush])
qed

text \<open>C37: A message edit or a reaction borrows the buffer. Submitting it gives the room's draft back and leaves nothing to
  write. Leaving it with the clear key does not: the buffer stays empty, and the next tick after the debounce deletes
  the draft from the record and sends the deletion to the server.\<close>

theorem draft_cancel_deletes:
  assumes "draft_start s0" "tui_step\<^sup>*\<^sup>* s0 s" "key_possible KClear s" "selected_room s = Some r" "ta_drafts s r = Some d" "d \<noteq> []"
    and "\<not> is_command d" "ta_wired s"
  shows "ta_buffer (tui_handle (EKey KSubmit now) s) = d \<and> ta_pending (tui_handle (EKey KSubmit now) s) = None \<and>
    (let s' = tui_tick (now + DRAFT_DEBOUNCE) (tui_handle (EKey KClear now) s)
     in ta_buffer s' = [] \<and> ta_drafts s' r = None \<and>
        PutState (ta_device s) (fst r) DRAFTS_NAMESPACE [(snd r, None)] \<in> set (ta_sent s'))"
proof -
  have "loan_wf s"
    using assms(1,2) by (rule tui.reach_inv)
  moreover have "mode_loan (ta_mode s)" "\<not> mode_plain (ta_mode s)"
    using assms(3) by (auto simp: mode_loan_def mode_plain_def split: tui_mode.splits)
  ultimately have none: "ta_pending s = None"
    by (auto simp: loan_wf_def)
  have holds: "buffer_holds_draft (s\<lparr>ta_buffer := [], ta_cursor := 0, ta_mode := Compose\<rparr>)"
    by (simp add: buffer_holds_draft_def)
  have submit: "ta_buffer (submit_borrowed s) = d" "ta_pending (submit_borrowed s) = None" "ta_drafts (submit_borrowed s) = ta_drafts s"
    "selected_room (submit_borrowed s) = Some r"
    using assms(4,5) none holds by (simp_all add: submit_borrowed_def restore_fields restore_selected restore_buffer)
  let ?c = "clear_input_and_selection s"
  have c: "ta_mode ?c = Compose" "ta_buffer ?c = []" "ta_drafts ?c = ta_drafts s" "selected_room ?c = Some r" "ta_wired ?c = ta_wired s"
    "ta_device ?c = ta_device s"
    using assms(4) by (simp_all add: clear_input_and_selection_def clear_input_buffer_def)
  let ?n = "note_draft_activity now ?c"
  have wd: "ta_wired ?n = ta_wired s" "ta_device ?n = ta_device s"
    using c assms(5) by (auto simp: note_draft_activity_def is_command_def draft_viewD(8,9) [OF view_stop_typing_for] Let_def)
  have p: "ta_pending ?n = Some \<lparr>pd_room = r, pd_value = None, pd_due = now + DRAFT_DEBOUNCE\<rparr>"
    using c assms(5) by (simp add: note_pending is_command_def buffer_draft_def)
  have "ta_drafts ?n r = Some d"
    using c assms(5) by (simp add: note_fields)
  from tick_deletes [OF p order.refl this] show ?thesis
    using submit assms(5-8) c wd by (simp add: note_fields note_pending buffer_draft_def Let_def)
qed

text \<open>C38: The user empties the buffer of a room; before the debounce ends another device's draft for the room arrives. The
  buffer shows it, but the deletion stays pending: the next tick sends it, and the newer draft of the other
  device is gone from the record while the buffer still shows it.\<close>

theorem draft_adoption_undone:
  assumes "ta_pending s = Some \<lparr>pd_room = r, pd_value = None, pd_due = due\<rparr>" "ta_compose_room s = Some r" "ta_buffer s = []"
    and "buffer_holds_draft s" "device \<noteq> ta_device s" "ta_wired s" "due \<le> now"
  shows "let s1 = tui_handle (EFrame (fst r) device DRAFTS_NAMESPACE [(snd r, draft_value d)]) s; s2 = tui_handle (ETick now) s1
    in ta_buffer s1 = d \<and> ta_drafts s1 r = Some d \<and> ta_buffer s2 = d \<and> ta_drafts s2 r = None \<and>
       PutState (ta_device s) (fst r) DRAFTS_NAMESPACE [(snd r, None)] \<in> set (ta_sent s2)"
proof -
  let ?s1 = "apply_draft_entry (fst r) (snd r, draft_value d) s"
  have inc: "incoming_draft (draft_value d) = Some (Some d)"
    by (rule incoming_draft_value)
  have s1: "handle_device_state_frame (fst r) device DRAFTS_NAMESPACE [(snd r, draft_value d)] s = ?s1"
    using assms(5) by (simp add: handle_device_state_frame_def handle_draft_frame_def)
  have f: "ta_buffer ?s1 = d" "ta_drafts ?s1 r = Some d" "ta_pending ?s1 = ta_pending s" "ta_wired ?s1 = ta_wired s" "ta_device ?s1 = ta_device s"
    using assms(2-4) inc by (auto simp: entry_buffer entry_drafts entry_fields apply_draft_entry_def Let_def set_buffer_def)
  show ?thesis
    using tick_deletes [of ?s1 r due now d] assms(1,6,7) f by (simp add: s1)
qed

section \<open>Text that changes rooms\<close>

text \<open>The focus keys leave the date prompt for the compose line with its text in the buffer, which becomes the room's draft.\<close>

lemma date_text_drafted:
  assumes "ta_mode s = DateJump" "selected_room s = Some r" "ta_buffer s \<noteq> []" "\<not> is_command (ta_buffer s)" "ta_drafts s r \<noteq> Some (ta_buffer s)"
  shows "ta_pending (tui_handle (EKey (KFocusNext accounts rooms) now) s) =
    Some \<lparr>pd_room = r, pd_value = Some (ta_buffer s), pd_due = now + DRAFT_DEBOUNCE\<rparr>"
  using assms by (simp add: cycle_focus_def abandons_on_focus_def focus_next_def focus_panel_def note_pending buffer_draft_def)

text \<open>A refreshed room list without the selected room leaves the buffer to the room that takes its place: with the next
  key its text is that room's draft.\<close>

lemma refresh_moves_text:
  assumes "ta_mode s = Compose" "s' = refresh_selection rooms eligible visible False s" "selected_room s' = Some r'"
    and "ta_buffer s \<noteq> []" "\<not> is_command (ta_buffer s)" "ta_drafts s r' \<noteq> Some (ta_buffer s)"
  shows "ta_pending (tui_handle (EKey (KText (ta_buffer s) c) now) s') =
    Some \<lparr>pd_room = r', pd_value = Some (ta_buffer s), pd_due = now + DRAFT_DEBOUNCE\<rparr>"
proof -
  have "ta_mode s' = Compose" "ta_drafts s' = ta_drafts s"
    using assms(1,2) by (simp_all add: refresh_selection_def Let_def)
  then show ?thesis
    using assms(3-6) by (simp add: note_pending buffer_draft_def)
qed

text \<open>The user types on while an account command is looked up. Its line then replaces the text, and the next key cancels the
  write of the text, which is on no record any more.\<close>

lemma command_overwrites:
  assumes "draft_wf s" "ta_mode s = Compose" "selected_room s = Some r" "s1 = tui_handle (EKey (KText b c) now) s"
    and "event_possible (EUnresolved name target) s1" "s2 = tui_handle (EUnresolved name target) s1" "is_command t"
  shows "is_command (ta_buffer s2)"
    "draft_on_record (tui_handle (EKey (KText t c') later) s2) r = ta_drafts s r"
proof -
  show "is_command (ta_buffer s2)"
    using assms(5) by (auto simp: assms(6) restore_command_input_def set_buffer_def is_command_def lit_def split: option.split)
  let ?s0 = "s\<lparr>ta_buffer := b, ta_cursor := c\<rparr>"
  have "draft_wf ?s0"
    using assms(1) by (simp add: draft_wf_def)
  then have "draft_wf s1" "selected_room s1 = Some r" "ta_drafts s1 = ta_drafts s"
    using assms(3,4) by (simp_all add: wf_note note_selected note_fields)
  then have s2: "draft_wf (s2\<lparr>ta_buffer := t, ta_cursor := c'\<rparr>)" "ta_mode s2 = Compose" "selected_room s2 = Some r" "ta_drafts s2 = ta_drafts s"
    by (simp_all add: assms(6) command_fields draft_wf_def mode_plain_def)
  then show "draft_on_record (tui_handle (EKey (KText t c') later) s2) r = ta_drafts s r"
    using record_note [OF s2(1)] assms(7) by simp
qed

section \<open>A read that is too old\<close>

lemma stale_read_drops:
  assumes "r \<notin> protected_rooms (fst r) s" "snd r \<notin> fst ` set entries"
  shows "ta_drafts (apply_draft_read (fst r, Some entries) s) r = None"
proof -
  have "filter (\<lambda>e. fst e = snd r \<and> draft_text (snd e) \<noteq> None) (rev entries) = []"
    using assms(2) by (force simp: filter_empty_conv)
  then show ?thesis
    using assms by (simp add: apply_draft_read_def Let_def fold_insert_draft)
qed

text \<open>The user types a draft and goes to another room, which records it and sends it. A read of the account's drafts that
  was answered before that write arrived then takes the draft from the record again, although the write succeeds: only the room
  open now, a pending write and rooms with a frame since the read was requested are protected from it.\<close>

theorem draft_stale_read:
  assumes "draft_wf s" "ta_mode s = Compose" "selected_room s = Some r" "b \<noteq> []" "\<not> is_command b"
    and "i < length (ta_rooms s)" "ta_rooms s ! i \<noteq> r"
    and "s1 = tui_handle (EKey (KSwitch i) later) (tui_handle (EKey (KText b c) now) s)"
    and "r \<notin> ta_since_fetch s1" "snd r \<notin> fst ` set entries"
  shows "ta_drafts s1 r = Some b \<and> ta_drafts (tui_handle (ELanded markers [(fst r, Some entries)]) s1) r = None"
proof -
  let ?s0 = "tui_handle (EKey (KText b c) now) s"
  have typed: "draft_wf ?s0" "keeps r b ?s0"
    using keeps_typed [OF assms(1-5), of c now] by simp_all
  have rooms: "ta_rooms ?s0 = ta_rooms s"
    by (simp add: note_fields)
  have "draft_wf (switch_room i ?s0)" "keeps r b (switch_room i ?s0)"
    using typed assms(6) rooms wf_switch keeps_switch by auto
  then have s1: "draft_wf s1" "keeps r b s1"
    using assms(4,5,8) by (simp_all add: wf_note keeps_note)
  have "selected_room (switch_room i ?s0) = Some (ta_rooms s ! i)"
    using switch_selected [of i ?s0] assms(6) unfolding rooms .
  then have "selected_room s1 = Some (ta_rooms s ! i)"
    using assms(8) by (simp add: note_selected)
  then have compose: "ta_compose_room s1 = Some (ta_rooms s ! i)" "\<And>p. ta_pending s1 = Some p \<Longrightarrow> pd_room p = ta_rooms s ! i"
    using s1(1) by (auto simp: draft_wf_def)
  have before: "ta_drafts s1 r = Some b"
    using s1(2) compose(2) assms(7) by (auto simp: keeps_def draft_on_record_def split: option.splits if_splits)
  let ?s = "apply_read_marker_reads markers (s1\<lparr>ta_inflight := False\<rparr>)"
  have "r \<notin> protected_rooms (fst r) ?s"
    using assms(7,9) compose
    by (auto simp: protected_rooms_def draft_viewD(5,7) [OF view_marker_reads] since_fetch_reads)
  from stale_read_drops [OF this assms(10)] have "ta_drafts (apply_draft_reads [(fst r, Some entries)] ?s) r = None"
    by (simp add: apply_draft_reads_def restore_fields)
  then show ?thesis
    using before by (simp add: device_state_landed_def Let_def draft_viewD(6) [OF view_request])
qed

section \<open>Witnesses\<close>

definition demo_app :: tui_app where
  "demo_app =
     \<lparr>ta_mode = Compose, ta_rooms = [(1, [97]), (1, [98])], ta_selected = Some 0, ta_accounts = [1], ta_device = 5, ta_wired = True,
      ta_buffer = [], ta_cursor = 0, ta_compose_room = Some (1, [97]), ta_drafts = Map.empty, ta_pending = None, ta_since_fetch = {},
      ta_inflight = False, ta_again = False, ta_typing = None, ta_markers = Map.empty, ta_receipts = Map.empty,
      ta_failed_receipts = {}, ta_pending_marker = None, ta_unread = Map.empty, ta_unread_touched = {}, ta_sent = []\<rparr>"

lemmas demo_simps =
  demo_app_def selected_room_def draft_start_def note_draft_activity_def is_command_def cancel_pending_draft_put_def note_typing_def
  spawn_request_def switch_room_def abandon_transient_input_mode_def sync_draft_on_room_change_def buffer_holds_draft_def
  stop_typing_now_def stop_typing_for_room_def flush_pending_draft_now_def flush_due_draft_put_def put_draft_def set_buffer_def
  start_date_jump_def clear_input_buffer_def leave_date_jump_def restore_draft_into_buffer_def key_safe_def tui_tick_def
  flush_due_typing_def flush_due_marker_put_def Let_def

definition demo_events :: "tui_event list" where
  "demo_events = [EKey (KSwitch 1) 20, EKey KDateJump 30, EKey (KText [50] 1) 40, ETick 500000000, EKey KLeaveDate 600000000]"

lemma demo_wf: "draft_wf demo_app"
  by (simp add: demo_app_def draft_wf_def selected_room_def mode_plain_def)

theorem draft_survives_witness:
  "draft_wf demo_app \<and> draft_run (1, [97]) [104, 105] demo_events (tui_handle (EKey (KText [104, 105] 2) 10) demo_app) \<and>
   ta_buffer (tui_handle (EKey (KSwitch 0) 700000000) (fold tui_handle demo_events (tui_handle (EKey (KText [104, 105] 2) 10) demo_app))) = [104, 105]"
proof -
  have start: "ta_mode demo_app = Compose" "selected_room demo_app = Some (1, [97])"
    by (simp_all add: demo_app_def selected_room_def)
  have cmd: "\<not> is_command [104, 105]"
    by (simp add: is_command_def)
  have run: "draft_run (1, [97]) [104, 105] demo_events (tui_handle (EKey (KText [104, 105] 2) 10) demo_app)"
    by (simp add: demo_events_def demo_simps event_calm_def)
  have rooms: "ta_rooms (fold tui_handle demo_events (tui_handle (EKey (KText [104, 105] 2) 10) demo_app)) = [(1, [97]), (1, [98])]"
    by (simp add: demo_events_def demo_simps)
  show ?thesis
    using draft_survives [OF demo_wf start _ cmd run refl, of 700000000] demo_wf run rooms by simp
qed

theorem draft_stale_read_witness:
  "ta_drafts (tui_handle (EKey (KSwitch 1) 20) (tui_handle (EKey (KText [104, 105] 2) 10) demo_app)) (1, [97]) = Some [104, 105] \<and>
   ta_drafts (tui_handle (ELanded [] [(1, Some [])]) (tui_handle (EKey (KSwitch 1) 20) (tui_handle (EKey (KText [104, 105] 2) 10) demo_app))) (1, [97]) = None"
proof -
  have h: "ta_mode demo_app = Compose" "selected_room demo_app = Some (1, [97])" "[104, 105] \<noteq> []" "\<not> is_command [104, 105]"
    "1 < length (ta_rooms demo_app)" "ta_rooms demo_app ! 1 \<noteq> (1, [97])"
    by (simp_all add: demo_app_def selected_room_def is_command_def)
  have "(1, [97]) \<notin> ta_since_fetch (tui_handle (EKey (KSwitch 1) 20) (tui_handle (EKey (KText [104, 105] 2) 10) demo_app))"
    by (simp add: demo_simps)
  from draft_stale_read [OF demo_wf h refl this, of "[]" "[]"] show ?thesis
    by simp
qed

theorem draft_buffer_safe_witness:
  "tui_background (EFrame 1 9 DRAFTS_NAMESPACE [([97], draft_value [104])]) \<and>
   ta_buffer (tui_handle (EFrame 1 9 DRAFTS_NAMESPACE [([97], draft_value [104])]) demo_app) = [104] \<and>
   shows_draft demo_app (tui_handle (EFrame 1 9 DRAFTS_NAMESPACE [([97], draft_value [104])]) demo_app)"
proof -
  let ?e = "EFrame 1 9 DRAFTS_NAMESPACE [([97], draft_value [104])]"
  have "tui_background ?e"
    by (simp add: tui_background_def)
  moreover have "ta_buffer (tui_handle ?e demo_app) = [104]"
    by (simp add: handle_device_state_frame_def handle_draft_frame_def entry_buffer incoming_draft_value demo_app_def buffer_holds_draft_def)
  ultimately show ?thesis
    using draft_buffer_safe [of ?e demo_app] by (simp add: demo_app_def room_event_def)
qed

definition demo_draft :: tui_app where
  "demo_draft = demo_app\<lparr>ta_buffer := [104], ta_drafts := [(1, [97]) \<mapsto> [104]]\<rparr>"

definition demo_edit :: tui_app where
  "demo_edit = tui_handle (EKey (KEdit (Some ([36], [120]))) 10) demo_draft"

theorem draft_cancel_deletes_witness:
  "draft_start demo_draft \<and> tui_step\<^sup>*\<^sup>* demo_draft demo_edit \<and> ta_buffer (tui_handle (EKey KSubmit 20) demo_edit) = [104] \<and>
   ta_drafts (tui_tick (20 + DRAFT_DEBOUNCE) (tui_handle (EKey KClear 20) demo_edit)) (1, [97]) = None"
proof -
  have start: "draft_start demo_draft"
    by (simp add: demo_draft_def demo_app_def draft_start_def selected_room_def)
  have "event_possible (EKey (KEdit (Some ([36], [120]))) 10) demo_draft"
    by (simp add: demo_draft_def demo_app_def buffer_holds_draft_def)
  then have step: "tui_step\<^sup>*\<^sup>* demo_draft demo_edit"
    unfolding demo_edit_def by (intro r_into_rtranclp tui_step.intros)
  have echo: "\<not> local_echo [36]"
    by (simp add: local_echo_def strip_prefix_def lit_def)
  have s: "key_possible KClear demo_edit" "selected_room demo_edit = Some (1, [97])" "ta_drafts demo_edit (1, [97]) = Some [104]" "ta_wired demo_edit"
    by (simp_all add: demo_edit_def demo_draft_def start_edit_selected_message_def echo demo_simps)
  show ?thesis
    using draft_cancel_deletes [OF start step s(1-3) _ _ s(4), of 20] start step by (simp add: is_command_def Let_def)
qed

theorem draft_adoption_undone_witness:
  "let s = demo_app\<lparr>ta_drafts := [(1, [97]) \<mapsto> [104]], ta_pending := Some \<lparr>pd_room = (1, [97]), pd_value = None, pd_due = 50\<rparr>\<rparr>;
       s1 = tui_handle (EFrame 1 9 DRAFTS_NAMESPACE [([97], draft_value [105])]) s; s2 = tui_handle (ETick 60) s1
   in ta_buffer s = [] \<and> ta_buffer s1 = [105] \<and> ta_buffer s2 = [105] \<and> ta_drafts s2 (1, [97]) = None"
  using draft_adoption_undone [of "demo_app\<lparr>ta_drafts := [(1, [97]) \<mapsto> [104]], ta_pending := Some \<lparr>pd_room = (1, [97]), pd_value = None, pd_due = 50\<rparr>\<rparr>"
      "(1, [97])" 50 9 60 "[105]"]
  by (simp add: demo_app_def buffer_holds_draft_def Let_def)

end
