(* ===== verification/Tui_Exchange.thy ===== *)
theory Tui_Exchange
  imports Tui_Guarantees
begin

text \<open>
  The terminal client and the server together: what one client writes, the others have. Then the two other things the
  client tells the outside of its own accord: read positions, which never move backwards, and typing notices, which are always
  taken back.
\<close>

interpretation draft_json: codec draft_value draft_text "\<lambda>_. True"
  by unfold_locales (rule draft_text_value)

lemma marker_value_get:
  "jget (marker_value m) (lit ''event_id'') = Some (JString (rk_event m))"
  "jget (marker_value m) (lit ''origin_ts'') = Some (JNumber (rk_origin_ts m))"
  by (simp_all add: marker_value_def jobj_def lit_inject)

interpretation marker_json: codec marker_value marker_from_value "\<lambda>m. in_i64 (rk_origin_ts m)"
  by unfold_locales (simp add: marker_from_value_def marker_value_get)

section \<open>A draft on its way\<close>

lemma stored_draft: "stored_value (map_option draft_value v) = map_option draft_value v"
  by (cases v) (auto simp: stored_value_def draft_value_def jobj_def)

lemma merged_winner:
  assumes "x \<in> set (merged_device_state a n db)"
  shows "winner (filter (row_for a n (ds_key x)) (dd_rows db)) = Some x \<and> ds_value x \<noteq> None"
proof -
  let ?rows = "filter (\<lambda>r. ds_account r = a \<and> ds_namespace r = n) (dd_rows db)"
  have "filter (\<lambda>r. ds_key r = k) ?rows = filter (row_for a n k) (dd_rows db)" for k
    by (auto simp: row_for_def intro: filter_cong)
  then obtain k where "winner (filter (row_for a n k) (dd_rows db)) = Some x" "ds_value x \<noteq> None"
    using assms by (auto simp: merged_device_state_def Let_def List.map_filter_def)
  moreover from this have "ds_key x = k"
    using winner_in by (fastforce simp: row_for_def)
  ultimately show ?thesis
    by simp
qed

text \<open>A client that reads the merged view has at an unprotected room what the view has.\<close>

definition read_view :: "(rstr \<times> json_value \<times> uuid) list \<Rightarrow> json_map" where
  "read_view view = map (\<lambda>(k, v, _). (k, v)) view"

lemma read_view_keys: "fst ` set (read_view view) = fst ` set view"
  by (induction view) (auto simp: read_view_def)

lemma read_unprotected:
  assumes "r \<notin> protected_rooms (fst r) s" "\<And>e. e \<in> set entries \<Longrightarrow> fst e = snd r \<Longrightarrow> draft_text (snd e) = v \<and> v \<noteq> None"
    and "v \<noteq> None \<Longrightarrow> snd r \<in> fst ` set entries"
  shows "ta_drafts (apply_draft_read (fst r, Some entries) s) r = v"
proof -
  let ?hits = "filter (\<lambda>e. fst e = snd r \<and> draft_text (snd e) \<noteq> None) (rev entries)"
  show ?thesis
  proof (cases ?hits)
    case Nil
    then have "snd r \<notin> fst ` set entries"
      using assms(2) by (auto simp: filter_empty_conv)
    then show ?thesis
      using assms(1,3) Nil by (cases v) (simp_all add: apply_draft_read_def Let_def fold_insert_draft)
  next
    case (Cons e es)
    then have "e \<in> set ?hits"
      by simp
    then show ?thesis
      using assms(1,2) Cons by (simp add: apply_draft_read_def Let_def fold_insert_draft)
  qed
qed

lemma view_of_put:
  assumes "put_commit json_len ok1 ok2 t d n a [(k, v)] db = Inr (db', f)" "\<forall>x \<in> set (dd_rows db). ds_updated x < t"
  shows "winner (filter (row_for a n k) (dd_rows db')) = Some (row_of a n k d (stored_value v, t))" "a \<in> set (dd_accounts db')"
proof -
  note put = put_commit_Inr [OF assms(1)]
  show "a \<in> set (dd_accounts db')"
    by (simp add: put)
  let ?new = "row_of a n k d (stored_value v, t)"
  have rows: "set (dd_rows db') = insert ?new {x \<in> set (dd_rows db). \<not> same_primary x ?new}"
    by (simp add: put(5) set_upsert_row row_of_def ds_new_row_def)
  then have mem: "?new \<in> set (filter (row_for a n k) (dd_rows db'))"
    by (simp add: row_of_def row_for_def)
  then have "filter (row_for a n k) (dd_rows db') \<noteq> []"
    by force
  then obtain x where x: "winner (filter (row_for a n k) (dd_rows db')) = Some x"
    by (cases "winner (filter (row_for a n k) (dd_rows db'))") simp_all
  have "x = ?new \<or> ds_updated x < t"
    using winner_in [OF x] rows assms(2) by auto
  moreover have "t \<le> ds_updated x"
    using winner_beats [OF x mem] by (auto simp: beats_def)
  ultimately show "winner (filter (row_for a n k) (dd_rows db')) = Some ?new"
    using x by auto
qed

lemma frame_of_put:
  assumes "put_commit json_len ok1 ok2 t d n a [(k, v)] db = Inr (db', f)"
  shows "df_account f = a" "df_device f = d" "df_namespace f = n" "frame_payload f = [(k, case v of None \<Rightarrow> JNull | Some w \<Rightarrow> w)]"
  by (simp_all add: put_commit_Inr(1) [OF assms] frame_payload_def)

lemma incoming_of_put: "incoming_draft (case map_option draft_value v of None \<Rightarrow> JNull | Some w \<Rightarrow> w) = Some v"
proof (cases v)
  case None
  then show ?thesis
    by (simp add: incoming_draft_def)
next
  case (Some b)
  then show ?thesis
    by (simp add: incoming_draft_value)
qed

lemma read_of_put:
  assumes put: "put_commit json_len ok1 ok2 t d DRAFTS_NAMESPACE (fst r) [(snd r, map_option draft_value v)] db = Inr (db', f)"
    and "\<forall>x \<in> set (dd_rows db). ds_updated x < t"
  shows "\<exists>view. get_device_state True True DRAFTS_NAMESPACE (fst r) db' = Inr view \<and>
    ta_drafts (apply_draft_read (fst r, Some (read_view view)) s) r = (if r \<in> protected_rooms (fst r) s then ta_drafts s r else v)"
proof -
  let ?m = "merged_device_state (fst r) DRAFTS_NAMESPACE db'"
  let ?view = "map (\<lambda>x. (ds_key x, entry_dto x)) ?m"
  have get: "get_device_state True True DRAFTS_NAMESPACE (fst r) db' = Inr ?view"
    using view_of_put(2) [OF put assms(2)] by (simp add: get_device_state_def require_account_def)
  note w = view_of_put(1) [OF put assms(2), unfolded stored_draft]
  have hit: "draft_text (snd e) = v \<and> v \<noteq> None" if "e \<in> set (read_view ?view)" "fst e = snd r" for e
  proof -
    note e = that
    obtain x where x: "x \<in> set ?m" "e = (ds_key x, fst (entry_dto x))"
      using e(1) by (auto simp: read_view_def split_beta)
    then have "winner (filter (row_for (fst r) DRAFTS_NAMESPACE (snd r)) (dd_rows db')) = Some x" "ds_value x \<noteq> None"
      using merged_winner [OF x(1)] e(2) x(2) by auto
    then show ?thesis
      using w x(2) by (auto simp: entry_dto_def draft_text_value)
  qed
  have "map_of ?view (snd r) \<noteq> None" if "v \<noteq> None"
    using that w by (auto simp: merged_lookup)
  then have present: "v \<noteq> None \<Longrightarrow> snd r \<in> fst ` set (read_view ?view)"
    unfolding read_view_keys using map_of_eq_None_iff [of ?view "snd r"] by auto
  show ?thesis
    using get read_unprotected [OF _ hit present] read_protected [of r s] by auto
qed

text \<open>C36: A draft whose debounce has passed is recorded and sent. Once the server has committed that request (with a clock
  that has advanced), a client that receives the frame has it, in its buffer too when that shows the room and
  holds nothing else; and a client that reads the merged view has it, unless the room is protected there: open in it, with a
  pending write, or with a frame since the read was requested. A client that merely has the room open keeps what it
  knew and gets the draft from the frame alone.\<close>

theorem draft_reaches_devices:
  assumes "ta_pending s = Some p" "pd_due p \<le> now" "ta_wired s" "pd_value p = None \<longrightarrow> ta_drafts s (pd_room p) \<noteq> None" "pd_room p = r"
    and put: "put_commit json_len ok1 ok2 t (ta_device s) DRAFTS_NAMESPACE (fst r) [(snd r, map_option draft_value (pd_value p))] db = Inr (db', f)"
    and "\<forall>x \<in> set (dd_rows db). ds_updated x < t"
    and "ta_device s2 \<noteq> ta_device s" and "s2' = handle_device_state_frame (df_account f) (df_device f) (df_namespace f) (frame_payload f) s2"
  shows "PutState (ta_device s) (fst r) DRAFTS_NAMESPACE [(snd r, map_option draft_value (pd_value p))] \<in> set (ta_sent (flush_due_draft_put now s)) \<and>
    ta_drafts (flush_due_draft_put now s) r = pd_value p \<and>
    ta_drafts s2' r = pd_value p \<and>
    (ta_compose_room s2 = Some r \<and> buffer_holds_draft s2 \<and> (ta_buffer s2 = [] \<or> ta_drafts s2 r = Some (ta_buffer s2)) \<longrightarrow>
       ta_buffer s2' = (case pd_value p of None \<Rightarrow> [] | Some b \<Rightarrow> b)) \<and>
    (\<exists>view. get_device_state True True DRAFTS_NAMESPACE (fst r) db' = Inr view \<and>
       ta_drafts (apply_draft_read (fst r, Some (read_view view)) s3) r =
         (if r \<in> protected_rooms (fst r) s3 then ta_drafts s3 r else pd_value p))"
proof -
  have sent: "PutState (ta_device s) (fst r) DRAFTS_NAMESPACE [(snd r, map_option draft_value (pd_value p))] \<in> set (ta_sent (flush_due_draft_put now s))"
    "ta_drafts (flush_due_draft_put now s) r = pd_value p"
    using assms(1-5) by (auto simp: flush_due_draft_put_def put_draft_def spawn_request_def Let_def split: option.split)
  obtain w where w: "s2' = apply_draft_entry (fst r) (snd r, w) s2" "incoming_draft w = Some (pd_value p)"
    using assms(8,9) incoming_of_put [of "pd_value p"]
    by (simp add: frame_of_put [OF put] handle_device_state_frame_def handle_draft_frame_def)
  show ?thesis
    using sent read_of_put [OF put assms(7), of s3] by (simp add: w entry_drafts entry_buffer)
qed

definition demo_pending :: tui_app where
  "demo_pending = demo_app\<lparr>ta_pending := Some \<lparr>pd_room = (1, [97]), pd_value = Some [104], pd_due = 50\<rparr>\<rparr>"

theorem draft_reaches_devices_witness:
  "\<exists>db' f view. put_commit (\<lambda>_. 12) True True 70 5 DRAFTS_NAMESPACE 1 [([97], Some (draft_value [104]))] \<lparr>dd_accounts = [1], dd_rows = []\<rparr> = Inr (db', f) \<and>
     ta_drafts (handle_device_state_frame (df_account f) (df_device f) (df_namespace f) (frame_payload f) (demo_app\<lparr>ta_device := 6\<rparr>)) (1, [97]) = Some [104] \<and>
     get_device_state True True DRAFTS_NAMESPACE 1 db' = Inr view \<and>
     ta_drafts (apply_draft_read (1, Some (read_view view)) (demo_app\<lparr>ta_compose_room := None\<rparr>)) (1, [97]) = Some [104]"
proof -
  let ?put = "put_commit (\<lambda>_. 12) True True 70 5 DRAFTS_NAMESPACE 1 [([97], Some (draft_value [104]))] \<lparr>dd_accounts = [1], dd_rows = []\<rparr>"
  have len: "length (utf8 (lit ''drafts'')) = 6" "length (utf8 [97]) = 1"
    by (code_simp, simp add: utf8_def utf8_char_def)
  have "\<exists>db' f. ?put = Inr (db', f)"
    by (simp add: put_commit_def require_account_def check_put_def DRAFTS_NAMESPACE_def len MAX_NAMESPACE_BYTES_def MAX_PUT_ENTRIES_def
        MAX_KEY_BYTES_def MAX_OPAQUE_JSON_BYTES_def upsert_device_state_def)
  then obtain db' f where put: "?put = Inr (db', f)"
    by blast
  show ?thesis
    using draft_reaches_devices [of demo_pending "\<lparr>pd_room = (1, [97]), pd_value = Some [104], pd_due = 50\<rparr>" 60 "(1, [97])" "\<lambda>_. 12" True True 70
        "\<lparr>dd_accounts = [1], dd_rows = []\<rparr>" db' f "demo_app\<lparr>ta_device := 6\<rparr>" _ "demo_app\<lparr>ta_compose_room := None\<rparr>"] put
    by (auto simp: demo_pending_def demo_app_def protected_rooms_def)
qed

section \<open>What the client tells the outside\<close>

text \<open>The part of the state that typing notices and read positions are kept in, with the requests sent.\<close>

definition outside :: "tui_app \<Rightarrow> typing_notice option \<times> bool \<times> tui_request list \<times> (room_key \<Rightarrow> read_marker option) \<times>
    (room_key \<Rightarrow> receipt_target option) \<times> pending_marker_put option" where
  "outside s = (ta_typing s, ta_wired s, ta_sent s, ta_markers s, ta_receipts s, ta_pending_marker s)"

text \<open>A predicate on that part which the requests of drafts and the operations of typing notices and read positions keep is
  kept by the whole event loop.\<close>

locale tui_observer =
  fixes P :: "tui_app \<Rightarrow> bool"
  assumes P_cong: "outside s = outside s' \<Longrightarrow> P s = P s'"
    and P_put: "P s \<Longrightarrow> P (spawn_request (PutState d a DRAFTS_NAMESPACE es) s)"
    and P_read: "P s \<Longrightarrow> P (spawn_request (ReadState d accounts) s)"
    and P_stop: "P s \<Longrightarrow> P (stop_typing_now s)"
    and P_note: "P s \<Longrightarrow> P (note_typing r now s)"
    and P_room_read: "P s \<Longrightarrow> P (note_room_read r m receipt now s)"
    and P_flush_marker: "P s \<Longrightarrow> P (flush_due_marker_put now s)"
    and P_marker: "P s \<Longrightarrow> P (fst (apply_marker r m s))"
begin

lemma P_update [simp]:
  "P (s\<lparr>ta_pending := p\<rparr>) = P s" "P (s\<lparr>ta_drafts := d\<rparr>) = P s" "P (s\<lparr>ta_compose_room := c\<rparr>) = P s" "P (s\<lparr>ta_buffer := t\<rparr>) = P s"
  "P (s\<lparr>ta_cursor := n\<rparr>) = P s" "P (s\<lparr>ta_mode := m\<rparr>) = P s" "P (s\<lparr>ta_selected := i\<rparr>) = P s" "P (s\<lparr>ta_since_fetch := f\<rparr>) = P s"
  "P (s\<lparr>ta_inflight := b\<rparr>) = P s" "P (s\<lparr>ta_again := g\<rparr>) = P s" "P (s\<lparr>ta_failed_receipts := fr\<rparr>) = P s"
  "P (s\<lparr>ta_unread := u\<rparr>) = P s" "P (s\<lparr>ta_unread_touched := ut\<rparr>) = P s" "P (s\<lparr>ta_rooms := rs\<rparr>) = P s"
  by (rule P_cong, simp add: outside_def)+

lemma P_buffer [simp]: "P (set_buffer t s) = P s" "P (clear_input_buffer s) = P s" "P (s\<lparr>ta_buffer := t, ta_cursor := n\<rparr>) = P s"
  "P (s\<lparr>ta_buffer := t, ta_cursor := n, ta_mode := m\<rparr>) = P s" "P (s\<lparr>ta_pending := p, ta_drafts := d\<rparr>) = P s"
  by (rule P_cong, simp add: outside_def set_buffer_def clear_input_buffer_def)+

lemma P_flush: "P s \<Longrightarrow> P (flush_due_draft_put now s)"
  by (simp add: flush_due_draft_put_def put_draft_def P_put Let_def split: option.split)

lemma P_flush_now: "P s \<Longrightarrow> P (flush_pending_draft_now s)"
  by (simp add: flush_pending_draft_now_def P_flush split: option.split)

lemma P_stop_for: "P s \<Longrightarrow> P (stop_typing_for_room r s)"
  by (simp add: stop_typing_for_room_def P_stop split: option.split)

lemma P_cancel [simp]: "P (cancel_pending_draft_put r s) = P s"
  by (simp add: cancel_pending_draft_put_def split: option.split)

lemma P_activity: "P s \<Longrightarrow> P (note_draft_activity now s)"
  by (simp add: note_draft_activity_def Let_def P_stop_for P_note split: option.split)

lemma P_restore [simp]: "P (restore_draft_into_buffer s) = P s"
  by (simp add: restore_draft_into_buffer_def split: option.split)

lemma P_sync: "P s \<Longrightarrow> P (sync_draft_on_room_change s)"
  by (simp add: sync_draft_on_room_change_def Let_def P_flush_now P_stop)

lemma P_abandon [simp]: "P (abandon_transient_input_mode s) = P s"
  by (simp add: abandon_transient_input_mode_def Let_def)

lemma P_switch: "P s \<Longrightarrow> P (switch_room i s)"
  by (simp add: switch_room_def Let_def P_sync)

lemma P_key: "P s \<Longrightarrow> P (key_effect k s)"
  by (cases k) (auto simp: cycle_focus_def P_switch start_edit_selected_message_def
      start_react_to_selected_message_def start_date_jump_def submit_borrowed_def clear_input_and_selection_def
      leave_date_jump_def P_flush_now split: option.split)

lemma P_tick: "P s \<Longrightarrow> P (tui_tick now s)"
  by (simp add: tui_tick_def flush_due_typing_def P_flush P_flush_marker P_stop split: option.split)

lemma P_entry [simp]: "P (apply_draft_entry a e s) = P s"
  by (rule P_cong) (simp add: apply_draft_entry_def outside_def set_buffer_def Let_def split: option.split)

lemma P_frame_entry: "P s \<Longrightarrow> P (marker_frame_entry a e s)"
  by (simp add: marker_frame_entry_def clear_room_unread_def split_beta P_marker split: option.split)

lemma P_marker_entry: "P s \<Longrightarrow> P (apply_marker_entry a e s)"
  by (simp add: apply_marker_entry_def P_marker split: option.split)

lemma P_frame: "P s \<Longrightarrow> P (handle_device_state_frame a device ns entries s)"
  by (auto simp: handle_device_state_frame_def handle_draft_frame_def handle_read_marker_frame_def
      intro!: fold_invariant_on [where P = P] P_frame_entry)

lemma P_draft_read [simp]: "P (apply_draft_read rd s) = P s"
  by (simp add: apply_draft_read_def Let_def split: option.split)

lemma P_request: "P s \<Longrightarrow> P (request_device_state s)"
  by (simp add: request_device_state_def P_read)

lemma P_landed: "P s \<Longrightarrow> P (device_state_landed markers drafts s)"
proof -
  assume P: "P s"
  have "P (apply_read_marker_reads markers (s\<lparr>ta_inflight := False\<rparr>))"
    unfolding apply_read_marker_reads_def
    by (rule fold_invariant_on) (auto simp: P intro: fold_invariant_on [where P = P] P_marker_entry split: option.split)
  then have "P (apply_draft_reads drafts (apply_read_marker_reads markers (s\<lparr>ta_inflight := False\<rparr>)))"
    by (auto simp: apply_draft_reads_def intro: fold_invariant_on [where P = P])
  then show ?thesis
    by (simp add: device_state_landed_def Let_def P_request)
qed

lemma P_event: "P s \<Longrightarrow> P (tui_handle e s)"
  by (cases e) (simp_all add: P_activity P_key P_tick P_frame P_request P_landed P_room_read P_sync P_switch open_or_defer_joined_room_def
      refresh_selection_def Let_def restore_join_line_if_composer_is_empty_def restore_command_input_def handle_draft_outcome_def
      forget_failed_receipt_def split: draft_outcome.split)

lemma P_reach: "tui_step\<^sup>*\<^sup>* s s' \<Longrightarrow> P s \<Longrightarrow> P s'"
  by (induction rule: rtranclp_induct) (auto elim!: tui_step.cases intro: P_event)

end

section \<open>Typing notices\<close>

fun notice_of :: "room_key \<Rightarrow> tui_request \<Rightarrow> bool option" where
  "notice_of r (SendTyping r' on) = (if r' = r then Some on else None)"
| "notice_of r _ = None"

text \<open>What the last notice sent for a room says.\<close>

definition shown_typing :: "room_key \<Rightarrow> tui_request list \<Rightarrow> bool" where
  "shown_typing r reqs = (case List.map_filter (notice_of r) (rev reqs) of [] \<Rightarrow> False | on # _ \<Rightarrow> on)"

lemma shown_Nil [simp]: "\<not> shown_typing r []"
  by (simp add: shown_typing_def List.map_filter_simps)

lemma shown_snoc [simp]:
  "shown_typing r (reqs @ [q]) = (case notice_of r q of None \<Rightarrow> shown_typing r reqs | Some on \<Rightarrow> on)"
  by (simp add: shown_typing_def List.map_filter_simps split: option.split)

definition typing_ok :: "tui_app \<Rightarrow> bool" where
  "typing_ok s = (ta_wired s \<longrightarrow> (\<forall>r. shown_typing r (ta_sent s) = (\<exists>t. ta_typing s = Some t \<and> tn_room t = r)))"

lemma typing_okD: "typing_ok s \<Longrightarrow> ta_wired s \<Longrightarrow> shown_typing r (ta_sent s) = (\<exists>t. ta_typing s = Some t \<and> tn_room t = r)"
  unfolding typing_ok_def by blast

lemma typing_ok_cong: "outside s = outside s' \<Longrightarrow> typing_ok s = typing_ok s'"
  by (simp add: typing_ok_def outside_def)

lemma typing_ok_silent: "(\<And>r. notice_of r q = None) \<Longrightarrow> typing_ok (spawn_request q s) = typing_ok s"
  by (simp add: typing_ok_def spawn_request_def)

lemma typing_ok_stop: "typing_ok s \<Longrightarrow> typing_ok (stop_typing_now s)"
  by (auto simp: typing_ok_def stop_typing_now_def spawn_request_def split: option.split)

lemma typing_ok_note:
  assumes "typing_ok s"
  shows "typing_ok (note_typing r now s)"
proof -
  let ?s1 = "case ta_typing s of None \<Rightarrow> s | Some t \<Rightarrow> if tn_room t \<noteq> r then stop_typing_now s else s"
  have ok: "typing_ok ?s1"
    using assms typing_ok_stop by (simp split: option.split)
  have slot: "\<forall>t. ta_typing ?s1 = Some t \<longrightarrow> tn_room t = r"
    by (simp add: stop_typing_now_def spawn_request_def split: option.split)
  have "ta_wired (note_typing r now s) = ta_wired ?s1"
    by (simp add: note_typing_def Let_def spawn_request_def)
  moreover have "shown_typing r' (ta_sent (note_typing r now s)) = (r' = r)" if "ta_wired ?s1" for r'
  proof -
    have "shown_typing r' (ta_sent ?s1) = (\<exists>t. ta_typing ?s1 = Some t \<and> tn_room t = r')"
      using ok that by (rule typing_okD)
    then show ?thesis
      using slot that by (cases "ta_typing ?s1") (auto simp: note_typing_def Let_def spawn_request_def)
  qed
  ultimately show ?thesis
    by (auto simp: typing_ok_def note_typing_def Let_def)
qed

lemma typing_ok_update [simp]:
  "typing_ok (s\<lparr>ta_pending_marker := p\<rparr>) = typing_ok s" "typing_ok (s\<lparr>ta_markers := m\<rparr>) = typing_ok s"
  "typing_ok (s\<lparr>ta_failed_receipts := f, ta_receipts := rc\<rparr>) = typing_ok s"
  by (simp_all add: typing_ok_def)

lemma typing_ok_read_put [simp]: "typing_ok (spawn_current_read_put r m s) = typing_ok s"
  by (simp add: spawn_current_read_put_def spawn_read_put_def typing_ok_silent Let_def split_beta split: option.split)

lemma typing_ok_positions [simp]:
  "typing_ok (fst (apply_marker r m s)) = typing_ok s" "typing_ok (fst (apply_receipt_target r t s)) = typing_ok s"
  by (simp_all add: apply_marker_def apply_receipt_target_def Let_def split: option.split)

lemma typing_ok_room_read [simp]: "typing_ok (note_room_read r m receipt now s) = typing_ok s"
  by (simp add: note_room_read_def Let_def split_beta split: option.split)

interpretation typing: tui_observer typing_ok
  by unfold_locales
    (erule typing_ok_cong | simp add: typing_ok_silent typing_ok_stop typing_ok_note flush_due_marker_put_def split: option.split)+

text \<open>Whether a client can send at all does not change.\<close>

interpretation wired: tui_observer ta_wired
  by unfold_locales
    (simp_all add: outside_def spawn_request_def stop_typing_now_def note_typing_def note_room_read_def flush_due_marker_put_def
      apply_marker_def apply_receipt_target_def spawn_current_read_put_def spawn_read_put_def Let_def split_beta split: option.split)

text \<open>What the operations do to the slot of the notice.\<close>

lemma slot_flush: "ta_typing (flush_due_draft_put now s) = ta_typing s"
  by (simp add: flush_due_draft_put_def put_draft_def spawn_request_def Let_def split: option.split)

lemma slot_stop [simp]: "ta_typing (stop_typing_now s) = None"
  by (simp add: stop_typing_now_def spawn_request_def split: option.split)

lemma slot_tick: "ta_typing s = Some t \<Longrightarrow> tn_idle_deadline t \<le> now \<Longrightarrow> ta_typing (tui_tick now s) = None"
proof -
  assume t: "ta_typing s = Some t" "tn_idle_deadline t \<le> now"
  have "ta_typing (flush_due_marker_put now (flush_due_draft_put now s)) = Some t"
    using t(1) by (simp add: flush_due_marker_put_def spawn_current_read_put_def spawn_read_put_def spawn_request_def slot_flush
        Let_def split_beta split: option.split)
  then show ?thesis
    using t(2) by (simp add: tui_tick_def flush_due_typing_def)
qed

lemma slot_sync:
  "buffer_holds_draft s \<Longrightarrow> ta_compose_room s \<noteq> selected_room s \<Longrightarrow> ta_typing (sync_draft_on_room_change s) = None"
  by (simp add: sync_draft_on_room_change_def Let_def set_buffer_def flush_pending_draft_now_def slot_flush split: option.split)

lemma slot_cancel [simp]: "ta_typing (cancel_pending_draft_put r s) = ta_typing s"
  by (simp add: cancel_pending_draft_put_def split: option.split)

lemma slot_stop_for: "ta_typing (stop_typing_for_room r s) = Some t \<Longrightarrow> ta_typing s = Some t \<and> tn_room t \<noteq> r"
  by (auto simp: stop_typing_for_room_def split: option.splits if_splits)

lemma slot_typed:
  assumes "ta_mode s = Compose" "selected_room s = Some r" "b \<noteq> []" "\<not> is_command b" "ta_drafts s r \<noteq> Some b"
  shows "\<exists>t. ta_typing (tui_handle (EKey (KText b c) now) s) = Some t \<and> tn_room t = r"
  using assms by (simp add: note_draft_activity_def note_typing_def Let_def)

lemma slot_emptied:
  assumes "ta_mode s = Compose" "selected_room s = Some r" "b = [] \<or> is_command b" "ta_typing (tui_handle (EKey (KText b c) now) s) = Some t"
  shows "tn_room t \<noteq> r"
proof -
  let ?s1 = "s\<lparr>ta_buffer := b, ta_cursor := c, ta_compose_room := Some r\<rparr>"
  have "ta_typing (tui_handle (EKey (KText b c) now) s) = ta_typing (stop_typing_for_room r ?s1)"
    using assms(1-3)
    by (auto simp: note_draft_activity_def Let_def is_command_def cancel_pending_draft_put_def stop_typing_for_room_def stop_typing_now_def
        spawn_request_def split: option.split)
  then show ?thesis
    using assms(4) slot_stop_for by metis
qed

text \<open>A note on a buffer that shows what is recorded starts no notice.\<close>

lemma slot_note:
  assumes "ta_typing s = None" "selected_room s = Some r" "ta_buffer s = (case ta_drafts s r of None \<Rightarrow> [] | Some b \<Rightarrow> b)"
  shows "ta_typing (note_draft_activity now s) = None"
  using assms by (simp add: note_draft_activity_def Let_def cancel_pending_draft_put_def stop_typing_for_room_def split: option.splits)

section \<open>Leaving a room\<close>

text \<open>Events that take the buffer from the room it belongs to: another room chosen with a key, a joined room that opens, and a timeline
  loaded after the selection moved.\<close>

definition leaves_room :: "tui_event \<Rightarrow> tui_app \<Rightarrow> bool" where
  "leaves_room e s =
     (case e of
        EKey (KSwitch i) now \<Rightarrow> i < length (ta_rooms s) \<and> ta_mode s \<noteq> Verification \<and> ta_compose_room s = selected_room s \<and>
          Some (ta_rooms s ! i) \<noteq> selected_room s
      | EOpen i \<Rightarrow> i < length (ta_rooms s) \<and> \<not> prompt_owns_entry_line (ta_mode s) \<and> ta_compose_room s = selected_room s \<and>
          Some (ta_rooms s ! i) \<noteq> selected_room s
      | ESync \<Rightarrow> buffer_holds_draft s \<and> ta_compose_room s \<noteq> selected_room s
      | _ \<Rightarrow> False)"

lemma abandon_holds: "ta_mode s \<noteq> Verification \<Longrightarrow> buffer_holds_draft (abandon_transient_input_mode s)"
  by (auto simp: abandon_transient_input_mode_def Let_def restore_holds buffer_holds_draft_def restore_fields split: tui_mode.splits)

lemma abandon_compose: "ta_compose_room s = selected_room s \<Longrightarrow> ta_compose_room (abandon_transient_input_mode s) = selected_room s"
proof -
  assume eq: "ta_compose_room s = selected_room s"
  let ?s = "(clear_input_buffer s)\<lparr>ta_mode := Compose\<rparr>"
  have "selected_room ?s = selected_room s" "ta_compose_room ?s = ta_compose_room s"
    by (rule selected_cong) (simp_all add: clear_input_buffer_def)
  then show ?thesis
    using eq by (simp add: abandon_transient_input_mode_def Let_def restore_compose)
qed

text \<open>The room was left: no notice, and the buffer shows what is recorded of the new room.\<close>

lemma switch_quiet:
  assumes "i < length (ta_rooms s)" "ta_mode s \<noteq> Verification" "ta_compose_room s = selected_room s" "Some (ta_rooms s ! i) \<noteq> selected_room s"
  shows "ta_typing (switch_room i s) = None"
    "ta_buffer (switch_room i s) = (case ta_drafts (switch_room i s) (ta_rooms s ! i) of None \<Rightarrow> [] | Some b \<Rightarrow> b)"
proof -
  let ?s1 = "(abandon_transient_input_mode s)\<lparr>ta_selected := Some i\<rparr>"
  have "ta_rooms (abandon_transient_input_mode s) = ta_rooms s"
    by (simp add: abandon_transient_input_mode_def restore_fields clear_input_buffer_def Let_def)
  then have sel: "selected_room ?s1 = Some (ta_rooms s ! i)"
    using assms(1) by (simp add: selected_room_def)
  then have eq: "switch_room i s = sync_draft_on_room_change ?s1"
    by (simp add: switch_room_def Let_def)
  have moved: "buffer_holds_draft ?s1" "ta_compose_room ?s1 \<noteq> selected_room ?s1"
    using abandon_holds [OF assms(2)] holds_mode [of ?s1 "abandon_transient_input_mode s"] abandon_compose [OF assms(3)] assms(4) sel
    by simp_all
  show "ta_typing (switch_room i s) = None"
    unfolding eq by (rule slot_sync [OF moved])
  show "ta_buffer (switch_room i s) = (case ta_drafts (switch_room i s) (ta_rooms s ! i) of None \<Rightarrow> [] | Some b \<Rightarrow> b)"
    unfolding eq sync_draft_on_room_change_def using moved sel by (simp add: Let_def set_buffer_def)
qed

lemma slot_left: "leaves_room e s \<Longrightarrow> ta_typing (tui_handle e s) = None"
proof (cases e)
  case (EKey k now)
  assume "leaves_room e s"
  then obtain i where i: "k = KSwitch i" "i < length (ta_rooms s)" "ta_mode s \<noteq> Verification" "ta_compose_room s = selected_room s"
      "Some (ta_rooms s ! i) \<noteq> selected_room s"
    using EKey by (auto simp: leaves_room_def split: tui_key.splits)
  show ?thesis
    using slot_note [OF switch_quiet(1) switch_selected switch_quiet(2)] i by (simp add: EKey)
next
  case (EOpen i)
  assume leaves: "leaves_room e s"
  then have "ta_mode s \<noteq> Verification"
    using EOpen by (auto simp: leaves_room_def prompt_owns_entry_line_def)
  then show ?thesis
    using switch_quiet(1) [of i s] leaves by (simp add: EOpen leaves_room_def open_or_defer_joined_room_def)
qed (simp_all add: leaves_room_def slot_sync)

text \<open>C40: Typing notices settle, in the order in which the client issues its requests. At every moment the last notice of at most one room says
  that the user is typing. Typing a text in a room shows it there and nowhere else; emptying the buffer or turning it into a
  command takes the room's notice back; when the buffer is taken from its room, by a key, an opened room or a loaded timeline,
  no notice is left anywhere; and a tick after the idle time takes the last notice back.\<close>

theorem typing_notices_settle:
  assumes "ta_sent s0 = []" "ta_typing s0 = None" "ta_wired s" "tui_step\<^sup>*\<^sup>* s0 s"
  shows "(\<forall>r r'. shown_typing r (ta_sent s) \<longrightarrow> shown_typing r' (ta_sent s) \<longrightarrow> r' = r) \<and>
    (\<forall>b c now r. ta_mode s = Compose \<longrightarrow> selected_room s = Some r \<longrightarrow>
       (b \<noteq> [] \<and> \<not> is_command b \<and> ta_drafts s r \<noteq> Some b \<longrightarrow>
          (\<forall>r'. shown_typing r' (ta_sent (tui_handle (EKey (KText b c) now) s)) = (r' = r))) \<and>
       (b = [] \<or> is_command b \<longrightarrow> \<not> shown_typing r (ta_sent (tui_handle (EKey (KText b c) now) s)))) \<and>
    (\<forall>e r. leaves_room e s \<longrightarrow> \<not> shown_typing r (ta_sent (tui_handle e s))) \<and>
    (\<forall>t now r. ta_typing s = Some t \<longrightarrow> tn_idle_deadline t \<le> now \<longrightarrow> \<not> shown_typing r (ta_sent (tui_handle (ETick now) s)))"
proof -
  have ok: "typing_ok s"
    using assms(1,2) by (intro typing.P_reach [OF assms(4)]) (simp add: typing_ok_def)
  have now: "shown_typing r (ta_sent s) = (\<exists>t. ta_typing s = Some t \<and> tn_room t = r)" for r
    by (rule typing_okD [OF ok assms(3)])
  have after: "shown_typing r (ta_sent (tui_handle e s)) = (\<exists>t. ta_typing (tui_handle e s) = Some t \<and> tn_room t = r)" for e r
    by (rule typing_okD [OF typing.P_event [OF ok] wired.P_event [OF assms(3)]])
  have "shown_typing r' (ta_sent (tui_handle (EKey (KText b c) n) s)) = (r' = r)"
    if "ta_mode s = Compose" "selected_room s = Some r" "b \<noteq> []" "\<not> is_command b" "ta_drafts s r \<noteq> Some b" for b c n r r'
    using slot_typed [OF that, of c n] unfolding after by auto
  moreover have "\<not> shown_typing r (ta_sent (tui_handle (EKey (KText b c) n) s))"
    if "ta_mode s = Compose" "selected_room s = Some r" "b = [] \<or> is_command b" for b c n r
    using slot_emptied [OF that, of c n] unfolding after by blast
  moreover have "\<not> shown_typing r (ta_sent (tui_handle e s))" if "leaves_room e s" for e r
    using slot_left [OF that] unfolding after by simp
  moreover have "\<not> shown_typing r (ta_sent (tui_handle (ETick n) s))" if "ta_typing s = Some t" "tn_idle_deadline t \<le> n" for t n r
    using slot_tick [OF that] unfolding after by simp
  moreover have "r' = r" if "shown_typing r (ta_sent s)" "shown_typing r' (ta_sent s)" for r r'
    using that unfolding now by auto
  ultimately show ?thesis
    by blast
qed

definition demo_typing :: tui_app where
  "demo_typing = tui_handle (EKey (KText [104] 1) 10) demo_app"

theorem typing_notices_settle_witness:
  "tui_step\<^sup>*\<^sup>* demo_app demo_typing \<and> shown_typing (1, [97]) (ta_sent demo_typing) \<and>
   \<not> shown_typing (1, [97]) (ta_sent (tui_handle (ETick (10 + TYPING_IDLE)) demo_typing)) \<and>
   \<not> shown_typing (1, [97]) (ta_sent (tui_handle (EKey (KText [] 0) 20) demo_typing)) \<and>
   \<not> shown_typing (1, [97]) (ta_sent (tui_handle (EKey (KSwitch 1) 20) demo_typing))"
proof -
  have step: "tui_step\<^sup>*\<^sup>* demo_app demo_typing"
    unfolding demo_typing_def by (intro r_into_rtranclp tui_step.intros) (simp add: demo_app_def)
  have s: "ta_wired demo_typing" "ta_typing demo_typing = Some \<lparr>tn_room = (1, [97]), tn_last_true = 10, tn_idle_deadline = 10 + TYPING_IDLE\<rparr>"
    "ta_mode demo_typing = Compose" "selected_room demo_typing = Some (1, [97])" "shown_typing (1, [97]) (ta_sent demo_typing)"
    by (simp_all add: demo_typing_def demo_simps shown_typing_def List.map_filter_simps)
  have leaves: "leaves_room (EKey (KSwitch 1) 20) demo_typing"
    by (simp add: leaves_room_def demo_typing_def demo_simps)
  have "ta_sent demo_app = []" "ta_typing demo_app = None"
    by (simp_all add: demo_app_def)
  from typing_notices_settle [OF this s(1) step] show ?thesis
    using step s(2-5) leaves by (simp del: tui_handle.simps)
qed

section \<open>Read positions\<close>

text \<open>The positions a request carries for a room: the display time of a marker, the arrival order of a receipt.\<close>

fun marker_sent :: "room_key \<Rightarrow> tui_request \<Rightarrow> int option" where
  "marker_sent r (PutState d a ns es) =
     (case es of [(k, Some v)] \<Rightarrow> if ns = READ_MARKERS_NAMESPACE \<and> (a, k) = r
        then (case jget v (lit ''origin_ts'') of Some (JNumber n) \<Rightarrow> Some n | _ \<Rightarrow> None) else None
      | _ \<Rightarrow> None)"
| "marker_sent r _ = None"

fun receipt_sent :: "room_key \<Rightarrow> tui_request \<Rightarrow> int option" where
  "receipt_sent r (SendReceipt r' t) = (if r' = r then Some (rt_arrival_order t) else None)"
| "receipt_sent r _ = None"

text \<open>Positions sent in order, none beyond the one known.\<close>

definition forward :: "int list \<Rightarrow> int option \<Rightarrow> bool" where
  "forward ns known = (sorted ns \<and> (\<forall>n \<in> set ns. \<exists>m. known = Some m \<and> n \<le> m))"

definition read_ok :: "tui_app \<Rightarrow> bool" where
  "read_ok s =
     ((\<forall>p. ta_pending_marker s = Some p \<longrightarrow> ta_markers s (pm_room p) \<noteq> None) \<and>
      (\<forall>r. forward (List.map_filter (marker_sent r) (ta_sent s)) (map_option rk_origin_ts (ta_markers s r))) \<and>
      (\<forall>r. forward (List.map_filter (receipt_sent r) (ta_sent s)) (map_option rt_arrival_order (ta_receipts s r))))"

lemma forward_snoc: "forward ns (Some m) \<Longrightarrow> forward (ns @ [m]) (Some m)"
  by (auto simp: forward_def sorted_append)

lemma forward_up: "forward ns known \<Longrightarrow> (\<And>n. known = Some n \<Longrightarrow> n \<le> m) \<Longrightarrow> forward ns (Some m)"
  by (fastforce simp: forward_def)

lemma map_filter_snoc: "List.map_filter f (xs @ [x]) = List.map_filter f xs @ (case f x of None \<Rightarrow> [] | Some y \<Rightarrow> [y])"
  by (simp add: List.map_filter_def split: option.split)

lemma read_ok_cong: "outside s = outside s' \<Longrightarrow> read_ok s = read_ok s'"
  by (simp add: read_ok_def outside_def)

lemma read_ok_silent:
  assumes "\<And>r. marker_sent r q = None" "\<And>r. receipt_sent r q = None"
  shows "read_ok (spawn_request q s) = read_ok s"
  using assms by (simp add: read_ok_def spawn_request_def map_filter_snoc)

lemma marker_sent_drafts: "marker_sent r (PutState d a DRAFTS_NAMESPACE es) = None"
  by (simp add: DRAFTS_NAMESPACE_def READ_MARKERS_NAMESPACE_def lit_inject split: list.split option.split)

lemma read_ok_drafts [simp]: "read_ok (spawn_request (PutState d a DRAFTS_NAMESPACE es) s) = read_ok s"
  by (rule read_ok_silent) (rule marker_sent_drafts, simp)

lemma read_ok_typing [simp]: "read_ok (s\<lparr>ta_typing := x\<rparr>) = read_ok s"
  by (simp add: read_ok_def)

lemma read_ok_stop [simp]: "read_ok (stop_typing_now s) = read_ok s"
  by (simp add: stop_typing_now_def read_ok_silent split: option.split)

lemma read_ok_note [simp]: "read_ok (note_typing r now s) = read_ok s"
  by (simp add: note_typing_def Let_def read_ok_silent split: option.split)

lemma read_ok_send_receipt:
  assumes "read_ok s" "ta_receipts s r = Some t"
  shows "read_ok (spawn_request (SendReceipt r t) s)"
  unfolding read_ok_def
proof (intro conjI allI)
  fix r'
  have "forward (List.map_filter (receipt_sent r') (ta_sent s)) (map_option rt_arrival_order (ta_receipts s r'))"
    using assms(1) by (simp only: read_ok_def)
  then show "forward (List.map_filter (receipt_sent r') (ta_sent (spawn_request (SendReceipt r t) s)))
      (map_option rt_arrival_order (ta_receipts (spawn_request (SendReceipt r t) s) r'))"
    using assms(2) by (auto simp: spawn_request_def map_filter_snoc forward_snoc)
qed (use assms(1) in \<open>simp_all add: read_ok_def spawn_request_def map_filter_snoc del: split_paired_All\<close>)

lemma read_ok_send_marker:
  assumes "read_ok s" "ta_markers s r = Some m"
  shows "read_ok (spawn_request (PutState d (fst r) READ_MARKERS_NAMESPACE [(snd r, Some (marker_value m))]) s)"
  unfolding read_ok_def
proof (intro conjI allI)
  fix r'
  have "forward (List.map_filter (marker_sent r') (ta_sent s)) (map_option rk_origin_ts (ta_markers s r'))"
    using assms(1) by (simp only: read_ok_def)
  then show "forward (List.map_filter (marker_sent r') (ta_sent (spawn_request (PutState d (fst r) READ_MARKERS_NAMESPACE [(snd r, Some (marker_value m))]) s)))
      (map_option rk_origin_ts (ta_markers (spawn_request (PutState d (fst r) READ_MARKERS_NAMESPACE [(snd r, Some (marker_value m))]) s) r'))"
    using assms(2) by (auto simp: spawn_request_def map_filter_snoc forward_snoc marker_value_get)
qed (use assms(1) in \<open>simp_all add: read_ok_def spawn_request_def map_filter_snoc del: split_paired_All\<close>)

lemma read_ok_put:
  assumes "read_ok s" "ta_markers s r \<noteq> None"
  shows "read_ok (spawn_current_read_put r armed s)"
proof -
  obtain m where m: "ta_markers s r = Some m"
    using assms(2) by blast
  let ?s1 = "case ta_receipts s r of None \<Rightarrow> s | Some t \<Rightarrow> spawn_request (SendReceipt r t) s"
  have "read_ok ?s1" "ta_markers ?s1 r = Some m"
    using assms(1) m read_ok_send_receipt by (auto simp: spawn_request_def split: option.split)
  then show ?thesis
    by (simp add: spawn_current_read_put_def current_read_put_def spawn_read_put_def m Let_def read_ok_send_marker)
qed

lemma read_ok_marker:
  assumes "read_ok s"
  shows "read_ok (fst (apply_marker r m s))"
proof (cases "\<exists>c. ta_markers s r = Some c \<and> rk_origin_ts m \<le> rk_origin_ts c")
  case False
  then have eq: "fst (apply_marker r m s) = s\<lparr>ta_markers := (ta_markers s)(r \<mapsto> m)\<rparr>"
    by (auto simp: apply_marker_def split: option.split)
  have "forward (List.map_filter (marker_sent r') (ta_sent s)) (map_option rk_origin_ts (((ta_markers s)(r \<mapsto> m)) r'))" for r'
  proof -
    have "forward (List.map_filter (marker_sent r') (ta_sent s)) (map_option rk_origin_ts (ta_markers s r'))"
      using assms by (simp only: read_ok_def)
    then show ?thesis
      using False by (auto intro: forward_up)
  qed
  then show ?thesis
    using assms unfolding eq by (simp add: read_ok_def)
qed (use assms in \<open>auto simp: apply_marker_def\<close>)

lemma read_ok_receipt:
  assumes "read_ok s"
  shows "read_ok (fst (apply_receipt_target r t s))"
proof (cases "\<exists>c. ta_receipts s r = Some c \<and> rt_arrival_order t < rt_arrival_order c")
  case True
  then show ?thesis
    using assms by (auto simp: apply_receipt_target_def Let_def)
next
  case False
  have up: "forward (List.map_filter (receipt_sent r') (ta_sent s)) (map_option rt_arrival_order (((ta_receipts s)(r \<mapsto> t)) r'))" for r'
  proof -
    have "forward (List.map_filter (receipt_sent r') (ta_sent s)) (map_option rt_arrival_order (ta_receipts s r'))"
      using assms by (simp only: read_ok_def)
    then show ?thesis
      using False by (auto intro: forward_up)
  qed
  then show ?thesis
    using assms by (simp add: apply_receipt_target_def Let_def read_ok_def)
qed

lemma marker_after: "ta_markers (fst (apply_marker r m s)) r \<noteq> None"
  by (simp add: apply_marker_def split: option.split)

lemma markers_receipt [simp]: "ta_markers (fst (apply_receipt_target r t s)) = ta_markers s"
  by (simp add: apply_receipt_target_def Let_def)

lemma markers_put [simp]: "ta_markers (spawn_current_read_put r armed s) = ta_markers s"
  by (simp add: spawn_current_read_put_def spawn_read_put_def spawn_request_def Let_def split_beta split: option.split)

lemma read_ok_pending: "read_ok s \<Longrightarrow> ta_pending_marker s = Some p \<Longrightarrow> ta_markers s (pm_room p) \<noteq> None"
  unfolding read_ok_def by blast

lemma read_ok_arm:
  "read_ok s \<Longrightarrow> (\<And>p. op = Some p \<Longrightarrow> ta_markers s (pm_room p) \<noteq> None) \<Longrightarrow> read_ok (s\<lparr>ta_pending_marker := op\<rparr>)"
  by (simp add: read_ok_def)

lemma read_ok_room_read:
  assumes "read_ok s"
  shows "read_ok (note_room_read r m receipt now s)"
proof -
  let ?s1 = "fst (apply_marker r m s)"
  let ?s2 = "fst (case receipt of None \<Rightarrow> (?s1, False) | Some t \<Rightarrow> apply_receipt_target r t ?s1)"
  have ok: "read_ok ?s2" and known: "ta_markers ?s2 r \<noteq> None"
    using read_ok_marker [OF assms] read_ok_receipt marker_after by (auto split: option.split)
  let ?s3 = "case ta_pending_marker ?s2 of None \<Rightarrow> ?s2
     | Some p \<Rightarrow> (if pm_room p \<noteq> r then spawn_current_read_put (pm_room p) (pm_marker p) (?s2\<lparr>ta_pending_marker := None\<rparr>)
                  else ?s2\<lparr>ta_pending_marker := None\<rparr>)"
  have s3: "read_ok ?s3" "ta_markers ?s3 r \<noteq> None"
    using ok known read_ok_pending [OF ok] by (auto split: option.split intro!: read_ok_put read_ok_arm)
  have "read_ok (?s3\<lparr>ta_pending_marker := Some \<lparr>pm_room = r, pm_marker = mk, pm_due = due\<rparr>\<rparr>)" for mk due
    by (rule read_ok_arm [OF s3(1)]) (use s3(2) in simp)
  then show ?thesis
    unfolding note_room_read_def Let_def split_beta using ok by simp
qed

lemma read_ok_flush_marker: "read_ok s \<Longrightarrow> read_ok (flush_due_marker_put now s)"
  using read_ok_pending by (auto simp: flush_due_marker_put_def intro!: read_ok_put read_ok_arm split: option.split)

interpretation reading: tui_observer read_ok
  by unfold_locales
    (erule read_ok_cong | simp add: read_ok_room_read read_ok_flush_marker read_ok_marker | simp add: read_ok_silent)+

text \<open>A marker that is known is never replaced by an older one.\<close>

definition marker_reached :: "room_key \<Rightarrow> int \<Rightarrow> tui_app \<Rightarrow> bool" where
  "marker_reached r n s = (\<exists>m. ta_markers s r = Some m \<and> n \<le> rk_origin_ts m)"

lemma markers_typing [simp]: "ta_markers (stop_typing_now s) = ta_markers s" "ta_markers (note_typing r now s) = ta_markers s"
  "ta_markers (spawn_request q s) = ta_markers s"
  by (simp_all add: stop_typing_now_def note_typing_def spawn_request_def Let_def split: option.split)

lemma marker_reached_apply: "marker_reached r n s \<Longrightarrow> marker_reached r n (fst (apply_marker r' m s))"
  by (auto simp: marker_reached_def apply_marker_def split: option.split)

lemma markers_room_read: "ta_markers (note_room_read r m receipt now s) = ta_markers (fst (apply_marker r m s))"
  by (simp add: note_room_read_def Let_def split_beta split: option.split)

lemma markers_flush: "ta_markers (flush_due_marker_put now s) = ta_markers s"
  by (simp add: flush_due_marker_put_def split: option.split)

lemma marker_reached_markers: "ta_markers s = ta_markers s' \<Longrightarrow> marker_reached r n s = marker_reached r n s'"
  by (simp add: marker_reached_def)

interpretation progress: tui_observer "marker_reached r n" for r n
proof
  show "marker_reached r n s \<Longrightarrow> marker_reached r n (note_room_read r' m receipt now s)" for s r' m receipt now
    using marker_reached_apply marker_reached_markers [OF markers_room_read] by blast
qed (auto simp: marker_reached_apply outside_def markers_flush intro: marker_reached_apply
     elim!: marker_reached_markers [THEN iffD1, rotated])

text \<open>C39: Reading never moves backwards. The display positions written to the server for a room, and the arrival positions of its
  receipts, are each sent in order, whatever the interleaving of reads, frames of other devices, failures and ticks; and a
  marker, once known, is never replaced by an older one.\<close>

theorem read_positions_forward:
  assumes "ta_sent s0 = []" "ta_pending_marker s0 = None" "tui_step\<^sup>*\<^sup>* s0 s"
  shows "sorted (List.map_filter (marker_sent r) (ta_sent s)) \<and> sorted (List.map_filter (receipt_sent r) (ta_sent s)) \<and>
    (\<forall>m. ta_markers s0 r = Some m \<longrightarrow> (\<exists>m'. ta_markers s r = Some m' \<and> rk_origin_ts m \<le> rk_origin_ts m'))"
proof -
  have "read_ok s"
    using assms(1,2) by (intro reading.P_reach [OF assms(3)]) (simp add: read_ok_def forward_def List.map_filter_simps)
  then have "sorted (List.map_filter (marker_sent r) (ta_sent s))" "sorted (List.map_filter (receipt_sent r) (ta_sent s))"
    unfolding read_ok_def forward_def by blast+
  moreover have "\<exists>m'. ta_markers s r = Some m' \<and> rk_origin_ts m \<le> rk_origin_ts m'" if "ta_markers s0 r = Some m" for m
    using progress.P_reach [OF assms(3), of r "rk_origin_ts m"] that by (simp add: marker_reached_def)
  ultimately show ?thesis
    by blast
qed

definition demo_positions :: tui_app where
  "demo_positions = tui_handle (ETick 500000000) (tui_handle (ERead (1, [97]) \<lparr>rk_event = [36], rk_origin_ts = 10\<rparr> (Some \<lparr>rt_event = [37], rt_arrival_order = 3\<rparr>) 5) demo_app)"

theorem read_positions_forward_witness:
  "tui_step\<^sup>*\<^sup>* demo_app demo_positions \<and> List.map_filter (marker_sent (1, [97])) (ta_sent demo_positions) = [10] \<and>
   List.map_filter (receipt_sent (1, [97])) (ta_sent demo_positions) = [3] \<and> sorted (List.map_filter (marker_sent (1, [97])) (ta_sent demo_positions))"
proof -
  have any: "tui_step s (tui_handle (ETick t) s)" "tui_step s (tui_handle (ERead r m receipt t) s)" for s t r m receipt
    by (rule tui_step.intros, simp)+
  have step: "tui_step\<^sup>*\<^sup>* demo_app demo_positions"
    unfolding demo_positions_def by (rule rtranclp.rtrancl_into_rtrancl [OF r_into_rtranclp [of tui_step, OF any(2)] any(1)])
  have "ta_sent demo_app = []" "ta_pending_marker demo_app = None"
    by (simp_all add: demo_app_def)
  from read_positions_forward [OF this step, of "(1, [97])"] have sorted: "sorted (List.map_filter (marker_sent (1, [97])) (ta_sent demo_positions))"
    by blast
  have "ta_sent demo_positions = [SendReceipt (1, [97]) \<lparr>rt_event = [37], rt_arrival_order = 3\<rparr>,
      PutState 5 1 READ_MARKERS_NAMESPACE [([97], Some (marker_value \<lparr>rk_event = [36], rk_origin_ts = 10\<rparr>))]]"
    by (simp add: demo_positions_def note_room_read_def apply_marker_def apply_receipt_target_def spawn_current_read_put_def current_read_put_def
        spawn_read_put_def DRAFT_DEBOUNCE_def demo_simps)
  then show ?thesis
    using step sorted by (simp add: List.map_filter_simps marker_value_get)
qed

end
