(* ===== verification/Spec2Isabelle.thy ===== *)
theory Spec2Isabelle
  imports Gate_Properties Push_Message Push_Decision Push_Payload Push_Scheduler Push_Router Push_Deliver
    Cursor Sync_Health Image_Pack Link_Preview Preview_Generation Room_Sweep Rich_Wrap Html_Render Backfill Media_Flight
    Media_Purge Media_Store Metadata_Routes Upload_Guarantees Tui_Exchange
begin

text \<open>
  \<^bold>\<open>Axon\<close> is a server that keeps a Matrix account connected on behalf of its clients: it synchronises with
  the homeservers (\<^verbatim>\<open>src/crates/axon-sync\<close>), stores everything in a database (\<^verbatim>\<open>axon-store\<close>), indexes it for search
  (\<^verbatim>\<open>axon-search\<close>), caches media (\<^verbatim>\<open>axon-media\<close>), serves an HTTP API (\<^verbatim>\<open>axon-api\<close>, \<^verbatim>\<open>axon-server\<close>) and wakes phones by
  push; \<^verbatim>\<open>axon-core\<close> holds the types and pure functions they share. \<^verbatim>\<open>src/clients/tui\<close> is a terminal client.

  This library models the parts whose logic is the program's own: admission control towards homeservers, push
  notification, bounded traversals, byte accounting, and the parsing and rendering of untrusted content.

  \<^bold>\<open>Conventions.\<close> A Rust struct is a \<^theory_text>\<open>record\<close>, an enum a \<^theory_text>\<open>datatype\<close>; a \<^verbatim>\<open>str\<close> is the list of its scalar
  values, bytes are natural numbers; instants and durations count nanoseconds. A method that locks a mutex is a
  state-passing function; tasks that run concurrently are the steps of a transition system, and what they observe of
  the outside (clock, answers, failures, cancellation) are arguments. A panic or an unanswered \<^verbatim>\<open>expect\<close> is \<open>None\<close> or
  a constructor of its own. Code outside the repository (the \<^verbatim>\<open>url\<close>, HTML and text-wrapping crates, the Matrix SDK,
  the database) is a parameter or an answer given from outside.

  \<^bold>\<open>Shared theories.\<close>
  \<^item> \<^verbatim>\<open>Axon_Prelude\<close>: time, text, the interfaces \<open>inv_system\<close> (initial states, steps, an inductive invariant) and \<open>codec\<close> (an
    encoder with a decoder that inverts it), and lemmas on lists and numbers.
  \<^item> \<^verbatim>\<open>Rust_Text\<close>: UTF-8, integers as text, trimming, splitting and searching as \<^verbatim>\<open>core::str\<close> has them; three
    interpretations of \<open>codec\<close>.
  \<^item> \<^verbatim>\<open>Json_Value\<close>: \<^verbatim>\<open>serde_json::Value\<close> with the ordered maps the server uses.

  \<^bold>\<open>Homeserver load gate\<close> (\<^verbatim>\<open>axon-sync/src/homeserver_gate.rs\<close>; \<^verbatim>\<open>Gate_State\<close>, \<^verbatim>\<open>Gate_Ops\<close>, \<^verbatim>\<open>Gate_System\<close>, \<^verbatim>\<open>Gate_Properties\<close>). Every
  background request to a homeserver takes a permit. \<open>gate_state\<close> and \<open>homeserver_gate\<close> are the structs, one function per
  method; \<open>gate_step\<close> interleaves requests, long-polls, interactive calls and cancellations. Shown: the limit
  and the count of outstanding permits, no lost wake-up, deadlines that miss nothing, a single probe, the
  circuit breaker's cycle, and that a burst of failures counts once.

  \<^bold>\<open>Push\<close> (\<^verbatim>\<open>axon-sync/src/push\<close>). \<^verbatim>\<open>Push_Message\<close> (which events may wake a phone), \<^verbatim>\<open>Push_Decision\<close> (the case list of one room),
  \<^verbatim>\<open>Push_Router\<close> (registrations and rooms of all accounts under any interleaving), \<^verbatim>\<open>Push_Scheduler\<close> (bounded concurrent
  sends, one per device), \<^verbatim>\<open>Push_Payload\<close> (what a phone is told) and \<^verbatim>\<open>Push_Deliver\<close> (the providers' protocols and
  credentials). Shown: an observation of a message is good for one alert, insensitivity to the order of counts and
  messages, that a message waiting for its count alerts exactly within its 300 seconds, removal of accounts, that
  nothing waiting is lost, the disclosure level of payloads, and the effects of a send.

  \<^bold>\<open>Synchronisation workers\<close> (\<^verbatim>\<open>axon-sync\<close>). \<^verbatim>\<open>Sync_Health\<close> (\<^verbatim>\<open>sync_health.rs\<close>): what the label of an account means in
  terms of its history. \<^verbatim>\<open>Room_Sweep\<close> (\<^verbatim>\<open>room_sweep.rs\<close>): the resumable traversal visits every room once, behind the interface
  \<open>keyset_pages\<close> that the store's page query satisfies. \<^verbatim>\<open>Backfill\<close> (\<^verbatim>\<open>backfill.rs\<close> of \<^verbatim>\<open>axon-sync\<close> and \<^verbatim>\<open>axon-store\<close>): the
  cursor of a room never runs ahead of the events handed to the store, whatever fails, with at most one request per
  room and round, and a failing room is left alone for its delay; an event the store then refuses is skipped for good.

  \<^bold>\<open>Room details\<close> (\<^verbatim>\<open>acquisition.rs\<close>, \<^verbatim>\<open>room_details.rs\<close>, \<^verbatim>\<open>bounded_body.rs\<close> of \<^verbatim>\<open>axon-sync\<close>, \<^verbatim>\<open>room_detail_acquisition.rs\<close> and \<^verbatim>\<open>state.rs\<close>
  of \<^verbatim>\<open>axon-store\<close> with the migration, \<^verbatim>\<open>room_details.rs\<close> of \<^verbatim>\<open>axon-api\<close>). A read of a room serves what is cached and queues a job
  when it is stale; the account's worker asks the homeserver, records the answer and announces it. \<^verbatim>\<open>Detail_Changes\<close>: the
  coalescer of change frames as a timed system of producers and flusher; every mark reaches a frame within a second
  and the scheduling latency \<open>lat\<close>. \<^verbatim>\<open>Detail_Store\<close>: the cache table with its checks, the membership epochs and triggers, and
  the upsert of room state; rows always belong to the current epoch, results of an earlier membership are
  dropped, redactions are kept. \<^verbatim>\<open>Detail_Reply\<close>: from the bytes of a response to what a client reads; every outcome fits the
  table, backs off between a minute and a day, and the aliases read are the aliases sent. \<^verbatim>\<open>Detail_Worker\<close>: the queue and
  the worker, one step per await; bounds, pacing, jobs held back after local failures, and that every job a client
  saw pending is announced. \<^verbatim>\<open>Room_Metadata\<close> (\<^verbatim>\<open>axon-api/src/room_metadata.rs\<close>): typed snapshots of untrusted state events, which keep
  every well-formed field and name the malformed ones. \<^verbatim>\<open>Metadata_Routes\<close> (\<^verbatim>\<open>routes/room_metadata.rs\<close>) puts the parts together in the two
  reads: absence is reported only where it was confirmed, and a pending job a read shows is one that will be
  announced.

  \<^bold>\<open>Media cache\<close> (\<^verbatim>\<open>axon-media/src/cache.rs\<close>). \<^verbatim>\<open>Media_Index\<close>: the least-recently-used byte accounting refines a plain list.
  \<^verbatim>\<open>Media_Cache\<close>: requests, purges and the rebuild at boot as tasks; a program point per await, cancellation at each
  of them, file operations that outlive their request. \<^verbatim>\<open>Media_Flight\<close>: at most one download per key and no leaked slot.
  \<^verbatim>\<open>Media_Purge\<close>: a purged account's files never return. \<^verbatim>\<open>Media_Store\<close>: what is served is what was downloaded, the disk
  stays within its limit as long as no store is abandoned, and a run in which abandoned stores exceed it.

  \<^bold>\<open>Staged uploads\<close> (\<^verbatim>\<open>axon-server/src/uploads.rs\<close>, \<^verbatim>\<open>axon-store/src/media_uploads.rs\<close>, \<^verbatim>\<open>axon-api/src/uploads.rs\<close>). Clients stream media
  to disk first and then send it. \<^verbatim>\<open>Staged_Uploads\<close>: the table, the files, and every request as a task with a program
  point per await; failures, dropped requests whose last operation still runs, and the reconciliation at boot.
  \<^verbatim>\<open>Upload_Invariants\<close>: an upload has at most one owner, and what it may rely on. \<^verbatim>\<open>Upload_Guarantees\<close>: one holder per claim, who
  gets the bytes its account streamed; the quota of generated previews; what a settled request and a boot
  leave; and that the claim of a dropped request stays until a boot.

  \<^bold>\<open>Content\<close> (\<^verbatim>\<open>axon-core\<close>, \<^verbatim>\<open>axon-api\<close>). \<^verbatim>\<open>Cursor\<close> (pagination cursors round trip and reject what was not issued), \<^verbatim>\<open>Image_Pack\<close>
  (decoding of image packs, media URIs), \<^verbatim>\<open>Link_Preview\<close> (bundled previews) and \<^verbatim>\<open>Preview_Generation\<close> (which URLs the server may
  fetch, and what it makes of the answer).

  \<^bold>\<open>Device state\<close> (\<^verbatim>\<open>axon-store/src/device_state.rs\<close>, \<^verbatim>\<open>axon-api/src/routes/device_state.rs\<close>; \<^verbatim>\<open>app/drafts.rs\<close>, \<^verbatim>\<open>app/typing.rs\<close>,
  \<^verbatim>\<open>app/read_markers.rs\<close>, \<^verbatim>\<open>app/bootstrap.rs\<close>, \<^verbatim>\<open>keymap.rs\<close> of the terminal client). \<^verbatim>\<open>Device_State\<close>: the table in which the clients of an account
  share drafts and read markers, and a server in which writes commit, are announced or are dropped in any order; a read shows the newest
  committed write of a key. \<^verbatim>\<open>Tui_State\<close>: the client's side, every handler of the event loop a function on \<open>tui_app\<close>; the prompts of logins,
  recovery and confirmations, searches and verification are no events. \<^verbatim>\<open>Tui_Drafts\<close>: the invariant of the compose buffer and what keeps a
  draft. \<^verbatim>\<open>Tui_Guarantees\<close>: what a typed text survives and which events take it away; what reaches the buffer without a key; the two
  runs in which a draft is deleted against the intention, and the lesser ones (a date typed into a draft, a text that
  follows a refreshed list to another room, an account command that puts its line back, a read that is too old). \<^verbatim>\<open>Tui_Exchange\<close>:
  client and server together (a flushed draft reaches the other devices, except by a read where the room is open), and behind the
  interface \<open>tui_observer\<close> read positions that only advance and typing notices that are taken back.

  \<^bold>\<open>Terminal client\<close> (\<^verbatim>\<open>clients/tui/src\<close>). \<^verbatim>\<open>Rich_Wrap\<close> (\<^verbatim>\<open>wrap.rs\<close>) and \<^verbatim>\<open>Html_Render\<close> (\<^verbatim>\<open>html.rs\<close>): rendering of received formatted
  text; when wrapping terminates, and the two inputs on which it does not return or panics.

  \<^bold>\<open>Termination.\<close> Loops over lists are structural. \<open>wrap_loop\<close> is a \<^theory_text>\<open>partial_function\<close> in the option monad, since
  the loop of the source does not end on some inputs: \<open>None\<close> is divergence, and both directions are proved.
  \<open>collect_evictions\<close> is a \<^theory_text>\<open>function\<close> whose measure is the number of entries. No definition takes fuel.

  \<^bold>\<open>Not modelled.\<close> What drives the Matrix SDK (sync engine, gateway, verification, key backup, OAuth flows): its
  behaviour is code outside the repository. The SQL of the store, except the tables and queries named above. Routing
  and serialisation of the HTTP API, sign-in with external providers, the Tantivy search index, configuration,
  process start-up, the drawing code of the terminal client, the desktop shell, tests and vendored crates. Logging
  and metrics are left out everywhere.
\<close>

end
